(* ===== verification/Rust_Prelude.thy ===== *)
theory Rust_Prelude
  imports Main "HOL-Library.Word"
begin

text \<open>
  What the components share: the machine integers of the Rust sources as words, panics as the
  left values of a sum, checked slices, the big- and little-endian byte encodings of the standard
  library (\<^verbatim>\<open>to_be_bytes\<close>, \<^verbatim>\<open>from_be_bytes\<close>, \<^verbatim>\<open>to_le_bytes\<close>, \<^verbatim>\<open>from_le_bytes\<close>), and the interface
  \<open>byte_codec\<close> of the \<^verbatim>\<open>Encoder\<close>/\<^verbatim>\<open>Decoder\<close> pairs of the database tables.
\<close>

section \<open>Machine integers, panics, slices\<close>

type_synonym u8 = "8 word"
type_synonym u16 = "16 word"
type_synonym u32 = "32 word"
type_synonym u64 = "64 word"
type_synonym bytes = "u8 list"

text \<open>
  A Rust computation that may panic (or, in unsafe code, read a value that is not of its type) is a value of \<open>panic + 'a\<close>; \<open>and_then\<close> is the propagation of
  the left value, used for panics and for the operator \<^verbatim>\<open>?\<close> on results.
\<close>

datatype panic = Unwrap_None | Slice_Range | Explicit_Panic | Arith_Overflow | Undefined_Behaviour

definition and_then :: "'e + 'a \<Rightarrow> ('a \<Rightarrow> 'e + 'b) \<Rightarrow> 'e + 'b" where
  "and_then m f = (case m of Inl e \<Rightarrow> Inl e | Inr a \<Rightarrow> f a)"

definition unwrap :: "'a option \<Rightarrow> panic + 'a" where
  "unwrap x = (case x of None \<Rightarrow> Inl Unwrap_None | Some a \<Rightarrow> Inr a)"

definition ok_or :: "'e \<Rightarrow> 'a option \<Rightarrow> 'e + 'a" where
  "ok_or e x = (case x of None \<Rightarrow> Inl e | Some a \<Rightarrow> Inr a)"

text \<open>\<open>sub xs i j\<close> is the range \<^verbatim>\<open>xs[i..j]\<close> where it is in bounds; \<open>slice\<close> checks the bounds.\<close>

definition sub :: "'a list \<Rightarrow> nat \<Rightarrow> nat \<Rightarrow> 'a list" where
  "sub xs i j = take (j - i) (drop i xs)"

definition slice :: "'a list \<Rightarrow> nat \<Rightarrow> nat \<Rightarrow> panic + 'a list" where
  "slice xs i j = (if i \<le> j \<and> j \<le> length xs then Inr (sub xs i j) else Inl Slice_Range)"

named_theorems codec_simps \<open>unfolding rules of the encoders and decoders\<close>

lemma and_then_simps [simp]:
  "and_then (Inl e) f = Inl e"
  "and_then (Inr a) f = f a"
  by (simp_all add: and_then_def)

lemma and_then_Inr_iff: "and_then m f = Inr b \<longleftrightarrow> (\<exists>a. m = Inr a \<and> f a = Inr b)"
  by (cases m) simp_all

lemma and_then_Inl_iff: "and_then m f = Inl e \<longleftrightarrow> m = Inl e \<or> (\<exists>a. m = Inr a \<and> f a = Inl e)"
  by (cases m) auto

lemma and_then_assoc:
  "and_then (and_then m f) g = and_then m (\<lambda>a. and_then (f a) g)"
  by (cases m) simp_all

lemma and_then_cong [fundef_cong]:
  "m = m' \<Longrightarrow> (\<And>a. m' = Inr a \<Longrightarrow> f a = g a) \<Longrightarrow> and_then m f = and_then m' g"
  by (cases m') auto

lemma sum_case_and_then:
  "(case m of Inl p \<Rightarrow> Inl p | Inr a \<Rightarrow> f a) = and_then m f"
  by (simp add: and_then_def)

lemma unwrap_simps [simp]: "unwrap None = Inl Unwrap_None" "unwrap (Some a) = Inr a"
  by (simp_all add: unwrap_def)

lemma unwrap_Inr_iff [simp]: "unwrap x = Inr a \<longleftrightarrow> x = Some a"
  by (cases x) simp_all

lemma ok_or_simps [simp]: "ok_or e None = Inl e" "ok_or e (Some a) = Inr a"
  by (simp_all add: ok_or_def)

lemma length_sub [simp]: "length (sub xs i j) = min (j - i) (length xs - i)"
  by (simp add: sub_def min.commute)

lemma sub_append_left: "j \<le> length xs \<Longrightarrow> sub (xs @ ys) i j = sub xs i j"
  by (simp add: sub_def)

lemma sub_append_right: "length xs \<le> i \<Longrightarrow> sub (xs @ ys) i j = sub ys (i - length xs) (j - length xs)"
  by (simp add: sub_def)

lemma sub_zero: "sub xs 0 j = take j xs"
  by (simp add: sub_def)

lemma sub_all: "sub xs 0 (length xs) = xs"
  by (simp add: sub_def)

lemma sub_append_exact:
  "i = length xs \<Longrightarrow> j = length xs + length ys \<Longrightarrow> sub (xs @ ys @ zs) i j = ys"
  by (simp add: sub_def)

lemma slice_Inr_iff: "slice xs i j = Inr ys \<longleftrightarrow> i \<le> j \<and> j \<le> length xs \<and> ys = sub xs i j"
  by (auto simp: slice_def)

section \<open>Byte encodings of machine integers\<close>

fun be_val :: "bytes \<Rightarrow> nat" where
  "be_val [] = 0"
| "be_val (b # bs) = unat b * 256 ^ length bs + be_val bs"

fun be_bytes :: "nat \<Rightarrow> nat \<Rightarrow> bytes" where
  "be_bytes 0 n = []"
| "be_bytes (Suc k) n = word_of_nat (n div 256 ^ k) # be_bytes k n"

definition to_be_bytes :: "'a::len word \<Rightarrow> bytes" where
  "to_be_bytes w = be_bytes (LENGTH('a) div 8) (unat w)"

definition from_be_bytes :: "bytes \<Rightarrow> 'a::len word" where
  "from_be_bytes bs = word_of_nat (be_val bs)"

definition to_le_bytes :: "'a::len word \<Rightarrow> bytes" where
  "to_le_bytes w = rev (to_be_bytes w)"

definition from_le_bytes :: "bytes \<Rightarrow> 'a::len word" where
  "from_le_bytes bs = from_be_bytes (rev bs)"

text \<open>The targets of the program (x86-64 and bpf) are little-endian: native is little-endian.\<close>

abbreviation to_ne_bytes :: "'a::len word \<Rightarrow> bytes" where
  "to_ne_bytes \<equiv> to_le_bytes"

abbreviation from_ne_bytes :: "bytes \<Rightarrow> 'a::len word" where
  "from_ne_bytes \<equiv> from_le_bytes"

lemma unat_bound: "unat (w :: 'a::len word) < 2 ^ LENGTH('a)"
  by (fact unsigned_less)

lemma unat_u8_bound: "unat (b :: u8) < 256"
  using unat_bound [of b] by simp

lemma length_be_bytes [simp]: "length (be_bytes k n) = k"
  by (induction k) simp_all

lemma be_val_bound: "be_val bs < 256 ^ length bs"
proof (induction bs)
  case (Cons b bs)
  have "unat b < 256" by (rule unat_u8_bound)
  then have "(unat b + 1) * 256 ^ length bs \<le> 256 * 256 ^ length bs"
    by (intro mult_right_mono) simp_all
  with Cons.IH have "unat b * 256 ^ length bs + be_val bs < 256 * 256 ^ length bs"
    by (simp only: add_mult_distrib mult_1)
  then show ?case by simp
qed simp

lemma be_val_be_bytes [simp]: "be_val (be_bytes k n) = n mod 256 ^ k"
proof (induction k)
  case (Suc k)
  have "n mod 256 ^ Suc k = 256 ^ k * (n div 256 ^ k mod 256) + n mod 256 ^ k"
    by (metis mod_mult2_eq power_Suc2)
  then show ?case using Suc by (simp add: unat_of_nat)
qed simp

lemma u8_256: "(256 :: u8) = 0"
  by simp

lemma be_bytes_mod: "k \<le> j \<Longrightarrow> be_bytes k (n + m * 256 ^ j) = be_bytes k n"
proof (induction k)
  case (Suc k)
  then obtain d where j: "j = Suc k + d" using le_Suc_ex by blast
  have "(n + m * 256 ^ j) div 256 ^ k = n div 256 ^ k + 256 * (m * 256 ^ d)"
  proof -
    have "n + m * 256 ^ j = n + (256 * (m * 256 ^ d)) * 256 ^ k"
      by (simp add: j power_add algebra_simps)
    then show ?thesis by (simp only: div_mult_self1 power_not_zero) simp
  qed
  then have "(word_of_nat ((n + m * 256 ^ j) div 256 ^ k) :: u8) = word_of_nat (n div 256 ^ k)"
    by (simp add: u8_256)
  then show ?case using Suc by simp
qed simp

lemma be_bytes_be_val [simp]: "length bs = k \<Longrightarrow> be_bytes k (be_val bs) = bs"
proof (induction bs arbitrary: k)
  case (Cons b bs)
  then obtain j where k: "k = Suc j" and j: "length bs = j" by (cases k) auto
  have "(unat b * 256 ^ j + be_val bs) div 256 ^ j = unat b"
    using be_val_bound [of bs] j by (simp add: div_mult_self3)
  moreover have "be_bytes j (be_val bs + unat b * 256 ^ j) = bs"
    using Cons.IH [OF j] by (simp add: be_bytes_mod)
  ultimately show ?case using k j by (simp add: add.commute)
qed simp

lemma length_to_be_bytes [simp]: "length (to_be_bytes (w :: 'a::len word)) = LENGTH('a) div 8"
  by (simp add: to_be_bytes_def)

lemma length_to_le_bytes [simp]: "length (to_le_bytes (w :: 'a::len word)) = LENGTH('a) div 8"
  by (simp add: to_le_bytes_def)

lemma pow256: "256 ^ k = (2::nat) ^ (8 * k)"
  by (simp add: power_mult)

lemma from_be_to_be [simp]:
  fixes w :: "'a::len word"
  assumes "8 dvd LENGTH('a)"
  shows "from_be_bytes (to_be_bytes w) = w"
  using assms unat_bound [of w]
  by (simp add: from_be_bytes_def to_be_bytes_def pow256)

lemma from_le_to_le [simp]:
  fixes w :: "'a::len word"
  assumes "8 dvd LENGTH('a)"
  shows "from_le_bytes (to_le_bytes w) = w"
  using assms by (simp add: from_le_bytes_def to_le_bytes_def)

lemma to_be_bytes_eq_iff [simp]:
  fixes v w :: "'a::len word"
  assumes "8 dvd LENGTH('a)"
  shows "to_be_bytes v = to_be_bytes w \<longleftrightarrow> v = w"
  using from_be_to_be [OF assms] by metis

lemma to_le_bytes_eq_iff [simp]:
  fixes v w :: "'a::len word"
  assumes "8 dvd LENGTH('a)"
  shows "to_le_bytes v = to_le_bytes w \<longleftrightarrow> v = w"
  using from_le_to_le [OF assms] by metis

lemma to_be_from_be:
  assumes "8 dvd LENGTH('a::len)" and "length bs = LENGTH('a) div 8"
  shows "to_be_bytes (from_be_bytes bs :: 'a word) = bs"
proof -
  have "be_val bs < 2 ^ LENGTH('a)"
    using be_val_bound [of bs] assms by (simp add: pow256)
  then show ?thesis
    using assms by (simp add: to_be_bytes_def from_be_bytes_def unat_of_nat)
qed

lemma to_le_from_le:
  assumes "8 dvd LENGTH('a::len)" and "length bs = LENGTH('a) div 8"
  shows "to_le_bytes (from_le_bytes bs :: 'a word) = bs"
  using assms by (simp add: to_le_bytes_def from_le_bytes_def to_be_from_be)

section \<open>Byte order of keys\<close>

text \<open>
  The key-value store keeps its keys in lexicographic byte order. Big-endian encodings of one
  width are ordered as the numbers they encode.
\<close>

fun lex_less :: "'a::linorder list \<Rightarrow> 'a list \<Rightarrow> bool" where
  "lex_less xs [] = False"
| "lex_less [] (y # ys) = True"
| "lex_less (x # xs) (y # ys) = (x < y \<or> x = y \<and> lex_less xs ys)"

lemma lex_less_irrefl [simp]: "\<not> lex_less xs xs"
  by (induction xs) auto

lemma lex_less_trans: "lex_less xs ys \<Longrightarrow> lex_less ys zs \<Longrightarrow> lex_less xs zs"
proof (induction xs ys arbitrary: zs rule: lex_less.induct)
  case (2 y ys)
  then show ?case by (cases zs) auto
next
  case (3 x xs y ys)
  then show ?case by (cases zs) auto
qed simp

lemma lex_less_total: "xs \<noteq> ys \<Longrightarrow> \<not> lex_less xs ys \<Longrightarrow> lex_less ys xs"
proof (induction xs ys rule: lex_less.induct)
  case (1 xs)
  then show ?case by (cases xs) auto
qed auto

lemma lex_less_append_same [simp]:
  "lex_less (xs @ ys) (xs @ zs) \<longleftrightarrow> lex_less ys zs"
  by (induction xs) auto

lemma lex_less_append_eq_length:
  assumes "length xs = length ys"
  shows "lex_less (xs @ us) (ys @ vs) \<longleftrightarrow>
    lex_less xs ys \<or> xs = ys \<and> lex_less us vs"
  using assms by (induction xs ys rule: list_induct2) auto

lemma lex_less_be_val:
  "length xs = length ys \<Longrightarrow> lex_less xs ys \<longleftrightarrow> be_val xs < be_val ys"
proof (induction xs ys rule: list_induct2)
  case (Cons x xs y ys)
  have bx: "be_val xs < 256 ^ length ys" using be_val_bound [of xs] Cons.hyps by simp
  have by': "be_val ys < 256 ^ length ys" by (rule be_val_bound)
  have "unat x * 256 ^ length ys + be_val xs < unat y * 256 ^ length ys + be_val ys"
    if "unat x < unat y"
  proof -
    have "(unat x + 1) * 256 ^ length ys \<le> unat y * 256 ^ length ys"
      using that by (intro mult_right_mono) simp_all
    then show ?thesis using bx by simp
  qed
  moreover have "unat y * 256 ^ length ys + be_val ys < unat x * 256 ^ length ys + be_val xs"
    if "unat y < unat x"
  proof -
    have "(unat y + 1) * 256 ^ length ys \<le> unat x * 256 ^ length ys"
      using that by (intro mult_right_mono) simp_all
    then show ?thesis using by' by simp
  qed
  ultimately show ?case
    using Cons by (cases rule: linorder_cases [of "unat x" "unat y"])
      (auto simp: word_less_nat_alt word_unat_eq_iff)
qed simp

lemma lex_less_to_be_bytes:
  fixes v w :: "'a::len word"
  assumes "8 dvd LENGTH('a)"
  shows "lex_less (to_be_bytes v) (to_be_bytes w) \<longleftrightarrow> v < w"
  using assms unat_bound [of v] unat_bound [of w]
  by (subst lex_less_be_val) (simp_all add: to_be_bytes_def pow256 word_less_nat_alt)

section \<open>The interface of the table encodings\<close>

text \<open>
  \<^verbatim>\<open>storage::persistent::{Encoder, Decoder}\<close> as the tables use it: an encoding of fixed width that
  decodes back on the values the table stores. The client lemmas are what the database relies on:
  two stored keys never share an encoding, and an encoding can be followed by other data.
\<close>

locale byte_codec =
  fixes encode :: "'a \<Rightarrow> bytes"
    and decode :: "bytes \<Rightarrow> 'e + 'a"
    and valid :: "'a \<Rightarrow> bool"
    and width :: nat
  assumes decode_encode: "valid x \<Longrightarrow> decode (encode x) = Inr x"
    and encode_width: "valid x \<Longrightarrow> length (encode x) = width"
    and decode_width: "decode bs = Inr x \<Longrightarrow> length bs = width"
begin

lemma encode_eq_iff: "valid x \<Longrightarrow> valid y \<Longrightarrow> encode x = encode y \<longleftrightarrow> x = y"
  by (metis decode_encode sum.inject(2))

lemma encode_prefix_free:
  "valid x \<Longrightarrow> valid y \<Longrightarrow> encode x @ us = encode y @ vs \<longleftrightarrow> x = y \<and> us = vs"
  by (simp add: encode_width encode_eq_iff)

lemma decode_rejects: "length bs \<noteq> width \<Longrightarrow> \<exists>e. decode bs = Inl e"
  using decode_width by (cases "decode bs") auto

end

text \<open>A codec whose byte order is a given order on keys: iteration over the store follows it.\<close>

locale ordered_codec = byte_codec +
  fixes less :: "'a \<Rightarrow> 'a \<Rightarrow> bool"
  assumes encode_less: "valid x \<Longrightarrow> valid y \<Longrightarrow> lex_less (encode x) (encode y) \<longleftrightarrow> less x y"
begin

lemma sorted_encode:
  "\<forall>x \<in> set xs. valid x \<Longrightarrow>
   sorted_wrt lex_less (map encode xs) \<longleftrightarrow> sorted_wrt less xs"
  by (induction xs) (simp_all add: encode_less)

end

end
