(* ===== verification/Chunk_Buffer.thy ===== *)
theory Chunk_Buffer
  imports Rust_Prelude
begin

text \<open>
  The chunk buffer of the network recorder, \<^verbatim>\<open>tezedge-recorder/src/processor/chunk_parser/buffer.rs\<close>:
  bytes are appended as the syscalls deliver them and cut into chunks, each a two byte big-endian
  length followed by that many bytes. \<open>buffer_drain\<close> is the loop of the callers, which call
  \<open>buffer_next\<close> until it returns \<open>None\<close>. The lemmas characterise the cut by a specification that
  does not mention the loop: the one decomposition of the data into well-framed chunks and an
  incomplete rest.
\<close>

section \<open>The buffer and its operations\<close>

record buffer =
  buf_counter :: u64
  buf_data :: bytes

definition buffer_default :: buffer where
  "buffer_default = \<lparr>buf_counter = 0, buf_data = []\<rparr>"

definition buffer_handle_data :: "buffer \<Rightarrow> bytes \<Rightarrow> buffer" where
  "buffer_handle_data b payload = b\<lparr>buf_data := buf_data b @ payload\<rparr>"

definition buffer_remaining :: "buffer \<Rightarrow> nat" where
  "buffer_remaining b = length (buf_data b)"

definition buffer_len :: "buffer \<Rightarrow> nat \<Rightarrow> nat option" where
  "buffer_len b offset =
     (if length (buf_data b) \<ge> offset + 2
      then Some (unat (from_be_bytes (sub (buf_data b) offset (offset + 2)) :: u16) + 2)
      else None)"

definition have_chunk :: "buffer \<Rightarrow> bytes option" where
  "have_chunk b =
     (case buffer_len b 0 of
        None \<Rightarrow> None
      | Some len \<Rightarrow> if length (buf_data b) \<ge> len then Some (take len (buf_data b)) else None)"

definition buffer_cleanup :: "buffer \<Rightarrow> (u64 \<times> bytes) option \<times> buffer" where
  "buffer_cleanup b =
     (if buf_data b = [] then (None, b)
      else (Some (buf_counter b, buf_data b),
            b\<lparr>buf_counter := buf_counter b + 1, buf_data := []\<rparr>))"

definition buffer_next :: "buffer \<Rightarrow> (u64 \<times> bytes) option \<times> buffer" where
  "buffer_next b =
     (case buffer_len b 0 of
        None \<Rightarrow> (None, b)
      | Some len \<Rightarrow>
          if length (buf_data b) < len then (None, b)
          else (Some (buf_counter b, take len (buf_data b)),
                b\<lparr>buf_counter := buf_counter b + 1, buf_data := drop len (buf_data b)\<rparr>))"

lemma buffer_len_pos: "buffer_len b i = Some len \<Longrightarrow> 2 \<le> len"
  by (auto simp: buffer_len_def split: if_splits)

lemma buffer_next_shorter:
  "buffer_next b = (Some c, b') \<Longrightarrow> length (buf_data b') < length (buf_data b)"
  by (auto simp: buffer_next_def dest: buffer_len_pos split: option.splits if_splits)

function buffer_drain :: "buffer \<Rightarrow> (u64 \<times> bytes) list \<times> buffer" where
  "buffer_drain b =
     (case buffer_next b of
        (None, b') \<Rightarrow> ([], b')
      | (Some c, b') \<Rightarrow> (let (cs, b'') = buffer_drain b' in (c # cs, b'')))"
  by pat_completeness auto
termination
  by (relation "measure (\<lambda>b. length (buf_data b))") (auto dest!: sym [THEN buffer_next_shorter])

declare buffer_drain.simps [simp del]

section \<open>The specification of the cut\<close>

definition chunk_len :: "bytes \<Rightarrow> nat" where
  "chunk_len d = unat (from_be_bytes (take 2 d) :: u16) + 2"

definition framed :: "bytes \<Rightarrow> bool" where
  "framed c \<longleftrightarrow> length c = chunk_len c"

definition incomplete :: "bytes \<Rightarrow> bool" where
  "incomplete r \<longleftrightarrow> length r < 2 \<or> length r < chunk_len r"

fun number_from :: "u64 \<Rightarrow> 'a list \<Rightarrow> (u64 \<times> 'a) list" where
  "number_from n [] = []"
| "number_from n (x # xs) = (n, x) # number_from (n + 1) xs"

lemma number_from_append:
  "number_from n (xs @ ys) = number_from n xs @ number_from (n + of_nat (length xs)) ys"
  by (induction xs arbitrary: n) (simp_all add: ac_simps)

lemma map_snd_number_from [simp]: "map snd (number_from n xs) = xs"
  by (induction xs arbitrary: n) simp_all

lemma length_number_from [simp]: "length (number_from n xs) = length xs"
  by (induction xs arbitrary: n) simp_all

lemma framed_length: "framed c \<Longrightarrow> 2 \<le> length c"
  by (simp add: framed_def chunk_len_def)

lemma chunk_len_append: "2 \<le> length c \<Longrightarrow> chunk_len (c @ d) = chunk_len c"
  by (simp add: chunk_len_def)

lemma chunk_len_take: "2 \<le> n \<Longrightarrow> chunk_len (take n d) = chunk_len d"
  by (simp add: chunk_len_def min_def)

lemma buffer_len_0:
  "buffer_len b 0 = (if 2 \<le> length (buf_data b) then Some (chunk_len (buf_data b)) else None)"
  by (simp add: buffer_len_def chunk_len_def sub_zero numeral_2_eq_2)

lemma have_chunk_eq:
  "have_chunk b =
    (if incomplete (buf_data b) then None else Some (take (chunk_len (buf_data b)) (buf_data b)))"
  by (auto simp: have_chunk_def buffer_len_0 incomplete_def)

lemma buffer_next_eq:
  "buffer_next b =
    (if incomplete (buf_data b) then (None, b)
     else (Some (buf_counter b, take (chunk_len (buf_data b)) (buf_data b)),
           b\<lparr>buf_counter := buf_counter b + 1,
             buf_data := drop (chunk_len (buf_data b)) (buf_data b)\<rparr>))"
  by (auto simp: buffer_next_def buffer_len_0 incomplete_def)

lemma buffer_next_None_iff: "fst (buffer_next b) = None \<longleftrightarrow> have_chunk b = None"
  by (simp add: buffer_next_eq have_chunk_eq)

lemma incomplete_Nil [simp]: "incomplete []"
  by (simp add: incomplete_def)

lemma framed_not_incomplete: "framed c \<Longrightarrow> \<not> incomplete (c @ d)"
  using framed_length [of c] by (simp add: incomplete_def framed_def chunk_len_append)

lemma take_framed: "\<not> incomplete d \<Longrightarrow> framed (take (chunk_len d) d)"
  by (simp add: incomplete_def framed_def chunk_len_take chunk_len_def min_def)

lemma buffer_next_framed:
  assumes "framed c"
  shows "buffer_next \<lparr>buf_counter = n, buf_data = c @ d\<rparr> =
    (Some (n, c), \<lparr>buf_counter = n + 1, buf_data = d\<rparr>)"
  using assms framed_not_incomplete [OF assms] framed_length [OF assms]
  by (simp add: buffer_next_eq chunk_len_append framed_def)

lemma buffer_drain_incomplete: "incomplete (buf_data b) \<Longrightarrow> buffer_drain b = ([], b)"
  by (simp add: buffer_drain.simps [of b] buffer_next_eq)

lemma buffer_drain_framed:
  "list_all framed cs \<Longrightarrow> incomplete r \<Longrightarrow>
   buffer_drain \<lparr>buf_counter = n, buf_data = concat cs @ r\<rparr> =
     (number_from n cs, \<lparr>buf_counter = n + of_nat (length cs), buf_data = r\<rparr>)"
proof (induction cs arbitrary: n)
  case Nil
  then show ?case by (simp add: buffer_drain_incomplete)
next
  case (Cons c cs)
  then have "buffer_next \<lparr>buf_counter = n, buf_data = c @ (concat cs @ r)\<rparr> =
      (Some (n, c), \<lparr>buf_counter = n + 1, buf_data = concat cs @ r\<rparr>)"
    by (intro buffer_next_framed) simp
  with Cons show ?case
    by (subst buffer_drain.simps) (simp add: ac_simps)
qed

text \<open>Every byte string has exactly one such decomposition.\<close>

lemma frame_exists: "\<exists>cs r. list_all framed cs \<and> incomplete r \<and> d = concat cs @ r"
proof (induction d rule: length_induct)
  case (1 d)
  show ?case
  proof (cases "incomplete d")
    case True
    then show ?thesis by (intro exI [of _ "[]"] exI [of _ d]) simp
  next
    case False
    let ?n = "chunk_len d"
    have "0 < ?n" by (simp add: chunk_len_def)
    with False have "length (drop ?n d) < length d" by (simp add: incomplete_def) linarith
    with 1 obtain cs r where "list_all framed cs" "incomplete r" "drop ?n d = concat cs @ r"
      by blast
    with take_framed [OF False] show ?thesis
      by (intro exI [of _ "take ?n d # cs"] exI [of _ r])
        (simp, metis append_take_drop_id append_assoc)
  qed
qed

text \<open>
  C11: Cutting is exact. Draining a buffer yields the numbered chunks \<open>ncs\<close> and the buffer \<open>b'\<close>
  exactly when the data is the concatenation of well-framed chunks and of a rest too short to be a
  chunk, the chunks are numbered consecutively from the counter, and the counter advances by their
  number. The decomposition exists and is unique for every content.
\<close>

theorem buffer_drain_iff:
  "buffer_drain b = (ncs, b') \<longleftrightarrow>
   (\<exists>cs. ncs = number_from (buf_counter b) cs \<and> list_all framed cs \<and> incomplete (buf_data b') \<and>
     buf_data b = concat cs @ buf_data b' \<and>
     buf_counter b' = buf_counter b + of_nat (length cs))"
    (is "?L \<longleftrightarrow> ?R")
proof
  obtain cs r where d: "list_all framed cs" "incomplete r" "buf_data b = concat cs @ r"
    using frame_exists by blast
  have "buffer_drain b =
    (number_from (buf_counter b) cs, \<lparr>buf_counter = buf_counter b + of_nat (length cs), buf_data = r\<rparr>)"
    using buffer_drain_framed [OF d(1,2), of "buf_counter b"] d(3) by (cases b) simp
  then show "?L \<Longrightarrow> ?R" using d by auto
next
  assume ?R
  then show ?L
    using buffer_drain_framed [of _ "buf_data b'" "buf_counter b"] by (cases b; cases b') auto
qed

end
