(* ===== verification/Common.thy ===== *)
theory Common
  imports Rust_Prelude
begin

text \<open>
  The vocabulary of the recorder, \<^verbatim>\<open>tezedge-recorder/src/common.rs\<close>: who opened a connection, who
  sent a message, the kinds of peer messages with their wire tags, and the message types with the
  byte that the type index stores for them.
\<close>

section \<open>Initiator and sender\<close>

datatype initiator = Initiator_Local | Initiator_Remote

definition initiator_new :: "bool \<Rightarrow> initiator" where
  "initiator_new incoming = (if incoming then Initiator_Remote else Initiator_Local)"

fun initiator_incoming :: "initiator \<Rightarrow> bool" where
  "initiator_incoming Initiator_Local = False"
| "initiator_incoming Initiator_Remote = True"

datatype sender = Sender_Local | Sender_Remote

datatype parse_sender_error = ParseSenderError string

definition sender_from_str :: "string \<Rightarrow> parse_sender_error + sender" where
  "sender_from_str s =
     (if s = ''local'' then Inr Sender_Local
      else if s = ''remote'' then Inr Sender_Remote
      else Inl (ParseSenderError s))"

fun sender_to_string :: "sender \<Rightarrow> string" where
  "sender_to_string Sender_Local = ''local''"
| "sender_to_string Sender_Remote = ''remote''"

definition sender_default :: sender where
  "sender_default = Sender_Remote"

definition sender_new :: "bool \<Rightarrow> sender" where
  "sender_new incoming = (if incoming then Sender_Remote else Sender_Local)"

fun sender_incoming :: "sender \<Rightarrow> bool" where
  "sender_incoming Sender_Local = False"
| "sender_incoming Sender_Remote = True"

lemma initiator_new_incoming [simp]: "initiator_new (initiator_incoming i) = i"
  by (cases i) (simp_all add: initiator_new_def)

lemma sender_new_incoming [simp]: "sender_new (sender_incoming s) = s"
  by (cases s) (simp_all add: sender_new_def)

lemma sender_incoming_new [simp]: "sender_incoming (sender_new b) = b"
  by (simp add: sender_new_def)

lemma initiator_incoming_new [simp]: "initiator_incoming (initiator_new b) = b"
  by (simp add: initiator_new_def)

lemma sender_string_roundtrip: "sender_from_str (sender_to_string s) = Inr s"
  by (cases s) (simp_all add: sender_from_str_def)

section \<open>Message kinds and types\<close>

datatype message_kind =
    Disconnect
  | Bootstrap
  | Advertise
  | SwapRequest
  | SwapAck
  | GetCurrentBranch
  | CurrentBranch
  | Deactivate
  | GetCurrentHead
  | CurrentHead
  | GetBlockHeaders
  | BlockHeader
  | GetOperations
  | Operation
  | GetProtocols
  | Protocol
  | GetOperationHashesForBlocks
  | OperationHashesForBlocks
  | GetOperationsForBlocks
  | OperationsForBlocks
  | Unknown

definition from_tag :: "u16 \<Rightarrow> message_kind" where
  "from_tag tag =
     (if tag = 0x01 then Disconnect
      else if tag = 0x02 then Bootstrap
      else if tag = 0x03 then Advertise
      else if tag = 0x04 then SwapRequest
      else if tag = 0x05 then SwapAck
      else if tag = 0x10 then GetCurrentBranch
      else if tag = 0x11 then CurrentBranch
      else if tag = 0x12 then Deactivate
      else if tag = 0x13 then GetCurrentHead
      else if tag = 0x14 then CurrentHead
      else if tag = 0x20 then GetBlockHeaders
      else if tag = 0x21 then BlockHeader
      else if tag = 0x30 then GetOperations
      else if tag = 0x31 then Operation
      else if tag = 0x40 then GetProtocols
      else if tag = 0x41 then Protocol
      else if tag = 0x50 then GetOperationHashesForBlocks
      else if tag = 0x51 then OperationHashesForBlocks
      else if tag = 0x60 then GetOperationsForBlocks
      else if tag = 0x61 then OperationsForBlocks
      else Unknown)"

definition valid_tag :: "message_kind \<Rightarrow> bool" where
  "valid_tag k \<longleftrightarrow> k \<noteq> Unknown"

datatype message_category = Cat_Connection | Cat_Meta | Cat_Ack | Cat_P2p

datatype message_type = Ty_Connection | Ty_Meta | Ty_Ack | Ty_P2p message_kind

datatype parse_type_error = ParseTypeError string

definition type_from_str :: "string \<Rightarrow> parse_type_error + message_type" where
  "type_from_str s =
     (if s = ''connection_message'' then Inr Ty_Connection
      else if s = ''metadata'' then Inr Ty_Meta
      else if s = ''ack_message'' then Inr Ty_Ack
      else if s = ''disconnect'' then Inr (Ty_P2p Disconnect)
      else if s = ''advertise'' then Inr (Ty_P2p Advertise)
      else if s = ''swap_request'' then Inr (Ty_P2p SwapRequest)
      else if s = ''swap_ack'' then Inr (Ty_P2p SwapAck)
      else if s = ''bootstrap'' then Inr (Ty_P2p Bootstrap)
      else if s = ''get_current_branch'' then Inr (Ty_P2p GetCurrentBranch)
      else if s = ''current_branch'' then Inr (Ty_P2p CurrentBranch)
      else if s = ''deactivate'' then Inr (Ty_P2p Deactivate)
      else if s = ''get_current_head'' then Inr (Ty_P2p GetCurrentHead)
      else if s = ''current_head'' then Inr (Ty_P2p CurrentHead)
      else if s = ''get_block_headers'' then Inr (Ty_P2p GetBlockHeaders)
      else if s = ''block_header'' then Inr (Ty_P2p BlockHeader)
      else if s = ''get_operations'' then Inr (Ty_P2p GetOperations)
      else if s = ''operation'' then Inr (Ty_P2p Operation)
      else if s = ''get_protocols'' then Inr (Ty_P2p GetProtocols)
      else if s = ''protocol'' then Inr (Ty_P2p Protocol)
      else if s = ''get_operation_hashes_for_blocks'' then Inr (Ty_P2p GetOperationHashesForBlocks)
      else if s = ''operation_hashes_for_block'' then Inr (Ty_P2p OperationHashesForBlocks)
      else if s = ''get_operations_for_blocks'' then Inr (Ty_P2p GetOperationsForBlocks)
      else if s = ''operations_for_blocks'' then Inr (Ty_P2p OperationsForBlocks)
      else Inl (ParseTypeError s))"

fun type_split :: "message_type \<Rightarrow> message_category \<times> message_kind option" where
  "type_split Ty_Connection = (Cat_Connection, None)"
| "type_split Ty_Meta = (Cat_Meta, None)"
| "type_split Ty_Ack = (Cat_Ack, None)"
| "type_split (Ty_P2p kind) = (Cat_P2p, Some kind)"

definition type_from_int :: "u8 \<Rightarrow> message_type" where
  "type_from_int v =
     (if v = 0x00 then Ty_Connection
      else if v = 0x01 then Ty_Meta
      else if v = 0x02 then Ty_Ack
      else if v = 0x03 then Ty_P2p Disconnect
      else if v = 0x04 then Ty_P2p Bootstrap
      else if v = 0x05 then Ty_P2p Advertise
      else if v = 0x06 then Ty_P2p SwapRequest
      else if v = 0x07 then Ty_P2p SwapAck
      else if v = 0x08 then Ty_P2p GetCurrentBranch
      else if v = 0x09 then Ty_P2p CurrentBranch
      else if v = 0x0a then Ty_P2p Deactivate
      else if v = 0x0b then Ty_P2p GetCurrentHead
      else if v = 0x0c then Ty_P2p CurrentHead
      else if v = 0x0d then Ty_P2p GetBlockHeaders
      else if v = 0x0e then Ty_P2p BlockHeader
      else if v = 0x0f then Ty_P2p GetOperations
      else if v = 0x10 then Ty_P2p Operation
      else if v = 0x11 then Ty_P2p GetProtocols
      else if v = 0x12 then Ty_P2p Protocol
      else if v = 0x13 then Ty_P2p GetOperationHashesForBlocks
      else if v = 0x14 then Ty_P2p OperationHashesForBlocks
      else if v = 0x15 then Ty_P2p GetOperationsForBlocks
      else if v = 0x16 then Ty_P2p OperationsForBlocks
      else Ty_P2p Unknown)"

fun type_into_int :: "message_type \<Rightarrow> u8" where
  "type_into_int Ty_Connection = 0x00"
| "type_into_int Ty_Meta = 0x01"
| "type_into_int Ty_Ack = 0x02"
| "type_into_int (Ty_P2p Disconnect) = 0x03"
| "type_into_int (Ty_P2p Bootstrap) = 0x04"
| "type_into_int (Ty_P2p Advertise) = 0x05"
| "type_into_int (Ty_P2p SwapRequest) = 0x06"
| "type_into_int (Ty_P2p SwapAck) = 0x07"
| "type_into_int (Ty_P2p GetCurrentBranch) = 0x08"
| "type_into_int (Ty_P2p CurrentBranch) = 0x09"
| "type_into_int (Ty_P2p Deactivate) = 0x0a"
| "type_into_int (Ty_P2p GetCurrentHead) = 0x0b"
| "type_into_int (Ty_P2p CurrentHead) = 0x0c"
| "type_into_int (Ty_P2p GetBlockHeaders) = 0x0d"
| "type_into_int (Ty_P2p BlockHeader) = 0x0e"
| "type_into_int (Ty_P2p GetOperations) = 0x0f"
| "type_into_int (Ty_P2p Operation) = 0x10"
| "type_into_int (Ty_P2p GetProtocols) = 0x11"
| "type_into_int (Ty_P2p Protocol) = 0x12"
| "type_into_int (Ty_P2p GetOperationHashesForBlocks) = 0x13"
| "type_into_int (Ty_P2p OperationHashesForBlocks) = 0x14"
| "type_into_int (Ty_P2p GetOperationsForBlocks) = 0x15"
| "type_into_int (Ty_P2p OperationsForBlocks) = 0x16"
| "type_into_int (Ty_P2p Unknown) = 0xff"

lemma type_from_into_int [simp]: "type_from_int (type_into_int t) = t"
  by (cases t rule: type_into_int.cases) (simp_all add: type_from_int_def)

lemma type_into_from_int: "type_into_int (type_from_int v) = (if v < 0x17 then v else 0xff)"
proof (cases "v < 0x17")
  case True
  then have "unat v \<in> {0..<23}"
    by (simp add: word_less_nat_alt)
  then have "v \<in> word_of_nat ` {0..<23}"
    by (metis imageI word_nat_cases unat_of_nat mod_less)
  with True show ?thesis
    by (auto simp: atLeast0LessThan lessThan_nat_numeral lessThan_Suc type_from_int_def)
next
  case False
  then show ?thesis by (auto simp: type_from_int_def)
qed

lemma valid_tag_iff:
  "valid_tag (from_tag t) \<longleftrightarrow>
   t \<in> {0x01, 0x02, 0x03, 0x04, 0x05, 0x10, 0x11, 0x12, 0x13, 0x14, 0x20, 0x21, 0x30, 0x31,
        0x40, 0x41, 0x50, 0x51, 0x60, 0x61}"
  by (simp add: valid_tag_def from_tag_def)

lemma card_valid_tags: "card {t. valid_tag (from_tag t)} = 20"
  by (simp only: valid_tag_iff Collect_mem_eq) simp

text \<open>
  The byte that the type index stores determines the message type and is determined by it: every
  type is read back from its byte, and a byte is written back unchanged unless it stands for no
  type, in which case it becomes the byte of the unknown kind.
\<close>

theorem message_type_byte:
  "type_from_int (type_into_int t) = t \<and>
   type_into_int (type_from_int v) = (if v < 0x17 then v else 0xff)"
  by (simp add: type_into_from_int)

end
