(* ===== verification/Rust_Strings.thy ===== *)
theory Rust_Strings
  imports Rust_Prelude
begin

text \<open>
  What the sources use of \<^verbatim>\<open>core::str\<close> and \<^verbatim>\<open>core::num\<close>: splitting at a character, \<^verbatim>\<open>parse\<close> and
  \<^verbatim>\<open>from_str_radix\<close> of unsigned integers with their errors, and the decimal \<^verbatim>\<open>Display\<close> of integers.
  A string is the list of the bytes of its UTF-8 form, one \<^verbatim>\<open>char\<close> each; for ASCII text these are its characters.
\<close>

section \<open>Characters\<close>

text \<open>
  A position is a boundary of characters at both ends and before every byte that does not continue a character; a
  string can be cut only there.
\<close>

definition is_char_boundary :: "string \<Rightarrow> nat \<Rightarrow> bool" where
  "is_char_boundary s m \<longleftrightarrow>
     m = 0 \<or> m = length s \<or>
     m < length s \<and> ((of_char (s ! m) :: nat) < 128 \<or> 192 \<le> (of_char (s ! m) :: nat))"

definition str_from :: "string \<Rightarrow> nat \<Rightarrow> panic + string" where
  "str_from s i = (if is_char_boundary s i then Inr (drop i s) else Inl Slice_Range)"

definition is_ascii :: "string \<Rightarrow> bool" where
  "is_ascii s \<longleftrightarrow> list_all (\<lambda>c. (of_char c :: nat) < 128) s"

lemma is_ascii_simps [simp]:
  "is_ascii []" "is_ascii (c # s) \<longleftrightarrow> (of_char c :: nat) < 128 \<and> is_ascii s" "is_ascii (s @ t) \<longleftrightarrow> is_ascii s \<and> is_ascii t"
  by (simp_all add: is_ascii_def)

lemma is_ascii_drop: "is_ascii s \<Longrightarrow> is_ascii (drop n s)"
  by (auto simp: is_ascii_def list_all_iff dest: in_set_dropD)

lemma ascii_boundary: "is_ascii s \<Longrightarrow> is_char_boundary s m \<longleftrightarrow> m \<le> length s"
  by (auto simp: is_ascii_def is_char_boundary_def list_all_length)

section \<open>Splitting\<close>

fun split_on :: "char \<Rightarrow> string \<Rightarrow> string list" where
  "split_on c [] = [[]]"
| "split_on c (x # xs) =
     (if x = c then [] # split_on c xs
      else (case split_on c xs of [] \<Rightarrow> [[x]] | p # ps \<Rightarrow> (x # p) # ps))"

lemma split_on_not_Nil [simp]: "split_on c xs \<noteq> []"
  by (induction xs) (auto split: list.splits)

lemma split_on_none: "c \<notin> set xs \<Longrightarrow> split_on c xs = [xs]"
  by (induction xs) auto

lemma split_on_append: "c \<notin> set xs \<Longrightarrow> split_on c (xs @ c # ys) = xs # split_on c ys"
  by (induction xs) auto

section \<open>Parsing and printing unsigned integers\<close>

datatype parse_int_error = Empty_Int | Invalid_Digit | Pos_Overflow

definition parse_int_error_string :: "parse_int_error \<Rightarrow> string" where
  "parse_int_error_string e =
     (case e of
        Empty_Int \<Rightarrow> ''cannot parse integer from empty string''
      | Invalid_Digit \<Rightarrow> ''invalid digit found in string''
      | Pos_Overflow \<Rightarrow> ''number too large to fit in target type'')"

definition digit_of :: "nat \<Rightarrow> char \<Rightarrow> nat option" where
  "digit_of radix c =
     (let n = (of_char c :: nat);
          d = (if 48 \<le> n \<and> n \<le> 57 then Some (n - 48)
               else if 97 \<le> n \<and> n \<le> 122 then Some (n - 87)
               else if 65 \<le> n \<and> n \<le> 90 then Some (n - 55)
               else None)
      in case d of None \<Rightarrow> None | Some v \<Rightarrow> if v < radix then Some v else None)"

fun parse_digits :: "nat \<Rightarrow> nat \<Rightarrow> nat \<Rightarrow> string \<Rightarrow> parse_int_error + nat" where
  "parse_digits radix bound acc [] = Inr acc"
| "parse_digits radix bound acc (c # cs) =
     (case digit_of radix c of
        None \<Rightarrow> Inl Invalid_Digit
      | Some d \<Rightarrow>
          if acc * radix \<ge> bound \<or> acc * radix + d \<ge> bound then Inl Pos_Overflow
          else parse_digits radix bound (acc * radix + d) cs)"

definition from_str_radix :: "nat \<Rightarrow> string \<Rightarrow> parse_int_error + 'a::len word" where
  "from_str_radix radix s =
     (case s of
        [] \<Rightarrow> Inl Empty_Int
      | c # cs \<Rightarrow>
          if cs = [] \<and> (c = CHR ''+'' \<or> c = CHR ''-'') then Inl Invalid_Digit
          else and_then (parse_digits radix (2 ^ LENGTH('a)) 0 (if c = CHR ''+'' then cs else s))
                 (\<lambda>n. Inr (word_of_nat n)))"

abbreviation parse_uint :: "string \<Rightarrow> parse_int_error + 'a::len word" where
  "parse_uint \<equiv> from_str_radix 10"

definition dec_digit :: "nat \<Rightarrow> char" where
  "dec_digit d = char_of (48 + d)"

function show_nat :: "nat \<Rightarrow> string" where
  "show_nat n = (if n < 10 then [dec_digit n] else show_nat (n div 10) @ [dec_digit (n mod 10)])"
  by pat_completeness auto
termination
  by (relation "measure id") auto

declare show_nat.simps [simp del]

definition show_uint :: "'a::len word \<Rightarrow> string" where
  "show_uint w = show_nat (unat w)"

lemma of_char_dec_digit: "d < 10 \<Longrightarrow> of_char (dec_digit d) = (48 + d :: nat)"
  by (simp add: dec_digit_def)

lemma digit_of_dec_digit [simp]: "d < 10 \<Longrightarrow> digit_of 10 (dec_digit d) = Some d"
  by (simp add: digit_of_def of_char_dec_digit)

lemma show_nat_not_Nil [simp]: "show_nat n \<noteq> []"
  by (subst show_nat.simps) simp

lemma show_nat_chars: "c \<in> set (show_nat n) \<Longrightarrow> 48 \<le> (of_char c :: nat)"
proof (induction n rule: show_nat.induct)
  case (1 n)
  then show ?case
    by (cases "n < 10") (auto simp: show_nat.simps [of n] of_char_dec_digit)
qed

lemma parse_digits_append:
  "parse_digits r m acc (xs @ ys) =
   and_then (parse_digits r m acc xs) (\<lambda>n. parse_digits r m n ys)"
  by (induction xs arbitrary: acc) (simp_all split: option.splits)

lemma parse_digits_show: "n < m \<Longrightarrow> parse_digits 10 m 0 (show_nat n) = Inr n"
proof (induction n rule: show_nat.induct)
  case (1 n)
  show ?case
  proof (cases "n < 10")
    case True
    with 1 show ?thesis by (subst show_nat.simps) simp
  next
    case False
    with 1 have "parse_digits 10 m 0 (show_nat (n div 10)) = Inr (n div 10)" by simp
    moreover have "\<not> n div 10 * 10 \<ge> m" using "1.prems" by simp
    ultimately show ?thesis
      using False "1.prems" by (subst show_nat.simps) (simp add: parse_digits_append)
  qed
qed

lemma show_uint_notin: "(of_char c :: nat) < 48 \<Longrightarrow> c \<notin> set (show_uint w)"
  using show_nat_chars [of c "unat w"] by (auto simp: show_uint_def)

lemma show_uint_separators [simp]:
  "CHR ''.'' \<notin> set (show_uint w)" "CHR ''-'' \<notin> set (show_uint w)"
  "CHR '' '' \<notin> set (show_uint w)" "CHR ''+'' \<notin> set (show_uint w)"
  by (simp_all add: show_uint_notin)

lemma parse_show_uint [simp]: "parse_uint (show_uint w) = Inr (w :: 'a::len word)"
proof -
  obtain c cs where s: "show_nat (unat w) = c # cs"
    using show_nat_not_Nil by (meson neq_Nil_conv)
  then have "c \<noteq> CHR ''+''" "c \<noteq> CHR ''-''"
    using show_uint_separators(2,4) [of w] by (auto simp: show_uint_def)
  with s parse_digits_show [OF unat_bound, of w] show ?thesis
    by (simp add: from_str_radix_def show_uint_def)
qed

end
