(* ===== verification/Connection_Table.thy ===== *)
theory Connection_Table
  imports Common Rust_Strings
begin

text \<open>
  The connection table, \<^verbatim>\<open>tezedge-recorder/src/tables/connection.rs\<close>: the comments a connection
  collects, the item with its operations, and the byte layouts of the key (12 bytes) and of the
  value (88 bytes). The targets of the proof-of-work comments are \<^verbatim>\<open>f64\<close> in the source; the only
  values it stores are the constant 26.0 and decoded bytes, so they are naturals here and the cast
  \<^verbatim>\<open>as u8\<close> saturates. Clock readings are arguments.
\<close>

section \<open>Addresses\<close>

text \<open>
  \<^verbatim>\<open>std::net::SocketAddr\<close> as the program builds it (flow info and scope are always 0). An address
  is stored as 16 octets, an IPv4 address in its mapped form, and read back as an IPv6 address.
\<close>

datatype ip_addr = Ip_V4 bytes | Ip_V6 bytes

record socket_addr =
  sa_ip :: ip_addr
  sa_port :: u16

fun ip_octets :: "ip_addr \<Rightarrow> bytes" where
  "ip_octets (Ip_V4 ip) = replicate 10 0 @ [0xff, 0xff] @ ip"
| "ip_octets (Ip_V6 ip) = ip"

fun wf_ip :: "ip_addr \<Rightarrow> bool" where
  "wf_ip (Ip_V4 ip) \<longleftrightarrow> length ip = 4"
| "wf_ip (Ip_V6 ip) \<longleftrightarrow> length ip = 16"

definition addr_v6 :: "socket_addr \<Rightarrow> socket_addr" where
  "addr_v6 a = a\<lparr>sa_ip := Ip_V6 (ip_octets (sa_ip a))\<rparr>"

lemma length_ip_octets [simp]: "wf_ip a \<Longrightarrow> length (ip_octets a) = 16"
  by (cases a) simp_all

lemma addr_v6_simps [simp]:
  "sa_port (addr_v6 a) = sa_port a"
  "ip_octets (sa_ip (addr_v6 a)) = ip_octets (sa_ip a)"
  "wf_ip (sa_ip a) \<Longrightarrow> wf_ip (sa_ip (addr_v6 a))"
  "addr_v6 (addr_v6 a) = addr_v6 a"
  by (simp_all add: addr_v6_def)

section \<open>Comments\<close>

record comments =
  incoming_wrong_pow :: "nat option"
  incoming_too_short :: "nat option"
  incoming_uncertain :: bool
  incoming_cannot_decrypt :: "u64 option"
  incoming_suspicious :: "u64 option"
  outgoing_wrong_pow :: "nat option"
  outgoing_too_short :: "nat option"
  outgoing_uncertain :: bool
  outgoing_wrong_pk :: bool
  outgoing_cannot_decrypt :: "u64 option"

definition comments_default :: comments where
  "comments_default =
     \<lparr>incoming_wrong_pow = None, incoming_too_short = None, incoming_uncertain = False,
      incoming_cannot_decrypt = None, incoming_suspicious = None,
      outgoing_wrong_pow = None, outgoing_too_short = None, outgoing_uncertain = False,
      outgoing_wrong_pk = False, outgoing_cannot_decrypt = None\<rparr>"

definition f64_as_u8 :: "nat \<Rightarrow> u8" where
  "f64_as_u8 t = word_of_nat (min t 255)"

definition get_or :: "'a \<Rightarrow> 'a option \<Rightarrow> 'a" where
  "get_or d x = (case x of None \<Rightarrow> d | Some a \<Rightarrow> a)"

definition flag :: "bool \<Rightarrow> u8" where
  "flag b = (if b then 1 else 0)"

definition comments_ser :: "comments \<Rightarrow> bytes \<times> bytes" where
  "comments_ser c =
     ([f64_as_u8 (get_or 0 (incoming_wrong_pow c)),
       word_of_nat (get_or 255 (incoming_too_short c)),
       flag (incoming_uncertain c), 0]
      @ to_le_bytes (get_or (-1) (incoming_cannot_decrypt c))
      @ to_le_bytes (ucast (get_or 0 (incoming_suspicious c)) :: u32)
      @ [0, 0],
      [f64_as_u8 (get_or 0 (outgoing_wrong_pow c)),
       word_of_nat (get_or 255 (outgoing_too_short c)),
       flag (outgoing_uncertain c), flag (outgoing_wrong_pk c)]
      @ to_le_bytes (get_or (-1) (outgoing_cannot_decrypt c))
      @ [0, 0, 0, 0, 0, 0])"

definition comments_de :: "bytes \<times> bytes \<Rightarrow> comments" where
  "comments_de io =
     (let i = fst io; o' = snd io;
          i_c = (from_le_bytes (sub i 4 12) :: u64);
          i_s = (ucast (from_le_bytes (sub i 12 16) :: u32) :: u64);
          o_c = (from_le_bytes (sub o' 4 12) :: u64)
      in \<lparr>incoming_wrong_pow = (if i ! 0 = 0 then None else Some (unat (i ! 0))),
          incoming_too_short = (if i ! 1 = 255 then None else Some (unat (i ! 1))),
          incoming_uncertain = (i ! 2 \<noteq> 0),
          incoming_cannot_decrypt = (if i_c = -1 then None else Some i_c),
          incoming_suspicious = (if i_s = 0 then None else Some i_c),
          outgoing_wrong_pow = (if o' ! 0 = 0 then None else Some (unat (o' ! 0))),
          outgoing_too_short = (if o' ! 1 = 255 then None else Some (unat (o' ! 1))),
          outgoing_uncertain = (o' ! 2 \<noteq> 0),
          outgoing_wrong_pk = (o' ! 3 \<noteq> 0),
          outgoing_cannot_decrypt = (if o_c = -1 then None else Some o_c)\<rparr>)"

text \<open>The messages of the \<^verbatim>\<open>Serialize\<close> implementation, in order.\<close>

definition comments_serialize :: "comments \<Rightarrow> string list" where
  "comments_serialize c =
     (case incoming_wrong_pow c of None \<Rightarrow> [] | Some t \<Rightarrow>
        [''incoming connection message bad proof-of-work, target: '' @ show_nat t])
   @ (case incoming_too_short c of None \<Rightarrow> [] | Some n \<Rightarrow>
        [''incoming connection message is too short: '' @ show_nat n @ '' bytes''])
   @ (if incoming_uncertain c
      then [''incoming data does not look like a connection message''] else [])
   @ (case incoming_suspicious c of None \<Rightarrow> [] | Some n \<Rightarrow>
        [''incoming message lack chunks, at: '' @ show_uint n])
   @ (case incoming_cannot_decrypt c of None \<Rightarrow> [] | Some p \<Rightarrow>
        [''incoming chunk cannot decrypt, position: '' @ show_uint p])
   @ (case outgoing_wrong_pow c of None \<Rightarrow> [] | Some t \<Rightarrow>
        [''outgoing connection message bad proof-of-work, target: '' @ show_nat t])
   @ (case outgoing_too_short c of None \<Rightarrow> [] | Some n \<Rightarrow>
        [''outgoing connection message is too short: '' @ show_nat n @ '' bytes''])
   @ (if outgoing_uncertain c
      then [''outgoing data does not look like a connection message''] else [])
   @ (if outgoing_wrong_pk c
      then [''outgoing connection message public key does not match with identity''] else [])
   @ (case outgoing_cannot_decrypt c of None \<Rightarrow> [] | Some p \<Rightarrow>
        [''outgoing chunk cannot decrypt, position: '' @ show_uint p])"

section \<open>The connection item\<close>

record connection_key =
  ck_ts :: u64
  ck_ts_nanos :: u32

record connection_value =
  cv_initiator :: initiator
  cv_remote_addr :: socket_addr
  cv_peer_pk :: bytes
  cv_comments :: comments

record connection_item =
  cn_ts :: u64
  cn_ts_nanos :: u32
  cn_initiator :: initiator
  cn_remote_addr :: socket_addr
  cn_peer_pk :: bytes
  cn_comments :: comments

text \<open>\<open>nanos\<close> is the reading of the clock, in nanoseconds since the epoch.\<close>

definition connection_new :: "nat \<Rightarrow> initiator \<Rightarrow> socket_addr \<Rightarrow> connection_item" where
  "connection_new nanos ini addr =
     \<lparr>cn_ts = word_of_nat (nanos div 1000000000), cn_ts_nanos = word_of_nat (nanos mod 1000000000),
      cn_initiator = ini, cn_remote_addr = addr, cn_peer_pk = replicate 32 0,
      cn_comments = comments_default\<rparr>"

definition set_peer_pk :: "bytes \<Rightarrow> connection_item \<Rightarrow> connection_item" where
  "set_peer_pk pk cn = cn\<lparr>cn_peer_pk := pk\<rparr>"

definition add_comment :: "(comments \<Rightarrow> comments) \<Rightarrow> connection_item \<Rightarrow> connection_item" where
  "add_comment f cn = cn\<lparr>cn_comments := f (cn_comments cn)\<rparr>"

definition mark_uncertain :: "connection_item \<Rightarrow> connection_item" where
  "mark_uncertain cn =
     add_comment (\<lambda>c. c\<lparr>outgoing_uncertain := True\<rparr>)
       (add_comment (\<lambda>c. c\<lparr>incoming_uncertain := True\<rparr>) cn)"

definition mark_cannot_decrypt :: "bool \<Rightarrow> u64 \<Rightarrow> connection_item \<Rightarrow> connection_item" where
  "mark_cannot_decrypt s position cn =
     (if s then add_comment (\<lambda>c. c\<lparr>incoming_cannot_decrypt := Some position\<rparr>) cn
      else add_comment (\<lambda>c. c\<lparr>outgoing_cannot_decrypt := Some position\<rparr>) cn)"

definition connection_key_of :: "connection_item \<Rightarrow> connection_key" where
  "connection_key_of cn = \<lparr>ck_ts = cn_ts cn, ck_ts_nanos = cn_ts_nanos cn\<rparr>"

definition connection_value_of :: "connection_item \<Rightarrow> connection_value" where
  "connection_value_of cn =
     \<lparr>cv_initiator = cn_initiator cn, cv_remote_addr = cn_remote_addr cn,
      cv_peer_pk = cn_peer_pk cn, cv_comments = cn_comments cn\<rparr>"

definition connection_split :: "connection_item \<Rightarrow> connection_key \<times> connection_value" where
  "connection_split cn = (connection_key_of cn, connection_value_of cn)"

definition connection_unite :: "connection_key \<Rightarrow> connection_value \<Rightarrow> connection_item" where
  "connection_unite k v =
     \<lparr>cn_ts = ck_ts k, cn_ts_nanos = ck_ts_nanos k, cn_initiator = cv_initiator v,
      cn_remote_addr = cv_remote_addr v, cn_peer_pk = cv_peer_pk v, cn_comments = cv_comments v\<rparr>"

section \<open>Keys and values as strings and bytes\<close>

datatype key_from_str_error = ConnectionKey_Error | DecimalParse_Error parse_int_error

definition map_err :: "('e \<Rightarrow> 'f) \<Rightarrow> 'e + 'a \<Rightarrow> 'f + 'a" where
  "map_err f r = (case r of Inl e \<Rightarrow> Inl (f e) | Inr a \<Rightarrow> Inr a)"

definition nth_opt :: "'a list \<Rightarrow> nat \<Rightarrow> 'a option" where
  "nth_opt xs i = (if i < length xs then Some (xs ! i) else None)"

definition connection_key_from_str :: "string \<Rightarrow> key_from_str_error + connection_key" where
  "connection_key_from_str s =
     (let parts = split_on CHR ''.'' s in
      and_then (ok_or ConnectionKey_Error (nth_opt parts 0)) (\<lambda>p0.
      and_then (map_err DecimalParse_Error (parse_uint p0)) (\<lambda>ts.
      and_then (ok_or ConnectionKey_Error (nth_opt parts 1)) (\<lambda>p1.
      and_then (map_err DecimalParse_Error (parse_uint p1)) (\<lambda>ts_nanos.
      Inr \<lparr>ck_ts = ts, ck_ts_nanos = ts_nanos\<rparr>)))))"

definition connection_key_to_string :: "connection_key \<Rightarrow> string" where
  "connection_key_to_string k = show_uint (ck_ts k) @ ''.'' @ show_uint (ck_ts_nanos k)"

datatype schema_error = DecodeError | DecodeValidationError string

definition connection_key_encode :: "connection_key \<Rightarrow> bytes" where
  "connection_key_encode k = to_be_bytes (ck_ts k) @ to_be_bytes (ck_ts_nanos k)"

definition connection_key_decode :: "bytes \<Rightarrow> schema_error + connection_key" where
  "connection_key_decode bs =
     (if length bs \<noteq> 12 then Inl DecodeError
      else Inr \<lparr>ck_ts = from_be_bytes (take 8 bs), ck_ts_nanos = from_be_bytes (drop 8 bs)\<rparr>)"

definition connection_value_encode :: "connection_value \<Rightarrow> bytes" where
  "connection_value_encode v =
     ip_octets (sa_ip (cv_remote_addr v))
     @ to_le_bytes (sa_port (cv_remote_addr v))
     @ [flag (initiator_incoming (cv_initiator v))]
     @ [0]
     @ fst (comments_ser (cv_comments v))
     @ snd (comments_ser (cv_comments v))
     @ cv_peer_pk v"

definition connection_value_decode :: "bytes \<Rightarrow> schema_error + connection_value" where
  "connection_value_decode bs =
     (if length bs \<noteq> 88 then Inl DecodeError
      else Inr \<lparr>cv_initiator = initiator_new (bs ! 18 \<noteq> 0),
                cv_remote_addr =
                  \<lparr>sa_ip = Ip_V6 (sub bs 0 16), sa_port = from_le_bytes (sub bs 16 18)\<rparr>,
                cv_peer_pk = sub bs 56 88,
                cv_comments = comments_de (sub bs 20 38, sub bs 38 56)\<rparr>)"

section \<open>Correctness of the layouts\<close>

text \<open>
  The comments the layout can hold: a target and a size fit a byte and avoid the value that stands
  for absence, and a position is not the largest \<^verbatim>\<open>u64\<close>.
\<close>

definition wf_comments :: "comments \<Rightarrow> bool" where
  "wf_comments c \<longleftrightarrow>
     (\<forall>t. incoming_wrong_pow c = Some t \<longrightarrow> 0 < t \<and> t \<le> 255) \<and>
     (\<forall>t. outgoing_wrong_pow c = Some t \<longrightarrow> 0 < t \<and> t \<le> 255) \<and>
     (\<forall>n. incoming_too_short c = Some n \<longrightarrow> n < 255) \<and>
     (\<forall>n. outgoing_too_short c = Some n \<longrightarrow> n < 255) \<and>
     incoming_cannot_decrypt c \<noteq> Some (- 1) \<and> outgoing_cannot_decrypt c \<noteq> Some (- 1)"

definition wf_connection_value :: "connection_value \<Rightarrow> bool" where
  "wf_connection_value v \<longleftrightarrow>
     wf_ip (sa_ip (cv_remote_addr v)) \<and> wf_comments (cv_comments v) \<and> length (cv_peer_pk v) = 32"

definition connection_key_less :: "connection_key \<Rightarrow> connection_key \<Rightarrow> bool" where
  "connection_key_less k l \<longleftrightarrow>
     ck_ts k < ck_ts l \<or> ck_ts k = ck_ts l \<and> ck_ts_nanos k < ck_ts_nanos l"

lemma unat_f64_as_u8: "t \<le> 255 \<Longrightarrow> unat (f64_as_u8 t) = t"
  by (simp add: f64_as_u8_def unat_of_nat)

lemma decoded_target:
  "(\<forall>t. x = Some t \<longrightarrow> 0 < t \<and> t \<le> 255) \<Longrightarrow>
   (if f64_as_u8 (get_or 0 x) = 0 then None else Some (unat (f64_as_u8 (get_or 0 x)))) = x"
  by (cases x) (auto simp: get_or_def word_unat_eq_iff unat_f64_as_u8)

lemma decoded_size:
  "(\<forall>n. x = Some n \<longrightarrow> n < 255) \<Longrightarrow>
   (if (word_of_nat (get_or 255 x) :: u8) = 255 then None
    else Some (unat (word_of_nat (get_or 255 x) :: u8))) = x"
  by (cases x) (auto simp: get_or_def word_unat_eq_iff unat_of_nat)

lemma decoded_position:
  "x \<noteq> Some (- 1 :: u64) \<Longrightarrow> (if get_or (- 1) x = - 1 then None else Some (get_or (- 1) x)) = x"
  by (cases x) (auto simp: get_or_def)

lemma decoded_flag [simp]: "flag b \<noteq> 0 \<longleftrightarrow> b" "flag b = 0 \<longleftrightarrow> \<not> b"
  by (simp_all add: flag_def)

lemma length_comments_ser [simp]:
  "length (fst (comments_ser c)) = 18" "length (snd (comments_ser c)) = 18"
  by (simp_all add: comments_ser_def)

lemma sub_le64: "sub (a # b # c # d # to_le_bytes (w :: u64) @ xs) 4 12 = to_le_bytes w"
  by (simp add: sub_def)

lemma sub_le32:
  "sub (a # b # c # d # to_le_bytes (w :: u64) @ to_le_bytes (v :: u32) @ xs) 12 16 = to_le_bytes v"
  by (simp add: sub_def)

text \<open>
  Everything but the suspicious mark is read back; that one is read from the position of the
  first undecryptable chunk, and it appears exactly when its own 32 stored bits are not zero.
\<close>

lemma comments_de_ser:
  assumes "wf_comments c"
  shows "comments_de (comments_ser c) = c\<lparr>incoming_suspicious :=
    (if (ucast (get_or 0 (incoming_suspicious c)) :: u32) = 0 then None
     else Some (get_or (- 1) (incoming_cannot_decrypt c)))\<rparr>"
proof -
  have zero: "(ucast (w :: u32) :: u64) = 0 \<longleftrightarrow> w = 0" for w
    by transfer simp
  have d: "(if f64_as_u8 (get_or 0 (incoming_wrong_pow c)) = 0 then None
            else Some (unat (f64_as_u8 (get_or 0 (incoming_wrong_pow c))))) = incoming_wrong_pow c"
    "(if f64_as_u8 (get_or 0 (outgoing_wrong_pow c)) = 0 then None
      else Some (unat (f64_as_u8 (get_or 0 (outgoing_wrong_pow c))))) = outgoing_wrong_pow c"
    by (insert assms, rule decoded_target, simp add: wf_comments_def)+
  have s: "(if (word_of_nat (get_or 255 (incoming_too_short c)) :: u8) = 255 then None
     else Some (unat (word_of_nat (get_or 255 (incoming_too_short c)) :: u8))) = incoming_too_short c"
    "(if (word_of_nat (get_or 255 (outgoing_too_short c)) :: u8) = 255 then None
     else Some (unat (word_of_nat (get_or 255 (outgoing_too_short c)) :: u8))) = outgoing_too_short c"
    by (insert assms, rule decoded_size, simp add: wf_comments_def)+
  have p: "(if get_or (- 1) (incoming_cannot_decrypt c) = - 1 then None
     else Some (get_or (- 1) (incoming_cannot_decrypt c))) = incoming_cannot_decrypt c"
    "(if get_or (- 1) (outgoing_cannot_decrypt c) = - 1 then None
     else Some (get_or (- 1) (outgoing_cannot_decrypt c))) = outgoing_cannot_decrypt c"
    by (insert assms, rule decoded_position, simp add: wf_comments_def)+
  have r: "from_le_bytes (to_le_bytes (w :: u64)) = w" "from_le_bytes (to_le_bytes (v :: u32)) = v"
    for v w by simp_all
  show ?thesis
    unfolding comments_de_def comments_ser_def Let_def fst_conv snd_conv
    by (simp only: sub_le64 sub_le32 append_Cons append_Nil r zero d s p nth_Cons_0
        nth_Cons_Suc One_nat_def numeral_2_eq_2 numeral_3_eq_3 decoded_flag not_not)
       (cases c, simp only: comments.simps)
qed

lemma comments_roundtrip:
  "wf_comments c \<Longrightarrow> incoming_suspicious c = None \<Longrightarrow> comments_de (comments_ser c) = c"
  by (simp add: comments_de_ser get_or_def)

lemma connection_unite_split [simp]:
  "(\<lambda>(k, v). connection_unite k v) (connection_split cn) = cn"
  "connection_split (connection_unite k v) = (k, v)"
  by (simp_all add: connection_split_def connection_unite_def connection_key_of_def
      connection_value_of_def)

lemma connection_key_of_operations [simp]:
  "connection_key_of (set_peer_pk pk cn) = connection_key_of cn"
  "connection_key_of (add_comment f cn) = connection_key_of cn"
  "connection_key_of (mark_uncertain cn) = connection_key_of cn"
  "connection_key_of (mark_cannot_decrypt s p cn) = connection_key_of cn"
  by (simp_all add: connection_key_of_def set_peer_pk_def add_comment_def mark_uncertain_def
      mark_cannot_decrypt_def)

interpretation connection_key: ordered_codec connection_key_encode connection_key_decode
  "\<lambda>_. True" 12 connection_key_less
proof unfold_locales
  fix x y :: connection_key
  show "lex_less (connection_key_encode x) (connection_key_encode y) \<longleftrightarrow> connection_key_less x y"
    by (cases x; cases y)
      (auto simp: connection_key_encode_def connection_key_less_def lex_less_append_eq_length
        lex_less_to_be_bytes)
qed (auto simp: connection_key_encode_def connection_key_decode_def split: if_splits)

lemma connection_key_string_roundtrip:
  "connection_key_from_str (connection_key_to_string k) = Inr k"
  by (simp add: connection_key_from_str_def connection_key_to_string_def split_on_append
      split_on_none nth_opt_def map_err_def Let_def)

lemma length_connection_value_encode [simp]:
  "wf_connection_value v \<Longrightarrow> length (connection_value_encode v) = 88"
  by (simp add: connection_value_encode_def wf_connection_value_def)

text \<open>
  A stored connection is read back with its address in IPv6 form and with the comments as
  \<open>comments_de\<close> reads them.
\<close>

lemma connection_value_decode_encode:
  assumes "wf_connection_value v"
  shows "connection_value_decode (connection_value_encode v) =
    Inr (v\<lparr>cv_remote_addr := addr_v6 (cv_remote_addr v),
           cv_comments := comments_de (comments_ser (cv_comments v))\<rparr>)"
proof -
  let ?e = "connection_value_encode v" and ?ip = "ip_octets (sa_ip (cv_remote_addr v))"
    and ?port = "to_le_bytes (sa_port (cv_remote_addr v))"
    and ?i = "fst (comments_ser (cv_comments v))" and ?o = "snd (comments_ser (cv_comments v))"
    and ?f = "flag (initiator_incoming (cv_initiator v))"
  have l: "length ?ip = 16" "length (cv_peer_pk v) = 32" "length ?port = 2"
    using assms by (simp_all add: wf_connection_value_def)
  have e: "?e = ?ip @ ?port @ [?f, 0] @ ?i @ ?o @ cv_peer_pk v"
    by (simp add: connection_value_encode_def)
  have "sub ?e 0 16 = ?ip" "sub ?e 16 18 = ?port" "?e ! 18 = ?f" "sub ?e 20 38 = ?i"
    "sub ?e 38 56 = ?o" "sub ?e 56 88 = cv_peer_pk v"
    by (simp_all add: e l sub_def nth_append)
  then show ?thesis
    using assms by (simp add: connection_value_decode_def addr_v6_def)
qed

definition sample_value :: connection_value where
  "sample_value = \<lparr>cv_initiator = Initiator_Remote,
     cv_remote_addr = \<lparr>sa_ip = Ip_V4 [10, 0, 0, 1], sa_port = 9732\<rparr>,
     cv_peer_pk = replicate 32 3,
     cv_comments = comments_default\<lparr>incoming_wrong_pow := Some 26, incoming_too_short := Some 88,
       outgoing_cannot_decrypt := Some 7, incoming_suspicious := Some 4\<rparr>\<rparr>"

text \<open>
  C33: A stored connection is read back with its initiator, its address in IPv6 form, its key and
  all its comments but one. The mark of a suspicious message is not read from where it is written:
  when its 32 stored bits are not zero it comes back as the position of the first chunk that could
  not be decrypted, or as the largest number when there is none.
\<close>

theorem connection_value_roundtrip:
  assumes "wf_connection_value v"
  shows "connection_value_decode (connection_value_encode v) =
    Inr (v\<lparr>cv_remote_addr := addr_v6 (cv_remote_addr v),
           cv_comments := (cv_comments v)\<lparr>incoming_suspicious :=
             (if (ucast (get_or 0 (incoming_suspicious (cv_comments v))) :: u32) = 0 then None
              else Some (get_or (- 1) (incoming_cannot_decrypt (cv_comments v))))\<rparr>\<rparr>)"
  using connection_value_decode_encode [OF assms] comments_de_ser assms
  by (simp add: wf_connection_value_def)

theorem connection_value_roundtrip_witness:
  "connection_value_decode (connection_value_encode sample_value) =
    Inr (sample_value\<lparr>cv_remote_addr := addr_v6 (cv_remote_addr sample_value),
           cv_comments := (cv_comments sample_value)\<lparr>incoming_suspicious :=
             (if (ucast (get_or 0 (incoming_suspicious (cv_comments sample_value))) :: u32) = 0 then None
              else Some (get_or (- 1) (incoming_cannot_decrypt (cv_comments sample_value))))\<rparr>\<rparr>)"
  by (rule connection_value_roundtrip)
    (simp add: wf_connection_value_def wf_comments_def sample_value_def comments_default_def)

end
