(* ===== verification/Chunk_Table.thy ===== *)
theory Chunk_Table
  imports Connection_Table
begin

text \<open>
  The chunk table, \<^verbatim>\<open>tezedge-recorder/src/tables/chunk.rs\<close>. A key is the connection key followed by
  one big-endian \<^verbatim>\<open>u64\<close> that interleaves the two directions: twice the counter, plus one for an
  incoming chunk. Arithmetic is that of a release build, where it wraps. Decoding a value can panic
  on a damaged record, so it returns a panic or a result.
\<close>

unbundle bit_operations_syntax

section \<open>Items\<close>

record chunk_item =
  ci_cn_id :: connection_key
  ci_sender :: sender
  ci_counter :: u64
  ci_timestamp :: u64
  ci_net :: bool
  ci_bytes :: bytes
  ci_plain :: bytes

record chunk_key =
  chk_cn_id :: connection_key
  chk_counter :: u64
  chk_sender :: sender

record chunk_value =
  chv_net :: bool
  chv_timestamp :: u64
  chv_bytes :: bytes
  chv_plain :: bytes

text \<open>\<open>secs\<close> is the reading of the clock, in seconds since the epoch.\<close>

definition chunk_new ::
    "u64 \<Rightarrow> connection_key \<Rightarrow> sender \<Rightarrow> u64 \<Rightarrow> bytes \<Rightarrow> bytes \<Rightarrow> chunk_item" where
  "chunk_new secs cn_id sender counter bs plain =
     \<lparr>ci_cn_id = cn_id, ci_sender = sender, ci_counter = counter, ci_timestamp = secs,
      ci_net = True, ci_bytes = bs, ci_plain = plain\<rparr>"

definition chunk_net :: "bool \<Rightarrow> chunk_item \<Rightarrow> chunk_item" where
  "chunk_net net c = c\<lparr>ci_net := net\<rparr>"

definition chunk_split :: "chunk_item \<Rightarrow> chunk_key \<times> chunk_value" where
  "chunk_split c =
     (\<lparr>chk_cn_id = ci_cn_id c, chk_counter = ci_counter c, chk_sender = ci_sender c\<rparr>,
      \<lparr>chv_net = ci_net c, chv_timestamp = ci_timestamp c, chv_bytes = ci_bytes c,
       chv_plain = ci_plain c\<rparr>)"

definition chunk_key_begin :: "connection_key \<Rightarrow> chunk_key" where
  "chunk_key_begin cn_id = \<lparr>chk_cn_id = cn_id, chk_counter = 0, chk_sender = Sender_Local\<rparr>"

definition chunk_key_end :: "connection_key \<Rightarrow> chunk_key" where
  "chunk_key_end cn_id =
     \<lparr>chk_cn_id = cn_id, chk_counter = - 1 div 2, chk_sender = Sender_Remote\<rparr>"

section \<open>Keys as strings\<close>

datatype chunk_key_error =
    ChunkKey_Error
  | ChunkKey_ConnectionKey key_from_str_error
  | ChunkKey_DecimalParse parse_int_error

definition chunk_key_from_str :: "string \<Rightarrow> chunk_key_error + chunk_key" where
  "chunk_key_from_str s =
     (let parts = split_on CHR ''-'' s in
      and_then (ok_or ChunkKey_Error (nth_opt parts 0)) (\<lambda>p0.
      and_then (map_err ChunkKey_ConnectionKey (connection_key_from_str p0)) (\<lambda>cn_id.
      and_then (ok_or ChunkKey_Error (nth_opt parts 1)) (\<lambda>sender.
      and_then (ok_or ChunkKey_Error (nth_opt parts 2)) (\<lambda>p2.
      and_then (map_err ChunkKey_DecimalParse (parse_uint p2)) (\<lambda>counter.
      Inr \<lparr>chk_cn_id = cn_id, chk_counter = counter,
           chk_sender = sender_new (sender = ''remote'')\<rparr>))))))"

definition chunk_key_to_string :: "chunk_key \<Rightarrow> string" where
  "chunk_key_to_string k =
     connection_key_to_string (chk_cn_id k) @ ''-'' @ sender_to_string (chk_sender k)
     @ ''-'' @ show_uint (chk_counter k)"

section \<open>Keys and values as bytes\<close>

definition chunk_key_encode :: "chunk_key \<Rightarrow> bytes" where
  "chunk_key_encode k =
     connection_key_encode (chk_cn_id k)
     @ to_be_bytes (if sender_incoming (chk_sender k) then chk_counter k * 2 + 1
                    else chk_counter k * 2)"

definition chunk_key_decode :: "bytes \<Rightarrow> schema_error + chunk_key" where
  "chunk_key_decode bs =
     (if length bs \<noteq> 20 then Inl DecodeError
      else let c = (from_be_bytes (drop 12 bs) :: u64) in
        and_then (connection_key_decode (take 12 bs)) (\<lambda>cn_id.
        Inr \<lparr>chk_cn_id = cn_id, chk_counter = c div 2, chk_sender = sender_new (c AND 1 \<noteq> 0)\<rparr>))"

definition chunk_value_encode :: "chunk_value \<Rightarrow> bytes" where
  "chunk_value_encode v =
     to_le_bytes (chv_timestamp v)
     @ to_le_bytes (word_of_nat (length (chv_bytes v)) :: u64)
     @ [flag (chv_net v)]
     @ chv_bytes v
     @ chv_plain v"

definition chunk_value_decode :: "bytes \<Rightarrow> panic + schema_error + chunk_value" where
  "chunk_value_decode bs =
     (if length bs < 17 then Inr (Inl DecodeError)
      else let len = (from_le_bytes (sub bs 8 16) :: u64) in
        if length bs < unat (16 + len) then Inr (Inl DecodeError)
        else and_then (slice bs 17 (unat (17 + len))) (\<lambda>b.
             and_then (slice bs (unat (17 + len)) (length bs)) (\<lambda>p.
             Inr (Inr \<lparr>chv_net = (bs ! 16 \<noteq> 0), chv_timestamp = from_le_bytes (sub bs 0 8),
                       chv_bytes = b, chv_plain = p\<rparr>))))"

text \<open>
  The hexadecimal texts of the two \<^verbatim>\<open>Serialize\<close> implementations; \<open>hex\<close> stands for \<^verbatim>\<open>hex::encode\<close>.
\<close>

definition chunk_value_hex :: "(bytes \<Rightarrow> string) \<Rightarrow> chunk_value \<Rightarrow> string \<times> string" where
  "chunk_value_hex hex v = (hex (chv_bytes v), hex (chv_plain v))"

definition truncated_hex :: "(bytes \<Rightarrow> string) \<Rightarrow> bytes \<Rightarrow> string" where
  "truncated_hex hex d =
     (if length d > 0x10000
      then hex (take 0x10000 d) @ ''...truncated '' @ show_nat (length d - 0x10000) @ '' bytes''
      else hex d)"

definition chunk_value_truncated_hex :: "(bytes \<Rightarrow> string) \<Rightarrow> chunk_value \<Rightarrow> string \<times> string" where
  "chunk_value_truncated_hex hex v = (truncated_hex hex (chv_bytes v), truncated_hex hex (chv_plain v))"

section \<open>Correctness\<close>

definition wf_chunk_key :: "chunk_key \<Rightarrow> bool" where
  "wf_chunk_key k \<longleftrightarrow> unat (chk_counter k) < 2 ^ 63"

definition chunk_key_less :: "chunk_key \<Rightarrow> chunk_key \<Rightarrow> bool" where
  "chunk_key_less k l \<longleftrightarrow>
     connection_key_less (chk_cn_id k) (chk_cn_id l) \<or>
     chk_cn_id k = chk_cn_id l \<and>
       (chk_counter k < chk_counter l \<or>
        chk_counter k = chk_counter l \<and> chk_sender k = Sender_Local \<and> chk_sender l = Sender_Remote)"

lemma chunk_key_string_roundtrip: "chunk_key_from_str (chunk_key_to_string k) = Inr k"
proof -
  have "CHR ''-'' \<notin> set (connection_key_to_string (chk_cn_id k))"
    by (simp add: connection_key_to_string_def)
  moreover have "CHR ''-'' \<notin> set (sender_to_string (chk_sender k))"
    by (cases "chk_sender k") simp_all
  moreover have "sender_new (sender_to_string (chk_sender k) = ''remote'') = chk_sender k"
    by (cases "chk_sender k") (simp_all add: sender_new_def)
  ultimately show ?thesis
    by (simp add: chunk_key_from_str_def chunk_key_to_string_def split_on_append split_on_none
        nth_opt_def map_err_def Let_def connection_key_string_roundtrip numeral_2_eq_2)
qed

text \<open>The interleaved counter.\<close>

definition interleave :: "u64 \<Rightarrow> sender \<Rightarrow> u64" where
  "interleave c s = (if sender_incoming s then c * 2 + 1 else c * 2)"

lemma unat_interleave:
  "unat c < 2 ^ 63 \<Longrightarrow> unat (interleave c s) = 2 * unat c + (if sender_incoming s then 1 else 0)"
  by (simp add: interleave_def unat_word_ariths)

lemma interleave_div: "unat c < 2 ^ 63 \<Longrightarrow> interleave c s div 2 = c"
  by (simp add: word_unat_eq_iff unat_interleave unat_div)

lemma interleave_and: "unat c < 2 ^ 63 \<Longrightarrow> interleave c s AND 1 \<noteq> 0 \<longleftrightarrow> sender_incoming s"
  by (simp add: and_one_eq word_unat_eq_iff unat_interleave unat_mod)

lemma interleave_less:
  "unat c < 2 ^ 63 \<Longrightarrow> unat d < 2 ^ 63 \<Longrightarrow>
   interleave c s < interleave d t \<longleftrightarrow>
     c < d \<or> c = d \<and> s = Sender_Local \<and> t = Sender_Remote"
  by (cases s; cases t)
    (auto simp: word_less_nat_alt word_unat_eq_iff unat_interleave)

lemma chunk_key_encode_interleave:
  "chunk_key_encode k =
     connection_key_encode (chk_cn_id k) @ to_be_bytes (interleave (chk_counter k) (chk_sender k))"
  by (simp add: chunk_key_encode_def interleave_def)

lemma length_connection_key_encode [simp]: "length (connection_key_encode k) = 12"
  by (rule connection_key.encode_width) simp

interpretation chunk_key: ordered_codec chunk_key_encode chunk_key_decode
  wf_chunk_key 20 chunk_key_less
proof unfold_locales
  fix x y :: chunk_key
  assume v: "wf_chunk_key x"
  show "chunk_key_decode (chunk_key_encode x) = Inr x"
    using v by (simp add: chunk_key_decode_def chunk_key_encode_interleave wf_chunk_key_def
        interleave_div interleave_and connection_key.decode_encode)
  show "length (chunk_key_encode x) = 20"
    by (simp add: chunk_key_encode_def)
  assume w: "wf_chunk_key y"
  show "lex_less (chunk_key_encode x) (chunk_key_encode y) \<longleftrightarrow> chunk_key_less x y"
    using v w by (simp add: chunk_key_encode_interleave lex_less_append_eq_length
        connection_key.encode_less connection_key.encode_eq_iff lex_less_to_be_bytes
        interleave_less wf_chunk_key_def chunk_key_less_def)
qed (auto simp: chunk_key_decode_def split: if_splits)

text \<open>
  The bounds \<^verbatim>\<open>Key::begin\<close> and \<^verbatim>\<open>Key::end\<close> enclose exactly the chunks of one connection: in the
  byte order of the store, a key whose counter fits 63 bits lies between the two bounds of a
  connection if and only if it belongs to that connection.
\<close>

theorem chunk_key_begin_end:
  assumes "wf_chunk_key k"
  shows "chk_cn_id k = cn_id \<longleftrightarrow>
    \<not> lex_less (chunk_key_encode k) (chunk_key_encode (chunk_key_begin cn_id)) \<and>
    \<not> lex_less (chunk_key_encode (chunk_key_end cn_id)) (chunk_key_encode k)"
proof -
  have wf: "wf_chunk_key (chunk_key_begin cn_id)" "wf_chunk_key (chunk_key_end cn_id)"
    by (simp_all add: wf_chunk_key_def chunk_key_begin_def chunk_key_end_def unat_div)
  have "chk_counter k \<le> - 1 div 2"
    using assms by (simp add: wf_chunk_key_def word_le_nat_alt unat_div)
  then show ?thesis
    using assms wf
    by (cases k; cases cn_id; cases "chk_sender k")
      (auto simp: chunk_key.encode_less chunk_key_less_def chunk_key_begin_def chunk_key_end_def connection_key_less_def)
qed

lemma chunk_value_reads:
  assumes "length (chv_bytes v) < 2 ^ 64 - 17"
  shows "chunk_value_decode (chunk_value_encode v) = Inr (Inr v)"
proof -
  let ?n = "length (chv_bytes v)" and ?e = "chunk_value_encode v"
  have u: "unat (16 + word_of_nat ?n :: u64) = 16 + ?n" "unat (17 + word_of_nat ?n :: u64) = 17 + ?n"
    using assms by (simp_all add: unat_word_ariths unat_of_nat)
  have "sub ?e 8 16 = to_le_bytes (word_of_nat ?n :: u64)" "sub ?e 0 8 = to_le_bytes (chv_timestamp v)"
    "?e ! 16 = flag (chv_net v)" "sub ?e 17 (17 + ?n) = chv_bytes v"
    "sub ?e (17 + ?n) (length ?e) = chv_plain v"
    "length ?e = 17 + ?n + length (chv_plain v)"
    by (simp_all add: chunk_value_encode_def sub_def nth_append)
  then show ?thesis
    by (simp add: chunk_value_decode_def Let_def u slice_def)
qed

text \<open>A stored chunk is read back unchanged, whatever its two byte strings are.\<close>

theorem chunk_value_decode_encode:
  assumes "length (chv_bytes v) < 2 ^ 64 - 17"
  shows "chunk_value_decode (chunk_value_encode v) = Inr (Inr v)"
  by (rule chunk_value_reads [OF assms])

lemma unat_add_u64:
  "unat (v + w :: u64) =
    (if unat v + unat w < 2 ^ 64 then unat v + unat w else unat v + unat w - 2 ^ 64)"
  using unat_bound [of v] unat_bound [of w]
  by (simp add: unat_word_ariths mod_if [of "unat v + unat w"])

text \<open>
  When decoding a chunk panics. For any bytes (a vector is shorter than 2 to the 63): the announced length
  is checked against one byte too few, after an addition that wraps, so the records on which
  decoding panics are those that miss exactly one byte of the chunk and those whose announced
  length is within 16 of the end of the range.
\<close>

theorem chunk_value_decode_panic_iff:
  assumes "length bs < 2 ^ 63" and "len = unat (from_le_bytes (sub bs 8 16) :: u64)"
  shows "(\<exists>p. chunk_value_decode bs = Inl p) \<longleftrightarrow>
    17 \<le> length bs \<and> (length bs = 16 + len \<or> 2 ^ 64 \<le> 16 + len)"
proof -
  have "len < 2 ^ 64" using assms(2) unat_bound [of "from_le_bytes (sub bs 8 16) :: u64"] by simp
  then show ?thesis
    using assms
    by (auto simp: chunk_value_decode_def Let_def slice_def unat_add_u64 split: if_splits)
qed

definition sample_chunk_key :: chunk_key where
  "sample_chunk_key = \<lparr>chk_cn_id = \<lparr>ck_ts = 1617005682, ck_ts_nanos = 953928051\<rparr>,
     chk_counter = 15, chk_sender = Sender_Remote\<rparr>"

theorem chunk_key_begin_end_witness:
  "chk_cn_id sample_chunk_key = \<lparr>ck_ts = 1617005682, ck_ts_nanos = 953928051\<rparr> \<longleftrightarrow>
    \<not> lex_less (chunk_key_encode sample_chunk_key)
        (chunk_key_encode (chunk_key_begin \<lparr>ck_ts = 1617005682, ck_ts_nanos = 953928051\<rparr>)) \<and>
    \<not> lex_less (chunk_key_encode (chunk_key_end \<lparr>ck_ts = 1617005682, ck_ts_nanos = 953928051\<rparr>))
        (chunk_key_encode sample_chunk_key)"
  by (rule chunk_key_begin_end) (simp add: wf_chunk_key_def sample_chunk_key_def)

theorem chunk_value_decode_encode_witness:
  "chunk_value_decode (chunk_value_encode \<lparr>chv_net = True, chv_timestamp = 7,
     chv_bytes = [0, 1, 5], chv_plain = [5]\<rparr>) =
   Inr (Inr \<lparr>chv_net = True, chv_timestamp = 7, chv_bytes = [0, 1, 5], chv_plain = [5]\<rparr>)"
  by (rule chunk_value_decode_encode) simp

text \<open>A record of 17 bytes that announces a chunk of one byte and holds none.\<close>

definition sample_damaged :: bytes where
  "sample_damaged = replicate 8 0 @ [1, 0, 0, 0, 0, 0, 0, 0] @ [1]"

theorem chunk_value_decode_panic_iff_witness:
  "(\<exists>p. chunk_value_decode sample_damaged = Inl p) \<longleftrightarrow>
    17 \<le> length sample_damaged \<and> (length sample_damaged = 16 + 1 \<or> 2 ^ 64 \<le> 16 + (1 :: nat))"
  by (rule chunk_value_decode_panic_iff)
    (simp_all add: sample_damaged_def sub_def from_le_bytes_def from_be_bytes_def)

text \<open>
  Chunk keys are read back and ordered by connection, then number, then direction: for keys
  whose counter fits 63 bits, decoding inverts encoding, and the byte order of the encodings is
  the order of connection (seconds, nanoseconds), counter, and outgoing before incoming.
\<close>

theorem chunk_key_codec:
  assumes "wf_chunk_key k" and "wf_chunk_key l"
  shows "chunk_key_decode (chunk_key_encode k) = Inr k \<and>
    (lex_less (chunk_key_encode k) (chunk_key_encode l) \<longleftrightarrow> chunk_key_less k l)"
  using assms by (simp add: chunk_key.decode_encode chunk_key.encode_less)

theorem chunk_key_codec_witness:
  "chunk_key_decode (chunk_key_encode sample_chunk_key) = Inr sample_chunk_key \<and>
    (lex_less (chunk_key_encode sample_chunk_key)
       (chunk_key_encode (sample_chunk_key\<lparr>chk_counter := 16\<rparr>)) \<longleftrightarrow>
     chunk_key_less sample_chunk_key (sample_chunk_key\<lparr>chk_counter := 16\<rparr>))"
  by (rule chunk_key_codec) (simp_all add: wf_chunk_key_def sample_chunk_key_def)

text \<open>
  The printed form of a chunk key (seconds, a dot, nanoseconds, the direction and the counter,
  joined by dashes) parses back to the key, for every key.
\<close>

theorem chunk_key_print_parse: "chunk_key_from_str (chunk_key_to_string k) = Inr k"
  by (rule chunk_key_string_roundtrip)

end
