(* ===== verification/Chunk_State.thy ===== *)
theory Chunk_State
  imports Chunk_Buffer Chunk_Table
begin

text \<open>
  The states of one direction of a connection, \<^verbatim>\<open>chunk_parser/key.rs\<close> and \<^verbatim>\<open>chunk_parser/state.rs\<close>.
  Every state of the source is a wrapper of \<^verbatim>\<open>Inner\<close>; the enums of the parser, in \<open>Chunk_Parser\<close>,
  say which state it is. The type-level bit \<^verbatim>\<open>S\<close> is the argument \<open>s\<close>, true for the remote side.

  The cryptography is a crate outside the repository: the record \<open>crypto\<close> holds what the code calls,
  and is an argument of every definition that calls it. The clock readings of the stored items are
  arguments too, a function of the direction and of the number of the chunk, since one item is
  made per number.
\<close>

section \<open>Parameters\<close>

record identity =
  id_public_key :: bytes
  id_secret_key :: bytes

record ('k, 'pk, 'n) crypto =
  cr_pk_from_bytes :: "bytes \<Rightarrow> 'k option"
  cr_sk_from_bytes :: "bytes \<Rightarrow> 'k option"
  cr_generate_nonces :: "bytes \<Rightarrow> bytes \<Rightarrow> bool \<Rightarrow> ('n \<times> 'n) option"
  cr_precompute :: "'k \<Rightarrow> 'k \<Rightarrow> 'pk"
  cr_decrypt :: "'pk \<Rightarrow> bytes \<Rightarrow> 'n \<Rightarrow> bytes option"
  cr_increment :: "'n \<Rightarrow> 'n"
  cr_check_pow :: "bytes \<Rightarrow> nat \<Rightarrow> bool"

record clock =
  clk_secs :: "sender \<Rightarrow> u64 \<Rightarrow> u64"
  clk_millis :: "sender \<Rightarrow> u64 \<Rightarrow> u64"

section \<open>Keys\<close>

record ('pk, 'n) key =
  key_key :: 'pk
  key_nonce :: 'n

record ('pk, 'n) keys =
  keys_local :: "('pk, 'n) key"
  keys_remote :: "('pk, 'n) key"

datatype crypto_error = InvalidKeySize nat nat | InvalidKey string

definition keys_new ::
    "('k, 'pk, 'n) crypto \<Rightarrow> identity \<Rightarrow> bytes \<Rightarrow> bytes \<Rightarrow> initiator
     \<Rightarrow> panic + crypto_error + ('pk, 'n) keys" where
  "keys_new cr identity local remote ini =
     (if length local < 36 then Inr (Inl (InvalidKeySize 32 (max (length local) 4 - 4)))
      else if length remote < 36 then Inr (Inl (InvalidKeySize 32 (max (length remote) 4 - 4)))
      else if id_public_key identity \<noteq> sub local 4 36
      then Inr (Inl (InvalidKey ''The communication does not belong to the local node''))
      else and_then (unwrap (cr_pk_from_bytes cr (sub remote 4 36))) (\<lambda>pk.
           and_then (unwrap (cr_sk_from_bytes cr (id_secret_key identity))) (\<lambda>sk.
           and_then (unwrap (cr_generate_nonces cr local remote (initiator_incoming ini)))
             (\<lambda>(nl, nr).
           let key = cr_precompute cr pk sk in
           Inr (Inr \<lparr>keys_local = \<lparr>key_key = key, key_nonce = nl\<rparr>,
                     keys_remote = \<lparr>key_key = key, key_nonce = nr\<rparr>\<rparr>)))))"

definition key_decrypt ::
    "('k, 'pk, 'n) crypto \<Rightarrow> ('pk, 'n) key \<Rightarrow> bytes \<Rightarrow> panic + (bytes \<times> ('pk, 'n) key) option" where
  "key_decrypt cr k payload =
     and_then (slice payload 2 (length payload)) (\<lambda>p.
     case cr_decrypt cr (key_key k) p (key_nonce k) of
       None \<Rightarrow> Inr None
     | Some plain \<Rightarrow> Inr (Some (plain, k\<lparr>key_nonce := cr_increment cr (key_nonce k)\<rparr>)))"

section \<open>The wrapped state\<close>

record inner =
  in_cn_id :: connection_key
  in_id :: identity
  in_buffer :: buffer

definition inner_chunk :: "clock \<Rightarrow> bool \<Rightarrow> inner \<Rightarrow> u64 \<Rightarrow> bytes \<Rightarrow> bytes \<Rightarrow> chunk_item" where
  "inner_chunk clk s i counter bs plain =
     chunk_new (clk_secs clk (sender_new s) counter) (in_cn_id i) (sender_new s) counter bs plain"

definition inner_handle_data :: "inner \<Rightarrow> bytes \<Rightarrow> inner" where
  "inner_handle_data i payload = i\<lparr>in_buffer := buffer_handle_data (in_buffer i) payload\<rparr>"

definition inner_cleanup :: "clock \<Rightarrow> bool \<Rightarrow> inner \<Rightarrow> chunk_item option \<times> inner" where
  "inner_cleanup clk s i =
     (let (r, b) = buffer_cleanup (in_buffer i) in
      (map_option (\<lambda>(counter, bs). inner_chunk clk s i counter bs []) r, i\<lparr>in_buffer := b\<rparr>))"

section \<open>Initial, HaveCm, Uncertain, HaveNotKey\<close>

definition initial_new :: "connection_key \<Rightarrow> identity \<Rightarrow> inner" where
  "initial_new cn_id identity =
     \<lparr>in_cn_id = cn_id, in_id = identity, in_buffer = buffer_default\<rparr>"

definition uncertain_new :: "clock \<Rightarrow> bool \<Rightarrow> inner \<Rightarrow> inner \<times> chunk_item option" where
  "uncertain_new clk s i = (let (c, i') = inner_cleanup clk s i in (i', c))"

definition initial_uncertain :: "clock \<Rightarrow> bool \<Rightarrow> inner \<Rightarrow> inner \<times> chunk_item option" where
  "initial_uncertain clk s i = uncertain_new clk s i"

definition initial_is_empty :: "inner \<Rightarrow> bool" where
  "initial_is_empty i \<longleftrightarrow> buffer_remaining (in_buffer i) = 0"

text \<open>Left: still \<^verbatim>\<open>Initial\<close>; right: \<^verbatim>\<open>HaveCm\<close>.\<close>

definition initial_handle_data :: "inner \<Rightarrow> bytes \<Rightarrow> inner + inner" where
  "initial_handle_data i payload =
     (let i' = inner_handle_data i payload in
      if have_chunk (in_buffer i') \<noteq> None then Inr i' else Inl i')"

text \<open>Right: the state is kept; left: \<^verbatim>\<open>Uncertain\<close>, with what was in the buffer as one chunk.\<close>

definition have_cm_handle_data ::
    "clock \<Rightarrow> bool \<Rightarrow> inner \<Rightarrow> bytes \<Rightarrow> (inner \<times> chunk_item option) + inner" where
  "have_cm_handle_data clk s i payload =
     (if buffer_remaining (in_buffer i) > 0x20000 then Inl (uncertain_new clk s i)
      else Inr (inner_handle_data i payload))"

definition have_cm_have_key ::
    "clock \<Rightarrow> bool \<Rightarrow> inner \<Rightarrow> panic + (inner \<times> chunk_item)" where
  "have_cm_have_key clk s i =
     (let (r, b) = buffer_next (in_buffer i) in
      and_then (unwrap r) (\<lambda>(counter, bs).
      and_then (slice bs 2 (length bs)) (\<lambda>plain.
      let i' = i\<lparr>in_buffer := b\<rparr> in Inr (i', inner_chunk clk s i' counter bs plain))))"

definition have_cm_have_not_key :: "clock \<Rightarrow> bool \<Rightarrow> inner \<Rightarrow> inner \<times> chunk_item option" where
  "have_cm_have_not_key clk s i = (let (c, i') = inner_cleanup clk s i in (i', c))"

definition uncertain_handle_data ::
    "clock \<Rightarrow> bool \<Rightarrow> inner \<Rightarrow> bytes \<Rightarrow> panic + (chunk_item \<times> inner)" where
  "uncertain_handle_data clk s i payload =
     (let (c, i') = inner_cleanup clk s (inner_handle_data i payload) in
      and_then (unwrap c) (\<lambda>c. Inr (c, i')))"

definition have_not_key_handle_data ::
    "clock \<Rightarrow> bool \<Rightarrow> inner \<Rightarrow> bytes \<Rightarrow> panic + (chunk_item \<times> inner)" where
  "have_not_key_handle_data clk s i payload =
     (let (c, i') = inner_cleanup clk s (inner_handle_data i payload) in
      and_then (unwrap c) (\<lambda>c. Inr (c, i')))"

section \<open>Making the keys\<close>

text \<open>
  \<open>Inr\<close> of the two results of \<open>make_key_output\<close> is \<^verbatim>\<open>HaveKey\<close> with its key, \<open>Inl\<close> is \<^verbatim>\<open>HaveNotKey\<close>.
\<close>

record ('pk, 'n) make_key_output =
  mk_local :: "inner + (inner \<times> ('pk, 'n) key)"
  mk_l_chunk :: "chunk_item option"
  mk_remote :: "inner + (inner \<times> ('pk, 'n) key)"
  mk_r_chunk :: "chunk_item option"

datatype handshake_warning = ConnectionMessageTooShort nat | PowInvalid nat

definition check_connection_message ::
    "('k, 'pk, 'n) crypto \<Rightarrow> bytes \<Rightarrow> handshake_warning + bytes" where
  "check_connection_message cr payload =
     (if length payload \<le> 88 then Inl (ConnectionMessageTooShort (length payload))
      else let target = 26 in
        if \<not> cr_check_pow cr (sub payload 4 60) target then Inl (PowInvalid target)
        else Inr (sub payload 4 36))"

definition comment_local :: "handshake_warning + bytes \<Rightarrow> connection_item \<Rightarrow> connection_item" where
  "comment_local r cn =
     (case r of
        Inr _ \<Rightarrow> cn
      | Inl (ConnectionMessageTooShort n) \<Rightarrow>
          add_comment (\<lambda>c. c\<lparr>outgoing_too_short := Some n\<rparr>) cn
      | Inl (PowInvalid target) \<Rightarrow> add_comment (\<lambda>c. c\<lparr>outgoing_wrong_pow := Some target\<rparr>) cn)"

definition comment_remote :: "handshake_warning + bytes \<Rightarrow> connection_item \<Rightarrow> connection_item" where
  "comment_remote r cn =
     (case r of
        Inr pk \<Rightarrow> set_peer_pk pk cn
      | Inl (ConnectionMessageTooShort n) \<Rightarrow>
          add_comment (\<lambda>c. c\<lparr>incoming_too_short := Some n\<rparr>) cn
      | Inl (PowInvalid target) \<Rightarrow> add_comment (\<lambda>c. c\<lparr>incoming_wrong_pow := Some target\<rparr>) cn)"

definition make_key ::
    "('k, 'pk, 'n) crypto \<Rightarrow> clock \<Rightarrow> inner \<Rightarrow> inner \<Rightarrow> connection_item
     \<Rightarrow> panic + (('pk, 'n) make_key_output \<times> connection_item)" where
  "make_key cr clk l r cn =
     and_then (unwrap (have_chunk (in_buffer l))) (\<lambda>local_chunk.
     and_then (unwrap (have_chunk (in_buffer r))) (\<lambda>remote_chunk.
     and_then (keys_new cr (in_id l) local_chunk remote_chunk (cn_initiator cn)) (\<lambda>result.
     case result of
       Inr ks \<Rightarrow>
         and_then (have_cm_have_key clk False l) (\<lambda>(l', l_chunk).
         and_then (have_cm_have_key clk True r) (\<lambda>(r', r_chunk).
         Inr (\<lparr>mk_local = Inr (l', keys_local ks), mk_l_chunk = Some l_chunk,
               mk_remote = Inr (r', keys_remote ks), mk_r_chunk = Some r_chunk\<rparr>,
              comment_remote (check_connection_message cr (ci_bytes r_chunk))
                (comment_local (check_connection_message cr (ci_bytes l_chunk)) cn))))
     | Inl _ \<Rightarrow>
         let (l', l_chunk) = have_cm_have_not_key clk False l;
             (r', r_chunk) = have_cm_have_not_key clk True r
         in Inr (\<lparr>mk_local = Inl l', mk_l_chunk = l_chunk, mk_remote = Inl r', mk_r_chunk = r_chunk\<rparr>,
                 add_comment (\<lambda>c. c\<lparr>outgoing_wrong_pk := True\<rparr>) cn))))"

section \<open>HaveKey, HaveData, CannotDecrypt\<close>

record ('pk, 'n) have_data =
  hd_inner :: inner
  hd_key :: "('pk, 'n) key"
  hd_error :: "u64 option"

definition have_key_handle_data ::
    "inner \<Rightarrow> ('pk, 'n) key \<Rightarrow> bytes \<Rightarrow> ('pk, 'n) have_data" where
  "have_key_handle_data i k payload =
     \<lparr>hd_inner = inner_handle_data i payload, hd_key = k, hd_error = None\<rparr>"

definition have_data_next ::
    "('k, 'pk, 'n) crypto \<Rightarrow> clock \<Rightarrow> bool \<Rightarrow> ('pk, 'n) have_data
     \<Rightarrow> panic + (chunk_item option \<times> ('pk, 'n) have_data)" where
  "have_data_next cr clk s d =
     (if hd_error d \<noteq> None then Inr (None, d)
      else case buffer_next (in_buffer (hd_inner d)) of
        (None, b) \<Rightarrow> Inr (None, d\<lparr>hd_inner := (hd_inner d)\<lparr>in_buffer := b\<rparr>\<rparr>)
      | (Some (counter, bs), b) \<Rightarrow>
          let i = (hd_inner d)\<lparr>in_buffer := b\<rparr> in
          and_then (key_decrypt cr (hd_key d) bs) (\<lambda>r.
          case r of
            Some (plain, k) \<Rightarrow>
              Inr (Some (inner_chunk clk s i counter bs plain), d\<lparr>hd_inner := i, hd_key := k\<rparr>)
          | None \<Rightarrow> Inr (None, d\<lparr>hd_inner := i, hd_error := Some counter\<rparr>)))"

text \<open>Right: back to \<^verbatim>\<open>HaveKey\<close>; left: \<^verbatim>\<open>CannotDecrypt\<close> with the position.\<close>

definition have_data_over ::
    "('pk, 'n) have_data \<Rightarrow> (inner \<times> u64) + (inner \<times> ('pk, 'n) key)" where
  "have_data_over d =
     (case hd_error d of
        Some position \<Rightarrow> Inl (hd_inner d, position)
      | None \<Rightarrow> Inr (hd_inner d, hd_key d))"

definition cannot_decrypt_handle_data :: "inner \<Rightarrow> bytes \<Rightarrow> inner" where
  "cannot_decrypt_handle_data i payload = inner_handle_data i payload"

definition cannot_decrypt_next :: "clock \<Rightarrow> bool \<Rightarrow> inner \<Rightarrow> chunk_item option \<times> inner" where
  "cannot_decrypt_next clk s i =
     (case buffer_next (in_buffer i) of
        (None, b) \<Rightarrow> (None, i\<lparr>in_buffer := b\<rparr>)
      | (Some (counter, bs), b) \<Rightarrow>
          let i' = i\<lparr>in_buffer := b\<rparr> in (Some (inner_chunk clk s i' counter bs []), i'))"

section \<open>A concrete instance\<close>

text \<open>
  A cryptography with which the model computes: a key is its bytes, a nonce a number, and a text
  opens when it starts with the byte of its nonce.
\<close>

definition sample_crypto :: "(bytes, bytes, nat) crypto" where
  "sample_crypto =
     \<lparr>cr_pk_from_bytes = (\<lambda>b. if length b = 32 then Some b else None),
      cr_sk_from_bytes = (\<lambda>b. if length b = 32 then Some b else None),
      cr_generate_nonces = (\<lambda>l r incoming. Some (if incoming then (0, 100) else (100, 0))),
      cr_precompute = (\<lambda>pk sk. pk @ sk),
      cr_decrypt = (\<lambda>k p n. case p of [] \<Rightarrow> None
                              | b # bs \<Rightarrow> if b = word_of_nat n then Some bs else None),
      cr_increment = Suc,
      cr_check_pow = (\<lambda>p target. True)\<rparr>"

definition sample_clock :: clock where
  "sample_clock = \<lparr>clk_secs = (\<lambda>s n. 1617005682 + n), clk_millis = (\<lambda>s n. 1617005682000 + n)\<rparr>"

definition sample_identity :: identity where
  "sample_identity = \<lparr>id_public_key = replicate 32 1, id_secret_key = replicate 32 2\<rparr>"

definition sample_addr :: socket_addr where
  "sample_addr = \<lparr>sa_ip = Ip_V4 [10, 0, 0, 1], sa_port = 9732\<rparr>"

definition sample_connection :: connection_item where
  "sample_connection = connection_new 1617005682953928051 Initiator_Remote sample_addr"

end
