(* ===== verification/Pseudonode.thy ===== *)
theory Pseudonode
  imports Chunk_State
begin

text \<open>
  The peers that generate traffic for the recorder, \<^verbatim>\<open>pseudonode/src/buffer.rs\<close> and \<^verbatim>\<open>pseudonode/src/handshake.rs\<close>: the buffer that
  cuts a socket's bytes into chunks, writing and reading of encrypted messages, and the handshake of both sides. The encodings of messages, the
  boxes of chunks and the identities are crates outside the repository and arguments of the definitions, beside \<open>crypto\<close>.
\<close>

section \<open>Sockets and parameters\<close>

text \<open>
  What a socket will deliver is a list of segments and failures (a read timeout is one); behind the last one the peer has closed, and a read
  returns no bytes, as it does when there is no room for any.
\<close>

datatype io_kind = Io_Would_Block | Io_Broken

record tcp =
  tcp_in :: "(io_kind + bytes) list"
  tcp_out :: bytes
  tcp_writable :: bool

definition tcp_read :: "nat \<Rightarrow> tcp \<Rightarrow> (io_kind + bytes) \<times> tcp" where
  "tcp_read n s =
     (case tcp_in s of
        [] \<Rightarrow> (Inr [], s)
      | Inl e # r \<Rightarrow> (Inl e, s\<lparr>tcp_in := r\<rparr>)
      | Inr b # r \<Rightarrow> (Inr (take n b), s\<lparr>tcp_in := (if length b \<le> n then r else Inr (drop n b) # r)\<rparr>))"

definition tcp_write_all :: "bytes \<Rightarrow> tcp \<Rightarrow> panic + tcp" where
  "tcp_write_all bs s = (if tcp_writable s then Inr (s\<lparr>tcp_out := tcp_out s @ bs\<rparr>) else Inl Unwrap_None)"

record 'm msg_codec =
  mc_as_bytes :: "'m \<Rightarrow> bytes option"
  mc_from_bytes :: "bytes \<Rightarrow> 'm option"

record ('pk, 'n) box_env =
  bx_encrypt :: "'pk \<Rightarrow> bytes \<Rightarrow> 'n \<Rightarrow> bytes option"
  bx_from_content :: "bytes \<Rightarrow> bytes option"
  bx_from_raw :: "bytes \<Rightarrow> bytes option"
  bx_content :: "bytes \<Rightarrow> bytes"

text \<open>A chunk is its raw bytes; its length takes two bytes, a box is sixteen bytes longer than what it holds and can be opened.\<close>

definition box_laws :: "('k, 'pk, 'n) crypto \<Rightarrow> ('pk, 'n) box_env \<Rightarrow> bool" where
  "box_laws cr bx \<longleftrightarrow>
     (\<forall>c. length c \<le> 0xffff \<longrightarrow> bx_from_content bx c = Some (to_be_bytes (word_of_nat (length c) :: u16) @ c)) \<and>
     (\<forall>c. framed c \<longrightarrow> bx_from_raw bx c = Some c \<and> bx_content bx c = drop 2 c) \<and>
     (\<forall>k b n. length b \<le> 0xffe0 \<longrightarrow>
        (\<exists>c. bx_encrypt bx k b n = Some c \<and> length c = length b + 16 \<and> cr_decrypt cr k c n = Some b))"

section \<open>The buffer\<close>

record node_buffer =
  nb_len :: nat
  nb_data :: bytes

definition node_buffer_default :: node_buffer where
  "node_buffer_default = \<lparr>nb_len = 0, nb_data = replicate 0x10000 0\<rparr>"

definition node_buffer_is_empty :: "node_buffer \<Rightarrow> bool" where
  "node_buffer_is_empty b \<longleftrightarrow> nb_len b = 0"

text \<open>The loop that moves the rest of the bytes to the front, and the write of a read into the free part of the array.\<close>

definition shift_down :: "nat \<Rightarrow> nat \<Rightarrow> bytes \<Rightarrow> bytes" where
  "shift_down raw_len len data = fold (\<lambda>i d. d[i - raw_len := d ! i]) [raw_len..<len] data"

definition write_at :: "nat \<Rightarrow> bytes \<Rightarrow> bytes \<Rightarrow> bytes" where
  "write_at i bs data = take i data @ bs @ drop (i + length bs) data"

definition raw_len_of :: "node_buffer \<Rightarrow> nat option" where
  "raw_len_of b =
     (if nb_len b \<ge> 2
      then let raw_len = unat (nb_data b ! 0) * 256 + unat (nb_data b ! 1) + 2 in
           if nb_len b \<ge> raw_len then Some raw_len else None
      else None)"

partial_function (option) read_chunk ::
    "('pk, 'n) box_env \<Rightarrow> node_buffer \<Rightarrow> tcp \<Rightarrow> (panic + (io_kind + bytes) \<times> node_buffer \<times> tcp) option" where
  "read_chunk bx b s =
     (case raw_len_of b of
        Some raw_len \<Rightarrow>
          Some (and_then (unwrap (bx_from_raw bx (take raw_len (nb_data b))))
            (\<lambda>chunk. Inr (Inr chunk, \<lparr>nb_len = nb_len b - raw_len, nb_data = shift_down raw_len (nb_len b) (nb_data b)\<rparr>, s)))
      | None \<Rightarrow>
          (case tcp_read (0x10000 - nb_len b) s of
             (Inl e, s') \<Rightarrow> Some (Inr (Inl e, b, s'))
           | (Inr bs, s') \<Rightarrow> read_chunk bx \<lparr>nb_len = nb_len b + length bs, nb_data = write_at (nb_len b) bs (nb_data b)\<rparr> s'))"

section \<open>Messages\<close>

function slice_chunks :: "nat \<Rightarrow> 'a list \<Rightarrow> 'a list list" where
  "slice_chunks n xs = (if n = 0 \<or> xs = [] then [] else take n xs # slice_chunks n (drop n xs))"
  by pat_completeness auto
termination
  by (relation "measure (\<lambda>(n, xs). length xs)") auto

declare slice_chunks.simps [simp del]

fun write_pieces ::
    "('k, 'pk, 'n) crypto \<Rightarrow> ('pk, 'n) box_env \<Rightarrow> 'pk \<Rightarrow> bytes list \<Rightarrow> 'n \<Rightarrow> tcp \<Rightarrow> panic + 'n \<times> tcp" where
  "write_pieces cr bx key [] nonce s = Inr (nonce, s)"
| "write_pieces cr bx key (bs # bss) nonce s =
     and_then (unwrap (bx_encrypt bx key bs nonce)) (\<lambda>temp.
     and_then (unwrap (bx_from_content bx temp)) (\<lambda>chunk.
     and_then (tcp_write_all chunk s) (\<lambda>s'.
     write_pieces cr bx key bss (cr_increment cr nonce) s')))"

definition write_msg ::
    "'m msg_codec \<Rightarrow> ('k, 'pk, 'n) crypto \<Rightarrow> ('pk, 'n) box_env \<Rightarrow> 'm \<Rightarrow> 'pk \<Rightarrow> 'n \<Rightarrow> tcp \<Rightarrow> panic + 'n \<times> tcp" where
  "write_msg mc cr bx msg key nonce s =
     and_then (unwrap (mc_as_bytes mc msg)) (\<lambda>bs. write_pieces cr bx key (slice_chunks 0xffe0 bs) nonce s)"

text \<open>The total length that the first four bytes announce; one turn of the loop adds the content of a chunk.\<close>

definition announced :: "bool \<Rightarrow> nat \<Rightarrow> bytes \<Rightarrow> panic + nat" where
  "announced peer_message len bs =
     (if len = 0 \<and> peer_message
      then and_then (slice bs 0 4) (\<lambda>b. Inr (unat (from_be_bytes b :: u32) + 4))
      else Inr len)"

partial_function (option) read_msg_loop ::
    "'m msg_codec \<Rightarrow> ('k, 'pk, 'n) crypto \<Rightarrow> ('pk, 'n) box_env \<Rightarrow> 'pk \<Rightarrow> bool \<Rightarrow> 'n \<Rightarrow> bytes \<Rightarrow> nat \<Rightarrow> node_buffer \<Rightarrow> tcp
     \<Rightarrow> (panic + (io_kind + 'n \<times> 'm) \<times> node_buffer \<times> tcp) option" where
  "read_msg_loop mc cr bx key peer nonce bs len b s =
     (case read_chunk bx b s of
        None \<Rightarrow> None
      | Some (Inl p) \<Rightarrow> Some (Inl p)
      | Some (Inr (Inl e, b', s')) \<Rightarrow> Some (Inr (Inl e, b', s'))
      | Some (Inr (Inr chunk, b', s')) \<Rightarrow>
          (case cr_decrypt cr key (bx_content bx chunk) nonce of
             None \<Rightarrow> Some (Inl Unwrap_None)
           | Some plain \<Rightarrow>
               let bs' = bs @ plain in
               (case announced peer len bs' of
                  Inl p \<Rightarrow> Some (Inl p)
                | Inr len' \<Rightarrow>
                    if length bs' = len' \<or> \<not> peer
                    then Some (and_then (unwrap (mc_from_bytes mc bs')) (\<lambda>m. Inr (Inr (cr_increment cr nonce, m), b', s')))
                    else read_msg_loop mc cr bx key peer (cr_increment cr nonce) bs' len' b' s')))"

definition read_msg ::
    "'m msg_codec \<Rightarrow> ('k, 'pk, 'n) crypto \<Rightarrow> ('pk, 'n) box_env \<Rightarrow> 'pk \<Rightarrow> 'n \<Rightarrow> bool \<Rightarrow> node_buffer \<Rightarrow> tcp
     \<Rightarrow> (panic + (io_kind + 'n \<times> 'm) \<times> node_buffer \<times> tcp) option" where
  "read_msg mc cr bx key nonce peer_message b s = read_msg_loop mc cr bx key peer_message nonce [] 0 b s"

section \<open>The buffer as a queue of bytes\<close>

definition nb_view :: "node_buffer \<Rightarrow> bytes" where
  "nb_view b = take (nb_len b) (nb_data b)"

definition nb_ok :: "node_buffer \<Rightarrow> bool" where
  "nb_ok b \<longleftrightarrow> length (nb_data b) = 0x10000 \<and> nb_len b \<le> 0x10000"

definition incoming_bytes :: "tcp \<Rightarrow> bytes" where
  "incoming_bytes s = concat (map projr (tcp_in s))"

definition undisturbed :: "tcp \<Rightarrow> bool" where
  "undisturbed s \<longleftrightarrow> list_all (\<lambda>x. \<not> isl x) (tcp_in s)"

lemma node_buffer_default_ok: "nb_ok node_buffer_default" "nb_view node_buffer_default = []"
  unfolding node_buffer_default_def nb_ok_def nb_view_def node_buffer.simps by (simp_all only: length_replicate take_0 le0 simp_thms)

lemma length_nb_view: "nb_ok b \<Longrightarrow> length (nb_view b) = nb_len b"
  by (simp add: nb_ok_def nb_view_def)

lemma shift_down_step:
  assumes "r \<le> n" "n < length d"
  shows "shift_down r (Suc n) d = (shift_down r n d)[n - r := shift_down r n d ! n]"
  using assms by (simp add: shift_down_def)

lemma length_shift_down [simp]: "length (shift_down r n d) = length d"
proof -
  have "length (fold (\<lambda>i d. d[i - r := d ! i]) xs d) = length d" for xs
    by (induction xs arbitrary: d) simp_all
  then show ?thesis by (simp add: shift_down_def)
qed

text \<open>The target of a move lies before every source that is still to be moved.\<close>

lemma shift_down_nth:
  assumes "0 < r" "r \<le> n" "n \<le> length d"
  shows "i < length d \<Longrightarrow> shift_down r n d ! i = (if i < n - r then d ! (i + r) else d ! i)"
  using assms
proof (induction n arbitrary: i)
  case (Suc n)
  show ?case
  proof (cases "r \<le> n")
    case True
    then show ?thesis
      using Suc.IH [of n] Suc.IH [of i] Suc.prems
      by (auto simp: shift_down_step nth_list_update)
  next
    case False
    then have "r = Suc n" using Suc.prems by simp
    then show ?thesis by (simp add: shift_down_def)
  qed
qed simp

lemma shift_down_view:
  assumes "0 < r" "r \<le> n" "n \<le> length d"
  shows "take (n - r) (shift_down r n d) = drop r (take n d)"
  using assms by (intro nth_equalityI) (auto simp: shift_down_nth add.commute)

lemma chunk_len_nth: "2 \<le> length d \<Longrightarrow> chunk_len d = unat (d ! 0) * 256 + unat (d ! 1) + 2"
proof -
  assume "2 \<le> length d"
  then obtain x y ys where d: "d = x # y # ys" by (metis One_nat_def Suc_le_length_iff numeral_2_eq_2)
  have "unat (word_of_nat (unat x * 256 + unat y) :: u16) = unat x * 256 + unat y"
    using unat_u8_bound [of x] unat_u8_bound [of y] by (subst unat_of_nat) simp
  then show ?thesis by (simp add: d chunk_len_def from_be_bytes_def numeral_2_eq_2 del: of_nat_add of_nat_mult)
qed

lemma incomplete_proper_prefix: "framed (v @ d) \<Longrightarrow> d \<noteq> [] \<Longrightarrow> incomplete v"
  using chunk_len_append [of v d] length_greater_0_conv [of d]
  by (cases "2 \<le> length v") (auto simp: incomplete_def framed_def simp del: length_greater_0_conv)

lemma raw_len_of_view: "nb_ok b \<Longrightarrow> raw_len_of b = (if incomplete (nb_view b) then None else Some (chunk_len (nb_view b)))"
  using chunk_len_nth [of "nb_view b"] length_nb_view [of b]
  by (auto simp: raw_len_of_def incomplete_def nb_view_def Let_def)

section \<open>Reading a chunk\<close>

lemma nb_push:
  assumes "nb_ok b" "nb_len b + length bs \<le> 0x10000"
  defines "b' \<equiv> \<lparr>nb_len = nb_len b + length bs, nb_data = write_at (nb_len b) bs (nb_data b)\<rparr>"
  shows "nb_ok b'" "nb_view b' = nb_view b @ bs"
  using assms by (simp_all add: nb_ok_def nb_view_def write_at_def)

lemma nb_pop:
  assumes "nb_ok b" "raw_len_of b = Some n"
  defines "b' \<equiv> \<lparr>nb_len = nb_len b - n, nb_data = shift_down n (nb_len b) (nb_data b)\<rparr>"
  shows "nb_ok b'" "nb_view b' = drop n (nb_view b)"
proof -
  have "0 < n" "n \<le> nb_len b" using assms(2) by (auto simp: raw_len_of_def Let_def split: if_splits)
  then show "nb_ok b'" "nb_view b' = drop n (nb_view b)"
    using assms(1) shift_down_view [of n "nb_len b" "nb_data b"] by (auto simp: b'_def nb_ok_def nb_view_def)
qed

lemma read_chunk_ready:
  assumes "nb_ok b" "framed c" "nb_view b = c @ rest" "bx_from_raw bx c = Some c"
  shows "\<exists>b'. read_chunk bx b s = Some (Inr (Inr c, b', s)) \<and> nb_ok b' \<and> nb_view b' = rest"
proof -
  have n: "chunk_len (nb_view b) = length c" using assms framed_length [of c] by (simp add: chunk_len_append framed_def)
  then have r: "raw_len_of b = Some (length c)" using assms framed_not_incomplete [of c rest] by (simp add: raw_len_of_view)
  moreover have "length c \<le> nb_len b" using r by (auto simp: raw_len_of_def Let_def split: if_splits)
  then have "take (length c) (nb_data b) = c" using assms(3) by (simp add: nb_view_def) (metis append_eq_conv_conj min.absorb1 take_take)
  ultimately show ?thesis using nb_pop [OF assms(1) r] assms(3,4) by (subst read_chunk.simps) simp
qed

lemma tcp_read_undisturbed:
  assumes "undisturbed s" "tcp_in s \<noteq> []" "0 < n"
  obtains bs s' where "tcp_read n s = (Inr bs, s')" "undisturbed s'" "incoming_bytes s = bs @ incoming_bytes s'" "length bs \<le> n"
    "length (incoming_bytes s') + length (tcp_in s') < length (incoming_bytes s) + length (tcp_in s)"
    "tcp_out s' = tcp_out s" "tcp_writable s' = tcp_writable s"
proof -
  obtain b r where s: "tcp_in s = Inr b # r" using assms(1,2) by (cases "tcp_in s"; cases "hd (tcp_in s)") (auto simp: undisturbed_def)
  then show ?thesis
    using assms by (intro that [of "take n b" "s\<lparr>tcp_in := (if length b \<le> n then r else Inr (drop n b) # r)\<rparr>"])
      (auto simp: tcp_read_def undisturbed_def incoming_bytes_def)
qed

text \<open>However the socket cuts the bytes, the next chunk is read, as long as it fits into the array.\<close>

lemma read_chunk_next:
  assumes "nb_ok b" "undisturbed s" "framed c" "length c \<le> 0x10000" "bx_from_raw bx c = Some c"
    "nb_view b @ incoming_bytes s = c @ rest"
  shows "\<exists>b' s'. read_chunk bx b s = Some (Inr (Inr c, b', s')) \<and> nb_ok b' \<and> undisturbed s' \<and>
    nb_view b' @ incoming_bytes s' = rest \<and> tcp_out s' = tcp_out s \<and> tcp_writable s' = tcp_writable s"
  using assms
proof (induction "length (incoming_bytes s) + length (tcp_in s)" arbitrary: b s rule: less_induct)
  case less
  show ?case
  proof (cases "length c \<le> nb_len b")
    case True
    then obtain r where "nb_view b = c @ r" "rest = r @ incoming_bytes s"
      using less.prems(1,6) by (auto simp: append_eq_append_conv2 length_nb_view dest: arg_cong [of _ _ length])
    then show ?thesis using read_chunk_ready [of b c] less.prems by metis
  next
    case False
    then have i: "raw_len_of b = None"
    proof -
      obtain d where "c = nb_view b @ d"
        using False less.prems(6) length_nb_view [OF less.prems(1)] by (auto simp: append_eq_append_conv2)
      moreover from this have "d \<noteq> []" using False less.prems(1) by (auto simp: length_nb_view)
      ultimately have "incomplete (nb_view b)" using incomplete_proper_prefix less.prems(3) by blast
      then show ?thesis using less.prems(1) by (simp add: raw_len_of_view)
    qed
    have "tcp_in s \<noteq> []" using False less.prems(1,6) by (auto simp: incoming_bytes_def dest!: arg_cong [of _ _ length] simp: length_nb_view)
    moreover have "0 < 0x10000 - nb_len b" using False less.prems(4) by simp
    ultimately obtain bs s1 where r: "tcp_read (0x10000 - nb_len b) s = (Inr bs, s1)" "undisturbed s1"
        "incoming_bytes s = bs @ incoming_bytes s1" "length bs \<le> 0x10000 - nb_len b"
        "length (incoming_bytes s1) + length (tcp_in s1) < length (incoming_bytes s) + length (tcp_in s)"
        "tcp_out s1 = tcp_out s" "tcp_writable s1 = tcp_writable s"
      by (rule tcp_read_undisturbed [OF less.prems(2)]) blast
    define b1 where "b1 = \<lparr>nb_len = nb_len b + length bs, nb_data = write_at (nb_len b) bs (nb_data b)\<rparr>"
    have "nb_len b + length bs \<le> 0x10000" using r(4) less.prems(1) unfolding nb_ok_def by linarith
    then have b1: "nb_ok b1" "nb_view b1 = nb_view b @ bs" using nb_push [OF less.prems(1)] by (simp_all add: b1_def)
    have "read_chunk bx b s = read_chunk bx b1 s1" by (subst read_chunk.simps) (simp add: i r(1) b1_def)
    then show ?thesis using less.hyps [OF r(5) b1(1) r(2) less.prems(3-5)] less.prems(6) r(3,6,7) b1(2) by simp
  qed
qed

text \<open>An incomplete chunk to which nothing can be added: the peer has closed, or the array is full.\<close>

definition stuck :: "node_buffer \<Rightarrow> tcp \<Rightarrow> bool" where
  "stuck b s \<longleftrightarrow> nb_ok b \<and> incomplete (nb_view b) \<and> (tcp_in s = [] \<or> nb_len b = 0x10000 \<and> undisturbed s)"

lemma stuck_read:
  assumes "stuck b s"
  shows "\<exists>s'. tcp_read (0x10000 - nb_len b) s = (Inr [], s') \<and> stuck b s'"
proof (cases "tcp_in s")
  case Nil
  then show ?thesis using assms by (simp add: tcp_read_def)
next
  case (Cons x r)
  then have "nb_len b = 0x10000" "\<not> isl x" using assms by (auto simp: stuck_def undisturbed_def)
  then show ?thesis using assms Cons by (cases x) (auto simp: tcp_read_def stuck_def undisturbed_def)
qed

text \<open>
  C39: A reader may never return. When the peer has closed in the middle of a chunk, or the array is full of a chunk that needs one byte more than
  it has, every read returns no bytes and the loop goes on for ever.
\<close>

theorem read_chunk_never_returns:
  assumes "stuck b s"
  shows "read_chunk bx b s = None"
proof -
  have "\<not> stuck b s" if "read_chunk bx b s = Some y" for y
  proof (rule read_chunk.raw_induct [of "\<lambda>bx b s y. \<not> stuck b s", OF _ that])
    fix f :: "('a, 'b) box_env \<Rightarrow> node_buffer \<Rightarrow> tcp \<Rightarrow> (panic + (io_kind + bytes) \<times> node_buffer \<times> tcp) option" and bx b s y
    assume ih: "\<And>bx b s y. f bx b s = Some y \<Longrightarrow> \<not> stuck b s"
      and e: "(case raw_len_of b of
          None \<Rightarrow> (case tcp_read (0x10000 - nb_len b) s of
             (Inl e, s') \<Rightarrow> Some (Inr (Inl e, b, s'))
           | (Inr bs, s') \<Rightarrow> f bx \<lparr>nb_len = nb_len b + length bs, nb_data = write_at (nb_len b) bs (nb_data b)\<rparr> s')
        | Some raw_len \<Rightarrow> Some (and_then (unwrap (bx_from_raw bx (take raw_len (nb_data b))))
            (\<lambda>chunk. Inr (Inr chunk, \<lparr>nb_len = nb_len b - raw_len, nb_data = shift_down raw_len (nb_len b) (nb_data b)\<rparr>, s)))) = Some y"
    show "\<not> stuck b s"
    proof
      assume st: "stuck b s"
      then have "raw_len_of b = None" by (simp add: stuck_def raw_len_of_view)
      moreover obtain s' where s': "tcp_read (0x10000 - nb_len b) s = (Inr [], s')" "stuck b s'" using stuck_read [OF st] by blast
      moreover have "\<lparr>nb_len = nb_len b, nb_data = write_at (nb_len b) [] (nb_data b)\<rparr> = b" by (simp add: write_at_def)
      ultimately show False using e ih by auto
    qed
  qed
  then show ?thesis using assms by (cases "read_chunk bx b s") auto
qed

definition sample_cut :: node_buffer where
  "sample_cut = \<lparr>nb_len = 1, nb_data = replicate 0x10000 0\<rparr>"

theorem read_chunk_never_returns_witness:
  "\<forall>bx :: (nat, nat) box_env. read_chunk bx sample_cut \<lparr>tcp_in = [], tcp_out = [], tcp_writable = True\<rparr> = None"
proof (intro allI read_chunk_never_returns)
  have "length (nb_data sample_cut) = 0x10000" "nb_len sample_cut = 1"
    unfolding sample_cut_def node_buffer.simps by (simp_all only: length_replicate)
  then show "stuck sample_cut \<lparr>tcp_in = [], tcp_out = [], tcp_writable = True\<rparr>"
    by (simp add: stuck_def nb_ok_def nb_view_def incomplete_def)
qed

section \<open>Writing and reading a message\<close>

lemma slice_chunks_concat [simp]: "0 < n \<Longrightarrow> concat (slice_chunks n xs) = xs"
  by (induction n xs rule: slice_chunks.induct) (subst slice_chunks.simps, simp)

lemma slice_chunks_pieces: "p \<in> set (slice_chunks n xs) \<Longrightarrow> p \<noteq> [] \<and> length p \<le> n"
proof (induction n xs rule: slice_chunks.induct)
  case (1 n xs)
  then show ?case by (auto simp: slice_chunks.simps [of n xs] split: if_splits)
qed

lemma slice_chunks_first: "0 < n \<Longrightarrow> xs \<noteq> [] \<Longrightarrow> slice_chunks n xs = take n xs # slice_chunks n (drop n xs)"
  by (subst slice_chunks.simps) simp

lemma slice_chunks_single: "0 < n \<Longrightarrow> xs \<noteq> [] \<Longrightarrow> length xs \<le> n \<Longrightarrow> slice_chunks n xs = [xs]"
  by (simp add: slice_chunks_first) (simp add: slice_chunks.simps)

text \<open>The chunks on the wire that hold the pieces of a message.\<close>

fun boxed :: "('k, 'pk, 'n) crypto \<Rightarrow> 'pk \<Rightarrow> 'n \<Rightarrow> bytes list \<Rightarrow> bytes list \<Rightarrow> bool" where
  "boxed cr key nonce [] [] = True"
| "boxed cr key nonce (p # ps) (c # cs) =
     (framed c \<and> length c \<le> 0x10000 \<and> cr_decrypt cr key (drop 2 c) nonce = Some p \<and> boxed cr key (cr_increment cr nonce) ps cs)"
| "boxed cr key nonce _ _ = False"

lemma framed_content:
  assumes "length c \<le> 0xffff"
  shows "framed (to_be_bytes (word_of_nat (length c) :: u16) @ c)"
  using assms by (simp add: framed_def chunk_len_def unat_of_nat)

lemma write_pieces_boxed:
  assumes "box_laws cr bx" "\<forall>p \<in> set ps. length p \<le> 0xffe0"
  obtains cs where "boxed cr key nonce ps cs"
    "\<And>s. tcp_writable s \<Longrightarrow> write_pieces cr bx key ps nonce s =
      Inr ((cr_increment cr ^^ length ps) nonce, s\<lparr>tcp_out := tcp_out s @ concat cs\<rparr>)"
  using assms
proof (induction ps arbitrary: nonce thesis)
  case Nil
  show ?case by (rule Nil.prems(1) [of "[]"]) simp_all
next
  case (Cons p ps)
  then have "length p \<le> 0xffe0" by simp
  then obtain e where e: "bx_encrypt bx key p nonce = Some e" "length e = length p + 16" "cr_decrypt cr key e nonce = Some p"
    using Cons.prems(2) unfolding box_laws_def by blast
  define c where "c = to_be_bytes (word_of_nat (length e) :: u16) @ e"
  have c: "bx_from_content bx e = Some c" "framed c" "drop 2 c = e" "length c \<le> 0x10000"
    using Cons.prems(2) e(2) \<open>length p \<le> 0xffe0\<close> framed_content [of e] by (simp_all add: box_laws_def c_def)
  obtain cs where "boxed cr key (cr_increment cr nonce) ps cs"
      "\<And>s. tcp_writable s \<Longrightarrow> write_pieces cr bx key ps (cr_increment cr nonce) s =
        Inr ((cr_increment cr ^^ length ps) (cr_increment cr nonce), s\<lparr>tcp_out := tcp_out s @ concat cs\<rparr>)"
    using Cons.IH [of "cr_increment cr nonce"] Cons.prems(2,3) by auto
  then show ?case
    using e c by (intro Cons.prems(1) [of "c # cs"]) (simp_all add: tcp_write_all_def funpow_swap1)
qed

text \<open>What the reader expects: peer messages begin with their length, the others are a single piece.\<close>

definition reader_ready :: "bool \<Rightarrow> bytes \<Rightarrow> nat \<Rightarrow> bytes list \<Rightarrow> bool" where
  "reader_ready peer bs len ps \<longleftrightarrow>
     (if peer then let total = bs @ concat ps in
        len \<noteq> 0 \<and> len = length total \<or>
        len = 0 \<and> bs = [] \<and> 4 \<le> length (hd ps) \<and> unat (from_be_bytes (take 4 total) :: u32) + 4 = length total
      else length ps = 1)"

lemma read_msg_boxed:
  assumes "box_laws cr bx" "boxed cr key nonce ps cs" "ps \<noteq> []" "\<forall>p \<in> set ps. p \<noteq> []" "reader_ready peer bs len ps"
    "nb_ok b" "undisturbed s" "nb_view b @ incoming_bytes s = concat cs @ rest" "mc_from_bytes mc (bs @ concat ps) = Some m"
  shows "\<exists>b' s'. read_msg_loop mc cr bx key peer nonce bs len b s = Some (Inr (Inr ((cr_increment cr ^^ length ps) nonce, m), b', s')) \<and>
    nb_ok b' \<and> undisturbed s' \<and> nb_view b' @ incoming_bytes s' = rest \<and> tcp_out s' = tcp_out s \<and> tcp_writable s' = tcp_writable s"
  using assms
proof (induction ps arbitrary: cs nonce bs len b s)
  case (Cons p ps)
  obtain c cs' where cs: "cs = c # cs'" using Cons.prems(2) by (cases cs) auto
  then have c: "framed c" "length c \<le> 0x10000" "cr_decrypt cr key (drop 2 c) nonce = Some p" "boxed cr key (cr_increment cr nonce) ps cs'"
    using Cons.prems(2) by simp_all
  have bx: "bx_from_raw bx c = Some c" "bx_content bx c = drop 2 c" using Cons.prems(1) c(1) by (simp_all add: box_laws_def)
  obtain b1 s1 where r: "read_chunk bx b s = Some (Inr (Inr c, b1, s1))" "nb_ok b1" "undisturbed s1"
      "nb_view b1 @ incoming_bytes s1 = concat cs' @ rest" "tcp_out s1 = tcp_out s" "tcp_writable s1 = tcp_writable s"
    using read_chunk_next [OF Cons.prems(6,7) c(1,2) bx(1)] Cons.prems(8) cs by auto
  define len1 where "len1 = (if peer then length (bs @ p @ concat ps) else len)"
  have a: "announced peer len (bs @ p) = Inr len1"
    using Cons.prems(5) by (auto simp: reader_ready_def announced_def len1_def Let_def slice_def sub_zero)
  show ?case
  proof (cases "ps = []")
    case True
    moreover from this have "cs' = []" using c(4) by (cases cs') simp_all
    ultimately show ?thesis
      using r Cons.prems(9) c(3) bx(2) a by (subst read_msg_loop.simps) (simp add: len1_def)
  next
    case False
    then have peer: "peer" using Cons.prems(5) by (auto simp: reader_ready_def split: if_splits)
    have ne: "concat ps \<noteq> []" using False Cons.prems(4) by (cases ps) auto
    have "read_msg_loop mc cr bx key peer nonce bs len b s = read_msg_loop mc cr bx key peer (cr_increment cr nonce) (bs @ p) len1 b1 s1"
      using ne peer a by (subst read_msg_loop.simps) (auto simp: r(1) c(3) bx(2) len1_def Let_def)
    moreover have "reader_ready peer (bs @ p) len1 ps" using ne peer by (simp add: reader_ready_def len1_def Let_def)
    ultimately show ?thesis
      using Cons.IH [OF Cons.prems(1) c(4) False _ _ r(2,3,4)] Cons.prems(4,9) r(5,6) by (simp add: funpow_swap1)
  qed
qed simp

text \<open>The encoding of a message that is made for the wire.\<close>

definition wire_message :: "'m msg_codec \<Rightarrow> bool \<Rightarrow> 'm \<Rightarrow> bytes \<Rightarrow> bool" where
  "wire_message mc peer m bs \<longleftrightarrow> mc_as_bytes mc m = Some bs \<and> mc_from_bytes mc bs = Some m \<and>
     (if peer then 4 \<le> length bs \<and> unat (from_be_bytes (take 4 bs) :: u32) + 4 = length bs else bs \<noteq> [] \<and> length bs \<le> 0xffe0)"

lemma wire_message_ready: "wire_message mc peer m bs \<Longrightarrow> slice_chunks 0xffe0 bs \<noteq> [] \<and> reader_ready peer [] 0 (slice_chunks 0xffe0 bs)"
proof -
  assume m: "wire_message mc peer m bs"
  then have "bs \<noteq> []" by (auto simp: wire_message_def split: if_splits)
  then show ?thesis
    using m slice_chunks_first [of "0xffe0" bs] slice_chunks_single [of "0xffe0" bs]
    by (auto simp: wire_message_def reader_ready_def Let_def split: if_splits)
qed

lemma message_boxed:
  assumes "box_laws cr bx" "wire_message mc peer m bs"
  obtains cs where "boxed cr key nonce (slice_chunks 0xffe0 bs) cs"
    "\<And>s. tcp_writable s \<Longrightarrow> write_msg mc cr bx m key nonce s =
      Inr ((cr_increment cr ^^ length (slice_chunks 0xffe0 bs)) nonce, s\<lparr>tcp_out := tcp_out s @ concat cs\<rparr>)"
    "\<And>b r rest. nb_ok b \<Longrightarrow> undisturbed r \<Longrightarrow> nb_view b @ incoming_bytes r = concat cs @ rest \<Longrightarrow>
      \<exists>b' r'. read_msg mc cr bx key nonce peer b r = Some (Inr (Inr ((cr_increment cr ^^ length (slice_chunks 0xffe0 bs)) nonce, m), b', r')) \<and>
        nb_ok b' \<and> undisturbed r' \<and> nb_view b' @ incoming_bytes r' = rest \<and> tcp_out r' = tcp_out r \<and> tcp_writable r' = tcp_writable r"
proof -
  let ?ps = "slice_chunks 0xffe0 bs"
  have ps: "\<forall>p \<in> set ?ps. p \<noteq> [] \<and> length p \<le> 0xffe0" using slice_chunks_pieces by blast
  then obtain cs where cs: "boxed cr key nonce ?ps cs"
      "\<And>s. tcp_writable s \<Longrightarrow> write_pieces cr bx key ?ps nonce s =
        Inr ((cr_increment cr ^^ length ?ps) nonce, s\<lparr>tcp_out := tcp_out s @ concat cs\<rparr>)"
    using write_pieces_boxed [OF assms(1), of ?ps] by blast
  have m: "mc_as_bytes mc m = Some bs" "mc_from_bytes mc ([] @ concat ?ps) = Some m" using assms(2) by (simp_all add: wire_message_def)
  show ?thesis
  proof (rule that [of cs])
    show "write_msg mc cr bx m key nonce s = Inr ((cr_increment cr ^^ length ?ps) nonce, s\<lparr>tcp_out := tcp_out s @ concat cs\<rparr>)"
      if "tcp_writable s" for s using cs(2) [OF that] m(1) by (simp add: write_msg_def)
    show "\<exists>b' r'. read_msg mc cr bx key nonce peer b r = Some (Inr (Inr ((cr_increment cr ^^ length ?ps) nonce, m), b', r')) \<and> nb_ok b' \<and>
        undisturbed r' \<and> nb_view b' @ incoming_bytes r' = rest \<and> tcp_out r' = tcp_out r \<and> tcp_writable r' = tcp_writable r"
      if "nb_ok b" "undisturbed r" "nb_view b @ incoming_bytes r = concat cs @ rest" for b r rest
      using read_msg_boxed [OF assms(1) cs(1) _ _ _ that m(2), of peer 0] wire_message_ready [OF assms(2)] ps unfolding read_msg_def by blast
  qed (rule cs(1))
qed

lemma message_passes:
  assumes "box_laws cr bx" "wire_message mc peer m bs"
  obtains nonce' w where "\<And>s. tcp_writable s \<Longrightarrow> write_msg mc cr bx m key nonce s = Inr (nonce', s\<lparr>tcp_out := tcp_out s @ w\<rparr>)"
    "\<And>b r rest. nb_ok b \<Longrightarrow> undisturbed r \<Longrightarrow> nb_view b @ incoming_bytes r = w @ rest \<Longrightarrow>
      \<exists>b' r'. read_msg mc cr bx key nonce peer b r = Some (Inr (Inr (nonce', m), b', r')) \<and> nb_ok b' \<and> undisturbed r' \<and>
        nb_view b' @ incoming_bytes r' = rest \<and> tcp_out r' = tcp_out r \<and> tcp_writable r' = tcp_writable r"
  by (rule message_boxed [OF assms, of key nonce]) (rule that)

text \<open>
  C16: Messages between two peers. Writing a message to a writable socket succeeds, and whoever reads the bytes with the same key and nonce gets
  the same message and the same next nonce, however the network cuts the bytes, whatever the reader has buffered of them already and whatever
  follows them: exactly the bytes of the message are used up. The message may take any number of chunks.
\<close>

theorem message_delivered:
  assumes "box_laws cr bx" "wire_message mc peer m bs" "tcp_writable s"
  shows "\<exists>nonce' w. write_msg mc cr bx m key nonce s = Inr (nonce', s\<lparr>tcp_out := tcp_out s @ w\<rparr>) \<and>
    (\<forall>b r rest. nb_ok b \<and> undisturbed r \<and> nb_view b @ incoming_bytes r = w @ rest \<longrightarrow>
      (\<exists>b' r'. read_msg mc cr bx key nonce peer b r = Some (Inr (Inr (nonce', m), b', r')) \<and>
        nb_ok b' \<and> undisturbed r' \<and> nb_view b' @ incoming_bytes r' = rest))"
  by (rule message_passes [OF assms(1,2), of key nonce]) (use assms(3) in blast)

definition sample_peer_crypto :: "(nat, nat, nat) crypto" where
  "sample_peer_crypto =
     \<lparr>cr_pk_from_bytes = (\<lambda>b. Some (be_val b)), cr_sk_from_bytes = (\<lambda>b. Some (be_val b)),
      cr_generate_nonces = (\<lambda>l r incoming. Some (if incoming then (0, 100) else (100, 0))),
      cr_precompute = (\<lambda>pk sk. pk + sk),
      cr_decrypt = (\<lambda>k c n. if take 16 c = replicate 16 (word_of_nat (k + n)) then Some (drop 16 c) else None),
      cr_increment = Suc, cr_check_pow = (\<lambda>p target. True)\<rparr>"

definition sample_box :: "(nat, nat) box_env" where
  "sample_box =
     \<lparr>bx_encrypt = (\<lambda>k b n. Some (replicate 16 (word_of_nat (k + n)) @ b)),
      bx_from_content = (\<lambda>c. if length c \<le> 0xffff then Some (to_be_bytes (word_of_nat (length c) :: u16) @ c) else None),
      bx_from_raw = (\<lambda>c. if framed c then Some c else None), bx_content = drop 2\<rparr>"

definition sample_codec :: "bytes msg_codec" where
  "sample_codec = \<lparr>mc_as_bytes = Some, mc_from_bytes = Some\<rparr>"

definition sample_tcp :: "bytes list \<Rightarrow> tcp" where
  "sample_tcp segs = \<lparr>tcp_in = map Inr segs, tcp_out = [], tcp_writable = True\<rparr>"

lemma sample_box_laws: "box_laws sample_peer_crypto sample_box"
  by (auto simp: box_laws_def sample_peer_crypto_def sample_box_def)

lemma sample_tcp_simps:
  "undisturbed (sample_tcp segs)" "incoming_bytes (sample_tcp segs) = concat segs" "tcp_out (sample_tcp segs) = []"
  "tcp_writable (sample_tcp segs)"
  by (simp_all add: sample_tcp_def undisturbed_def incoming_bytes_def list_all_iff o_def)

theorem message_delivered_witness:
  "\<exists>nonce' w. write_msg sample_codec sample_peer_crypto sample_box [0, 0, 0, 2, 7, 8] 5 100 (sample_tcp []) =
      Inr (nonce', sample_tcp []\<lparr>tcp_out := w\<rparr>) \<and>
    (\<exists>b' r'. read_msg sample_codec sample_peer_crypto sample_box 5 100 True node_buffer_default (sample_tcp [take 3 w, drop 3 w @ [9]]) =
      Some (Inr (Inr (nonce', [0, 0, 0, 2, 7, 8]), b', r')) \<and> nb_view b' @ incoming_bytes r' = [9])"
proof -
  let ?m = "[0, 0, 0, 2, 7, 8] :: bytes"
  have "wire_message sample_codec True ?m ?m" by (simp add: wire_message_def sample_codec_def from_be_bytes_def)
  then obtain nonce' w where w: "write_msg sample_codec sample_peer_crypto sample_box ?m 5 100 (sample_tcp []) =
      Inr (nonce', sample_tcp []\<lparr>tcp_out := [] @ w\<rparr>)"
    and r: "\<forall>b r rest. nb_ok b \<and> undisturbed r \<and> nb_view b @ incoming_bytes r = w @ rest \<longrightarrow>
      (\<exists>b' r'. read_msg sample_codec sample_peer_crypto sample_box 5 100 True b r = Some (Inr (Inr (nonce', ?m), b', r')) \<and>
        nb_ok b' \<and> undisturbed r' \<and> nb_view b' @ incoming_bytes r' = rest)"
    using message_delivered [OF sample_box_laws, of sample_codec True ?m ?m "sample_tcp []" 5 100] sample_tcp_simps by auto
  show ?thesis
    using w r [rule_format, of node_buffer_default "sample_tcp [take 3 w, drop 3 w @ [9]]" "[9]"] node_buffer_default_ok sample_tcp_simps
    by (intro exI [of _ nonce'] exI [of _ w]) auto
qed

section \<open>The handshake\<close>

record ('id, 'k, 'n, 'v, 'cm) hs_env =
  hs_from_json :: "string \<Rightarrow> 'id option"
  hs_secret_key :: "'id \<Rightarrow> 'k"
  hs_try_new :: "u16 \<Rightarrow> 'id \<Rightarrow> 'n \<Rightarrow> 'v \<Rightarrow> 'cm option"
  hs_codec :: "'cm msg_codec"
  hs_public_key :: "'cm \<Rightarrow> bytes"

text \<open>The random nonce of the connection message is an argument.\<close>

definition identity_of :: "('id, 'k, 'n, 'v, 'cm) hs_env \<Rightarrow> 'n \<Rightarrow> string \<Rightarrow> u16 \<Rightarrow> 'v \<Rightarrow> panic + 'cm \<times> 'k" where
  "identity_of hs random json port version =
     and_then (unwrap (hs_from_json hs json)) (\<lambda>identity.
     and_then (unwrap (hs_try_new hs port identity random version)) (\<lambda>connection_message.
     Inr (connection_message, hs_secret_key hs identity)))"

definition own_chunk ::
    "('id, 'k, 'n, 'v, 'cm) hs_env \<Rightarrow> ('pk, 'n) box_env \<Rightarrow> 'cm \<Rightarrow> panic + bytes" where
  "own_chunk hs bx connection_message =
     and_then (unwrap (mc_as_bytes (hs_codec hs) connection_message)) (\<lambda>temp. unwrap (bx_from_content bx temp))"

definition peer_key ::
    "('id, 'k, 'n, 'v, 'cm) hs_env \<Rightarrow> ('k, 'pk, 'n) crypto \<Rightarrow> ('pk, 'n) box_env \<Rightarrow> bytes \<Rightarrow> panic + 'k" where
  "peer_key hs cr bx chunk =
     and_then (unwrap (mc_from_bytes (hs_codec hs) (bx_content bx chunk))) (\<lambda>connection_message.
     unwrap (cr_pk_from_bytes cr (hs_public_key hs connection_message)))"

text \<open>A chunk that is read with a buffer of its own, which is dropped afterwards.\<close>

definition receive_chunk :: "('pk, 'n) box_env \<Rightarrow> tcp \<Rightarrow> (panic + bytes \<times> tcp) option" where
  "receive_chunk bx s =
     map_option (\<lambda>r. and_then r (\<lambda>(x, b, s'). case x of Inl e \<Rightarrow> Inl Unwrap_None | Inr chunk \<Rightarrow> Inr (chunk, s')))
       (read_chunk bx node_buffer_default s)"

definition initiator_handshake ::
    "('id, 'k, 'n, 'v, 'cm) hs_env \<Rightarrow> ('k, 'pk, 'n) crypto \<Rightarrow> ('pk, 'n) box_env \<Rightarrow> 'n \<Rightarrow> u16 \<Rightarrow> string \<Rightarrow> 'v \<Rightarrow> tcp
     \<Rightarrow> (panic + ('pk \<times> 'n \<times> 'n) \<times> tcp) option" where
  "initiator_handshake hs cr bx random this json version s =
     (case and_then (identity_of hs random json this version) (\<lambda>(cm, sk).
           and_then (own_chunk hs bx cm) (\<lambda>initiator_chunk.
           and_then (tcp_write_all initiator_chunk s) (\<lambda>s'. Inr (sk, initiator_chunk, s')))) of
        Inl p \<Rightarrow> Some (Inl p)
      | Inr (sk, initiator_chunk, s') \<Rightarrow>
          map_option (\<lambda>r. and_then r (\<lambda>(responder_chunk, s'').
            and_then (peer_key hs cr bx responder_chunk) (\<lambda>pk.
            and_then (unwrap (cr_generate_nonces cr initiator_chunk responder_chunk False)) (\<lambda>pair.
            Inr ((cr_precompute cr pk sk, pair), s''))))) (receive_chunk bx s'))"

definition responder_handshake ::
    "('id, 'k, 'n, 'v, 'cm) hs_env \<Rightarrow> ('k, 'pk, 'n) crypto \<Rightarrow> ('pk, 'n) box_env \<Rightarrow> 'n \<Rightarrow> u16 \<Rightarrow> string \<Rightarrow> 'v \<Rightarrow> tcp
     \<Rightarrow> (panic + ('pk \<times> 'n \<times> 'n) \<times> tcp) option" where
  "responder_handshake hs cr bx random this json version s =
     map_option (\<lambda>r. and_then r (\<lambda>(initiator_chunk, s').
       and_then (peer_key hs cr bx initiator_chunk) (\<lambda>pk.
       and_then (identity_of hs random json this version) (\<lambda>(cm, sk).
       and_then (own_chunk hs bx cm) (\<lambda>responder_chunk.
       and_then (tcp_write_all responder_chunk s') (\<lambda>s''.
       and_then (unwrap (cr_generate_nonces cr responder_chunk initiator_chunk True)) (\<lambda>pair.
       Inr ((cr_precompute cr pk sk, pair), s'')))))))) (receive_chunk bx s)"

section \<open>Both sides agree\<close>

text \<open>
  The crates' promises: a connection message fits into a chunk and is read back, two identities derive the same key, and the nonces that one side
  calls local the other calls remote.
\<close>

definition hs_laws :: "('id, 'k, 'n, 'v, 'cm) hs_env \<Rightarrow> ('k, 'pk, 'n) crypto \<Rightarrow> bool" where
  "hs_laws hs cr \<longleftrightarrow>
     (\<forall>port i n v cm. hs_try_new hs port i n v = Some cm \<longrightarrow>
        (\<exists>bs. mc_as_bytes (hs_codec hs) cm = Some bs \<and> mc_from_bytes (hs_codec hs) bs = Some cm \<and> length bs \<le> 0xfffe)) \<and>
     (\<forall>p i n v cm q j m w cn. hs_try_new hs p i n v = Some cm \<longrightarrow> hs_try_new hs q j m w = Some cn \<longrightarrow>
        (\<exists>pi pj. cr_pk_from_bytes cr (hs_public_key hs cm) = Some pi \<and> cr_pk_from_bytes cr (hs_public_key hs cn) = Some pj \<and>
           cr_precompute cr pj (hs_secret_key hs i) = cr_precompute cr pi (hs_secret_key hs j))) \<and>
     (\<forall>a b. \<exists>x y. cr_generate_nonces cr a b False = Some (x, y) \<and> cr_generate_nonces cr b a True = Some (y, x))"

lemma hs_laws_keys:
  assumes "hs_laws hs cr" "hs_try_new hs p i n v = Some cm" "hs_try_new hs q j m w = Some cn"
  obtains pi pj where "cr_pk_from_bytes cr (hs_public_key hs cm) = Some pi" "cr_pk_from_bytes cr (hs_public_key hs cn) = Some pj"
    "cr_precompute cr pj (hs_secret_key hs i) = cr_precompute cr pi (hs_secret_key hs j)"
  using assms(1) [unfolded hs_laws_def, THEN conjunct2, THEN conjunct1, rule_format, OF assms(2,3)] by blast

lemma receive_chunk_next:
  assumes "undisturbed s" "framed c" "length c \<le> 0x10000" "bx_from_raw bx c = Some c" "incoming_bytes s = c @ rest"
  shows "\<exists>s'. receive_chunk bx s = Some (Inr (c, s')) \<and> tcp_out s' = tcp_out s \<and> tcp_writable s' = tcp_writable s"
  using read_chunk_next [OF node_buffer_default_ok(1) assms(1-4), of rest] assms(5) node_buffer_default_ok(2)
  by (auto simp: receive_chunk_def)

lemma own_chunk_framed:
  assumes "hs_laws hs cr" "box_laws cr bx" "hs_try_new hs port i n v = Some cm" "cr_pk_from_bytes cr (hs_public_key hs cm) = Some pk"
  shows "\<exists>c. own_chunk hs bx cm = Inr c \<and> framed c \<and> length c \<le> 0x10000 \<and> bx_from_raw bx c = Some c \<and> peer_key hs cr bx c = Inr pk"
proof -
  obtain bs where bs: "mc_as_bytes (hs_codec hs) cm = Some bs" "mc_from_bytes (hs_codec hs) bs = Some cm" "length bs \<le> 0xfffe"
    using assms(1,3) unfolding hs_laws_def by blast
  define c where "c = to_be_bytes (word_of_nat (length bs) :: u16) @ bs"
  have "framed c" using framed_content [of bs] bs(3) by (simp add: c_def)
  then have "bx_from_content bx bs = Some c" "bx_from_raw bx c = Some c" "bx_content bx c = bs"
    using assms(2) bs(3) by (simp_all add: box_laws_def c_def)
  then show ?thesis
    using bs assms(4) \<open>framed c\<close> by (intro exI [of _ c]) (simp add: own_chunk_def peer_key_def c_def)
qed

lemma handshake_sides:
  assumes "hs_laws hs cr" "box_laws cr bx"
    "identity_of hs random_i json_i port_i version_i = Inr (cm_i, sk_i)" "identity_of hs random_r json_r port_r version_r = Inr (cm_r, sk_r)"
  obtains a b key x y where "own_chunk hs bx cm_i = Inr a" "own_chunk hs bx cm_r = Inr b"
    "framed a" "length a \<le> 0x10000" "bx_from_raw bx a = Some a" "framed b" "length b \<le> 0x10000" "bx_from_raw bx b = Some b"
    "\<And>s s'. tcp_writable s \<Longrightarrow> receive_chunk bx (s\<lparr>tcp_out := tcp_out s @ a\<rparr>) = Some (Inr (b, s')) \<Longrightarrow>
       initiator_handshake hs cr bx random_i port_i json_i version_i s = Some (Inr ((key, x, y), s'))"
    "\<And>s s'. receive_chunk bx s = Some (Inr (a, s')) \<Longrightarrow> tcp_writable s' \<Longrightarrow>
       responder_handshake hs cr bx random_r port_r json_r version_r s = Some (Inr ((key, y, x), s'\<lparr>tcp_out := tcp_out s' @ b\<rparr>))"
    "\<exists>pr. cr_pk_from_bytes cr (hs_public_key hs cm_r) = Some pr \<and> cr_precompute cr pr sk_i = key"
    "\<exists>pi. cr_pk_from_bytes cr (hs_public_key hs cm_i) = Some pi \<and> cr_precompute cr pi sk_r = key"
    "cr_generate_nonces cr a b False = Some (x, y)" "cr_generate_nonces cr b a True = Some (y, x)"
proof -
  obtain i where i: "hs_try_new hs port_i i random_i version_i = Some cm_i" "sk_i = hs_secret_key hs i"
    using assms(3) by (auto simp: identity_of_def and_then_Inr_iff)
  obtain r where r: "hs_try_new hs port_r r random_r version_r = Some cm_r" "sk_r = hs_secret_key hs r"
    using assms(4) by (auto simp: identity_of_def and_then_Inr_iff)
  obtain pi pr where k: "cr_pk_from_bytes cr (hs_public_key hs cm_i) = Some pi" "cr_pk_from_bytes cr (hs_public_key hs cm_r) = Some pr"
      "cr_precompute cr pr sk_i = cr_precompute cr pi sk_r"
    using hs_laws_keys [OF assms(1) i(1) r(1)] i(2) r(2) by blast
  obtain a where a: "own_chunk hs bx cm_i = Inr a" "framed a" "length a \<le> 0x10000" "bx_from_raw bx a = Some a" "peer_key hs cr bx a = Inr pi"
    using own_chunk_framed [OF assms(1,2) i(1) k(1)] by blast
  obtain b where b: "own_chunk hs bx cm_r = Inr b" "framed b" "length b \<le> 0x10000" "bx_from_raw bx b = Some b" "peer_key hs cr bx b = Inr pr"
    using own_chunk_framed [OF assms(1,2) r(1) k(2)] by blast
  obtain x y where n: "cr_generate_nonces cr a b False = Some (x, y)" "cr_generate_nonces cr b a True = Some (y, x)"
    using assms(1) unfolding hs_laws_def by blast
  show ?thesis
    using a b n k assms(3,4)
    by (intro that [of a b "cr_precompute cr pi sk_r" x y]) (simp_all add: initiator_handshake_def responder_handshake_def tcp_write_all_def)
qed

text \<open>
  The handshake agrees. Two peers with readable identities, each of which receives the chunk the other sends, in any segments and followed by
  anything, both return: with the same key, and with the nonces mirrored, so that what one side writes with its local nonce the other reads
  with its remote one. Each sends exactly its own connection chunk.
\<close>

theorem handshake_agrees:
  assumes "hs_laws hs cr" "box_laws cr bx"
    "identity_of hs random_i json_i port_i version_i = Inr (cm_i, sk_i)" "identity_of hs random_r json_r port_r version_r = Inr (cm_r, sk_r)"
  shows "\<exists>chunk_i chunk_r key local remote. own_chunk hs bx cm_i = Inr chunk_i \<and> own_chunk hs bx cm_r = Inr chunk_r \<and>
    (\<forall>s_i s_r more_i more_r. tcp_writable s_i \<and> tcp_writable s_r \<and> undisturbed s_i \<and> undisturbed s_r \<and>
       incoming_bytes s_i = chunk_r @ more_r \<and> incoming_bytes s_r = chunk_i @ more_i \<longrightarrow>
       (\<exists>s_i' s_r'. initiator_handshake hs cr bx random_i port_i json_i version_i s_i = Some (Inr ((key, local, remote), s_i')) \<and>
          responder_handshake hs cr bx random_r port_r json_r version_r s_r = Some (Inr ((key, remote, local), s_r')) \<and>
          tcp_out s_i' = tcp_out s_i @ chunk_i \<and> tcp_out s_r' = tcp_out s_r @ chunk_r))"
proof -
  obtain a b key x y where h: "own_chunk hs bx cm_i = Inr a" "own_chunk hs bx cm_r = Inr b"
    "framed a" "length a \<le> 0x10000" "bx_from_raw bx a = Some a" "framed b" "length b \<le> 0x10000" "bx_from_raw bx b = Some b"
    and hi: "\<And>s s'. tcp_writable s \<Longrightarrow> receive_chunk bx (s\<lparr>tcp_out := tcp_out s @ a\<rparr>) = Some (Inr (b, s')) \<Longrightarrow>
       initiator_handshake hs cr bx random_i port_i json_i version_i s = Some (Inr ((key, x, y), s'))"
    and hr: "\<And>s s'. receive_chunk bx s = Some (Inr (a, s')) \<Longrightarrow> tcp_writable s' \<Longrightarrow>
       responder_handshake hs cr bx random_r port_r json_r version_r s = Some (Inr ((key, y, x), s'\<lparr>tcp_out := tcp_out s' @ b\<rparr>))"
    by (rule handshake_sides [OF assms]) blast
  have "\<exists>s'. initiator_handshake hs cr bx random_i port_i json_i version_i s = Some (Inr ((key, x, y), s')) \<and> tcp_out s' = tcp_out s @ a"
    if "tcp_writable s" "undisturbed s" "incoming_bytes s = b @ more" for s more
    using receive_chunk_next [OF _ h(6-8), of "s\<lparr>tcp_out := tcp_out s @ a\<rparr>" more] hi [OF that(1)] that(2,3)
    by (auto simp: undisturbed_def incoming_bytes_def)
  moreover have "\<exists>s'. responder_handshake hs cr bx random_r port_r json_r version_r s = Some (Inr ((key, y, x), s')) \<and> tcp_out s' = tcp_out s @ b"
    if "tcp_writable s" "undisturbed s" "incoming_bytes s = a @ more" for s more
    using receive_chunk_next [OF that(2) h(3-5) that(3)] hr that(1) by fastforce
  ultimately show ?thesis using h(1,2) by blast
qed

definition sample_hs :: "(nat, nat, nat, unit, nat) hs_env" where
  "sample_hs =
     \<lparr>hs_from_json = (\<lambda>json. Some (length json mod 256)), hs_secret_key = (\<lambda>i. i mod 256), hs_try_new = (\<lambda>port i n v. Some (i mod 256)),
      hs_codec = \<lparr>mc_as_bytes = (\<lambda>cm. Some [word_of_nat cm]), mc_from_bytes = (\<lambda>b. case b of [x] \<Rightarrow> Some (unat x) | _ \<Rightarrow> None)\<rparr>,
      hs_public_key = (\<lambda>cm. [word_of_nat cm])\<rparr>"

lemma sample_hs_laws: "hs_laws sample_hs sample_peer_crypto"
  by (auto simp: hs_laws_def sample_hs_def sample_peer_crypto_def unat_of_nat)

theorem handshake_agrees_witness:
  "\<exists>chunk_i chunk_r key local remote s_i' s_r'.
     own_chunk sample_hs sample_box 2 = Inr chunk_i \<and> own_chunk sample_hs sample_box 3 = Inr chunk_r \<and>
     initiator_handshake sample_hs sample_peer_crypto sample_box 0 9732 ''ab'' () (sample_tcp [take 1 chunk_r, drop 1 chunk_r]) =
       Some (Inr ((key, local, remote), s_i')) \<and>
     responder_handshake sample_hs sample_peer_crypto sample_box 0 9733 ''abc'' () (sample_tcp [chunk_i]) =
       Some (Inr ((key, remote, local), s_r')) \<and>
     tcp_out s_i' = chunk_i \<and> tcp_out s_r' = chunk_r"
proof -
  have i: "identity_of sample_hs 0 ''ab'' 9732 () = Inr (2, 2)" "identity_of sample_hs 0 ''abc'' 9733 () = Inr (3, 3)"
    by (simp_all add: identity_of_def sample_hs_def)
  obtain chunk_i chunk_r key local remote where c: "own_chunk sample_hs sample_box 2 = Inr chunk_i" "own_chunk sample_hs sample_box 3 = Inr chunk_r"
    and h: "\<forall>s_i s_r more_i more_r. tcp_writable s_i \<and> tcp_writable s_r \<and> undisturbed s_i \<and> undisturbed s_r \<and>
       incoming_bytes s_i = chunk_r @ more_r \<and> incoming_bytes s_r = chunk_i @ more_i \<longrightarrow>
       (\<exists>s_i' s_r'. initiator_handshake sample_hs sample_peer_crypto sample_box 0 9732 ''ab'' () s_i = Some (Inr ((key, local, remote), s_i')) \<and>
          responder_handshake sample_hs sample_peer_crypto sample_box 0 9733 ''abc'' () s_r = Some (Inr ((key, remote, local), s_r')) \<and>
          tcp_out s_i' = tcp_out s_i @ chunk_i \<and> tcp_out s_r' = tcp_out s_r @ chunk_r)"
    using handshake_agrees [OF sample_hs_laws sample_box_laws i] by blast
  show ?thesis
    using c h [rule_format, of "sample_tcp [take 1 chunk_r, drop 1 chunk_r]" "sample_tcp [chunk_i]" "[]" "[]"] sample_tcp_simps
    by fastforce
qed

end
