(* ===== verification/Chunk_Parser.thy ===== *)
theory Chunk_Parser
  imports Chunk_State
begin

text \<open>
  The two-sided handshake and the states after it, \<^verbatim>\<open>chunk_parser/parser.rs\<close>. The handler of the
  chunks is a trait object in the source; here it is a record of its two methods, over a state of
  the handler, and the message parser is one instance. The loops over the iterators
  \<^verbatim>\<open>HaveData\<close> and \<^verbatim>\<open>CannotDecrypt\<close> are recursive functions that end because every chunk shortens the
  buffer.
\<close>

section \<open>Handshake\<close>

datatype half = Half_Initial inner | Half_HaveCm inner

record handshake =
  hs_local :: half
  hs_remote :: half

datatype ('pk, 'n) handshake_done =
    Done_Uncertain inner
  | Done_HaveKey inner "('pk, 'n) key"
  | Done_HaveNotKey inner
  | Done_CannotDecrypt inner

record ('pk, 'n) handshake_output =
  ho_local :: "('pk, 'n) handshake_done"
  ho_l_chunk :: "chunk_item option"
  ho_remote :: "('pk, 'n) handshake_done"
  ho_r_chunk :: "chunk_item option"

fun done_of_result :: "inner + (inner \<times> ('pk, 'n) key) \<Rightarrow> ('pk, 'n) handshake_done" where
  "done_of_result (Inr (i, k)) = Done_HaveKey i k"
| "done_of_result (Inl i) = Done_HaveNotKey i"

definition output_of_make_key :: "('pk, 'n) make_key_output \<Rightarrow> ('pk, 'n) handshake_output" where
  "output_of_make_key v =
     \<lparr>ho_local = done_of_result (mk_local v), ho_l_chunk = mk_l_chunk v,
      ho_remote = done_of_result (mk_remote v), ho_r_chunk = mk_r_chunk v\<rparr>"

definition handshake_new :: "connection_key \<Rightarrow> identity \<Rightarrow> handshake" where
  "handshake_new cn_id identity =
     \<lparr>hs_local = Half_Initial (initial_new cn_id identity),
      hs_remote = Half_Initial (initial_new cn_id identity)\<rparr>"

definition handshake_is_empty :: "handshake \<Rightarrow> bool" where
  "handshake_is_empty h \<longleftrightarrow>
     (case (hs_local h, hs_remote h) of
        (Half_Initial l, Half_Initial r) \<Rightarrow> initial_is_empty l \<and> initial_is_empty r
      | _ \<Rightarrow> False)"

definition handshake_initial :: "inner \<Rightarrow> inner \<Rightarrow> handshake" where
  "handshake_initial l r = \<lparr>hs_local = Half_Initial l, hs_remote = Half_Initial r\<rparr>"

definition handshake_local_cm :: "inner \<Rightarrow> inner \<Rightarrow> handshake" where
  "handshake_local_cm l r = \<lparr>hs_local = Half_HaveCm l, hs_remote = Half_Initial r\<rparr>"

definition handshake_remote_cm :: "inner \<Rightarrow> inner \<Rightarrow> handshake" where
  "handshake_remote_cm l r = \<lparr>hs_local = Half_Initial l, hs_remote = Half_HaveCm r\<rparr>"

text \<open>The keys are made, with the local side first.\<close>

definition handshake_make_key ::
    "('k, 'pk, 'n) crypto \<Rightarrow> clock \<Rightarrow> inner \<Rightarrow> inner \<Rightarrow> connection_item
     \<Rightarrow> panic + ((handshake + ('pk, 'n) handshake_output) \<times> connection_item)" where
  "handshake_make_key cr clk l r cn =
     and_then (make_key cr clk l r cn) (\<lambda>(v, cn'). Inr (Inr (output_of_make_key v), cn'))"

text \<open>Left: the handshake goes on; right: it is over, with the chunks it leaves.\<close>

definition handshake_handle_data ::
    "('k, 'pk, 'n) crypto \<Rightarrow> clock \<Rightarrow> handshake \<Rightarrow> bytes \<Rightarrow> bool \<Rightarrow> bool \<Rightarrow> connection_item
     \<Rightarrow> panic + ((handshake + ('pk, 'n) handshake_output) \<times> connection_item)" where
  "handshake_handle_data cr clk h payload net incoming cn =
     (case (hs_local h, hs_remote h) of
        (Half_Initial l, Half_Initial r) \<Rightarrow>
          if \<not> incoming then
            (case initial_handle_data l payload of
               Inl l' \<Rightarrow> Inr (Inl (handshake_initial l' r), cn)
             | Inr l' \<Rightarrow> Inr (Inl (handshake_local_cm l' r), cn))
          else
            (case initial_handle_data r payload of
               Inl r' \<Rightarrow> Inr (Inl (handshake_initial l r'), cn)
             | Inr r' \<Rightarrow> Inr (Inl (handshake_remote_cm l r'), cn))
      | (Half_HaveCm l, Half_Initial r) \<Rightarrow>
          if \<not> incoming then
            (case have_cm_handle_data clk False l payload of
               Inr l' \<Rightarrow> Inr (Inl (handshake_local_cm l' r), cn)
             | Inl (l', l_chunk) \<Rightarrow>
                 let (r', r_chunk) = initial_uncertain clk True r in
                 Inr (Inr \<lparr>ho_local = Done_Uncertain l', ho_l_chunk = l_chunk,
                           ho_remote = Done_Uncertain r',
                           ho_r_chunk = map_option (chunk_net net) r_chunk\<rparr>,
                      mark_uncertain cn))
          else
            (case initial_handle_data r payload of
               Inl r' \<Rightarrow> Inr (Inl (handshake_local_cm l r'), cn)
             | Inr r' \<Rightarrow> handshake_make_key cr clk l r' cn)
      | (Half_Initial l, Half_HaveCm r) \<Rightarrow>
          if incoming then
            (case have_cm_handle_data clk True r payload of
               Inr r' \<Rightarrow> Inr (Inl (handshake_remote_cm l r'), cn)
             | Inl (r', r_chunk) \<Rightarrow>
                 let (l', l_chunk) = initial_uncertain clk False l in
                 Inr (Inr \<lparr>ho_local = Done_Uncertain l',
                           ho_l_chunk = map_option (chunk_net net) l_chunk,
                           ho_remote = Done_Uncertain r', ho_r_chunk = r_chunk\<rparr>,
                      mark_uncertain cn))
          else
            (case initial_handle_data l payload of
               Inl l' \<Rightarrow> Inr (Inl (handshake_remote_cm l' r), cn)
             | Inr l' \<Rightarrow> handshake_make_key cr clk l' r cn)
      | (Half_HaveCm _, Half_HaveCm _) \<Rightarrow> Inl Explicit_Panic)"

section \<open>After the handshake\<close>

record 'h chunk_handler =
  ch_handle_chunk :: "chunk_item \<Rightarrow> connection_item \<Rightarrow> 'h \<Rightarrow> panic + (connection_item \<times> 'h)"
  ch_update_cn :: "connection_item \<Rightarrow> 'h \<Rightarrow> 'h"

lemma buffer_next_length:
  "buffer_next b = (Some (n, c), b') \<Longrightarrow> length (buf_data b') < length (buf_data b) \<and> 2 \<le> length c"
  using buffer_next_shorter [of b "(n, c)" b']
  by (auto simp: buffer_next_def dest: buffer_len_pos split: option.splits if_splits)

lemma have_data_next_shorter:
  "have_data_next cr clk s d = Inr (Some c, d') \<Longrightarrow>
   length (buf_data (in_buffer (hd_inner d'))) < length (buf_data (in_buffer (hd_inner d)))"
  by (auto simp: have_data_next_def Let_def and_then_Inr_iff dest!: buffer_next_length
      split: if_splits prod.splits option.splits)

lemma cannot_decrypt_next_shorter:
  "cannot_decrypt_next clk s i = (Some c, i') \<Longrightarrow>
   length (buf_data (in_buffer i')) < length (buf_data (in_buffer i))"
  by (auto simp: cannot_decrypt_next_def Let_def dest!: buffer_next_length
      split: prod.splits option.splits)

function have_data_loop ::
    "('k, 'pk, 'n) crypto \<Rightarrow> clock \<Rightarrow> bool \<Rightarrow> 'h chunk_handler \<Rightarrow> bool \<Rightarrow> ('pk, 'n) have_data
     \<Rightarrow> connection_item \<Rightarrow> 'h \<Rightarrow> panic + (('pk, 'n) have_data \<times> connection_item \<times> 'h)" where
  "have_data_loop cr clk s hr net d cn h =
     (case have_data_next cr clk s d of
        Inl p \<Rightarrow> Inl p
      | Inr (None, d') \<Rightarrow> Inr (d', cn, h)
      | Inr (Some chunk, d') \<Rightarrow>
          (case ch_handle_chunk hr (chunk_net net chunk) cn h of
             Inl p \<Rightarrow> Inl p
           | Inr (cn', h') \<Rightarrow> have_data_loop cr clk s hr net d' cn' h'))"
  by pat_completeness auto
termination
  by (relation "measure (\<lambda>(cr, clk, s, hr, net, d, cn, h). length (buf_data (in_buffer (hd_inner d))))")
    (auto dest: have_data_next_shorter)

function cannot_decrypt_loop ::
    "clock \<Rightarrow> bool \<Rightarrow> 'h chunk_handler \<Rightarrow> bool \<Rightarrow> inner \<Rightarrow> connection_item \<Rightarrow> 'h
     \<Rightarrow> panic + (inner \<times> connection_item \<times> 'h)" where
  "cannot_decrypt_loop clk s hr net i cn h =
     (case cannot_decrypt_next clk s i of
        (None, i') \<Rightarrow> Inr (i', cn, h)
      | (Some chunk, i') \<Rightarrow>
          (case ch_handle_chunk hr (chunk_net net chunk) cn h of
             Inl p \<Rightarrow> Inl p
           | Inr (cn', h') \<Rightarrow> cannot_decrypt_loop clk s hr net i' cn' h'))"
  by pat_completeness auto
termination
  by (relation "measure (\<lambda>(clk, s, hr, net, i, cn, h). length (buf_data (in_buffer i)))")
    (auto dest: cannot_decrypt_next_shorter [OF sym])

declare have_data_loop.simps [simp del] cannot_decrypt_loop.simps [simp del]

fun done_handle_data ::
    "('k, 'pk, 'n) crypto \<Rightarrow> clock \<Rightarrow> bool \<Rightarrow> 'h chunk_handler \<Rightarrow> ('pk, 'n) handshake_done \<Rightarrow> bytes
     \<Rightarrow> bool \<Rightarrow> connection_item \<Rightarrow> 'h
     \<Rightarrow> panic + (('pk, 'n) handshake_done \<times> connection_item \<times> 'h)" where
  "done_handle_data cr clk s hr (Done_Uncertain i) payload net cn h =
     and_then (uncertain_handle_data clk s i payload) (\<lambda>(chunk, i').
     and_then (ch_handle_chunk hr (chunk_net net chunk) cn h) (\<lambda>(cn', h').
     Inr (Done_Uncertain i', cn', h')))"
| "done_handle_data cr clk s hr (Done_HaveKey i k) payload net cn h =
     and_then (have_data_loop cr clk s hr net (have_key_handle_data i k payload) cn h) (\<lambda>(d, cn', h').
     case have_data_over d of
       Inr (i', k') \<Rightarrow> Inr (Done_HaveKey i' k', cn', h')
     | Inl (i', position) \<Rightarrow>
         let cn'' = mark_cannot_decrypt s position cn' in
         and_then (cannot_decrypt_loop clk s hr net i' cn'' (ch_update_cn hr cn'' h'))
           (\<lambda>(i'', cn''', h''). Inr (Done_CannotDecrypt i'', cn''', h'')))"
| "done_handle_data cr clk s hr (Done_HaveNotKey i) payload net cn h =
     and_then (have_not_key_handle_data clk s i payload) (\<lambda>(chunk, i').
     and_then (ch_handle_chunk hr (chunk_net net chunk) cn h) (\<lambda>(cn', h').
     Inr (Done_HaveNotKey i', cn', h')))"
| "done_handle_data cr clk s hr (Done_CannotDecrypt i) payload net cn h =
     and_then (cannot_decrypt_loop clk s hr net (cannot_decrypt_handle_data i payload) cn h)
       (\<lambda>(i', cn', h'). Inr (Done_CannotDecrypt i', cn', h'))"

section \<open>What the loops compute\<close>

text \<open>
  A specification on the list of chunks, with no buffer: \<open>keyed\<close> hands over decrypted chunks until
  one fails, which is dropped, notes its position, and hands the later ones over unopened
  (\<open>unopened\<close>). The result's key is \<open>None\<close> once decryption has failed.
\<close>

fun unopened ::
    "clock \<Rightarrow> bool \<Rightarrow> 'h chunk_handler \<Rightarrow> bool \<Rightarrow> connection_key \<Rightarrow> u64 \<Rightarrow> bytes list
     \<Rightarrow> connection_item \<Rightarrow> 'h \<Rightarrow> panic + (connection_item \<times> 'h)" where
  "unopened clk s hr net cid n [] cn h = Inr (cn, h)"
| "unopened clk s hr net cid n (c # cs) cn h =
     and_then (ch_handle_chunk hr
         (chunk_net net (chunk_new (clk_secs clk (sender_new s) n) cid (sender_new s) n c [])) cn h)
       (\<lambda>(cn', h'). unopened clk s hr net cid (n + 1) cs cn' h')"

fun keyed ::
    "('k, 'pk, 'n) crypto \<Rightarrow> clock \<Rightarrow> bool \<Rightarrow> 'h chunk_handler \<Rightarrow> bool \<Rightarrow> connection_key \<Rightarrow> u64
     \<Rightarrow> ('pk, 'n) key \<Rightarrow> bytes list \<Rightarrow> connection_item \<Rightarrow> 'h
     \<Rightarrow> panic + (('pk, 'n) key option \<times> connection_item \<times> 'h)" where
  "keyed cr clk s hr net cid n k [] cn h = Inr (Some k, cn, h)"
| "keyed cr clk s hr net cid n k (c # cs) cn h =
     (case cr_decrypt cr (key_key k) (drop 2 c) (key_nonce k) of
        None \<Rightarrow>
          let cn' = mark_cannot_decrypt s n cn in
          and_then (unopened clk s hr net cid (n + 1) cs cn' (ch_update_cn hr cn' h))
            (\<lambda>(cn'', h'). Inr (None, cn'', h'))
      | Some plain \<Rightarrow>
          and_then (ch_handle_chunk hr
              (chunk_net net (chunk_new (clk_secs clk (sender_new s) n) cid (sender_new s) n c plain))
              cn h)
            (\<lambda>(cn', h'). keyed cr clk s hr net cid (n + 1)
                 (k\<lparr>key_nonce := cr_increment cr (key_nonce k)\<rparr>) cs cn' h'))"

lemma unopened_append:
  "unopened clk s hr net cid n (cs @ ds) cn h =
   and_then (unopened clk s hr net cid n cs cn h)
     (\<lambda>(cn', h'). unopened clk s hr net cid (n + of_nat (length cs)) ds cn' h')"
  by (induction cs arbitrary: n cn h)
    (auto simp: and_then_assoc ac_simps intro!: and_then_cong split: prod.splits)

text \<open>Cutting the chunks into two batches does not change what the handler sees.\<close>

lemma keyed_append:
  "keyed cr clk s hr net cid n k (cs @ ds) cn h =
   and_then (keyed cr clk s hr net cid n k cs cn h) (\<lambda>(ko, cn', h').
     case ko of
       Some k' \<Rightarrow> keyed cr clk s hr net cid (n + of_nat (length cs)) k' ds cn' h'
     | None \<Rightarrow> and_then (unopened clk s hr net cid (n + of_nat (length cs)) ds cn' h')
         (\<lambda>(cn'', h''). Inr (None, cn'', h'')))"
proof (induction cs arbitrary: n k cn h)
  case (Cons c cs)
  show ?case
    by (cases "cr_decrypt cr (key_key k) (drop 2 c) (key_nonce k)")
      (auto simp: Cons.IH unopened_append and_then_assoc Let_def ac_simps intro!: and_then_cong
        split: prod.splits option.splits)
qed simp

abbreviation inner_at :: "connection_key \<Rightarrow> identity \<Rightarrow> u64 \<Rightarrow> bytes \<Rightarrow> inner" where
  "inner_at cid ident n d \<equiv>
     \<lparr>in_cn_id = cid, in_id = ident, in_buffer = \<lparr>buf_counter = n, buf_data = d\<rparr>\<rparr>"

lemma cannot_decrypt_next_framed:
  "framed c \<Longrightarrow> cannot_decrypt_next clk s (inner_at cid ident n (c @ d)) =
    (Some (chunk_new (clk_secs clk (sender_new s) n) cid (sender_new s) n c []),
     inner_at cid ident (n + 1) d)"
  by (simp add: cannot_decrypt_next_def buffer_next_framed inner_chunk_def)

lemma cannot_decrypt_next_incomplete:
  "incomplete d \<Longrightarrow>
   cannot_decrypt_next clk s (inner_at cid ident n d) = (None, inner_at cid ident n d)"
  by (simp add: cannot_decrypt_next_def buffer_next_eq)

lemma cannot_decrypt_loop_framed:
  "list_all framed cs \<Longrightarrow> incomplete r \<Longrightarrow>
   cannot_decrypt_loop clk s hr net (inner_at cid ident n (concat cs @ r)) cn h =
   and_then (unopened clk s hr net cid n cs cn h)
     (\<lambda>(cn', h'). Inr (inner_at cid ident (n + of_nat (length cs)) r, cn', h'))"
proof (induction cs arbitrary: n cn h)
  case Nil
  then show ?case
    by (simp add: cannot_decrypt_loop.simps cannot_decrypt_next_incomplete)
next
  case (Cons c cs)
  then show ?case
    by (subst cannot_decrypt_loop.simps)
      (auto simp: cannot_decrypt_next_framed sum_case_and_then and_then_assoc ac_simps
        intro!: and_then_cong split: prod.splits)
qed

lemma key_decrypt_framed:
  "framed c \<Longrightarrow> key_decrypt cr k c =
    Inr (map_option (\<lambda>plain. (plain, k\<lparr>key_nonce := cr_increment cr (key_nonce k)\<rparr>))
      (cr_decrypt cr (key_key k) (drop 2 c) (key_nonce k)))"
  using framed_length [of c]
  by (simp add: key_decrypt_def slice_def sub_def split: option.splits)

lemma have_data_next_framed:
  "framed c \<Longrightarrow>
   have_data_next cr clk s \<lparr>hd_inner = inner_at cid ident n (c @ d), hd_key = k, hd_error = None\<rparr> =
    (case cr_decrypt cr (key_key k) (drop 2 c) (key_nonce k) of
       Some plain \<Rightarrow>
         Inr (Some (chunk_new (clk_secs clk (sender_new s) n) cid (sender_new s) n c plain),
           \<lparr>hd_inner = inner_at cid ident (n + 1) d,
            hd_key = k\<lparr>key_nonce := cr_increment cr (key_nonce k)\<rparr>, hd_error = None\<rparr>)
     | None \<Rightarrow>
         Inr (None, \<lparr>hd_inner = inner_at cid ident (n + 1) d, hd_key = k, hd_error = Some n\<rparr>))"
  by (simp add: have_data_next_def buffer_next_framed key_decrypt_framed inner_chunk_def Let_def
      split: option.splits)

lemma have_data_next_incomplete:
  "incomplete d \<Longrightarrow>
   have_data_next cr clk s \<lparr>hd_inner = inner_at cid ident n d, hd_key = k, hd_error = None\<rparr> =
    Inr (None, \<lparr>hd_inner = inner_at cid ident n d, hd_key = k, hd_error = None\<rparr>)"
  by (simp add: have_data_next_def buffer_next_eq)

text \<open>The result of \<open>keyed\<close> as a state of the parser.\<close>

definition done_of_key ::
    "inner \<Rightarrow> ('pk, 'n) key option \<Rightarrow> ('pk, 'n) handshake_done" where
  "done_of_key i ko = (case ko of Some k \<Rightarrow> Done_HaveKey i k | None \<Rightarrow> Done_CannotDecrypt i)"

lemma have_key_framed:
  assumes "list_all framed cs" and "incomplete r"
  shows "and_then (have_data_loop cr clk s hr net
      \<lparr>hd_inner = inner_at cid ident n (concat cs @ r), hd_key = k, hd_error = None\<rparr> cn h)
    (\<lambda>(d, cn', h').
     case have_data_over d of
       Inr (i', k') \<Rightarrow> Inr (Done_HaveKey i' k', cn', h')
     | Inl (i', position) \<Rightarrow>
         let cn'' = mark_cannot_decrypt s position cn' in
         and_then (cannot_decrypt_loop clk s hr net i' cn'' (ch_update_cn hr cn'' h'))
           (\<lambda>(i'', cn''', h''). Inr (Done_CannotDecrypt i'', cn''', h''))) =
    and_then (keyed cr clk s hr net cid n k cs cn h) (\<lambda>(ko, cn', h').
      Inr (done_of_key (inner_at cid ident (n + of_nat (length cs)) r) ko, cn', h'))"
    (is "and_then _ ?k = _")
  using assms(1)
proof (induction cs arbitrary: n k cn h)
  case Nil
  then show ?case
    using assms(2)
    by (simp add: have_data_loop.simps have_data_next_incomplete have_data_over_def done_of_key_def)
next
  case (Cons c cs)
  then have c: "framed c" "list_all framed cs" by simp_all
  show ?case
  proof (cases "cr_decrypt cr (key_key k) (drop 2 c) (key_nonce k)")
    case None
    then show ?thesis
      by (subst have_data_loop.simps)
        (auto simp: have_data_next_framed [OF c(1)] have_data_over_def Let_def and_then_assoc
          cannot_decrypt_loop_framed [OF c(2) assms(2)] done_of_key_def ac_simps
          intro!: and_then_cong split: prod.splits)
  next
    case (Some plain)
    then show ?thesis
      using Cons.IH [OF c(2)]
      by (subst have_data_loop.simps)
        (auto simp: have_data_next_framed [OF c(1)] sum_case_and_then and_then_assoc ac_simps
          intro!: and_then_cong split: prod.splits)
  qed
qed

lemma done_handle_data_have_key:
  assumes "list_all framed cs" "incomplete r"
    and "buf_data (in_buffer i) @ payload = concat cs @ r"
  shows "done_handle_data cr clk s hr (Done_HaveKey i k) payload net cn h =
    and_then (keyed cr clk s hr net (in_cn_id i) (buf_counter (in_buffer i)) k cs cn h)
      (\<lambda>(ko, cn', h').
        Inr (done_of_key (inner_at (in_cn_id i) (in_id i)
               (buf_counter (in_buffer i) + of_nat (length cs)) r) ko, cn', h'))"
proof -
  have "have_key_handle_data i k payload =
    \<lparr>hd_inner = inner_at (in_cn_id i) (in_id i) (buf_counter (in_buffer i)) (concat cs @ r),
     hd_key = k, hd_error = None\<rparr>"
    using assms(3)
    by (simp add: have_key_handle_data_def inner_handle_data_def buffer_handle_data_def)
  then show ?thesis
    by (simp only: done_handle_data.simps have_key_framed [OF assms(1,2)])
qed

lemma done_handle_data_cannot_decrypt:
  assumes "list_all framed cs" "incomplete r"
    and "buf_data (in_buffer i) @ payload = concat cs @ r"
  shows "done_handle_data cr clk s hr (Done_CannotDecrypt i) payload net cn h =
    and_then (unopened clk s hr net (in_cn_id i) (buf_counter (in_buffer i)) cs cn h)
      (\<lambda>(cn', h').
        Inr (Done_CannotDecrypt (inner_at (in_cn_id i) (in_id i)
               (buf_counter (in_buffer i) + of_nat (length cs)) r), cn', h'))"
proof -
  have "cannot_decrypt_handle_data i payload =
    inner_at (in_cn_id i) (in_id i) (buf_counter (in_buffer i)) (concat cs @ r)"
    using assms(3)
    by (simp add: cannot_decrypt_handle_data_def inner_handle_data_def buffer_handle_data_def)
  then show ?thesis
    by (auto simp: cannot_decrypt_loop_framed [OF assms(1,2)] and_then_assoc intro!: and_then_cong)
qed

section \<open>Segmentation does not matter\<close>

fun opened_state :: "('pk, 'n) handshake_done \<Rightarrow> bool" where
  "opened_state (Done_HaveKey i k) = True"
| "opened_state (Done_CannotDecrypt i) = True"
| "opened_state _ = False"

fun done_inner :: "('pk, 'n) handshake_done \<Rightarrow> inner" where
  "done_inner (Done_Uncertain i) = i"
| "done_inner (Done_HaveKey i k) = i"
| "done_inner (Done_HaveNotKey i) = i"
| "done_inner (Done_CannotDecrypt i) = i"

definition pending :: "('pk, 'n) handshake_done \<Rightarrow> bytes" where
  "pending st = buf_data (in_buffer (done_inner st))"

definition next_counter :: "('pk, 'n) handshake_done \<Rightarrow> u64" where
  "next_counter st = buf_counter (in_buffer (done_inner st))"

lemma done_inner_of_key [simp]: "done_inner (done_of_key i ko) = i"
  by (simp add: done_of_key_def split: option.splits)

text \<open>
  C9: How the system calls cut the stream does not matter. Once the handshake is over with keys,
  handling \<open>p\<close> and then \<open>q\<close> gives the same state, the same comments and the same calls of the
  handler, in the same order, as handling \<open>p @ q\<close> at once, for any handler.
\<close>

theorem done_handle_data_append:
  assumes "opened_state st"
  shows "done_handle_data cr clk s hr st (p @ q) net cn h =
    and_then (done_handle_data cr clk s hr st p net cn h)
      (\<lambda>(st', cn', h'). done_handle_data cr clk s hr st' q net cn' h')"
proof -
  let ?i = "done_inner st"
  obtain cs r where cs: "list_all framed cs" "incomplete r" "pending st @ p = concat cs @ r"
    using frame_exists by blast
  obtain ds u where ds: "list_all framed ds" "incomplete u" "r @ q = concat ds @ u"
    using frame_exists by blast
  have all: "list_all framed (cs @ ds)" "pending st @ p @ q = concat (cs @ ds) @ u"
    using cs ds by (simp_all, metis append.assoc)
  show ?thesis
  proof (cases st)
    case (Done_HaveKey i k)
    have d: "buf_data (in_buffer i) = pending st" by (simp add: pending_def Done_HaveKey)
    show ?thesis
      unfolding Done_HaveKey
      by (simp only: done_handle_data_have_key [OF all(1) ds(2)] d all(2)
          done_handle_data_have_key [OF cs(1,2)] cs(3) keyed_append and_then_assoc)
        (auto intro!: and_then_cong simp: done_of_key_def ac_simps and_then_assoc
          done_handle_data_have_key [OF ds(1,2)] done_handle_data_cannot_decrypt [OF ds(1,2)] ds(3)
          simp del: done_handle_data.simps split: prod.splits option.splits)
  next
    case (Done_CannotDecrypt i)
    have d: "buf_data (in_buffer i) = pending st" by (simp add: pending_def Done_CannotDecrypt)
    show ?thesis
      unfolding Done_CannotDecrypt
      by (simp only: done_handle_data_cannot_decrypt [OF all(1) ds(2)] d all(2)
          done_handle_data_cannot_decrypt [OF cs(1,2)] cs(3) unopened_append and_then_assoc)
        (auto intro!: and_then_cong simp: ac_simps and_then_assoc
          done_handle_data_cannot_decrypt [OF ds(1,2)] ds(3)
          simp del: done_handle_data.simps split: prod.splits)
  qed (use assms in simp_all)
qed

definition sample_done :: "(bytes, nat) handshake_done" where
  "sample_done = Done_HaveKey (initial_new (connection_key_of sample_connection) sample_identity)
     \<lparr>key_key = [], key_nonce = 0\<rparr>"

definition sample_handler :: "chunk_item list chunk_handler" where
  "sample_handler =
     \<lparr>ch_handle_chunk = (\<lambda>c cn h. Inr (cn, h @ [c])), ch_update_cn = (\<lambda>cn h. h)\<rparr>"

theorem done_handle_data_append_witness:
  "done_handle_data sample_crypto sample_clock True sample_handler sample_done
      ([0, 2, 0] @ [9, 0]) True sample_connection [] =
   and_then (done_handle_data sample_crypto sample_clock True sample_handler sample_done
      [0, 2, 0] True sample_connection [])
     (\<lambda>(st', cn', h'). done_handle_data sample_crypto sample_clock True sample_handler st'
      [9, 0] True cn' h')"
  by (rule done_handle_data_append) (simp add: sample_done_def)

end
