(* ===== verification/Chunk_Recorder.thy ===== *)
theory Chunk_Recorder
  imports Chunk_Parser
begin

text \<open>
  The contract of the trait \<^verbatim>\<open>ChunkHandler\<close> (\<^verbatim>\<open>chunk_parser/parser.rs\<close>) as the parser relies on it:
  a handler accepts every chunk that is not empty, records it, and changes nothing of the
  connection but one comment. From the contract alone: a direction of a connection never panics
  after the handshake, and no byte is lost or reordered except the one chunk that cannot be
  decrypted.
\<close>

section \<open>The contract\<close>

definition same_but_suspicious :: "connection_item \<Rightarrow> connection_item \<Rightarrow> bool" where
  "same_but_suspicious cn cn' \<longleftrightarrow>
     (\<exists>x. cn' = add_comment (\<lambda>c. c\<lparr>incoming_suspicious := x\<rparr>) cn)"

definition slot :: "chunk_item \<Rightarrow> u64 \<times> bytes" where
  "slot c = (ci_counter c, ci_bytes c)"

definition of_side :: "connection_key \<Rightarrow> bool \<Rightarrow> chunk_item \<Rightarrow> bool" where
  "of_side cid s c \<longleftrightarrow> ci_cn_id c = cid \<and> ci_sender c = sender_new s"

definition drop_nth :: "nat \<Rightarrow> 'a list \<Rightarrow> 'a list" where
  "drop_nth i xs = take i xs @ drop (Suc i) xs"

lemma same_but_suspicious_refl [simp]: "same_but_suspicious cn cn"
  unfolding same_but_suspicious_def
  by (rule exI [of _ "incoming_suspicious (cn_comments cn)"]) (simp add: add_comment_def)

lemma same_but_suspicious_trans:
  "same_but_suspicious a b \<Longrightarrow> same_but_suspicious b c \<Longrightarrow> same_but_suspicious a c"
  by (auto simp: same_but_suspicious_def add_comment_def)

lemma same_but_suspicious_mark:
  "same_but_suspicious a b \<Longrightarrow>
   same_but_suspicious (mark_cannot_decrypt s p a) (mark_cannot_decrypt s p b)"
  by (cases "cn_comments a")
    (auto simp: same_but_suspicious_def add_comment_def mark_cannot_decrypt_def)

lemma slot_simps [simp]:
  "slot (chunk_net net c) = slot c"
  "slot (chunk_new t cid sd n bs plain) = (n, bs)"
  by (simp_all add: slot_def chunk_net_def chunk_new_def)

lemma of_side_simps [simp]:
  "of_side cid s (chunk_net net c) = of_side cid s c"
  "of_side cid s (chunk_new t cid (sender_new s) n bs plain)"
  by (simp_all add: of_side_def chunk_net_def chunk_new_def)

lemma ci_bytes_simps [simp]:
  "ci_bytes (chunk_net net c) = ci_bytes c"
  "ci_bytes (chunk_new t cid sd n bs plain) = bs"
  by (simp_all add: chunk_net_def chunk_new_def)

lemma drop_nth_simps [simp]:
  "drop_nth 0 (x # xs) = xs"
  "drop_nth (Suc i) (x # xs) = x # drop_nth i xs"
  by (simp_all add: drop_nth_def)

text \<open>
  A step of one direction on one payload: \<open>cs\<close> are the pieces cut from what was pending and the
  payload, \<open>items\<close> what was recorded. All pieces are recorded, in order and numbered, or all but
  the one that could not be decrypted, whose number is noted in the comments.
\<close>

fun same_state :: "('pk, 'n) handshake_done \<Rightarrow> ('pk, 'n) handshake_done \<Rightarrow> bool" where
  "same_state (Done_Uncertain _) (Done_Uncertain _) = True"
| "same_state (Done_HaveKey _ _) (Done_HaveKey _ _) = True"
| "same_state (Done_HaveNotKey _) (Done_HaveNotKey _) = True"
| "same_state (Done_CannotDecrypt _) (Done_CannotDecrypt _) = True"
| "same_state _ _ = False"

fun have_key_state :: "('pk, 'n) handshake_done \<Rightarrow> bool" where
  "have_key_state (Done_HaveKey _ _) = True"
| "have_key_state _ = False"

fun cannot_decrypt_state :: "('pk, 'n) handshake_done \<Rightarrow> bool" where
  "cannot_decrypt_state (Done_CannotDecrypt _) = True"
| "cannot_decrypt_state _ = False"

definition done_step ::
    "bool \<Rightarrow> ('pk, 'n) handshake_done \<Rightarrow> connection_item \<Rightarrow> ('pk, 'n) handshake_done
     \<Rightarrow> connection_item \<Rightarrow> bytes \<Rightarrow> bytes list \<Rightarrow> chunk_item list \<Rightarrow> bool" where
  "done_step s st cn st' cn' payload cs items \<longleftrightarrow>
     concat cs @ pending st' = pending st @ payload \<and>
     next_counter st' = next_counter st + of_nat (length cs) \<and>
     in_cn_id (done_inner st') = in_cn_id (done_inner st) \<and>
     (opened_state st \<longrightarrow> list_all framed cs \<and> incomplete (pending st')) \<and>
     (same_state st st' \<and> map slot items = number_from (next_counter st) cs \<and>
        same_but_suspicious cn cn' \<or>
      have_key_state st \<and> cannot_decrypt_state st' \<and>
        (\<exists>i < length cs. map slot items = drop_nth i (number_from (next_counter st) cs) \<and>
          same_but_suspicious (mark_cannot_decrypt s (next_counter st + of_nat i) cn) cn'))"

locale chunk_recorder =
  fixes hr :: "'h chunk_handler"
    and stored :: "'h \<Rightarrow> chunk_item list"
  assumes handle_stores: "ci_bytes c \<noteq> [] \<Longrightarrow>
      \<exists>cn' h'. ch_handle_chunk hr c cn h = Inr (cn', h') \<and> stored h' = stored h @ [c] \<and>
        same_but_suspicious cn cn'"
    and update_stores: "stored (ch_update_cn hr cn h) = stored h"
begin

lemma unopened_records:
  assumes "list_all (\<lambda>c. c \<noteq> []) cs"
  shows "\<exists>cn' h' items. unopened clk s hr net cid n cs cn h = Inr (cn', h') \<and>
    stored h' = stored h @ items \<and> list_all (of_side cid s) items \<and>
    map slot items = number_from n cs \<and> same_but_suspicious cn cn'"
  using assms
proof (induction cs arbitrary: n cn h)
  case (Cons c cs)
  let ?c = "chunk_net net (chunk_new (clk_secs clk (sender_new s) n) cid (sender_new s) n c [])"
  have "ci_bytes ?c \<noteq> []" using Cons.prems by simp
  then obtain cn1 h1 where 1: "ch_handle_chunk hr ?c cn h = Inr (cn1, h1)"
      "stored h1 = stored h @ [?c]" "same_but_suspicious cn cn1"
    using handle_stores by blast
  obtain cn' h' items where 2: "unopened clk s hr net cid (n + 1) cs cn1 h1 = Inr (cn', h')"
      "stored h' = stored h1 @ items" "list_all (of_side cid s) items"
      "map slot items = number_from (n + 1) cs" "same_but_suspicious cn1 cn'"
    using Cons.IH [of "n + 1" cn1 h1] Cons.prems by auto
  show ?case
    by (intro exI [of _ cn'] exI [of _ h'] exI [of _ "?c # items"])
      (use 1 2 in \<open>auto intro: same_but_suspicious_trans\<close>)
qed simp

lemma keyed_records:
  assumes "list_all (\<lambda>c. c \<noteq> []) cs"
  shows "\<exists>ko cn' h' items. keyed cr clk s hr net cid n k cs cn h = Inr (ko, cn', h') \<and>
    stored h' = stored h @ items \<and> list_all (of_side cid s) items \<and>
    (ko \<noteq> None \<and> map slot items = number_from n cs \<and> same_but_suspicious cn cn' \<or>
     ko = None \<and> (\<exists>i < length cs. map slot items = drop_nth i (number_from n cs) \<and>
       same_but_suspicious (mark_cannot_decrypt s (n + of_nat i) cn) cn'))"
  using assms
proof (induction cs arbitrary: n k cn h)
  case (Cons c cs)
  then have ne: "c \<noteq> []" "list_all (\<lambda>c. c \<noteq> []) cs" by simp_all
  show ?case
  proof (cases "cr_decrypt cr (key_key k) (drop 2 c) (key_nonce k)")
    case None
    let ?cn = "mark_cannot_decrypt s n cn"
    obtain cn' h' items where 2:
        "unopened clk s hr net cid (n + 1) cs ?cn (ch_update_cn hr ?cn h) = Inr (cn', h')"
        "stored h' = stored (ch_update_cn hr ?cn h) @ items" "list_all (of_side cid s) items"
        "map slot items = number_from (n + 1) cs" "same_but_suspicious ?cn cn'"
      using unopened_records [OF ne(2)] by blast
    show ?thesis
      by (intro exI [of _ "None"] exI [of _ cn'] exI [of _ h'] exI [of _ items])
        (use None 2 in \<open>auto simp: Let_def update_stores intro!: exI [of _ 0]\<close>)
  next
    case (Some plain)
    let ?c = "chunk_net net (chunk_new (clk_secs clk (sender_new s) n) cid (sender_new s) n c plain)"
    let ?k = "k\<lparr>key_nonce := cr_increment cr (key_nonce k)\<rparr>"
    have "ci_bytes ?c \<noteq> []" using ne by simp
    then obtain cn1 h1 where 1: "ch_handle_chunk hr ?c cn h = Inr (cn1, h1)"
        "stored h1 = stored h @ [?c]" "same_but_suspicious cn cn1"
      using handle_stores by blast
    obtain ko cn' h' items where 2: "keyed cr clk s hr net cid (n + 1) ?k cs cn1 h1 = Inr (ko, cn', h')"
        "stored h' = stored h1 @ items" "list_all (of_side cid s) items"
        "ko \<noteq> None \<and> map slot items = number_from (n + 1) cs \<and> same_but_suspicious cn1 cn' \<or>
         ko = None \<and> (\<exists>i < length cs. map slot items = drop_nth i (number_from (n + 1) cs) \<and>
           same_but_suspicious (mark_cannot_decrypt s (n + 1 + of_nat i) cn1) cn')"
      using Cons.IH [OF ne(2), of "n + 1" ?k cn1 h1] by blast
    have "ko \<noteq> None \<and> map slot (?c # items) = number_from n (c # cs) \<and> same_but_suspicious cn cn' \<or>
         ko = None \<and> (\<exists>i < length (c # cs). map slot (?c # items) = drop_nth i (number_from n (c # cs)) \<and>
           same_but_suspicious (mark_cannot_decrypt s (n + of_nat i) cn) cn')"
      using 2(4)
    proof (elim disjE conjE exE)
      fix i assume i: "ko = None" "i < length cs" "map slot items = drop_nth i (number_from (n + 1) cs)"
        "same_but_suspicious (mark_cannot_decrypt s (n + 1 + of_nat i) cn1) cn'"
      have "n + of_nat (Suc i) = n + 1 + of_nat i" by simp
      with i 1(3) show ?thesis
        by (intro disjI2 conjI exI [of _ "Suc i"])
          (auto simp: add.assoc intro: same_but_suspicious_mark same_but_suspicious_trans)
    qed (use 1 in \<open>auto intro: same_but_suspicious_trans\<close>)
    then show ?thesis
      by (intro exI [of _ ko] exI [of _ cn'] exI [of _ h'] exI [of _ "?c # items"])
        (use Some 1 2 in simp)
  qed
qed simp

text \<open>One payload, in any state after the handshake.\<close>

lemma whole_buffer_records:
  assumes "payload \<noteq> []"
  shows "\<exists>c i'. inner_cleanup clk s (inner_handle_data i payload) = (Some c, i') \<and>
    slot c = (buf_counter (in_buffer i), buf_data (in_buffer i) @ payload) \<and>
    of_side (in_cn_id i) s c \<and>
    i' = inner_at (in_cn_id i) (in_id i) (buf_counter (in_buffer i) + 1) []"
  using assms
  by (simp add: inner_cleanup_def inner_handle_data_def buffer_handle_data_def buffer_cleanup_def
      inner_chunk_def)

lemma done_records:
  assumes "payload \<noteq> []"
  shows "\<exists>st' cn' h' cs items. done_handle_data cr clk s hr st payload net cn h = Inr (st', cn', h') \<and>
    stored h' = stored h @ items \<and> list_all (of_side (in_cn_id (done_inner st)) s) items \<and>
    done_step s st cn st' cn' payload cs items"
proof -
  let ?i = "done_inner st"
  obtain cs r where cs: "list_all framed cs" "incomplete r" "pending st @ payload = concat cs @ r"
    using frame_exists by blast
  have ne: "list_all (\<lambda>c. c \<noteq> []) cs"
    using cs(1) framed_length by (fastforce simp: list_all_iff)
  have eq: "buf_data (in_buffer ?i) @ payload = concat cs @ r"
    using cs(3) by (simp add: pending_def)
  obtain c i' where whole: "inner_cleanup clk s (inner_handle_data ?i payload) = (Some c, i')"
      "slot c = (next_counter st, pending st @ payload)" "of_side (in_cn_id ?i) s c"
      "i' = inner_at (in_cn_id ?i) (in_id ?i) (next_counter st + 1) []"
    using whole_buffer_records [OF assms, of clk s ?i] by (auto simp: pending_def next_counter_def)
  have "ci_bytes (chunk_net net c) \<noteq> []"
    using whole(2) assms by (simp add: slot_def)
  then obtain cn1 h1 where one: "ch_handle_chunk hr (chunk_net net c) cn h = Inr (cn1, h1)"
      "stored h1 = stored h @ [chunk_net net c]" "same_but_suspicious cn cn1"
    using handle_stores by blast
  show ?thesis
  proof (cases st)
    case (Done_Uncertain i)
    then show ?thesis
      using whole one
      by (intro exI [of _ "Done_Uncertain i'"] exI [of _ cn1] exI [of _ h1]
          exI [of _ "[pending st @ payload]"] exI [of _ "[chunk_net net c]"])
        (simp add: uncertain_handle_data_def done_step_def pending_def next_counter_def)
  next
    case (Done_HaveNotKey i)
    then show ?thesis
      using whole one
      by (intro exI [of _ "Done_HaveNotKey i'"] exI [of _ cn1] exI [of _ h1]
          exI [of _ "[pending st @ payload]"] exI [of _ "[chunk_net net c]"])
        (simp add: have_not_key_handle_data_def done_step_def pending_def next_counter_def)
  next
    case (Done_CannotDecrypt i)
    obtain cn' h' items where u: "unopened clk s hr net (in_cn_id i) (next_counter st) cs cn h = Inr (cn', h')"
        "stored h' = stored h @ items" "list_all (of_side (in_cn_id i) s) items"
        "map slot items = number_from (next_counter st) cs" "same_but_suspicious cn cn'"
      using unopened_records [OF ne] by blast
    then show ?thesis
      using cs eq Done_CannotDecrypt
      by (intro exI [of _ "Done_CannotDecrypt (inner_at (in_cn_id i) (in_id i)
            (next_counter st + of_nat (length cs)) r)"] exI [of _ cn'] exI [of _ h'] exI [of _ cs]
          exI [of _ items])
        (simp add: done_handle_data_cannot_decrypt [OF cs(1,2)] done_step_def pending_def
          next_counter_def del: done_handle_data.simps)
  next
    case (Done_HaveKey i k)
    obtain ko cn' h' items where u:
        "keyed cr clk s hr net (in_cn_id i) (next_counter st) k cs cn h = Inr (ko, cn', h')"
        "stored h' = stored h @ items" "list_all (of_side (in_cn_id i) s) items"
        "ko \<noteq> None \<and> map slot items = number_from (next_counter st) cs \<and> same_but_suspicious cn cn' \<or>
         ko = None \<and> (\<exists>j < length cs. map slot items = drop_nth j (number_from (next_counter st) cs) \<and>
           same_but_suspicious (mark_cannot_decrypt s (next_counter st + of_nat j) cn) cn')"
      using keyed_records [OF ne, of cr clk s net "in_cn_id i" "next_counter st" k cn h]
      by (elim exE conjE) (rule that)
    let ?st' = "done_of_key (inner_at (in_cn_id i) (in_id i) (next_counter st + of_nat (length cs)) r) ko"
    have st': "same_state st ?st' \<longleftrightarrow> ko \<noteq> None" "cannot_decrypt_state ?st' \<longleftrightarrow> ko = None"
      "have_key_state st" "in_cn_id (done_inner st) = in_cn_id i"
      by (simp_all add: Done_HaveKey done_of_key_def split: option.splits)
    have p: "pending ?st' = r" "next_counter ?st' = next_counter st + of_nat (length cs)"
      by (simp_all add: pending_def [of ?st'] next_counter_def [of ?st'])
    have "done_step s st cn ?st' cn' payload cs items"
      unfolding done_step_def p st'(1,2,4) using cs u(4) st'(3) by simp
    moreover have "done_handle_data cr clk s hr st payload net cn h = Inr (?st', cn', h')"
      using u(1) eq Done_HaveKey
      by (simp add: done_handle_data_have_key [OF cs(1,2)] next_counter_def
          del: done_handle_data.simps)
    ultimately show ?thesis
      using u(2,3) Done_HaveKey by (metis done_inner.simps(2))
  qed
qed

end

end
