(* ===== verification/Message_Table.thy ===== *)
theory Message_Table
  imports Chunk_Table
begin

text \<open>
  The message table, \<^verbatim>\<open>tezedge-recorder/src/tables/message.rs\<close>: the stored item, its presentation
  forms, and the builder that links the chunks of one peer message. The decoders of the node's
  messages belong to another crate: they are the fields of \<open>tezos_decoders\<close>, a parameter.
\<close>

section \<open>Items\<close>

record message_item =
  msg_cn_ts :: u64
  msg_cn_ts_nanos :: u32
  msg_timestamp :: u64
  msg_remote_addr :: socket_addr
  msg_initiator :: initiator
  msg_sender :: sender
  msg_ty :: message_type
  msg_chunks :: "u64 \<times> u64"

definition message_chunks :: "message_item \<Rightarrow> chunk_key list" where
  "message_chunks m =
     map (\<lambda>counter. \<lparr>chk_cn_id = \<lparr>ck_ts = msg_cn_ts m, ck_ts_nanos = msg_cn_ts_nanos m\<rparr>,
                      chk_counter = word_of_nat counter, chk_sender = msg_sender m\<rparr>)
       [unat (fst (msg_chunks m)) ..< unat (snd (msg_chunks m))]"

record message_frontend =
  mf_id :: u64
  mf_timestamp :: "128 word"
  mf_remote_addr :: socket_addr
  mf_source_type :: initiator
  mf_incoming :: bool
  mf_category :: message_category
  mf_kind :: "message_kind option"
  mf_message_preview :: "string option"

definition message_frontend_new ::
    "message_item \<Rightarrow> u64 \<Rightarrow> string option \<Rightarrow> message_frontend" where
  "message_frontend_new item i preview =
     (let (category, kind) = type_split (msg_ty item) in
      \<lparr>mf_id = i, mf_timestamp = ucast (msg_timestamp item) * 1000000,
       mf_remote_addr = msg_remote_addr item, mf_source_type = msg_initiator item,
       mf_incoming = sender_incoming (msg_sender item), mf_category = category, mf_kind = kind,
       mf_message_preview = preview\<rparr>)"

section \<open>Message details\<close>

datatype ('c, 'm, 'a, 'p) tezos_message =
    ConnectionMessage 'c
  | MetadataMessage 'm
  | AckMessage 'a
  | PeerMessage 'p

record ('c, 'm, 'a, 'p) tezos_decoders =
  dec_connection :: "bytes \<Rightarrow> string + 'c"
  dec_metadata :: "bytes \<Rightarrow> string + 'm"
  dec_ack :: "bytes \<Rightarrow> string + 'a"
  dec_peer :: "bytes \<Rightarrow> string + 'p"

record ('c, 'm, 'a, 'p) message_details =
  md_id :: u64
  md_message :: "('c, 'm, 'a, 'p) tezos_message option"
  md_original_bytes :: "bytes list"
  md_decrypted_bytes :: "bytes list"
  md_error :: "string option"

definition map_ok :: "('a \<Rightarrow> 'b) \<Rightarrow> 'e + 'a \<Rightarrow> 'e + 'b" where
  "map_ok f r = (case r of Inl e \<Rightarrow> Inl e | Inr a \<Rightarrow> Inr (f a))"

fun decode_message ::
    "('c, 'm, 'a, 'p) tezos_decoders \<Rightarrow> message_type \<Rightarrow> bytes
     \<Rightarrow> string + ('c, 'm, 'a, 'p) tezos_message" where
  "decode_message d Ty_Connection bs = map_ok ConnectionMessage (dec_connection d bs)"
| "decode_message d Ty_Meta bs = map_ok MetadataMessage (dec_metadata d bs)"
| "decode_message d Ty_Ack bs = map_ok AckMessage (dec_ack d bs)"
| "decode_message d (Ty_P2p _) bs = map_ok PeerMessage (dec_peer d bs)"

definition message_details_new ::
    "('c, 'm, 'a, 'p) tezos_decoders \<Rightarrow> u64 \<Rightarrow> message_type \<Rightarrow> chunk_value list
     \<Rightarrow> ('c, 'm, 'a, 'p) message_details" where
  "message_details_new d i ty chunks =
     (let bytes = concat (map chv_plain chunks);
          (message, error) = (case decode_message d ty bytes of
             Inr m \<Rightarrow> (Some m, None) | Inl e \<Rightarrow> (None, Some e))
      in \<lparr>md_id = i, md_message = message, md_original_bytes = map chv_bytes chunks,
          md_decrypted_bytes = map chv_plain chunks, md_error = error\<rparr>)"

text \<open>The elements of the JSON arrays of bytes; \<open>hex\<close> stands for \<^verbatim>\<open>hex::encode\<close>.\<close>

definition hex_string :: "(bytes \<Rightarrow> string) \<Rightarrow> bytes list \<Rightarrow> string list" where
  "hex_string hex vs =
     concat (map (\<lambda>v. map (\<lambda>i. sub (hex v) (2 * i) (2 * (i + 1))) [0 ..< length v]) vs)"

section \<open>The builder\<close>

record message_builder =
  mb_ty :: message_type
  mb_length :: u32
  mb_chunks :: "u64 \<times> u64"

datatype message_builder_full = MessageBuilderFull message_builder

definition connection_message :: message_builder_full where
  "connection_message =
     MessageBuilderFull \<lparr>mb_ty = Ty_Connection, mb_length = 0, mb_chunks = (0, 1)\<rparr>"

definition metadata_message :: message_builder_full where
  "metadata_message = MessageBuilderFull \<lparr>mb_ty = Ty_Meta, mb_length = 0, mb_chunks = (1, 2)\<rparr>"

definition acknowledge_message :: message_builder_full where
  "acknowledge_message = MessageBuilderFull \<lparr>mb_ty = Ty_Ack, mb_length = 0, mb_chunks = (2, 3)\<rparr>"

text \<open>\<open>peer_message\<close> is given exactly six bytes, the length and the tag.\<close>

definition peer_message :: "bytes \<Rightarrow> u64 \<Rightarrow> message_builder" where
  "peer_message bs chunk_number =
     \<lparr>mb_ty = Ty_P2p (from_tag (from_be_bytes (drop 4 bs))),
      mb_length = from_be_bytes (take 4 bs) + 4,
      mb_chunks = (chunk_number, chunk_number)\<rparr>"

definition link_chunk :: "message_builder \<Rightarrow> nat \<Rightarrow> message_builder option + message_builder_full" where
  "link_chunk b len =
     (let length = (word_of_nat len :: u32) in
      if mb_length b < length then Inl None
      else let b' = b\<lparr>mb_length := mb_length b - length,
                      mb_chunks := (fst (mb_chunks b), snd (mb_chunks b) + 1)\<rparr>
           in if mb_length b' = 0 then Inr (MessageBuilderFull b') else Inl (Some b'))"

definition builder_remaining :: "message_builder \<Rightarrow> nat" where
  "builder_remaining b = unat (mb_length b)"

text \<open>\<open>millis\<close> is the reading of the clock, in milliseconds since the epoch.\<close>

fun build :: "u64 \<Rightarrow> message_builder_full \<Rightarrow> sender \<Rightarrow> connection_item \<Rightarrow> message_item" where
  "build millis (MessageBuilderFull b) sender cn =
     \<lparr>msg_cn_ts = cn_ts cn, msg_cn_ts_nanos = cn_ts_nanos cn, msg_timestamp = millis,
      msg_remote_addr = cn_remote_addr cn, msg_initiator = cn_initiator cn,
      msg_sender = sender, msg_ty = mb_ty b, msg_chunks = mb_chunks b\<rparr>"

section \<open>Correctness\<close>

lemma message_details_error_iff:
  "md_error (message_details_new d i ty chunks) = None \<longleftrightarrow>
   md_message (message_details_new d i ty chunks) \<noteq> None"
  by (simp add: message_details_new_def Let_def split: sum.splits)

lemma message_chunks_builder:
  "message_chunks (build t (MessageBuilderFull b) s cn) =
     map (\<lambda>c. \<lparr>chk_cn_id = connection_key_of cn, chk_counter = word_of_nat c, chk_sender = s\<rparr>)
       [unat (fst (mb_chunks b)) ..< unat (snd (mb_chunks b))]"
  by (simp add: message_chunks_def connection_key_of_def)

lemma link_chunk_short:
  "0 < len \<Longrightarrow> len < builder_remaining b \<Longrightarrow>
   link_chunk b len =
     Inl (Some (b\<lparr>mb_length := mb_length b - word_of_nat len,
                  mb_chunks := (fst (mb_chunks b), snd (mb_chunks b) + 1)\<rparr>)) \<and>
   builder_remaining (b\<lparr>mb_length := mb_length b - word_of_nat len,
                  mb_chunks := (fst (mb_chunks b), snd (mb_chunks b) + 1)\<rparr>) =
     builder_remaining b - len"
proof -
  assume l: "0 < len" "len < builder_remaining b"
  have "len < 2 ^ 32" using l(2) unat_bound [of "mb_length b"] by (simp add: builder_remaining_def)
  then have u: "unat (word_of_nat len :: u32) = len" by (simp add: unat_of_nat)
  then have "unat (mb_length b - word_of_nat len) = unat (mb_length b) - len"
    using l(2) by (simp add: unat_sub word_le_nat_alt builder_remaining_def)
  with l u show ?thesis
    by (auto simp: link_chunk_def Let_def builder_remaining_def word_less_nat_alt word_unat_eq_iff)
qed

lemma link_chunk_exact:
  "len = builder_remaining b \<Longrightarrow>
   link_chunk b len =
     Inr (MessageBuilderFull (b\<lparr>mb_length := 0,
       mb_chunks := (fst (mb_chunks b), snd (mb_chunks b) + 1)\<rparr>))"
  by (simp add: link_chunk_def Let_def builder_remaining_def)

lemma link_chunk_long:
  assumes "builder_remaining b < len" "len < 2 ^ 32"
  shows "link_chunk b len = Inl None"
  using assms by (simp add: link_chunk_def Let_def builder_remaining_def word_less_nat_alt unat_of_nat)

lemma peer_message_remaining:
  assumes "unat (from_be_bytes (take 4 bs) :: u32) + 4 < 2 ^ 32"
  shows "builder_remaining (peer_message bs n) = unat (from_be_bytes (take 4 bs) :: u32) + 4"
  using assms by (simp add: builder_remaining_def peer_message_def unat_word_ariths)

end
