(* ===== verification/Node_Log.thy ===== *)
theory Node_Log
  imports Rust_Strings
begin

text \<open>
  The node log, \<^verbatim>\<open>tezedge-recorder/src/tables/node_log.rs\<close>: log levels with their bit values, and
  the conversion of a syslog message into a stored item, which recognises the format of the Rust
  node by a dot in column 15 and takes any other line as one of the OCaml node. The syslog parser
  is a library: its message is the record \<open>syslog_message\<close>, of which the conversion reads two
  fields. Lines are UTF-8, and the positions are those of bytes: cutting a line within a character panics.
\<close>

section \<open>Levels\<close>

datatype log_level = Trace | Debug | Info | Notice | Warning | Error | Fatal

fun log_level_as_u8 :: "log_level \<Rightarrow> u8" where
  "log_level_as_u8 Trace = push_bit 0 0x1"
| "log_level_as_u8 Debug = push_bit 1 0x1"
| "log_level_as_u8 Info = push_bit 2 0x1"
| "log_level_as_u8 Notice = push_bit 3 0x1"
| "log_level_as_u8 Warning = push_bit 4 0x1"
| "log_level_as_u8 Error = push_bit 5 0x1"
| "log_level_as_u8 Fatal = push_bit 6 0x1"

datatype parse_log_level_error = InvalidName string | InvalidValue u8

definition to_lowercase :: "string \<Rightarrow> string" where
  "to_lowercase =
     map (\<lambda>c. let n = (of_char c :: nat) in if 65 \<le> n \<and> n \<le> 90 then char_of (n + 32) else c)"

definition log_level_from_str :: "string \<Rightarrow> parse_log_level_error + log_level" where
  "log_level_from_str s =
     (let level = to_lowercase s in
      if level = ''trace'' then Inr Trace
      else if level = ''debug'' then Inr Debug
      else if level = ''info'' then Inr Info
      else if level = ''notice'' then Inr Notice
      else if level = ''warn'' \<or> level = ''warning'' then Inr Warning
      else if level = ''error'' then Inr Error
      else if level = ''fatal'' then Inr Fatal
      else Inl (InvalidName level))"

definition log_level_try_from :: "u8 \<Rightarrow> parse_log_level_error + log_level" where
  "log_level_try_from x =
     (if x = log_level_as_u8 Trace then Inr Trace
      else if x = log_level_as_u8 Debug then Inr Debug
      else if x = log_level_as_u8 Info then Inr Info
      else if x = log_level_as_u8 Notice then Inr Notice
      else if x = log_level_as_u8 Warning then Inr Warning
      else if x = log_level_as_u8 Error then Inr Error
      else if x = log_level_as_u8 Fatal then Inr Fatal
      else Inl (InvalidValue x))"

lemma log_level_try_from_as_u8 [simp]: "log_level_try_from (log_level_as_u8 l) = Inr l"
  by (cases l) (simp_all add: log_level_try_from_def)

lemma log_level_try_from_Inr: "log_level_try_from x = Inr l \<longleftrightarrow> x = log_level_as_u8 l"
proof
  assume "log_level_try_from x = Inr l"
  then show "x = log_level_as_u8 l"
    unfolding log_level_try_from_def by (auto split: if_splits)
qed simp

section \<open>Items\<close>

record log_item =
  log_level :: log_level
  log_timestamp :: "128 word"
  log_section :: string
  log_message :: string

record log_item_with_id =
  lid_id :: u64
  lid_level :: log_level
  lid_timestamp :: "128 word"
  lid_section :: string
  lid_message :: string

definition log_with_id :: "log_item \<Rightarrow> u64 \<Rightarrow> log_item_with_id" where
  "log_with_id item i =
     \<lparr>lid_id = i, lid_level = log_level item, lid_timestamp = log_timestamp item,
      lid_section = log_section item, lid_message = log_message item\<rparr>"

text \<open>The timestamp of a syslog message is the \<^verbatim>\<open>i64\<close> nanoseconds of its date.\<close>

record syslog_message =
  sm_timestamp :: "64 word option"
  sm_msg :: string

section \<open>Parsing log lines\<close>

definition is_whitespace :: "char \<Rightarrow> bool" where
  "is_whitespace c \<longleftrightarrow> (let n = (of_char c :: nat) in 9 \<le> n \<and> n \<le> 13 \<or> n = 32)"

text \<open>The length of the character with which the string begins, if it is white space in the sense of Unicode, else 0.\<close>

definition ws_len :: "string \<Rightarrow> nat" where
  "ws_len s =
     (case map of_char s :: nat list of
        [] \<Rightarrow> 0
      | b # r \<Rightarrow>
          if 9 \<le> b \<and> b \<le> 13 \<or> b = 32 then 1
          else (case r of
             [] \<Rightarrow> 0
           | b1 # r1 \<Rightarrow>
               if b = 0xc2 \<and> (b1 = 0x85 \<or> b1 = 0xa0) then 2
               else (case r1 of
                  [] \<Rightarrow> 0
                | b2 # _ \<Rightarrow>
                    if b = 0xe1 \<and> b1 = 0x9a \<and> b2 = 0x80 \<or>
                       b = 0xe2 \<and> b1 = 0x80 \<and> (0x80 \<le> b2 \<and> b2 \<le> 0x8a \<or> b2 = 0xa8 \<or> b2 = 0xa9 \<or> b2 = 0xaf) \<or>
                       b = 0xe2 \<and> b1 = 0x81 \<and> b2 = 0x9f \<or> b = 0xe3 \<and> b1 = 0x80 \<and> b2 = 0x80
                    then 3 else 0)))"

lemma ws_len_Nil [simp]: "ws_len [] = 0"
  by (simp add: ws_len_def)

lemma ws_len_ascii: "(of_char c :: nat) < 128 \<Longrightarrow> ws_len (c # s) = (if is_whitespace c then 1 else 0)"
  by (simp add: ws_len_def is_whitespace_def Let_def split: list.split)

function skip_ws :: "string \<Rightarrow> string" where
  "skip_ws s = (if ws_len s = 0 then s else skip_ws (drop (ws_len s) s))"
  by pat_completeness auto
termination
proof (relation "measure length")
  fix s assume "ws_len s \<noteq> 0"
  then show "(drop (ws_len s) s, s) \<in> measure length" by (cases s) simp_all
qed simp

declare skip_ws.simps [simp del]

fun take_word :: "string \<Rightarrow> string" where
  "take_word [] = []"
| "take_word (c # s) = (if ws_len (c # s) = 0 then c # take_word s else [])"

definition first_word :: "string \<Rightarrow> string option" where
  "first_word s = (case take_word (skip_ws s) of [] \<Rightarrow> None | w \<Rightarrow> Some w)"

fun trim_end :: "string \<Rightarrow> string" where
  "trim_end [] = []"
| "trim_end (c # s) = (if skip_ws (c # s) = [] then [] else c # trim_end s)"

definition trim :: "string \<Rightarrow> string" where
  "trim s = trim_end (skip_ws s)"

fun find_char :: "char \<Rightarrow> string \<Rightarrow> nat option" where
  "find_char c [] = None"
| "find_char c (x # xs) = (if x = c then Some 0 else map_option Suc (find_char c xs))"

definition rust_log_line :: "string \<Rightarrow> panic + (string \<times> string) option" where
  "rust_log_line line =
     and_then (str_from line 20) (\<lambda>level_msg.
     case first_word level_msg of
       None \<Rightarrow> Inr None
     | Some level \<Rightarrow>
         and_then (str_from level_msg (length level + 1)) (\<lambda>msg.
         Inr (Some (level, msg))))"

definition ocaml_log_line :: "string \<Rightarrow> (string \<times> string) option" where
  "ocaml_log_line line =
     (case split_on CHR ''-'' line of
        _ # value # _ \<Rightarrow>
          (case split_on CHR '':'' value of
             _ # msg # _ \<Rightarrow> Some (''info'', trim msg)
           | _ \<Rightarrow> Some (''info'', trim value))
      | _ \<Rightarrow> Some (''info'', trim line))"

definition log_item_of :: "128 word \<Rightarrow> string \<Rightarrow> (string \<times> string) option \<Rightarrow> log_item" where
  "log_item_of timestamp line parsed =
     (case parsed of
        Some (level, message) \<Rightarrow>
          \<lparr>log_level = (case log_level_from_str level of Inl _ \<Rightarrow> Fatal | Inr l \<Rightarrow> l),
           log_timestamp = timestamp, log_section = '''', log_message = message\<rparr>
      | None \<Rightarrow>
          \<lparr>log_level = Fatal, log_timestamp = timestamp, log_section = '''', log_message = line\<rparr>)"

text \<open>\<open>nanos\<close> is the reading of the clock, used when the message carries no date.\<close>

definition log_from_syslog :: "128 word \<Rightarrow> syslog_message \<Rightarrow> panic + log_item" where
  "log_from_syslog nanos msg =
     (let timestamp = (case sm_timestamp msg of Some t \<Rightarrow> scast t | None \<Rightarrow> nanos);
          line = sm_msg msg;
          pos = (case find_char CHR ''.'' line of Some p \<Rightarrow> p | None \<Rightarrow> 0)
      in if pos = 15
         then and_then (rust_log_line line) (\<lambda>r. Inr (log_item_of timestamp line r))
         else Inr (log_item_of timestamp line (ocaml_log_line line)))"

section \<open>Correctness of the parsing\<close>

lemma find_char_append:
  "c \<notin> set xs \<Longrightarrow> find_char c (xs @ c # ys) = Some (length xs)"
  by (induction xs) auto

lemma skip_ws_none: "ws_len s = 0 \<Longrightarrow> skip_ws s = s"
  by (simp add: skip_ws.simps)

lemma take_word_append:
  "is_ascii w \<Longrightarrow> \<forall>c \<in> set w. \<not> is_whitespace c \<Longrightarrow> ws_len s \<noteq> 0 \<or> s = [] \<Longrightarrow> take_word (w @ s) = w"
proof (induction w)
  case Nil
  then show ?case by (cases s) simp_all
qed (simp add: ws_len_ascii)

lemma first_word_append:
  assumes "w \<noteq> []" "is_ascii w" "\<forall>c \<in> set w. \<not> is_whitespace c"
  shows "first_word (w @ CHR '' '' # msg) = Some w"
proof -
  have "ws_len (CHR '' '' # msg) \<noteq> 0" by (simp add: ws_len_ascii is_whitespace_def)
  then have "take_word (w @ CHR '' '' # msg) = w" using take_word_append assms(2,3) by blast
  moreover have "ws_len (w @ CHR '' '' # msg) = 0" using assms by (cases w) (simp_all add: ws_len_ascii)
  ultimately show ?thesis using assms(1) by (simp add: first_word_def skip_ws_none split: list.splits)
qed

text \<open>
  A line of the Rust node is taken apart correctly: a time of 15 bytes without a dot, a dot,
  three digits, a space, a level, a space and the message, which is text of its own, give an item with that level (the worst
  level when the name is unknown), exactly that message, and the date of the syslog message or
  else the clock.
\<close>

definition begins_char :: "string \<Rightarrow> bool" where
  "begins_char s \<longleftrightarrow> (case s of [] \<Rightarrow> True | c # _ \<Rightarrow> (of_char c :: nat) < 128 \<or> 192 \<le> (of_char c :: nat))"

lemma str_from_append: "length s = n \<Longrightarrow> begins_char t \<Longrightarrow> str_from (s @ t) n = Inr t"
  by (cases t) (auto simp: str_from_def is_char_boundary_def begins_char_def)

theorem log_from_syslog_rust:
  assumes "length stamp = 15" "CHR ''.'' \<notin> set stamp" "length millis = 3"
    and "level \<noteq> []" "is_ascii level" "\<forall>c \<in> set level. \<not> is_whitespace c" "begins_char message"
    and "sm_msg m = stamp @ ''.'' @ millis @ '' '' @ level @ '' '' @ message"
  shows "log_from_syslog nanos m =
    Inr \<lparr>log_level = (case log_level_from_str level of Inl _ \<Rightarrow> Fatal | Inr l \<Rightarrow> l),
         log_timestamp = (case sm_timestamp m of Some t \<Rightarrow> scast t | None \<Rightarrow> nanos),
         log_section = '''', log_message = message\<rparr>"
proof -
  have pos: "find_char CHR ''.'' (sm_msg m) = Some 15"
    using assms(1,2,8) find_char_append [of "CHR ''.''" stamp] by simp
  have "begins_char (level @ CHR '' '' # message)" using assms(4,5) by (cases level) (simp_all add: begins_char_def)
  then have "str_from (sm_msg m) 20 = Inr (level @ CHR '' '' # message)"
    using assms(1,3,8) str_from_append [of "stamp @ ''.'' @ millis @ '' ''" 20] by simp
  moreover have "str_from (level @ CHR '' '' # message) (length level + 1) = Inr message"
    using str_from_append [of "level @ '' ''" "length level + 1" message] assms(7) by simp
  ultimately have "rust_log_line (sm_msg m) = Inr (Some (level, message))"
    using assms(4-6) by (simp add: rust_log_line_def first_word_append)
  with pos show ?thesis
    by (simp add: log_from_syslog_def Let_def log_item_of_def)
qed

text \<open>On ASCII text the words are those of the ASCII white space.\<close>

lemma skip_ws_ascii: "is_ascii s \<Longrightarrow> skip_ws s = dropWhile is_whitespace s"
proof (induction s)
  case (Cons c s)
  then show ?case by (subst skip_ws.simps) (simp add: ws_len_ascii)
qed (simp add: skip_ws.simps)

lemma take_word_ascii: "is_ascii s \<Longrightarrow> take_word s = takeWhile (\<lambda>c. \<not> is_whitespace c) s"
  by (induction s) (simp_all add: ws_len_ascii)

lemma first_word_Some_iff:
  assumes "is_ascii s"
  shows "first_word s = Some w \<longleftrightarrow> w \<noteq> [] \<and> w = takeWhile (\<lambda>c. \<not> is_whitespace c) (dropWhile is_whitespace s)"
proof -
  have "is_ascii (dropWhile is_whitespace s)" using assms by (simp add: dropWhile_eq_drop is_ascii_drop)
  then show ?thesis using assms by (auto simp: first_word_def skip_ws_ascii take_word_ascii split: list.splits)
qed

lemma length_takeWhile_eq: "length (takeWhile P xs) = length xs \<longleftrightarrow> (\<forall>x \<in> set xs. P x)"
proof
  assume "length (takeWhile P xs) = length xs"
  then have "takeWhile P xs = xs"
    by (metis takeWhile_eq_take take_all_iff order_refl)
  then show "\<forall>x \<in> set xs. P x" by (simp add: takeWhile_eq_all_conv)
qed (simp add: takeWhile_eq_all_conv [THEN iffD2])

lemma first_word_whole:
  assumes "is_ascii s"
  shows "(\<exists>w. first_word s = Some w \<and> length s < length w + 1) \<longleftrightarrow> s \<noteq> [] \<and> (\<forall>c \<in> set s. \<not> is_whitespace c)"
proof
  assume "\<exists>w. first_word s = Some w \<and> length s < length w + 1"
  then obtain w where w: "w \<noteq> []"
      "w = takeWhile (\<lambda>c. \<not> is_whitespace c) (dropWhile is_whitespace s)" "length s \<le> length w"
    by (auto simp: first_word_Some_iff [OF assms])
  have lw: "length w \<le> length (dropWhile is_whitespace s)" "length (dropWhile is_whitespace s) \<le> length s"
    using w(2) by (simp_all add: length_takeWhile_le length_dropWhile_le)
  have "length (takeWhile is_whitespace s) + length (dropWhile is_whitespace s) = length s"
    by (metis length_append takeWhile_dropWhile_id)
  with lw w(3) have "length (takeWhile is_whitespace s) = 0" by linarith
  then have "takeWhile is_whitespace s = []" by simp
  then have d: "dropWhile is_whitespace s = s"
    by (metis append_Nil takeWhile_dropWhile_id)
  with lw w show "s \<noteq> [] \<and> (\<forall>c \<in> set s. \<not> is_whitespace c)"
    using length_takeWhile_eq [of "\<lambda>c. \<not> is_whitespace c" s] by auto
next
  assume a: "s \<noteq> [] \<and> (\<forall>c \<in> set s. \<not> is_whitespace c)"
  then have "dropWhile is_whitespace s = s" by (cases s) simp_all
  with a have "first_word s = Some s"
    using takeWhile_eq_all_conv [of "\<lambda>c. \<not> is_whitespace c" s, THEN iffD2]
    by (metis first_word_Some_iff [OF assms])
  then show "\<exists>w. first_word s = Some w \<and> length s < length w + 1" by simp
qed

text \<open>
  C36: When the conversion of a syslog message panics. It does exactly when the first dot of the line is at byte 15 and
  one of its two cuts is not at a boundary of characters: byte 20 lies behind the end of the line or within a character, or the byte
  behind as many bytes of the rest as its first word has, plus one, does. On every other line it returns an item.
  For a line of ASCII characters this means that the line is shorter than 20 characters or its text from column 20 on is one word
  that nothing follows.
\<close>

theorem log_from_syslog_panic_iff:
  "((\<exists>p. log_from_syslog nanos m = Inl p) \<longleftrightarrow>
    find_char CHR ''.'' (sm_msg m) = Some 15 \<and>
    (\<not> is_char_boundary (sm_msg m) 20 \<or>
     (\<exists>w. first_word (drop 20 (sm_msg m)) = Some w \<and> \<not> is_char_boundary (drop 20 (sm_msg m)) (length w + 1)))) \<and>
   (is_ascii (sm_msg m) \<longrightarrow>
    ((\<exists>p. log_from_syslog nanos m = Inl p) \<longleftrightarrow>
     find_char CHR ''.'' (sm_msg m) = Some 15 \<and>
     (length (sm_msg m) < 20 \<or>
      drop 20 (sm_msg m) \<noteq> [] \<and> (\<forall>c \<in> set (drop 20 (sm_msg m)). \<not> is_whitespace c))))"
proof -
  let ?l = "sm_msg m"
  have "(\<exists>p. rust_log_line ?l = Inl p) \<longleftrightarrow> \<not> is_char_boundary ?l 20 \<or>
      (\<exists>w. first_word (drop 20 ?l) = Some w \<and> \<not> is_char_boundary (drop 20 ?l) (length w + 1))"
    by (auto simp: rust_log_line_def str_from_def and_then_Inl_iff split: option.splits)
  then have *: "(\<exists>p. log_from_syslog nanos m = Inl p) \<longleftrightarrow> find_char CHR ''.'' ?l = Some 15 \<and> (\<not> is_char_boundary ?l 20 \<or>
      (\<exists>w. first_word (drop 20 ?l) = Some w \<and> \<not> is_char_boundary (drop 20 ?l) (length w + 1)))"
    by (auto simp: log_from_syslog_def Let_def and_then_Inl_iff split: option.splits)
  moreover have "(\<not> is_char_boundary ?l 20 \<or>
      (\<exists>w. first_word (drop 20 ?l) = Some w \<and> \<not> is_char_boundary (drop 20 ?l) (length w + 1))) \<longleftrightarrow>
      length ?l < 20 \<or> drop 20 ?l \<noteq> [] \<and> (\<forall>c \<in> set (drop 20 ?l). \<not> is_whitespace c)" if a: "is_ascii ?l"
    unfolding first_word_whole [OF is_ascii_drop [OF a], symmetric] ascii_boundary [OF a] ascii_boundary [OF is_ascii_drop [OF a]]
    by (auto simp: not_le)
  ultimately show ?thesis by blast
qed

definition sample_line :: syslog_message where
  "sample_line = \<lparr>sm_timestamp = None, sm_msg = ''Jun 24 08:32:37.026 INFO Blacklisting IP''\<rparr>"

theorem log_from_syslog_rust_witness:
  "log_from_syslog 7 sample_line =
    Inr \<lparr>log_level = (case log_level_from_str ''INFO'' of Inl _ \<Rightarrow> Fatal | Inr l \<Rightarrow> l),
         log_timestamp = (case sm_timestamp sample_line of Some t \<Rightarrow> scast t | None \<Rightarrow> 7),
         log_section = '''', log_message = ''Blacklisting IP''\<rparr>"
  by (rule log_from_syslog_rust [of "''Jun 24 08:32:37''" "''026''"])
    (simp_all add: sample_line_def is_whitespace_def begins_char_def)

text \<open>A line with a two-byte character across byte 20.\<close>

definition broken_line :: syslog_message where
  "broken_line = \<lparr>sm_timestamp = None, sm_msg = ''Jun 24 08:32:37.026'' @ [CHR 0xc3, CHR 0xa9] @ '' INFO x''\<rparr>"

theorem log_from_syslog_panic_iff_witness:
  "\<not> (\<exists>p. log_from_syslog 7 sample_line = Inl p) \<and> (\<exists>p. log_from_syslog 7 broken_line = Inl p)"
proof -
  have "is_ascii (sm_msg sample_line)" "\<not> length (sm_msg sample_line) < 20" "is_whitespace CHR '' ''" "CHR '' '' \<in> set (drop 20 (sm_msg sample_line))"
    by (simp_all add: sample_line_def is_whitespace_def)
  moreover have "find_char CHR ''.'' (sm_msg broken_line) = Some 15" "\<not> is_char_boundary (sm_msg broken_line) 20"
    by (simp_all add: broken_line_def is_char_boundary_def)
  ultimately show ?thesis using log_from_syslog_panic_iff [of 7 sample_line] log_from_syslog_panic_iff [of 7 broken_line] by blast
qed

end
