(* ===== verification/Message_Parser.thy ===== *)
theory Message_Parser
  imports Chunk_Recorder Message_Table Node_Log
begin

text \<open>
  The message parser, \<^verbatim>\<open>tezedge-recorder/src/processor/message_parser.rs\<close>, which turns the chunks of
  one direction into messages. The database it shares with the other direction is the list of the
  calls made on it, in order (trait \<^verbatim>\<open>Database\<close>, \<^verbatim>\<open>database/mod.rs\<close>): the state of the handler is the
  parser together with that list.
\<close>

section \<open>The calls on the database\<close>

datatype db_op =
    StoreConnection connection_item
  | UpdateConnection connection_item
  | StoreChunk chunk_item
  | StoreMessage message_item
  | StoreLog log_item

section \<open>The parser\<close>

record message_parser =
  mp_builder :: "message_builder option"
  mp_error :: bool

definition message_parser_new :: message_parser where
  "message_parser_new = \<lparr>mp_builder = None, mp_error = False\<rparr>"

definition too_small :: "message_parser \<Rightarrow> chunk_item \<Rightarrow> bool" where
  "too_small mp chunk =
     (let counter = ci_counter chunk; len = length (ci_plain chunk) in
      if counter = 0 then len < 82
      else if counter = 1 then len < 2
      else if counter = 2 then len = 0
      else if mp_builder mp \<noteq> None then len = 0
      else len < 6)"

text \<open>
  With a builder at hand the connection may get a comment; the builder is kept in every case. With
  none, the first six bytes of the plain text start one.
\<close>

definition suspicious :: "chunk_item \<Rightarrow> bool" where
  "suspicious chunk \<longleftrightarrow>
     \<not> length (ci_bytes chunk) < 6 \<and>
     (let bytes = take 6 (ci_bytes chunk);
          len = (from_be_bytes (take 4 bytes) :: u32);
          tag = from_be_bytes (drop 4 bytes)
      in valid_tag (from_tag tag) \<and> len < push_bit 24 1)"

definition take_builder ::
    "message_parser \<Rightarrow> chunk_item \<Rightarrow> connection_item \<Rightarrow> panic + (message_builder \<times> connection_item)" where
  "take_builder mp chunk cn =
     (case mp_builder mp of
        Some b \<Rightarrow>
          Inr (b, if suspicious chunk
                  then add_comment (\<lambda>c. c\<lparr>incoming_suspicious := Some (ci_counter chunk)\<rparr>) cn
                  else cn)
      | None \<Rightarrow>
          and_then (slice (ci_plain chunk) 0 6) (\<lambda>six_bytes.
          Inr (peer_message six_bytes (ci_counter chunk), cn)))"

definition mp_handle_chunk ::
    "clock \<Rightarrow> chunk_item \<Rightarrow> connection_item \<Rightarrow> message_parser \<times> db_op list
     \<Rightarrow> panic + (connection_item \<times> message_parser \<times> db_op list)" where
  "mp_handle_chunk clk chunk cn h =
     (let mp = fst h; ops = snd h; sender = ci_sender chunk; counter = ci_counter chunk;
          millis = clk_millis clk sender counter
      in if mp_error mp \<or> too_small mp chunk then
           Inr (cn, mp\<lparr>mp_error := True\<rparr>,
                if ci_bytes chunk \<noteq> [] then ops @ [StoreChunk chunk] else ops)
         else if counter = 0 then
           Inr (cn, mp, ops @ [StoreChunk chunk, StoreMessage (build millis connection_message sender cn)])
         else if counter = 1 then
           Inr (cn, mp, ops @ [StoreChunk chunk, StoreMessage (build millis metadata_message sender cn)])
         else if counter = 2 then
           Inr (cn, mp, ops @ [StoreChunk chunk, StoreMessage (build millis acknowledge_message sender cn)])
         else
           and_then (take_builder mp chunk cn) (\<lambda>(b, cn').
           case link_chunk b (length (ci_plain chunk)) of
             Inr full \<Rightarrow>
               Inr (cn', mp\<lparr>mp_builder := None\<rparr>,
                    ops @ [StoreChunk chunk, StoreMessage (build millis full sender cn')])
           | Inl b' \<Rightarrow> Inr (cn', mp\<lparr>mp_builder := b'\<rparr>, ops @ [StoreChunk chunk])))"

definition mp_update_cn ::
    "connection_item \<Rightarrow> message_parser \<times> db_op list \<Rightarrow> message_parser \<times> db_op list" where
  "mp_update_cn cn h = (fst h, snd h @ [UpdateConnection cn])"

definition mp_handler :: "clock \<Rightarrow> (message_parser \<times> db_op list) chunk_handler" where
  "mp_handler clk = \<lparr>ch_handle_chunk = mp_handle_chunk clk, ch_update_cn = mp_update_cn\<rparr>"

section \<open>The parser records every chunk\<close>

fun stored_chunks :: "db_op list \<Rightarrow> chunk_item list" where
  "stored_chunks [] = []"
| "stored_chunks (StoreChunk c # ops) = c # stored_chunks ops"
| "stored_chunks (_ # ops) = stored_chunks ops"

fun stored_messages :: "db_op list \<Rightarrow> message_item list" where
  "stored_messages [] = []"
| "stored_messages (StoreMessage m # ops) = m # stored_messages ops"
| "stored_messages (_ # ops) = stored_messages ops"

lemma stored_chunks_append [simp]: "stored_chunks (xs @ ys) = stored_chunks xs @ stored_chunks ys"
  by (induction xs rule: stored_chunks.induct) simp_all

lemma stored_messages_append [simp]:
  "stored_messages (xs @ ys) = stored_messages xs @ stored_messages ys"
  by (induction xs rule: stored_messages.induct) simp_all

lemma take_builder_total:
  assumes "\<not> too_small mp chunk" "ci_counter chunk \<notin> {0, 1, 2}"
  shows "\<exists>b cn'. take_builder mp chunk cn = Inr (b, cn') \<and> same_but_suspicious cn cn' \<and>
    connection_key_of cn' = connection_key_of cn"
  using assms
  by (auto simp: take_builder_def too_small_def Let_def slice_def same_but_suspicious_def
      split: option.splits if_splits intro: same_but_suspicious_refl [unfolded same_but_suspicious_def])

lemma mp_handle_chunk_stores:
  assumes "ci_bytes chunk \<noteq> []"
  shows "\<exists>cn' h'. mp_handle_chunk clk chunk cn h = Inr (cn', h') \<and>
    stored_chunks (snd h') = stored_chunks (snd h) @ [chunk] \<and> same_but_suspicious cn cn'"
proof (cases "mp_error (fst h) \<or> too_small (fst h) chunk \<or> ci_counter chunk \<in> {0, 1, 2}")
  case True
  then show ?thesis
    using assms by (auto simp: mp_handle_chunk_def Let_def)
next
  case False
  then obtain b cn' where "take_builder (fst h) chunk cn = Inr (b, cn')" "same_but_suspicious cn cn'"
    using take_builder_total by blast
  with False show ?thesis
    by (auto simp: mp_handle_chunk_def Let_def split: sum.splits)
qed

interpretation mp: chunk_recorder "mp_handler clk" "\<lambda>h. stored_chunks (snd h)"
proof unfold_locales
  fix c :: chunk_item and cn :: connection_item and h :: "message_parser \<times> db_op list"
  assume "ci_bytes c \<noteq> []"
  from mp_handle_chunk_stores [OF this, of clk cn h]
  show "\<exists>cn' h'. ch_handle_chunk (mp_handler clk) c cn h = Inr (cn', h') \<and>
      stored_chunks (snd h') = stored_chunks (snd h) @ [c] \<and> same_but_suspicious cn cn'"
    by (simp only: mp_handler_def chunk_handler.simps)
qed (simp add: mp_handler_def mp_update_cn_def)

section \<open>The parser assembles messages\<close>

fun handle_chunks ::
    "clock \<Rightarrow> chunk_item list \<Rightarrow> connection_item \<Rightarrow> message_parser \<times> db_op list
     \<Rightarrow> panic + (connection_item \<times> message_parser \<times> db_op list)" where
  "handle_chunks clk [] cn h = Inr (cn, h)"
| "handle_chunks clk (c # cs) cn h =
     and_then (mp_handle_chunk clk c cn h) (\<lambda>(cn', h'). handle_chunks clk cs cn' h')"

lemma handle_chunks_append:
  "handle_chunks clk (cs @ ds) cn h =
   and_then (handle_chunks clk cs cn h) (\<lambda>(cn', h'). handle_chunks clk ds cn' h')"
  by (induction cs arbitrary: cn h)
    (auto simp: and_then_assoc intro!: and_then_cong split: prod.splits)

text \<open>
  Chunks that carry one peer message: numbered from \<open>n\<close> on, none empty, the first with the whole
  header, and as many bytes in all as the header says.
\<close>

definition numbered :: "u64 \<Rightarrow> chunk_item list \<Rightarrow> bool" where
  "numbered n cs \<longleftrightarrow> (\<forall>i < length cs. ci_counter (cs ! i) = n + of_nat i)"

definition header_len :: "bytes \<Rightarrow> nat" where
  "header_len p = unat (from_be_bytes (take 4 p) :: u32) + 4"

definition peer_chunks :: "sender \<Rightarrow> u64 \<Rightarrow> chunk_item list \<Rightarrow> bool" where
  "peer_chunks sd n cs \<longleftrightarrow>
     cs \<noteq> [] \<and> numbered n cs \<and> 3 \<le> unat n \<and> unat n + length cs < 2 ^ 64 \<and>
     list_all (\<lambda>c. ci_plain c \<noteq> [] \<and> ci_sender c = sd) cs \<and>
     6 \<le> length (ci_plain (hd cs)) \<and>
     sum_list (map (\<lambda>c. length (ci_plain c)) cs) = header_len (ci_plain (hd cs)) \<and>
     header_len (ci_plain (hd cs)) < 2 ^ 32"

definition peer_item :: "clock \<Rightarrow> connection_item \<Rightarrow> sender \<Rightarrow> u64 \<Rightarrow> chunk_item list \<Rightarrow> message_item" where
  "peer_item clk cn sd n cs =
     build (clk_millis clk sd (n + of_nat (length cs) - 1))
       (MessageBuilderFull \<lparr>mb_ty = Ty_P2p (from_tag (from_be_bytes (sub (ci_plain (hd cs)) 4 6))),
          mb_length = 0, mb_chunks = (n, n + of_nat (length cs))\<rparr>) sd cn"

lemma numbered_Cons: "numbered n (c # cs) \<longleftrightarrow> ci_counter c = n \<and> numbered (n + 1) cs"
proof
  assume a: "numbered n (c # cs)"
  then have "ci_counter (cs ! i) = n + 1 + of_nat i" if "i < length cs" for i
    using that unfolding numbered_def by (metis Suc_less_eq add.assoc length_Cons nth_Cons_Suc of_nat_Suc)
  moreover have "ci_counter c = n" using a by (auto simp: numbered_def dest: spec [of _ 0])
  ultimately show "ci_counter c = n \<and> numbered (n + 1) cs" by (simp add: numbered_def)
next
  assume "ci_counter c = n \<and> numbered (n + 1) cs"
  then show "numbered n (c # cs)"
    by (auto simp: numbered_def nth_Cons add.assoc split: nat.splits)
qed

lemma build_same: "same_but_suspicious cn cn' \<Longrightarrow> build t full sd cn' = build t full sd cn"
  by (cases full) (auto simp: same_but_suspicious_def add_comment_def)

declare build.simps [simp del]

lemma counter_ge_3: "3 \<le> unat (n :: u64) \<Longrightarrow> n \<noteq> 0 \<and> n \<noteq> 1 \<and> n \<noteq> 2"
  by auto

lemma unat_suc: "unat (n :: u64) + 1 < 2 ^ 64 \<Longrightarrow> unat (n + 1) = unat n + 1"
  by (simp add: unat_word_ariths)

text \<open>The tail of a message, with a builder that lacks exactly its bytes.\<close>

lemma handle_chunks_tail:
  assumes "cs \<noteq> []" "numbered n cs" "3 \<le> unat n" "unat n + length cs < 2 ^ 64"
    and "list_all (\<lambda>c. ci_plain c \<noteq> [] \<and> ci_sender c = sd) cs"
    and "sum_list (map (\<lambda>c. length (ci_plain c)) cs) = builder_remaining b"
    and "snd (mb_chunks b) = n"
  shows "\<exists>cn' ops'. handle_chunks clk cs cn (\<lparr>mp_builder = Some b, mp_error = False\<rparr>, ops) =
      Inr (cn', \<lparr>mp_builder = None, mp_error = False\<rparr>, ops') \<and>
    stored_messages ops' = stored_messages ops @
      [build (clk_millis clk sd (n + of_nat (length cs) - 1)) (MessageBuilderFull
         (b\<lparr>mb_length := 0, mb_chunks := (fst (mb_chunks b), n + of_nat (length cs))\<rparr>)) sd cn] \<and>
    same_but_suspicious cn cn'"
  using assms
proof (induction cs arbitrary: n b cn ops)
  case (Cons c cs)
  let ?mp = "\<lparr>mp_builder = Some b, mp_error = False\<rparr>"
  let ?len = "length (ci_plain c)"
  have c: "ci_counter c = n" "ci_sender c = sd" "ci_plain c \<noteq> []" "numbered (n + 1) cs"
    and n: "n \<noteq> 0 \<and> n \<noteq> 1 \<and> n \<noteq> 2"
    using Cons.prems counter_ge_3 by (auto simp: numbered_Cons)
  have small: "\<not> too_small ?mp c" using c n by (simp add: too_small_def)
  obtain cn1 where tb: "take_builder ?mp c cn = Inr (b, cn1)" "same_but_suspicious cn cn1"
    using take_builder_total [OF small, of cn] c n by (auto simp: take_builder_def)
  show ?case
  proof (cases "cs = []")
    case True
    then have "?len = builder_remaining b" using Cons.prems by simp
    from link_chunk_exact [OF this] show ?thesis
      using True Cons.prems(7) small c n tb
      by (auto simp: mp_handle_chunk_def Let_def build_same)
  next
    case False
    then have rest: "0 < sum_list (map (\<lambda>c. length (ci_plain c)) cs)"
      using Cons.prems(5) by (cases cs) auto
    have lt: "0 < ?len" "?len < builder_remaining b"
      using Cons.prems(6) c(3) rest by auto
    let ?b = "b\<lparr>mb_length := mb_length b - word_of_nat ?len,
                 mb_chunks := (fst (mb_chunks b), snd (mb_chunks b) + 1)\<rparr>"
    note link = link_chunk_short [OF lt]
    have step: "mp_handle_chunk clk c cn (?mp, ops) =
        Inr (cn1, \<lparr>mp_builder = Some ?b, mp_error = False\<rparr>, ops @ [StoreChunk c])"
      using small c n tb link by (simp add: mp_handle_chunk_def Let_def)
    have pre: "3 \<le> unat (n + 1)" "unat (n + 1) + length cs < 2 ^ 64"
      "list_all (\<lambda>c. ci_plain c \<noteq> [] \<and> ci_sender c = sd) cs"
      "sum_list (map (\<lambda>c. length (ci_plain c)) cs) = builder_remaining ?b"
      "snd (mb_chunks ?b) = n + 1"
      using Cons.prems link unat_suc [of n] by auto
    obtain cn' ops' where ih: "handle_chunks clk cs cn1
          (\<lparr>mp_builder = Some ?b, mp_error = False\<rparr>, ops @ [StoreChunk c]) =
        Inr (cn', \<lparr>mp_builder = None, mp_error = False\<rparr>, ops')"
      "stored_messages ops' = stored_messages (ops @ [StoreChunk c]) @
        [build (clk_millis clk sd (n + 1 + of_nat (length cs) - 1)) (MessageBuilderFull
         (?b\<lparr>mb_length := 0, mb_chunks := (fst (mb_chunks ?b), n + 1 + of_nat (length cs))\<rparr>)) sd cn1]"
      "same_but_suspicious cn1 cn'"
      using Cons.IH [OF False c(4) pre, of cn1 "ops @ [StoreChunk c]"] by (elim exE conjE) (rule that)
    show ?thesis
      using step ih tb(2)
      by (auto simp: build_same [OF tb(2)] add.assoc intro: same_but_suspicious_trans)
  qed
qed simp

lemma handle_chunks_peer:
  assumes "peer_chunks sd n cs"
  shows "\<exists>cn' ops'. handle_chunks clk cs cn (message_parser_new, ops) =
      Inr (cn', message_parser_new, ops') \<and>
    stored_messages ops' = stored_messages ops @ [peer_item clk cn sd n cs] \<and>
    same_but_suspicious cn cn'"
proof -
  obtain c ds where cs: "cs = c # ds" using assms by (cases cs) (auto simp: peer_chunks_def)
  let ?p = "ci_plain c"
  let ?b = "peer_message (take 6 ?p) n"
  have c: "ci_counter c = n" "ci_sender c = sd" "6 \<le> length ?p" "numbered (n + 1) ds"
    and n: "3 \<le> unat n" "n \<noteq> 0 \<and> n \<noteq> 1 \<and> n \<noteq> 2" "unat n + length cs < 2 ^ 64"
    and ds: "list_all (\<lambda>c. ci_plain c \<noteq> [] \<and> ci_sender c = sd) ds"
    and total: "length ?p + sum_list (map (\<lambda>c. length (ci_plain c)) ds) = header_len ?p"
      "header_len ?p < 2 ^ 32"
    using assms counter_ge_3 by (auto simp: peer_chunks_def cs numbered_Cons)
  have rem: "builder_remaining ?b = header_len ?p"
    using total(2) peer_message_remaining [of "take 6 ?p" n] by (simp add: header_len_def)
  have b: "mb_ty ?b = Ty_P2p (from_tag (from_be_bytes (sub ?p 4 6)))" "mb_chunks ?b = (n, n)"
    by (simp_all add: peer_message_def sub_def drop_take)
  have small: "\<not> too_small message_parser_new c"
    using c n by (simp add: too_small_def message_parser_new_def)
  have tb: "take_builder message_parser_new c cn = Inr (?b, cn)"
    using c by (simp add: take_builder_def message_parser_new_def slice_def sub_zero)
  have full: "?b\<lparr>mb_length := 0, mb_chunks := (n, m)\<rparr> =
      \<lparr>mb_ty = Ty_P2p (from_tag (from_be_bytes (sub ?p 4 6))), mb_length = 0, mb_chunks = (n, m)\<rparr>" for m
    using b by (cases ?b) simp
  show ?thesis
  proof (cases "ds = []")
    case True
    then have "length ?p = builder_remaining ?b" using total rem by simp
    from link_chunk_exact [OF this] show ?thesis
      using True small c n tb full [of "n + 1"] b
      by (simp add: cs mp_handle_chunk_def Let_def message_parser_new_def peer_item_def)
  next
    case False
    have "0 < sum_list (map (\<lambda>c. length (ci_plain c)) ds)"
      using False ds by (cases ds) auto
    then have lt: "0 < length ?p" "length ?p < builder_remaining ?b"
      using total rem c(3) by auto
    let ?b' = "?b\<lparr>mb_length := mb_length ?b - word_of_nat (length ?p), mb_chunks := (n, n + 1)\<rparr>"
    have link: "link_chunk ?b (length ?p) = Inl (Some ?b')"
        "builder_remaining ?b' = builder_remaining ?b - length ?p"
      using link_chunk_short [OF lt] b by simp_all
    have step: "mp_handle_chunk clk c cn (message_parser_new, ops) =
        Inr (cn, \<lparr>mp_builder = Some ?b', mp_error = False\<rparr>, ops @ [StoreChunk c])"
      using small c n tb link by (simp add: mp_handle_chunk_def Let_def message_parser_new_def)
    have pre: "3 \<le> unat (n + 1)" "unat (n + 1) + length ds < 2 ^ 64"
      "sum_list (map (\<lambda>c. length (ci_plain c)) ds) = builder_remaining ?b'"
      "snd (mb_chunks ?b') = n + 1"
      using n cs unat_suc [of n] link(2) rem total(1) by auto
    obtain cn' ops' where tl: "handle_chunks clk ds cn
          (\<lparr>mp_builder = Some ?b', mp_error = False\<rparr>, ops @ [StoreChunk c]) =
        Inr (cn', \<lparr>mp_builder = None, mp_error = False\<rparr>, ops')"
      "stored_messages ops' = stored_messages (ops @ [StoreChunk c]) @
        [build (clk_millis clk sd (n + 1 + of_nat (length ds) - 1)) (MessageBuilderFull
         (?b'\<lparr>mb_length := 0, mb_chunks := (fst (mb_chunks ?b'), n + 1 + of_nat (length ds))\<rparr>)) sd cn]"
      "same_but_suspicious cn cn'"
      using handle_chunks_tail [OF False c(4) pre(1,2) ds pre(3,4), of clk cn "ops @ [StoreChunk c]"]
      by (elim exE conjE) (rule that)
    have "n + 1 + of_nat (length ds) = n + of_nat (length cs)" by (simp add: cs)
    with tl step full [of "n + 1 + of_nat (length ds)"] show ?thesis
      by (simp add: cs peer_item_def message_parser_new_def)
  qed
qed

text \<open>A stream of peer messages: each is recorded once, with the range of its own chunks.\<close>

fun peer_stream :: "sender \<Rightarrow> u64 \<Rightarrow> chunk_item list list \<Rightarrow> bool" where
  "peer_stream sd n [] = True"
| "peer_stream sd n (cs # css) = (peer_chunks sd n cs \<and> peer_stream sd (n + of_nat (length cs)) css)"

fun peer_items ::
    "clock \<Rightarrow> connection_item \<Rightarrow> sender \<Rightarrow> u64 \<Rightarrow> chunk_item list list \<Rightarrow> message_item list" where
  "peer_items clk cn sd n [] = []"
| "peer_items clk cn sd n (cs # css) =
     peer_item clk cn sd n cs # peer_items clk cn sd (n + of_nat (length cs)) css"

lemma peer_items_same: "same_but_suspicious cn cn' \<Longrightarrow> peer_items clk cn' sd n css = peer_items clk cn sd n css"
  by (induction css arbitrary: n) (simp_all add: peer_item_def build_same)

text \<open>
  C10: Messages are assembled from chunks. When the chunks after the acknowledgement carry peer
  messages, each starting in a chunk of its own with the four bytes of its length and the two of
  its tag and spread over any number of chunks, the parser stores for each message exactly one
  item, with the kind of its tag and the range of its own chunks, in order, and it ends ready for
  the next message.
\<close>

theorem handle_chunks_stream:
  assumes "peer_stream sd n css"
  shows "\<exists>cn' ops'. handle_chunks clk (concat css) cn (message_parser_new, ops) =
      Inr (cn', message_parser_new, ops') \<and>
    stored_messages ops' = stored_messages ops @ peer_items clk cn sd n css \<and>
    same_but_suspicious cn cn'"
  using assms
proof (induction css arbitrary: n cn ops)
  case (Cons cs css)
  then obtain cn1 ops1 where 1: "handle_chunks clk cs cn (message_parser_new, ops) =
        Inr (cn1, message_parser_new, ops1)"
      "stored_messages ops1 = stored_messages ops @ [peer_item clk cn sd n cs]"
      "same_but_suspicious cn cn1"
    using handle_chunks_peer [of sd n cs clk cn ops] by auto
  have "peer_stream sd (n + of_nat (length cs)) css" using Cons.prems by simp
  from Cons.IH [OF this, of cn1 ops1] obtain cn2 ops2 where 2: "handle_chunks clk (concat css) cn1 (message_parser_new, ops1) =
        Inr (cn2, message_parser_new, ops2)"
      "stored_messages ops2 = stored_messages ops1 @ peer_items clk cn1 sd (n + of_nat (length cs)) css"
      "same_but_suspicious cn1 cn2"
    by (elim exE conjE) (rule that)
  show ?case
    using 1 2 by (auto simp: handle_chunks_append peer_items_same [OF 1(3)]
        intro: same_but_suspicious_trans)
qed simp

text \<open>
  The keys of the chunks that a stored message enumerates are the keys of the chunks it was
  assembled from, so its bytes can be fetched again.
\<close>

theorem message_chunks_peer_item:
  assumes "peer_chunks sd n cs" "list_all (\<lambda>c. ci_cn_id c = connection_key_of cn) cs"
  shows "message_chunks (peer_item clk cn sd n cs) = map (\<lambda>c. fst (chunk_split c)) cs"
proof (rule nth_equalityI)
  have u: "unat (n + of_nat (length cs)) = unat n + length cs"
    using assms(1) by (simp add: peer_chunks_def unat_word_ariths unat_of_nat)
  then show "length (message_chunks (peer_item clk cn sd n cs)) = length (map (\<lambda>c. fst (chunk_split c)) cs)"
    by (simp add: peer_item_def message_chunks_builder)
  fix i assume "i < length (message_chunks (peer_item clk cn sd n cs))"
  then have i: "i < length cs" using u by (simp add: peer_item_def message_chunks_builder)
  then have "ci_cn_id (cs ! i) = connection_key_of cn" "ci_sender (cs ! i) = sd"
      "ci_counter (cs ! i) = n + of_nat i"
    using assms by (auto simp: peer_chunks_def numbered_def list_all_length)
  with i u show "message_chunks (peer_item clk cn sd n cs) ! i = map (\<lambda>c. fst (chunk_split c)) cs ! i"
    by (simp add: peer_item_def message_chunks_builder chunk_split_def)
qed

definition sample_chunk :: "u64 \<Rightarrow> bytes \<Rightarrow> chunk_item" where
  "sample_chunk n plain =
     chunk_new 0 (connection_key_of sample_connection) Sender_Remote n (0 # 0 # plain) plain"

text \<open>A message of 6 + 3 bytes in two chunks and one of 6 bytes in one.\<close>

definition sample_stream :: "chunk_item list list" where
  "sample_stream = [[sample_chunk 3 [0, 0, 0, 5, 0, 0x11], sample_chunk 4 [1, 2, 3]],
                    [sample_chunk 5 [0, 0, 0, 2, 0, 0x14]]]"

lemma peer_stream_sample: "peer_stream Sender_Remote 3 sample_stream"
  by (simp add: sample_stream_def sample_chunk_def peer_chunks_def numbered_Cons chunk_new_def
      header_len_def from_be_bytes_def) (simp add: numbered_def)

theorem handle_chunks_stream_witness:
  "\<exists>cn' ops'. handle_chunks sample_clock (concat sample_stream) sample_connection
        (message_parser_new, []) = Inr (cn', message_parser_new, ops') \<and>
    stored_messages ops' = stored_messages [] @
      peer_items sample_clock sample_connection Sender_Remote 3 sample_stream \<and>
    same_but_suspicious sample_connection cn'"
  by (rule handle_chunks_stream) (rule peer_stream_sample)

theorem message_chunks_peer_item_witness:
  "message_chunks (peer_item sample_clock sample_connection Sender_Remote 3 (hd sample_stream)) =
   map (\<lambda>c. fst (chunk_split c)) (hd sample_stream)"
  by (rule message_chunks_peer_item)
    (use peer_stream_sample in \<open>simp_all add: sample_stream_def sample_chunk_def chunk_new_def\<close>)

end
