(* ===== verification/Secondary_Indexes.thy ===== *)
theory Secondary_Indexes
  imports Connection_Table Node_Log
begin

text \<open>
  The secondary indexes, \<^verbatim>\<open>tezedge-recorder/src/tables/secondary_indexes/*.rs\<close>. Each is a set of
  keys, a tag followed by the row number; four of them write the tag over the first byte of the
  big-endian row number, one over the first two. Inside one tag the byte order of the keys is the
  order of the row numbers, which is what the search intersects.
\<close>

section \<open>The index keys\<close>

record timestamp_item =
  ts_timestamp :: u64
  ts_index :: u64

definition timestamp_encode :: "timestamp_item \<Rightarrow> bytes" where
  "timestamp_encode i = to_be_bytes (ts_timestamp i) @ to_be_bytes (ts_index i)"

definition timestamp_decode :: "bytes \<Rightarrow> schema_error + timestamp_item" where
  "timestamp_decode bs =
     (if length bs \<noteq> 16 then Inl DecodeError
      else Inr \<lparr>ts_timestamp = from_be_bytes (take 8 bs), ts_index = from_be_bytes (drop 8 bs)\<rparr>)"

record message_ty_item =
  mty_ty :: message_type
  mty_index :: u64

definition message_ty_encode :: "message_ty_item \<Rightarrow> bytes" where
  "message_ty_encode i = (to_be_bytes (mty_index i))[0 := type_into_int (mty_ty i)]"

definition message_ty_decode :: "bytes \<Rightarrow> schema_error + message_ty_item" where
  "message_ty_decode bs =
     (if length bs \<noteq> 8 then Inl DecodeError
      else Inr \<lparr>mty_ty = type_from_int (bs ! 0), mty_index = from_be_bytes (bs[0 := 0])\<rparr>)"

record message_sender_item =
  ms_sender :: sender
  ms_index :: u64

definition message_sender_encode :: "message_sender_item \<Rightarrow> bytes" where
  "message_sender_encode i =
     (to_be_bytes (ms_index i))[0 := if sender_incoming (ms_sender i) then 0xff else 0x00]"

definition message_sender_decode :: "bytes \<Rightarrow> schema_error + message_sender_item" where
  "message_sender_decode bs =
     (if length bs \<noteq> 8 then Inl DecodeError
      else Inr \<lparr>ms_sender = sender_new (bs ! 0 \<noteq> 0), ms_index = from_be_bytes (bs[0 := 0])\<rparr>)"

record message_initiator_item =
  mi_initiator :: initiator
  mi_index :: u64

definition message_initiator_encode :: "message_initiator_item \<Rightarrow> bytes" where
  "message_initiator_encode i =
     (to_be_bytes (mi_index i))[0 := if initiator_incoming (mi_initiator i) then 0xff else 0x00]"

definition message_initiator_decode :: "bytes \<Rightarrow> schema_error + message_initiator_item" where
  "message_initiator_decode bs =
     (if length bs \<noteq> 8 then Inl DecodeError
      else Inr \<lparr>mi_initiator = initiator_new (bs ! 0 \<noteq> 0), mi_index = from_be_bytes (bs[0 := 0])\<rparr>)"

record message_addr_item =
  ma_addr :: socket_addr
  ma_index :: u64

definition message_addr_encode :: "message_addr_item \<Rightarrow> bytes" where
  "message_addr_encode i =
     ip_octets (sa_ip (ma_addr i)) @ to_le_bytes (sa_port (ma_addr i))
     @ drop 2 (to_be_bytes (ma_index i))"

definition message_addr_decode :: "bytes \<Rightarrow> schema_error + message_addr_item" where
  "message_addr_decode bs =
     (if length bs \<noteq> 24 then Inl DecodeError
      else Inr \<lparr>ma_addr = \<lparr>sa_ip = Ip_V6 (take 16 bs), sa_port = from_le_bytes (sub bs 16 18)\<rparr>,
                ma_index = from_be_bytes ((drop 16 bs)[0 := 0, 1 := 0])\<rparr>)"

record log_level_item =
  ll_lv :: log_level
  ll_index :: u64

text \<open>\<open>InvalidValue\<close> is reported with the text of its \<^verbatim>\<open>Display\<close>.\<close>

fun log_level_error_string :: "parse_log_level_error \<Rightarrow> string" where
  "log_level_error_string (InvalidName s) = ''Invalid log level name '' @ s"
| "log_level_error_string (InvalidValue v) = ''Invalid log level value '' @ show_uint v"

definition log_level_encode :: "log_level_item \<Rightarrow> bytes" where
  "log_level_encode i = (to_be_bytes (ll_index i))[0 := log_level_as_u8 (ll_lv i)]"

definition log_level_decode :: "bytes \<Rightarrow> schema_error + log_level_item" where
  "log_level_decode bs =
     (if length bs \<noteq> 8 then Inl DecodeError
      else and_then (map_err (\<lambda>e. DecodeValidationError (log_level_error_string e))
                       (log_level_try_from (bs ! 0)))
             (\<lambda>lv. Inr \<lparr>ll_lv = lv, ll_index = from_be_bytes (bs[0 := 0])\<rparr>))"

section \<open>The interface of an index with a one-byte tag\<close>

lemma be_bytes_Suc_small: "n < 256 ^ k \<Longrightarrow> be_bytes (Suc k) n = 0 # be_bytes k n"
  by simp

lemma to_be_bytes_56:
  "unat (w :: u64) < 2 ^ 56 \<Longrightarrow> to_be_bytes w = 0 # be_bytes 7 (unat w)"
  using be_bytes_Suc_small [of "unat w" 7] by (simp add: to_be_bytes_def del: be_bytes.simps)

lemma to_be_bytes_48:
  "unat (w :: u64) < 2 ^ 48 \<Longrightarrow> to_be_bytes w = 0 # 0 # be_bytes 6 (unat w)"
  using be_bytes_Suc_small [of "unat w" 6] be_bytes_Suc_small [of "unat w" 7]
  by (simp add: to_be_bytes_def del: be_bytes.simps)

text \<open>
  The four 56 bit indexes differ in the tag only. The locale takes the tag's byte, its inverse, and
  the two projections; its codec is interpreted on each of them.
\<close>

locale tag_index =
  fixes tag :: "'i \<Rightarrow> u8"
    and index :: "'i \<Rightarrow> u64"
    and encode :: "'i \<Rightarrow> bytes"
    and decode :: "bytes \<Rightarrow> schema_error + 'i"
  assumes encode_tag: "encode i = (to_be_bytes (index i))[0 := tag i]"
    and decode_tag: "unat (index i) < 2 ^ 56 \<Longrightarrow> length bs = 8 \<Longrightarrow> bs ! 0 = tag i \<Longrightarrow>
      from_be_bytes (bs[0 := 0]) = index i \<Longrightarrow> decode bs = Inr i"
    and decode_eight: "decode bs = Inr i \<Longrightarrow> length bs = 8"
    and item_eqI: "tag i = tag j \<Longrightarrow> index i = index j \<Longrightarrow> i = j"
begin

definition small :: "'i \<Rightarrow> bool" where
  "small i \<longleftrightarrow> unat (index i) < 2 ^ 56"

definition tag_less :: "'i \<Rightarrow> 'i \<Rightarrow> bool" where
  "tag_less i j \<longleftrightarrow> tag i < tag j \<or> tag i = tag j \<and> index i < index j"

lemma encode_small: "small i \<Longrightarrow> encode i = tag i # be_bytes 7 (unat (index i))"
  by (simp add: encode_tag small_def to_be_bytes_56)

lemma encode_tail: "small i \<Longrightarrow> (encode i)[0 := 0] = to_be_bytes (index i)"
  by (simp add: encode_small small_def to_be_bytes_56)

end

sublocale tag_index \<subseteq> ordered_codec encode decode small 8 tag_less
proof unfold_locales
  fix i j
  assume i: "small i"
  then show "decode (encode i) = Inr i"
    using encode_tail [OF i] by (intro decode_tag) (simp_all add: small_def encode_tag)
  show "length (encode i) = 8" by (simp add: encode_tag)
  assume j: "small j"
  show "lex_less (encode i) (encode j) \<longleftrightarrow> tag_less i j"
    using i j by (simp add: encode_small tag_less_def lex_less_be_val)
      (auto simp: small_def pow256 word_less_nat_alt)
qed (simp add: decode_eight)

section \<open>The indexes are codecs\<close>

lemma from_be_bytes_untagged:
  "length bs = 8 \<Longrightarrow> from_be_bytes (bs[0 := 0]) = (w :: u64) \<Longrightarrow> bs[0 := 0] = to_be_bytes w"
  by (auto simp: to_be_from_be)

interpretation message_ty: tag_index "\<lambda>i. type_into_int (mty_ty i)" mty_index
  message_ty_encode message_ty_decode
  by unfold_locales
    (auto simp: message_ty_encode_def message_ty_decode_def split: if_splits
      dest!: arg_cong [where f = type_from_int])

interpretation message_sender: tag_index
  "\<lambda>i. if sender_incoming (ms_sender i) then 0xff else 0x00" ms_index
  message_sender_encode message_sender_decode
proof unfold_locales
  fix i j :: message_sender_item
  assume "(if sender_incoming (ms_sender i) then 0xff else 0x00 :: u8) =
      (if sender_incoming (ms_sender j) then 0xff else 0x00)" "ms_index i = ms_index j"
  then show "i = j"
    by (cases "ms_sender i"; cases "ms_sender j") simp_all
qed (auto simp: message_sender_encode_def message_sender_decode_def sender_new_def
      split: if_splits intro!: message_sender_item.equality elim: sender_incoming.elims)

interpretation message_initiator: tag_index
  "\<lambda>i. if initiator_incoming (mi_initiator i) then 0xff else 0x00" mi_index
  message_initiator_encode message_initiator_decode
proof unfold_locales
  fix i j :: message_initiator_item
  assume "(if initiator_incoming (mi_initiator i) then 0xff else 0x00 :: u8) =
      (if initiator_incoming (mi_initiator j) then 0xff else 0x00)" "mi_index i = mi_index j"
  then show "i = j"
    by (cases "mi_initiator i"; cases "mi_initiator j") simp_all
qed (auto simp: message_initiator_encode_def message_initiator_decode_def initiator_new_def
      split: if_splits intro!: message_initiator_item.equality elim: initiator_incoming.elims)

interpretation log_level: tag_index "\<lambda>i. log_level_as_u8 (ll_lv i)" ll_index
  log_level_encode log_level_decode
proof unfold_locales
  fix i j :: log_level_item
  assume "log_level_as_u8 (ll_lv i) = log_level_as_u8 (ll_lv j)" "ll_index i = ll_index j"
  then show "i = j"
    by (metis log_level_try_from_as_u8 sum.inject(2) log_level_item.equality unit.exhaust)
qed (auto simp: log_level_encode_def log_level_decode_def map_err_def split: if_splits)

definition timestamp_less :: "timestamp_item \<Rightarrow> timestamp_item \<Rightarrow> bool" where
  "timestamp_less i j \<longleftrightarrow>
     ts_timestamp i < ts_timestamp j \<or> ts_timestamp i = ts_timestamp j \<and> ts_index i < ts_index j"

interpretation timestamp: ordered_codec timestamp_encode timestamp_decode "\<lambda>_. True" 16 timestamp_less
  by unfold_locales
    (auto simp: timestamp_encode_def timestamp_decode_def timestamp_less_def
      lex_less_append_eq_length lex_less_to_be_bytes split: if_splits)

text \<open>The address index keeps 48 bits, and an address in its IPv6 form.\<close>

definition wf_message_addr :: "message_addr_item \<Rightarrow> bool" where
  "wf_message_addr i \<longleftrightarrow> wf_ip (sa_ip (ma_addr i)) \<and> unat (ma_index i) < 2 ^ 48"

lemma message_addr_decode_encode:
  assumes "wf_message_addr i"
  shows "message_addr_decode (message_addr_encode i) = Inr (i\<lparr>ma_addr := addr_v6 (ma_addr i)\<rparr>)"
proof -
  let ?ip = "ip_octets (sa_ip (ma_addr i))" and ?port = "to_le_bytes (sa_port (ma_addr i))"
  let ?e = "message_addr_encode i"
  have l: "length ?ip = 16" "length ?port = 2"
    using assms by (simp_all add: wf_message_addr_def)
  have b: "to_be_bytes (ma_index i) = 0 # 0 # be_bytes 6 (unat (ma_index i))"
    using assms by (simp add: wf_message_addr_def to_be_bytes_48)
  obtain p q where pq: "?port = [p, q]"
    using l(2) by (auto simp only: numeral_2_eq_2 length_Suc_conv length_0_conv)
  have "take 16 ?e = ?ip" "sub ?e 16 18 = ?port" "length ?e = 24"
    using l b by (simp_all add: message_addr_encode_def sub_def)
  moreover have "(drop 16 ?e)[0 := 0, 1 := 0] = to_be_bytes (ma_index i)"
    using l b pq by (simp add: message_addr_encode_def)
  ultimately show ?thesis
    by (simp add: message_addr_decode_def addr_v6_def)
qed

lemma message_addr_prefix:
  assumes "wf_message_addr i" "wf_message_addr j"
  shows "take 18 (message_addr_encode i) = take 18 (message_addr_encode j) \<longleftrightarrow>
    addr_v6 (ma_addr i) = addr_v6 (ma_addr j)"
  using assms by (cases "ma_addr i"; cases "ma_addr j")
    (simp add: message_addr_encode_def wf_message_addr_def addr_v6_def)

section \<open>Properties\<close>

text \<open>
  Every secondary index of the messages and logs with a one-byte tag reads its keys back and
  keeps them ordered by tag and then by row number, for row numbers below 2 to the 56; so a scan
  from a key of one tag meets the rows of that tag in the order of their numbers.
\<close>

theorem tag_indexes_ordered:
  assumes "unat i < 2 ^ 56" and "unat j < 2 ^ 56"
  shows "message_ty_decode (message_ty_encode \<lparr>mty_ty = t, mty_index = i\<rparr>) = Inr \<lparr>mty_ty = t, mty_index = i\<rparr> \<and>
    message_sender_decode (message_sender_encode \<lparr>ms_sender = s, ms_index = i\<rparr>) = Inr \<lparr>ms_sender = s, ms_index = i\<rparr> \<and>
    message_initiator_decode (message_initiator_encode \<lparr>mi_initiator = n, mi_index = i\<rparr>) =
      Inr \<lparr>mi_initiator = n, mi_index = i\<rparr> \<and>
    log_level_decode (log_level_encode \<lparr>ll_lv = l, ll_index = i\<rparr>) = Inr \<lparr>ll_lv = l, ll_index = i\<rparr> \<and>
    (lex_less (message_ty_encode \<lparr>mty_ty = t, mty_index = i\<rparr>) (message_ty_encode \<lparr>mty_ty = t, mty_index = j\<rparr>)
      \<longleftrightarrow> i < j) \<and>
    (lex_less (message_sender_encode \<lparr>ms_sender = s, ms_index = i\<rparr>)
       (message_sender_encode \<lparr>ms_sender = s, ms_index = j\<rparr>) \<longleftrightarrow> i < j) \<and>
    (lex_less (message_initiator_encode \<lparr>mi_initiator = n, mi_index = i\<rparr>)
       (message_initiator_encode \<lparr>mi_initiator = n, mi_index = j\<rparr>) \<longleftrightarrow> i < j) \<and>
    (lex_less (log_level_encode \<lparr>ll_lv = l, ll_index = i\<rparr>) (log_level_encode \<lparr>ll_lv = l, ll_index = j\<rparr>)
      \<longleftrightarrow> i < j)"
  using assms
  by (simp add: message_ty.decode_encode message_ty.encode_less message_sender.decode_encode
      message_sender.encode_less message_initiator.decode_encode message_initiator.encode_less
      log_level.decode_encode log_level.encode_less message_ty.small_def message_sender.small_def
      message_initiator.small_def log_level.small_def message_ty.tag_less_def
      message_sender.tag_less_def message_initiator.tag_less_def log_level.tag_less_def)

theorem tag_indexes_ordered_witness:
  "message_ty_decode (message_ty_encode \<lparr>mty_ty = Ty_Meta, mty_index = 5\<rparr>) = Inr \<lparr>mty_ty = Ty_Meta, mty_index = 5\<rparr> \<and>
   (lex_less (log_level_encode \<lparr>ll_lv = Info, ll_index = 5\<rparr>) (log_level_encode \<lparr>ll_lv = Info, ll_index = 300\<rparr>)
      \<longleftrightarrow> (5 :: u64) < 300)"
  using tag_indexes_ordered [of 5 300 Ty_Meta Sender_Local Initiator_Local Info] by simp

text \<open>
  The address index reads its key back, the address in IPv6 form, for row numbers below 2 to
  the 48, and two of its keys share the 18-byte prefix that the scans use exactly when they are
  for the same address and port.
\<close>

theorem message_addr_index:
  assumes "wf_message_addr i" and "wf_message_addr j"
  shows "message_addr_decode (message_addr_encode i) = Inr (i\<lparr>ma_addr := addr_v6 (ma_addr i)\<rparr>) \<and>
    (take 18 (message_addr_encode i) = take 18 (message_addr_encode j) \<longleftrightarrow>
     addr_v6 (ma_addr i) = addr_v6 (ma_addr j))"
  using message_addr_decode_encode [OF assms(1)] message_addr_prefix [OF assms] by simp

definition sample_addr_item :: message_addr_item where
  "sample_addr_item = \<lparr>ma_addr = \<lparr>sa_ip = Ip_V4 [10, 0, 0, 1], sa_port = 9732\<rparr>, ma_index = 77\<rparr>"

theorem message_addr_index_witness:
  "message_addr_decode (message_addr_encode sample_addr_item) =
     Inr (sample_addr_item\<lparr>ma_addr := addr_v6 (ma_addr sample_addr_item)\<rparr>) \<and>
    (take 18 (message_addr_encode sample_addr_item) = take 18 (message_addr_encode sample_addr_item) \<longleftrightarrow>
     addr_v6 (ma_addr sample_addr_item) = addr_v6 (ma_addr sample_addr_item))"
  by (rule message_addr_index) (simp_all add: wf_message_addr_def sample_addr_item_def)

end
