(* ===== verification/Sorted_Intersect.thy ===== *)
theory Sorted_Intersect
  imports Rust_Prelude "HOL-Library.Multiset"
begin

text \<open>
  The intersection of sorted iterators, \<^verbatim>\<open>tezedge-recorder/src/database/sorted_intersect.rs\<close>, with
  which the database combines the secondary indexes of a query. An iterator is the list of what it
  still yields. The result: the elements that all of them yield, in their order, up to the limit.
\<close>

section \<open>The algorithm\<close>

text \<open>\<^verbatim>\<open>sort_by\<close> of the standard library is a stable sort.\<close>

fun insert_by :: "('a \<Rightarrow> 'a \<Rightarrow> bool) \<Rightarrow> 'a \<Rightarrow> 'a list \<Rightarrow> 'a list" where
  "insert_by le x [] = [x]"
| "insert_by le x (y # ys) = (if le x y then x # y # ys else y # insert_by le x ys)"

definition sort_by :: "('a \<Rightarrow> 'a \<Rightarrow> bool) \<Rightarrow> 'a list \<Rightarrow> 'a list" where
  "sort_by le xs = foldr (insert_by le) xs []"

definition heap_le :: "bool \<Rightarrow> 'a :: linorder \<times> nat \<Rightarrow> 'a \<times> nat \<Rightarrow> bool" where
  "heap_le forward a b \<longleftrightarrow> (if forward then fst b \<le> fst a else fst a \<le> fst b)"

definition heapify :: "('a :: linorder \<times> nat) list \<Rightarrow> bool \<Rightarrow> ('a \<times> nat) list" where
  "heapify heap forward = sort_by (heap_le forward) heap"

fun fill_heap_from ::
    "nat \<Rightarrow> 'a list list \<Rightarrow> ('a \<times> nat) list \<Rightarrow> bool \<times> 'a list list \<times> ('a \<times> nat) list" where
  "fill_heap_from i [] heap = (True, [], heap)"
| "fill_heap_from i ([] # iters) heap = (False, [] # iters, heap)"
| "fill_heap_from i ((value # rest) # iters) heap =
     (let (ok, iters', heap') = fill_heap_from (i + 1) iters (heap @ [(value, i)])
      in (ok, rest # iters', heap'))"

definition fill_heap ::
    "'a :: linorder list list \<Rightarrow> ('a \<times> nat) list \<Rightarrow> bool \<Rightarrow> bool \<times> 'a list list \<times> ('a \<times> nat) list" where
  "fill_heap iters heap forward =
     (let (ok, iters', heap') = fill_heap_from 0 iters heap
      in (ok, iters', if ok then heapify heap' forward else heap'))"

definition is_hit :: "('a \<times> nat) list \<Rightarrow> bool" where
  "is_hit heap =
     (case heap of
        [] \<Rightarrow> False
      | (value, _) # _ \<Rightarrow> snd (fold (\<lambda>(b, _) (a, eq). (b, eq \<and> a = b)) heap (value, True)))"

function intersect_loop ::
    "nat \<Rightarrow> bool \<Rightarrow> 'a :: linorder list list \<Rightarrow> ('a \<times> nat) list \<Rightarrow> 'a list \<Rightarrow> panic + 'a list" where
  "intersect_loop limit forward iters heap ret =
     (if length ret < limit then
        if is_hit heap then
          if heap = [] then Inr ret
          else (let ret' = ret @ [fst (last heap)] in
                case fill_heap iters [] forward of
                  (ok, iters', heap') \<Rightarrow>
                    if ok then intersect_loop limit forward iters' heap' ret' else Inr ret')
        else if heap = [] then Inr ret
        else (let iter_num = snd (last heap) in
              if iter_num < length iters then
                (case iters ! iter_num of
                   [] \<Rightarrow> Inr ret
                 | item # rest \<Rightarrow>
                     intersect_loop limit forward (iters[iter_num := rest])
                       (heapify (butlast heap @ [(item, iter_num)]) forward) ret)
              else Inl Slice_Range)
      else Inr ret)"
  by pat_completeness auto

lemma sum_lengths_update:
  "k < length iters \<Longrightarrow> iters ! k = x # rest \<Longrightarrow>
   sum_list (map length (iters[k := rest])) < sum_list (map length iters)"
  by (induction iters arbitrary: k) (auto split: nat.splits)

termination intersect_loop
  by (relation "measures [\<lambda>(limit, forward, iters, heap, ret). limit - length ret,
        \<lambda>(limit, forward, iters, heap, ret). sum_list (map length iters)]")
    (auto simp: sum_lengths_update)

declare intersect_loop.simps [simp del]

definition sorted_intersect :: "'a :: linorder list list \<Rightarrow> nat \<Rightarrow> bool \<Rightarrow> panic + 'a list" where
  "sorted_intersect iters limit forward =
     (case iters of
        [] \<Rightarrow> Inr []
      | [iter] \<Rightarrow> Inr (take limit iter)
      | _ \<Rightarrow>
          (case fill_heap iters [] forward of
             (ok, iters', heap) \<Rightarrow> if \<not> ok then Inr [] else intersect_loop limit forward iters' heap []))"

section \<open>Specification\<close>

text \<open>The order in which the iterators yield, and the elements that all of them yield.\<close>

definition before :: "bool \<Rightarrow> 'a :: linorder \<Rightarrow> 'a \<Rightarrow> bool" where
  "before forward a b \<longleftrightarrow> (if forward then a < b else b < a)"

definition common :: "'a list list \<Rightarrow> 'a list" where
  "common ls = filter (\<lambda>x. \<forall>l \<in> set ls. x \<in> set l) (hd ls)"

lemma before_linear:
  "before forward a b \<Longrightarrow> before forward b c \<Longrightarrow> before forward a c"
  "\<not> before forward a a"
  "\<not> before forward a b \<Longrightarrow> a \<noteq> b \<Longrightarrow> before forward b a"
  by (auto simp: before_def split: if_splits)

lemma sort_by_set [simp]: "mset (sort_by le xs) = mset xs"
proof -
  have "mset (insert_by le x ys) = mset (x # ys)" for x ys by (induction ys) auto
  then show ?thesis by (induction xs) (auto simp: sort_by_def)
qed

lemma insert_by_sorted:
  assumes "\<And>a b. le a b \<or> le b a" "\<And>a b c. le a b \<Longrightarrow> le b c \<Longrightarrow> le a c" "sorted_wrt le ys"
  shows "sorted_wrt le (insert_by le x ys)"
  using assms(3)
proof (induction ys)
  case (Cons y ys)
  have s: "set (insert_by le x ys) = insert x (set ys)" by (induction ys) auto
  show ?case using Cons assms(1,2) by (auto simp: s)
qed simp

lemma sort_by_sorted:
  assumes "\<And>a b. le a b \<or> le b a" "\<And>a b c. le a b \<Longrightarrow> le b c \<Longrightarrow> le a c"
  shows "sorted_wrt le (sort_by le xs)"
  by (induction xs) (simp_all add: sort_by_def insert_by_sorted [OF assms])

lemma heapify_last:
  assumes "e \<in> set heap"
  shows "\<not> before forward (fst e) (fst (last (heapify heap forward)))"
proof -
  have s: "sorted_wrt (heap_le forward) (heapify heap forward)"
    unfolding heapify_def by (rule sort_by_sorted) (auto simp: heap_le_def)
  have "e \<in> set (heapify heap forward)"
    using assms by (metis heapify_def set_mset_mset sort_by_set)
  with s show ?thesis
    by (cases "heapify heap forward" rule: rev_cases)
      (auto simp: sorted_wrt_append before_def heap_le_def)
qed

lemma mset_heapify [simp]: "mset (heapify heap forward) = mset heap"
  by (simp add: heapify_def)

lemma set_heapify [simp]: "set (heapify heap forward) = set heap"
  by (metis set_mset_mset mset_heapify)

lemma is_hit_iff: "is_hit heap \<longleftrightarrow> heap \<noteq> [] \<and> (\<forall>e \<in> set heap. fst e = fst (hd heap))"
proof -
  have "snd (fold (\<lambda>(b, _) (a, eq). (b, eq \<and> a = b)) heap (v, q)) \<longleftrightarrow> q \<and> (\<forall>e \<in> set heap. fst e = v)" for v q
    by (induction heap arbitrary: v q) force+
  then show ?thesis by (cases heap) (auto simp: is_hit_def)
qed

lemma fill_heap_from_full:
  "\<forall>l \<in> set iters. l \<noteq> [] \<Longrightarrow>
   fill_heap_from i iters heap = (True, map tl iters, heap @ zip (map hd iters) [i..<i + length iters])"
proof (induction i iters heap rule: fill_heap_from.induct)
  case (3 i x rest iters heap)
  have "[i..<i + Suc (length iters)] = i # [Suc i..<Suc i + length iters]"
    by (simp add: upt_rec)
  with 3 show ?case by simp
qed auto

lemma fill_heap_from_empty: "[] \<in> set iters \<Longrightarrow> fst (fill_heap_from i iters heap) = False"
  by (induction i iters heap rule: fill_heap_from.induct) (auto split: prod.splits)

lemma common_empty: "[] \<in> set ls \<Longrightarrow> common ls = []"
  by (force simp: common_def filter_empty_conv)
section \<open>Correctness\<close>

text \<open>
  In the loop the heap holds the last element taken from each iterator, with its number; the one to be
  replaced next comes last.
\<close>

definition heads_in :: "bool \<Rightarrow> 'a :: linorder list \<Rightarrow> ('a \<times> nat) list \<Rightarrow> bool" where
  "heads_in forward heads heap \<longleftrightarrow>
     mset heap = mset (zip heads [0..<length heads]) \<and>
     (\<forall>e \<in> set heap. \<not> before forward (fst e) (fst (last heap)))"

lemma heads_in_heapify:
  "mset heap = mset (zip heads [0..<length heads]) \<Longrightarrow> heads_in forward heads (heapify heap forward)"
  by (auto simp: heads_in_def heapify_last)

lemma heads_in_set:
  assumes "heads_in forward heads heap"
  shows "set heap = {(heads ! i, i) | i. i < length heads}"
proof -
  have "set heap = set (zip heads [0..<length heads])"
    using assms by (metis heads_in_def set_mset_mset)
  then show ?thesis by (auto simp: set_zip)
qed

lemma heads_in_replace:
  assumes "heads_in forward heads heap" "heap \<noteq> []" "last heap = (x, k)" "k < length heads"
  shows "heads_in forward (heads[k := y]) (heapify (butlast heap @ [(y, k)]) forward)"
proof (rule heads_in_heapify)
  have m: "mset heap = mset (zip heads [0..<length heads])" using assms(1) by (simp add: heads_in_def)
  have "(x, k) \<in> set heap" using assms(2,3) by (metis last_in_set)
  then have "x = heads ! k" using heads_in_set [OF assms(1)] by auto
  then have nth: "zip heads [0..<length heads] ! k = (x, k)" using assms(4) by simp
  have z: "zip (heads[k := y]) [0..<length heads] = (zip heads [0..<length heads])[k := (y, k)]"
    using assms(4) by (intro nth_equalityI) (auto simp: nth_list_update)
  have "mset heap = add_mset (x, k) (mset (butlast heap))"
    using assms(2,3) by (metis append_butlast_last_id mset.simps(2) mset_append union_mset_add_mset_right
        mset.simps(1) add.right_neutral)
  then have "mset (butlast heap) = mset heap - {#(x, k)#}" by simp
  then show "mset (butlast heap @ [(y, k)]) = mset (zip (heads[k := y]) [0..<length (heads[k := y])])"
    using assms(4) nth by (simp add: z mset_update m)
qed

text \<open>The lists of which the heap has taken the first elements.\<close>

definition pushed :: "'a list \<Rightarrow> 'a list list \<Rightarrow> 'a list list" where
  "pushed heads iters = map2 (#) heads iters"

lemma pushed_nth: "length heads = length iters \<Longrightarrow> i < length iters \<Longrightarrow> pushed heads iters ! i = heads ! i # iters ! i"
  by (simp add: pushed_def)

lemma length_pushed [simp]: "length heads = length iters \<Longrightarrow> length (pushed heads iters) = length iters"
  by (simp add: pushed_def)

lemma set_pushed:
  "length heads = length iters \<Longrightarrow> set (pushed heads iters) = {heads ! i # iters ! i | i. i < length iters}"
  by (auto simp: pushed_def set_zip)

lemma common_nth:
  "ls \<noteq> [] \<Longrightarrow> common ls = filter (\<lambda>x. \<forall>i < length ls. x \<in> set (ls ! i)) (ls ! 0)"
  by (auto simp: common_def hd_conv_nth all_set_conv_all_nth)

lemma common_hit:
  assumes "length heads = length iters" "iters \<noteq> []"
    and "\<forall>i < length iters. sorted_wrt (before forward) (heads ! i # iters ! i)"
    and "\<forall>i < length iters. heads ! i = v"
  shows "common (pushed heads iters) = v # common iters"
proof -
  let ?P = "\<lambda>x. \<forall>i < length iters. x \<in> set (v # iters ! i)"
  have ne: "0 < length iters" "pushed heads iters \<noteq> []" using assms(1,2) by (auto simp: pushed_def)
  have fresh: "v \<notin> set (iters ! 0)"
    using assms(3,4) ne(1) before_linear(2) by fastforce
  have "filter ?P (iters ! 0) = filter (\<lambda>x. \<forall>i < length iters. x \<in> set (iters ! i)) (iters ! 0)"
    by (rule filter_cong) (use fresh in auto)
  then show ?thesis
    using ne assms by (simp add: common_nth pushed_nth)
qed

lemma common_miss:
  assumes "length heads = length iters" "k < length iters" "j < length iters"
    and "\<forall>i < length iters. sorted_wrt (before forward) (heads ! i # iters ! i)"
    and "before forward (heads ! k) (heads ! j)"
  shows "common (pushed heads iters) = common ((pushed heads iters)[k := iters ! k])"
proof -
  let ?F = "pushed heads iters"
  have out: "heads ! k \<notin> set (heads ! j # iters ! j)"
    using assms(3,4,5) before_linear(1,2) [of forward] by fastforce
  have kj: "k \<noteq> j" using assms(5) before_linear(2) by metis
  let ?P = "\<lambda>ls x. \<forall>i < length iters. x \<in> set (ls ! i)"
  have p: "?P ?F x \<longleftrightarrow> ?P (?F[k := iters ! k]) x" for x
  proof
    assume a: "?P ?F x"
    then have "x \<noteq> heads ! k" using out assms(1,3) by (metis pushed_nth)
    then show "?P (?F[k := iters ! k]) x"
      using a assms(1,2) by (auto simp: nth_list_update pushed_nth)
  next
    assume "?P (?F[k := iters ! k]) x"
    then show "?P ?F x" using assms(1,2) by (auto simp: nth_list_update pushed_nth split: if_splits)
  qed
  have "\<not> ?P ?F (heads ! k)" using out assms(1,3) by (metis pushed_nth)
  then have "filter (?P ?F) (?F ! 0) = filter (?P ?F) (?F[k := iters ! k] ! 0)"
    using assms(1,2) by (cases "k = 0") (auto simp: nth_list_update pushed_nth)
  moreover have "?F \<noteq> []" using assms(1,2) by (auto simp: pushed_def)
  ultimately show ?thesis using assms(1) by (simp add: common_nth p)
qed

lemma pushed_update:
  "length heads = length iters \<Longrightarrow> k < length iters \<Longrightarrow> iters ! k = y # rest \<Longrightarrow>
   (pushed heads iters)[k := iters ! k] = pushed (heads[k := y]) (iters[k := rest])"
  by (rule nth_equalityI) (auto simp: pushed_nth nth_list_update)

lemma fill_heap_full:
  assumes "\<forall>l \<in> set iters. l \<noteq> []"
  obtains heap where "fill_heap iters [] forward = (True, map tl iters, heap)"
    and "heads_in forward (map hd iters) heap" and "iters = pushed (map hd iters) (map tl iters)"
proof
  show "fill_heap iters [] forward = (True, map tl iters, heapify (zip (map hd iters) [0..<length iters]) forward)"
    using assms by (simp add: fill_heap_def fill_heap_from_full)
  show "heads_in forward (map hd iters) (heapify (zip (map hd iters) [0..<length iters]) forward)"
    by (rule heads_in_heapify) simp
  show "iters = pushed (map hd iters) (map tl iters)"
    using assms by (intro nth_equalityI) (simp_all add: pushed_nth)
qed

lemma fill_heap_empty:
  assumes "[] \<in> set iters"
  obtains iters' heap where "fill_heap iters [] forward = (False, iters', heap)"
  using fill_heap_from_empty [OF assms, of 0 "[]"] that
  by (cases "fill_heap_from 0 iters []") (auto simp: fill_heap_def)

lemma sorted_pushed:
  "length heads = length iters \<Longrightarrow> \<forall>l \<in> set (pushed heads iters). sorted_wrt R l \<Longrightarrow>
   i < length iters \<Longrightarrow> sorted_wrt R (heads ! i # iters ! i)"
  by (auto simp: set_pushed)

lemma intersect_loop_common:
  assumes "length heads = length iters" "iters \<noteq> []" "heads_in forward heads heap"
    and "\<forall>l \<in> set (pushed heads iters). sorted_wrt (before forward) l"
  shows "intersect_loop limit forward iters heap ret =
    Inr (ret @ take (limit - length ret) (common (pushed heads iters)))"
  using assms
proof (induction limit forward iters heap ret arbitrary: heads rule: intersect_loop.induct)
  case (1 limit forward iters heap ret)
  note sorted = sorted_pushed [OF "1.prems"(1,4)] and set_heap = heads_in_set [OF "1.prems"(3)]
  have "(heads ! 0, 0) \<in> set heap" using set_heap "1.prems"(1,2) by auto
  then have ne: "heap \<noteq> []" by auto
  consider (full) "limit \<le> length ret" | (hit) "length ret < limit" "is_hit heap"
    | (miss) "length ret < limit" "\<not> is_hit heap" by linarith
  then show ?case
  proof cases
    case full
    then show ?thesis by (subst intersect_loop.simps) simp
  next
    case hit
    let ?v = "fst (last heap)"
    have "\<forall>i < length iters. heads ! i = ?v"
    proof (intro allI impI)
      fix i assume "i < length iters"
      then have "(heads ! i, i) \<in> set heap" using set_heap "1.prems"(1) by auto
      then show "heads ! i = ?v" using hit(2) last_in_set [OF ne] unfolding is_hit_iff by (metis fst_conv)
    qed
    then have c: "common (pushed heads iters) = ?v # common iters"
      using common_hit [OF "1.prems"(1,2)] sorted by blast
    have t: "take (limit - length ret) (x # xs) = x # take (limit - Suc (length ret)) xs" for x :: 'a and xs
      using hit(1) by (cases "limit - length ret") (simp_all add: Suc_diff_Suc [symmetric])
    show ?thesis
    proof (cases "[] \<in> set iters")
      case True
      then obtain iters' heap' where "fill_heap iters [] forward = (False, iters', heap')"
        by (rule fill_heap_empty)
      then show ?thesis
        using hit ne c common_empty [OF True] by (subst intersect_loop.simps) (simp add: Let_def t)
    next
      case False
      then have "\<forall>l \<in> set iters. l \<noteq> []" by auto
      from fill_heap_full [OF this, of forward] obtain heap' where f:
          "fill_heap iters [] forward = (True, map tl iters, heap')"
          "heads_in forward (map hd iters) heap'" "iters = pushed (map hd iters) (map tl iters)" .
      have s: "\<forall>l \<in> set (pushed (map hd iters) (map tl iters)). sorted_wrt (before forward) l"
        using sorted unfolding f(3) [symmetric] by (auto simp: in_set_conv_nth)
      have "intersect_loop limit forward (map tl iters) heap' (ret @ [?v]) =
          Inr ((ret @ [?v]) @ take (limit - length (ret @ [?v])) (common (pushed (map hd iters) (map tl iters))))"
        using "1.IH"(1) [OF hit ne refl f(1) [symmetric] refl, of "map hd iters"] f(2) s "1.prems"(2) by simp
      then show ?thesis
        using hit ne f(1) by (subst intersect_loop.simps) (simp add: Let_def t c f(3) [symmetric])
    qed
  next
    case miss
    obtain x k where l: "last heap = (x, k)" by (cases "last heap")
    then have k: "k < length iters" "x = heads ! k"
      using last_in_set [OF ne] set_heap "1.prems"(1) by auto
    obtain i where i: "i < length iters" "heads ! i \<noteq> x"
    proof -
      obtain e where "e \<in> set heap" "fst e \<noteq> fst (hd heap)" using miss(2) ne by (auto simp: is_hit_iff)
      moreover have "hd heap \<in> set heap" using ne by simp
      ultimately obtain p q where "p < length iters" "q < length iters" "heads ! p \<noteq> heads ! q"
        using set_heap "1.prems"(1) by auto
      then show thesis using that [of p] that [of q] by metis
    qed
    have "(heads ! i, i) \<in> set heap" using i(1) set_heap "1.prems"(1) by auto
    then have "\<not> before forward (heads ! i) (heads ! k)"
      using "1.prems"(3) l k(2) by (force simp: heads_in_def)
    then have "before forward (heads ! k) (heads ! i)" using i(2) k(2) before_linear(3) by metis
    then have c: "common (pushed heads iters) = common ((pushed heads iters)[k := iters ! k])"
      using common_miss [OF "1.prems"(1) k(1) i(1)] sorted by blast
    show ?thesis
    proof (cases "iters ! k")
      case Nil
      then have "[] \<in> set ((pushed heads iters)[k := iters ! k])"
        using k(1) "1.prems"(1) by (simp add: set_update_memI)
      then show ?thesis
        using miss ne l k(1) Nil c common_empty by (subst intersect_loop.simps) (simp add: Let_def)
    next
      case (Cons y rest)
      note u = pushed_update [OF "1.prems"(1) k(1) Cons]
      have "\<forall>l \<in> set (pushed (heads[k := y]) (iters[k := rest])). sorted_wrt (before forward) l"
        using "1.prems"(4) sorted [OF k(1)] unfolding u [symmetric] by (auto dest!: set_update_subset_insert [THEN subsetD])
      then have "intersect_loop limit forward (iters[k := rest]) (heapify (butlast heap @ [(y, k)]) forward) ret =
          Inr (ret @ take (limit - length ret) (common (pushed (heads[k := y]) (iters[k := rest]))))"
        using "1.IH"(2) [OF miss ne refl _ , of y rest "heads[k := y]"] l k(1) Cons "1.prems"(1,2)
          heads_in_replace [OF "1.prems"(3) ne l] by simp
      then show ?thesis
        using miss ne l k(1) Cons c u by (subst intersect_loop.simps) (simp add: Let_def)
    qed
  qed
qed

lemma common_single: "common [l] = l"
  by (simp add: common_def)

lemma sorted_intersect_sorted:
  assumes "\<forall>l \<in> set iters. sorted_wrt (before forward) l" "iters \<noteq> []"
  shows "sorted_intersect iters limit forward = Inr (take limit (common iters))"
proof (cases "\<exists>l. iters = [l]")
  case True
  then show ?thesis by (auto simp: sorted_intersect_def common_single)
next
  case False
  then have eq: "sorted_intersect iters limit forward =
      (case fill_heap iters [] forward of
         (ok, iters', heap) \<Rightarrow> if \<not> ok then Inr [] else intersect_loop limit forward iters' heap [])"
    using assms(2) by (cases iters rule: remdups_adj.cases) (auto simp: sorted_intersect_def)
  show ?thesis
  proof (cases "[] \<in> set iters")
    case True
    then obtain iters' heap where "fill_heap iters [] forward = (False, iters', heap)"
      by (rule fill_heap_empty)
    then show ?thesis using eq common_empty [OF True] by simp
  next
    case False
    then have "\<forall>l \<in> set iters. l \<noteq> []" by auto
    from fill_heap_full [OF this, of forward] obtain heap where f:
        "fill_heap iters [] forward = (True, map tl iters, heap)"
        "heads_in forward (map hd iters) heap" "iters = pushed (map hd iters) (map tl iters)" .
    have "intersect_loop limit forward (map tl iters) heap [] =
        Inr ([] @ take (limit - length ([] :: 'a list)) (common (pushed (map hd iters) (map tl iters))))"
      by (rule intersect_loop_common) (use f assms in simp_all)
    then show ?thesis using eq f(1) f(3) [symmetric] by simp
  qed
qed

text \<open>
  C22: The intersection of sorted iterators is correct and complete: if every iterator yields its
  elements strictly in the direction of the query, the result is the first \<open>limit\<close> of the elements
  that all of them yield, in that direction, whatever the number and the lengths of the iterators; no
  index is out of range.
\<close>

theorem sorted_intersect_correct:
  assumes "\<forall>l \<in> set iters. sorted_wrt (before forward) l" and "iters \<noteq> []"
  shows "sorted_intersect iters limit forward = Inr (take limit (common iters))"
  by (rule sorted_intersect_sorted [OF assms])

theorem sorted_intersect_correct_witness:
  "sorted_intersect [[9, 7, 4, 2 :: u64], [8, 7, 4, 1], [9, 8, 7, 5, 4]] 10 False =
   Inr (take 10 (common [[9, 7, 4, 2 :: u64], [8, 7, 4, 1], [9, 8, 7, 5, 4]]))"
  by (rule sorted_intersect_correct) (simp_all add: before_def)

end
