(* ===== verification/Rocks_Db.thy ===== *)
theory Rocks_Db
  imports Message_Parser Secondary_Indexes Sorted_Intersect
begin

text \<open>
  The database of the recorder, \<^verbatim>\<open>tezedge-recorder/src/database/rocks.rs\<close> and the filters of
  \<^verbatim>\<open>database/mod.rs\<close>: storing with a bound on the number of messages and logs, removing with all
  secondary indexes, and the queries.

  The key-value store is a crate outside the repository and a parameter, \<open>kv\<close>. A key names its
  table by its constructor, as the schema type does in the source. An operation that fails leaves
  the store as it was and returns the error.
\<close>

section \<open>The store\<close>

datatype schema =
    Sc_Connection | Sc_Chunk | Sc_Message | Sc_Log | Sc_Ty | Sc_Sender | Sc_Initiator | Sc_Addr
  | Sc_Timestamp | Sc_Level | Sc_LogTimestamp

datatype row_key =
    Key_Connection connection_key
  | Key_Chunk chunk_key
  | Key_Message u64
  | Key_Log u64
  | Key_Ty message_ty_item
  | Key_Sender message_sender_item
  | Key_Initiator message_initiator_item
  | Key_Addr message_addr_item
  | Key_Timestamp timestamp_item
  | Key_Level log_level_item
  | Key_LogTimestamp timestamp_item

datatype row =
    Row_Connection connection_value
  | Row_Chunk chunk_value
  | Row_Message message_item
  | Row_Log log_item
  | Row_Unit

datatype db_error =
    Rocksdb_Schema schema_error
  | Rocksdb_MissingColumnFamily schema
  | Rocksdb_Other string
  | NoLogIndexer
  | LogIndexer string

text \<open>Where an iterator starts; the flag is true for the forward direction.\<close>

datatype iterator_mode = Iter_Start | Iter_End | Iter_From row_key bool

text \<open>
  \<open>kv_u64\<close> is the encoding of a row number as a key. \<open>kv_iterator\<close> decodes keys and values;
  \<open>kv_prefix\<close> is the raw iterator with \<^verbatim>\<open>prefix_same_as_start\<close>, on bytes.
\<close>

type_synonym kv_item = "(schema_error + row_key) \<times> (schema_error + row)"

record 'st kv =
  kv_u64 :: "u64 \<Rightarrow> bytes"
  kv_put :: "row_key \<Rightarrow> row \<Rightarrow> 'st \<Rightarrow> db_error + 'st"
  kv_get :: "row_key \<Rightarrow> 'st \<Rightarrow> db_error + row option"
  kv_delete :: "row_key \<Rightarrow> 'st \<Rightarrow> db_error + 'st"
  kv_iterator :: "schema \<Rightarrow> iterator_mode \<Rightarrow> 'st \<Rightarrow> db_error + kv_item list"
  kv_cf_handle :: "schema \<Rightarrow> bool"
  kv_prefix :: "schema \<Rightarrow> bytes \<Rightarrow> bool \<Rightarrow> 'st \<Rightarrow> (bytes \<times> bytes) list"

text \<open>
  The other crates the queries call: the decoders of messages, the JSON of a message, the merge of
  descending iterators (\<^verbatim>\<open>kmerge_by\<close>), parsing a socket address, the full text index.
\<close>

record ('st, 'c, 'm, 'a, 'p) db_env =
  de_kv :: "'st kv"
  de_decoders :: "('c, 'm, 'a, 'p) tezos_decoders"
  de_json :: "('c, 'm, 'a, 'p) tezos_message \<Rightarrow> string + string"
  de_kmerge :: "u64 list list \<Rightarrow> u64 list"
  de_parse_addr :: "string \<Rightarrow> string + socket_addr"
  de_search :: "string \<Rightarrow> nat \<Rightarrow> db_error + u64 list"

text \<open>The state of the database object; \<open>db_indexed\<close> are the messages given to the full text index.\<close>

record 'st db =
  db_message_store_limit :: "u64 option"
  db_message_counter :: u64
  db_log_store_limit :: "u64 option"
  db_log_counter :: u64
  db_log_indexer :: bool
  db_indexed :: "(string \<times> u64) list"
  db_inner :: 'st

text \<open>The length of the prefix that a raw iteration keeps to, from the descriptors of the tables.\<close>

fun prefix_len :: "schema \<Rightarrow> nat" where
  "prefix_len Sc_Chunk = 12"
| "prefix_len Sc_Ty = 1"
| "prefix_len Sc_Sender = 1"
| "prefix_len Sc_Initiator = 1"
| "prefix_len Sc_Addr = 18"
| "prefix_len Sc_Level = 1"
| "prefix_len _ = 0"

section \<open>Opening\<close>

text \<open>One more than the last row number of a table, when it can be read.\<close>

definition counter :: "'st kv \<Rightarrow> schema \<Rightarrow> 'st \<Rightarrow> u64 option" where
  "counter kv sc s =
     (case kv_iterator kv sc Iter_End s of
        Inl e \<Rightarrow> None
      | Inr [] \<Rightarrow> None
      | Inr ((Inr (Key_Message c), _) # _) \<Rightarrow> Some (c + 1)
      | Inr ((Inr (Key_Log c), _) # _) \<Rightarrow> Some (c + 1)
      | Inr _ \<Rightarrow> None)"

text \<open>\<open>inner\<close> is the opened store and \<open>indexer\<close> whether the full text index could be opened.\<close>

definition db_open ::
    "'st kv \<Rightarrow> db_error + 'st \<Rightarrow> db_error + unit \<Rightarrow> bool \<Rightarrow> u64 option \<Rightarrow> u64 option \<Rightarrow> db_error + 'st db" where
  "db_open kv inner indexer log_full_text_index log_store_limit message_store_limit =
     and_then inner (\<lambda>s.
     and_then (if log_full_text_index then map_ok (\<lambda>_. True) indexer else Inr False) (\<lambda>log_indexer.
     Inr \<lparr>db_message_store_limit = message_store_limit,
          db_message_counter = get_or 0 (counter kv Sc_Message s),
          db_log_store_limit = log_store_limit,
          db_log_counter = get_or 0 (counter kv Sc_Log s),
          db_log_indexer = log_indexer, db_indexed = [], db_inner = s\<rparr>))"

section \<open>Storing and removing\<close>

definition reserve_message_counter :: "'st db \<Rightarrow> u64 \<times> 'st db" where
  "reserve_message_counter db =
     (db_message_counter db, db\<lparr>db_message_counter := db_message_counter db + 1\<rparr>)"

definition reserve_log_counter :: "'st db \<Rightarrow> u64 \<times> 'st db" where
  "reserve_log_counter db = (db_log_counter db, db\<lparr>db_log_counter := db_log_counter db + 1\<rparr>)"

text \<open>A sequence of operations that stops at the first error, with the effects up to there.\<close>

fun kv_puts :: "'st kv \<Rightarrow> (row_key \<times> row) list \<Rightarrow> 'st \<Rightarrow> (db_error + unit) \<times> 'st" where
  "kv_puts kv [] s = (Inr (), s)"
| "kv_puts kv ((k, v) # rows) s =
     (case kv_put kv k v s of Inl e \<Rightarrow> (Inl e, s) | Inr s' \<Rightarrow> kv_puts kv rows s')"

fun kv_deletes :: "'st kv \<Rightarrow> row_key list \<Rightarrow> 'st \<Rightarrow> (db_error + unit) \<times> 'st" where
  "kv_deletes kv [] s = (Inr (), s)"
| "kv_deletes kv (k # ks) s =
     (case kv_delete kv k s of Inl e \<Rightarrow> (Inl e, s) | Inr s' \<Rightarrow> kv_deletes kv ks s')"

text \<open>The rows of the five secondary indexes of a message, and of the two of a log.\<close>

definition message_indexes :: "message_item \<Rightarrow> u64 \<Rightarrow> row_key list" where
  "message_indexes item index =
     [Key_Ty \<lparr>mty_ty = msg_ty item, mty_index = index\<rparr>,
      Key_Sender \<lparr>ms_sender = msg_sender item, ms_index = index\<rparr>,
      Key_Initiator \<lparr>mi_initiator = msg_initiator item, mi_index = index\<rparr>,
      Key_Addr \<lparr>ma_addr = msg_remote_addr item, ma_index = index\<rparr>,
      Key_Timestamp \<lparr>ts_timestamp = msg_timestamp item, ts_index = index\<rparr>]"

definition log_indexes :: "log_item \<Rightarrow> u64 \<Rightarrow> row_key list" where
  "log_indexes item index =
     [Key_Level \<lparr>ll_lv = log_item.log_level item, ll_index = index\<rparr>,
      Key_LogTimestamp \<lparr>ts_timestamp = ucast (log_timestamp item div 1000000), ts_index = index\<rparr>]"

fun row_message :: "row \<Rightarrow> message_item option" where
  "row_message (Row_Message m) = Some m"
| "row_message _ = None"

fun row_log :: "row \<Rightarrow> log_item option" where
  "row_log (Row_Log l) = Some l"
| "row_log _ = None"

fun row_chunk :: "row \<Rightarrow> chunk_value option" where
  "row_chunk (Row_Chunk c) = Some c"
| "row_chunk _ = None"

definition get_message :: "'st kv \<Rightarrow> u64 \<Rightarrow> 'st \<Rightarrow> db_error + message_item option" where
  "get_message kv index s = map_ok (\<lambda>r. Option.bind r row_message) (kv_get kv (Key_Message index) s)"

definition get_log :: "'st kv \<Rightarrow> u64 \<Rightarrow> 'st \<Rightarrow> db_error + log_item option" where
  "get_log kv index s = map_ok (\<lambda>r. Option.bind r row_log) (kv_get kv (Key_Log index) s)"

definition get_chunk :: "'st kv \<Rightarrow> chunk_key \<Rightarrow> 'st \<Rightarrow> db_error + chunk_value option" where
  "get_chunk kv k s = map_ok (\<lambda>r. Option.bind r row_chunk) (kv_get kv (Key_Chunk k) s)"

definition remove_message :: "'st kv \<Rightarrow> u64 \<Rightarrow> 'st \<Rightarrow> (db_error + unit) \<times> 'st" where
  "remove_message kv index s =
     (case get_message kv index s of
        Inl e \<Rightarrow> (Inl e, s)
      | Inr None \<Rightarrow> (Inr (), s)
      | Inr (Some item) \<Rightarrow>
          kv_deletes kv (map Key_Chunk (message_chunks item) @ message_indexes item index
            @ [Key_Message index]) s)"

definition remove_log :: "'st kv \<Rightarrow> u64 \<Rightarrow> 'st \<Rightarrow> (db_error + unit) \<times> 'st" where
  "remove_log kv index s =
     (case get_log kv index s of
        Inl e \<Rightarrow> (Inl e, s)
      | Inr None \<Rightarrow> (Inr (), s)
      | Inr (Some item) \<Rightarrow> kv_deletes kv (log_indexes item index @ [Key_Log index]) s)"

text \<open>Errors of the following operations are logged only.\<close>

definition store_connection :: "'st kv \<Rightarrow> connection_item \<Rightarrow> 'st db \<Rightarrow> 'st db" where
  "store_connection kv item db =
     (let (key, v) = connection_split item in
      db\<lparr>db_inner := snd (kv_puts kv [(Key_Connection key, Row_Connection v)] (db_inner db))\<rparr>)"

definition update_connection :: "'st kv \<Rightarrow> connection_item \<Rightarrow> 'st db \<Rightarrow> 'st db" where
  "update_connection kv item db =
     (let (key, v) = connection_split item in
      case kv_deletes kv [Key_Connection key] (db_inner db) of
        (Inl e, s) \<Rightarrow> db\<lparr>db_inner := s\<rparr>
      | (Inr _, s) \<Rightarrow> db\<lparr>db_inner := snd (kv_puts kv [(Key_Connection key, Row_Connection v)] s)\<rparr>)"

definition store_chunk :: "'st kv \<Rightarrow> chunk_item \<Rightarrow> 'st db \<Rightarrow> 'st db" where
  "store_chunk kv item db =
     (let (key, v) = chunk_split item in
      db\<lparr>db_inner := snd (kv_puts kv [(Key_Chunk key, Row_Chunk v)] (db_inner db))\<rparr>)"

definition store_message :: "'st kv \<Rightarrow> message_item \<Rightarrow> 'st db \<Rightarrow> 'st db" where
  "store_message kv item db =
     (let (index, db1) = reserve_message_counter db;
          s = (case db_message_store_limit db1 of
                 None \<Rightarrow> db_inner db1
               | Some store_limit \<Rightarrow>
                   if store_limit \<le> index then snd (remove_message kv (index - store_limit) (db_inner db1))
                   else db_inner db1)
      in db1\<lparr>db_inner := snd (kv_puts kv (map (\<lambda>k. (k, Row_Unit)) (message_indexes item index)
                                @ [(Key_Message index, Row_Message item)]) s)\<rparr>)"

definition store_log :: "'st kv \<Rightarrow> log_item \<Rightarrow> 'st db \<Rightarrow> 'st db" where
  "store_log kv item db =
     (let (index, db1) = reserve_log_counter db;
          s = (case db_log_store_limit db1 of
                 None \<Rightarrow> db_inner db1
               | Some store_limit \<Rightarrow>
                   if store_limit \<le> index then snd (remove_log kv (index - store_limit) (db_inner db1))
                   else db_inner db1)
      in db1\<lparr>db_indexed := db_indexed db1 @ (if db_log_indexer db1 then [(log_message item, index)] else []),
             db_inner := snd (kv_puts kv (map (\<lambda>k. (k, Row_Unit)) (log_indexes item index)
                                @ [(Key_Log index, Row_Log item)]) s)\<rparr>)"

text \<open>The calls of the recorder, as this database executes them.\<close>

fun db_exec :: "'st kv \<Rightarrow> db_op \<Rightarrow> 'st db \<Rightarrow> 'st db" where
  "db_exec kv (StoreConnection item) db = store_connection kv item db"
| "db_exec kv (UpdateConnection item) db = update_connection kv item db"
| "db_exec kv (StoreChunk item) db = store_chunk kv item db"
| "db_exec kv (StoreMessage item) db = store_message kv item db"
| "db_exec kv (StoreLog item) db = store_log kv item db"

section \<open>Filters\<close>

record connections_filter =
  cf_limit :: "u64 option"

record chunks_filter =
  chf_limit :: "u64 option"
  chf_cn :: "string option"

record messages_filter =
  mfl_direction :: "string option"
  mfl_limit :: "u64 option"
  mfl_cursor :: "u64 option"
  mfl_remote_addr :: "string option"
  mfl_source_type :: "initiator option"
  mfl_incoming :: "bool option"
  mfl_types :: "string option"
  mfl_from :: "u64 option"
  mfl_to :: "u64 option"
  mfl_timestamp :: "u64 option"
  mfl_node_name :: "string option"

record logs_filter =
  lfl_direction :: "string option"
  lfl_limit :: "u64 option"
  lfl_cursor :: "u64 option"
  lfl_log_level :: "string option"
  lfl_from :: "u64 option"
  lfl_to :: "u64 option"
  lfl_timestamp :: "u64 option"
  lfl_query :: "string option"
  lfl_node_name :: "string option"

definition limit_of :: "u64 option \<Rightarrow> nat" where
  "limit_of l = unat (get_or 100 l)"

section \<open>Queries\<close>

text \<open>The loop of \<^verbatim>\<open>details\<close>: the stored chunks of a message, up to the first that is missing.\<close>

fun chunks_until_missing :: "'st kv \<Rightarrow> chunk_key list \<Rightarrow> 'st \<Rightarrow> db_error + chunk_value list" where
  "chunks_until_missing kv [] s = Inr []"
| "chunks_until_missing kv (k # ks) s =
     and_then (get_chunk kv k s) (\<lambda>c.
     case c of
       None \<Rightarrow> Inr []
     | Some c \<Rightarrow> map_ok ((#) c) (chunks_until_missing kv ks s))"

definition details ::
    "('st, 'c, 'm, 'a, 'p) db_env \<Rightarrow> message_item \<Rightarrow> u64 \<Rightarrow> 'st
     \<Rightarrow> db_error + ('c, 'm, 'a, 'p) message_details" where
  "details env item i s =
     map_ok (message_details_new (de_decoders env) i (msg_ty item))
       (chunks_until_missing (de_kv env) (message_chunks item) s)"

fun boundary_below :: "string \<Rightarrow> nat \<Rightarrow> nat" where
  "boundary_below s 0 = 0"
| "boundary_below s (Suc m) = (if is_char_boundary s (Suc m) then Suc m else boundary_below s m)"

definition utf8_truncate :: "string \<Rightarrow> nat \<Rightarrow> string" where
  "utf8_truncate input max_size = take (boundary_below input max_size) input"

definition json_string ::
    "('st, 'c, 'm, 'a, 'p) db_env \<Rightarrow> ('c, 'm, 'a, 'p) message_details \<Rightarrow> string + string option" where
  "json_string env d =
     (case md_message d of None \<Rightarrow> Inr None | Some m \<Rightarrow> map_ok Some (de_json env m))"

definition preview :: "('st, 'c, 'm, 'a, 'p) db_env \<Rightarrow> message_item \<Rightarrow> u64 \<Rightarrow> 'st \<Rightarrow> string option" where
  "preview env item i s =
     (case details env item i s of
        Inl e \<Rightarrow> None
      | Inr d \<Rightarrow>
          (case json_string env d of
             Inl e \<Rightarrow> None
           | Inr p \<Rightarrow> map_option (\<lambda>t. utf8_truncate t 100) p))"

definition fetch_connections ::
    "'st kv \<Rightarrow> connections_filter \<Rightarrow> 'st \<Rightarrow> db_error + (connection_key \<times> connection_value) list" where
  "fetch_connections kv fl s =
     map_ok (\<lambda>items. take (limit_of (cf_limit fl))
         (List.map_filter (\<lambda>item. case item of
            (Inr (Key_Connection k), Inr (Row_Connection v)) \<Rightarrow> Some (k, v) | _ \<Rightarrow> None) items))
       (kv_iterator kv Sc_Connection Iter_Start s)"

text \<open>The iterator is lazy: values behind the limit are not decoded.\<close>

fun collect_it ::
    "((schema_error + chunk_key) \<times> (panic + schema_error + chunk_value)) list \<Rightarrow> nat
     \<Rightarrow> panic + (chunk_key \<times> chunk_value) list" where
  "collect_it its 0 = Inr []"
| "collect_it [] (Suc n) = Inr []"
| "collect_it ((k, v) # its) (Suc n) =
     and_then v (\<lambda>v.
     case (k, v) of
       (Inr key, Inr c) \<Rightarrow> map_ok ((#) (key, c)) (collect_it its n)
     | _ \<Rightarrow> collect_it its (Suc n))"

definition key_from_str_error_string :: "key_from_str_error \<Rightarrow> string" where
  "key_from_str_error_string e =
     (case e of
        ConnectionKey_Error \<Rightarrow> ''wrong formatted connection key''
      | DecimalParse_Error p \<Rightarrow> ''cannot parse decimal: '' @ parse_int_error_string p)"

definition fetch_chunks_truncated ::
    "'st kv \<Rightarrow> chunks_filter \<Rightarrow> 'st \<Rightarrow> panic + db_error + (chunk_key \<times> chunk_value) list" where
  "fetch_chunks_truncated kv fl s =
     (let limit = limit_of (chf_limit fl) in
      case chf_cn fl of
        Some connection_id \<Rightarrow>
          (case connection_key_from_str connection_id of
             Inl e \<Rightarrow> Inr (Inl (Rocksdb_Schema (DecodeValidationError (key_from_str_error_string e))))
           | Inr cn_id \<Rightarrow>
               if \<not> kv_cf_handle kv Sc_Chunk then Inr (Inl (Rocksdb_MissingColumnFamily Sc_Chunk))
               else map_ok Inr (collect_it
                      (map (\<lambda>(k, v). (chunk_key_decode k, chunk_value_decode v))
                        (kv_prefix kv Sc_Chunk (chunk_key_encode (chunk_key_begin cn_id)) True s)) limit))
      | None \<Rightarrow>
          (case kv_iterator kv Sc_Chunk Iter_Start s of
             Inl e \<Rightarrow> Inr (Inl e)
           | Inr items \<Rightarrow>
               map_ok Inr (collect_it
                 (List.map_filter (\<lambda>(k, v). case (k, v) of
                    (Inr (Key_Chunk key), Inr (Row_Chunk c)) \<Rightarrow> Some (Inr key, Inr (Inr c)) | _ \<Rightarrow> None) items)
                 limit)))"

definition fetch_chunk :: "'st kv \<Rightarrow> chunk_key \<Rightarrow> 'st \<Rightarrow> db_error + chunk_value option" where
  "fetch_chunk kv key s = get_chunk kv key s"

definition fetch_message ::
    "('st, 'c, 'm, 'a, 'p) db_env \<Rightarrow> u64 \<Rightarrow> 'st \<Rightarrow> db_error + ('c, 'm, 'a, 'p) message_details option" where
  "fetch_message env i s =
     and_then (get_message (de_kv env) i s) (\<lambda>brief.
     case brief of
       None \<Rightarrow> Inr None
     | Some item \<Rightarrow> map_ok Some (details env item i s))"

text \<open>The row numbers that a scan of one secondary index yields, from \<open>key\<close> on.\<close>

definition index_iter ::
    "'st kv \<Rightarrow> schema \<Rightarrow> (bytes \<Rightarrow> schema_error + u64) \<Rightarrow> bytes \<Rightarrow> bool \<Rightarrow> 'st \<Rightarrow> db_error + u64 list" where
  "index_iter kv sc decode key forward s =
     (if \<not> kv_cf_handle kv sc then Inl (Rocksdb_MissingColumnFamily sc)
      else Inr (List.map_filter (\<lambda>(k, _). case decode k of Inl e \<Rightarrow> None | Inr i \<Rightarrow> Some i)
             (kv_prefix kv sc key forward s)))"

text \<open>One scan per name of a comma separated list, the first error ends the loop.\<close>

fun index_iters ::
    "(string \<Rightarrow> schema_error + bytes) \<Rightarrow> (bytes \<Rightarrow> db_error + u64 list) \<Rightarrow> string list
     \<Rightarrow> db_error + u64 list list" where
  "index_iters key scan [] = Inr []"
| "index_iters key scan (name # names) =
     and_then (map_err Rocksdb_Schema (key name)) (\<lambda>k.
     and_then (scan k) (\<lambda>it. map_ok ((#) it) (index_iters key scan names)))"

definition opt_iter :: "'x option \<Rightarrow> ('x \<Rightarrow> db_error + u64 list) \<Rightarrow> db_error + u64 list list" where
  "opt_iter x f = (case x of None \<Rightarrow> Inr [] | Some a \<Rightarrow> map_ok (\<lambda>it. [it]) (f a))"

definition all_iters :: "(db_error + u64 list list) list \<Rightarrow> db_error + u64 list list" where
  "all_iters rs = fold (\<lambda>r acc. and_then acc (\<lambda>its. map_ok (\<lambda>it. its @ it) r)) rs (Inr [])"

definition timestamp_keys :: "kv_item list \<Rightarrow> timestamp_item list" where
  "timestamp_keys items =
     List.map_filter (\<lambda>(k, _). case k of
       Inr (Key_Timestamp t) \<Rightarrow> Some t | Inr (Key_LogTimestamp t) \<Rightarrow> Some t | _ \<Rightarrow> None) items"

definition range_iter ::
    "'st kv \<Rightarrow> schema \<Rightarrow> (timestamp_item \<Rightarrow> row_key) \<Rightarrow> u64 option \<Rightarrow> u64 option \<Rightarrow> bool \<Rightarrow> 'st
     \<Rightarrow> db_error + u64 list list" where
  "range_iter kv sc mk from to forward s =
     (if from = None \<and> to = None then Inr []
      else
        let mode = (case to of
              Some end \<Rightarrow> Iter_From (mk \<lparr>ts_timestamp = end, ts_index = - 1\<rparr>) forward
            | None \<Rightarrow> if forward then Iter_Start else Iter_End)
        in map_ok (\<lambda>items.
             let keys = timestamp_keys items in
             [map ts_index (case from of
                Some begin \<Rightarrow> takeWhile (\<lambda>k. (begin \<le> ts_timestamp k) \<noteq> forward) keys
              | None \<Rightarrow> keys)])
           (kv_iterator kv sc mode s))"

definition middle_iter ::
    "'st kv \<Rightarrow> schema \<Rightarrow> (timestamp_item \<Rightarrow> row_key) \<Rightarrow> u64 option \<Rightarrow> bool \<Rightarrow> 'st
     \<Rightarrow> db_error + u64 list list" where
  "middle_iter kv sc mk middle forward s =
     opt_iter middle (\<lambda>t.
       map_ok (\<lambda>items. map ts_index (timestamp_keys items))
         (kv_iterator kv sc (Iter_From (mk \<lparr>ts_timestamp = t, ts_index = - 1\<rparr>) forward) s))"

text \<open>The text of the error of \<^verbatim>\<open>MessageType::from_str\<close>.\<close>

fun parse_type_error_string :: "parse_type_error \<Rightarrow> string" where
  "parse_type_error_string (ParseTypeError s) = ''Invalid message type '' @ s"

definition is_forward :: "string option \<Rightarrow> bool" where
  "is_forward direction \<longleftrightarrow> direction = Some ''forward''"

definition start_mode :: "(u64 \<Rightarrow> row_key) \<Rightarrow> u64 option \<Rightarrow> bool \<Rightarrow> iterator_mode" where
  "start_mode mk cursor forward =
     (case cursor of
        Some c \<Rightarrow> Iter_From (mk c) forward
      | None \<Rightarrow> if forward then Iter_Start else Iter_End)"

definition decode_index :: "('i \<Rightarrow> u64) \<Rightarrow> (bytes \<Rightarrow> schema_error + 'i) \<Rightarrow> bytes \<Rightarrow> schema_error + u64" where
  "decode_index index decode b = map_ok index (decode b)"

text \<open>The merged scans of a list of types, and of a list of log levels.\<close>

definition type_key :: "u64 \<Rightarrow> string \<Rightarrow> schema_error + bytes" where
  "type_key cursor name =
     map_ok (\<lambda>ty. message_ty_encode \<lparr>mty_ty = ty, mty_index = cursor\<rparr>)
       (map_err (\<lambda>e. DecodeValidationError (parse_type_error_string e)) (type_from_str name))"

definition types_iter ::
    "('st, 'c, 'm, 'a, 'p) db_env \<Rightarrow> u64 \<Rightarrow> bool \<Rightarrow> 'st \<Rightarrow> string \<Rightarrow> db_error + u64 list" where
  "types_iter env cursor forward s types =
     map_ok (de_kmerge env) (index_iters (type_key cursor)
       (\<lambda>key. index_iter (de_kv env) Sc_Ty (decode_index mty_index message_ty_decode) key forward s)
       (split_on CHR '','' types))"

definition level_key :: "u64 \<Rightarrow> string \<Rightarrow> schema_error + bytes" where
  "level_key cursor name =
     map_ok (\<lambda>lv. log_level_encode \<lparr>ll_lv = lv, ll_index = cursor\<rparr>)
       (map_err (\<lambda>e. DecodeValidationError (log_level_error_string e)) (log_level_from_str name))"

definition levels_iter ::
    "('st, 'c, 'm, 'a, 'p) db_env \<Rightarrow> u64 \<Rightarrow> bool \<Rightarrow> 'st \<Rightarrow> string \<Rightarrow> db_error + u64 list" where
  "levels_iter env cursor forward s levels =
     map_ok (de_kmerge env) (index_iters (level_key cursor)
       (\<lambda>key. index_iter (de_kv env) Sc_Level (decode_index ll_index log_level_decode) key forward s)
       (split_on CHR '','' levels))"

text \<open>The iterators over the secondary indexes that \<^verbatim>\<open>fetch_messages\<close> collects.\<close>

definition message_iters ::
    "('st, 'c, 'm, 'a, 'p) db_env \<Rightarrow> messages_filter \<Rightarrow> 'st \<Rightarrow> db_error + u64 list list" where
  "message_iters env fl s =
     (let kv = de_kv env; forward = is_forward (mfl_direction fl);
          cursor = get_or (if forward then 0 else - 1) (mfl_cursor fl)
      in all_iters
        [opt_iter (mfl_types fl) (types_iter env cursor forward s),
         opt_iter (mfl_incoming fl) (\<lambda>incoming.
           index_iter kv Sc_Sender (decode_index ms_index message_sender_decode)
             (message_sender_encode \<lparr>ms_sender = sender_new incoming, ms_index = cursor\<rparr>) forward s),
         opt_iter (mfl_source_type fl) (\<lambda>initiator.
           index_iter kv Sc_Initiator (decode_index mi_index message_initiator_decode)
             (message_initiator_encode \<lparr>mi_initiator = initiator, mi_index = cursor\<rparr>) forward s),
         opt_iter (mfl_remote_addr fl) (\<lambda>addr.
           and_then (map_err (\<lambda>e. Rocksdb_Schema (DecodeValidationError e)) (de_parse_addr env addr)) (\<lambda>addr.
           index_iter kv Sc_Addr (decode_index ma_index message_addr_decode)
             (message_addr_encode \<lparr>ma_addr = addr, ma_index = cursor\<rparr>) forward s)),
         range_iter kv Sc_Timestamp Key_Timestamp (mfl_from fl) (mfl_to fl) forward s,
         middle_iter kv Sc_Timestamp Key_Timestamp (mfl_timestamp fl) forward s])"

definition fetch_messages ::
    "('st, 'c, 'm, 'a, 'p) db_env \<Rightarrow> messages_filter \<Rightarrow> 'st \<Rightarrow> panic + db_error + message_frontend list" where
  "fetch_messages env fl s =
     (let kv = de_kv env; limit = limit_of (mfl_limit fl); forward = is_forward (mfl_direction fl) in
      if mfl_remote_addr fl = None \<and> mfl_source_type fl = None \<and> mfl_incoming fl = None \<and>
         mfl_types fl = None \<and> mfl_from fl = None \<and> mfl_to fl = None \<and> mfl_timestamp fl = None
      then Inr (map_ok (\<lambda>items.
             List.map_filter (\<lambda>item. case item of
                 (Inr (Key_Message i), Inr (Row_Message m)) \<Rightarrow>
                   Some (message_frontend_new m i (preview env m i s))
               | _ \<Rightarrow> None) (take limit items))
           (kv_iterator kv Sc_Message (start_mode Key_Message (mfl_cursor fl) forward) s))
      else
        (case message_iters env fl s of
           Inl e \<Rightarrow> Inr (Inl e)
         | Inr iters \<Rightarrow>
             map_ok (\<lambda>indexes. Inr (List.map_filter (\<lambda>i.
                 case get_message kv i s of
                   Inr (Some m) \<Rightarrow> Some (message_frontend_new m i (preview env m i s))
                 | _ \<Rightarrow> None) indexes))
               (sorted_intersect iters limit forward)))"

definition log_iters ::
    "('st, 'c, 'm, 'a, 'p) db_env \<Rightarrow> logs_filter \<Rightarrow> 'st \<Rightarrow> db_error + u64 list list" where
  "log_iters env fl s =
     (let kv = de_kv env; forward = is_forward (lfl_direction fl);
          cursor = get_or (if forward then 0 else - 1) (lfl_cursor fl)
      in all_iters
        [opt_iter (lfl_log_level fl) (levels_iter env cursor forward s),
         range_iter kv Sc_LogTimestamp Key_LogTimestamp (lfl_from fl) (lfl_to fl) forward s,
         middle_iter kv Sc_LogTimestamp Key_LogTimestamp (lfl_timestamp fl) forward s])"

text \<open>Rows that cannot be read are logged and left out.\<close>

definition logs_at :: "'st kv \<Rightarrow> u64 list \<Rightarrow> 'st \<Rightarrow> log_item_with_id list" where
  "logs_at kv indexes s =
     List.map_filter (\<lambda>i. case get_log kv i s of
       Inr (Some l) \<Rightarrow> Some (log_with_id l i) | _ \<Rightarrow> None) indexes"

definition fetch_log ::
    "('st, 'c, 'm, 'a, 'p) db_env \<Rightarrow> logs_filter \<Rightarrow> 'st db \<Rightarrow> panic + db_error + log_item_with_id list" where
  "fetch_log env fl db =
     (let kv = de_kv env; s = db_inner db; limit = limit_of (lfl_limit fl);
          forward = is_forward (lfl_direction fl)
      in case lfl_query fl of
        Some query \<Rightarrow>
          if \<not> db_log_indexer db then Inr (Inl NoLogIndexer)
          else Inr (map_ok (\<lambda>ids. logs_at kv ids s) (de_search env query limit))
      | None \<Rightarrow>
          if lfl_log_level fl = None \<and> lfl_from fl = None \<and> lfl_to fl = None \<and> lfl_timestamp fl = None
          then Inr (map_ok (\<lambda>items. take limit (List.map_filter (\<lambda>item. case item of
                   (Inr (Key_Log i), Inr (Row_Log l)) \<Rightarrow> Some (log_with_id l i) | _ \<Rightarrow> None) items))
                 (kv_iterator kv Sc_Log (start_mode Key_Log (lfl_cursor fl) forward) s))
          else
            (case log_iters env fl s of
               Inl e \<Rightarrow> Inr (Inl e)
             | Inr iters \<Rightarrow>
                 map_ok (\<lambda>indexes. Inr (logs_at kv indexes s)) (sorted_intersect iters limit forward)))"

end
