(* ===== verification/Connection_Processor.thy ===== *)
theory Connection_Processor
  imports Message_Parser
begin

text \<open>
  One recorded connection, \<^verbatim>\<open>tezedge-recorder/src/processor/connection.rs\<close>: the handshake, then the
  two directions with a message parser each, over one database. The main result is an invariant of
  every sequence of payloads: the processing never panics, and what is recorded of a direction is
  exactly what was sent in it, cut into numbered chunks.
\<close>

section \<open>The connection\<close>

datatype ('pk, 'n) connection_state =
    Conn_Handshake handshake
  | Conn_Done "('pk, 'n) handshake_done" message_parser "('pk, 'n) handshake_done" message_parser

record ('pk, 'n) connection =
  cx_state :: "('pk, 'n) connection_state option"
  cx_item :: connection_item

text \<open>\<open>nanos\<close> is the clock at the creation.\<close>

definition connection_open ::
    "nat \<Rightarrow> socket_addr \<Rightarrow> bool \<Rightarrow> identity \<Rightarrow> ('pk, 'n) connection" where
  "connection_open nanos remote_addr incoming identity =
     (let item = connection_new nanos (initiator_new incoming) remote_addr in
      \<lparr>cx_state = Some (Conn_Handshake (handshake_new (connection_key_of item) identity)),
       cx_item = item\<rparr>)"

definition handle_opt_chunk ::
    "clock \<Rightarrow> chunk_item option \<Rightarrow> connection_item \<Rightarrow> message_parser \<times> db_op list
     \<Rightarrow> panic + (connection_item \<times> message_parser \<times> db_op list)" where
  "handle_opt_chunk clk c cn h =
     (case c of None \<Rightarrow> Inr (cn, h) | Some chunk \<Rightarrow> mp_handle_chunk clk chunk cn h)"

definition connection_handle_data ::
    "('k, 'pk, 'n) crypto \<Rightarrow> clock \<Rightarrow> ('pk, 'n) connection \<Rightarrow> bytes \<Rightarrow> bool \<Rightarrow> bool \<Rightarrow> db_op list
     \<Rightarrow> panic + (('pk, 'n) connection \<times> db_op list)" where
  "connection_handle_data cr clk conn payload net incoming ops =
     and_then (unwrap (cx_state conn)) (\<lambda>state.
     case state of
       Conn_Handshake h \<Rightarrow>
         and_then (handshake_handle_data cr clk h payload net incoming (cx_item conn)) (\<lambda>(r, cn).
         case r of
           Inl h' \<Rightarrow> Inr (\<lparr>cx_state = Some (Conn_Handshake h'), cx_item = cn\<rparr>, ops)
         | Inr out \<Rightarrow>
             let ops1 = ops @ [StoreConnection cn] in
             and_then (handle_opt_chunk clk (ho_l_chunk out) cn (message_parser_new, ops1))
               (\<lambda>(cn1, local_mp, ops2).
             and_then (handle_opt_chunk clk (ho_r_chunk out) cn1 (message_parser_new, ops2))
               (\<lambda>(cn2, remote_mp, ops3).
             Inr (\<lparr>cx_state = Some (Conn_Done (ho_local out) local_mp (ho_remote out) remote_mp),
                   cx_item = cn2\<rparr>, ops3))))
     | Conn_Done local local_mp remote remote_mp \<Rightarrow>
         if \<not> incoming then
           and_then (done_handle_data cr clk False (mp_handler clk) local payload net (cx_item conn)
               (local_mp, ops)) (\<lambda>(local', cn, local_mp', ops').
           Inr (\<lparr>cx_state = Some (Conn_Done local' local_mp' remote remote_mp), cx_item = cn\<rparr>, ops'))
         else
           and_then (done_handle_data cr clk True (mp_handler clk) remote payload net (cx_item conn)
               (remote_mp, ops)) (\<lambda>(remote', cn, remote_mp', ops').
           Inr (\<lparr>cx_state = Some (Conn_Done local local_mp remote' remote_mp'), cx_item = cn\<rparr>, ops')))"

text \<open>Whether \<^verbatim>\<open>warn_fd_changed\<close> logs its warning.\<close>

definition warn_fd_changed :: "('pk, 'n) connection \<Rightarrow> bool" where
  "warn_fd_changed conn =
     (case cx_state conn of
        Some (Conn_Handshake h) \<Rightarrow> \<not> handshake_is_empty h
      | _ \<Rightarrow> True)"

text \<open>A sequence of payloads, each with its \<^verbatim>\<open>net\<close> flag and its direction.\<close>

type_synonym data_event = "bytes \<times> bool \<times> bool"

fun connection_run ::
    "('k, 'pk, 'n) crypto \<Rightarrow> clock \<Rightarrow> data_event list \<Rightarrow> ('pk, 'n) connection \<Rightarrow> db_op list
     \<Rightarrow> panic + (('pk, 'n) connection \<times> db_op list)" where
  "connection_run cr clk [] conn ops = Inr (conn, ops)"
| "connection_run cr clk ((payload, net, incoming) # evs) conn ops =
     and_then (connection_handle_data cr clk conn payload net incoming ops)
       (\<lambda>(conn', ops'). connection_run cr clk evs conn' ops')"

section \<open>The invariant\<close>

text \<open>What the code relies on of the cryptography: keys of 32 bytes are accepted, nonces are made.\<close>

definition crypto_total :: "('k, 'pk, 'n) crypto \<Rightarrow> bool" where
  "crypto_total cr \<longleftrightarrow>
     (\<forall>b. length b = 32 \<longrightarrow> cr_pk_from_bytes cr b \<noteq> None) \<and>
     (\<forall>b. length b = 32 \<longrightarrow> cr_sk_from_bytes cr b \<noteq> None) \<and>
     (\<forall>l r i. cr_generate_nonces cr l r i \<noteq> None)"

definition side_chunks :: "bool \<Rightarrow> db_op list \<Rightarrow> chunk_item list" where
  "side_chunks s ops = filter (\<lambda>c. ci_sender c = sender_new s) (stored_chunks ops)"

definition cannot_decrypt_at :: "bool \<Rightarrow> connection_item \<Rightarrow> u64 option" where
  "cannot_decrypt_at s cn =
     (if s then incoming_cannot_decrypt (cn_comments cn) else outgoing_cannot_decrypt (cn_comments cn))"

definition is_uncertain :: "connection_item \<Rightarrow> bool" where
  "is_uncertain cn \<longleftrightarrow> incoming_uncertain (cn_comments cn)"

definition fed :: "bool \<Rightarrow> data_event list \<Rightarrow> bytes" where
  "fed s evs = concat (map (\<lambda>(payload, net, incoming). if incoming = s then payload else []) evs)"

text \<open>What is recorded of a direction whose stream was cut into \<open>cs\<close>: everything, or everything
  but the chunk at the noted position.\<close>

definition recorded_as :: "bool \<Rightarrow> connection_item \<Rightarrow> bytes list \<Rightarrow> db_op list \<Rightarrow> bool" where
  "recorded_as s cn cs ops \<longleftrightarrow>
     (case cannot_decrypt_at s cn of
        None \<Rightarrow> map slot (side_chunks s ops) = number_from 0 cs
      | Some p \<Rightarrow> \<exists>i < length cs. p = of_nat i \<and>
          map slot (side_chunks s ops) = drop_nth i (number_from 0 cs))"

definition half_inv :: "connection_key \<Rightarrow> identity \<Rightarrow> half \<Rightarrow> bytes \<Rightarrow> bool" where
  "half_inv cid ident h d \<longleftrightarrow>
     (case h of
        Half_Initial i \<Rightarrow> i = inner_at cid ident 0 d \<and> incomplete d
      | Half_HaveCm i \<Rightarrow> i = inner_at cid ident 0 d \<and> \<not> incomplete d)"

definition side_inv ::
    "connection_key \<Rightarrow> bool \<Rightarrow> connection_item \<Rightarrow> ('pk, 'n) handshake_done \<Rightarrow> bytes \<Rightarrow> db_op list \<Rightarrow> bool" where
  "side_inv cid s cn st d ops \<longleftrightarrow>
     in_cn_id (done_inner st) = cid \<and>
     (cannot_decrypt_at s cn \<noteq> None \<longleftrightarrow> cannot_decrypt_state st) \<and>
     (\<exists>cs. next_counter st = of_nat (length cs) \<and>
        (\<not> is_uncertain cn \<longrightarrow> concat cs @ pending st = d) \<and>
        (opened_state st \<longrightarrow> list_all framed cs) \<and>
        recorded_as s cn cs ops)"

section \<open>One side\<close>

lemma same_but_suspicious_keeps:
  assumes "same_but_suspicious cn cn'"
  shows "connection_key_of cn' = connection_key_of cn" "is_uncertain cn' = is_uncertain cn"
    "cannot_decrypt_at s cn' = cannot_decrypt_at s cn"
  using assms
  by (auto simp: same_but_suspicious_def is_uncertain_def cannot_decrypt_at_def add_comment_def
      connection_key_of_def)

lemma mark_cannot_decrypt_keeps [simp]:
  "is_uncertain (mark_cannot_decrypt s p cn) = is_uncertain cn"
  "cannot_decrypt_at s (mark_cannot_decrypt s p cn) = Some p"
  "s \<noteq> t \<Longrightarrow> cannot_decrypt_at t (mark_cannot_decrypt s p cn) = cannot_decrypt_at t cn"
  by (auto simp: is_uncertain_def cannot_decrypt_at_def mark_cannot_decrypt_def add_comment_def)

lemma filter_of_side:
  "list_all (of_side cid s) items \<Longrightarrow>
   filter (\<lambda>c. ci_sender c = sender_new t) items = (if s = t then items else [])"
  by (induction items) (auto simp: of_side_def sender_new_def)

lemma drop_nth_append:
  "i < length xs \<Longrightarrow> drop_nth i (xs @ ys) = drop_nth i xs @ ys"
  "drop_nth (length xs + i) (xs @ ys) = xs @ drop_nth i ys"
  by (simp_all add: drop_nth_def)

lemma side_inv_other:
  assumes "side_inv cid t cn st d ops" "s \<noteq> t"
    and "stored_chunks ops' = stored_chunks ops @ items" "list_all (of_side cid s) items"
    and "is_uncertain cn' = is_uncertain cn" "cannot_decrypt_at t cn' = cannot_decrypt_at t cn"
  shows "side_inv cid t cn' st d ops'"
proof -
  have eq: "side_chunks t ops' = side_chunks t ops"
    using assms(2,3) filter_of_side [OF assms(4), of t] by (simp add: side_chunks_def)
  show ?thesis
    using assms(1) unfolding side_inv_def recorded_as_def assms(5,6) eq .
qed

lemma side_inv_step:
  assumes inv: "side_inv cid s cn st d ops"
    and ops: "stored_chunks ops' = stored_chunks ops @ items"
    and side: "list_all (of_side cid s) items"
    and step: "done_step s st cn st' cn' payload cs items"
  shows "side_inv cid s cn' st' (d @ payload) ops'"
proof -
  obtain bs where bs: "next_counter st = of_nat (length bs)"
      "\<not> is_uncertain cn \<longrightarrow> concat bs @ pending st = d" "opened_state st \<longrightarrow> list_all framed bs"
      "recorded_as s cn bs ops" "in_cn_id (done_inner st) = cid"
      "cannot_decrypt_at s cn \<noteq> None \<longleftrightarrow> cannot_decrypt_state st"
    using inv by (auto simp: side_inv_def)
  have st: "concat cs @ pending st' = pending st @ payload"
      "next_counter st' = next_counter st + of_nat (length cs)"
      "in_cn_id (done_inner st') = in_cn_id (done_inner st)"
      "opened_state st \<longrightarrow> list_all framed cs"
    using step by (auto simp: done_step_def)
  have chunks: "side_chunks s ops' = side_chunks s ops @ items"
    using ops filter_of_side [OF side, of s] by (simp add: side_chunks_def)
  have num: "number_from 0 (bs @ cs) = number_from 0 bs @ number_from (next_counter st) cs"
    using bs(1) by (simp add: number_from_append)
  have concat: "concat (bs @ cs) @ pending st' = d @ payload" if "\<not> is_uncertain cn"
  proof -
    have "concat (bs @ cs) @ pending st' = concat bs @ concat cs @ pending st'" by simp
    also have "\<dots> = (concat bs @ pending st) @ payload" using st(1) by simp
    finally show ?thesis using bs(2) that by simp
  qed
  have "is_uncertain cn' = is_uncertain cn \<and>
      (cannot_decrypt_at s cn' \<noteq> None \<longleftrightarrow> cannot_decrypt_state st') \<and>
      (opened_state st' \<longrightarrow> list_all framed (bs @ cs)) \<and> recorded_as s cn' (bs @ cs) ops'"
    using step unfolding done_step_def
  proof (elim conjE disjE exE)
    assume same: "same_state st st'" "map slot items = number_from (next_counter st) cs"
      "same_but_suspicious cn cn'"
    have "cannot_decrypt_state st' = cannot_decrypt_state st" "opened_state st' = opened_state st"
      using same(1) by (cases st; cases st'; simp)+
    moreover have "recorded_as s cn' (bs @ cs) ops'"
      using bs(4) same(2)
      by (auto simp: recorded_as_def same_but_suspicious_keeps [OF same(3)] chunks num drop_nth_append
          split: option.splits intro: trans_less_add1)
    ultimately show ?thesis
      using bs(3,6) st(4) by (simp add: same_but_suspicious_keeps [OF same(3)])
  next
    fix i
    assume failed: "have_key_state st" "cannot_decrypt_state st'" "i < length cs"
      "map slot items = drop_nth i (number_from (next_counter st) cs)"
      "same_but_suspicious (mark_cannot_decrypt s (next_counter st + of_nat i) cn) cn'"
    have st0: "opened_state st" "\<not> cannot_decrypt_state st" "opened_state st'"
      using failed(1,2) by (cases st; cases st'; simp)+
    have "map slot (side_chunks s ops') = drop_nth (length bs + i) (number_from 0 (bs @ cs))"
      using bs(4,6) st0(2) failed(4)
        drop_nth_append(2) [of "number_from 0 bs" i "number_from (next_counter st) cs"]
      by (simp add: recorded_as_def chunks num)
    moreover have "next_counter st + of_nat i = of_nat (length bs + i)" using bs(1) by simp
    ultimately have "recorded_as s cn' (bs @ cs) ops'"
      using failed(3)
      by (auto simp: recorded_as_def same_but_suspicious_keeps [OF failed(5)]
          intro!: exI [of _ "length bs + i"])
    then show ?thesis
      using bs(3) st(4) st0 failed(2) by (simp add: same_but_suspicious_keeps [OF failed(5)])
  qed
  then show ?thesis
    unfolding side_inv_def using bs(1,5) st(2,3) concat
    by (auto intro!: exI [of _ "bs @ cs"])
qed

section \<open>The handshake\<close>

text \<open>What the end of the handshake leaves of one side: its state and at most one chunk.\<close>

definition side_start ::
    "connection_key \<Rightarrow> bool \<Rightarrow> bool \<Rightarrow> ('pk, 'n) handshake_done \<Rightarrow> chunk_item option \<Rightarrow> bytes \<Rightarrow> bool" where
  "side_start cid s u st c d \<longleftrightarrow>
     in_cn_id (done_inner st) = cid \<and> \<not> cannot_decrypt_state st \<and>
     (\<exists>cs. next_counter st = of_nat (length cs) \<and> (\<not> u \<longrightarrow> concat cs @ pending st = d) \<and>
        (opened_state st \<longrightarrow> list_all framed cs) \<and>
        (case c of
           None \<Rightarrow> cs = []
         | Some c \<Rightarrow> (\<exists>b. cs = [b] \<and> b \<noteq> [] \<and> slot c = (0, b) \<and> of_side cid s c)))"

lemma initial_handle_data_at:
  "initial_handle_data (inner_at cid ident 0 d) p =
    (if incomplete (d @ p) then Inl (inner_at cid ident 0 (d @ p)) else Inr (inner_at cid ident 0 (d @ p)))"
  by (simp add: initial_handle_data_def inner_handle_data_def buffer_handle_data_def have_chunk_eq)

lemma not_incomplete_append: "\<not> incomplete d \<Longrightarrow> \<not> incomplete (d @ p)"
  by (simp add: incomplete_def chunk_len_append)

lemma cleanup_at:
  "inner_cleanup clk s (inner_at cid ident 0 d) =
    (if d = [] then (None, inner_at cid ident 0 [])
     else (Some (chunk_new (clk_secs clk (sender_new s) 0) cid (sender_new s) 0 d []),
           inner_at cid ident 1 []))"
  by (simp add: inner_cleanup_def buffer_cleanup_def inner_chunk_def)

lemma side_start_cleanup:
  assumes "inner_cleanup clk s (inner_at cid ident 0 d) = (c, i)"
    and "st = Done_Uncertain i \<or> st = Done_HaveNotKey i"
  shows "side_start cid s u st c d" "side_start cid s u st (map_option (chunk_net net) c) d"
  using assms
  by (auto simp: cleanup_at side_start_def next_counter_def pending_def split: if_splits)

lemma side_start_key:
  assumes "\<not> incomplete d"
    and "have_cm_have_key clk s (inner_at cid ident 0 d) = Inr (i, c)"
  shows "side_start cid s u (Done_HaveKey i k) (Some c) d"
proof -
  let ?b = "take (chunk_len d) d"
  have "framed ?b" "2 \<le> length ?b"
    using take_framed [OF assms(1)] framed_length by blast+
  then have "i = inner_at cid ident 1 (drop (chunk_len d) d)"
      "c = chunk_new (clk_secs clk (sender_new s) 0) cid (sender_new s) 0 ?b (drop 2 ?b)" "?b \<noteq> []"
    using assms by (auto simp: have_cm_have_key_def buffer_next_eq slice_def sub_def inner_chunk_def)
  with \<open>framed ?b\<close> show ?thesis
    by (auto simp: side_start_def next_counter_def pending_def intro!: exI [of _ "[?b]"])
qed

lemma have_cm_have_key_total:
  assumes "\<not> incomplete d"
  shows "\<exists>i c. have_cm_have_key clk s (inner_at cid ident 0 d) = Inr (i, c)"
proof -
  have "2 \<le> length (take (chunk_len d) d)"
    using take_framed [OF assms] framed_length by blast
  then show ?thesis
    using assms by (auto simp: have_cm_have_key_def buffer_next_eq slice_def Let_def)
qed

lemma keys_new_total:
  assumes "crypto_total cr" "length (id_secret_key ident) = 32"
  shows "\<exists>r. keys_new cr ident l r' ini = Inr r"
proof -
  obtain sk where "cr_sk_from_bytes cr (id_secret_key ident) = Some sk"
    using assms by (auto simp: crypto_total_def)
  moreover obtain nl nr where "cr_generate_nonces cr l r' (initiator_incoming ini) = Some (nl, nr)"
    using assms(1) by (fastforce simp: crypto_total_def)
  moreover have "\<exists>pk. cr_pk_from_bytes cr (sub r' 4 36) = Some pk" if "\<not> length r' < 36"
    using assms(1) that by (auto simp: crypto_total_def)
  ultimately show ?thesis
    by (auto simp: keys_new_def Let_def)
qed

lemma comment_keeps:
  "connection_key_of (comment_local x cn) = connection_key_of cn"
  "connection_key_of (comment_remote x cn) = connection_key_of cn"
  "is_uncertain (comment_local x cn) = is_uncertain cn"
  "is_uncertain (comment_remote x cn) = is_uncertain cn"
  "cannot_decrypt_at s (comment_local x cn) = cannot_decrypt_at s cn"
  "cannot_decrypt_at s (comment_remote x cn) = cannot_decrypt_at s cn"
  by (auto simp: comment_local_def comment_remote_def is_uncertain_def cannot_decrypt_at_def
      add_comment_def set_peer_pk_def connection_key_of_def
      split: sum.splits handshake_warning.splits)

lemma add_comment_wrong_pk:
  "connection_key_of (add_comment (\<lambda>c. c\<lparr>outgoing_wrong_pk := True\<rparr>) cn) = connection_key_of cn"
  "is_uncertain (add_comment (\<lambda>c. c\<lparr>outgoing_wrong_pk := True\<rparr>) cn) = is_uncertain cn"
  "cannot_decrypt_at s (add_comment (\<lambda>c. c\<lparr>outgoing_wrong_pk := True\<rparr>) cn) = cannot_decrypt_at s cn"
  by (simp_all add: is_uncertain_def cannot_decrypt_at_def add_comment_def connection_key_of_def)

lemma mark_uncertain_keeps:
  "is_uncertain (mark_uncertain cn)"
  "cannot_decrypt_at s (mark_uncertain cn) = cannot_decrypt_at s cn"
  by (simp_all add: is_uncertain_def cannot_decrypt_at_def mark_uncertain_def add_comment_def)

lemma handshake_make_key_total:
  assumes "crypto_total cr" "length (id_secret_key ident) = 32"
    and "\<not> incomplete dl" "\<not> incomplete dr"
  shows "\<exists>out cn'. handshake_make_key cr clk (inner_at cid ident 0 dl) (inner_at cid ident 0 dr) cn =
      Inr (Inr out, cn') \<and>
    side_start cid False False (ho_local out) (ho_l_chunk out) dl \<and>
    side_start cid True False (ho_remote out) (ho_r_chunk out) dr \<and>
    connection_key_of cn' = connection_key_of cn \<and> is_uncertain cn' = is_uncertain cn \<and>
    (\<forall>s. cannot_decrypt_at s cn' = cannot_decrypt_at s cn)"
proof -
  let ?l = "inner_at cid ident 0 dl" and ?r = "inner_at cid ident 0 dr"
  obtain kr where kr: "keys_new cr ident (take (chunk_len dl) dl) (take (chunk_len dr) dr)
      (cn_initiator cn) = Inr kr"
    using keys_new_total [OF assms(1,2)] by blast
  have hc: "have_chunk (in_buffer ?l) = Some (take (chunk_len dl) dl)"
      "have_chunk (in_buffer ?r) = Some (take (chunk_len dr) dr)"
    using assms(3,4) by (simp_all add: have_chunk_eq)
  show ?thesis
  proof (cases kr)
    case (Inl e)
    obtain lc l' rc r' where c: "inner_cleanup clk False ?l = (lc, l')" "inner_cleanup clk True ?r = (rc, r')"
      by fastforce
    then show ?thesis
      using kr Inl hc
      by (auto simp: handshake_make_key_def make_key_def output_of_make_key_def
          have_cm_have_not_key_def add_comment_wrong_pk
          intro: side_start_cleanup(1) [OF c(1)] side_start_cleanup(1) [OF c(2)])
  next
    case (Inr ks)
    obtain l' lc r' rc where k: "have_cm_have_key clk False ?l = Inr (l', lc)"
        "have_cm_have_key clk True ?r = Inr (r', rc)"
      using have_cm_have_key_total assms(3,4) by meson
    then show ?thesis
      using kr Inr hc
      by (auto simp: handshake_make_key_def make_key_def output_of_make_key_def comment_keeps
          intro: side_start_key [OF assms(3) k(1)] side_start_key [OF assms(4) k(2)])
  qed
qed

text \<open>The invariant at the end of the handshake, and across one payload before it.\<close>

definition handshake_inv ::
    "identity \<Rightarrow> connection_item \<Rightarrow> handshake \<Rightarrow> bytes \<Rightarrow> bytes \<Rightarrow> bool" where
  "handshake_inv ident cn h dl dr \<longleftrightarrow>
     half_inv (connection_key_of cn) ident (hs_local h) dl \<and>
     half_inv (connection_key_of cn) ident (hs_remote h) dr \<and>
     (\<exists>i. hs_local h = Half_Initial i \<or> hs_remote h = Half_Initial i) \<and>
     \<not> is_uncertain cn \<and> (\<forall>s. cannot_decrypt_at s cn = None)"

definition output_inv ::
    "connection_item \<Rightarrow> connection_item \<Rightarrow> ('pk, 'n) handshake_output \<Rightarrow> bytes \<Rightarrow> bytes \<Rightarrow> bool" where
  "output_inv cn cn' out dl dr \<longleftrightarrow>
     connection_key_of cn' = connection_key_of cn \<and> (\<forall>s. cannot_decrypt_at s cn' = None) \<and>
     side_start (connection_key_of cn) False (is_uncertain cn') (ho_local out) (ho_l_chunk out) dl \<and>
     side_start (connection_key_of cn) True (is_uncertain cn') (ho_remote out) (ho_r_chunk out) dr"

lemma side_start_mono: "side_start cid s False st c d \<Longrightarrow> side_start cid s u st c d"
  unfolding side_start_def by blast

lemma side_start_uncertain: "side_start cid s True st c d \<Longrightarrow> side_start cid s True st c e"
  by (simp add: side_start_def)

lemma handshake_step_make_key:
  assumes "crypto_total cr" "length (id_secret_key ident) = 32"
    and "\<not> incomplete dl" "\<not> incomplete dr"
    and "\<forall>s. cannot_decrypt_at s cn = None"
  shows "\<exists>out cn'. handshake_make_key cr clk (inner_at (connection_key_of cn) ident 0 dl)
      (inner_at (connection_key_of cn) ident 0 dr) cn = Inr (Inr out, cn') \<and> output_inv cn cn' out dl dr"
  using handshake_make_key_total [OF assms(1-4), of clk "connection_key_of cn" cn] assms(5)
  by (auto simp: output_inv_def intro: side_start_mono)

lemma handshake_step:
  assumes cr: "crypto_total cr" "length (id_secret_key ident) = 32"
    and inv: "handshake_inv ident cn h dl dr"
  shows "\<exists>r cn'. handshake_handle_data cr clk h payload net incoming cn = Inr (r, cn') \<and>
    (case r of
       Inl h' \<Rightarrow> cn' = cn \<and> handshake_inv ident cn h'
         (if incoming then dl else dl @ payload) (if incoming then dr @ payload else dr)
     | Inr out \<Rightarrow> output_inv cn cn' out
         (if incoming then dl else dl @ payload) (if incoming then dr @ payload else dr))"
proof -
  let ?cid = "connection_key_of cn"
  let ?l = "inner_at ?cid ident 0 dl" and ?r = "inner_at ?cid ident 0 dr"
  have un: "\<not> is_uncertain cn" "\<forall>s. cannot_decrypt_at s cn = None"
    using inv by (auto simp: handshake_inv_def)
  note hs = handshake_handle_data_def handshake_inv_def half_inv_def initial_handle_data_at
    handshake_initial_def handshake_local_cm_def handshake_remote_cm_def
  consider (ii) "hs_local h = Half_Initial ?l" "hs_remote h = Half_Initial ?r" "incomplete dl" "incomplete dr"
    | (ci) "hs_local h = Half_HaveCm ?l" "hs_remote h = Half_Initial ?r" "\<not> incomplete dl" "incomplete dr"
    | (ic) "hs_local h = Half_Initial ?l" "hs_remote h = Half_HaveCm ?r" "incomplete dl" "\<not> incomplete dr"
    using inv by (auto simp: handshake_inv_def half_inv_def split: half.splits)
  then show ?thesis
  proof cases
    case ii
    then show ?thesis using un by (auto simp: hs)
  next
    case ci
    show ?thesis
    proof (cases "incoming")
      case True
      then show ?thesis
        using ci un handshake_step_make_key [OF cr ci(3) _ un(2), of "dr @ payload" clk]
        by (auto simp: hs)
    next
      case False
      obtain lc l' rc r' where c: "inner_cleanup clk False ?l = (lc, l')" "inner_cleanup clk True ?r = (rc, r')"
        by fastforce
      then show ?thesis
        using ci un False not_incomplete_append [OF ci(3)]
        by (auto simp: hs have_cm_handle_data_def uncertain_new_def initial_uncertain_def
            output_inv_def mark_uncertain_keeps inner_handle_data_def buffer_handle_data_def
            intro: side_start_uncertain [OF side_start_cleanup(1) [OF c(1)]]
              side_start_uncertain [OF side_start_cleanup(1) [OF c(2)]]
              side_start_uncertain [OF side_start_cleanup(2) [OF c(1)]]
              side_start_uncertain [OF side_start_cleanup(2) [OF c(2)]])
    qed
  next
    case ic
    show ?thesis
    proof (cases "incoming")
      case False
      then show ?thesis
        using ic un handshake_step_make_key [OF cr _ ic(4) un(2), of "dl @ payload" clk]
        by (auto simp: hs)
    next
      case True
      obtain lc l' rc r' where c: "inner_cleanup clk False ?l = (lc, l')" "inner_cleanup clk True ?r = (rc, r')"
        by fastforce
      then show ?thesis
        using ic un True not_incomplete_append [OF ic(4)]
        by (auto simp: hs have_cm_handle_data_def uncertain_new_def initial_uncertain_def
            output_inv_def mark_uncertain_keeps inner_handle_data_def buffer_handle_data_def
            intro: side_start_uncertain [OF side_start_cleanup(1) [OF c(1)]]
              side_start_uncertain [OF side_start_cleanup(1) [OF c(2)]]
              side_start_uncertain [OF side_start_cleanup(2) [OF c(1)]]
              side_start_uncertain [OF side_start_cleanup(2) [OF c(2)]])
    qed
  qed
qed

section \<open>The whole connection\<close>

definition conn_inv ::
    "identity \<Rightarrow> ('pk, 'n) connection \<Rightarrow> bytes \<Rightarrow> bytes \<Rightarrow> db_op list \<Rightarrow> bool" where
  "conn_inv ident conn dl dr ops \<longleftrightarrow>
     (let cn = cx_item conn; cid = connection_key_of cn in
      case cx_state conn of
        None \<Rightarrow> False
      | Some (Conn_Handshake h) \<Rightarrow> handshake_inv ident cn h dl dr \<and> ops = []
      | Some (Conn_Done l lmp r rmp) \<Rightarrow>
          side_inv cid False cn l dl ops \<and> side_inv cid True cn r dr ops)"

lemma conn_inv_open: "conn_inv ident (connection_open nanos addr incoming ident) [] [] []"
  by (simp add: conn_inv_def connection_open_def handshake_new_def handshake_inv_def half_inv_def
      initial_new_def buffer_default_def connection_new_def is_uncertain_def cannot_decrypt_at_def
      comments_default_def Let_def)

lemma handle_opt_chunk_records:
  assumes "\<forall>c'. c = Some c' \<longrightarrow> ci_bytes c' \<noteq> []"
  shows "\<exists>cn' mp' ops'. handle_opt_chunk clk c cn (mp, ops) = Inr (cn', mp', ops') \<and>
    stored_chunks ops' = stored_chunks ops @ (case c of None \<Rightarrow> [] | Some c' \<Rightarrow> [c']) \<and>
    same_but_suspicious cn cn'"
proof (cases c)
  case (Some c')
  then obtain cn' h' where "mp_handle_chunk clk c' cn (mp, ops) = Inr (cn', h')"
      "stored_chunks (snd h') = stored_chunks ops @ [c']" "same_but_suspicious cn cn'"
    using mp_handle_chunk_stores [of c' clk cn "(mp, ops)"] assms by auto
  with Some show ?thesis by (cases h') (auto simp: handle_opt_chunk_def)
qed (simp add: handle_opt_chunk_def)

lemma side_start_chunk:
  assumes "side_start cid s u st c d"
  shows "\<forall>c'. c = Some c' \<longrightarrow> ci_bytes c' \<noteq> []"
    "list_all (of_side cid s) (case c of None \<Rightarrow> [] | Some c' \<Rightarrow> [c'])"
  using assms by (auto simp: side_start_def slot_def split: option.splits)

lemma side_inv_start:
  assumes start: "side_start cid s u st c d"
    and chunks: "side_chunks s ops = (case c of None \<Rightarrow> [] | Some c' \<Rightarrow> [c'])"
    and cn: "is_uncertain cn = u" "cannot_decrypt_at s cn = None"
  shows "side_inv cid s cn st d ops"
proof -
  obtain cs where cs: "next_counter st = of_nat (length cs)" "\<not> u \<longrightarrow> concat cs @ pending st = d"
      "opened_state st \<longrightarrow> list_all framed cs" "in_cn_id (done_inner st) = cid"
      "\<not> cannot_decrypt_state st"
      "case c of None \<Rightarrow> cs = [] | Some c \<Rightarrow> \<exists>b. cs = [b] \<and> b \<noteq> [] \<and> slot c = (0, b) \<and> of_side cid s c"
    using start by (auto simp: side_start_def)
  have "recorded_as s cn cs ops"
    using cs(6) chunks cn(2) by (auto simp: recorded_as_def split: option.splits)
  with cs cn show ?thesis by (auto simp: side_inv_def)
qed

lemma conn_inv_handshake:
  assumes "output_inv cn cn' out dl dr"
  shows "\<exists>cn2 lmp rmp ops3.
    and_then (handle_opt_chunk clk (ho_l_chunk out) cn' (message_parser_new, [StoreConnection cn']))
      (\<lambda>(cn1, local_mp, ops2).
    and_then (handle_opt_chunk clk (ho_r_chunk out) cn1 (message_parser_new, ops2))
      (\<lambda>(cn2, remote_mp, ops3).
    Inr (\<lparr>cx_state = Some (Conn_Done (ho_local out) local_mp (ho_remote out) remote_mp),
          cx_item = cn2\<rparr>, ops3))) =
    Inr (\<lparr>cx_state = Some (Conn_Done (ho_local out) lmp (ho_remote out) rmp), cx_item = cn2\<rparr>, ops3) \<and>
    connection_key_of cn2 = connection_key_of cn \<and>
    side_inv (connection_key_of cn) False cn2 (ho_local out) dl ops3 \<and>
    side_inv (connection_key_of cn) True cn2 (ho_remote out) dr ops3"
proof -
  let ?cid = "connection_key_of cn"
  have l: "side_start ?cid False (is_uncertain cn') (ho_local out) (ho_l_chunk out) dl"
    and r: "side_start ?cid True (is_uncertain cn') (ho_remote out) (ho_r_chunk out) dr"
    and cn': "connection_key_of cn' = ?cid" "\<And>s. cannot_decrypt_at s cn' = None"
    using assms by (auto simp: output_inv_def)
  let ?lc = "case ho_l_chunk out of None \<Rightarrow> [] | Some c' \<Rightarrow> [c']"
  let ?rc = "case ho_r_chunk out of None \<Rightarrow> [] | Some c' \<Rightarrow> [c']"
  obtain cn1 lmp ops2 where 1: "handle_opt_chunk clk (ho_l_chunk out) cn'
        (message_parser_new, [StoreConnection cn']) = Inr (cn1, lmp, ops2)"
      "stored_chunks ops2 = ?lc" "same_but_suspicious cn' cn1"
    using handle_opt_chunk_records [OF side_start_chunk(1) [OF l],
        of clk cn' message_parser_new "[StoreConnection cn']"] by auto
  obtain cn2 rmp ops3 where 2: "handle_opt_chunk clk (ho_r_chunk out) cn1 (message_parser_new, ops2) =
        Inr (cn2, rmp, ops3)" "stored_chunks ops3 = ?lc @ ?rc" "same_but_suspicious cn1 cn2"
    using handle_opt_chunk_records [OF side_start_chunk(1) [OF r], of clk cn1 message_parser_new ops2]
      1(2) by auto
  have same: "same_but_suspicious cn' cn2" using 1 2 by (blast intro: same_but_suspicious_trans)
  have "side_chunks False ops3 = ?lc" "side_chunks True ops3 = ?rc"
    using filter_of_side [OF side_start_chunk(2) [OF l]] filter_of_side [OF side_start_chunk(2) [OF r]]
    by (simp_all add: side_chunks_def 2(2))
  with side_inv_start [OF l, of ops3 cn2] side_inv_start [OF r, of ops3 cn2]
  have "side_inv ?cid False cn2 (ho_local out) dl ops3" "side_inv ?cid True cn2 (ho_remote out) dr ops3"
    using cn' by (simp_all add: same_but_suspicious_keeps [OF same])
  with 1 2 cn' show ?thesis by (simp add: same_but_suspicious_keeps [OF same])
qed

lemma done_step_keeps:
  assumes "done_step s st cn st' cn' payload cs items"
  shows "is_uncertain cn' = is_uncertain cn" "connection_key_of cn' = connection_key_of cn"
    "s \<noteq> t \<Longrightarrow> cannot_decrypt_at t cn' = cannot_decrypt_at t cn"
proof -
  obtain cn1 where "same_but_suspicious cn1 cn'"
      "cn1 = cn \<or> (\<exists>p. cn1 = mark_cannot_decrypt s p cn)"
    using assms by (auto simp: done_step_def)
  then show "is_uncertain cn' = is_uncertain cn" "connection_key_of cn' = connection_key_of cn"
      "s \<noteq> t \<Longrightarrow> cannot_decrypt_at t cn' = cannot_decrypt_at t cn"
    by (auto simp: same_but_suspicious_keeps)
qed

lemma conn_inv_done_side:
  assumes "side_inv cid s cn st d ops" "side_inv cid (\<not> s) cn st2 d2 ops" "payload \<noteq> []"
    and "connection_key_of cn = cid"
  shows "\<exists>st' cn' mp' ops'. done_handle_data cr clk s (mp_handler clk) st payload net cn (mp, ops) =
      Inr (st', cn', mp', ops') \<and> connection_key_of cn' = cid \<and>
    side_inv cid s cn' st' (d @ payload) ops' \<and> side_inv cid (\<not> s) cn' st2 d2 ops'"
proof -
  obtain st' cn' h' cs items where r:
      "done_handle_data cr clk s (mp_handler clk) st payload net cn (mp, ops) = Inr (st', cn', h')"
      "stored_chunks (snd h') = stored_chunks ops @ items"
      "list_all (of_side (in_cn_id (done_inner st)) s) items"
      "done_step s st cn st' cn' payload cs items"
    using mp.done_records [OF assms(3), of cr clk s clk st net cn "(mp, ops)"] by auto
  have cid: "in_cn_id (done_inner st) = cid" using assms(1) by (simp add: side_inv_def)
  have keeps: "is_uncertain cn' = is_uncertain cn" "connection_key_of cn' = connection_key_of cn"
      "cannot_decrypt_at (\<not> s) cn' = cannot_decrypt_at (\<not> s) cn"
    using done_step_keeps [OF r(4)] by simp_all
  have "side_inv cid s cn' st' (d @ payload) (snd h')"
    using side_inv_step [OF assms(1) r(2) r(3) [unfolded cid] r(4)] .
  moreover have "side_inv cid (\<not> s) cn' st2 d2 (snd h')"
    using side_inv_other [OF assms(2) _ r(2) r(3) [unfolded cid] keeps(1,3)] by simp
  ultimately show ?thesis
    using r(1) keeps(2) assms(4) by (cases h') auto
qed

lemma connection_step:
  assumes cr: "crypto_total cr" "length (id_secret_key ident) = 32" and p: "payload \<noteq> []"
    and inv: "conn_inv ident conn dl dr ops"
  shows "\<exists>conn' ops'. connection_handle_data cr clk conn payload net incoming ops = Inr (conn', ops') \<and>
    connection_key_of (cx_item conn') = connection_key_of (cx_item conn) \<and>
    conn_inv ident conn' (if incoming then dl else dl @ payload)
      (if incoming then dr @ payload else dr) ops'"
proof -
  let ?cn = "cx_item conn"
  obtain state where st: "cx_state conn = Some state"
    using inv by (auto simp: conn_inv_def Let_def split: option.splits)
  show ?thesis
  proof (cases state)
    case (Conn_Handshake h)
    then have h: "handshake_inv ident ?cn h dl dr" "ops = []"
      using inv st by (simp_all add: conn_inv_def)
    obtain r cn' where hr: "handshake_handle_data cr clk h payload net incoming ?cn = Inr (r, cn')"
        "case r of
           Inl h' \<Rightarrow> cn' = ?cn \<and> handshake_inv ident ?cn h'
             (if incoming then dl else dl @ payload) (if incoming then dr @ payload else dr)
         | Inr out \<Rightarrow> output_inv ?cn cn' out
             (if incoming then dl else dl @ payload) (if incoming then dr @ payload else dr)"
      using handshake_step [OF cr h(1), of clk payload net incoming] by blast
    show ?thesis
    proof (cases r)
      case (Inl h')
      with hr st Conn_Handshake h show ?thesis
        by (simp add: connection_handle_data_def conn_inv_def)
    next
      case (Inr out)
      with hr(2) have "output_inv ?cn cn' out
          (if incoming then dl else dl @ payload) (if incoming then dr @ payload else dr)" by simp
      from conn_inv_handshake [OF this, of clk] show ?thesis
        using hr(1) Inr st Conn_Handshake h(2)
        by (auto simp: connection_handle_data_def conn_inv_def Let_def)
    qed
  next
    case (Conn_Done l lmp r rmp)
    then have s: "side_inv (connection_key_of ?cn) False ?cn l dl ops"
        "side_inv (connection_key_of ?cn) True ?cn r dr ops"
      using inv st by (simp_all add: conn_inv_def Let_def)
    show ?thesis
    proof (cases incoming)
      case True
      with conn_inv_done_side [OF s(2) _ p refl, of l dl cr clk net rmp] s(1) show ?thesis
        using st Conn_Done by (auto simp: connection_handle_data_def conn_inv_def Let_def)
    next
      case False
      with conn_inv_done_side [OF s(1) _ p refl, of r dr cr clk net lmp] s(2) show ?thesis
        using st Conn_Done by (auto simp: connection_handle_data_def conn_inv_def Let_def)
    qed
  qed
qed

lemma fed_simps [simp]:
  "fed s [] = []"
  "fed s ((payload, net, incoming) # evs) = (if incoming = s then payload else []) @ fed s evs"
  by (simp_all add: fed_def)

lemma connection_run_inv:
  assumes "crypto_total cr" "length (id_secret_key ident) = 32"
    and "list_all (\<lambda>ev. fst ev \<noteq> []) evs"
    and "conn_inv ident conn dl dr ops"
  shows "\<exists>conn' ops'. connection_run cr clk evs conn ops = Inr (conn', ops') \<and>
    connection_key_of (cx_item conn') = connection_key_of (cx_item conn) \<and>
    conn_inv ident conn' (dl @ fed False evs) (dr @ fed True evs) ops'"
  using assms(3,4)
proof (induction evs arbitrary: conn dl dr ops)
  case (Cons ev evs)
  obtain payload net incoming where ev: "ev = (payload, net, incoming)" by (cases ev)
  then have p: "payload \<noteq> []" using Cons.prems(1) by simp
  obtain conn1 ops1 where 1: "connection_handle_data cr clk conn payload net incoming ops = Inr (conn1, ops1)"
      "connection_key_of (cx_item conn1) = connection_key_of (cx_item conn)"
      "conn_inv ident conn1 (if incoming then dl else dl @ payload)
        (if incoming then dr @ payload else dr) ops1"
    using connection_step [OF assms(1,2) p Cons.prems(2)] by blast
  have "list_all (\<lambda>ev. fst ev \<noteq> []) evs" using Cons.prems(1) by simp
  from Cons.IH [OF this 1(3)] show ?case
    using 1 by (auto simp: ev split: if_splits)
qed simp

section \<open>Properties\<close>

definition half_inner :: "half \<Rightarrow> inner" where
  "half_inner h = (case h of Half_Initial i \<Rightarrow> i | Half_HaveCm i \<Rightarrow> i)"

text \<open>The bytes of direction \<open>s\<close> that are not cut yet.\<close>

definition buffered :: "bool \<Rightarrow> ('pk, 'n) connection \<Rightarrow> bytes" where
  "buffered s conn =
     (case cx_state conn of
        None \<Rightarrow> []
      | Some (Conn_Handshake h) \<Rightarrow> buf_data (in_buffer (half_inner (if s then hs_remote h else hs_local h)))
      | Some (Conn_Done l lmp r rmp) \<Rightarrow> pending (if s then r else l))"

lemma conn_inv_recorded:
  assumes "conn_inv ident conn dl dr ops" "\<not> is_uncertain (cx_item conn)"
  shows "\<exists>cs. concat cs @ buffered s conn = (if s then dr else dl) \<and> recorded_as s (cx_item conn) cs ops"
proof -
  obtain state where st: "cx_state conn = Some state"
    using assms by (auto simp: conn_inv_def Let_def split: option.splits)
  show ?thesis
  proof (cases state)
    case (Conn_Handshake h)
    then have h: "handshake_inv ident (cx_item conn) h dl dr" "ops = []"
      using assms st by (simp_all add: conn_inv_def)
    then have "buffered s conn = (if s then dr else dl)"
      using st Conn_Handshake
      by (auto simp: buffered_def half_inner_def handshake_inv_def half_inv_def split: half.splits)
    moreover have "recorded_as s (cx_item conn) [] ops"
      using h by (simp add: recorded_as_def handshake_inv_def side_chunks_def)
    ultimately show ?thesis by (intro exI [of _ "[]"]) simp
  next
    case (Conn_Done l lmp r rmp)
    then show ?thesis
      using assms st by (cases s) (auto simp: conn_inv_def side_inv_def buffered_def Let_def)
  qed
qed

text \<open>
  C2: Recording a connection never panics and loses nothing. For any sequence of payloads (none
  empty, as the main loop guarantees) from a fresh connection, with a cryptography that accepts
  32-byte keys, the processing ends normally; and unless the connection was marked uncertain, in
  each direction the bytes of the recorded chunks, numbered from 0 in order, followed by the bytes
  still in the buffer, are exactly the bytes sent in that direction. The only chunk that can be
  missing is the one at the position the comments note as impossible to decrypt.
\<close>

theorem connection_records_stream:
  assumes "crypto_total cr" and "length (id_secret_key ident) = 32"
    and "list_all (\<lambda>ev. fst ev \<noteq> []) evs"
  shows "\<exists>conn ops. connection_run cr clk evs (connection_open nanos addr incoming ident) [] =
      Inr (conn, ops) \<and>
    (\<not> is_uncertain (cx_item conn) \<longrightarrow>
      (\<forall>s. \<exists>cs. concat cs @ buffered s conn = fed s evs \<and> recorded_as s (cx_item conn) cs ops))"
proof -
  obtain conn ops where "connection_run cr clk evs (connection_open nanos addr incoming ident) [] =
        Inr (conn, ops)" "conn_inv ident conn (fed False evs) (fed True evs) ops"
    using connection_run_inv [OF assms conn_inv_open, of clk nanos addr incoming] by auto
  moreover have "\<exists>cs. concat cs @ buffered s conn = fed s evs \<and> recorded_as s (cx_item conn) cs ops"
    if "\<not> is_uncertain (cx_item conn)" for s
    using conn_inv_recorded [OF calculation(2) that, of s] by (cases s) simp_all
  ultimately show ?thesis by blast
qed

lemma crypto_total_sample: "crypto_total sample_crypto"
  by (simp add: crypto_total_def sample_crypto_def)

theorem connection_records_stream_witness:
  "\<exists>conn ops. connection_run sample_crypto sample_clock [([0, 1, 7], True, False), ([0, 2, 8], True, True)]
      (connection_open 5 sample_addr True sample_identity) [] = Inr (conn, ops) \<and>
    (\<not> is_uncertain (cx_item conn) \<longrightarrow>
      (\<forall>s. \<exists>cs. concat cs @ buffered s conn =
          fed s [([0, 1, 7], True, False), ([0, 2, 8], True, True)] \<and>
        recorded_as s (cx_item conn) cs ops))"
  by (rule connection_records_stream) (simp_all add: crypto_total_sample sample_identity_def)

text \<open>
  After the handshake has produced keys, every payload is cut completely. If the state of
  direction \<open>s\<close> holds a key (or has already failed to decrypt), then after any further payload of
  that direction no complete chunk is left in its buffer, and the other direction is untouched.
\<close>

theorem connection_drains:
  assumes "payload \<noteq> []"
    and "cx_state conn = Some (Conn_Done l lmp r rmp)" and "opened_state (if s then r else l)"
  shows "\<exists>conn' ops'. connection_handle_data cr clk conn payload net s ops = Inr (conn', ops') \<and>
    incomplete (buffered s conn') \<and> buffered (\<not> s) conn' = buffered (\<not> s) conn"
proof -
  let ?st = "if s then r else l" and ?mp = "if s then rmp else lmp"
  obtain st' cn' h' cs items where r:
      "done_handle_data cr clk s (mp_handler clk) ?st payload net (cx_item conn) (?mp, ops) =
        Inr (st', cn', h')"
      "done_step s ?st (cx_item conn) st' cn' payload cs items"
    using mp.done_records [OF assms(1), of cr clk s clk ?st net "cx_item conn" "(?mp, ops)"] by blast
  then have "incomplete (pending st')" using assms(3) by (simp add: done_step_def)
  then show ?thesis
    using r(1) assms(2) by (cases h'; cases s) (simp_all add: connection_handle_data_def buffered_def)
qed

theorem connection_drains_witness:
  "\<exists>conn' ops'. connection_handle_data sample_crypto sample_clock
      \<lparr>cx_state = Some (Conn_Done
         (Done_HaveKey (inner_at (connection_key_of sample_connection) sample_identity 1 [])
            \<lparr>key_key = [], key_nonce = 0\<rparr>) message_parser_new
         (Done_Uncertain (initial_new (connection_key_of sample_connection) sample_identity))
         message_parser_new),
       cx_item = sample_connection\<rparr> [0, 1, 0, 0] True False [] = Inr (conn', ops') \<and>
    incomplete (buffered False conn') \<and> buffered (\<not> False) conn' =
      buffered (\<not> False) \<lparr>cx_state = Some (Conn_Done
         (Done_HaveKey (inner_at (connection_key_of sample_connection) sample_identity 1 [])
            \<lparr>key_key = ([] :: bytes), key_nonce = (0 :: nat)\<rparr>) message_parser_new
         (Done_Uncertain (initial_new (connection_key_of sample_connection) sample_identity))
         message_parser_new),
       cx_item = sample_connection\<rparr>"
  by (rule connection_drains, simp, simp, simp)

end
