(* ===== verification/Db_Store.thy ===== *)
theory Db_Store
  imports Rocks_Db Connection_Processor
begin

text \<open>
  What the database holds. The assumptions on the key-value store are its documented behaviour: a
  store is a map from encoded keys to rows per table, putting and deleting change one entry, getting returns
  what was put. The database refines a map from row numbers to messages: storing extends it and drops the
  message that falls out of the limit, and all secondary indexes agree with it.
\<close>

section \<open>The assumptions on the store\<close>

fun schema_of :: "row_key \<Rightarrow> schema" where
  "schema_of (Key_Connection _) = Sc_Connection"
| "schema_of (Key_Chunk _) = Sc_Chunk"
| "schema_of (Key_Message _) = Sc_Message"
| "schema_of (Key_Log _) = Sc_Log"
| "schema_of (Key_Ty _) = Sc_Ty"
| "schema_of (Key_Sender _) = Sc_Sender"
| "schema_of (Key_Initiator _) = Sc_Initiator"
| "schema_of (Key_Addr _) = Sc_Addr"
| "schema_of (Key_Timestamp _) = Sc_Timestamp"
| "schema_of (Key_Level _) = Sc_Level"
| "schema_of (Key_LogTimestamp _) = Sc_LogTimestamp"

fun key_bytes :: "(u64 \<Rightarrow> bytes) \<Rightarrow> row_key \<Rightarrow> bytes" where
  "key_bytes u (Key_Connection k) = connection_key_encode k"
| "key_bytes u (Key_Chunk k) = chunk_key_encode k"
| "key_bytes u (Key_Message i) = u i"
| "key_bytes u (Key_Log i) = u i"
| "key_bytes u (Key_Ty k) = message_ty_encode k"
| "key_bytes u (Key_Sender k) = message_sender_encode k"
| "key_bytes u (Key_Initiator k) = message_initiator_encode k"
| "key_bytes u (Key_Addr k) = message_addr_encode k"
| "key_bytes u (Key_Timestamp k) = timestamp_encode k"
| "key_bytes u (Key_Level k) = log_level_encode k"
| "key_bytes u (Key_LogTimestamp k) = timestamp_encode k"

type_synonym location = "schema \<times> bytes"

definition loc :: "'st kv \<Rightarrow> row_key \<Rightarrow> location" where
  "loc kv k = (schema_of k, key_bytes (kv_u64 kv) k)"

text \<open>
  \<open>view\<close> is the content of a store. A value is read back as it was put, except a connection, whose own
  encoding is read back by its own decoder.
\<close>

definition kv_laws :: "'st kv \<Rightarrow> ('st \<Rightarrow> location \<Rightarrow> row option) \<Rightarrow> bool" where
  "kv_laws kv view \<longleftrightarrow>
     inj (kv_u64 kv) \<and>
     (\<forall>k v s s'. kv_put kv k v s = Inr s' \<longrightarrow> view s' = (view s)(loc kv k \<mapsto> v)) \<and>
     (\<forall>k s s'. kv_delete kv k s = Inr s' \<longrightarrow> view s' = (view s)(loc kv k := None)) \<and>
     (\<forall>k s r. schema_of k \<noteq> Sc_Connection \<longrightarrow> kv_get kv k s = Inr r \<longrightarrow> r = view s (loc kv k))"

text \<open>No operation fails.\<close>

definition kv_reliable :: "'st kv \<Rightarrow> bool" where
  "kv_reliable kv \<longleftrightarrow>
     (\<forall>k v s. \<not> isl (kv_put kv k v s)) \<and> (\<forall>k s. \<not> isl (kv_delete kv k s)) \<and>
     (\<forall>k s. \<not> isl (kv_get kv k s))"

lemma kv_put_ok:
  assumes "kv_laws kv view" "kv_reliable kv"
  obtains s' where "kv_put kv k v s = Inr s'" "view s' = (view s)(loc kv k \<mapsto> v)"
proof (cases "kv_put kv k v s")
  case (Inl e)
  then show thesis using assms(2) unfolding kv_reliable_def by (metis sum.disc(1))
next
  case (Inr s')
  with assms(1) that show thesis unfolding kv_laws_def by blast
qed

lemma kv_delete_ok:
  assumes "kv_laws kv view" "kv_reliable kv"
  obtains s' where "kv_delete kv k s = Inr s'" "view s' = (view s)(loc kv k := None)"
proof (cases "kv_delete kv k s")
  case (Inl e)
  then show thesis using assms(2) unfolding kv_reliable_def by (metis sum.disc(1))
next
  case (Inr s')
  with assms(1) that show thesis unfolding kv_laws_def by blast
qed

lemma kv_get_ok:
  assumes "kv_laws kv view" "kv_reliable kv" "schema_of k \<noteq> Sc_Connection"
  shows "kv_get kv k s = Inr (view s (loc kv k))"
proof (cases "kv_get kv k s")
  case (Inl e)
  then show ?thesis using assms(2) unfolding kv_reliable_def by (metis sum.disc(1))
next
  case (Inr r)
  with assms(1,3) show ?thesis unfolding kv_laws_def by blast
qed

definition locs :: "'st kv \<Rightarrow> (row_key \<times> row) list \<Rightarrow> (location \<times> row) list" where
  "locs kv rows = map (\<lambda>(k, r). (loc kv k, r)) rows"

lemma kv_puts_ok:
  assumes "kv_laws kv view" "kv_reliable kv"
  shows "\<exists>s'. kv_puts kv rows s = (Inr (), s') \<and> view s' = view s ++ map_of (rev (locs kv rows))"
proof (induction rows arbitrary: s)
  case (Cons row rows)
  obtain k v where row: "row = (k, v)" by (cases row)
  obtain s1 where s1: "kv_put kv k v s = Inr s1" "view s1 = (view s)(loc kv k \<mapsto> v)"
    using kv_put_ok [OF assms] .
  obtain s2 where "kv_puts kv rows s1 = (Inr (), s2)" "view s2 = view s1 ++ map_of (rev (locs kv rows))"
    using Cons.IH by blast
  then show ?case
    using s1 by (auto simp: row locs_def map_add_def fun_eq_iff map_of_append split: option.splits)
qed (simp add: locs_def)

lemma kv_deletes_ok:
  assumes "kv_laws kv view" "kv_reliable kv"
  shows "\<exists>s'. kv_deletes kv ks s = (Inr (), s') \<and> view s' = view s |` (- loc kv ` set ks)"
proof (induction ks arbitrary: s)
  case (Cons k ks)
  obtain s1 where s1: "kv_delete kv k s = Inr s1" "view s1 = (view s)(loc kv k := None)"
    using kv_delete_ok [OF assms] .
  obtain s2 where "kv_deletes kv ks s1 = (Inr (), s2)" "view s2 = view s1 |` (- loc kv ` set ks)"
    using Cons.IH by blast
  then show ?case using s1 by (auto simp: restrict_map_def fun_eq_iff)
qed (simp add: restrict_map_def)

section \<open>Messages and their indexes\<close>

definition message_schemas :: "schema set" where
  "message_schemas = {Sc_Message, Sc_Ty, Sc_Sender, Sc_Initiator, Sc_Addr, Sc_Timestamp}"

definition message_rows :: "message_item \<Rightarrow> u64 \<Rightarrow> (row_key \<times> row) list" where
  "message_rows m i = map (\<lambda>k. (k, Row_Unit)) (message_indexes m i) @ [(Key_Message i, Row_Message m)]"

text \<open>Row numbers that every index can represent, and addresses of the right length.\<close>

definition wf_row :: "message_item \<Rightarrow> u64 \<Rightarrow> bool" where
  "wf_row m i \<longleftrightarrow> unat i < 2 ^ 48 \<and> wf_ip (sa_ip (msg_remote_addr m))"

text \<open>The store holds exactly the messages \<open>msgs\<close>, each with its five index rows.\<close>

definition holds_messages ::
    "'st kv \<Rightarrow> ('st \<Rightarrow> location \<Rightarrow> row option) \<Rightarrow> 'st \<Rightarrow> (u64 \<Rightarrow> message_item option) \<Rightarrow> bool" where
  "holds_messages kv view s msgs \<longleftrightarrow>
     (\<forall>l r. fst l \<in> message_schemas \<longrightarrow>
        (view s l = Some r \<longleftrightarrow> (\<exists>i m. msgs i = Some m \<and> (l, r) \<in> set (locs kv (message_rows m i)))))"

lemma holds_messagesD:
  "holds_messages kv view s msgs \<Longrightarrow> fst l \<in> message_schemas \<Longrightarrow>
   view s l = Some r \<longleftrightarrow> (\<exists>i m. msgs i = Some m \<and> (l, r) \<in> set (locs kv (message_rows m i)))"
  unfolding holds_messages_def by blast

lemma message_rows_cases:
  assumes "(l, r) \<in> set (locs kv (message_rows m i))"
  shows "(l, r) = ((Sc_Ty, message_ty_encode \<lparr>mty_ty = msg_ty m, mty_index = i\<rparr>), Row_Unit) \<or>
    (l, r) = ((Sc_Sender, message_sender_encode \<lparr>ms_sender = msg_sender m, ms_index = i\<rparr>), Row_Unit) \<or>
    (l, r) = ((Sc_Initiator, message_initiator_encode \<lparr>mi_initiator = msg_initiator m, mi_index = i\<rparr>), Row_Unit) \<or>
    (l, r) = ((Sc_Addr, message_addr_encode \<lparr>ma_addr = msg_remote_addr m, ma_index = i\<rparr>), Row_Unit) \<or>
    (l, r) = ((Sc_Timestamp, timestamp_encode \<lparr>ts_timestamp = msg_timestamp m, ts_index = i\<rparr>), Row_Unit) \<or>
    (l, r) = ((Sc_Message, kv_u64 kv i), Row_Message m)"
  using assms by (simp add: locs_def message_rows_def message_indexes_def loc_def)

lemma message_addr_encode_index:
  assumes "wf_row m i" "wf_row m' j"
    and "message_addr_encode \<lparr>ma_addr = msg_remote_addr m, ma_index = i\<rparr> =
      message_addr_encode \<lparr>ma_addr = msg_remote_addr m', ma_index = j\<rparr>"
  shows "i = j"
proof -
  have "wf_message_addr \<lparr>ma_addr = msg_remote_addr m, ma_index = i\<rparr>"
    "wf_message_addr \<lparr>ma_addr = msg_remote_addr m', ma_index = j\<rparr>"
    using assms(1,2) by (simp_all add: wf_row_def wf_message_addr_def)
  from this [THEN message_addr_decode_encode] show ?thesis using assms(3) by simp
qed

lemma same_location:
  assumes "inj (kv_u64 kv)" "wf_row m i" "wf_row m' j"
    and "(l, r) \<in> set (locs kv (message_rows m i))" "(l, r') \<in> set (locs kv (message_rows m' j))"
  shows "i = j"
proof -
  have s: "unat i < 2 ^ 56" "unat j < 2 ^ 56" using assms(2,3) by (simp_all add: wf_row_def)
  have ty: "message_ty_encode \<lparr>mty_ty = a, mty_index = i\<rparr> = message_ty_encode \<lparr>mty_ty = b, mty_index = j\<rparr> \<Longrightarrow> i = j" for a b
    using s message_ty.encode_eq_iff [of "\<lparr>mty_ty = a, mty_index = i\<rparr>" "\<lparr>mty_ty = b, mty_index = j\<rparr>"]
    by (simp add: message_ty.small_def)
  have sender: "message_sender_encode \<lparr>ms_sender = a, ms_index = i\<rparr> = message_sender_encode \<lparr>ms_sender = b, ms_index = j\<rparr> \<Longrightarrow> i = j" for a b
    using s message_sender.encode_eq_iff [of "\<lparr>ms_sender = a, ms_index = i\<rparr>" "\<lparr>ms_sender = b, ms_index = j\<rparr>"]
    by (simp add: message_sender.small_def)
  have init: "message_initiator_encode \<lparr>mi_initiator = a, mi_index = i\<rparr> = message_initiator_encode \<lparr>mi_initiator = b, mi_index = j\<rparr> \<Longrightarrow> i = j" for a b
    using s message_initiator.encode_eq_iff [of "\<lparr>mi_initiator = a, mi_index = i\<rparr>" "\<lparr>mi_initiator = b, mi_index = j\<rparr>"]
    by (simp add: message_initiator.small_def)
  have ts: "timestamp_encode \<lparr>ts_timestamp = a, ts_index = i\<rparr> = timestamp_encode \<lparr>ts_timestamp = b, ts_index = j\<rparr> \<Longrightarrow> i = j" for a b
    using timestamp.encode_eq_iff [of "\<lparr>ts_timestamp = a, ts_index = i\<rparr>" "\<lparr>ts_timestamp = b, ts_index = j\<rparr>"] by simp
  show ?thesis
    using message_rows_cases [OF assms(4)] message_rows_cases [OF assms(5)] ty sender init ts
      message_addr_encode_index [OF assms(2,3)] injD [OF assms(1), of i j]
    by (elim disjE) auto
qed

lemma same_row:
  "(l, r) \<in> set (locs kv (message_rows m i)) \<Longrightarrow> (l, r') \<in> set (locs kv (message_rows m i)) \<Longrightarrow> r = r'"
  by (drule message_rows_cases, drule message_rows_cases) auto

lemma message_rows_schema:
  "(l, r) \<in> set (locs kv (message_rows m i)) \<Longrightarrow> fst l \<in> message_schemas"
  by (drule message_rows_cases) (auto simp: message_schemas_def)

lemma map_of_locs_message:
  "map_of (rev (locs kv (message_rows m i))) l = Some r \<longleftrightarrow> (l, r) \<in> set (locs kv (message_rows m i))"
proof
  assume "(l, r) \<in> set (locs kv (message_rows m i))"
  then obtain r' where r': "map_of (rev (locs kv (message_rows m i))) l = Some r'"
    by (metis map_of_eq_None_iff not_Some_eq set_rev image_eqI fst_conv)
  then have "(l, r') \<in> set (locs kv (message_rows m i))" by (auto dest: map_of_SomeD)
  then show "map_of (rev (locs kv (message_rows m i))) l = Some r"
    using r' same_row \<open>(l, r) \<in> _\<close> by metis
qed (auto dest: map_of_SomeD)
section \<open>Storing refines a map\<close>

lemma ex_removed: "(\<exists>j m. (f(i := None)) j = Some m \<and> P j m) \<longleftrightarrow> (\<exists>j m. j \<noteq> i \<and> f j = Some m \<and> P j m)"
  by (auto split: if_splits)

lemma ex_updated:
  "(\<exists>j m'. (f(i \<mapsto> m)) j = Some m' \<and> P j m') \<longleftrightarrow> P i m \<or> (\<exists>j m'. j \<noteq> i \<and> f j = Some m' \<and> P j m')"
  by (auto split: if_splits)

lemma holds_get:
  assumes "kv_laws kv view" "kv_reliable kv" "holds_messages kv view s msgs"
    and "\<forall>j m. msgs j = Some m \<longrightarrow> wf_row m j"
  shows "get_message kv i s = Inr (msgs i)"
proof -
  let ?l = "(Sc_Message, kv_u64 kv i)"
  have g: "kv_get kv (Key_Message i) s = Inr (view s ?l)"
    using kv_get_ok [OF assms(1,2), of "Key_Message i" s] by (simp add: loc_def)
  have inj: "inj (kv_u64 kv)" using assms(1) by (simp add: kv_laws_def)
  have row: "view s ?l = Some r \<longleftrightarrow> (\<exists>m. msgs i = Some m \<and> r = Row_Message m)" for r
  proof -
    have "view s ?l = Some r \<longleftrightarrow> (\<exists>j m. msgs j = Some m \<and> (?l, r) \<in> set (locs kv (message_rows m j)))"
      using assms(3) by (simp add: holds_messages_def message_schemas_def)
    moreover have "(?l, r) \<in> set (locs kv (message_rows m j)) \<longleftrightarrow> j = i \<and> r = Row_Message m" for j m
      using injD [OF inj, of i j] by (auto simp: locs_def message_rows_def message_indexes_def loc_def)
    ultimately show ?thesis by auto
  qed
  show ?thesis
  proof (cases "msgs i")
    case None
    then have "view s ?l = None" using row by (cases "view s ?l") auto
    then show ?thesis using g None by (simp add: get_message_def map_ok_def)
  next
    case (Some m)
    then have "view s ?l = Some (Row_Message m)" using row by blast
    then show ?thesis using g Some by (simp add: get_message_def map_ok_def)
  qed
qed

lemma remove_message_refines:
  assumes laws: "kv_laws kv view" "kv_reliable kv" and h: "holds_messages kv view s msgs"
    and wf: "\<forall>j m. msgs j = Some m \<longrightarrow> wf_row m j"
  shows "\<exists>s'. remove_message kv i s = (Inr (), s') \<and> holds_messages kv view s' (msgs(i := None)) \<and>
    (\<forall>l. fst l \<notin> message_schemas \<longrightarrow> (\<forall>m. msgs i = Some m \<longrightarrow>
       l \<notin> loc kv ` Key_Chunk ` set (message_chunks m)) \<longrightarrow> view s' l = view s l)"
proof (cases "msgs i")
  case None
  then have "msgs(i := None) = msgs" by auto
  then show ?thesis using holds_get [OF laws h wf, of i] None h by (simp add: remove_message_def)
next
  case (Some m)
  let ?ks = "map Key_Chunk (message_chunks m) @ message_indexes m i @ [Key_Message i]"
  obtain s' where s': "kv_deletes kv ?ks s = (Inr (), s')" "view s' = view s |` (- loc kv ` set ?ks)"
    using kv_deletes_ok [OF laws] by blast
  have inj: "inj (kv_u64 kv)" using laws(1) by (simp add: kv_laws_def)
  have rows: "loc kv ` set (message_indexes m i @ [Key_Message i]) = fst ` set (locs kv (message_rows m i))"
    by (auto simp: locs_def message_rows_def image_image)
  have gone: "view s' l = (if l \<in> fst ` set (locs kv (message_rows m i)) then None else view s l)"
    if "fst l \<in> message_schemas" for l
  proof -
    have "l \<notin> loc kv ` Key_Chunk ` set (message_chunks m)"
      using that by (auto simp: loc_def message_schemas_def)
    then show ?thesis using s'(2) rows by (simp add: restrict_map_def image_Un image_image) blast
  qed
  have "holds_messages kv view s' (msgs(i := None))"
    unfolding holds_messages_def
  proof (intro allI impI)
    fix l :: location and r assume l: "fst l \<in> message_schemas"
    have old: "view s l = Some r \<longleftrightarrow> (\<exists>j m. msgs j = Some m \<and> (l, r) \<in> set (locs kv (message_rows m j)))"
      by (rule holds_messagesD [OF h l])
    have other: "j = i" if a: "msgs j = Some m'" "(l, r) \<in> set (locs kv (message_rows m' j))"
        "l \<in> fst ` set (locs kv (message_rows m i))" for j m'
    proof -
      obtain r' where "(l, r') \<in> set (locs kv (message_rows m i))" using a(3) by force
      with a(2) show ?thesis
        by (rule same_location [OF inj wf [rule_format, OF a(1)] wf [rule_format, OF Some]])
    qed
    show "view s' l = Some r \<longleftrightarrow>
        (\<exists>j m. (msgs(i := None)) j = Some m \<and> (l, r) \<in> set (locs kv (message_rows m j)))"
    proof (cases "l \<in> fst ` set (locs kv (message_rows m i))")
      case True
      then have "view s' l = None" using gone [OF l] by simp
      then show ?thesis unfolding ex_removed using other True by auto
    next
      case False
      have "(l, r) \<notin> set (locs kv (message_rows m i))" using False by force
      then have "msgs j = Some m' \<and> (l, r) \<in> set (locs kv (message_rows m' j)) \<Longrightarrow> j \<noteq> i" for j m'
        using Some by auto
      moreover have "view s' l = view s l" using False gone [OF l] by simp
      ultimately show ?thesis unfolding ex_removed using old by metis
    qed
  qed
  moreover have "view s' l = view s l"
    if "fst l \<notin> message_schemas" "l \<notin> loc kv ` Key_Chunk ` set (message_chunks m)" for l
  proof -
    have "l \<notin> fst ` set (locs kv (message_rows m i))" using that(1) message_rows_schema by force
    then have "l \<notin> loc kv ` set ?ks" using that(2) rows by (simp add: image_Un image_image) blast
    then show ?thesis using s'(2) by (simp add: restrict_map_def)
  qed
  ultimately show ?thesis
    using holds_get [OF laws h wf, of i] Some s'(1) by (simp add: remove_message_def)
qed

lemma put_message_refines:
  assumes laws: "kv_laws kv view" "kv_reliable kv" and h: "holds_messages kv view s msgs"
    and wf: "\<forall>j m. msgs j = Some m \<longrightarrow> wf_row m j" and "msgs i = None" "wf_row m i"
  shows "\<exists>s'. kv_puts kv (message_rows m i) s = (Inr (), s') \<and> holds_messages kv view s' (msgs(i \<mapsto> m)) \<and>
    (\<forall>l. fst l \<notin> message_schemas \<longrightarrow> view s' l = view s l)"
proof -
  let ?new = "map_of (rev (locs kv (message_rows m i)))"
  obtain s' where s': "kv_puts kv (message_rows m i) s = (Inr (), s')" "view s' = view s ++ ?new"
    using kv_puts_ok [OF laws] by blast
  have inj: "inj (kv_u64 kv)" using laws(1) by (simp add: kv_laws_def)
  have "holds_messages kv view s' (msgs(i \<mapsto> m))"
    unfolding holds_messages_def
  proof (intro allI impI)
    fix l :: location and r assume l: "fst l \<in> message_schemas"
    have old: "view s l = Some r \<longleftrightarrow> (\<exists>j m. msgs j = Some m \<and> (l, r) \<in> set (locs kv (message_rows m j)))"
      by (rule holds_messagesD [OF h l])
    show "view s' l = Some r \<longleftrightarrow>
        (\<exists>j m'. (msgs(i \<mapsto> m)) j = Some m' \<and> (l, r) \<in> set (locs kv (message_rows m' j)))"
    proof (cases "?new l")
      case None
      then have "(l, r) \<notin> set (locs kv (message_rows m i))"
        using map_of_locs_message [of kv m i l r] by auto
      moreover have "view s' l = view s l" using None s'(2) by (simp add: map_add_def)
      moreover have "msgs j = Some m' \<Longrightarrow> j \<noteq> i" for j m' using assms(5) by auto
      ultimately show ?thesis unfolding ex_updated using old by metis
    next
      case (Some r')
      then have new: "(l, r') \<in> set (locs kv (message_rows m i))" by (simp add: map_of_locs_message)
      have "(l, r'') \<notin> set (locs kv (message_rows m' j))" if a: "msgs j = Some m'" for j m' r''
        using same_location [OF inj assms(6) wf [rule_format, OF a] new] a assms(5) by auto
      moreover have "view s' l = Some r'" using Some s'(2) by (simp add: map_add_def)
      moreover have "(l, r) \<in> set (locs kv (message_rows m i)) \<longleftrightarrow> r = r'" using new same_row [OF new] by blast
      ultimately show ?thesis unfolding ex_updated by auto
    qed
  qed
  moreover have "view s' l = view s l" if "fst l \<notin> message_schemas" for l
  proof -
    have "?new l = None"
      using that map_of_locs_message [of kv m i l] message_rows_schema [of l _ kv m i]
      by (cases "?new l") auto
    then show ?thesis using s'(2) by (simp add: map_add_def)
  qed
  ultimately show ?thesis using s'(1) by blast
qed

text \<open>The abstract database: a map that drops the message that falls out of the limit.\<close>

definition drop_old :: "u64 option \<Rightarrow> u64 \<Rightarrow> (u64 \<Rightarrow> 'm option) \<Rightarrow> u64 \<Rightarrow> 'm option" where
  "drop_old limit index msgs =
     (case limit of
        None \<Rightarrow> msgs
      | Some store_limit \<Rightarrow> if store_limit \<le> index then msgs(index - store_limit := None) else msgs)"

lemma drop_old_some: "drop_old limit index msgs j = Some m \<Longrightarrow> msgs j = Some m"
  by (auto simp: drop_old_def split: option.splits if_splits)

lemma store_message_refines:
  assumes laws: "kv_laws kv view" "kv_reliable kv" and h: "holds_messages kv view (db_inner db) msgs"
    and wf: "\<forall>j m. msgs j = Some m \<longrightarrow> wf_row m j"
    and free: "msgs (db_message_counter db) = None" and new: "wf_row m (db_message_counter db)"
  defines "index \<equiv> db_message_counter db" and "limit \<equiv> db_message_store_limit db"
  shows "holds_messages kv view (db_inner (store_message kv m db)) ((drop_old limit index msgs)(index \<mapsto> m)) \<and>
    (\<forall>l. fst l \<notin> message_schemas \<longrightarrow>
       (\<forall>j m'. msgs j = Some m' \<and> drop_old limit index msgs j = None \<longrightarrow>
          l \<notin> loc kv ` Key_Chunk ` set (message_chunks m')) \<longrightarrow>
       view (db_inner (store_message kv m db)) l = view (db_inner db) l)"
proof -
  define s where "s = (case limit of
      None \<Rightarrow> db_inner db
    | Some store_limit \<Rightarrow>
        if store_limit \<le> index then snd (remove_message kv (index - store_limit) (db_inner db)) else db_inner db)"
  have s: "holds_messages kv view s (drop_old limit index msgs) \<and>
    (\<forall>l. fst l \<notin> message_schemas \<longrightarrow>
       (\<forall>j m'. msgs j = Some m' \<and> drop_old limit index msgs j = None \<longrightarrow>
          l \<notin> loc kv ` Key_Chunk ` set (message_chunks m')) \<longrightarrow> view s l = view (db_inner db) l)"
  proof (cases "\<exists>store_limit. limit = Some store_limit \<and> store_limit \<le> index")
    case True
    then obtain store_limit where lim: "limit = Some store_limit" "store_limit \<le> index" by blast
    obtain s' where "remove_message kv (index - store_limit) (db_inner db) = (Inr (), s')"
        "holds_messages kv view s' (msgs(index - store_limit := None))"
        "\<forall>l. fst l \<notin> message_schemas \<longrightarrow> (\<forall>m. msgs (index - store_limit) = Some m \<longrightarrow>
           l \<notin> loc kv ` Key_Chunk ` set (message_chunks m)) \<longrightarrow> view s' l = view (db_inner db) l"
      using remove_message_refines [OF laws h wf] by blast
    then show ?thesis using lim unfolding s_def drop_old_def by auto
  next
    case False
    then have "s = db_inner db" "drop_old limit index msgs = msgs"
      by (auto simp: s_def drop_old_def split: option.splits)
    then show ?thesis using h by simp
  qed
  have "\<forall>j m. drop_old limit index msgs j = Some m \<longrightarrow> wf_row m j"
    using wf drop_old_some by metis
  moreover have "drop_old limit index msgs index = None"
    using free drop_old_some [of limit index msgs index] index_def
    by (cases "drop_old limit index msgs index") auto
  ultimately obtain s' where s': "kv_puts kv (message_rows m index) s = (Inr (), s')"
      "holds_messages kv view s' ((drop_old limit index msgs)(index \<mapsto> m))"
      "\<forall>l. fst l \<notin> message_schemas \<longrightarrow> view s' l = view s l"
    using put_message_refines [OF laws conjunct1 [OF s]] new index_def by blast
  have "db_inner (store_message kv m db) = snd (kv_puts kv (message_rows m index) s)"
    unfolding s_def index_def limit_def
    by (simp add: store_message_def reserve_message_counter_def message_rows_def split: option.split)
  then have "db_inner (store_message kv m db) = s'" using s'(1) by simp
  then show ?thesis using s s' by simp
qed

text \<open>The last messages, by their numbers.\<close>

definition window :: "u64 option \<Rightarrow> 'm list \<Rightarrow> u64 \<Rightarrow> 'm option" where
  "window limit ms i =
     (if unat i < length ms \<and> (case limit of None \<Rightarrow> True | Some l \<Rightarrow> length ms \<le> unat i + unat l)
      then Some (ms ! unat i) else None)"

lemma window_snoc:
  assumes "length ms < 2 ^ 48" "limit \<noteq> Some 0"
  shows "window limit (ms @ [m]) = (drop_old limit (of_nat (length ms)) (window limit ms))(of_nat (length ms) \<mapsto> m)"
proof
  fix i :: u64
  have n: "unat (of_nat (length ms) :: u64) = length ms"
    using assms(1) by (simp add: unat_of_nat)
  have eq: "i = of_nat (length ms) \<longleftrightarrow> unat i = length ms"
    by (metis n word_unat_eq_iff)
  show "window limit (ms @ [m]) i = ((drop_old limit (of_nat (length ms)) (window limit ms))(of_nat (length ms) \<mapsto> m)) i"
  proof (cases limit)
    case None
    then show ?thesis by (auto simp: window_def drop_old_def eq nth_append)
  next
    case (Some l)
    have l: "unat l \<noteq> 0" using Some assms(2) by (auto simp: unat_eq_0)
    have le: "l \<le> of_nat (length ms) \<longleftrightarrow> unat l \<le> length ms" by (simp add: word_le_nat_alt n)
    have old: "i = of_nat (length ms) - l \<longleftrightarrow> unat i = length ms - unat l" if "unat l \<le> length ms"
      using that by (simp add: word_unat_eq_iff unat_sub le n)
    show ?thesis
      using l by (auto simp: Some window_def drop_old_def eq le old nth_append)
  qed
qed

section \<open>Any sequence of calls\<close>

text \<open>The other calls leave the tables of the messages alone.\<close>

lemma kv_puts_frame:
  assumes laws: "kv_laws kv view" "kv_reliable kv" and "\<forall>k \<in> fst ` set rows. schema_of k \<noteq> fst l"
  shows "view (snd (kv_puts kv rows s)) l = view s l"
proof -
  obtain s' where s': "kv_puts kv rows s = (Inr (), s')" "view s' = view s ++ map_of (rev (locs kv rows))"
    using kv_puts_ok [OF laws] by blast
  have "map_of (rev (locs kv rows)) l = None"
    using assms(3) by (force simp: map_of_eq_None_iff locs_def loc_def)
  then show ?thesis using s' by (simp add: map_add_def)
qed

lemma kv_deletes_frame:
  assumes laws: "kv_laws kv view" "kv_reliable kv" and "\<forall>k \<in> set ks. schema_of k \<noteq> fst l"
  shows "view (snd (kv_deletes kv ks s)) l = view s l"
proof -
  obtain s' where s': "kv_deletes kv ks s = (Inr (), s')" "view s' = view s |` (- loc kv ` set ks)"
    using kv_deletes_ok [OF laws] by blast
  have "l \<notin> loc kv ` set ks" using assms(3) by (auto simp: loc_def)
  then show ?thesis using s' by (simp add: restrict_map_def)
qed

lemma remove_log_frame:
  assumes laws: "kv_laws kv view" "kv_reliable kv" and "fst l \<notin> {Sc_Log, Sc_Level, Sc_LogTimestamp}"
  shows "view (snd (remove_log kv i s)) l = view s l"
  using assms(3)
  by (auto simp: remove_log_def log_indexes_def kv_deletes_frame [OF laws] simp del: kv_deletes.simps
      split: sum.splits option.splits)

lemma store_log_frame:
  assumes laws: "kv_laws kv view" "kv_reliable kv" and "fst l \<notin> {Sc_Log, Sc_Level, Sc_LogTimestamp}"
  shows "view (db_inner (store_log kv item db)) l = view (db_inner db) l"
  using assms(3)
  by (auto simp: store_log_def reserve_log_counter_def log_indexes_def Let_def remove_log_frame [OF laws]
      kv_puts_frame [OF laws] simp del: kv_puts.simps split: option.splits)

lemma store_connection_frame:
  assumes laws: "kv_laws kv view" "kv_reliable kv" and "fst l \<noteq> Sc_Connection"
  shows "view (db_inner (store_connection kv item db)) l = view (db_inner db) l"
  using assms(3)
  by (simp add: store_connection_def kv_puts_frame [OF laws] del: kv_puts.simps split: prod.splits)

lemma update_connection_frame:
  assumes laws: "kv_laws kv view" "kv_reliable kv" and "fst l \<noteq> Sc_Connection"
  shows "view (db_inner (update_connection kv item db)) l = view (db_inner db) l"
proof -
  obtain k v where kv: "connection_split item = (k, v)" by (cases "connection_split item")
  obtain r s where d: "kv_deletes kv [Key_Connection k] (db_inner db) = (r, s)"
    by (cases "kv_deletes kv [Key_Connection k] (db_inner db)")
  have "view s l = view (db_inner db) l"
    using kv_deletes_frame [OF laws, of "[Key_Connection k]" l "db_inner db"] assms(3)
    by (simp add: d del: kv_deletes.simps)
  moreover have "view (snd (kv_puts kv [(Key_Connection k, Row_Connection v)] s)) l = view s l"
    using assms(3) by (simp add: kv_puts_frame [OF laws] del: kv_puts.simps)
  ultimately show ?thesis
    by (cases r) (simp_all add: update_connection_def kv d del: kv_puts.simps kv_deletes.simps)
qed

lemma store_chunk_frame:
  assumes laws: "kv_laws kv view" "kv_reliable kv" and "fst l \<noteq> Sc_Chunk"
  shows "view (db_inner (store_chunk kv item db)) l = view (db_inner db) l"
  using assms(3)
  by (simp add: store_chunk_def kv_puts_frame [OF laws] del: kv_puts.simps split: prod.splits)

lemma update_connection_counter:
  "db_message_counter (update_connection kv item db) = db_message_counter db"
  "db_message_store_limit (update_connection kv item db) = db_message_store_limit db"
  by (auto simp: update_connection_def simp del: kv_deletes.simps split: prod.splits sum.splits)

lemma exec_other:
  assumes laws: "kv_laws kv view" "kv_reliable kv" and "\<And>m. op \<noteq> StoreMessage m"
  shows "db_message_counter (db_exec kv op db) = db_message_counter db \<and>
    db_message_store_limit (db_exec kv op db) = db_message_store_limit db \<and>
    (\<forall>l. fst l \<in> message_schemas \<longrightarrow> view (db_inner (db_exec kv op db)) l = view (db_inner db) l)"
proof -
  have m: "fst l \<notin> {Sc_Log, Sc_Level, Sc_LogTimestamp}" "fst l \<noteq> Sc_Connection" "fst l \<noteq> Sc_Chunk"
    if "fst l \<in> message_schemas" for l :: location
    using that by (auto simp: message_schemas_def)
  have "\<forall>m. op \<noteq> StoreMessage m" using assms(3) by blast
  then show ?thesis
    using m
    by (cases op) (simp_all add: store_log_frame [OF laws] store_connection_frame [OF laws]
        update_connection_frame [OF laws] store_chunk_frame [OF laws] update_connection_counter,
      simp_all add: store_log_def reserve_log_counter_def store_connection_def store_chunk_def Let_def
        split: prod.splits)
qed

lemma stored_messages_other: "(\<And>m. op \<noteq> StoreMessage m) \<Longrightarrow> stored_messages [op] = []"
  by (cases op) auto

text \<open>What a database that was opened empty holds after the calls \<open>ops\<close>.\<close>

definition db_after ::
    "'st kv \<Rightarrow> ('st \<Rightarrow> location \<Rightarrow> row option) \<Rightarrow> u64 option \<Rightarrow> db_op list \<Rightarrow> 'st db \<Rightarrow> bool" where
  "db_after kv view limit ops db \<longleftrightarrow>
     db_message_store_limit db = limit \<and> db_message_counter db = of_nat (length (stored_messages ops)) \<and>
     holds_messages kv view (db_inner db) (window limit (stored_messages ops))"

definition storable :: "db_op list \<Rightarrow> bool" where
  "storable ops \<longleftrightarrow>
     length (stored_messages ops) < 2 ^ 48 \<and>
     list_all (\<lambda>m. wf_ip (sa_ip (msg_remote_addr m))) (stored_messages ops)"

lemma storable_snoc: "storable (ops @ [op]) \<Longrightarrow> storable ops"
  by (auto simp: storable_def)

lemma window_wf: "storable ops \<Longrightarrow> window limit (stored_messages ops) j = Some m \<Longrightarrow> wf_row m j"
  by (auto simp: storable_def window_def wf_row_def list_all_length split: if_splits)

lemma db_after_step:
  assumes laws: "kv_laws kv view" "kv_reliable kv" and lim: "limit \<noteq> Some 0"
    and st: "storable (ops @ [op])" and d: "db_after kv view limit ops db"
  shows "db_after kv view limit (ops @ [op]) (db_exec kv op db)"
proof (cases "\<exists>m. op = StoreMessage m")
  case True
  then obtain m where op: "op = StoreMessage m" by blast
  let ?ms = "stored_messages ops" and ?i = "db_message_counter db"
  have n: "length ?ms < 2 ^ 48" and i: "?i = of_nat (length ?ms)" "db_message_store_limit db = limit"
    using st d by (simp_all add: storable_def op db_after_def)
  have ui: "unat ?i = length ?ms" using n by (simp add: i(1) unat_of_nat)
  have wf: "wf_row m ?i" using st ui n by (simp add: storable_def op wf_row_def)
  have free: "window limit ?ms ?i = None" by (simp add: window_def ui)
  have "holds_messages kv view (db_inner (store_message kv m db))
      ((drop_old limit ?i (window limit ?ms))(?i \<mapsto> m))"
    using store_message_refines [OF laws, of db "window limit ?ms" m] window_wf [OF storable_snoc [OF st]]
      free wf d i(2)
    by (auto simp: db_after_def)
  then have "holds_messages kv view (db_inner (store_message kv m db)) (window limit (?ms @ [m]))"
    using window_snoc [OF n lim, of m] i(1) by simp
  moreover have "db_message_store_limit (store_message kv m db) = limit"
      "db_message_counter (store_message kv m db) = ?i + 1"
    using i(2) by (simp_all add: store_message_def reserve_message_counter_def)
  ultimately show ?thesis by (simp add: db_after_def op i(1))
next
  case False
  then have o: "\<And>m. op \<noteq> StoreMessage m" by blast
  note e = exec_other [OF laws o, of db]
  have "holds_messages kv view (db_inner (db_exec kv op db)) (window limit (stored_messages ops))"
    using d e unfolding db_after_def holds_messages_def by simp
  then show ?thesis using d e stored_messages_other [OF o] by (simp add: db_after_def)
qed

lemma db_after_exec:
  assumes "kv_laws kv view" "kv_reliable kv" "limit \<noteq> Some 0" "storable ops" "db_after kv view limit [] db"
  shows "db_after kv view limit ops (fold (db_exec kv) ops db)"
  using assms(4)
proof (induction ops rule: rev_induct)
  case (snoc op ops)
  show ?case
    using db_after_step [OF assms(1-3) snoc.prems snoc.IH [OF storable_snoc [OF snoc.prems]]] by simp
qed (use assms(5) in simp)

section \<open>The chunks of the stored messages\<close>

definition dropped :: "u64 option \<Rightarrow> 'm list \<Rightarrow> 'm set" where
  "dropped limit ms = {ms ! j | j. j < length ms \<and> window limit ms (of_nat j) = None}"

text \<open>The last chunk that was stored under an encoded key.\<close>

definition chunk_rows :: "db_op list \<Rightarrow> bytes \<Rightarrow> chunk_value option" where
  "chunk_rows ops =
     map_of (rev (map (\<lambda>c. (chunk_key_encode (fst (chunk_split c)), snd (chunk_split c))) (stored_chunks ops)))"

definition holds_chunks ::
    "('st \<Rightarrow> location \<Rightarrow> row option) \<Rightarrow> u64 option \<Rightarrow> db_op list \<Rightarrow> 'st \<Rightarrow> bool" where
  "holds_chunks view limit ops s \<longleftrightarrow>
     (\<forall>b. (\<forall>m \<in> dropped limit (stored_messages ops). b \<notin> chunk_key_encode ` set (message_chunks m)) \<longrightarrow>
        view s (Sc_Chunk, b) = map_option Row_Chunk (chunk_rows ops b))"

lemma dropped_snoc:
  assumes "length ms < 2 ^ 48" "limit \<noteq> Some 0"
  shows "dropped limit ms \<subseteq> dropped limit (ms @ [m])"
    and "window limit ms j = Some m' \<Longrightarrow> drop_old limit (of_nat (length ms)) (window limit ms) j = None \<Longrightarrow>
      m' \<in> dropped limit (ms @ [m])"
proof -
  have small: "unat (of_nat j :: u64) = j" if "j \<le> length ms" for j
    using that assms(1) by (simp add: unat_of_nat)
  show "dropped limit ms \<subseteq> dropped limit (ms @ [m])"
  proof
    fix x assume "x \<in> dropped limit ms"
    then obtain j where j: "x = ms ! j" "j < length ms" "window limit ms (of_nat j) = None"
      by (auto simp: dropped_def)
    then have "window limit (ms @ [m]) (of_nat j) = None"
      by (auto simp: window_def small split: option.splits)
    then show "x \<in> dropped limit (ms @ [m])"
      using j by (auto simp: dropped_def nth_append intro!: exI [of _ j])
  qed
  assume a: "window limit ms j = Some m'" "drop_old limit (of_nat (length ms)) (window limit ms) j = None"
  have j: "unat j < length ms" "m' = ms ! unat j" using a(1) by (auto simp: window_def split: if_splits)
  then have "j \<noteq> of_nat (length ms)" using small [of "length ms"] by auto
  then have "window limit (ms @ [m]) j = None" using a(2) by (simp add: window_snoc [OF assms])
  then show "m' \<in> dropped limit (ms @ [m])"
    using j by (auto simp: dropped_def nth_append intro!: exI [of _ "unat j"])
qed

lemma store_chunk_view:
  assumes "kv_laws kv view" "kv_reliable kv"
  shows "view (db_inner (store_chunk kv c db)) =
    (view (db_inner db))((Sc_Chunk, chunk_key_encode (fst (chunk_split c))) \<mapsto> Row_Chunk (snd (chunk_split c)))"
proof -
  obtain s' where "kv_put kv (Key_Chunk (fst (chunk_split c))) (Row_Chunk (snd (chunk_split c))) (db_inner db) = Inr s'"
      "view s' = (view (db_inner db))(loc kv (Key_Chunk (fst (chunk_split c))) \<mapsto> Row_Chunk (snd (chunk_split c)))"
    using kv_put_ok [OF assms] .
  then show ?thesis by (cases "chunk_split c") (simp add: store_chunk_def loc_def)
qed

lemma holds_chunks_step:
  assumes laws: "kv_laws kv view" "kv_reliable kv" and lim: "limit \<noteq> Some 0"
    and st: "storable (ops @ [op])" and d: "db_after kv view limit ops db"
    and h: "holds_chunks view limit ops (db_inner db)"
  shows "holds_chunks view limit (ops @ [op]) (db_inner (db_exec kv op db))"
proof -
  let ?ms = "stored_messages ops"
  consider (message) m where "op = StoreMessage m" | (chunk) c where "op = StoreChunk c"
    | (other) "stored_messages [op] = []" "stored_chunks [op] = []"
        "\<And>l. fst l = Sc_Chunk \<Longrightarrow> view (db_inner (db_exec kv op db)) l = view (db_inner db) l"
    using store_log_frame [OF laws] store_connection_frame [OF laws] update_connection_frame [OF laws]
    by (cases op) auto
  then show ?thesis
  proof cases
    case message
    have n: "length ?ms < 2 ^ 48" using st by (simp add: storable_def message)
    have ui: "unat (of_nat (length ?ms) :: u64) = length ?ms" using n by (simp add: unat_of_nat)
    have i: "db_message_counter db = of_nat (length ?ms)" "db_message_store_limit db = limit"
        "holds_messages kv view (db_inner db) (window limit ?ms)"
      using d by (simp_all add: db_after_def)
    have wf: "wf_row m (of_nat (length ?ms))"
      using st ui n by (simp add: storable_def message wf_row_def)
    have free: "window limit ?ms (of_nat (length ?ms)) = None" by (simp add: window_def ui)
    have frame: "view (db_inner (store_message kv m db)) (Sc_Chunk, b) = view (db_inner db) (Sc_Chunk, b)"
      if "\<forall>m \<in> dropped limit (?ms @ [m]). b \<notin> chunk_key_encode ` set (message_chunks m)" for b
    proof -
      have "(Sc_Chunk, b) \<notin> loc kv ` Key_Chunk ` set (message_chunks m')"
        if "window limit ?ms j = Some m'" "drop_old limit (of_nat (length ?ms)) (window limit ?ms) j = None" for j m'
        using dropped_snoc(2) [OF n lim that, of m] \<open>\<forall>m \<in> dropped limit (?ms @ [m]). _\<close> by (force simp: loc_def)
      moreover have "fst (Sc_Chunk, b) \<notin> message_schemas" by (simp add: message_schemas_def)
      moreover have "\<forall>j m. window limit ?ms j = Some m \<longrightarrow> wf_row m j"
        using window_wf [OF storable_snoc [OF st]] by blast
      ultimately show ?thesis
        using store_message_refines [OF laws i(3), of m, unfolded i(1,2), OF _ free wf] by blast
    qed
    show ?thesis
      unfolding holds_chunks_def
    proof (intro allI impI)
      fix b
      assume "\<forall>m' \<in> dropped limit (stored_messages (ops @ [op])). b \<notin> chunk_key_encode ` set (message_chunks m')"
      then have new: "\<forall>m' \<in> dropped limit (?ms @ [m]). b \<notin> chunk_key_encode ` set (message_chunks m')"
        by (simp add: message)
      then have "\<forall>m' \<in> dropped limit ?ms. b \<notin> chunk_key_encode ` set (message_chunks m')"
        using dropped_snoc(1) [OF n lim, of m] by blast
      then have "view (db_inner db) (Sc_Chunk, b) = map_option Row_Chunk (chunk_rows ops b)"
        using h unfolding holds_chunks_def by blast
      then show "view (db_inner (db_exec kv op db)) (Sc_Chunk, b) =
          map_option Row_Chunk (chunk_rows (ops @ [op]) b)"
        using frame [OF new] by (simp add: message chunk_rows_def)
    qed
  next
    case chunk
    then show ?thesis
      using h by (auto simp: holds_chunks_def chunk_rows_def
          store_chunk_view [OF laws])
  next
    case other
    then show ?thesis
      using h by (simp add: holds_chunks_def chunk_rows_def)
  qed
qed

lemma db_exec_holds:
  assumes "kv_laws kv view" "kv_reliable kv" "limit \<noteq> Some 0" "storable ops"
    and "db_after kv view limit [] db" "holds_chunks view limit [] (db_inner db)"
  shows "db_after kv view limit ops (fold (db_exec kv) ops db) \<and>
    holds_chunks view limit ops (db_inner (fold (db_exec kv) ops db))"
  using assms(4)
proof (induction ops rule: rev_induct)
  case (snoc op ops)
  from snoc.IH [OF storable_snoc [OF snoc.prems]] show ?case
    using db_after_step [OF assms(1-3) snoc.prems] holds_chunks_step [OF assms(1-3) snoc.prems] by simp
qed (use assms(5,6) in simp)

section \<open>Properties\<close>

definition fresh_db :: "('st \<Rightarrow> location \<Rightarrow> row option) \<Rightarrow> u64 option \<Rightarrow> 'st db \<Rightarrow> bool" where
  "fresh_db view limit db \<longleftrightarrow>
     db_message_store_limit db = limit \<and> db_message_counter db = 0 \<and>
     (\<forall>l. fst l \<in> insert Sc_Chunk message_schemas \<longrightarrow> view (db_inner db) l = None)"

lemma fresh_db_after:
  "fresh_db view limit db \<Longrightarrow> db_after kv view limit [] db \<and> holds_chunks view limit [] (db_inner db)"
  by (auto simp: fresh_db_def db_after_def holds_messages_def window_def holds_chunks_def chunk_rows_def)

text \<open>
  The database implements a bounded log. Let it be opened empty with no limit, or a limit of at
  least one message, over a store that does not fail, and let any sequence of calls of the recorder
  follow (connections, chunks, logs and fewer than 2 to the 48 messages). Then it holds exactly the last
  messages, as many as the limit allows, under the numbers in which they were stored, and each of the five
  secondary indexes holds exactly one row for each of them and nothing else; a message is found
  under its number and under no other.
\<close>

theorem messages_retained:
  assumes "kv_laws kv view" and "kv_reliable kv" and "limit \<noteq> Some 0"
    and "fresh_db view limit db" and "storable ops"
  shows "holds_messages kv view (db_inner (fold (db_exec kv) ops db)) (window limit (stored_messages ops)) \<and>
    (\<forall>i. get_message kv i (db_inner (fold (db_exec kv) ops db)) = Inr (window limit (stored_messages ops) i))"
proof -
  have h: "holds_messages kv view (db_inner (fold (db_exec kv) ops db)) (window limit (stored_messages ops))"
    using db_exec_holds [OF assms(1-3,5)] fresh_db_after [OF assms(4)] by (auto simp: db_after_def)
  moreover have "\<forall>j m. window limit (stored_messages ops) j = Some m \<longrightarrow> wf_row m j"
    using window_wf [OF assms(5)] by blast
  ultimately show ?thesis using holds_get [OF assms(1,2)] by blast
qed

lemma chunk_rows_stored:
  assumes "distinct (map (\<lambda>c. fst (chunk_split c)) (stored_chunks ops))"
    and "\<forall>c \<in> set (stored_chunks ops). wf_chunk_key (fst (chunk_split c))" and "c \<in> set (stored_chunks ops)"
  shows "chunk_rows ops (chunk_key_encode (fst (chunk_split c))) = Some (snd (chunk_split c))"
proof -
  let ?f = "\<lambda>c. (chunk_key_encode (fst (chunk_split c)), snd (chunk_split c))"
  have "inj_on (\<lambda>c. chunk_key_encode (fst (chunk_split c))) (set (stored_chunks ops))"
  proof (rule inj_onI)
    fix x y
    assume xy: "x \<in> set (stored_chunks ops)" "y \<in> set (stored_chunks ops)"
      "chunk_key_encode (fst (chunk_split x)) = chunk_key_encode (fst (chunk_split y))"
    then have "fst (chunk_split x) = fst (chunk_split y)"
      using assms(2) chunk_key.encode_eq_iff by blast
    then show "x = y" using assms(1) xy(1,2) by (simp add: distinct_map inj_on_def)
  qed
  moreover have "distinct (stored_chunks ops)" using assms(1) by (simp add: distinct_map)
  ultimately have "distinct (map fst (rev (map ?f (stored_chunks ops))))"
    by (simp add: distinct_map comp_def flip: rev_map)
  then show ?thesis using assms(3) by (simp add: chunk_rows_def map_of_eq_Some_iff)
qed

lemma chunks_until_missing_all:
  assumes "\<forall>c \<in> set cs. get_chunk kv (fst (chunk_split c)) s = Inr (Some (snd (chunk_split c)))"
  shows "chunks_until_missing kv (map (\<lambda>c. fst (chunk_split c)) cs) s = Inr (map (\<lambda>c. snd (chunk_split c)) cs)"
  using assms by (induction cs) (auto simp: map_ok_def)

lemma stored_details:
  assumes "kv_laws (de_kv env) view" and "kv_reliable (de_kv env)" and "limit \<noteq> Some 0"
    and "fresh_db view limit db" and "storable ops"
    and "distinct (map (\<lambda>c. fst (chunk_split c)) (stored_chunks ops))"
    and "\<forall>c \<in> set (stored_chunks ops). wf_chunk_key (fst (chunk_split c))"
    and "window limit (stored_messages ops) i = Some m"
    and "set cs \<subseteq> set (stored_chunks ops)" and "map (\<lambda>c. fst (chunk_split c)) cs = message_chunks m"
    and "\<forall>j < length (stored_messages ops). j \<noteq> unat i \<longrightarrow>
      chunk_key_encode ` set (message_chunks (stored_messages ops ! j)) \<inter>
      chunk_key_encode ` set (message_chunks m) = {}"
  shows "fetch_message env i (db_inner (fold (db_exec (de_kv env)) ops db)) =
    Inr (Some (message_details_new (de_decoders env) i (msg_ty m) (map (\<lambda>c. snd (chunk_split c)) cs)))"
proof -
  let ?kv = "de_kv env" and ?s = "db_inner (fold (db_exec (de_kv env)) ops db)" and ?ms = "stored_messages ops"
  have h: "holds_messages ?kv view ?s (window limit ?ms)" "holds_chunks view limit ops ?s"
    using db_exec_holds [OF assms(1-3,5)] fresh_db_after [OF assms(4)] by (auto simp: db_after_def)
  have m: "get_message ?kv i ?s = Inr (Some m)"
    using holds_get [OF assms(1,2) h(1)] window_wf [OF assms(5)] assms(8) by auto
  have chunk: "get_chunk ?kv (fst (chunk_split c)) ?s = Inr (Some (snd (chunk_split c)))" if c: "c \<in> set cs" for c
  proof -
    let ?b = "chunk_key_encode (fst (chunk_split c))"
    have own: "?b \<in> chunk_key_encode ` set (message_chunks m)"
      using c assms(10) by (metis (mono_tags) image_eqI list.set_map)
    have "\<forall>m' \<in> dropped limit ?ms. ?b \<notin> chunk_key_encode ` set (message_chunks m')"
    proof
      fix m' assume "m' \<in> dropped limit ?ms"
      then obtain j where j: "m' = ?ms ! j" "j < length ?ms" "window limit ?ms (of_nat j) = None"
        by (auto simp: dropped_def)
      then have "j \<noteq> unat i" using assms(8) by auto
      then show "?b \<notin> chunk_key_encode ` set (message_chunks m')" using assms(11) own j by blast
    qed
    then have "view ?s (Sc_Chunk, ?b) = map_option Row_Chunk (chunk_rows ops ?b)"
      using h(2) unfolding holds_chunks_def by blast
    then have "view ?s (Sc_Chunk, ?b) = Some (Row_Chunk (snd (chunk_split c)))"
      using chunk_rows_stored [OF assms(6,7)] c assms(9) by auto
    then show ?thesis
      using kv_get_ok [OF assms(1,2), of "Key_Chunk (fst (chunk_split c))" ?s]
      by (simp add: get_chunk_def loc_def map_ok_def)
  qed
  show ?thesis
    using m chunks_until_missing_all [of cs ?kv ?s] chunk
    by (simp add: fetch_message_def details_def assms(10) map_ok_def)
qed

text \<open>
  C23: A stored message is served with all its bytes. Let any storable calls of the recorder be executed on a fresh
  database whose limit on the number of messages, if there is one, is not zero, with chunks under distinct keys, and let the message of number \<open>i\<close> still be in
  the window of the newest messages that the limit keeps. If \<open>cs\<close> are the stored chunks whose keys the message enumerates, in that order, and no
  other message enumerates one of them, then fetching the message returns its details made of exactly the
  chunks \<open>cs\<close>: in particular the raw and the decrypted bytes are theirs, in order.
\<close>

theorem fetch_message_complete:
  assumes "kv_laws (de_kv env) view" and "kv_reliable (de_kv env)" and "limit \<noteq> Some 0"
    and "fresh_db view limit db" and "storable ops"
    and "distinct (map (\<lambda>c. fst (chunk_split c)) (stored_chunks ops))"
    and "\<forall>c \<in> set (stored_chunks ops). wf_chunk_key (fst (chunk_split c))"
    and "window limit (stored_messages ops) i = Some m"
    and "set cs \<subseteq> set (stored_chunks ops)" and "map (\<lambda>c. fst (chunk_split c)) cs = message_chunks m"
    and "\<forall>j < length (stored_messages ops). j \<noteq> unat i \<longrightarrow>
      chunk_key_encode ` set (message_chunks (stored_messages ops ! j)) \<inter>
      chunk_key_encode ` set (message_chunks m) = {}"
  shows "\<exists>d. fetch_message env i (db_inner (fold (db_exec (de_kv env)) ops db)) = Inr (Some d) \<and>
    d = message_details_new (de_decoders env) i (msg_ty m) (map (\<lambda>c. snd (chunk_split c)) cs) \<and>
    md_original_bytes d = map ci_bytes cs \<and> md_decrypted_bytes d = map ci_plain cs"
  using stored_details [OF assms]
  by (auto simp: message_details_new_def Let_def chunk_split_def split: prod.splits)

section \<open>A concrete store\<close>

text \<open>The entries as a list, the newest first; an iteration sorts the keys.\<close>

type_synonym sample_st = "(location \<times> row) list"

definition sample_loc :: "row_key \<Rightarrow> location" where
  "sample_loc k = (schema_of k, key_bytes to_be_bytes k)"

definition key_order :: "bool \<Rightarrow> bytes \<Rightarrow> bytes \<Rightarrow> bool" where
  "key_order forward a b \<longleftrightarrow> (if forward then \<not> lex_less b a else \<not> lex_less a b)"

definition sample_keys :: "schema \<Rightarrow> bool \<Rightarrow> sample_st \<Rightarrow> bytes list" where
  "sample_keys sc forward s =
     sort_by (key_order forward) (remdups (map (\<lambda>e. snd (fst e)) (filter (\<lambda>e. fst (fst e) = sc) s)))"

fun sample_row_bytes :: "row \<Rightarrow> bytes" where
  "sample_row_bytes (Row_Chunk c) = chunk_value_encode c"
| "sample_row_bytes _ = []"

definition sample_prefix :: "schema \<Rightarrow> bytes \<Rightarrow> bool \<Rightarrow> sample_st \<Rightarrow> (bytes \<times> bytes) list" where
  "sample_prefix sc key forward s =
     map (\<lambda>b. (b, sample_row_bytes (the (map_of s (sc, b)))))
       (filter (\<lambda>b. take (prefix_len sc) b = take (prefix_len sc) key \<and> key_order forward key b)
         (sample_keys sc forward s))"

fun mode_forward :: "iterator_mode \<Rightarrow> bool" where
  "mode_forward Iter_Start = True"
| "mode_forward Iter_End = False"
| "mode_forward (Iter_From k forward) = forward"

fun from_mode :: "(u64 \<Rightarrow> bytes) \<Rightarrow> iterator_mode \<Rightarrow> bytes \<Rightarrow> bool" where
  "from_mode u (Iter_From k forward) b = key_order forward (key_bytes u k) b"
| "from_mode u _ b = True"

fun sample_key :: "schema \<Rightarrow> bytes \<Rightarrow> row_key" where
  "sample_key Sc_Timestamp b = Key_Timestamp (projr (timestamp_decode b))"
| "sample_key _ b = Key_Message (from_be_bytes b)"

definition sample_kv :: "sample_st kv" where
  "sample_kv =
     \<lparr>kv_u64 = to_be_bytes,
      kv_put = (\<lambda>k v s. Inr ((sample_loc k, v) # s)),
      kv_get = (\<lambda>k s. Inr (map_of s (sample_loc k))),
      kv_delete = (\<lambda>k s. Inr (filter (\<lambda>e. fst e \<noteq> sample_loc k) s)),
      kv_iterator = (\<lambda>sc mode s. Inr (map (\<lambda>b. (Inr (sample_key sc b), Inr (the (map_of s (sc, b)))))
        (filter (from_mode to_be_bytes mode) (sample_keys sc (mode_forward mode) s)))),
      kv_cf_handle = (\<lambda>sc. True),
      kv_prefix = sample_prefix\<rparr>"

lemma map_of_filter_key: "map_of (filter (\<lambda>e. fst e \<noteq> k) s) = (map_of s)(k := None)"
  by (induction s) (auto simp: fun_eq_iff)

lemma sample_kv_laws: "kv_laws sample_kv map_of"
proof -
  have u: "kv_u64 sample_kv = to_be_bytes" by (simp add: sample_kv_def)
  have "inj (to_be_bytes :: u64 \<Rightarrow> bytes)"
    by (rule inj_on_inverseI [of _ from_be_bytes]) simp
  moreover have "loc sample_kv = sample_loc" by (simp add: fun_eq_iff loc_def sample_loc_def u)
  ultimately show ?thesis unfolding kv_laws_def u
    by (intro conjI allI impI) (auto simp: sample_kv_def map_of_filter_key)
qed

lemma sample_kv_reliable: "kv_reliable sample_kv"
  by (simp add: kv_reliable_def sample_kv_def)

definition sample_db :: "sample_st db" where
  "sample_db =
     \<lparr>db_message_store_limit = Some 1, db_message_counter = 0, db_log_store_limit = None,
      db_log_counter = 0, db_log_indexer = False, db_indexed = [], db_inner = []\<rparr>"

lemma sample_db_fresh: "fresh_db map_of (Some 1) sample_db"
  by (simp add: fresh_db_def sample_db_def)

text \<open>Two messages of one chunk each, of which the limit keeps the second.\<close>

definition sample_chunk :: "u64 \<Rightarrow> chunk_item" where
  "sample_chunk n = chunk_new 5 (connection_key_of sample_connection) Sender_Local n [0, 1, 7] [7]"

definition sample_message :: "u64 \<Rightarrow> message_item" where
  "sample_message n =
     \<lparr>msg_cn_ts = cn_ts sample_connection, msg_cn_ts_nanos = cn_ts_nanos sample_connection,
      msg_timestamp = 9, msg_remote_addr = sample_addr, msg_initiator = Initiator_Remote,
      msg_sender = Sender_Local, msg_ty = Ty_Meta, msg_chunks = (n, n + 1)\<rparr>"

definition sample_ops :: "db_op list" where
  "sample_ops =
     [StoreConnection sample_connection, StoreChunk (sample_chunk 0), StoreMessage (sample_message 0),
      StoreChunk (sample_chunk 1), StoreMessage (sample_message 1)]"

lemma sample_ops_storable: "storable sample_ops"
  by (simp add: storable_def sample_ops_def sample_message_def sample_addr_def)

theorem messages_retained_witness:
  "holds_messages sample_kv map_of (db_inner (fold (db_exec sample_kv) sample_ops sample_db))
     (window (Some 1) (stored_messages sample_ops)) \<and>
   (\<forall>i. get_message sample_kv i (db_inner (fold (db_exec sample_kv) sample_ops sample_db)) =
     Inr (window (Some 1) (stored_messages sample_ops) i))"
  by (rule messages_retained [OF sample_kv_laws sample_kv_reliable _ sample_db_fresh sample_ops_storable]) simp

definition sample_kmerge :: "u64 list list \<Rightarrow> u64 list" where
  "sample_kmerge ls = (case ls of [l] \<Rightarrow> l | _ \<Rightarrow> rev (sort (concat ls)))"

definition sample_db_env :: "(sample_st, unit, unit, unit, unit) db_env" where
  "sample_db_env =
     \<lparr>de_kv = sample_kv,
      de_decoders = \<lparr>dec_connection = (\<lambda>b. Inl ''no''), dec_metadata = (\<lambda>b. Inr ()),
        dec_ack = (\<lambda>b. Inl ''no''), dec_peer = (\<lambda>b. Inl ''no'')\<rparr>,
      de_json = (\<lambda>m. Inr ''{}''), de_kmerge = sample_kmerge,
      de_parse_addr = (\<lambda>s. Inr sample_addr), de_search = (\<lambda>q n. Inr [])\<rparr>"

lemma sample_message_chunks: "message_chunks (sample_message 0) = [fst (chunk_split (sample_chunk 0))]"
  "message_chunks (sample_message 1) = [fst (chunk_split (sample_chunk 1))]"
  by (simp_all add: message_chunks_def sample_message_def sample_chunk_def chunk_split_def chunk_new_def
      connection_key_of_def upt_rec)

lemma sample_chunk_keys: "wf_chunk_key (fst (chunk_split (sample_chunk 0)))"
  "wf_chunk_key (fst (chunk_split (sample_chunk 1)))"
  "fst (chunk_split (sample_chunk 0)) \<noteq> fst (chunk_split (sample_chunk 1))"
  by (simp_all add: sample_chunk_def chunk_split_def chunk_new_def wf_chunk_key_def)

lemma sample_stored:
  "kv_laws (de_kv sample_db_env) map_of" "kv_reliable (de_kv sample_db_env)" "Some 1 \<noteq> Some (0 :: u64)" "fresh_db map_of (Some 1) sample_db"
  "storable sample_ops" "distinct (map (\<lambda>c. fst (chunk_split c)) (stored_chunks sample_ops))"
  "\<forall>c \<in> set (stored_chunks sample_ops). wf_chunk_key (fst (chunk_split c))"
  "window (Some 1) (stored_messages sample_ops) 1 = Some (sample_message 1)"
  "set [sample_chunk 1] \<subseteq> set (stored_chunks sample_ops)" "map (\<lambda>c. fst (chunk_split c)) [sample_chunk 1] = message_chunks (sample_message 1)"
  "\<forall>j < length (stored_messages sample_ops). j \<noteq> unat (1 :: u64) \<longrightarrow>
    chunk_key_encode ` set (message_chunks (stored_messages sample_ops ! j)) \<inter>
    chunk_key_encode ` set (message_chunks (sample_message 1)) = {}"
proof -
  show "\<forall>j < length (stored_messages sample_ops). j \<noteq> unat (1 :: u64) \<longrightarrow>
      chunk_key_encode ` set (message_chunks (stored_messages sample_ops ! j)) \<inter>
      chunk_key_encode ` set (message_chunks (sample_message 1)) = {}"
    using sample_chunk_keys chunk_key.encode_eq_iff
    by (auto simp: sample_ops_def sample_message_chunks less_Suc_eq numeral_2_eq_2)
  show "distinct (map (\<lambda>c. fst (chunk_split c)) (stored_chunks sample_ops))"
      "\<forall>c \<in> set (stored_chunks sample_ops). wf_chunk_key (fst (chunk_split c))"
      "set [sample_chunk 1] \<subseteq> set (stored_chunks sample_ops)"
    using sample_chunk_keys by (simp_all add: sample_ops_def)
  show "window (Some 1) (stored_messages sample_ops) 1 = Some (sample_message 1)" by (simp add: window_def sample_ops_def)
qed (simp_all add: sample_db_env_def sample_kv_laws sample_kv_reliable sample_db_fresh sample_ops_storable sample_message_chunks)

theorem fetch_message_complete_witness:
  "\<exists>d. fetch_message sample_db_env 1 (db_inner (fold (db_exec (de_kv sample_db_env)) sample_ops sample_db)) =
      Inr (Some d) \<and>
    d = message_details_new (de_decoders sample_db_env) 1 (msg_ty (sample_message 1))
      (map (\<lambda>c. snd (chunk_split c)) [sample_chunk 1]) \<and>
    md_original_bytes d = map ci_bytes [sample_chunk 1] \<and> md_decrypted_bytes d = map ci_plain [sample_chunk 1]"
  by (rule fetch_message_complete [OF sample_stored])

end
