(* ===== verification/Replayer.thy ===== *)
theory Replayer
  imports Pseudonode Db_Store
begin

text \<open>
  The replayer, \<^verbatim>\<open>tezedge-recorder/src/bin/replayer.rs\<close>: it plays the recorded side of a connection to a node, writing the messages that the
  recorded node had received and reading as many as it had sent. The trait \<^verbatim>\<open>Replayer\<close> is the locale \<open>replayer_laws\<close>: how the
  list of messages is walked is shown once for everything that can read and write, and used on the replayer over a socket.
\<close>

section \<open>Walking the messages\<close>

record 's replay_state =
  rs_replayer :: 's
  rs_brief :: "message_frontend list"
  rs_read :: bool
  rs_read_pos :: nat
  rs_write_pos :: nat

fun find_id :: "(message_frontend \<Rightarrow> bool) \<Rightarrow> message_frontend list \<Rightarrow> u64 option" where
  "find_id p [] = None"
| "find_id p (m # ms) = (if p m then Some (mf_id m) else find_id p ms)"

definition replay_next :: "'s replay_state \<Rightarrow> panic + (u64 \<times> bool) option" where
  "replay_next st =
     (if rs_read st
      then and_then (slice (rs_brief st) (rs_read_pos st) (length (rs_brief st)))
        (\<lambda>ms. Inr (map_option (\<lambda>i. (i, True)) (find_id (\<lambda>m. \<not> mf_incoming m) ms)))
      else and_then (slice (rs_brief st) (rs_write_pos st) (length (rs_brief st)))
        (\<lambda>ms. Inr (map_option (\<lambda>i. (i, False)) (find_id mf_incoming ms))))"

definition replay_new :: "message_frontend list \<Rightarrow> 's \<Rightarrow> 's replay_state option" where
  "replay_new brief replayer =
     (if length brief < 6 then None
      else Some \<lparr>rs_replayer = replayer, rs_brief = brief, rs_read = True, rs_read_pos = 6, rs_write_pos = 6\<rparr>)"

text \<open>Whether the message at the write position is incoming; \<^verbatim>\<open>false\<close> behind the last one.\<close>

definition at_write_pos :: "'s replay_state \<Rightarrow> bool" where
  "at_write_pos st = (if rs_write_pos st < length (rs_brief st) then mf_incoming (rs_brief st ! rs_write_pos st) else False)"

definition after_read :: "u64 \<Rightarrow> bool \<Rightarrow> 's \<Rightarrow> 's replay_state \<Rightarrow> 's replay_state" where
  "after_read i ok s st =
     (let st1 = st\<lparr>rs_replayer := s\<rparr> in
      st1\<lparr>rs_read := (if ok then at_write_pos st1 else False), rs_read_pos := unat i + 1\<rparr>)"

definition after_write :: "u64 \<Rightarrow> 's \<Rightarrow> 's replay_state \<Rightarrow> 's replay_state" where
  "after_write i s st =
     (let st1 = st\<lparr>rs_replayer := s, rs_write_pos := unat i + 1\<rparr> in st1\<lparr>rs_read := at_write_pos st1\<rparr>)"

partial_function (option) replay_run ::
    "('s \<Rightarrow> u64 \<Rightarrow> (panic + bool \<times> 's) option) \<Rightarrow> ('s \<Rightarrow> u64 \<Rightarrow> panic + 's) \<Rightarrow> 's replay_state \<Rightarrow> (panic + 's replay_state) option" where
  "replay_run rd wr st =
     (case replay_next st of
        Inl p \<Rightarrow> Some (Inl p)
      | Inr None \<Rightarrow> Some (Inr st)
      | Inr (Some (i, read)) \<Rightarrow>
          if read
          then (case rd (rs_replayer st) i of
                  None \<Rightarrow> None
                | Some (Inl p) \<Rightarrow> Some (Inl p)
                | Some (Inr (ok, s)) \<Rightarrow> replay_run rd wr (after_read i ok s st))
          else (case wr (rs_replayer st) i of
                  Inl p \<Rightarrow> Some (Inl p)
                | Inr s \<Rightarrow> replay_run rd wr (after_write i s st)))"

section \<open>The order of the walk\<close>

definition outgoing_ids :: "message_frontend list \<Rightarrow> nat \<Rightarrow> u64 list" where
  "outgoing_ids brief pos = map mf_id (filter (\<lambda>m. \<not> mf_incoming m) (drop pos brief))"

definition incoming_ids :: "message_frontend list \<Rightarrow> nat \<Rightarrow> u64 list" where
  "incoming_ids brief pos = map mf_id (filter mf_incoming (drop pos brief))"

text \<open>The messages are numbered from 0 on, as in a database that has not removed any.\<close>

definition ids_are_positions :: "message_frontend list \<Rightarrow> bool" where
  "ids_are_positions brief \<longleftrightarrow> length brief < 2 ^ 64 \<and> (\<forall>i < length brief. mf_id (brief ! i) = word_of_nat i)"

lemma find_id_filter: "find_id p ms = (case map mf_id (filter p ms) of [] \<Rightarrow> None | i # _ \<Rightarrow> Some i)"
  by (induction ms) simp_all

lemma filter_drop_Cons:
  assumes "filter p (drop n xs) = x # ys"
  shows "\<exists>i. n \<le> i \<and> i < length xs \<and> xs ! i = x \<and> p x \<and> filter p (drop (Suc i) xs) = ys"
  using assms
proof (induction "length xs - n" arbitrary: n)
  case (Suc k)
  then have n: "n < length xs" by simp
  then have d: "drop n xs = xs ! n # drop (Suc n) xs" by (simp add: Cons_nth_drop_Suc)
  show ?case
  proof (cases "p (xs ! n)")
    case True
    then show ?thesis using Suc.prems d n by (intro exI [of _ n]) simp
  next
    case False
    then have "filter p (drop (Suc n) xs) = x # ys" "k = length xs - Suc n" using Suc.prems Suc.hyps(2) d by simp_all
    then show ?thesis using Suc.hyps(1) [of "Suc n"] by (meson Suc_leD)
  qed
qed simp

lemma ids_position:
  assumes "ids_are_positions brief" "map mf_id (filter p (drop n brief)) = i # js"
  shows "n \<le> unat i \<and> unat i < length brief \<and> p (brief ! unat i) \<and> map mf_id (filter p (drop (unat i + 1) brief)) = js"
proof -
  obtain m ms where f: "filter p (drop n brief) = m # ms" "i = mf_id m" "js = map mf_id ms" using assms(2) by (auto simp: map_eq_Cons_conv)
  then obtain j where j: "n \<le> j" "j < length brief" "brief ! j = m" "p m" "filter p (drop (Suc j) brief) = ms"
    using filter_drop_Cons [OF f(1)] by blast
  then have "i = word_of_nat j" "j < 2 ^ 64" using assms(1) f(2) unfolding ids_are_positions_def by (metis, linarith)
  then have "unat i = j" by (simp add: unat_of_nat)
  then show ?thesis using j f by simp
qed

definition walk_ok :: "'s replay_state \<Rightarrow> bool" where
  "walk_ok st \<longleftrightarrow> ids_are_positions (rs_brief st) \<and> rs_read_pos st \<le> length (rs_brief st) \<and> rs_write_pos st \<le> length (rs_brief st)"

abbreviation "to_read st \<equiv> outgoing_ids (rs_brief st) (rs_read_pos st)"
abbreviation "to_write st \<equiv> incoming_ids (rs_brief st) (rs_write_pos st)"

lemma replay_next_walk:
  assumes "walk_ok st"
  shows "replay_next st = Inr (if rs_read st
     then case to_read st of [] \<Rightarrow> None | i # _ \<Rightarrow> Some (i, True)
     else case to_write st of [] \<Rightarrow> None | i # _ \<Rightarrow> Some (i, False))"
  using assms
  by (auto simp: replay_next_def walk_ok_def slice_def sub_def find_id_filter outgoing_ids_def incoming_ids_def split: list.splits)

lemma after_read_walk:
  fixes ok :: bool and s :: 's
  assumes "walk_ok st" "to_read st = i # js"
  defines "st' \<equiv> after_read i ok s st"
  shows "walk_ok st'" "to_read st' = js" "to_write st' = to_write st" "rs_replayer st' = s" "rs_brief st' = rs_brief st"
  using assms ids_position [of "rs_brief st" "\<lambda>m. \<not> mf_incoming m" "rs_read_pos st" i js]
  by (auto simp: after_read_def walk_ok_def outgoing_ids_def Let_def)

lemma after_write_walk:
  fixes s :: 's
  assumes "walk_ok st" "to_write st = i # js"
  defines "st' \<equiv> after_write i s st"
  shows "walk_ok st'" "to_write st' = js" "to_read st' = to_read st" "rs_replayer st' = s" "rs_brief st' = rs_brief st"
  using assms ids_position [of "rs_brief st" mf_incoming "rs_write_pos st" i js]
  by (auto simp: after_write_def walk_ok_def incoming_ids_def Let_def)

section \<open>The interface of a replayer\<close>

text \<open>
  A replayer that is ready to read the messages \<open>outs\<close> and to write the messages \<open>ins\<close>, each in their order, can do the next
  of either, and is ready for the others then. The walk then ends, and one of the two lists is done.
\<close>

locale replayer_laws =
  fixes rd :: "'s \<Rightarrow> u64 \<Rightarrow> (panic + bool \<times> 's) option"
    and wr :: "'s \<Rightarrow> u64 \<Rightarrow> panic + 's"
    and ready :: "u64 list \<Rightarrow> u64 list \<Rightarrow> 's \<Rightarrow> bool"
  assumes read_next: "ready (i # outs) ins s \<Longrightarrow> \<exists>ok s'. rd s i = Some (Inr (ok, s')) \<and> ready outs ins s'"
    and write_next: "ready outs (i # ins) s \<Longrightarrow> \<exists>s'. wr s i = Inr s' \<and> ready outs ins s'"
begin

lemma run_returns:
  assumes "walk_ok st" "ready (to_read st) (to_write st) (rs_replayer st)"
  shows "\<exists>st'. replay_run rd wr st = Some (Inr st') \<and> walk_ok st' \<and> ready (to_read st') (to_write st') (rs_replayer st') \<and>
    (to_read st' = [] \<or> to_write st' = []) \<and> rs_brief st' = rs_brief st"
  using assms
proof (induction "length (to_read st) + length (to_write st)" arbitrary: st rule: less_induct)
  case less
  consider (reading) i js where "rs_read st" "to_read st = i # js" | (writing) i js where "\<not> rs_read st" "to_write st = i # js"
    | (finished) "replay_next st = Inr None" "to_read st = [] \<or> to_write st = []"
    using replay_next_walk [OF less.prems(1)] by (cases "rs_read st"; cases "to_read st"; cases "to_write st") auto
  then show ?case
  proof cases
    case reading
    obtain ok s where r: "rd (rs_replayer st) i = Some (Inr (ok, s))" "ready js (to_write st) s"
      using read_next [of i js "to_write st" "rs_replayer st"] less.prems(2) reading(2) by auto
    have "replay_run rd wr st = replay_run rd wr (after_read i ok s st)"
      using reading r(1) replay_next_walk [OF less.prems(1)] by (subst replay_run.simps) simp
    then show ?thesis
      using less.hyps [of "after_read i ok s st"] after_read_walk [OF less.prems(1) reading(2), of ok s] r(2) reading(2) by simp
  next
    case writing
    obtain s where r: "wr (rs_replayer st) i = Inr s" "ready (to_read st) js s"
      using write_next [of "to_read st" i js "rs_replayer st"] less.prems(2) writing(2) by auto
    have "replay_run rd wr st = replay_run rd wr (after_write i s st)"
      using writing r(1) replay_next_walk [OF less.prems(1)] by (subst replay_run.simps) simp
    then show ?thesis
      using less.hyps [of "after_write i s st"] after_write_walk [OF less.prems(1) writing(2), of s] r(2) writing(2) by simp
  next
    case finished
    then show ?thesis using less.prems by (subst replay_run.simps) simp
  qed
qed

end

section \<open>The replayer over a socket\<close>

record ('st, 'pk, 'n) simple_replayer =
  sr_db :: 'st
  sr_stream :: tcp
  sr_buffer :: node_buffer
  sr_key :: 'pk
  sr_local :: 'n
  sr_remote :: 'n

definition fetch_peer :: "('st, 'c, 'm, 'a, 'p) db_env \<Rightarrow> 'st \<Rightarrow> u64 \<Rightarrow> panic + 'p" where
  "fetch_peer env s i =
     (case fetch_message env i s of
        Inl e \<Rightarrow> Inl Unwrap_None
      | Inr None \<Rightarrow> Inl Unwrap_None
      | Inr (Some message) \<Rightarrow> (case md_message message of Some (PeerMessage v) \<Rightarrow> Inr v | _ \<Rightarrow> Inl Explicit_Panic))"

definition replay_read ::
    "('st, 'c, 'm, 'a, 'p) db_env \<Rightarrow> 'p msg_codec \<Rightarrow> ('k, 'pk, 'n) crypto \<Rightarrow> ('pk, 'n) box_env
     \<Rightarrow> ('st, 'pk, 'n) simple_replayer \<Rightarrow> u64 \<Rightarrow> (panic + bool \<times> ('st, 'pk, 'n) simple_replayer) option" where
  "replay_read env mc cr bx r i =
     (case fetch_peer env (sr_db r) i of
        Inl p \<Rightarrow> Some (Inl p)
      | Inr stored \<Rightarrow>
          (case read_msg mc cr bx (sr_key r) (sr_remote r) True (sr_buffer r) (sr_stream r) of
             None \<Rightarrow> None
           | Some (Inl p) \<Rightarrow> Some (Inl p)
           | Some (Inr (x, b, s)) \<Rightarrow>
               let r' = r\<lparr>sr_buffer := b, sr_stream := s\<rparr> in
               (case x of
                  Inr (remote, msg) \<Rightarrow> Some (Inr (True, r'\<lparr>sr_remote := remote\<rparr>))
                | Inl Io_Would_Block \<Rightarrow> Some (Inr (False, r'))
                | Inl Io_Broken \<Rightarrow> Some (Inl Explicit_Panic))))"

definition replay_write ::
    "('st, 'c, 'm, 'a, 'p) db_env \<Rightarrow> 'p msg_codec \<Rightarrow> ('k, 'pk, 'n) crypto \<Rightarrow> ('pk, 'n) box_env
     \<Rightarrow> ('st, 'pk, 'n) simple_replayer \<Rightarrow> u64 \<Rightarrow> panic + ('st, 'pk, 'n) simple_replayer" where
  "replay_write env mc cr bx r i =
     and_then (fetch_peer env (sr_db r) i) (\<lambda>stored.
     and_then (write_msg mc cr bx stored (sr_key r) (sr_local r) (sr_stream r)) (\<lambda>(local, s).
     Inr (r\<lparr>sr_stream := s, sr_local := local\<rparr>)))"

section \<open>Sequences of messages on the wire\<close>

fun wire_form :: "'m msg_codec \<Rightarrow> ('k, 'pk, 'n) crypto \<Rightarrow> ('pk, 'n) box_env \<Rightarrow> 'pk \<Rightarrow> 'n \<Rightarrow> 'm list \<Rightarrow> panic + 'n \<times> bytes" where
  "wire_form mc cr bx key nonce [] = Inr (nonce, [])"
| "wire_form mc cr bx key nonce (m # ms) =
     and_then (write_msg mc cr bx m key nonce \<lparr>tcp_in = [], tcp_out = [], tcp_writable = True\<rparr>) (\<lambda>(nonce', s).
     and_then (wire_form mc cr bx key nonce' ms) (\<lambda>(nonce'', w). Inr (nonce'', tcp_out s @ w)))"

lemma wire_form_snoc:
  assumes "wire_form mc cr bx key nonce ms = Inr (n1, w1)" "wire_form mc cr bx key n1 [m] = Inr (n2, w2)"
  shows "wire_form mc cr bx key nonce (ms @ [m]) = Inr (n2, w1 @ w2)"
  using assms
proof (induction ms arbitrary: nonce w1)
  case (Cons x ms)
  then show ?case by (auto simp: and_then_Inr_iff split: prod.splits)
qed simp

definition peer_form :: "'m msg_codec \<Rightarrow> 'm \<Rightarrow> bool" where
  "peer_form mc m \<longleftrightarrow> (\<exists>bs. wire_message mc True m bs)"

section \<open>Reads that time out\<close>

text \<open>
  What arrives is cut by the failures into runs of bytes; the first begins with what the buffer holds. The reads of \<open>n\<close> messages
  go well when each meets the whole of the next message, or a timeout before the first chunk of the next message is complete.
  A timeout between two chunks of a message is not among them: there the chunks that were read are lost.
\<close>

fun runs :: "bytes \<Rightarrow> (io_kind + bytes) list \<Rightarrow> bytes list" where
  "runs v [] = [v]"
| "runs v (Inr b # segs) = runs (v @ b) segs"
| "runs v (Inl e # segs) = v # runs [] segs"

inductive reads ::
    "'m msg_codec \<Rightarrow> ('k, 'pk, 'n) crypto \<Rightarrow> ('pk, 'n) box_env \<Rightarrow> 'pk \<Rightarrow> nat \<Rightarrow> 'n \<Rightarrow> bytes list \<Rightarrow> bool"
  for mc cr bx key where
  enough: "reads mc cr bx key 0 nonce rs"
| message: "peer_form mc m \<Longrightarrow> wire_form mc cr bx key nonce [m] = Inr (nonce', w) \<Longrightarrow> reads mc cr bx key n nonce' (left # rs) \<Longrightarrow>
    reads mc cr bx key (Suc n) nonce ((w @ left) # rs)"
| timeout: "incomplete v \<Longrightarrow> length v < 0x10000 \<Longrightarrow> reads mc cr bx key n nonce ((v @ v') # rs) \<Longrightarrow>
    reads mc cr bx key (Suc n) nonce (v # v' # rs)"

inductive_cases reads_SucE: "reads mc cr bx key (Suc n) nonce rs"

abbreviation calm :: "(io_kind + bytes) list \<Rightarrow> bool" where
  "calm segs \<equiv> list_all (\<lambda>x. \<not> isl x) segs"

lemma runs_calm: "calm pre \<Longrightarrow> runs v (pre @ post) = runs (v @ concat (map projr pre)) post"
proof (induction pre arbitrary: v)
  case (Cons x pre)
  then show ?case by (cases x) simp_all
qed simp

lemma runs_view: "runs (u @ v) segs = (u @ hd (runs v segs)) # tl (runs v segs)"
proof (induction segs arbitrary: v)
  case (Cons x segs)
  then show ?case by (cases x) simp_all
qed simp

text \<open>The first run ends at the first failure.\<close>

lemma runs_split:
  assumes "runs v segs = x # xs"
  obtains pre post where "segs = pre @ post" "calm pre" "x = v @ concat (map projr pre)" "\<And>u. runs u post = u # xs"
    "post = [] \<and> xs = [] \<or> (\<exists>e post'. post = Inl e # post' \<and> xs = runs [] post')"
proof -
  have "\<exists>pre post. segs = pre @ post \<and> calm pre \<and> x = v @ concat (map projr pre) \<and> (\<forall>u. runs u post = u # xs) \<and>
    (post = [] \<and> xs = [] \<or> (\<exists>e post'. post = Inl e # post' \<and> xs = runs [] post'))"
    using assms
  proof (induction segs arbitrary: v)
    case (Cons s segs)
    show ?case
    proof (cases s)
      case (Inl e)
      then show ?thesis using Cons.prems by (intro exI [of _ "[]"] exI [of _ "s # segs"]) simp
    next
      case (Inr b)
      then obtain pre post where "segs = pre @ post" "calm pre" "x = (v @ b) @ concat (map projr pre)" "\<forall>u. runs u post = u # xs"
          "post = [] \<and> xs = [] \<or> (\<exists>e post'. post = Inl e # post' \<and> xs = runs [] post')"
        using Cons.IH [of "v @ b"] Cons.prems by auto
      then show ?thesis using Inr by (intro exI [of _ "s # pre"] exI [of _ post]) simp
    qed
  qed (auto intro!: exI [of _ "[]"])
  then show thesis using that by blast
qed

text \<open>What is behind the bytes that a reader has used does not matter to it: a reader that returned did not read at the end.\<close>

abbreviation followed_by :: "(io_kind + bytes) list \<Rightarrow> tcp \<Rightarrow> tcp" where
  "followed_by post s \<equiv> s\<lparr>tcp_in := tcp_in s @ post\<rparr>"

lemma tcp_read_later: "tcp_in s \<noteq> [] \<Longrightarrow> tcp_read n (followed_by post s) = (fst (tcp_read n s), followed_by post (snd (tcp_read n s)))"
  by (auto simp: tcp_read_def split: list.splits sum.splits)

lemma read_chunk_later:
  assumes "read_chunk bx b s = Some (Inr (x, b', s'))"
  shows "read_chunk bx b (followed_by post s) = Some (Inr (x, b', followed_by post s'))"
proof -
  have "\<forall>x b' s'. y = Inr (x, b', s') \<longrightarrow> read_chunk bx b (followed_by post s) = Some (Inr (x, b', followed_by post s'))"
    if "read_chunk bx b s = Some y" for y
  proof (rule read_chunk.raw_induct [of "\<lambda>bx b s y. \<forall>x b' s'. y = Inr (x, b', s') \<longrightarrow>
      read_chunk bx b (followed_by post s) = Some (Inr (x, b', followed_by post s'))", OF _ that])
    fix f :: "('a, 'b) box_env \<Rightarrow> node_buffer \<Rightarrow> tcp \<Rightarrow> (panic + (io_kind + bytes) \<times> node_buffer \<times> tcp) option" and bx b s y
    assume ih: "\<And>bx b s y. f bx b s = Some y \<Longrightarrow> \<forall>x b' s'. y = Inr (x, b', s') \<longrightarrow>
        read_chunk bx b (followed_by post s) = Some (Inr (x, b', followed_by post s'))"
      and e: "(case raw_len_of b of
          None \<Rightarrow> (case tcp_read (0x10000 - nb_len b) s of
             (Inl e, s') \<Rightarrow> Some (Inr (Inl e, b, s'))
           | (Inr bs, s') \<Rightarrow> f bx \<lparr>nb_len = nb_len b + length bs, nb_data = write_at (nb_len b) bs (nb_data b)\<rparr> s')
        | Some raw_len \<Rightarrow> Some (and_then (unwrap (bx_from_raw bx (take raw_len (nb_data b))))
            (\<lambda>chunk. Inr (Inr chunk, \<lparr>nb_len = nb_len b - raw_len, nb_data = shift_down raw_len (nb_len b) (nb_data b)\<rparr>, s)))) = Some y"
    show "\<forall>x b' s'. y = Inr (x, b', s') \<longrightarrow> read_chunk bx b (followed_by post s) = Some (Inr (x, b', followed_by post s'))"
    proof (cases "raw_len_of b")
      case (Some n)
      then show ?thesis using e by (subst read_chunk.simps) (auto simp: and_then_Inr_iff)
    next
      case None
      show ?thesis
      proof (cases "tcp_in s")
        case Nil
        have "\<lparr>nb_len = nb_len b, nb_data = write_at (nb_len b) [] (nb_data b)\<rparr> = b" by (simp add: write_at_def)
        then have "f bx b s = Some y" using e None Nil by (simp add: tcp_read_def)
        then show ?thesis by (rule ih)
      next
        case (Cons z zs)
        then have l: "tcp_read k (followed_by post s) = (fst (tcp_read k s), followed_by post (snd (tcp_read k s)))" for k
          by (intro tcp_read_later) simp
        obtain r s1 where r: "tcp_read (0x10000 - nb_len b) s = (r, s1)" by (cases "tcp_read (0x10000 - nb_len b) s")
        show ?thesis
        proof (cases r)
          case (Inl k)
          then show ?thesis using e None r l by (subst read_chunk.simps) auto
        next
          case (Inr bs)
          then have "f bx \<lparr>nb_len = nb_len b + length bs, nb_data = write_at (nb_len b) bs (nb_data b)\<rparr> s1 = Some y" using e None r by simp
          from ih [OF this] show ?thesis using None r Inr l by (subst read_chunk.simps) simp
        qed
      qed
    qed
  qed
  then show ?thesis using assms by blast
qed

lemma read_msg_loop_later:
  assumes "read_msg_loop mc cr bx key peer nonce bs len b s = Some (Inr (x, b', s'))"
  shows "read_msg_loop mc cr bx key peer nonce bs len b (followed_by post s) = Some (Inr (x, b', followed_by post s'))"
proof -
  let ?P = "\<lambda>mc cr bx key peer nonce bs len b s y. \<forall>x b' s'. y = Inr (x, b', s') \<longrightarrow>
      read_msg_loop mc cr bx key peer nonce bs len b (followed_by post s) = Some (Inr (x, b', followed_by post s'))"
  have "?P mc cr bx key peer nonce bs len b s y" if "read_msg_loop mc cr bx key peer nonce bs len b s = Some y" for y
  proof (rule read_msg_loop.raw_induct [of ?P, OF _ that], goal_cases)
    case (1 f mc cr bx key peer nonce bs len b s y)
    show ?case
    proof (intro allI impI)
      fix x b' s' assume y: "y = Inr (x, b', s')"
      obtain c b1 s1 where c: "read_chunk bx b s = Some (Inr (c, b1, s1))"
        using 1(2) y by (auto split: option.splits sum.splits)
      note l = read_chunk_later [OF c, of post]
      show "read_msg_loop mc cr bx key peer nonce bs len b (followed_by post s) = Some (Inr (x, b', followed_by post s'))"
      proof (cases c)
        case (Inl k)
        then show ?thesis using 1(2) c y l by (subst read_msg_loop.simps) simp
      next
        case (Inr chunk)
        then show ?thesis using 1(2) c y l 1(1)
          by (subst read_msg_loop.simps) (auto simp: Let_def and_then_Inr_iff split: option.splits sum.splits if_splits)
      qed
    qed
  qed
  then show ?thesis using assms by blast
qed

text \<open>A timeout in the first chunk leaves what has arrived in the buffer.\<close>

lemma incomplete_prefix: "incomplete (v @ d) \<Longrightarrow> incomplete v"
  using chunk_len_append [of v d] by (cases "2 \<le> length v") (auto simp: incomplete_def)

lemma read_chunk_timeout:
  assumes "nb_ok b" "calm pre" "tcp_in s = pre @ Inl e # post" "incomplete (nb_view b @ concat (map projr pre))"
    "length (nb_view b @ concat (map projr pre)) < 0x10000"
  shows "\<exists>b'. read_chunk bx b s = Some (Inr (Inl e, b', s\<lparr>tcp_in := post\<rparr>)) \<and> nb_ok b' \<and> nb_view b' = nb_view b @ concat (map projr pre)"
  using assms
proof (induction pre arbitrary: b s)
  case Nil
  then show ?case by (subst read_chunk.simps) (simp add: raw_len_of_view tcp_read_def)
next
  case (Cons x pre)
  then obtain d where x: "x = Inr d" by (cases x) simp_all
  define b1 where "b1 = \<lparr>nb_len = nb_len b + length d, nb_data = write_at (nb_len b) d (nb_data b)\<rparr>"
  have n: "nb_len b + length d < 0x10000" using Cons.prems(5) x length_nb_view [OF Cons.prems(1)] by simp
  then have b1: "nb_ok b1" "nb_view b1 = nb_view b @ d" using nb_push [OF Cons.prems(1), of d] by (simp_all add: b1_def)
  have "raw_len_of b = None"
    using Cons.prems(1,4) incomplete_prefix [of "nb_view b" "concat (map projr (x # pre))"] by (simp add: raw_len_of_view)
  then have "read_chunk bx b s = read_chunk bx b1 (s\<lparr>tcp_in := pre @ Inl e # post\<rparr>)"
    using Cons.prems(3) x n by (subst read_chunk.simps) (auto simp: tcp_read_def b1_def)
  then show ?case using Cons.IH [OF b1(1), of "s\<lparr>tcp_in := pre @ Inl e # post\<rparr>"] Cons.prems x b1(2) by simp
qed

text \<open>
  The replayer is ready: the database has the messages, the reads from the node go well, and what was written so far is the wire form of
  the messages \<open>sent\<close>.
\<close>

definition inbox_ready ::
    "'p msg_codec \<Rightarrow> ('k, 'pk, 'n) crypto \<Rightarrow> ('pk, 'n) box_env \<Rightarrow> nat \<Rightarrow> ('st, 'pk, 'n) simple_replayer \<Rightarrow> bool" where
  "inbox_ready mc cr bx n r \<longleftrightarrow> nb_ok (sr_buffer r) \<and> Inl Io_Broken \<notin> set (tcp_in (sr_stream r)) \<and>
     reads mc cr bx (sr_key r) n (sr_remote r) (runs (nb_view (sr_buffer r)) (tcp_in (sr_stream r)))"

definition replay_ready ::
    "('st, 'c, 'm, 'a, 'p) db_env \<Rightarrow> 'p msg_codec \<Rightarrow> ('k, 'pk, 'n) crypto \<Rightarrow> ('pk, 'n) box_env
     \<Rightarrow> (u64 \<Rightarrow> 'p) \<Rightarrow> ('st, 'pk, 'n) simple_replayer \<Rightarrow> u64 list \<Rightarrow> u64 list \<Rightarrow> u64 list \<Rightarrow> ('st, 'pk, 'n) simple_replayer \<Rightarrow> bool" where
  "replay_ready env mc cr bx recorded r0 all outs ins r \<longleftrightarrow>
     box_laws cr bx \<and> tcp_writable (sr_stream r) \<and> sr_key r = sr_key r0 \<and>
     (\<forall>i \<in> set outs \<union> set ins. fetch_peer env (sr_db r) i = Inr (recorded i)) \<and> (\<forall>i \<in> set ins. peer_form mc (recorded i)) \<and>
     inbox_ready mc cr bx (length outs) r \<and>
     (\<exists>sent w. all = sent @ ins \<and> wire_form mc cr bx (sr_key r0) (sr_local r0) (map recorded sent) = Inr (sr_local r, w) \<and>
        tcp_out (sr_stream r) = tcp_out (sr_stream r0) @ w)"

lemma inbox_message:
  assumes "box_laws cr bx" "peer_form mc m" "wire_form mc cr bx (sr_key r) (sr_remote r) [m] = Inr (n1, w)"
    "nb_ok (sr_buffer r)" "Inl Io_Broken \<notin> set (tcp_in (sr_stream r))"
    "runs (nb_view (sr_buffer r)) (tcp_in (sr_stream r)) = (w @ left) # rs"
  obtains b t where "read_msg mc cr bx (sr_key r) (sr_remote r) True (sr_buffer r) (sr_stream r) = Some (Inr (Inr (n1, m), b, t))"
    "nb_ok b" "Inl Io_Broken \<notin> set (tcp_in t)" "runs (nb_view b) (tcp_in t) = left # rs" "tcp_out t = tcp_out (sr_stream r)"
    "tcp_writable t = tcp_writable (sr_stream r)"
proof -
  obtain bs where bs: "wire_message mc True m bs" using assms(2) by (auto simp: peer_form_def)
  obtain n1' w1 where w1: "\<And>s. tcp_writable s \<Longrightarrow> write_msg mc cr bx m (sr_key r) (sr_remote r) s = Inr (n1', s\<lparr>tcp_out := tcp_out s @ w1\<rparr>)"
    and rd: "\<And>b t rest. nb_ok b \<Longrightarrow> undisturbed t \<Longrightarrow> nb_view b @ incoming_bytes t = w1 @ rest \<Longrightarrow>
      \<exists>b' t'. read_msg mc cr bx (sr_key r) (sr_remote r) True b t = Some (Inr (Inr (n1', m), b', t')) \<and> nb_ok b' \<and> undisturbed t' \<and>
        nb_view b' @ incoming_bytes t' = rest \<and> tcp_out t' = tcp_out t \<and> tcp_writable t' = tcp_writable t"
    by (rule message_passes [OF assms(1) bs, of "sr_key r" "sr_remote r"]) blast
  have e: "n1' = n1" "w1 = w" using assms(3) w1 by simp_all
  obtain pre post where p: "tcp_in (sr_stream r) = pre @ post" "calm pre" "w @ left = nb_view (sr_buffer r) @ concat (map projr pre)"
      "\<And>u. runs u post = u # rs"
    by (rule runs_split [OF assms(6)]) blast
  let ?t = "(sr_stream r)\<lparr>tcp_in := pre\<rparr>"
  have "undisturbed ?t" "nb_view (sr_buffer r) @ incoming_bytes ?t = w @ left" using p by (simp_all add: undisturbed_def incoming_bytes_def)
  then obtain b t where t: "read_msg mc cr bx (sr_key r) (sr_remote r) True (sr_buffer r) ?t = Some (Inr (Inr (n1, m), b, t))" "nb_ok b"
      "undisturbed t" "nb_view b @ incoming_bytes t = left" "tcp_out t = tcp_out (sr_stream r)" "tcp_writable t = tcp_writable (sr_stream r)"
    using rd [OF assms(4), of ?t left] e by auto
  have "followed_by post ?t = sr_stream r" using p(1) by simp
  then have "read_msg mc cr bx (sr_key r) (sr_remote r) True (sr_buffer r) (sr_stream r) = Some (Inr (Inr (n1, m), b, followed_by post t))"
    using read_msg_loop_later [OF t(1) [unfolded read_msg_def], of post] by (simp add: read_msg_def)
  moreover have "Inl Io_Broken \<notin> set (tcp_in t @ post)" using assms(5) p(1) t(3) by (auto simp: undisturbed_def list_all_iff)
  moreover have "runs (nb_view b) (tcp_in t @ post) = left # rs"
    using runs_calm [of "tcp_in t"] t(3,4) p(4) by (simp add: undisturbed_def incoming_bytes_def)
  ultimately show thesis using that [of b "followed_by post t"] t by simp
qed

lemma inbox_timeout:
  assumes "incomplete v" "length v < 0x10000" "nb_ok (sr_buffer r)" "Inl Io_Broken \<notin> set (tcp_in (sr_stream r))"
    "runs (nb_view (sr_buffer r)) (tcp_in (sr_stream r)) = v # v' # rs"
  obtains b t where "read_msg mc cr bx (sr_key r) (sr_remote r) True (sr_buffer r) (sr_stream r) = Some (Inr (Inl Io_Would_Block, b, t))"
    "nb_ok b" "Inl Io_Broken \<notin> set (tcp_in t)" "runs (nb_view b) (tcp_in t) = (v @ v') # rs" "tcp_out t = tcp_out (sr_stream r)"
    "tcp_writable t = tcp_writable (sr_stream r)"
proof -
  obtain pre e post where p: "tcp_in (sr_stream r) = pre @ Inl e # post" "calm pre" "v = nb_view (sr_buffer r) @ concat (map projr pre)"
      "v' # rs = runs [] post"
    by (rule runs_split [OF assms(5)]) blast
  have e: "e = Io_Would_Block" using assms(4) p(1) by (cases e) simp_all
  let ?t = "(sr_stream r)\<lparr>tcp_in := post\<rparr>"
  obtain b where b: "read_chunk bx (sr_buffer r) (sr_stream r) = Some (Inr (Inl e, b, ?t))" "nb_ok b" "nb_view b = v"
    using read_chunk_timeout [OF assms(3) p(2,1)] assms(1,2) p(3) by blast
  have "read_msg mc cr bx (sr_key r) (sr_remote r) True (sr_buffer r) (sr_stream r) = Some (Inr (Inl Io_Would_Block, b, ?t))"
    unfolding read_msg_def using b(1) e by (subst read_msg_loop.simps) simp
  moreover have "runs (nb_view b) post = (v @ v') # rs" using runs_view [of v "[]" post] b(3) p(4) by (metis append_Nil2 list.sel(1,3))
  ultimately show thesis using that [of b ?t] b(2) assms(4) p(1) by simp
qed

lemma replay_read_next:
  assumes "replay_ready env mc cr bx recorded r0 all (i # outs) ins r"
  shows "\<exists>ok r'. replay_read env mc cr bx r i = Some (Inr (ok, r')) \<and> replay_ready env mc cr bx recorded r0 all outs ins r'"
proof -
  have bx: "box_laws cr bx" and f: "fetch_peer env (sr_db r) i = Inr (recorded i)"
    and o: "nb_ok (sr_buffer r)" "Inl Io_Broken \<notin> set (tcp_in (sr_stream r))"
    and rds: "reads mc cr bx (sr_key r) (Suc (length outs)) (sr_remote r) (runs (nb_view (sr_buffer r)) (tcp_in (sr_stream r)))"
    using assms by (auto simp: replay_ready_def inbox_ready_def)
  consider (message) m n1 w left rs where "runs (nb_view (sr_buffer r)) (tcp_in (sr_stream r)) = (w @ left) # rs" "peer_form mc m"
      "wire_form mc cr bx (sr_key r) (sr_remote r) [m] = Inr (n1, w)" "reads mc cr bx (sr_key r) (length outs) n1 (left # rs)"
    | (timeout) v v' rs where "runs (nb_view (sr_buffer r)) (tcp_in (sr_stream r)) = v # v' # rs" "incomplete v" "length v < 0x10000"
      "reads mc cr bx (sr_key r) (length outs) (sr_remote r) ((v @ v') # rs)"
    by (rule reads_SucE [OF rds]; simp; blast)
  then show ?thesis
  proof cases
    case message
    obtain b t where t: "read_msg mc cr bx (sr_key r) (sr_remote r) True (sr_buffer r) (sr_stream r) = Some (Inr (Inr (n1, m), b, t))"
        "nb_ok b" "Inl Io_Broken \<notin> set (tcp_in t)" "runs (nb_view b) (tcp_in t) = left # rs" "tcp_out t = tcp_out (sr_stream r)"
        "tcp_writable t = tcp_writable (sr_stream r)"
      by (rule inbox_message [OF bx message(2,3) o message(1)])
    let ?r = "r\<lparr>sr_buffer := b, sr_stream := t, sr_remote := n1\<rparr>"
    have "inbox_ready mc cr bx (length outs) ?r" using t message(4) by (simp add: inbox_ready_def)
    then have "replay_ready env mc cr bx recorded r0 all outs ins ?r" using assms t by (auto simp: replay_ready_def)
    moreover have "replay_read env mc cr bx r i = Some (Inr (True, ?r))" by (simp add: replay_read_def f t(1))
    ultimately show ?thesis by blast
  next
    case timeout
    obtain b t where t: "read_msg mc cr bx (sr_key r) (sr_remote r) True (sr_buffer r) (sr_stream r) = Some (Inr (Inl Io_Would_Block, b, t))"
        "nb_ok b" "Inl Io_Broken \<notin> set (tcp_in t)" "runs (nb_view b) (tcp_in t) = (v @ v') # rs" "tcp_out t = tcp_out (sr_stream r)"
        "tcp_writable t = tcp_writable (sr_stream r)"
      by (rule inbox_timeout [OF timeout(2,3) o timeout(1)])
    let ?r = "r\<lparr>sr_buffer := b, sr_stream := t\<rparr>"
    have "inbox_ready mc cr bx (length outs) ?r" using t timeout(4) by (simp add: inbox_ready_def)
    then have "replay_ready env mc cr bx recorded r0 all outs ins ?r" using assms t by (auto simp: replay_ready_def)
    moreover have "replay_read env mc cr bx r i = Some (Inr (False, ?r))" by (simp add: replay_read_def f t(1))
    ultimately show ?thesis by blast
  qed
qed

lemma replay_write_next:
  assumes "replay_ready env mc cr bx recorded r0 all outs (i # ins) r"
  shows "\<exists>r'. replay_write env mc cr bx r i = Inr r' \<and> replay_ready env mc cr bx recorded r0 all outs ins r'"
proof -
  have bx: "box_laws cr bx" and f: "fetch_peer env (sr_db r) i = Inr (recorded i)" and k: "sr_key r = sr_key r0"
    and wr: "tcp_writable (sr_stream r)" using assms by (auto simp: replay_ready_def)
  obtain bs where bs: "wire_message mc True (recorded i) bs" using assms by (auto simp: replay_ready_def peer_form_def)
  obtain n1 w1 where w1: "\<And>s. tcp_writable s \<Longrightarrow> write_msg mc cr bx (recorded i) (sr_key r) (sr_local r) s = Inr (n1, s\<lparr>tcp_out := tcp_out s @ w1\<rparr>)"
    by (rule message_passes [OF bx bs, of "sr_key r" "sr_local r"]) blast
  obtain sent w where s: "all = sent @ i # ins" "wire_form mc cr bx (sr_key r0) (sr_local r0) (map recorded sent) = Inr (sr_local r, w)"
      "tcp_out (sr_stream r) = tcp_out (sr_stream r0) @ w"
    using assms by (auto simp: replay_ready_def)
  define r' where "r' = r\<lparr>sr_stream := (sr_stream r)\<lparr>tcp_out := tcp_out (sr_stream r) @ w1\<rparr>, sr_local := n1\<rparr>"
  have "wire_form mc cr bx (sr_key r0) (sr_local r) [recorded i] = Inr (n1, w1)" using w1 k by simp
  then have "wire_form mc cr bx (sr_key r0) (sr_local r0) (map recorded (sent @ [i])) = Inr (n1, w @ w1)"
    using wire_form_snoc [OF s(2)] by simp
  moreover have "inbox_ready mc cr bx (length outs) r'"
    using assms by (auto simp: replay_ready_def inbox_ready_def r'_def)
  moreover have "all = (sent @ [i]) @ ins" "tcp_out (sr_stream r') = tcp_out (sr_stream r0) @ w @ w1" using s by (simp_all add: r'_def)
  ultimately have "replay_ready env mc cr bx recorded r0 all outs ins r'"
    using assms unfolding replay_ready_def by (auto simp: r'_def intro!: exI [of _ "sent @ [i]"])
  moreover have "replay_write env mc cr bx r i = Inr r'" by (simp add: replay_write_def f w1 [OF wr] r'_def)
  ultimately show ?thesis by blast
qed

interpretation socket: replayer_laws "replay_read env mc cr bx" "replay_write env mc cr bx" "replay_ready env mc cr bx recorded r0 all"
  for env mc cr bx recorded r0 all
  by unfold_locales (blast intro: replay_read_next, blast intro: replay_write_next)

section \<open>The replay of a recorded connection\<close>

definition recording_ready ::
    "('st, 'c, 'm, 'a, 'p) db_env \<Rightarrow> 'p msg_codec \<Rightarrow> (u64 \<Rightarrow> 'p) \<Rightarrow> message_frontend list \<Rightarrow> 'st \<Rightarrow> bool" where
  "recording_ready env mc recorded brief db \<longleftrightarrow> ids_are_positions brief \<and>
     (\<forall>i \<in> set (outgoing_ids brief 6) \<union> set (incoming_ids brief 6). fetch_peer env db i = Inr (recorded i)) \<and>
     (\<forall>i \<in> set (incoming_ids brief 6). peer_form mc (recorded i))"

text \<open>
  C15: The replay ends and keeps the order. The recording has only peer messages, numbered as they are listed, and the node's socket does not
  break. There are as many reads as messages that the recorded node had sent; each of them meets the next whole message of the node, in
  any segments, or it times out before the first chunk of the next message is complete. Then the replay returns without a panic. A read that times out
  counts as done, and the walk goes on with a write. What was written behind the handshake is the encrypted
  form of the first messages that the recorded node had received, in their order, with consecutive nonces; either these are all of them or all
  the reads have been done. (Not covered, because the replay panics there, is a read that times out between two chunks of one message.)
\<close>

theorem replay_ordered:
  assumes "recording_ready env mc recorded brief (sr_db r)" "replay_new brief r = Some st" "box_laws cr bx" "tcp_writable (sr_stream r)"
    "inbox_ready mc cr bx (length (outgoing_ids brief 6)) r"
  shows "\<exists>st' sent w. replay_run (replay_read env mc cr bx) (replay_write env mc cr bx) st = Some (Inr st') \<and>
    incoming_ids brief 6 = sent @ incoming_ids brief (rs_write_pos st') \<and>
    wire_form mc cr bx (sr_key r) (sr_local r) (map recorded sent) = Inr (sr_local (rs_replayer st'), w) \<and>
    tcp_out (sr_stream (rs_replayer st')) = tcp_out (sr_stream r) @ w \<and>
    (outgoing_ids brief (rs_read_pos st') = [] \<or> sent = incoming_ids brief 6)"
proof -
  have st: "rs_replayer st = r" "rs_brief st = brief" "rs_read_pos st = 6" "rs_write_pos st = 6" "6 \<le> length brief"
    using assms(2) by (auto simp: replay_new_def split: if_splits)
  have w: "walk_ok st" using st assms(1) by (simp add: walk_ok_def recording_ready_def)
  have "replay_ready env mc cr bx recorded r (incoming_ids brief 6) (to_read st) (to_write st) (rs_replayer st)"
    using assms st unfolding replay_ready_def recording_ready_def by (auto intro!: exI [of _ "[]"])
  then obtain st' where st': "replay_run (replay_read env mc cr bx) (replay_write env mc cr bx) st = Some (Inr st')"
      "replay_ready env mc cr bx recorded r (incoming_ids brief 6) (to_read st') (to_write st') (rs_replayer st')"
      "to_read st' = [] \<or> to_write st' = []" "rs_brief st' = brief"
    using socket.run_returns [OF w] st by blast
  obtain sent w where "incoming_ids brief 6 = sent @ to_write st'"
      "wire_form mc cr bx (sr_key r) (sr_local r) (map recorded sent) = Inr (sr_local (rs_replayer st'), w)"
      "tcp_out (sr_stream (rs_replayer st')) = tcp_out (sr_stream r) @ w"
    using st'(2) unfolding replay_ready_def by blast
  then show ?thesis using st'(1,3,4) by auto
qed

text \<open>The replay may end with nothing written: when the node had received a message first, the walk stays with reading.\<close>

lemma replay_stops_early:
  assumes "walk_ok st" "rs_read st" "to_read st = [i]" "rd (rs_replayer st) i = Some (Inr (True, s))" "at_write_pos st"
  shows "replay_run rd wr st = Some (Inr (after_read i True s st))"
proof -
  have "replay_run rd wr st = replay_run rd wr (after_read i True s st)"
    using assms replay_next_walk [OF assms(1)] by (subst replay_run.simps) simp
  moreover have "rs_read (after_read i True s st)" using assms(5) by (simp add: after_read_def at_write_pos_def Let_def split: if_splits)
  ultimately show ?thesis
    using replay_next_walk [OF after_read_walk(1) [OF assms(1,3)]] after_read_walk(2) [OF assms(1,3)]
    by (subst (asm) (2) replay_run.simps) simp
qed

definition sample_peer_kv :: "unit kv" where
  "sample_peer_kv =
     \<lparr>kv_u64 = to_be_bytes, kv_put = (\<lambda>k v s. Inr s),
      kv_get = (\<lambda>k s. case k of Key_Message i \<Rightarrow> Inr (Some (Row_Message ((sample_message i)\<lparr>msg_ty := Ty_P2p Disconnect\<rparr>))) | _ \<Rightarrow> Inr None),
      kv_delete = (\<lambda>k s. Inr s), kv_iterator = (\<lambda>sc m s. Inr []), kv_cf_handle = (\<lambda>sc. True), kv_prefix = (\<lambda>sc k f s. [])\<rparr>"

definition sample_peer_env :: "(unit, unit, unit, unit, bytes) db_env" where
  "sample_peer_env =
     \<lparr>de_kv = sample_peer_kv,
      de_decoders = \<lparr>dec_connection = (\<lambda>b. Inr ()), dec_metadata = (\<lambda>b. Inr ()), dec_ack = (\<lambda>b. Inr ()), dec_peer = (\<lambda>b. Inr [0, 0, 0, 1, 7])\<rparr>,
      de_json = (\<lambda>m. Inr []), de_kmerge = concat, de_parse_addr = (\<lambda>s. Inl s), de_search = (\<lambda>q n. Inr [])\<rparr>"

definition sample_brief :: "message_frontend list" where
  "sample_brief =
     map (\<lambda>i. (message_frontend_new (sample_message i) i None)\<lparr>mf_incoming := (i \<in> {1, 3, 5, 7, 9})\<rparr>) [0, 1, 2, 3, 4, 5, 6, 7, 8, 9]"

definition sample_wire :: bytes where
  "sample_wire = [0, 21] @ replicate 16 105 @ [0, 0, 0, 1, 7]"

definition sample_replayer :: "(unit, nat, nat) simple_replayer" where
  "sample_replayer =
     \<lparr>sr_db = (),
      sr_stream = \<lparr>tcp_in = [Inr (take 4 sample_wire), Inl Io_Would_Block, Inr (drop 4 sample_wire)], tcp_out = [], tcp_writable = True\<rparr>,
      sr_buffer = node_buffer_default, sr_key = 5, sr_local = 0,
      sr_remote = 100\<rparr>"

lemma sample_fetch_peer: "fetch_peer sample_peer_env () i = Inr [0, 0, 0, 1, 7]"
proof -
  have c: "chunks_until_missing sample_peer_kv ks () = Inr []" for ks by (cases ks) (simp_all add: get_chunk_def sample_peer_kv_def map_ok_def)
  have m: "get_message sample_peer_kv i () = Inr (Some ((sample_message i)\<lparr>msg_ty := Ty_P2p Disconnect\<rparr>))"
    by (simp add: get_message_def sample_peer_kv_def map_ok_def)
  have e: "de_kv sample_peer_env = sample_peer_kv" "dec_peer (de_decoders sample_peer_env) = (\<lambda>b. Inr [0, 0, 0, 1, 7])"
    by (simp_all add: sample_peer_env_def)
  show ?thesis by (simp add: fetch_peer_def fetch_message_def details_def e m c message_details_new_def map_ok_def)
qed

lemma sample_peer_form: "peer_form sample_codec [0, 0, 0, 1, 7]"
  by (auto simp: peer_form_def wire_message_def sample_codec_def from_be_bytes_def)

lemma sample_wire_form: "wire_form sample_codec sample_peer_crypto sample_box 5 100 [[0, 0, 0, 1, 7]] = Inr (101, sample_wire)"
  by (simp add: write_msg_def sample_codec_def slice_chunks_single sample_box_def sample_peer_crypto_def tcp_write_all_def sample_wire_def
      to_be_bytes_def)
    (simp add: numeral_2_eq_2)

lemma sample_brief_ids: "outgoing_ids sample_brief 6 = [6, 8]" "incoming_ids sample_brief 6 = [7, 9]" "length sample_brief = 10"
  by (simp_all add: outgoing_ids_def incoming_ids_def sample_brief_def message_frontend_new_def split: prod.splits)

text \<open>The first read times out in the middle of the message, the second one gets it.\<close>

lemma sample_inbox: "inbox_ready sample_codec sample_peer_crypto sample_box 2 sample_replayer"
proof -
  have "reads sample_codec sample_peer_crypto sample_box 5 (Suc 0) 100 [sample_wire @ []]"
    by (rule reads.message [OF sample_peer_form sample_wire_form reads.enough])
  then have "reads sample_codec sample_peer_crypto sample_box 5 2 100 [take 4 sample_wire, drop 4 sample_wire]"
    unfolding numeral_2_eq_2
  proof (intro reads.timeout)
    show "incomplete (take 4 sample_wire)" "length (take 4 sample_wire) < 0x10000"
      by (simp_all add: sample_wire_def incomplete_def chunk_len_nth)
  qed (simp only: append_take_drop_id append_Nil2)
  then show ?thesis using node_buffer_default_ok by (simp add: inbox_ready_def sample_replayer_def)
qed

theorem replay_ordered_witness:
  "\<exists>st' sent w. replay_run (replay_read sample_peer_env sample_codec sample_peer_crypto sample_box)
      (replay_write sample_peer_env sample_codec sample_peer_crypto sample_box)
      \<lparr>rs_replayer = sample_replayer, rs_brief = sample_brief, rs_read = True, rs_read_pos = 6, rs_write_pos = 6\<rparr> = Some (Inr st') \<and>
    [7, 9] = sent @ incoming_ids sample_brief (rs_write_pos st') \<and>
    wire_form sample_codec sample_peer_crypto sample_box 5 0 (map (\<lambda>_. [0, 0, 0, 1, 7]) sent) = Inr (sr_local (rs_replayer st'), w) \<and>
    tcp_out (sr_stream (rs_replayer st')) = w \<and> (outgoing_ids sample_brief (rs_read_pos st') = [] \<or> sent = [7, 9])"
proof -
  have "mf_id (sample_brief ! i) = word_of_nat i" if "i < 10" for i
  proof -
    have "i \<in> {0, 1, 2, 3, 4, 5, 6, 7, 8, 9}" using that by auto
    then show ?thesis by (auto simp: sample_brief_def message_frontend_new_def split: prod.splits)
  qed
  then have "recording_ready sample_peer_env sample_codec (\<lambda>_. [0, 0, 0, 1, 7]) sample_brief (sr_db sample_replayer)"
    by (simp add: recording_ready_def ids_are_positions_def sample_brief_ids sample_fetch_peer sample_peer_form)
  then show ?thesis
    using replay_ordered [of sample_peer_env sample_codec "\<lambda>_. [0, 0, 0, 1, 7]" sample_brief sample_replayer _ sample_peer_crypto sample_box]
      sample_box_laws sample_brief_ids sample_inbox
    by (auto simp: replay_new_def sample_replayer_def numeral_2_eq_2)
qed

end
