(* ===== verification/Peer_Programs.thy ===== *)
theory Peer_Programs
  imports Replayer
begin

text \<open>
  The programs around the peers: both sides of \<^verbatim>\<open>generate_p2p\<close> in \<^verbatim>\<open>tezedge-recorder/src/bin/pseudonode.rs\<close> and \<^verbatim>\<open>main\<close> of
  \<^verbatim>\<open>tezedge-recorder/src/bin/replayer.rs\<close>. The sockets are connected, the identity files and the example operation are read.
\<close>

section \<open>The exchange after the handshake\<close>

definition run_then :: "(panic + 'a) option \<Rightarrow> ('a \<Rightarrow> (panic + 'b) option) \<Rightarrow> (panic + 'b) option" where
  "run_then m f = (case m of None \<Rightarrow> None | Some (Inl p) \<Rightarrow> Some (Inl p) | Some (Inr a) \<Rightarrow> f a)"

lemma run_then_simps [simp]: "run_then (Some (Inr a)) f = f a" "run_then (Some (Inl p)) f = Some (Inl p)" "run_then None f = None"
  by (simp_all add: run_then_def)

definition expect_msg ::
    "'m msg_codec \<Rightarrow> ('k, 'pk, 'n) crypto \<Rightarrow> ('pk, 'n) box_env \<Rightarrow> 'pk \<Rightarrow> 'n \<Rightarrow> bool \<Rightarrow> node_buffer \<Rightarrow> tcp
     \<Rightarrow> (panic + ('n \<times> 'm) \<times> node_buffer \<times> tcp) option" where
  "expect_msg mc cr bx key nonce peer b s =
     run_then (read_msg mc cr bx key nonce peer b s)
       (\<lambda>(x, b', s'). Some (case x of Inl e \<Rightarrow> Inl Unwrap_None | Inr y \<Rightarrow> Inr (y, b', s')))"

text \<open>The messages of the protocol: \<^verbatim>\<open>MetadataMessage::new(false, false)\<close>, \<^verbatim>\<open>AckMessage::Ack\<close>, and the example operation.\<close>

record ('mm, 'am, 'p) p2p_msgs =
  pm_meta :: "'mm msg_codec"
  pm_meta_msg :: 'mm
  pm_ack :: "'am msg_codec"
  pm_ack_msg :: 'am
  pm_peer :: "'p msg_codec"
  pm_operation :: 'p
  pm_is_operation :: "'p \<Rightarrow> bool"

definition initiator_exchange ::
    "('mm, 'am, 'p) p2p_msgs \<Rightarrow> ('k, 'pk, 'n) crypto \<Rightarrow> ('pk, 'n) box_env \<Rightarrow> 'pk \<Rightarrow> 'n \<Rightarrow> 'n \<Rightarrow> node_buffer \<Rightarrow> tcp
     \<Rightarrow> (panic + ('n \<times> 'n) \<times> node_buffer \<times> tcp) option" where
  "initiator_exchange pm cr bx key local remote b s =
     run_then (Some (write_msg (pm_meta pm) cr bx (pm_meta_msg pm) key local s)) (\<lambda>(local, s).
     run_then (expect_msg (pm_meta pm) cr bx key remote False b s) (\<lambda>((remote, _), b, s).
     run_then (Some (write_msg (pm_ack pm) cr bx (pm_ack_msg pm) key local s)) (\<lambda>(local, s).
     run_then (expect_msg (pm_ack pm) cr bx key remote False b s) (\<lambda>((remote, _), b, s).
     Some (Inr ((local, remote), b, s))))))"

definition responder_exchange ::
    "('mm, 'am, 'p) p2p_msgs \<Rightarrow> ('k, 'pk, 'n) crypto \<Rightarrow> ('pk, 'n) box_env \<Rightarrow> 'pk \<Rightarrow> 'n \<Rightarrow> 'n \<Rightarrow> node_buffer \<Rightarrow> tcp
     \<Rightarrow> (panic + ('n \<times> 'n) \<times> node_buffer \<times> tcp) option" where
  "responder_exchange pm cr bx key local remote b s =
     run_then (expect_msg (pm_meta pm) cr bx key remote False b s) (\<lambda>((remote, _), b, s).
     run_then (Some (write_msg (pm_meta pm) cr bx (pm_meta_msg pm) key local s)) (\<lambda>(local, s).
     run_then (expect_msg (pm_ack pm) cr bx key remote False b s) (\<lambda>((remote, _), b, s).
     run_then (Some (write_msg (pm_ack pm) cr bx (pm_ack_msg pm) key local s)) (\<lambda>(local, s).
     Some (Inr ((local, remote), b, s))))))"

section \<open>The programs\<close>

definition p2p_initiator ::
    "('id, 'k, 'n, 'v, 'cm) hs_env \<Rightarrow> ('mm, 'am, 'p) p2p_msgs \<Rightarrow> ('k, 'pk, 'n) crypto \<Rightarrow> ('pk, 'n) box_env
     \<Rightarrow> 'n \<Rightarrow> u16 \<Rightarrow> string \<Rightarrow> 'v \<Rightarrow> tcp \<Rightarrow> (panic + tcp) option" where
  "p2p_initiator hs pm cr bx random this identity_i version s =
     run_then (initiator_handshake hs cr bx random this identity_i version s) (\<lambda>((key, local, remote), s).
     run_then (initiator_exchange pm cr bx key local remote node_buffer_default s) (\<lambda>((local, remote), b, s).
     run_then (Some (write_msg (pm_peer pm) cr bx (pm_operation pm) key local s)) (\<lambda>(local, s).
     Some (Inr s))))"

definition p2p_responder ::
    "('id, 'k, 'n, 'v, 'cm) hs_env \<Rightarrow> ('mm, 'am, 'p) p2p_msgs \<Rightarrow> ('k, 'pk, 'n) crypto \<Rightarrow> ('pk, 'n) box_env
     \<Rightarrow> 'n \<Rightarrow> u16 \<Rightarrow> string \<Rightarrow> 'v \<Rightarrow> tcp \<Rightarrow> (panic + tcp) option" where
  "p2p_responder hs pm cr bx random this identity_r version s =
     run_then (responder_handshake hs cr bx random this identity_r version s) (\<lambda>((key, local, remote), s).
     run_then (responder_exchange pm cr bx key local remote node_buffer_default s) (\<lambda>((local, remote), b, s).
     run_then (expect_msg (pm_peer pm) cr bx key remote True b s) (\<lambda>((remote, msg), b, s).
     if pm_is_operation pm msg then Some (Inr s) else Some (Inl Explicit_Panic))))"

text \<open>The six messages of the handshake at the head of the recording.\<close>

definition expect_brief :: "message_frontend list \<Rightarrow> nat \<Rightarrow> message_category \<Rightarrow> bool \<Rightarrow> panic + unit" where
  "expect_brief brief i category incoming =
     (if i < length brief
      then if mf_category (brief ! i) = category \<and> mf_incoming (brief ! i) = incoming then Inr () else Inl Explicit_Panic
      else Inl Slice_Range)"

definition check_brief :: "message_frontend list \<Rightarrow> panic + unit" where
  "check_brief brief =
     and_then (expect_brief brief 0 Cat_Connection False) (\<lambda>_.
     and_then (expect_brief brief 1 Cat_Connection True) (\<lambda>_.
     and_then (expect_brief brief 2 Cat_Meta False) (\<lambda>_.
     and_then (expect_brief brief 3 Cat_Meta True) (\<lambda>_.
     and_then (expect_brief brief 4 Cat_Ack False) (\<lambda>_.
     expect_brief brief 5 Cat_Ack True)))))"

definition replay_filter :: messages_filter where
  "replay_filter =
     \<lparr>mfl_direction = Some ''forward'', mfl_limit = Some 100000, mfl_cursor = Some 0, mfl_remote_addr = None, mfl_source_type = None,
      mfl_incoming = None, mfl_types = None, mfl_from = None, mfl_to = None, mfl_timestamp = None, mfl_node_name = None\<rparr>"

definition recorded_version :: "('st, 'c, 'm, 'a, 'p) db_env \<Rightarrow> ('c \<Rightarrow> 'v) \<Rightarrow> 'st \<Rightarrow> panic + 'v" where
  "recorded_version env version db =
     (case fetch_message env 0 db of
        Inr (Some message) \<Rightarrow>
          (case md_message message of Some (ConnectionMessage cm) \<Rightarrow> Inr (version cm) | _ \<Rightarrow> Inl Unwrap_None)
      | _ \<Rightarrow> Inl Unwrap_None)"

definition fetch_brief :: "('st, 'c, 'm, 'a, 'p) db_env \<Rightarrow> 'st \<Rightarrow> panic + message_frontend list" where
  "fetch_brief env db =
     and_then (fetch_messages env replay_filter db) (\<lambda>r.
     and_then (case r of Inl e \<Rightarrow> Inl Unwrap_None | Inr brief \<Rightarrow> Inr brief) (\<lambda>brief.
     and_then (check_brief brief) (\<lambda>_. Inr brief)))"

definition replayer_main ::
    "('st, 'c, 'm, 'a, 'p) db_env \<Rightarrow> ('c \<Rightarrow> 'v) \<Rightarrow> ('id, 'k, 'n, 'v, 'cm) hs_env \<Rightarrow> ('mm, 'am, 'p) p2p_msgs
     \<Rightarrow> ('k, 'pk, 'n) crypto \<Rightarrow> ('pk, 'n) box_env \<Rightarrow> 'n \<Rightarrow> string \<Rightarrow> 'st \<Rightarrow> tcp
     \<Rightarrow> (panic + ('st, 'pk, 'n) simple_replayer replay_state option) option" where
  "replayer_main env version_of hs pm cr bx random identity_i db s =
     run_then (Some (fetch_brief env db)) (\<lambda>brief.
     run_then (Some (recorded_version env version_of db)) (\<lambda>version.
     run_then (responder_handshake hs cr bx random 9732 identity_i version s) (\<lambda>((key, local, remote), s).
     run_then (responder_exchange pm cr bx key local remote node_buffer_default s) (\<lambda>((local, remote), b, s).
     case replay_new brief \<lparr>sr_db = db, sr_stream = s, sr_buffer = node_buffer_default, sr_key = key, sr_local = local, sr_remote = remote\<rparr> of
       None \<Rightarrow> Some (Inr None)
     | Some st \<Rightarrow>
         run_then (replay_run (replay_read env (pm_peer pm) cr bx) (replay_write env (pm_peer pm) cr bx) st) (\<lambda>st'. Some (Inr (Some st')))))))"

section \<open>The two programs against each other\<close>

text \<open>
  The buffer of the handshake is dropped, with whatever it has read behind the chunk. Nothing is lost when the chunk arrives in segments of its
  own.
\<close>

definition arrives :: "tcp \<Rightarrow> bytes \<Rightarrow> bytes \<Rightarrow> bool" where
  "arrives s chunk later \<longleftrightarrow> tcp_writable s \<and> (\<exists>segs segs'. tcp_in s = map Inr (segs @ segs') \<and> concat segs = chunk \<and> concat segs' = later)"

lemma read_chunk_own_segments:
  assumes "nb_ok b" "tcp_in s = map Inr (segs @ segs')" "nb_view b @ concat segs = c" "framed c" "length c \<le> 0x10000" "bx_from_raw bx c = Some c"
  shows "\<exists>b' s'. read_chunk bx b s = Some (Inr (Inr c, b', s')) \<and> undisturbed s' \<and> incoming_bytes s' = concat segs' \<and>
    tcp_out s' = tcp_out s \<and> tcp_writable s' = tcp_writable s"
  using assms
proof (induction segs arbitrary: b s)
  case Nil
  then show ?case
    using read_chunk_ready [of b c "[]" bx s] by (auto simp: undisturbed_def incoming_bytes_def list_all_iff o_def)
next
  case (Cons seg segs)
  show ?case
  proof (cases "seg @ concat segs = []")
    case True
    then show ?thesis
      using Cons.prems read_chunk_ready [of b c "[]" bx s] by (auto simp: undisturbed_def incoming_bytes_def list_all_iff o_def)
  next
    case False
    have n: "nb_len b + length seg \<le> 0x10000" using Cons.prems(1,3,5) length_nb_view [of b] by auto
    define b1 where "b1 = \<lparr>nb_len = nb_len b + length seg, nb_data = write_at (nb_len b) seg (nb_data b)\<rparr>"
    have b1: "nb_ok b1" "nb_view b1 = nb_view b @ seg" using nb_push [OF Cons.prems(1) n] by (simp_all add: b1_def)
    have "raw_len_of b = None"
      using incomplete_proper_prefix [of "nb_view b" "seg @ concat segs"] False Cons.prems(1,3,4) by (simp add: raw_len_of_view)
    moreover have "tcp_read (0x10000 - nb_len b) s = (Inr seg, s\<lparr>tcp_in := map Inr (segs @ segs')\<rparr>)"
      using Cons.prems(2) n by (simp add: tcp_read_def)
    ultimately have "read_chunk bx b s = read_chunk bx b1 (s\<lparr>tcp_in := map Inr (segs @ segs')\<rparr>)"
      by (subst read_chunk.simps) (simp add: b1_def)
    then show ?thesis using Cons.IH [of b1 "s\<lparr>tcp_in := map Inr (segs @ segs')\<rparr>"] Cons.prems b1 by simp
  qed
qed

lemma receive_chunk_arrives:
  assumes "arrives s c later" "framed c" "length c \<le> 0x10000" "bx_from_raw bx c = Some c"
  shows "\<exists>s'. receive_chunk bx s = Some (Inr (c, s')) \<and> undisturbed s' \<and> incoming_bytes s' = later \<and> tcp_out s' = tcp_out s \<and> tcp_writable s'"
proof -
  obtain segs segs' where s: "tcp_writable s" "tcp_in s = map Inr (segs @ segs')" "concat segs = c" "concat segs' = later"
    using assms(1) unfolding arrives_def by blast
  then show ?thesis
    using read_chunk_own_segments [OF node_buffer_default_ok(1) s(2), of c bx] assms(2-4) node_buffer_default_ok(2)
    by (auto simp: receive_chunk_def)
qed

text \<open>Where a peer stands: what it has still to read and what it has written.\<close>

definition stands :: "node_buffer \<Rightarrow> tcp \<Rightarrow> bytes \<Rightarrow> bytes \<Rightarrow> bool" where
  "stands b s later out \<longleftrightarrow> nb_ok b \<and> undisturbed s \<and> tcp_writable s \<and> nb_view b @ incoming_bytes s = later \<and> tcp_out s = out"

definition passes ::
    "'m msg_codec \<Rightarrow> ('k, 'pk, 'n) crypto \<Rightarrow> ('pk, 'n) box_env \<Rightarrow> 'pk \<Rightarrow> bool \<Rightarrow> 'm \<Rightarrow> 'n \<Rightarrow> 'n \<Rightarrow> bytes \<Rightarrow> bool" where
  "passes mc cr bx key peer m nonce nonce' w \<longleftrightarrow>
     (\<forall>b s later out. stands b s later out \<longrightarrow>
        (\<exists>s'. write_msg mc cr bx m key nonce s = Inr (nonce', s') \<and> stands b s' later (out @ w))) \<and>
     (\<forall>b s later out. stands b s (w @ later) out \<longrightarrow>
        (\<exists>b' s'. expect_msg mc cr bx key nonce peer b s = Some (Inr ((nonce', m), b', s')) \<and> stands b' s' later out))"

lemma passes_boxed:
  assumes "box_laws cr bx" "wire_message mc peer m bs"
  obtains cs where "boxed cr key nonce (slice_chunks 0xffe0 bs) cs"
    "passes mc cr bx key peer m nonce ((cr_increment cr ^^ length (slice_chunks 0xffe0 bs)) nonce) (concat cs)"
proof -
  let ?nonce = "(cr_increment cr ^^ length (slice_chunks 0xffe0 bs)) nonce"
  obtain cs where cs: "boxed cr key nonce (slice_chunks 0xffe0 bs) cs"
    and w: "\<And>s. tcp_writable s \<Longrightarrow> write_msg mc cr bx m key nonce s = Inr (?nonce, s\<lparr>tcp_out := tcp_out s @ concat cs\<rparr>)"
    and r: "\<And>b r rest. nb_ok b \<Longrightarrow> undisturbed r \<Longrightarrow> nb_view b @ incoming_bytes r = concat cs @ rest \<Longrightarrow>
      \<exists>b' r'. read_msg mc cr bx key nonce peer b r = Some (Inr (Inr (?nonce, m), b', r')) \<and> nb_ok b' \<and> undisturbed r' \<and>
        nb_view b' @ incoming_bytes r' = rest \<and> tcp_out r' = tcp_out r \<and> tcp_writable r' = tcp_writable r"
    by (rule message_boxed [OF assms, of key nonce]) blast
  have "\<exists>b' s'. expect_msg mc cr bx key nonce peer b s = Some (Inr ((?nonce, m), b', s')) \<and> stands b' s' later out"
    if "stands b s (concat cs @ later) out" for b s later out
    using r [of b s later] that by (auto simp: stands_def expect_msg_def)
  moreover have "\<exists>s'. write_msg mc cr bx m key nonce s = Inr (?nonce, s') \<and> stands b s' later (out @ concat cs)"
    if "stands b s later out" for b s later out
    using w [of s] that by (auto simp: stands_def undisturbed_def incoming_bytes_def)
  ultimately show ?thesis using that [OF cs] unfolding passes_def by blast
qed

lemma passes_write:
  assumes "passes mc cr bx key peer m nonce nonce' w" "stands b s later out"
  obtains s' where "write_msg mc cr bx m key nonce s = Inr (nonce', s')" "stands b s' later (out @ w)"
  using assms unfolding passes_def by blast

lemma passes_expect:
  assumes "passes mc cr bx key peer m nonce nonce' w" "stands b s (w @ later) out"
  obtains b' s' where "expect_msg mc cr bx key nonce peer b s = Some (Inr ((nonce', m), b', s'))" "stands b' s' later out"
  using assms unfolding passes_def by blast

lemma initiator_exchange_passes:
  assumes "passes (pm_meta pm) cr bx key False (pm_meta_msg pm) x x1 m1" "passes (pm_ack pm) cr bx key False (pm_ack_msg pm) x1 x2 a1"
    "passes (pm_meta pm) cr bx key False (pm_meta_msg pm) y y1 m2" "passes (pm_ack pm) cr bx key False (pm_ack_msg pm) y1 y2 a2"
    "stands b s (m2 @ a2 @ later) out"
  obtains b' s' where "initiator_exchange pm cr bx key x y b s = Some (Inr ((x2, y2), b', s'))" "stands b' s' later (out @ m1 @ a1)"
proof -
  obtain s1 where s1: "write_msg (pm_meta pm) cr bx (pm_meta_msg pm) key x s = Inr (x1, s1)" "stands b s1 (m2 @ a2 @ later) (out @ m1)"
    by (rule passes_write [OF assms(1,5)])
  obtain b2 s2 where s2: "expect_msg (pm_meta pm) cr bx key y False b s1 = Some (Inr ((y1, pm_meta_msg pm), b2, s2))"
      "stands b2 s2 (a2 @ later) (out @ m1)"
    by (rule passes_expect [OF assms(3) s1(2)])
  obtain s3 where s3: "write_msg (pm_ack pm) cr bx (pm_ack_msg pm) key x1 s2 = Inr (x2, s3)" "stands b2 s3 (a2 @ later) ((out @ m1) @ a1)"
    by (rule passes_write [OF assms(2) s2(2)])
  obtain b4 s4 where s4: "expect_msg (pm_ack pm) cr bx key y1 False b2 s3 = Some (Inr ((y2, pm_ack_msg pm), b4, s4))"
      "stands b4 s4 later ((out @ m1) @ a1)"
    by (rule passes_expect [OF assms(4) s3(2)])
  show ?thesis using that [of b4 s4] s1(1) s2(1) s3(1) s4 by (simp add: initiator_exchange_def)
qed

lemma responder_exchange_passes:
  assumes "passes (pm_meta pm) cr bx key False (pm_meta_msg pm) x x1 m1" "passes (pm_ack pm) cr bx key False (pm_ack_msg pm) x1 x2 a1"
    "passes (pm_meta pm) cr bx key False (pm_meta_msg pm) y y1 m2" "passes (pm_ack pm) cr bx key False (pm_ack_msg pm) y1 y2 a2"
    "stands b s (m1 @ a1 @ later) out"
  obtains b' s' where "responder_exchange pm cr bx key y x b s = Some (Inr ((y2, x2), b', s'))" "stands b' s' later (out @ m2 @ a2)"
proof -
  obtain b1 s1 where s1: "expect_msg (pm_meta pm) cr bx key x False b s = Some (Inr ((x1, pm_meta_msg pm), b1, s1))"
      "stands b1 s1 (a1 @ later) out"
    by (rule passes_expect [OF assms(1,5)])
  obtain s2 where s2: "write_msg (pm_meta pm) cr bx (pm_meta_msg pm) key y s1 = Inr (y1, s2)" "stands b1 s2 (a1 @ later) (out @ m2)"
    by (rule passes_write [OF assms(3) s1(2)])
  obtain b3 s3 where s3: "expect_msg (pm_ack pm) cr bx key x1 False b1 s2 = Some (Inr ((x2, pm_ack_msg pm), b3, s3))"
      "stands b3 s3 later (out @ m2)"
    by (rule passes_expect [OF assms(2) s2(2)])
  obtain s4 where s4: "write_msg (pm_ack pm) cr bx (pm_ack_msg pm) key y1 s3 = Inr (y2, s4)" "stands b3 s4 later ((out @ m2) @ a2)"
    by (rule passes_write [OF assms(4) s3(2)])
  show ?thesis using that [of b3 s4] s1(1) s2(1) s3(1) s4 by (simp add: responder_exchange_def)
qed

lemma p2p_initiator_passes:
  assumes h: "framed b" "length b \<le> 0x10000" "bx_from_raw bx b = Some b"
    and hi: "\<And>s s'. tcp_writable s \<Longrightarrow> receive_chunk bx (s\<lparr>tcp_out := tcp_out s @ a\<rparr>) = Some (Inr (b, s')) \<Longrightarrow>
       initiator_handshake hs cr bx random_i port_i json_i version s = Some (Inr ((key, x, y), s'))"
    and m1: "passes (pm_meta pm) cr bx key False (pm_meta_msg pm) x x1 m1" and a1: "passes (pm_ack pm) cr bx key False (pm_ack_msg pm) x1 x2 a1"
    and m2: "passes (pm_meta pm) cr bx key False (pm_meta_msg pm) y y1 m2" and a2: "passes (pm_ack pm) cr bx key False (pm_ack_msg pm) y1 y2 a2"
    and o1: "passes (pm_peer pm) cr bx key True (pm_operation pm) x2 x3 o1"
    and ar: "arrives s b (m2 @ a2)"
  shows "\<exists>s'. p2p_initiator hs pm cr bx random_i port_i json_i version s = Some (Inr s') \<and> tcp_out s' = tcp_out s @ a @ m1 @ a1 @ o1"
proof -
  have "arrives (s\<lparr>tcp_out := tcp_out s @ a\<rparr>) b (m2 @ a2)" using ar by (simp add: arrives_def)
  then obtain s1 where s1: "receive_chunk bx (s\<lparr>tcp_out := tcp_out s @ a\<rparr>) = Some (Inr (b, s1))"
      "stands node_buffer_default s1 (m2 @ a2 @ []) (tcp_out s @ a)"
    using receive_chunk_arrives [OF _ h] node_buffer_default_ok by (fastforce simp: stands_def)
  obtain b2 s2 where s2: "initiator_exchange pm cr bx key x y node_buffer_default s1 = Some (Inr ((x2, y2), b2, s2))"
      "stands b2 s2 [] ((tcp_out s @ a) @ m1 @ a1)"
    by (rule initiator_exchange_passes [OF m1 a1 m2 a2 s1(2)])
  obtain s3 where s3: "write_msg (pm_peer pm) cr bx (pm_operation pm) key x2 s2 = Inr (x3, s3)"
      "stands b2 s3 [] (((tcp_out s @ a) @ m1 @ a1) @ o1)"
    by (rule passes_write [OF o1 s2(2)])
  have "tcp_writable s" using ar by (simp add: arrives_def)
  then show ?thesis using hi [OF _ s1(1)] s2(1) s3 by (simp add: p2p_initiator_def stands_def)
qed

lemma p2p_responder_passes:
  assumes h: "framed a" "length a \<le> 0x10000" "bx_from_raw bx a = Some a"
    and hr: "\<And>s s'. receive_chunk bx s = Some (Inr (a, s')) \<Longrightarrow> tcp_writable s' \<Longrightarrow>
       responder_handshake hs cr bx random_r port_r json_r version s = Some (Inr ((key, y, x), s'\<lparr>tcp_out := tcp_out s' @ b\<rparr>))"
    and m1: "passes (pm_meta pm) cr bx key False (pm_meta_msg pm) x x1 m1" and a1: "passes (pm_ack pm) cr bx key False (pm_ack_msg pm) x1 x2 a1"
    and m2: "passes (pm_meta pm) cr bx key False (pm_meta_msg pm) y y1 m2" and a2: "passes (pm_ack pm) cr bx key False (pm_ack_msg pm) y1 y2 a2"
    and o1: "passes (pm_peer pm) cr bx key True (pm_operation pm) x2 x3 o1"
    and op: "pm_is_operation pm (pm_operation pm)" and ar: "arrives s a (m1 @ a1 @ o1)"
  shows "\<exists>s'. p2p_responder hs pm cr bx random_r port_r json_r version s = Some (Inr s') \<and> tcp_out s' = tcp_out s @ b @ m2 @ a2"
proof -
  obtain s1 where s1: "receive_chunk bx s = Some (Inr (a, s1))" "tcp_writable s1"
      "stands node_buffer_default (s1\<lparr>tcp_out := tcp_out s1 @ b\<rparr>) (m1 @ a1 @ o1 @ []) (tcp_out s @ b)"
    using receive_chunk_arrives [OF ar h] node_buffer_default_ok by (auto simp: stands_def undisturbed_def incoming_bytes_def)
  obtain b2 s2 where s2: "responder_exchange pm cr bx key y x node_buffer_default (s1\<lparr>tcp_out := tcp_out s1 @ b\<rparr>) =
        Some (Inr ((y2, x2), b2, s2))" "stands b2 s2 (o1 @ []) ((tcp_out s @ b) @ m2 @ a2)"
    by (rule responder_exchange_passes [OF m1 a1 m2 a2 s1(3)])
  obtain b3 s3 where s3: "expect_msg (pm_peer pm) cr bx key x2 True b2 s2 = Some (Inr ((x3, pm_operation pm), b3, s3))"
      "stands b3 s3 [] ((tcp_out s @ b) @ m2 @ a2)"
    by (rule passes_expect [OF o1 s2(2)])
  then show ?thesis using hr [OF s1(1,2)] s2(1) op by (simp add: p2p_responder_def stands_def)
qed

definition p2p_msgs_ok :: "('mm, 'am, 'p) p2p_msgs \<Rightarrow> bool" where
  "p2p_msgs_ok pm \<longleftrightarrow> (\<exists>bs. wire_message (pm_meta pm) False (pm_meta_msg pm) bs) \<and> (\<exists>bs. wire_message (pm_ack pm) False (pm_ack_msg pm) bs) \<and>
     (\<exists>bs. wire_message (pm_peer pm) True (pm_operation pm) bs) \<and> pm_is_operation pm (pm_operation pm)"

lemma boxed_append:
  "boxed cr key nonce ps cs \<Longrightarrow> boxed cr key ((cr_increment cr ^^ length ps) nonce) ps' cs' \<Longrightarrow> boxed cr key nonce (ps @ ps') (cs @ cs')"
  by (induction cr key nonce ps cs rule: boxed.induct) (simp_all add: funpow_swap1)

text \<open>
  What the two programs send: a connection chunk each, then chunks that open, with the key and the nonces of the handshake, into the metadata,
  the acknowledgement and, from the initiator, the operation. Each program ends when it receives what the other sends.
\<close>

lemma p2p_speak:
  assumes "hs_laws hs cr" "box_laws cr bx"
    "wire_message (pm_meta pm) False (pm_meta_msg pm) bm" "wire_message (pm_ack pm) False (pm_ack_msg pm) ba"
    "wire_message (pm_peer pm) True (pm_operation pm) bo" "pm_is_operation pm (pm_operation pm)"
    "identity_of hs random_i json_i port_i version = Inr (cm_i, sk_i)" "identity_of hs random_r json_r port_r version = Inr (cm_r, sk_r)"
  obtains a b key x y cs_i cs_r where "own_chunk hs bx cm_i = Inr a" "own_chunk hs bx cm_r = Inr b" "framed a" "framed b"
    "\<exists>pr. cr_pk_from_bytes cr (hs_public_key hs cm_r) = Some pr \<and> cr_precompute cr pr sk_i = key"
    "\<exists>pi. cr_pk_from_bytes cr (hs_public_key hs cm_i) = Some pi \<and> cr_precompute cr pi sk_r = key"
    "cr_generate_nonces cr a b False = Some (x, y)" "cr_generate_nonces cr b a True = Some (y, x)"
    "boxed cr key x (slice_chunks 0xffe0 bm @ slice_chunks 0xffe0 ba @ slice_chunks 0xffe0 bo) cs_i"
    "boxed cr key y (slice_chunks 0xffe0 bm @ slice_chunks 0xffe0 ba) cs_r"
    "\<And>s. arrives s b (concat cs_r) \<Longrightarrow>
       \<exists>s'. p2p_initiator hs pm cr bx random_i port_i json_i version s = Some (Inr s') \<and> tcp_out s' = tcp_out s @ a @ concat cs_i"
    "\<And>s. arrives s a (concat cs_i) \<Longrightarrow>
       \<exists>s'. p2p_responder hs pm cr bx random_r port_r json_r version s = Some (Inr s') \<and> tcp_out s' = tcp_out s @ b @ concat cs_r"
proof -
  obtain a b key x y where c: "own_chunk hs bx cm_i = Inr a" "own_chunk hs bx cm_r = Inr b"
    and h: "framed a" "length a \<le> 0x10000" "bx_from_raw bx a = Some a" "framed b" "length b \<le> 0x10000" "bx_from_raw bx b = Some b"
    and hi: "\<And>s s'. tcp_writable s \<Longrightarrow> receive_chunk bx (s\<lparr>tcp_out := tcp_out s @ a\<rparr>) = Some (Inr (b, s')) \<Longrightarrow>
       initiator_handshake hs cr bx random_i port_i json_i version s = Some (Inr ((key, x, y), s'))"
    and hr: "\<And>s s'. receive_chunk bx s = Some (Inr (a, s')) \<Longrightarrow> tcp_writable s' \<Longrightarrow>
       responder_handshake hs cr bx random_r port_r json_r version s = Some (Inr ((key, y, x), s'\<lparr>tcp_out := tcp_out s' @ b\<rparr>))"
    and k: "\<exists>pr. cr_pk_from_bytes cr (hs_public_key hs cm_r) = Some pr \<and> cr_precompute cr pr sk_i = key"
      "\<exists>pi. cr_pk_from_bytes cr (hs_public_key hs cm_i) = Some pi \<and> cr_precompute cr pi sk_r = key"
      "cr_generate_nonces cr a b False = Some (x, y)" "cr_generate_nonces cr b a True = Some (y, x)"
    by (rule handshake_sides [OF assms(1,2,7,8)]) blast
  let ?inc = "\<lambda>bs. cr_increment cr ^^ length (slice_chunks 0xffe0 (bs :: bytes))"
  obtain m1 where m1: "boxed cr key x (slice_chunks 0xffe0 bm) m1" "passes (pm_meta pm) cr bx key False (pm_meta_msg pm) x (?inc bm x) (concat m1)"
    by (rule passes_boxed [OF assms(2,3)])
  obtain m2 where m2: "boxed cr key y (slice_chunks 0xffe0 bm) m2" "passes (pm_meta pm) cr bx key False (pm_meta_msg pm) y (?inc bm y) (concat m2)"
    by (rule passes_boxed [OF assms(2,3)])
  obtain a1 where a1: "boxed cr key (?inc bm x) (slice_chunks 0xffe0 ba) a1"
      "passes (pm_ack pm) cr bx key False (pm_ack_msg pm) (?inc bm x) (?inc ba (?inc bm x)) (concat a1)"
    by (rule passes_boxed [OF assms(2,4)])
  obtain a2 where a2: "boxed cr key (?inc bm y) (slice_chunks 0xffe0 ba) a2"
      "passes (pm_ack pm) cr bx key False (pm_ack_msg pm) (?inc bm y) (?inc ba (?inc bm y)) (concat a2)"
    by (rule passes_boxed [OF assms(2,4)])
  obtain o1 where o1: "boxed cr key (?inc ba (?inc bm x)) (slice_chunks 0xffe0 bo) o1"
      "passes (pm_peer pm) cr bx key True (pm_operation pm) (?inc ba (?inc bm x)) (?inc bo (?inc ba (?inc bm x))) (concat o1)"
    by (rule passes_boxed [OF assms(2,5)])
  show ?thesis
    using p2p_initiator_passes [OF h(4-6) hi m1(2) a1(2) m2(2) a2(2) o1(2)]
      p2p_responder_passes [OF h(1-3) hr m1(2) a1(2) m2(2) a2(2) o1(2) assms(6)]
      boxed_append [OF m1(1) boxed_append [OF a1(1) o1(1)]] boxed_append [OF m2(1) a2(1)]
    by (intro that [OF c h(1,4) k, of "m1 @ a1 @ o1" "m2 @ a2"]) simp_all
qed

text \<open>
  The two generated peers converse. There are byte strings such that, when each program receives what the other sends (the connection chunk in
  segments of its own, the rest in any segments), both programs end without a panic and each has sent exactly what the other was to receive: the
  connection messages, the metadata, the acknowledgements and the operation all arrive and are understood.
\<close>

theorem p2p_converse:
  assumes "hs_laws hs cr" "box_laws cr bx" "p2p_msgs_ok pm"
    "identity_of hs random_i json_i port_i version = Inr (cm_i, sk_i)" "identity_of hs random_r json_r port_r version = Inr (cm_r, sk_r)"
  shows "\<exists>chunk_i later_i chunk_r later_r. \<forall>s_i s_r. arrives s_i chunk_r later_r \<and> arrives s_r chunk_i later_i \<longrightarrow>
    (\<exists>s_i' s_r'. p2p_initiator hs pm cr bx random_i port_i json_i version s_i = Some (Inr s_i') \<and>
       tcp_out s_i' = tcp_out s_i @ chunk_i @ later_i \<and>
       p2p_responder hs pm cr bx random_r port_r json_r version s_r = Some (Inr s_r') \<and>
       tcp_out s_r' = tcp_out s_r @ chunk_r @ later_r)"
proof -
  obtain bm ba bo where w: "wire_message (pm_meta pm) False (pm_meta_msg pm) bm" "wire_message (pm_ack pm) False (pm_ack_msg pm) ba"
      "wire_message (pm_peer pm) True (pm_operation pm) bo" "pm_is_operation pm (pm_operation pm)"
    using assms(3) unfolding p2p_msgs_ok_def by blast
  show ?thesis by (rule p2p_speak [OF assms(1,2) w assms(4,5)]) blast
qed

definition sample_p2p :: "(bytes, bytes, bytes) p2p_msgs" where
  "sample_p2p =
     \<lparr>pm_meta = sample_codec, pm_meta_msg = [0, 0], pm_ack = sample_codec, pm_ack_msg = [0], pm_peer = sample_codec,
      pm_operation = [0, 0, 0, 1, 9], pm_is_operation = (\<lambda>m. length m = 5)\<rparr>"

theorem p2p_converse_witness:
  "\<exists>chunk_i later_i chunk_r later_r s_i' s_r'.
     p2p_initiator sample_hs sample_p2p sample_peer_crypto sample_box 0 9732 ''ab'' () (sample_tcp [chunk_r, later_r]) = Some (Inr s_i') \<and>
     tcp_out s_i' = chunk_i @ later_i \<and>
     p2p_responder sample_hs sample_p2p sample_peer_crypto sample_box 0 9733 ''abc'' () (sample_tcp [chunk_i, later_i]) = Some (Inr s_r') \<and>
     tcp_out s_r' = chunk_r @ later_r"
proof -
  have i: "identity_of sample_hs 0 ''ab'' 9732 () = Inr (2, 2)" "identity_of sample_hs 0 ''abc'' 9733 () = Inr (3, 3)"
    by (simp_all add: identity_of_def sample_hs_def)
  have p: "p2p_msgs_ok sample_p2p"
    by (auto simp: p2p_msgs_ok_def sample_p2p_def wire_message_def sample_codec_def from_be_bytes_def)
  have a: "arrives (sample_tcp [c, l]) c l" for c l
    by (simp add: arrives_def sample_tcp_def) (rule exI [of _ "[c]"], rule exI [of _ "[l]"], simp)
  obtain ci li ch lr where h: "\<forall>s_i s_r. arrives s_i ch lr \<and> arrives s_r ci li \<longrightarrow>
      (\<exists>s_i' s_r'. p2p_initiator sample_hs sample_p2p sample_peer_crypto sample_box 0 9732 ''ab'' () s_i = Some (Inr s_i') \<and>
         tcp_out s_i' = tcp_out s_i @ ci @ li \<and>
         p2p_responder sample_hs sample_p2p sample_peer_crypto sample_box 0 9733 ''abc'' () s_r = Some (Inr s_r') \<and>
         tcp_out s_r' = tcp_out s_r @ ch @ lr)"
    using p2p_converse [OF sample_hs_laws sample_box_laws p i] by blast
  show ?thesis
    using h [rule_format, OF conjI, OF a a] unfolding sample_tcp_simps(3) append_Nil by blast
qed

end
