(* ===== verification/Wiretap.thy ===== *)
theory Wiretap
  imports Peer_Programs Connection_Processor
begin

text \<open>
  The recorder and the peers together: the system calls of a connection between the two programs of \<open>Peer_Programs\<close>, seen by the processor of
  \<open>Connection_Processor\<close> with the identity of one of them. The recorder derives the same key and nonces as the peers do, opens every chunk,
  and stores the messages that were written.
\<close>

section \<open>The messages of one direction\<close>

text \<open>
  What the parser of one direction makes of chunks, apart from the calls of the other direction: its next state and the messages.
\<close>

definition msgs_of :: "clock \<Rightarrow> connection_item \<Rightarrow> chunk_item list \<Rightarrow> message_parser \<Rightarrow> message_parser \<times> message_item list" where
  "msgs_of clk cn items mp =
     (case handle_chunks clk items cn (mp, []) of Inl p \<Rightarrow> (mp, []) | Inr (cn', mp', ops) \<Rightarrow> (mp', stored_messages ops))"

definition side_messages :: "bool \<Rightarrow> db_op list \<Rightarrow> message_item list" where
  "side_messages s ops = filter (\<lambda>m. msg_sender m = sender_new s) (stored_messages ops)"

lemma same_but_suspicious_sym: "same_but_suspicious a b \<Longrightarrow> same_but_suspicious b a"
  unfolding same_but_suspicious_def
  by (elim exE, rule exI [of _ "incoming_suspicious (cn_comments a)"]) (simp add: add_comment_def)

lemma take_builder_same:
  assumes "same_but_suspicious cn0 cn" "take_builder mp c cn0 = Inr (b, cn0')"
  shows "\<exists>cn'. take_builder mp c cn = Inr (b, cn') \<and> same_but_suspicious cn0' cn'"
  using assms
  by (auto simp: take_builder_def and_then_Inr_iff same_but_suspicious_def add_comment_def split: option.splits if_splits)

lemma mp_handle_chunk_ops:
  "mp_handle_chunk clk c cn (mp, ops) =
   and_then (mp_handle_chunk clk c cn (mp, [])) (\<lambda>(cn', mp', new). Inr (cn', mp', ops @ new))"
  by (auto simp: mp_handle_chunk_def Let_def and_then_assoc intro!: and_then_cong split: sum.splits prod.splits)

lemma mp_handle_chunk_same:
  assumes "ci_bytes c \<noteq> []" "same_but_suspicious cn0 cn"
  shows "\<exists>cn0' cn' mp' new. mp_handle_chunk clk c cn0 (mp, []) = Inr (cn0', mp', new) \<and>
    mp_handle_chunk clk c cn (mp, []) = Inr (cn', mp', new) \<and> same_but_suspicious cn0 cn0' \<and> same_but_suspicious cn0' cn' \<and>
    stored_chunks new = [c] \<and> list_all (\<lambda>m. msg_sender m = ci_sender c) (stored_messages new)"
proof (cases "mp_error mp \<or> too_small mp c \<or> ci_counter c \<in> {0, 1, 2}")
  case True
  then show ?thesis
    using assms build_same [OF assms(2)]
    by (auto simp: mp_handle_chunk_def Let_def connection_message_def metadata_message_def acknowledge_message_def build.simps)
next
  case False
  then obtain b cn0' where b: "take_builder mp c cn0 = Inr (b, cn0')" "same_but_suspicious cn0 cn0'" using take_builder_total by blast
  moreover obtain cn' where "take_builder mp c cn = Inr (b, cn')" "same_but_suspicious cn0' cn'" using take_builder_same [OF assms(2) b(1)] by blast
  moreover have "msg_sender (build t full sd cn1) = sd" for t full sd cn1 by (cases full) (simp add: build.simps)
  ultimately show ?thesis
    using False by (auto simp: mp_handle_chunk_def Let_def build_same split: sum.splits)
qed

lemma handle_chunks_same:
  assumes "list_all (\<lambda>c. ci_bytes c \<noteq> [] \<and> ci_sender c = sd) items" "same_but_suspicious cn0 cn"
  shows "\<exists>cn0' cn' mp' new. handle_chunks clk items cn0 (mp, ops0) = Inr (cn0', mp', ops0 @ new) \<and>
    handle_chunks clk items cn (mp, ops) = Inr (cn', mp', ops @ new) \<and> same_but_suspicious cn0 cn0' \<and> same_but_suspicious cn0' cn' \<and>
    stored_chunks new = items \<and> list_all (\<lambda>m. msg_sender m = sd) (stored_messages new)"
  using assms
proof (induction items arbitrary: cn0 cn mp ops0 ops)
  case Nil
  then show ?case by simp
next
  case (Cons c items)
  obtain cn1 cn2 mp1 new1 where 1: "mp_handle_chunk clk c cn0 (mp, []) = Inr (cn1, mp1, new1)" "mp_handle_chunk clk c cn (mp, []) = Inr (cn2, mp1, new1)"
      "same_but_suspicious cn0 cn1" "same_but_suspicious cn1 cn2" "stored_chunks new1 = [c]" "list_all (\<lambda>m. msg_sender m = sd) (stored_messages new1)"
    using mp_handle_chunk_same [of c cn0 cn clk mp] Cons.prems by auto
  obtain cn0' cn' mp' new where 2: "handle_chunks clk items cn1 (mp1, ops0 @ new1) = Inr (cn0', mp', (ops0 @ new1) @ new)"
      "handle_chunks clk items cn2 (mp1, ops @ new1) = Inr (cn', mp', (ops @ new1) @ new)" "same_but_suspicious cn1 cn0'" "same_but_suspicious cn0' cn'"
      "stored_chunks new = items" "list_all (\<lambda>m. msg_sender m = sd) (stored_messages new)"
    using Cons.IH [OF _ 1(4), of mp1 "ops0 @ new1" "ops @ new1"] Cons.prems(1) by auto
  have "handle_chunks clk (c # items) cn0 (mp, ops0) = Inr (cn0', mp', ops0 @ new1 @ new)"
      "handle_chunks clk (c # items) cn (mp, ops) = Inr (cn', mp', ops @ new1 @ new)"
    using 1(1,2) 2(1,2) by (simp_all add: mp_handle_chunk_ops [of clk c _ mp ops0] mp_handle_chunk_ops [of clk c _ mp ops])
  moreover have "same_but_suspicious cn0 cn0'" using 1(3) 2(3) same_but_suspicious_trans by blast
  ultimately show ?case using 1(5,6) 2(4-6) by (intro exI [of _ cn0'] exI [of _ cn'] exI [of _ mp'] exI [of _ "new1 @ new"]) simp
qed

abbreviation from_sender :: "sender \<Rightarrow> chunk_item list \<Rightarrow> bool" where
  "from_sender sd \<equiv> list_all (\<lambda>c. ci_bytes c \<noteq> [] \<and> ci_sender c = sd)"

lemma handle_chunks_msgs:
  assumes "from_sender sd items" "same_but_suspicious cn0 cn"
  shows "\<exists>cn' ops'. handle_chunks clk items cn (mp, ops) = Inr (cn', fst (msgs_of clk cn0 items mp), ops') \<and> same_but_suspicious cn0 cn' \<and>
    stored_chunks ops' = stored_chunks ops @ items \<and> stored_messages ops' = stored_messages ops @ snd (msgs_of clk cn0 items mp)"
proof -
  obtain cn0' cn' mp' new where h: "handle_chunks clk items cn0 (mp, []) = Inr (cn0', mp', [] @ new)"
      "handle_chunks clk items cn (mp, ops) = Inr (cn', mp', ops @ new)" "same_but_suspicious cn0 cn0'" "same_but_suspicious cn0' cn'"
      "stored_chunks new = items"
    using handle_chunks_same [OF assms, of clk mp "[]" ops] by blast
  have "same_but_suspicious cn0 cn'" using h(3,4) same_but_suspicious_trans by blast
  then show ?thesis using h by (simp add: msgs_of_def)
qed

lemma msgs_of_sender: "from_sender sd items \<Longrightarrow> list_all (\<lambda>m. msg_sender m = sd) (snd (msgs_of clk cn items mp))"
  using handle_chunks_same [of sd items cn cn clk mp "[]" "[]"] by (auto simp: msgs_of_def)

lemma msgs_of_append:
  assumes "from_sender sd xs" "from_sender sd ys"
  shows "msgs_of clk cn (xs @ ys) mp =
    (fst (msgs_of clk cn ys (fst (msgs_of clk cn xs mp))), snd (msgs_of clk cn xs mp) @ snd (msgs_of clk cn ys (fst (msgs_of clk cn xs mp))))"
proof -
  obtain cn1 ops1 where 1: "handle_chunks clk xs cn (mp, []) = Inr (cn1, fst (msgs_of clk cn xs mp), ops1)" "same_but_suspicious cn cn1"
      "stored_messages ops1 = snd (msgs_of clk cn xs mp)"
    using handle_chunks_msgs [OF assms(1) same_but_suspicious_refl, of clk cn mp "[]"] by auto
  obtain cn2 ops2 where 2: "handle_chunks clk ys cn1 (fst (msgs_of clk cn xs mp), ops1) =
        Inr (cn2, fst (msgs_of clk cn ys (fst (msgs_of clk cn xs mp))), ops2)"
      "stored_messages ops2 = stored_messages ops1 @ snd (msgs_of clk cn ys (fst (msgs_of clk cn xs mp)))"
    using handle_chunks_msgs [OF assms(2) 1(2), of clk "fst (msgs_of clk cn xs mp)" ops1] by auto
  show ?thesis by (subst msgs_of_def) (simp add: handle_chunks_append 1(1,3) 2)
qed

lemma msgs_of_Nil [simp]: "msgs_of clk cn [] mp = (mp, [])"
  by (simp add: msgs_of_def)

section \<open>Opening the chunks\<close>

fun wire_items :: "clock \<Rightarrow> bool \<Rightarrow> connection_key \<Rightarrow> bool \<Rightarrow> u64 \<Rightarrow> bytes list \<Rightarrow> bytes list \<Rightarrow> chunk_item list" where
  "wire_items clk s cid net n (c # cs) (p # ps) =
     chunk_net net (chunk_new (clk_secs clk (sender_new s) n) cid (sender_new s) n c p) # wire_items clk s cid net (n + 1) cs ps"
| "wire_items clk s cid net n _ _ = []"

lemma keyed_boxed:
  assumes "boxed cr key nonce ps cs"
  shows "keyed cr clk s (mp_handler clk) net cid n \<lparr>key_key = key, key_nonce = nonce\<rparr> cs cn h =
    and_then (handle_chunks clk (wire_items clk s cid net n cs ps) cn h)
      (\<lambda>(cn', h'). Inr (Some \<lparr>key_key = key, key_nonce = (cr_increment cr ^^ length ps) nonce\<rparr>, cn', h'))"
  using assms
  by (induction cr key nonce ps cs arbitrary: n cn h rule: boxed.induct)
    (auto simp: mp_handler_def and_then_assoc funpow_swap1 intro!: and_then_cong split: prod.splits)

lemma framed_prefix_unique:
  assumes "framed c" "framed d" "c @ x = d @ y"
  shows "c = d"
proof -
  have "2 \<le> length c" "2 \<le> length d" using assms framed_length by blast+
  then have "chunk_len c = chunk_len d" using assms(3) chunk_len_append by metis
  then show ?thesis using assms by (simp add: framed_def append_eq_append_conv)
qed

lemma boxed_framed: "boxed cr key nonce ps cs \<Longrightarrow> list_all framed cs"
  by (induction cr key nonce ps cs rule: boxed.induct) simp_all

text \<open>Cutting what has arrived of a stream cuts off the first of its chunks.\<close>

lemma boxed_split:
  assumes "boxed cr key nonce ps cs" "list_all framed ds" "concat ds @ rest = concat cs"
  shows "\<exists>ps1 ps2 cs2. ps = ps1 @ ps2 \<and> cs = ds @ cs2 \<and> boxed cr key nonce ps1 ds \<and> rest = concat cs2 \<and>
    boxed cr key ((cr_increment cr ^^ length ps1) nonce) ps2 cs2"
  using assms
proof (induction ds arbitrary: nonce ps cs)
  case Nil
  then show ?case by (intro exI [of _ "[]"] exI [of _ ps] exI [of _ cs]) simp
next
  case (Cons d ds)
  then have "d \<noteq> []" using framed_length [of d] by auto
  then have "concat cs \<noteq> []" using Cons.prems(3) by (metis append_is_Nil_conv concat.simps(2))
  then obtain c cs' p ps' where cs: "cs = c # cs'" "ps = p # ps'" using Cons.prems(1) by (cases cs; cases ps) auto
  then have c: "framed c" "boxed cr key (cr_increment cr nonce) ps' cs'" using Cons.prems(1) by simp_all
  have "c = d" using framed_prefix_unique [OF c(1), of d "concat cs'" "concat ds @ rest"] Cons.prems(2,3) cs(1) by simp
  then obtain ps1 ps2 cs2 where "ps' = ps1 @ ps2" "cs' = ds @ cs2" "boxed cr key (cr_increment cr nonce) ps1 ds" "rest = concat cs2"
      "boxed cr key ((cr_increment cr ^^ length ps1) (cr_increment cr nonce)) ps2 cs2"
    using Cons.IH [OF c(2)] Cons.prems(2,3) cs(1) by auto
  then show ?case
    using cs \<open>c = d\<close> Cons.prems(1) by (intro exI [of _ "p # ps1"] exI [of _ ps2] exI [of _ cs2]) (simp add: funpow_swap1)
qed

lemma boxed_incomplete: "boxed cr key nonce ps cs \<Longrightarrow> incomplete (concat cs) \<Longrightarrow> ps = [] \<and> cs = []"
  using framed_not_incomplete by (cases cs; cases ps) fastforce+

text \<open>One payload of a direction that has a key.\<close>

lemma tap_payload:
  assumes "boxed cr key nonce ps cs" "r @ payload @ later = concat cs"
  shows "\<exists>cs1 cs2 ps1 ps2 r'. cs = cs1 @ cs2 \<and> ps = ps1 @ ps2 \<and> length cs1 = length ps1 \<and> list_all framed cs1 \<and>
    boxed cr key ((cr_increment cr ^^ length ps1) nonce) ps2 cs2 \<and> r' @ later = concat cs2 \<and> incomplete r' \<and>
    done_handle_data cr clk s (mp_handler clk) (Done_HaveKey (inner_at cid ident n r) \<lparr>key_key = key, key_nonce = nonce\<rparr>) payload net cn h =
    and_then (handle_chunks clk (wire_items clk s cid net n cs1 ps1) cn h) (\<lambda>(cn', h').
      Inr (Done_HaveKey (inner_at cid ident (n + of_nat (length cs1)) r')
        \<lparr>key_key = key, key_nonce = (cr_increment cr ^^ length ps1) nonce\<rparr>, cn', h'))"
proof -
  obtain cs1 r' where f: "list_all framed cs1" "incomplete r'" "r @ payload = concat cs1 @ r'" using frame_exists [of "r @ payload"] by blast
  then have "concat cs1 @ r' @ later = concat cs" using assms(2) by (metis append.assoc)
  from boxed_split [OF assms(1) f(1) this] obtain ps1 ps2 cs2 where b: "ps = ps1 @ ps2" "cs = cs1 @ cs2" "boxed cr key nonce ps1 cs1"
      "r' @ later = concat cs2" "boxed cr key ((cr_increment cr ^^ length ps1) nonce) ps2 cs2" by blast
  have "length cs1 = length ps1" using b(3) by (induction cr key nonce ps1 cs1 rule: boxed.induct) simp_all
  then show ?thesis
    using b f done_handle_data_have_key [OF f(1,2), of "inner_at cid ident n r" payload cr clk s "mp_handler clk"]
      keyed_boxed [OF b(3), of clk s net cid n]
    by (intro exI [of _ cs1] exI [of _ cs2] exI [of _ ps1] exI [of _ ps2] exI [of _ r'])
      (auto simp: and_then_assoc done_of_key_def simp del: done_handle_data.simps intro!: and_then_cong split: prod.splits)
qed

section \<open>A run after the handshake\<close>

lemma filter_of_sender:
  "list_all (\<lambda>m. msg_sender m = sender_new s) ms \<Longrightarrow> filter (\<lambda>m. msg_sender m = sender_new t) ms = (if s = t then ms else [])"
  by (induction ms) (auto simp: sender_new_def)

definition carries :: "connection_key \<Rightarrow> bool \<Rightarrow> u64 \<Rightarrow> bytes list \<Rightarrow> bytes list \<Rightarrow> chunk_item list \<Rightarrow> bool" where
  "carries cid s n cs ps items \<longleftrightarrow>
     map ci_bytes items = cs \<and> map ci_plain items = ps \<and> numbered n items \<and> list_all (of_side cid s) items"

lemma numbered_append: "numbered n (xs @ ys) \<longleftrightarrow> numbered n xs \<and> numbered (n + of_nat (length xs)) ys"
  by (induction xs arbitrary: n) (auto simp: numbered_Cons numbered_def [of _ "[]"] add.assoc)

lemma carries_append:
  assumes "carries cid s n cs1 ps1 xs" "carries cid s (n + of_nat (length xs)) cs2 ps2 ys"
  shows "carries cid s n (cs1 @ cs2) (ps1 @ ps2) (xs @ ys)"
  using assms by (auto simp: carries_def numbered_append)

lemma carries_wire_items: "length cs = length ps \<Longrightarrow> carries cid s n cs ps (wire_items clk s cid net n cs ps)"
  by (induction cs ps arbitrary: n rule: list_induct2)
    (auto simp: carries_def numbered_Cons numbered_def [of _ "[]"] chunk_net_def chunk_new_def of_side_def)

lemma carries_from_sender: "carries cid s n cs ps items \<Longrightarrow> list_all framed cs \<Longrightarrow> from_sender (sender_new s) items"
  using framed_length by (fastforce simp: carries_def list_all_iff of_side_def)

text \<open>A direction with a key, in which \<open>later\<close> is still to come: what it has buffered and that are the chunks of \<open>ps\<close>.\<close>

definition ready ::
    "('k, 'pk, 'n) crypto \<Rightarrow> 'pk \<Rightarrow> connection_key \<Rightarrow> identity \<Rightarrow> u64 \<Rightarrow> bytes list \<Rightarrow> bytes list \<Rightarrow> bytes \<Rightarrow> ('pk, 'n) handshake_done \<Rightarrow> bool" where
  "ready cr key cid ident n ps cs later st \<longleftrightarrow>
     (\<exists>nonce r. st = Done_HaveKey (inner_at cid ident n r) \<lparr>key_key = key, key_nonce = nonce\<rparr> \<and> boxed cr key nonce ps cs \<and>
        r @ later = concat cs \<and> incomplete r)"

lemma ready_end: "ready cr key cid ident n ps cs [] st \<Longrightarrow> ps = [] \<and> cs = [] \<and> pending st = []"
  using boxed_incomplete by (fastforce simp: ready_def pending_def)

lemma ready_framed: "ready cr key cid ident n ps cs later st \<Longrightarrow> list_all framed cs"
  using boxed_framed by (auto simp: ready_def)

lemma tap_side:
  assumes "ready cr key cid ident n ps cs (payload @ later) st" "same_but_suspicious cn0 cn"
  shows "\<exists>ps1 ps2 cs1 cs2 items st' cn' ops'. ps = ps1 @ ps2 \<and> cs = cs1 @ cs2 \<and> carries cid s n cs1 ps1 items \<and>
    ready cr key cid ident (n + of_nat (length items)) ps2 cs2 later st' \<and> same_but_suspicious cn0 cn' \<and>
    done_handle_data cr clk s (mp_handler clk) st payload net cn (mp, ops) = Inr (st', cn', fst (msgs_of clk cn0 items mp), ops') \<and>
    stored_chunks ops' = stored_chunks ops @ items \<and> stored_messages ops' = stored_messages ops @ snd (msgs_of clk cn0 items mp)"
proof -
  obtain nonce r where st: "st = Done_HaveKey (inner_at cid ident n r) \<lparr>key_key = key, key_nonce = nonce\<rparr>" "boxed cr key nonce ps cs"
      "r @ payload @ later = concat cs"
    using assms(1) by (auto simp: ready_def)
  obtain cs1 cs2 ps1 ps2 r' where t: "cs = cs1 @ cs2" "ps = ps1 @ ps2" "length cs1 = length ps1" "list_all framed cs1"
      "boxed cr key ((cr_increment cr ^^ length ps1) nonce) ps2 cs2" "r' @ later = concat cs2" "incomplete r'"
      "done_handle_data cr clk s (mp_handler clk) st payload net cn (mp, ops) =
       and_then (handle_chunks clk (wire_items clk s cid net n cs1 ps1) cn (mp, ops)) (\<lambda>(cn', h').
         Inr (Done_HaveKey (inner_at cid ident (n + of_nat (length cs1)) r')
           \<lparr>key_key = key, key_nonce = (cr_increment cr ^^ length ps1) nonce\<rparr>, cn', h'))"
    using tap_payload [OF st(2,3), of clk s cid ident n net cn "(mp, ops)"] unfolding st(1) by blast
  let ?items = "wire_items clk s cid net n cs1 ps1"
  have c: "carries cid s n cs1 ps1 ?items" using carries_wire_items [OF t(3)] .
  then have l: "length ?items = length cs1" by (auto simp: carries_def dest: arg_cong [of _ _ length])
  obtain cn' ops' where h: "handle_chunks clk ?items cn (mp, ops) = Inr (cn', fst (msgs_of clk cn0 ?items mp), ops')" "same_but_suspicious cn0 cn'"
      "stored_chunks ops' = stored_chunks ops @ ?items" "stored_messages ops' = stored_messages ops @ snd (msgs_of clk cn0 ?items mp)"
    using handle_chunks_msgs [OF carries_from_sender [OF c t(4)] assms(2)] by blast
  show ?thesis
    using t(1,2,5-8) c l h
    by (intro exI [of _ ps1] exI [of _ ps2] exI [of _ cs1] exI [of _ cs2] exI [of _ ?items] exI [of _ cn'] exI [of _ ops']
        exI [of _ "Done_HaveKey (inner_at cid ident (n + of_nat (length cs1)) r') \<lparr>key_key = key, key_nonce = (cr_increment cr ^^ length ps1) nonce\<rparr>"])
      (auto simp: ready_def)
qed

text \<open>Both directions, as functions of the side.\<close>

abbreviation done_conn ::
    "(bool \<Rightarrow> ('pk, 'n) handshake_done) \<Rightarrow> (bool \<Rightarrow> message_parser) \<Rightarrow> connection_item \<Rightarrow> ('pk, 'n) connection" where
  "done_conn st mp cn \<equiv> \<lparr>cx_state = Some (Conn_Done (st False) (mp False) (st True) (mp True)), cx_item = cn\<rparr>"

lemma done_conn_step:
  "connection_handle_data cr clk (done_conn st mp cn) payload net s ops =
   and_then (done_handle_data cr clk s (mp_handler clk) (st s) payload net cn (mp s, ops))
     (\<lambda>(st', cn', mp', ops'). Inr (done_conn (st(s := st')) (mp(s := mp')) cn', ops'))"
  by (cases s) (simp_all add: connection_handle_data_def)

lemma tapped_run:
  assumes "\<And>s. ready cr key cid ident (n s) (ps s) (cs s) (fed s evs) (st s)" "same_but_suspicious cn0 cn"
  shows "\<exists>conn' ops' items. connection_run cr clk evs (done_conn st mp cn) ops = Inr (conn', ops') \<and> same_but_suspicious cn0 (cx_item conn') \<and>
    (\<forall>s. buffered s conn' = [] \<and> carries cid s (n s) (cs s) (ps s) (items s) \<and> side_chunks s ops' = side_chunks s ops @ items s \<and>
       side_messages s ops' = side_messages s ops @ snd (msgs_of clk cn0 (items s) (mp s)))"
  using assms
proof (induction evs arbitrary: n ps cs st mp cn ops)
  case Nil
  have "ps s = [] \<and> cs s = [] \<and> pending (st s) = []" for s using ready_end Nil.prems(1) by (metis fed_simps(1))
  then show ?case
    using Nil.prems(2) by (intro exI [of _ "done_conn st mp cn"] exI [of _ ops] exI [of _ "\<lambda>_. []"])
      (simp add: buffered_def carries_def numbered_def)
next
  case (Cons ev evs)
  obtain payload net s where ev: "ev = (payload, net, s)" by (cases ev)
  have "ready cr key cid ident (n s) (ps s) (cs s) (payload @ fed s evs) (st s)" using Cons.prems(1) [of s] by (simp add: ev)
  from tap_side [OF this Cons.prems(2), of s clk net "mp s" ops] obtain ps1 ps2 cs1 cs2 i1 st' cn' ops' where t: "ps s = ps1 @ ps2" "cs s = cs1 @ cs2"
      "carries cid s (n s) cs1 ps1 i1" "ready cr key cid ident (n s + of_nat (length i1)) ps2 cs2 (fed s evs) st'" "same_but_suspicious cn0 cn'"
      "done_handle_data cr clk s (mp_handler clk) (st s) payload net cn (mp s, ops) = Inr (st', cn', fst (msgs_of clk cn0 i1 (mp s)), ops')"
      "stored_chunks ops' = stored_chunks ops @ i1" "stored_messages ops' = stored_messages ops @ snd (msgs_of clk cn0 i1 (mp s))"
    by blast
  let ?n = "n(s := n s + of_nat (length i1))" and ?st = "st(s := st')" and ?mp = "mp(s := fst (msgs_of clk cn0 i1 (mp s)))"
  have "ready cr key cid ident (?n q) ((ps(s := ps2)) q) ((cs(s := cs2)) q) (fed q evs) (?st q)" for q
    using Cons.prems(1) [of q] t(4) by (auto simp: ev split: if_splits)
  from Cons.IH [OF this t(5), of ?mp ops'] obtain conn' ops'' items where ih: "connection_run cr clk evs (done_conn ?st ?mp cn') ops' = Inr (conn', ops'')"
      "same_but_suspicious cn0 (cx_item conn')" and side: "\<And>q. buffered q conn' = []"
      "\<And>q. carries cid q (?n q) ((cs(s := cs2)) q) ((ps(s := ps2)) q) (items q)" "\<And>q. side_chunks q ops'' = side_chunks q ops' @ items q"
      "\<And>q. side_messages q ops'' = side_messages q ops' @ snd (msgs_of clk cn0 (items q) (?mp q))"
    by blast
  have "list_all framed cs1" "list_all framed cs2" using ready_framed [OF Cons.prems(1) [of s]] t(2) by simp_all
  then have f: "from_sender (sender_new s) i1" "from_sender (sender_new s) (items s)"
    using carries_from_sender [OF t(3)] carries_from_sender [OF side(2) [of s]] by simp_all
  have chunks: "side_chunks q ops' = side_chunks q ops @ (if s = q then i1 else [])" for q
    using filter_of_side [of cid s i1 q] t(3,7) by (simp add: side_chunks_def carries_def)
  have msgs: "side_messages q ops' = side_messages q ops @ (if s = q then snd (msgs_of clk cn0 i1 (mp s)) else [])" for q
    using filter_of_sender [OF msgs_of_sender [OF f(1)], of q clk cn0 "mp s"] t(8) by (simp add: side_messages_def)
  have "carries cid q (n q) (cs q) (ps q) ((items(s := i1 @ items s)) q)" for q
    using side(2) [of q] carries_append [OF t(3)] t(1,2) by (cases "q = s") simp_all
  moreover have "side_messages q ops'' = side_messages q ops @ snd (msgs_of clk cn0 ((items(s := i1 @ items s)) q) (mp q))" for q
    using side(4) [of q] msgs [of q] msgs_of_append [OF f, of clk cn0 "mp s"] by (cases "q = s") simp_all
  moreover have "side_chunks q ops'' = side_chunks q ops @ (items(s := i1 @ items s)) q" for q
    using side(3) [of q] chunks [of q] by (cases "q = s") simp_all
  moreover have "connection_run cr clk (ev # evs) (done_conn st mp cn) ops = Inr (conn', ops'')"
    unfolding ev connection_run.simps done_conn_step t(6) using ih(1) by simp
  ultimately show ?case using ih(2) side(1) by blast
qed

section \<open>The handshake as the recorder sees it\<close>

definition half_of :: "connection_key \<Rightarrow> identity \<Rightarrow> bytes \<Rightarrow> half" where
  "half_of cid ident d = (if incomplete d then Half_Initial (inner_at cid ident 0 d) else Half_HaveCm (inner_at cid ident 0 d))"

definition handshake_of :: "connection_key \<Rightarrow> identity \<Rightarrow> (bool \<Rightarrow> bytes) \<Rightarrow> handshake" where
  "handshake_of cid ident d = \<lparr>hs_local = half_of cid ident (d False), hs_remote = half_of cid ident (d True)\<rparr>"

lemma handshake_of_step:
  fixes payload :: bytes
  assumes "incomplete (d s)"
  defines "d' \<equiv> d(s := d s @ payload)"
  shows "handshake_handle_data cr clk (handshake_of cid ident d) payload net s cn =
    (if incomplete (d' False) \<or> incomplete (d' True) then Inr (Inl (handshake_of cid ident d'), cn)
     else handshake_make_key cr clk (inner_at cid ident 0 (d' False)) (inner_at cid ident 0 (d' True)) cn)"
  using assms
  by (cases s; cases "incomplete (d True)"; cases "incomplete (d False)")
    (auto simp: handshake_handle_data_def handshake_of_def half_of_def initial_handle_data_at handshake_initial_def handshake_local_cm_def
      handshake_remote_cm_def)

definition first_item :: "clock \<Rightarrow> connection_key \<Rightarrow> bool \<Rightarrow> bytes \<Rightarrow> chunk_item" where
  "first_item clk cid s c = chunk_new (clk_secs clk (sender_new s) 0) cid (sender_new s) 0 c (drop 2 c)"

lemma first_item_carries: "carries cid s 0 [c] [drop 2 c] [first_item clk cid s c]"
  by (simp add: carries_def numbered_def first_item_def chunk_new_def of_side_def)

lemma have_cm_have_key_chunk:
  "framed c \<Longrightarrow> have_cm_have_key clk s (inner_at cid ident 0 c) = Inr (inner_at cid ident 1 [], first_item clk cid s c)"
  using buffer_next_framed [of c 0 "[]"] framed_length [of c]
  by (simp add: have_cm_have_key_def slice_def sub_def inner_chunk_def first_item_def)

definition commented :: "('k, 'pk, 'n) crypto \<Rightarrow> bytes \<Rightarrow> bytes \<Rightarrow> connection_item \<Rightarrow> connection_item" where
  "commented cr a b cn = comment_remote (check_connection_message cr b) (comment_local (check_connection_message cr a) cn)"

lemma make_key_agreed:
  assumes "framed a" "framed b" "keys_new cr ident a b (cn_initiator cn) = Inr (Inr ks)"
  shows "handshake_make_key cr clk (inner_at cid ident 0 a) (inner_at cid ident 0 b) cn =
    Inr (Inr \<lparr>ho_local = Done_HaveKey (inner_at cid ident 1 []) (keys_local ks), ho_l_chunk = Some (first_item clk cid False a),
              ho_remote = Done_HaveKey (inner_at cid ident 1 []) (keys_remote ks), ho_r_chunk = Some (first_item clk cid True b)\<rparr>,
         commented cr a b cn)"
proof -
  have "have_chunk (in_buffer (inner_at cid ident 0 c)) = Some c" if "framed c" for c
    using framed_not_incomplete [OF that, of "[]"] that by (simp add: have_chunk_eq framed_def)
  then show ?thesis
    using assms by (simp add: handshake_make_key_def make_key_def have_cm_have_key_chunk output_of_make_key_def commented_def
        first_item_def chunk_new_def)
qed

definition side_key :: "('pk, 'n) keys \<Rightarrow> bool \<Rightarrow> ('pk, 'n) key" where
  "side_key ks s = (if s then keys_remote ks else keys_local ks)"

abbreviation keyed_state :: "connection_key \<Rightarrow> identity \<Rightarrow> ('pk, 'n) keys \<Rightarrow> bool \<Rightarrow> ('pk, 'n) handshake_done" where
  "keyed_state cid ident ks \<equiv> \<lambda>s. Done_HaveKey (inner_at cid ident 1 []) (side_key ks s)"

lemma handshake_ends:
  assumes "\<And>s. framed (c s)" "keys_new cr ident (c False) (c True) (cn_initiator cn) = Inr (Inr ks)"
    "handshake_handle_data cr clk h payload net s cn =
      handshake_make_key cr clk (inner_at cid ident 0 (c False)) (inner_at cid ident 0 (c True)) cn"
  defines "cn0 \<equiv> commented cr (c False) (c True) cn"
  shows "\<exists>cn' ops'. connection_handle_data cr clk \<lparr>cx_state = Some (Conn_Handshake h), cx_item = cn\<rparr> payload net s [] =
      Inr (done_conn (keyed_state cid ident ks) (\<lambda>q. fst (msgs_of clk cn0 [first_item clk cid q (c q)] message_parser_new)) cn', ops') \<and>
    same_but_suspicious cn0 cn' \<and> (\<forall>q. side_chunks q ops' = [first_item clk cid q (c q)] \<and>
      side_messages q ops' = snd (msgs_of clk cn0 [first_item clk cid q (c q)] message_parser_new))"
proof -
  let ?i = "\<lambda>q. first_item clk cid q (c q)" and ?m = "\<lambda>q. msgs_of clk cn0 [first_item clk cid q (c q)] message_parser_new"
  have f: "from_sender (sender_new q) [?i q]" for q using carries_from_sender [OF first_item_carries] assms(1) by simp
  obtain cn1 ops1 where 1: "handle_chunks clk [?i False] cn0 (message_parser_new, [StoreConnection cn0]) = Inr (cn1, fst (?m False), ops1)"
      "same_but_suspicious cn0 cn1" "stored_chunks ops1 = [?i False]" "stored_messages ops1 = snd (?m False)"
    using handle_chunks_msgs [OF f same_but_suspicious_refl, of clk False cn0 message_parser_new "[StoreConnection cn0]"] by auto
  obtain cn2 ops2 where 2: "handle_chunks clk [?i True] cn1 (message_parser_new, ops1) = Inr (cn2, fst (?m True), ops2)"
      "same_but_suspicious cn0 cn2" "stored_chunks ops2 = [?i False, ?i True]" "stored_messages ops2 = snd (?m False) @ snd (?m True)"
    using handle_chunks_msgs [OF f 1(2), of clk True message_parser_new ops1] 1(3,4) by auto
  have one: "handle_chunks clk [x] cn h = mp_handle_chunk clk x cn h" for x cn h
    by (cases "mp_handle_chunk clk x cn h") auto
  have "side_chunks q ops2 = [?i q]" for q
    by (cases q) (simp_all add: side_chunks_def 2(3) first_item_def chunk_new_def sender_new_def)
  moreover have "side_messages q ops2 = snd (?m q)" for q
    using filter_of_sender [OF msgs_of_sender [OF f [of False]], of q] filter_of_sender [OF msgs_of_sender [OF f [of True]], of q]
    by (cases q) (simp_all add: side_messages_def 2(4))
  ultimately show ?thesis
    using 1(1) 2(1,2) assms(3) make_key_agreed [OF assms(1,1,2), of clk cid]
    by (simp add: connection_handle_data_def handle_opt_chunk_def one cn0_def side_key_def del: handle_chunks.simps)
qed

lemma connecting_run:
  assumes "\<And>s. framed (c s)" "keys_new cr ident (c False) (c True) (cn_initiator cn) = Inr (Inr ks)"
    "\<And>s. d s @ fed s evs = c s" "list_all (\<lambda>ev. fst ev \<noteq> []) evs" "\<exists>s. incomplete (d s)"
  defines "cn0 \<equiv> commented cr (c False) (c True) cn"
  shows "\<exists>cn' ops'. connection_run cr clk evs \<lparr>cx_state = Some (Conn_Handshake (handshake_of cid ident d)), cx_item = cn\<rparr> [] =
      Inr (done_conn (keyed_state cid ident ks) (\<lambda>q. fst (msgs_of clk cn0 [first_item clk cid q (c q)] message_parser_new)) cn', ops') \<and>
    same_but_suspicious cn0 cn' \<and> (\<forall>q. side_chunks q ops' = [first_item clk cid q (c q)] \<and>
      side_messages q ops' = snd (msgs_of clk cn0 [first_item clk cid q (c q)] message_parser_new))"
  using assms(3-5)
proof (induction evs arbitrary: d)
  case Nil
  then show ?case using assms(1) framed_not_incomplete [of _ "[]"] by auto
next
  case (Cons ev evs)
  obtain payload net s where ev: "ev = (payload, net, s)" by (cases ev)
  let ?d = "d(s := d s @ payload)"
  have d: "?d q @ fed q evs = c q" for q using Cons.prems(1) [of q] by (auto simp: ev split: if_splits)
  have "d s @ payload @ fed s evs = c s" "payload \<noteq> []" using Cons.prems(1) [of s] Cons.prems(2) by (simp_all add: ev)
  then have "incomplete (d s)" using incomplete_proper_prefix [of "d s" "payload @ fed s evs"] assms(1) [of s] by simp
  note step = handshake_of_step [of d s, OF this, of cr clk cid ident payload net cn]
  show ?case
  proof (cases "incomplete (?d False) \<or> incomplete (?d True)")
    case True
    then have i: "\<exists>q. incomplete (?d q)" by blast
    have "list_all (\<lambda>ev. fst ev \<noteq> []) evs" using Cons.prems(2) by simp
    note ih = Cons.IH [OF d this i]
    have "connection_run cr clk (ev # evs) \<lparr>cx_state = Some (Conn_Handshake (handshake_of cid ident d)), cx_item = cn\<rparr> [] =
        connection_run cr clk evs \<lparr>cx_state = Some (Conn_Handshake (handshake_of cid ident ?d)), cx_item = cn\<rparr> []"
      using step True by (simp add: ev connection_handle_data_def)
    then show ?thesis using ih by (simp only:)
  next
    case False
    then have none: "fed q evs = []" for q using incomplete_proper_prefix [of "?d q" "fed q evs"] d [of q] assms(1) [of q] by (cases q) auto
    moreover have "evs = []"
    proof (rule ccontr)
      assume "evs \<noteq> []"
      then obtain p net' q rest where "evs = (p, net', q) # rest" by (cases evs) auto
      then show False using none [of q] Cons.prems(2) by simp
    qed
    ultimately have "?d = c" "evs = []" using d by auto
    then show ?thesis
      using handshake_ends [OF assms(1,2), of clk "handshake_of cid ident d" payload net s cid] step False unfolding cn0_def by (auto simp: ev)
  qed
qed

lemma connection_run_append:
  "connection_run cr clk (evs @ evs') conn ops =
   and_then (connection_run cr clk evs conn ops) (\<lambda>(conn', ops'). connection_run cr clk evs' conn' ops')"
  by (induction evs arbitrary: conn ops) (auto simp: and_then_assoc intro!: and_then_cong split: prod.splits)

lemma opened_handshake:
  fixes nanos :: nat and incoming :: bool and addr :: socket_addr
  defines "cn \<equiv> connection_new nanos (initiator_new incoming) addr"
  shows "connection_open nanos addr incoming ident =
    \<lparr>cx_state = Some (Conn_Handshake (handshake_of (connection_key_of cn) ident (\<lambda>_. []))), cx_item = cn\<rparr>"
  by (simp add: connection_open_def Let_def handshake_new_def initial_new_def buffer_default_def handshake_of_def half_of_def cn_def)

text \<open>
  A conversation: the connection chunks of both sides first, in any order and any segments, then anything that opens with the keys. Everything is
  cut, opened and handed to the parsers.
\<close>

lemma conversation_recorded:
  assumes "\<And>s. framed (c s)" "keys_new cr ident (c False) (c True) (initiator_new incoming) = Inr (Inr ks)"
    "\<And>s. key_key (side_key ks s) = key" "\<And>s. boxed cr key (key_nonce (side_key ks s)) (ps s) (cs s)"
    "\<And>s. fed s hello = c s" "list_all (\<lambda>ev. fst ev \<noteq> []) hello" "\<And>s. fed s talk = concat (cs s)"
  shows "\<exists>conn ops cn0. connection_run cr clk (hello @ talk) (connection_open nanos addr incoming ident) [] = Inr (conn, ops) \<and>
    (\<forall>s. buffered s conn = [] \<and>
       carries (connection_key_of (connection_new nanos (initiator_new incoming) addr)) s 0 (c s # cs s) (drop 2 (c s) # ps s) (side_chunks s ops) \<and>
       side_messages s ops = snd (msgs_of clk cn0 (side_chunks s ops) message_parser_new))"
proof -
  let ?cn = "connection_new nanos (initiator_new incoming) addr"
  let ?cid = "connection_key_of ?cn" and ?noted = "commented cr (c False) (c True) ?cn"
  let ?i = "\<lambda>q. first_item clk ?cid q (c q)"
  have i: "cn_initiator ?cn = initiator_new incoming" by (simp add: connection_new_def Let_def split: prod.splits)
  have keys: "keys_new cr ident (c False) (c True) (cn_initiator ?cn) = Inr (Inr ks)" using assms(2) i by simp
  have none: "\<exists>s :: bool. incomplete []" by simp
  have pre: "[] @ fed s hello = c s" for s using assms(5) by simp
  obtain cn1 ops1 where 1: "connection_run cr clk hello (connection_open nanos addr incoming ident) [] =
        Inr (done_conn (keyed_state ?cid ident ks) (\<lambda>q. fst (msgs_of clk ?noted [?i q] message_parser_new)) cn1, ops1)"
      "same_but_suspicious ?noted cn1" "\<And>q. side_chunks q ops1 = [?i q]" "\<And>q. side_messages q ops1 = snd (msgs_of clk ?noted [?i q] message_parser_new)"
    using connecting_run [where c = c and d = "\<lambda>_. []" and evs = hello and clk = clk and cid = ?cid, OF assms(1) keys pre assms(6) none]
    unfolding opened_handshake by blast
  have "ready cr key ?cid ident 1 (ps s) (cs s) (fed s talk) (keyed_state ?cid ident ks s)" for s
    using assms(3) [of s] assms(4) [of s] assms(7) [of s] by (cases "side_key ks s") (simp add: ready_def)
  from tapped_run [where n = "\<lambda>_. 1" and st = "keyed_state ?cid ident ks" and clk = clk and ops = ops1
      and mp = "\<lambda>q. fst (msgs_of clk ?noted [?i q] message_parser_new)", OF this 1(2)]
  obtain conn ops items where 2: "connection_run cr clk talk (done_conn (keyed_state ?cid ident ks)
        (\<lambda>q. fst (msgs_of clk ?noted [?i q] message_parser_new)) cn1) ops1 = Inr (conn, ops)"
      "\<And>s. buffered s conn = []" "\<And>s. carries ?cid s 1 (cs s) (ps s) (items s)" "\<And>s. side_chunks s ops = side_chunks s ops1 @ items s"
      "\<And>s. side_messages s ops = side_messages s ops1 @
         snd (msgs_of clk ?noted (items s) (fst (msgs_of clk ?noted [?i s] message_parser_new)))"
    by blast
  have f: "from_sender (sender_new s) [?i s]" "from_sender (sender_new s) (items s)" for s
    using carries_from_sender [OF first_item_carries] carries_from_sender [OF 2(3)] assms(1) boxed_framed [OF assms(4)] by auto
  have "carries ?cid s 0 (c s # cs s) (drop 2 (c s) # ps s) (side_chunks s ops)" for s
    using carries_append [OF first_item_carries [of ?cid s "c s" clk], of "cs s" "ps s" "items s"] 2(3) [of s] 2(4) [of s] 1(3) [of s] by simp
  moreover have "side_messages s ops = snd (msgs_of clk ?noted (side_chunks s ops) message_parser_new)" for s
    using msgs_of_append [OF f, of clk ?noted s message_parser_new] 2(4) [of s] 2(5) [of s] 1(3) [of s] 1(4) [of s] by simp
  ultimately show ?thesis using 1(1) 2(1,2) by (simp add: connection_run_append) blast
qed

section \<open>The transcript of a direction\<close>

text \<open>A stored message with the plain bytes of the chunks it refers to, which is what the message details decode.\<close>

definition read_back :: "chunk_item list \<Rightarrow> message_item \<Rightarrow> message_type \<times> bytes" where
  "read_back items m =
     (msg_ty m, concat (map ci_plain (sub items (unat (fst (msg_chunks m))) (unat (snd (msg_chunks m))))))"

definition transcript :: "bool \<Rightarrow> db_op list \<Rightarrow> (message_type \<times> bytes) list" where
  "transcript s ops = map (read_back (side_chunks s ops)) (side_messages s ops)"

text \<open>A peer message that the recorder can follow: the length and the tag, and a length of 32 bits.\<close>

definition sayable :: "bytes \<Rightarrow> bool" where
  "sayable bs \<longleftrightarrow> 6 \<le> length bs \<and> length bs < 2 ^ 32 \<and> header_len bs = length bs"

definition peer_said :: "bytes \<Rightarrow> message_type \<times> bytes" where
  "peer_said bs = (Ty_P2p (from_tag (from_be_bytes (sub bs 4 6))), bs)"

definition pieces :: "bytes list \<Rightarrow> bytes list" where
  "pieces bodies = concat (map (slice_chunks 0xffe0) bodies)"

lemma pieces_simps [simp]: "pieces [] = []" "pieces (b # bodies) = slice_chunks 0xffe0 b @ pieces bodies"
  by (simp_all add: pieces_def)

lemma unat_plus_small: "unat (n :: u64) + k < 2 ^ 64 \<Longrightarrow> unat (n + of_nat k) = unat n + k"
  by (simp add: unat_word_ariths unat_of_nat)

lemma peer_chunks_pieces:
  assumes "carries cid s n cs (slice_chunks 0xffe0 bs) xs" "sayable bs" "3 \<le> unat n" "unat n + length xs < 2 ^ 64"
  shows "peer_chunks (sender_new s) n xs" "sub (ci_plain (hd xs)) 4 6 = sub bs 4 6"
proof -
  have ne: "bs \<noteq> []" "6 \<le> length bs" "length bs < 2 ^ 32" "header_len bs = length bs" using assms(2) by (auto simp: sayable_def)
  then have p: "map ci_plain xs = take 0xffe0 bs # slice_chunks 0xffe0 (drop 0xffe0 bs)"
    using assms(1) by (simp add: carries_def slice_chunks_first)
  then have xs: "xs \<noteq> []" "ci_plain (hd xs) = take 0xffe0 bs" by (auto simp: hd_map dest: arg_cong [of _ _ hd])
  have "sum_list (map (\<lambda>c. length (ci_plain c)) xs) = length (concat (map ci_plain xs))" by (simp add: length_concat o_def)
  also have "\<dots> = length bs" using assms(1) by (simp add: carries_def)
  finally have sum: "sum_list (map (\<lambda>c. length (ci_plain c)) xs) = length bs" .
  have plain: "ci_plain ` set xs = set (slice_chunks 0xffe0 bs)" using assms(1) unfolding carries_def by (metis set_map)
  have "ci_plain c \<noteq> []" if "c \<in> set xs" for c using slice_chunks_pieces [of "ci_plain c" "0xffe0" bs] plain that by blast
  then have "list_all (\<lambda>c. ci_plain c \<noteq> [] \<and> ci_sender c = sender_new s) xs"
    using assms(1) by (simp add: carries_def list_all_iff of_side_def)
  moreover have "header_len (take 0xffe0 bs) = header_len bs" by (simp add: header_len_def)
  ultimately show "peer_chunks (sender_new s) n xs"
    using xs ne sum assms(1,3,4) by (simp add: peer_chunks_def carries_def)
  show "sub (ci_plain (hd xs)) 4 6 = sub bs 4 6" by (simp add: xs(2) sub_def drop_take)
qed

lemma msgs_of_peer:
  assumes "carries cid s n cs (slice_chunks 0xffe0 bs) xs" "sayable bs" "3 \<le> unat n" "unat n + length xs < 2 ^ 64" "length pre = unat n"
  shows "\<exists>m. msgs_of clk cn xs message_parser_new = (message_parser_new, [m]) \<and> read_back (pre @ xs @ ys) m = peer_said bs"
proof -
  note p = peer_chunks_pieces [OF assms(1-4)]
  let ?m = "peer_item clk cn (sender_new s) n xs"
  have "msgs_of clk cn xs message_parser_new = (message_parser_new, [?m])"
    using handle_chunks_peer [OF p(1), of clk cn "[]"] by (auto simp: msgs_of_def)
  moreover have "read_back (pre @ xs @ ys) ?m = peer_said bs"
    using assms(1) p(2) unat_plus_small [OF assms(4)] assms(5)
    by (simp add: read_back_def peer_item_def build.simps peer_said_def sub_def carries_def)
  ultimately show ?thesis by blast
qed

lemma msgs_of_peers:
  assumes "carries cid s n cs (pieces bodies) items" "list_all framed cs" "list_all sayable bodies" "3 \<le> unat n"
    "unat n + length items < 2 ^ 64" "length pre = unat n"
  shows "\<exists>ms. msgs_of clk cn items message_parser_new = (message_parser_new, ms) \<and> map (read_back (pre @ items)) ms = map peer_said bodies"
  using assms
proof (induction bodies arbitrary: n cs items pre)
  case Nil
  then show ?case by (simp add: carries_def pieces_def)
next
  case (Cons b bodies)
  let ?k = "length (slice_chunks 0xffe0 b)"
  let ?xs = "take ?k items" and ?ys = "drop ?k items"
  have plain: "map ci_plain items = slice_chunks 0xffe0 b @ pieces bodies" using Cons.prems(1) by (simp add: carries_def pieces_def)
  then have k: "length ?xs = ?k" by (auto dest: arg_cong [of _ _ length])
  have "numbered n (?xs @ ?ys)" "list_all (of_side cid s) (?xs @ ?ys)" using Cons.prems(1) by (simp_all add: carries_def)
  then have side: "numbered n ?xs" "numbered (n + of_nat ?k) ?ys" "list_all (of_side cid s) ?xs" "list_all (of_side cid s) ?ys"
    using k by (simp_all only: numbered_append list_all_append)
  have c: "carries cid s n (take ?k cs) (slice_chunks 0xffe0 b) ?xs" "carries cid s (n + of_nat ?k) (drop ?k cs) (pieces bodies) ?ys"
    using Cons.prems(1) side plain by (simp_all add: carries_def take_map [symmetric] drop_map [symmetric])
  have cs: "list_all framed (take ?k cs)" "list_all framed (drop ?k cs)" using Cons.prems(2) by (auto simp: list_all_iff dest: in_set_takeD in_set_dropD)
  have kl: "?k \<le> length items" using k by simp
  then have small: "unat n + length ?xs < 2 ^ 64" using Cons.prems(5) k by linarith
  have n: "unat (n + of_nat ?k) = unat n + ?k" using Cons.prems(5) kl by (intro unat_plus_small) simp
  obtain m where m: "msgs_of clk cn ?xs message_parser_new = (message_parser_new, [m])" "read_back (pre @ ?xs @ ?ys) m = peer_said b"
    using msgs_of_peer [OF c(1) _ Cons.prems(4) _ Cons.prems(6), of clk cn ?ys] Cons.prems(3,5) small by auto
  obtain ms where ms: "msgs_of clk cn ?ys message_parser_new = (message_parser_new, ms)"
      "map (read_back ((pre @ ?xs) @ ?ys)) ms = map peer_said bodies"
    using Cons.IH [OF c(2) cs(2), of "pre @ ?xs"] Cons.prems(3-6) n k by auto
  show ?case
    using msgs_of_append [OF carries_from_sender [OF c(1) cs(1)] carries_from_sender [OF c(2) cs(2)], of clk cn message_parser_new] m ms
    by (intro exI [of _ "m # ms"]) simp
qed

lemma msgs_of_opening:
  assumes "82 \<le> length (ci_plain i0)" "2 \<le> length (ci_plain i1)" "ci_plain i2 \<noteq> []" "numbered 0 [i0, i1, i2]"
  shows "fst (msgs_of clk cn [i0, i1, i2] message_parser_new) = message_parser_new \<and>
    map (read_back (i0 # i1 # i2 # ys)) (snd (msgs_of clk cn [i0, i1, i2] message_parser_new)) =
      [(Ty_Connection, ci_plain i0), (Ty_Meta, ci_plain i1), (Ty_Ack, ci_plain i2)]"
  using assms
  by (simp add: msgs_of_def mp_handle_chunk_def message_parser_new_def too_small_def numbered_Cons Let_def read_back_def build.simps
      connection_message_def metadata_message_def acknowledge_message_def sub_def)

lemma transcript_complete:
  assumes "carries cid s 0 cs (cm # bm # ba # pieces bodies) items" "list_all framed cs" "82 \<le> length cm" "2 \<le> length bm" "ba \<noteq> []"
    "list_all sayable bodies" "length items < 2 ^ 64"
  shows "map (read_back items) (snd (msgs_of clk cn items message_parser_new)) =
    (Ty_Connection, cm) # (Ty_Meta, bm) # (Ty_Ack, ba) # map peer_said bodies"
proof -
  have "map ci_plain items = cm # bm # ba # pieces bodies" using assms(1) by (simp add: carries_def)
  then obtain i0 i1 i2 ys where i: "items = [i0, i1, i2] @ ys" "ci_plain i0 = cm" "ci_plain i1 = bm" "ci_plain i2 = ba" "map ci_plain ys = pieces bodies"
    by (auto simp: map_eq_Cons_conv)
  have c: "carries cid s 3 (drop 3 cs) (pieces bodies) ys" and n: "numbered 0 [i0, i1, i2]"
    using assms(1) i numbered_append [of 0 "[i0, i1, i2]" ys] by (auto simp: carries_def)
  have f: "from_sender (sender_new s) [i0, i1, i2]" "from_sender (sender_new s) ys" using carries_from_sender [OF assms(1,2)] i(1) by simp_all
  have cs: "list_all framed (drop 3 cs)" using assms(2) by (auto simp: list_all_iff dest: in_set_dropD)
  obtain ms where ms: "msgs_of clk cn ys message_parser_new = (message_parser_new, ms)"
      "map (read_back ([i0, i1, i2] @ ys)) ms = map peer_said bodies"
    using msgs_of_peers [OF c cs assms(6), of "[i0, i1, i2]" clk cn] assms(7) i(1) by auto
  show ?thesis
    using msgs_of_append [OF f, of clk cn message_parser_new] msgs_of_opening [of i0 i1 i2 clk cn ys] assms(3-5) i n ms by simp
qed

section \<open>The recorder beside one of the peers\<close>

text \<open>
  The layout of a connection message, on which \<^verbatim>\<open>Keys::new\<close> relies: a port, the public key, and at least 48 bytes more. The recorder has the
  identity of the local peer.
\<close>

definition connection_layout :: "('id, 'k, 'n, 'v, 'cm) hs_env \<Rightarrow> bool" where
  "connection_layout hs \<longleftrightarrow>
     (\<forall>cm bs. mc_as_bytes (hs_codec hs) cm = Some bs \<longrightarrow> 82 \<le> length bs \<and> sub bs 2 34 = hs_public_key hs cm)"

definition has_identity :: "('id, 'k, 'n, 'v, 'cm) hs_env \<Rightarrow> ('k, 'pk, 'n) crypto \<Rightarrow> identity \<Rightarrow> 'cm \<Rightarrow> 'k \<Rightarrow> bool" where
  "has_identity hs cr ident cm sk \<longleftrightarrow> id_public_key ident = hs_public_key hs cm \<and> cr_sk_from_bytes cr (id_secret_key ident) = Some sk"

lemma own_chunk_shape:
  assumes "hs_laws hs cr" "box_laws cr bx" "connection_layout hs" "identity_of hs random json port version = Inr (cm, sk)"
    "own_chunk hs bx cm = Inr c"
  shows "mc_as_bytes (hs_codec hs) cm = Some (drop 2 c)" "82 \<le> length (drop 2 c)" "sub c 4 36 = hs_public_key hs cm"
proof -
  obtain i where "hs_try_new hs port i random version = Some cm" using assms(4) by (auto simp: identity_of_def and_then_Inr_iff)
  then obtain bs where bs: "mc_as_bytes (hs_codec hs) cm = Some bs" "length bs \<le> 0xfffe" using assms(1) unfolding hs_laws_def by blast
  then have c: "c = to_be_bytes (word_of_nat (length bs) :: u16) @ bs" using assms(2,5) by (simp add: own_chunk_def box_laws_def)
  then show "mc_as_bytes (hs_codec hs) cm = Some (drop 2 c)" "82 \<le> length (drop 2 c)" "sub c 4 36 = hs_public_key hs cm"
    using bs(1) assms(3) by (simp_all add: connection_layout_def sub_def)
qed

lemma keys_agreed:
  assumes "sub a 4 36 = hs_public_key hs cm_l" "sub b 4 36 = hs_public_key hs cm_r" "82 \<le> length (drop 2 a)" "82 \<le> length (drop 2 b)"
    "has_identity hs cr ident cm_l sk" "\<exists>pk. cr_pk_from_bytes cr (hs_public_key hs cm_r) = Some pk \<and> cr_precompute cr pk sk = key"
    "cr_generate_nonces cr a b (initiator_incoming ini) = Some (x, y)"
  shows "keys_new cr ident a b ini =
    Inr (Inr \<lparr>keys_local = \<lparr>key_key = key, key_nonce = x\<rparr>, keys_remote = \<lparr>key_key = key, key_nonce = y\<rparr>\<rparr>)"
  using assms by (auto simp: keys_new_def has_identity_def Let_def)

text \<open>
  What a recorder makes of a conversation: the connection chunks of both sides, in any order and any segments, then the rest of what both say, in
  any interleaving and any segments, from a fresh connection at any time. The transcripts of both directions are what was said, nothing is left
  in a buffer and no decryption has failed.
\<close>

definition overhears ::
    "('k, 'pk, 'n) crypto \<Rightarrow> identity \<Rightarrow> bool \<Rightarrow> (bool \<Rightarrow> bytes) \<Rightarrow> (bool \<Rightarrow> bytes) \<Rightarrow> (bool \<Rightarrow> (message_type \<times> bytes) list) \<Rightarrow> bool" where
  "overhears cr ident incoming chunk later said \<longleftrightarrow>
     (\<forall>clk nanos addr hello talk.
        list_all (\<lambda>ev. fst ev \<noteq> []) hello \<and> (\<forall>s. fed s hello = chunk s \<and> fed s talk = later s) \<longrightarrow>
        (\<exists>conn ops. connection_run cr clk (hello @ talk) (connection_open nanos addr incoming ident) [] = Inr (conn, ops) \<and>
           (\<forall>s. transcript s ops = said s \<and> buffered s conn = [])))"

lemma overhears_conversation:
  assumes c: "\<And>s. framed (c s)" and k: "keys_new cr ident (c False) (c True) (initiator_new incoming) = Inr (Inr ks)"
    "\<And>s. key_key (side_key ks s) = key"
    and b: "\<And>s. boxed cr key (key_nonce (side_key ks s)) (bm # ba # pieces (bodies s)) (cs s)"
    and l: "\<And>s. 82 \<le> length (drop 2 (c s))" "2 \<le> length bm" "ba \<noteq> []" "\<And>s. list_all sayable (bodies s)" "\<And>s. length (cs s) + 1 < 2 ^ 64"
  shows "overhears cr ident incoming c (\<lambda>s. concat (cs s))
    (\<lambda>s. (Ty_Connection, drop 2 (c s)) # (Ty_Meta, bm) # (Ty_Ack, ba) # map peer_said (bodies s))"
  unfolding overhears_def
proof (intro allI impI)
  fix clk nanos addr hello talk
  assume a: "list_all (\<lambda>ev. fst ev \<noteq> []) hello \<and> (\<forall>s. fed s hello = c s \<and> fed s talk = concat (cs s))"
  let ?cid = "connection_key_of (connection_new nanos (initiator_new incoming) addr)"
  obtain conn ops cn0 where r: "connection_run cr clk (hello @ talk) (connection_open nanos addr incoming ident) [] = Inr (conn, ops)"
      "\<And>s. buffered s conn = []" "\<And>s. carries ?cid s 0 (c s # cs s) (drop 2 (c s) # bm # ba # pieces (bodies s)) (side_chunks s ops)"
      "\<And>s. side_messages s ops = snd (msgs_of clk cn0 (side_chunks s ops) message_parser_new)"
    using conversation_recorded [OF c k b, of hello talk clk nanos addr] a by blast
  have "length (side_chunks s ops) < 2 ^ 64" for s
    using r(3) [of s] l(5) [of s] by (auto simp: carries_def dest: arg_cong [of _ _ length])
  then have "transcript s ops = (Ty_Connection, drop 2 (c s)) # (Ty_Meta, bm) # (Ty_Ack, ba) # map peer_said (bodies s)" for s
    using transcript_complete [OF r(3) _ l(1-4), of s clk cn0] boxed_framed [OF b] c r(4) by (simp add: transcript_def)
  then show "\<exists>conn ops. connection_run cr clk (hello @ talk) (connection_open nanos addr incoming ident) [] = Inr (conn, ops) \<and>
      (\<forall>s. transcript s ops = (Ty_Connection, drop 2 (c s)) # (Ty_Meta, bm) # (Ty_Ack, ba) # map peer_said (bodies s) \<and> buffered s conn = [])"
    using r(1,2) by blast
qed

lemma boxed_length: "boxed cr key nonce ps cs \<Longrightarrow> length cs = length ps"
  by (induction cr key nonce ps cs rule: boxed.induct) simp_all

lemma length_slice_chunks: "length (slice_chunks n xs) \<le> length xs"
proof (induction n xs rule: slice_chunks.induct)
  case (1 n xs)
  show ?case
  proof (cases "n = 0 \<or> xs = []")
    case False
    then have "0 < length xs" "length (slice_chunks n (drop n xs)) \<le> length xs - n" using 1 by simp_all
    then have "Suc (length (slice_chunks n (drop n xs))) \<le> length xs" using False by linarith
    then show ?thesis using False by (simp add: slice_chunks.simps [of n xs])
  qed (simp add: slice_chunks.simps [of n xs])
qed

text \<open>The two ends of the connection, by the side of the recorder's peer: the remote side is the one that \<open>s\<close> is true for.\<close>

definition at_end :: "'a \<Rightarrow> 'a \<Rightarrow> bool \<Rightarrow> 'a" where
  "at_end mine theirs s = (if s then theirs else mine)"

text \<open>What one peer of the conversation says, and the chunks it takes.\<close>

definition said_by :: "bytes \<Rightarrow> bytes \<Rightarrow> bytes \<Rightarrow> bytes list \<Rightarrow> (message_type \<times> bytes) list" where
  "said_by bc bm ba bodies = (Ty_Connection, bc) # (Ty_Meta, bm) # (Ty_Ack, ba) # map peer_said bodies"

lemma overhears_peers:
  assumes "framed a" "framed b" "boxed cr key x (bm # ba # pieces os) cs" "boxed cr key y (bm # ba # pieces os') cs'"
    "82 \<le> length (drop 2 a)" "82 \<le> length (drop 2 b)" "2 \<le> length bm" "ba \<noteq> []" "list_all sayable (os @ os')"
    "length cs + 1 < 2 ^ 64" "length cs' + 1 < 2 ^ 64"
    "keys_new cr ident a b (initiator_new incoming) =
      Inr (Inr \<lparr>keys_local = \<lparr>key_key = key, key_nonce = x\<rparr>, keys_remote = \<lparr>key_key = key, key_nonce = y\<rparr>\<rparr>)"
  shows "overhears cr ident incoming (at_end a b) (at_end (concat cs) (concat cs')) (at_end (said_by (drop 2 a) bm ba os) (said_by (drop 2 b) bm ba os'))"
proof -
  let ?ks = "\<lparr>keys_local = \<lparr>key_key = key, key_nonce = x\<rparr>, keys_remote = \<lparr>key_key = key, key_nonce = y\<rparr>\<rparr>"
  have "overhears cr ident incoming (at_end a b) (\<lambda>s. concat (at_end cs cs' s))
      (\<lambda>s. (Ty_Connection, drop 2 (at_end a b s)) # (Ty_Meta, bm) # (Ty_Ack, ba) # map peer_said (at_end os os' s))"
    by (rule overhears_conversation [of _ _ _ _ ?ks key]) (use assms in \<open>simp_all add: at_end_def side_key_def\<close>)
  moreover have "(\<lambda>s. concat (at_end cs cs' s)) = at_end (concat cs) (concat cs')" by (auto simp: at_end_def)
  moreover have "(\<lambda>s. (Ty_Connection, drop 2 (at_end a b s)) # (Ty_Meta, bm) # (Ty_Ack, ba) # map peer_said (at_end os os' s)) =
      at_end (said_by (drop 2 a) bm ba os) (said_by (drop 2 b) bm ba os')" by (auto simp: at_end_def said_by_def)
  ultimately show ?thesis by simp
qed

text \<open>
  C14: The recorder overhears the peers. Between the two generated programs there are byte strings such that each program, when it receives what
  the other sends, ends without a panic and has sent its own; and a recorder that knows the identity of either of them, and sees the bytes of
  both directions cut and interleaved in any way after the two connection chunks, never panics, derives the same keys, opens every chunk, leaves
  nothing in its buffers and stores, in each direction and in order, exactly the messages that this peer said: the connection message, the
  metadata, the acknowledgement and the operation, each with its type and with the chunks that hold its bytes.
\<close>

theorem p2p_overheard:
  assumes "hs_laws hs cr" "box_laws cr bx" "connection_layout hs"
    "wire_message (pm_meta pm) False (pm_meta_msg pm) bm" "2 \<le> length bm" "wire_message (pm_ack pm) False (pm_ack_msg pm) ba"
    "wire_message (pm_peer pm) True (pm_operation pm) bo" "pm_is_operation pm (pm_operation pm)" "sayable bo"
    "identity_of hs random_i json_i port_i version = Inr (cm_i, sk_i)" "identity_of hs random_r json_r port_r version = Inr (cm_r, sk_r)"
    "has_identity hs cr ident_i cm_i sk_i" "has_identity hs cr ident_r cm_r sk_r"
    "mc_as_bytes (hs_codec hs) cm_i = Some bc_i" "mc_as_bytes (hs_codec hs) cm_r = Some bc_r"
  shows "\<exists>chunk_i later_i chunk_r later_r.
    (\<forall>s_i s_r. arrives s_i chunk_r later_r \<and> arrives s_r chunk_i later_i \<longrightarrow>
       (\<exists>s_i' s_r'. p2p_initiator hs pm cr bx random_i port_i json_i version s_i = Some (Inr s_i') \<and>
          tcp_out s_i' = tcp_out s_i @ chunk_i @ later_i \<and>
          p2p_responder hs pm cr bx random_r port_r json_r version s_r = Some (Inr s_r') \<and>
          tcp_out s_r' = tcp_out s_r @ chunk_r @ later_r)) \<and>
    overhears cr ident_i False (at_end chunk_i chunk_r) (at_end later_i later_r) (at_end (said_by bc_i bm ba [bo]) (said_by bc_r bm ba [])) \<and>
    overhears cr ident_r True (at_end chunk_r chunk_i) (at_end later_r later_i) (at_end (said_by bc_r bm ba []) (said_by bc_i bm ba [bo]))"
proof -
  obtain a b key x y cs cs' where o: "own_chunk hs bx cm_i = Inr a" "own_chunk hs bx cm_r = Inr b" and f: "framed a" "framed b"
    and k: "\<exists>pr. cr_pk_from_bytes cr (hs_public_key hs cm_r) = Some pr \<and> cr_precompute cr pr sk_i = key"
      "\<exists>pi. cr_pk_from_bytes cr (hs_public_key hs cm_i) = Some pi \<and> cr_precompute cr pi sk_r = key"
      "cr_generate_nonces cr a b False = Some (x, y)" "cr_generate_nonces cr b a True = Some (y, x)"
    and b: "boxed cr key x (slice_chunks 0xffe0 bm @ slice_chunks 0xffe0 ba @ slice_chunks 0xffe0 bo) cs"
      "boxed cr key y (slice_chunks 0xffe0 bm @ slice_chunks 0xffe0 ba) cs'"
    and i: "\<And>s. arrives s b (concat cs') \<Longrightarrow>
       \<exists>s'. p2p_initiator hs pm cr bx random_i port_i json_i version s = Some (Inr s') \<and> tcp_out s' = tcp_out s @ a @ concat cs"
    and r: "\<And>s. arrives s a (concat cs) \<Longrightarrow>
       \<exists>s'. p2p_responder hs pm cr bx random_r port_r json_r version s = Some (Inr s') \<and> tcp_out s' = tcp_out s @ b @ concat cs'"
    by (rule p2p_speak [OF assms(1,2,4,6,7,8,10,11)]) blast
  have m: "bm \<noteq> []" "length bm \<le> 0xffe0" "ba \<noteq> []" "length ba \<le> 0xffe0" using assms(4,6) by (simp_all add: wire_message_def)
  then have b': "boxed cr key x (bm # ba # pieces [bo]) cs" "boxed cr key y (bm # ba # pieces []) cs'" using b by (simp_all add: slice_chunks_single)
  have l: "length cs + 1 < 2 ^ 64" "length cs' + 1 < 2 ^ 64"
    using boxed_length [OF b'(1)] boxed_length [OF b'(2)] length_slice_chunks [of "0xffe0" bo] assms(9) by (simp_all add: sayable_def)
  note si = own_chunk_shape [OF assms(1-3,10) o(1)] and sr = own_chunk_shape [OF assms(1-3,11) o(2)]
  have d: "drop 2 a = bc_i" "drop 2 b = bc_r" using si(1) sr(1) assms(14,15) by simp_all
  have ki: "keys_new cr ident_i a b (initiator_new False) =
      Inr (Inr \<lparr>keys_local = \<lparr>key_key = key, key_nonce = x\<rparr>, keys_remote = \<lparr>key_key = key, key_nonce = y\<rparr>\<rparr>)"
    by (rule keys_agreed [OF si(3) sr(3) si(2) sr(2) assms(12) k(1)]) (simp add: k(3))
  have kr: "keys_new cr ident_r b a (initiator_new True) =
      Inr (Inr \<lparr>keys_local = \<lparr>key_key = key, key_nonce = y\<rparr>, keys_remote = \<lparr>key_key = key, key_nonce = x\<rparr>\<rparr>)"
    by (rule keys_agreed [OF sr(3) si(3) sr(2) si(2) assms(13) k(2)]) (simp add: k(4))
  have s: "list_all sayable ([bo] @ [])" "list_all sayable ([] @ [bo])" using assms(9) by simp_all
  show ?thesis
    using i r overhears_peers [OF f b' si(2) sr(2) assms(5) m(3) s(1) l ki]
      overhears_peers [OF f(2,1) b'(2,1) sr(2) si(2) assms(5) m(3) s(2) l(2,1) kr] unfolding d by blast
qed

definition sample_tap_hs :: "(nat, nat, nat, unit, nat) hs_env" where
  "sample_tap_hs =
     \<lparr>hs_from_json = (\<lambda>json. Some (length json)), hs_secret_key = (\<lambda>i. i mod 256), hs_try_new = (\<lambda>port i n v. Some (i mod 256)),
      hs_codec = \<lparr>mc_as_bytes = (\<lambda>cm. Some (replicate 33 0 @ word_of_nat cm # replicate 48 0)),
                  mc_from_bytes = (\<lambda>b. if length b = 82 then Some (unat (b ! 33)) else None)\<rparr>,
      hs_public_key = (\<lambda>cm. replicate 31 0 @ [word_of_nat cm])\<rparr>"

definition sample_tap_p2p :: "(bytes, bytes, bytes) p2p_msgs" where
  "sample_tap_p2p = sample_p2p\<lparr>pm_operation := [0, 0, 0, 2, 7, 8], pm_is_operation := (\<lambda>m. length m = 6)\<rparr>"

definition sample_tap_identity :: "u8 \<Rightarrow> identity" where
  "sample_tap_identity k = \<lparr>id_public_key = replicate 31 0 @ [k], id_secret_key = [k]\<rparr>"

lemma be_val_leading_zeros: "be_val (replicate n 0 @ bs) = be_val bs"
  by (induction n) simp_all

lemma sample_tap_laws: "hs_laws sample_tap_hs sample_peer_crypto" "connection_layout sample_tap_hs"
  by (auto simp: hs_laws_def sample_tap_hs_def sample_peer_crypto_def unat_of_nat be_val_leading_zeros nth_append connection_layout_def sub_def)

lemma sample_tap_msgs:
  "wire_message (pm_meta sample_tap_p2p) False (pm_meta_msg sample_tap_p2p) [0, 0]" "wire_message (pm_ack sample_tap_p2p) False (pm_ack_msg sample_tap_p2p) [0]"
  "wire_message (pm_peer sample_tap_p2p) True (pm_operation sample_tap_p2p) [0, 0, 0, 2, 7, 8]"
  "pm_is_operation sample_tap_p2p (pm_operation sample_tap_p2p)" "sayable [0, 0, 0, 2, 7, 8]"
  by (simp_all add: sample_tap_p2p_def sample_p2p_def wire_message_def sample_codec_def from_be_bytes_def sayable_def header_len_def)

lemma sample_tap_identities:
  "identity_of sample_tap_hs 0 ''ab'' 9732 () = Inr (2, 2)" "identity_of sample_tap_hs 0 ''abc'' 9733 () = Inr (3, 3)"
  "has_identity sample_tap_hs sample_peer_crypto (sample_tap_identity 2) 2 2" "has_identity sample_tap_hs sample_peer_crypto (sample_tap_identity 3) 3 3"
  by (simp_all add: identity_of_def sample_tap_hs_def has_identity_def sample_peer_crypto_def sample_tap_identity_def)

theorem p2p_overheard_witness:
  "\<exists>chunk_i later_i chunk_r later_r.
    (\<exists>s_i' s_r'. p2p_initiator sample_tap_hs sample_tap_p2p sample_peer_crypto sample_box 0 9732 ''ab'' () (sample_tcp [chunk_r, later_r]) =
          Some (Inr s_i') \<and> tcp_out s_i' = chunk_i @ later_i \<and>
        p2p_responder sample_tap_hs sample_tap_p2p sample_peer_crypto sample_box 0 9733 ''abc'' () (sample_tcp [chunk_i, later_i]) =
          Some (Inr s_r') \<and> tcp_out s_r' = chunk_r @ later_r) \<and>
    overhears sample_peer_crypto (sample_tap_identity 2) False (at_end chunk_i chunk_r) (at_end later_i later_r)
      (at_end (said_by (replicate 33 0 @ 2 # replicate 48 0) [0, 0] [0] [[0, 0, 0, 2, 7, 8]]) (said_by (replicate 33 0 @ 3 # replicate 48 0) [0, 0] [0] []))"
proof -
  have c: "mc_as_bytes (hs_codec sample_tap_hs) 2 = Some (replicate 33 0 @ 2 # replicate 48 0)"
      "mc_as_bytes (hs_codec sample_tap_hs) 3 = Some (replicate 33 0 @ 3 # replicate 48 0)"
    by (simp_all add: sample_tap_hs_def)
  have two: "2 \<le> length ([0, 0] :: bytes)" by simp
  have a: "arrives (sample_tcp [c, l]) c l" for c l
    by (simp add: arrives_def sample_tcp_def) (rule exI [of _ "[c]"], rule exI [of _ "[l]"], simp)
  obtain ci li ch lr where p: "\<forall>s_i s_r. arrives s_i ch lr \<and> arrives s_r ci li \<longrightarrow>
      (\<exists>s_i' s_r'. p2p_initiator sample_tap_hs sample_tap_p2p sample_peer_crypto sample_box 0 9732 ''ab'' () s_i = Some (Inr s_i') \<and>
         tcp_out s_i' = tcp_out s_i @ ci @ li \<and>
         p2p_responder sample_tap_hs sample_tap_p2p sample_peer_crypto sample_box 0 9733 ''abc'' () s_r = Some (Inr s_r') \<and>
         tcp_out s_r' = tcp_out s_r @ ch @ lr)"
    and o: "overhears sample_peer_crypto (sample_tap_identity 2) False (at_end ci ch) (at_end li lr)
      (at_end (said_by (replicate 33 0 @ 2 # replicate 48 0) [0, 0] [0] [[0, 0, 0, 2, 7, 8]]) (said_by (replicate 33 0 @ 3 # replicate 48 0) [0, 0] [0] []))"
    using p2p_overheard [OF sample_tap_laws(1) sample_box_laws sample_tap_laws(2) sample_tap_msgs(1) two sample_tap_msgs(2-5)
        sample_tap_identities c] by blast
  show ?thesis using p [rule_format, OF conjI, OF a a] o unfolding sample_tcp_simps(3) append_Nil by blast
qed

end
