(* ===== verification/Call_Log.thy ===== *)
theory Call_Log
  imports Connection_Processor
begin

text \<open>
  The calls that a connection makes on its database do not depend on those made before: the list
  of calls is only appended to. The interface is a map of handler states that commutes with the
  handler; the parser commutes with it then, and so does the whole connection. The main loop uses
  it to look at one connection inside the list of all calls.
\<close>

definition map_state :: "('h \<Rightarrow> 'h) \<Rightarrow> panic + ('a \<times> 'h) \<Rightarrow> panic + ('a \<times> 'h)" where
  "map_state f r = map_ok (\<lambda>(a, h). (a, f h)) r"

lemma map_state_simps [simp]:
  "map_state f (Inl p) = Inl p"
  "map_state f (Inr (a, h)) = Inr (a, f h)"
  by (simp_all add: map_state_def map_ok_def)

locale handler_map =
  fixes hr :: "'h chunk_handler"
    and f :: "'h \<Rightarrow> 'h"
  assumes handle_map: "ch_handle_chunk hr c cn (f h) = map_state f (ch_handle_chunk hr c cn h)"
    and update_map: "ch_update_cn hr cn (f h) = f (ch_update_cn hr cn h)"
begin

lemma unopened_map:
  "unopened clk s hr net cid n cs cn (f h) = map_state f (unopened clk s hr net cid n cs cn h)"
proof (induction cs arbitrary: n cn h)
  case (Cons c cs)
  show ?case
    by (cases "ch_handle_chunk hr (chunk_net net (chunk_new (clk_secs clk (sender_new s) n) cid
            (sender_new s) n c [])) cn h")
      (auto simp: handle_map Cons.IH)
qed simp

definition map_keyed :: "panic + ('k \<times> connection_item \<times> 'h) \<Rightarrow> panic + ('k \<times> connection_item \<times> 'h)" where
  "map_keyed r = map_ok (\<lambda>(k, cn, h). (k, cn, f h)) r"

lemma map_keyed_simps [simp]:
  "map_keyed (Inl p) = Inl p"
  "map_keyed (Inr (k, cn, h)) = Inr (k, cn, f h)"
  by (simp_all add: map_keyed_def map_ok_def)

lemma keyed_map:
  "keyed cr clk s hr net cid n k cs cn (f h) = map_keyed (keyed cr clk s hr net cid n k cs cn h)"
proof (induction cs arbitrary: n k cn h)
  case (Cons c cs)
  show ?case
  proof (cases "cr_decrypt cr (key_key k) (drop 2 c) (key_nonce k)")
    case None
    let ?cn = "mark_cannot_decrypt s n cn"
    show ?thesis
      using None
      by (cases "unopened clk s hr net cid (n + 1) cs ?cn (ch_update_cn hr ?cn h)")
        (auto simp: update_map unopened_map Let_def)
  next
    case (Some plain)
    then show ?thesis
      by (cases "ch_handle_chunk hr (chunk_net net (chunk_new (clk_secs clk (sender_new s) n) cid
            (sender_new s) n c plain)) cn h")
        (auto simp: handle_map Cons.IH)
  qed
qed simp

lemma done_handle_data_map:
  "done_handle_data cr clk s hr st payload net cn (f h) =
   map_keyed (done_handle_data cr clk s hr st payload net cn h)"
proof -
  obtain cs r where cs: "list_all framed cs" "incomplete r" "pending st @ payload = concat cs @ r"
    using frame_exists by blast
  show ?thesis
  proof (cases st)
    case (Done_HaveKey i k)
    have d: "buf_data (in_buffer i) @ payload = concat cs @ r" using cs(3) by (simp add: Done_HaveKey pending_def)
    show ?thesis
      unfolding Done_HaveKey done_handle_data_have_key [OF cs(1,2) d] keyed_map
      by (cases "keyed cr clk s hr net (in_cn_id i) (buf_counter (in_buffer i)) k cs cn h") auto
  next
    case (Done_CannotDecrypt i)
    have d: "buf_data (in_buffer i) @ payload = concat cs @ r" using cs(3) by (simp add: Done_CannotDecrypt pending_def)
    show ?thesis
      unfolding Done_CannotDecrypt done_handle_data_cannot_decrypt [OF cs(1,2) d] unopened_map
      by (cases "unopened clk s hr net (in_cn_id i) (buf_counter (in_buffer i)) cs cn h") auto
  next
    case (Done_Uncertain i)
    then show ?thesis
      by (cases "uncertain_handle_data clk s i payload"; cases "ch_handle_chunk hr
            (chunk_net net (fst (projr (uncertain_handle_data clk s i payload)))) cn h")
        (auto simp: handle_map split: prod.splits)
  next
    case (Done_HaveNotKey i)
    then show ?thesis
      by (cases "have_not_key_handle_data clk s i payload"; cases "ch_handle_chunk hr
            (chunk_net net (fst (projr (have_not_key_handle_data clk s i payload)))) cn h")
        (auto simp: handle_map split: prod.splits)
  qed
qed

end

section \<open>The message parser\<close>

definition add_calls :: "db_op list \<Rightarrow> message_parser \<times> db_op list \<Rightarrow> message_parser \<times> db_op list" where
  "add_calls pre h = (fst h, pre @ snd h)"

lemma mp_handle_chunk_calls:
  "mp_handle_chunk clk c cn (add_calls pre h) = map_state (add_calls pre) (mp_handle_chunk clk c cn h)"
  by (cases "take_builder (fst h) c cn")
    (auto simp: mp_handle_chunk_def add_calls_def Let_def split: prod.splits sum.splits)

interpretation mp_map: handler_map "mp_handler clk" "add_calls pre"
proof unfold_locales
  show "ch_handle_chunk (mp_handler clk) c cn (add_calls pre h) =
      map_state (add_calls pre) (ch_handle_chunk (mp_handler clk) c cn h)" for c cn h
    by (simp only: mp_handler_def chunk_handler.simps mp_handle_chunk_calls)
qed (simp add: mp_handler_def mp_update_cn_def add_calls_def)

section \<open>The connection\<close>

lemma handle_opt_chunk_calls:
  "handle_opt_chunk clk c cn (mp, pre @ ops) =
   map_ok (\<lambda>(cn', mp', ops'). (cn', mp', pre @ ops')) (handle_opt_chunk clk c cn (mp, ops))"
proof (cases c)
  case (Some c')
  then show ?thesis
    using mp_handle_chunk_calls [of clk c' cn pre "(mp, ops)"]
    by (cases "mp_handle_chunk clk c' cn (mp, ops)")
      (auto simp: handle_opt_chunk_def add_calls_def map_ok_def)
qed (simp add: handle_opt_chunk_def map_ok_def)

lemma done_handle_data_calls:
  "done_handle_data cr clk s (mp_handler clk) st payload net cn (mp, pre @ ops) =
   map_ok (\<lambda>(st', cn', mp', ops'). (st', cn', mp', pre @ ops'))
     (done_handle_data cr clk s (mp_handler clk) st payload net cn (mp, ops))"
  using mp_map.done_handle_data_map [of cr clk s clk st payload net cn pre "(mp, ops)"]
  by (cases "done_handle_data cr clk s (mp_handler clk) st payload net cn (mp, ops)")
    (auto simp: add_calls_def map_ok_def)

lemma connection_handle_data_calls:
  "connection_handle_data cr clk conn payload net incoming (pre @ ops) =
   map_ok (\<lambda>(conn', ops'). (conn', pre @ ops')) (connection_handle_data cr clk conn payload net incoming ops)"
proof (cases "cx_state conn")
  case None
  then show ?thesis by (simp add: connection_handle_data_def map_ok_def)
next
  case (Some state)
  show ?thesis
  proof (cases state)
    case (Conn_Done l lmp r rmp)
    show ?thesis
      using Some Conn_Done
      by (cases "done_handle_data cr clk incoming (mp_handler clk) (if incoming then r else l) payload net
            (cx_item conn) (if incoming then rmp else lmp, ops)"; cases incoming)
        (auto simp: connection_handle_data_def done_handle_data_calls map_ok_def)
  next
    case (Conn_Handshake h)
    show ?thesis
    proof (cases "handshake_handle_data cr clk h payload net incoming (cx_item conn)")
      case (Inl p)
      then show ?thesis using Some Conn_Handshake by (simp add: connection_handle_data_def map_ok_def)
    next
      case (Inr rc)
      obtain r cn where rc: "rc = (r, cn)" by (cases rc)
      have o: "(pre @ ops) @ [StoreConnection cn] = pre @ (ops @ [StoreConnection cn])" by simp
      show ?thesis
        using Some Conn_Handshake Inr rc
        by (cases r; cases "handle_opt_chunk clk (ho_l_chunk (projr r)) cn (message_parser_new, ops @ [StoreConnection cn])")
          (auto simp: connection_handle_data_def Let_def o handle_opt_chunk_calls map_ok_def
            split: sum.splits prod.splits simp del: append_assoc)
    qed
  qed
qed

end
