(* ===== verification/System.thy ===== *)
theory System
  imports Call_Log
begin

text \<open>
  The configuration and the bookkeeping of the watched nodes, \<^verbatim>\<open>tezedge-recorder/src/system.rs\<close>:
  which process listens on which port, with which identity, and which database belongs to it.
  Reading an identity file, opening a database and starting the log client are the parameters
  \<open>sys_env\<close>; \<open>'db\<close> is a handle of a database.
\<close>

section \<open>Configuration\<close>

record p2p_config =
  p2p_identity :: string
  p2p_port :: u16
  p2p_store_limit :: "u64 option"

record log_config =
  lc_port :: u16
  lc_disable_search :: "bool option"
  lc_store_limit :: "u64 option"

record node_config =
  nc_name :: string
  nc_http_v3 :: "u16 option"
  nc_db :: string
  nc_p2p :: "p2p_config option"
  nc_log :: "log_config option"

record config =
  cfg_http_v2 :: "u16 option"
  cfg_nodes :: "node_config list"

record node_info =
  ni_identity :: identity
  ni_name :: string

datatype node_error = OpenIdentity | ParseIdentity | ParsePk | ParseSk

text \<open>The ports of the two services of a node, when they are started.\<close>

record node_server =
  ns_server :: "u16 option"
  ns_log_client :: "u16 option"

record 'db system =
  sy_config :: config
  sy_port_to_pid :: "u16 \<Rightarrow> u32 option"
  sy_node_info :: "u32 \<Rightarrow> node_info option"
  sy_node_servers :: "string \<Rightarrow> node_server option"
  sy_node_dbs :: "string \<Rightarrow> 'db option"
  sy_old_server :: "u16 option"

text \<open>
  \<open>se_read_identity\<close> reads and parses the file: the two keys in hexadecimal. \<open>se_open_db\<close> takes the
  path, whether logs are indexed for search, and the two limits.
\<close>

record 'db sys_env =
  se_read_identity :: "string \<Rightarrow> node_error + (string \<times> string)"
  se_hex_decode :: "string \<Rightarrow> bytes option"
  se_open_db :: "string \<Rightarrow> bool \<Rightarrow> u64 option \<Rightarrow> u64 option \<Rightarrow> 'db option"
  se_log_spawn :: "u16 \<Rightarrow> bool"

section \<open>Operations\<close>

definition bind_option :: "('a \<Rightarrow> 'b option) \<Rightarrow> 'a option \<Rightarrow> 'b option" where
  "bind_option f x = (case x of None \<Rightarrow> None | Some a \<Rightarrow> f a)"

definition open_spawn :: "'db sys_env \<Rightarrow> node_config \<Rightarrow> (node_server \<times> 'db) option" where
  "open_spawn env c =
     (let log_search = \<not> get_or False (bind_option lc_disable_search (nc_log c));
          log_store_limit = bind_option lc_store_limit (nc_log c);
          message_store_limit = bind_option p2p_store_limit (nc_p2p c)
      in case se_open_db env (nc_db c) log_search log_store_limit message_store_limit of
           None \<Rightarrow> None
         | Some db \<Rightarrow>
             (case nc_log c of
                None \<Rightarrow> Some (\<lparr>ns_server = nc_http_v3 c, ns_log_client = None\<rparr>, db)
              | Some l \<Rightarrow>
                  if se_log_spawn env (lc_port l)
                  then Some (\<lparr>ns_server = nc_http_v3 c, ns_log_client = Some (lc_port l)\<rparr>, db)
                  else None))"

text \<open>A key is accepted when its hexadecimal form decodes to exactly 32 bytes.\<close>

definition decode_key :: "'db sys_env \<Rightarrow> node_error \<Rightarrow> string \<Rightarrow> node_error + bytes" where
  "decode_key env e s =
     (case se_hex_decode env s of
        None \<Rightarrow> Inl e
      | Some b \<Rightarrow> if length b = 32 then Inr b else Inl e)"

definition node_info_new :: "'db sys_env \<Rightarrow> string \<Rightarrow> string \<Rightarrow> node_error + node_info" where
  "node_info_new env identity_path name =
     and_then (se_read_identity env identity_path) (\<lambda>(public_key, secret_key).
     and_then (decode_key env ParsePk public_key) (\<lambda>pk.
     and_then (decode_key env ParseSk secret_key) (\<lambda>sk.
     Inr \<lparr>ni_identity = \<lparr>id_public_key = pk, id_secret_key = sk\<rparr>, ni_name = name\<rparr>)))"

definition system_new :: "config \<Rightarrow> 'db system" where
  "system_new config =
     \<lparr>sy_config = config, sy_port_to_pid = Map.empty, sy_node_info = Map.empty,
      sy_node_servers = Map.empty, sy_node_dbs = Map.empty, sy_old_server = None\<rparr>"

definition p2p_configs :: "'db system \<Rightarrow> p2p_config list" where
  "p2p_configs sy = List.map_filter nc_p2p (cfg_nodes (sy_config sy))"

definition need_bpf :: "'db system \<Rightarrow> bool" where
  "need_bpf sy \<longleftrightarrow> list_ex (\<lambda>c. nc_p2p c \<noteq> None) (cfg_nodes (sy_config sy))"

definition should_ignore :: "'db system \<Rightarrow> socket_addr \<Rightarrow> bool" where
  "should_ignore sy address =
     (let p = sa_port address in
      if p = 0 \<or> p = 65535 then True
      else if p = 53 \<or> p = 80 \<or> p = 443 \<or> p = 22 then True
      else list_ex (\<lambda>n. (case nc_log n of Some l \<Rightarrow> lc_port l | None \<Rightarrow> 0) = p) (cfg_nodes (sy_config sy)))"

fun run_dbs_nodes :: "'db sys_env \<Rightarrow> node_config list \<Rightarrow> 'db system \<Rightarrow> 'db system" where
  "run_dbs_nodes env [] sy = sy"
| "run_dbs_nodes env (c # cs) sy =
     run_dbs_nodes env cs
       (case open_spawn env c of
          None \<Rightarrow> sy
        | Some (server, db) \<Rightarrow>
            sy\<lparr>sy_node_servers := (sy_node_servers sy)(nc_name c \<mapsto> server),
               sy_node_dbs := (sy_node_dbs sy)(nc_name c \<mapsto> db)\<rparr>)"

definition run_dbs :: "'db sys_env \<Rightarrow> 'db system \<Rightarrow> 'db system" where
  "run_dbs env sy =
     (let sy = run_dbs_nodes env (cfg_nodes (sy_config sy)) sy in
      case cfg_http_v2 (sy_config sy) of
        None \<Rightarrow> sy
      | Some port \<Rightarrow> sy\<lparr>sy_old_server := Some port\<rparr>)"

definition handle_bind ::
    "'db sys_env \<Rightarrow> u32 \<Rightarrow> u16 \<Rightarrow> 'db system \<Rightarrow> panic + (node_error + unit) \<times> 'db system" where
  "handle_bind env pid port sy =
     and_then
       (case sy_port_to_pid sy port of
          Some old_pid \<Rightarrow>
            (let sy1 = sy\<lparr>sy_port_to_pid := (sy_port_to_pid sy)(port := None)\<rparr> in
             and_then (unwrap (sy_node_info sy1 old_pid)) (\<lambda>info.
             Inr (Inr info, sy1\<lparr>sy_node_info := (sy_node_info sy1)(old_pid := None)\<rparr>)))
        | None \<Rightarrow>
            and_then (unwrap (find (\<lambda>c. case nc_p2p c of Some p \<Rightarrow> p2p_port p = port | None \<Rightarrow> False)
                                (cfg_nodes (sy_config sy)))) (\<lambda>c.
            and_then (unwrap (nc_p2p c)) (\<lambda>p2p.
            Inr (node_info_new env (p2p_identity p2p) (nc_name c), sy))))
       (\<lambda>(result, sy2).
        case result of
          Inl e \<Rightarrow> Inr (Inl e, sy2)
        | Inr info \<Rightarrow>
            Inr (Inr (), sy2\<lparr>sy_port_to_pid := (sy_port_to_pid sy2)(port \<mapsto> pid),
                            sy_node_info := (sy_node_info sy2)(pid \<mapsto> info)\<rparr>))"

definition get_mut :: "u32 \<Rightarrow> 'db system \<Rightarrow> (node_info \<times> 'db) option" where
  "get_mut pid sy =
     (case sy_node_info sy pid of
        None \<Rightarrow> None
      | Some info \<Rightarrow>
          (case sy_node_dbs sy (ni_name info) of None \<Rightarrow> None | Some db \<Rightarrow> Some (info, db)))"

section \<open>Invariants\<close>

text \<open>
  Every attached process is the owner of its port's entry, no process owns two ports, and every
  identity has keys of 32 bytes.
\<close>

definition system_inv :: "'db system \<Rightarrow> bool" where
  "system_inv sy \<longleftrightarrow>
     (\<forall>port pid. sy_port_to_pid sy port = Some pid \<longrightarrow> sy_node_info sy pid \<noteq> None) \<and>
     (\<forall>p q pid. sy_port_to_pid sy p = Some pid \<and> sy_port_to_pid sy q = Some pid \<longrightarrow> p = q) \<and>
     (\<forall>pid info. sy_node_info sy pid = Some info \<longrightarrow>
        length (id_public_key (ni_identity info)) = 32 \<and> length (id_secret_key (ni_identity info)) = 32)"

definition configured :: "u16 \<Rightarrow> 'db system \<Rightarrow> bool" where
  "configured port sy \<longleftrightarrow> (\<exists>c \<in> set (cfg_nodes (sy_config sy)). \<exists>p. nc_p2p c = Some p \<and> p2p_port p = port)"

lemma system_inv_new: "system_inv (system_new config)"
  by (simp add: system_inv_def system_new_def)

lemma decode_key_Inr: "decode_key env e s = Inr b \<longleftrightarrow> se_hex_decode env s = Some b \<and> length b = 32"
  by (auto simp: decode_key_def split: option.splits)

lemma node_info_new_keys:
  "node_info_new env path name = Inr info \<Longrightarrow>
   length (id_public_key (ni_identity info)) = 32 \<and> length (id_secret_key (ni_identity info)) = 32 \<and>
   ni_name info = name"
  unfolding node_info_new_def and_then_Inr_iff split_paired_Ex prod.case decode_key_Inr
  by (elim exE conjE) (auto simp only: Inr_inject identity.simps node_info.simps)

lemma find_configured:
  "configured port sy \<Longrightarrow>
   \<exists>c p. find (\<lambda>c. case nc_p2p c of Some p \<Rightarrow> p2p_port p = port | None \<Rightarrow> False)
      (cfg_nodes (sy_config sy)) = Some c \<and> nc_p2p c = Some p \<and> p2p_port p = port \<and>
      c \<in> set (cfg_nodes (sy_config sy))"
proof -
  assume a: "configured port sy"
  let ?P = "\<lambda>c. case nc_p2p c of Some p \<Rightarrow> p2p_port p = port | None \<Rightarrow> False"
  have "find ?P (cfg_nodes (sy_config sy)) \<noteq> None"
  proof -
    obtain c p where "c \<in> set (cfg_nodes (sy_config sy))" "nc_p2p c = Some p" "p2p_port p = port"
      using a by (auto simp: configured_def)
    then have "c \<in> set (cfg_nodes (sy_config sy)) \<and> ?P c" by simp
    then show ?thesis unfolding find_None_iff by blast
  qed
  then obtain c where c: "find ?P (cfg_nodes (sy_config sy)) = Some c" by blast
  then have "?P c" "c \<in> set (cfg_nodes (sy_config sy))" by (auto simp: find_Some_iff)
  with c show ?thesis by (auto split: option.splits)
qed

lemma not_configured_find:
  "\<not> configured port sy \<Longrightarrow>
   find (\<lambda>c. case nc_p2p c of Some p \<Rightarrow> p2p_port p = port | None \<Rightarrow> False) (cfg_nodes (sy_config sy)) = None"
  by (auto simp: find_None_iff configured_def split: option.splits)

text \<open>Every outcome of a bind, with what it leaves of the rest of the state.\<close>

lemma handle_bind_step:
  assumes inv: "system_inv sy"
    and conf: "configured port sy"
    and owner: "\<And>q. sy_port_to_pid sy q = Some pid \<Longrightarrow> q = port"
  shows "\<exists>r sy'. handle_bind env pid port sy = Inr (r, sy') \<and> system_inv sy' \<and> sy_config sy' = sy_config sy \<and>
    (\<forall>q. sy_port_to_pid sy' q = (if q = port \<and> isl r = False then Some pid else sy_port_to_pid sy q)) \<and>
    (case r of
       Inl e \<Rightarrow> sy' = sy \<and> sy_port_to_pid sy port = None
     | Inr _ \<Rightarrow> sy_port_to_pid sy' port = Some pid \<and>
         (case sy_port_to_pid sy port of
            Some old \<Rightarrow> sy_node_info sy' pid = sy_node_info sy old \<and>
              (old \<noteq> pid \<longrightarrow> sy_node_info sy' old = None)
          | None \<Rightarrow> \<exists>c p. c \<in> set (cfg_nodes (sy_config sy)) \<and> nc_p2p c = Some p \<and> p2p_port p = port \<and>
              (\<exists>info. node_info_new env (p2p_identity p) (nc_name c) = Inr info \<and>
                 sy_node_info sy' pid = Some info)))"
proof (cases "sy_port_to_pid sy port")
  case (Some old)
  then have "sy_node_info sy old \<noteq> None" using inv unfolding system_inv_def by blast
  then obtain info where info: "sy_node_info sy old = Some info" by blast
  have keys: "length (id_public_key (ni_identity info)) = 32 \<and> length (id_secret_key (ni_identity info)) = 32"
    using inv info unfolding system_inv_def by blast
  let ?sy = "sy\<lparr>sy_port_to_pid := (sy_port_to_pid sy)(port \<mapsto> pid),
                sy_node_info := (sy_node_info sy)(old := None, pid \<mapsto> info)\<rparr>"
  have "handle_bind env pid port sy = Inr (Inr (), ?sy)"
    using Some info by (simp add: handle_bind_def Let_def)
  moreover have "system_inv ?sy"
    using inv keys owner Some unfolding system_inv_def
    by (auto split: if_splits)
  ultimately show ?thesis using Some info by simp
next
  case None
  obtain c p where c: "find (\<lambda>c. case nc_p2p c of Some p \<Rightarrow> p2p_port p = port | None \<Rightarrow> False)
      (cfg_nodes (sy_config sy)) = Some c" "nc_p2p c = Some p" "p2p_port p = port"
      "c \<in> set (cfg_nodes (sy_config sy))"
    using find_configured [OF conf] by blast
  show ?thesis
  proof (cases "node_info_new env (p2p_identity p) (nc_name c)")
    case (Inl e)
    then show ?thesis using None c inv by (simp add: handle_bind_def)
  next
    case (Inr info)
    let ?sy = "sy\<lparr>sy_port_to_pid := (sy_port_to_pid sy)(port \<mapsto> pid),
                  sy_node_info := (sy_node_info sy)(pid \<mapsto> info)\<rparr>"
    have eq: "handle_bind env pid port sy = Inr (Inr (), ?sy)"
      using None c Inr by (simp add: handle_bind_def)
    have "system_inv ?sy"
      using inv owner node_info_new_keys [OF Inr] unfolding system_inv_def
      by (auto split: if_splits)
    with eq None c Inr show ?thesis by auto
  qed
qed

text \<open>
  C34: Binding to a port attaches the process. From a state where every attached process has its
  entry and owns one port, a bind to a configured port by a process that owns no other port does
  not panic, keeps those invariants, and either reports the error of the identity file without any
  change, or attaches the process: the port belongs to it, its node information is the one of the
  process that had the port before, if any, or else that of the configuration, and the former
  process, if it is another one, is detached.
\<close>

theorem handle_bind_attaches:
  assumes inv: "system_inv sy"
    and conf: "configured port sy"
    and owner: "\<And>q. sy_port_to_pid sy q = Some pid \<Longrightarrow> q = port"
  shows "\<exists>r sy'. handle_bind env pid port sy = Inr (r, sy') \<and> system_inv sy' \<and>
    (case r of
       Inl e \<Rightarrow> sy' = sy \<and> sy_port_to_pid sy port = None
     | Inr _ \<Rightarrow> sy_port_to_pid sy' port = Some pid \<and>
         (case sy_port_to_pid sy port of
            Some old \<Rightarrow> sy_node_info sy' pid = sy_node_info sy old \<and>
              (old \<noteq> pid \<longrightarrow> sy_node_info sy' old = None)
          | None \<Rightarrow> \<exists>c p. c \<in> set (cfg_nodes (sy_config sy)) \<and> nc_p2p c = Some p \<and> p2p_port p = port \<and>
              (\<exists>info. node_info_new env (p2p_identity p) (nc_name c) = Inr info \<and>
                 sy_node_info sy' pid = Some info)))"
  using handle_bind_step [OF assms, where env = env] by fast

definition sample_config :: config where
  "sample_config =
     \<lparr>cfg_http_v2 = None,
      cfg_nodes = [\<lparr>nc_name = ''tezedge'', nc_http_v3 = Some 17742, nc_db = ''/tmp/db'',
        nc_p2p = Some \<lparr>p2p_identity = ''/tmp/identity.json'', p2p_port = 9732, p2p_store_limit = None\<rparr>,
        nc_log = None\<rparr>]\<rparr>"

definition sample_sys_env :: "string sys_env" where
  "sample_sys_env =
     \<lparr>se_read_identity = (\<lambda>path. Inr (replicate 64 CHR ''1'', replicate 64 CHR ''2'')),
      se_hex_decode = (\<lambda>s. Some (replicate (length s div 2) 17)),
      se_open_db = (\<lambda>path search l1 l2. Some path),
      se_log_spawn = (\<lambda>port. True)\<rparr>"

definition sample_system :: "string system" where
  "sample_system = run_dbs sample_sys_env (system_new sample_config)"

lemma sample_system_inv: "system_inv sample_system" "configured 9732 sample_system"
    "sy_port_to_pid sample_system q = None"
  by (simp_all add: sample_system_def run_dbs_def system_new_def sample_config_def system_inv_def
      configured_def sample_sys_env_def open_spawn_def bind_option_def get_or_def)

theorem handle_bind_attaches_witness:
  "\<exists>r sy'. handle_bind sample_sys_env 77 9732 sample_system = Inr (r, sy') \<and> system_inv sy' \<and>
    (case r of
       Inl e \<Rightarrow> sy' = sample_system \<and> sy_port_to_pid sample_system 9732 = None
     | Inr _ \<Rightarrow> sy_port_to_pid sy' 9732 = Some 77 \<and>
         (case sy_port_to_pid sample_system 9732 of
            Some old \<Rightarrow> sy_node_info sy' 77 = sy_node_info sample_system old \<and>
              (old \<noteq> 77 \<longrightarrow> sy_node_info sy' old = None)
          | None \<Rightarrow> \<exists>c p. c \<in> set (cfg_nodes (sy_config sample_system)) \<and> nc_p2p c = Some p \<and>
              p2p_port p = 9732 \<and>
              (\<exists>info. node_info_new sample_sys_env (p2p_identity p) (nc_name c) = Inr info \<and>
                 sy_node_info sy' 77 = Some info)))"
  by (rule handle_bind_attaches, rule sample_system_inv(1), rule sample_system_inv(2))
    (simp add: sample_system_inv(3))

end
