(* ===== verification/Sniffer_Event.thy ===== *)
theory Sniffer_Event
  imports Connection_Table
begin

text \<open>
  The records that the bpf program of the recorder sends and the commands it takes,
  \<^verbatim>\<open>bpf-recorder/src/lib.rs\<close> and \<^verbatim>\<open>bpf-recorder/src/client.rs\<close>. A record is a descriptor of 24 bytes
  (event id, tag, size) and its data. The order of the fields of \<^verbatim>\<open>EventId\<close> in memory is chosen by
  the compiler: it is the parameter \<open>layout\<close>. \<open>hex\<close> stands for \<^verbatim>\<open>hex::encode\<close>.
\<close>

section \<open>Identifiers and commands\<close>

record socket_id =
  sid_pid :: u32
  sid_fd :: u32

definition socket_id_to_ne_bytes :: "socket_id \<Rightarrow> bytes" where
  "socket_id_to_ne_bytes s =
     to_ne_bytes (push_bit 32 (ucast (sid_pid s) :: u64) + (ucast (sid_fd s) :: u64))"

definition socket_id_to_string :: "socket_id \<Rightarrow> string" where
  "socket_id_to_string s = show_uint (sid_pid s) @ '':'' @ show_uint (sid_fd s)"

datatype command = WatchPort u16 | IgnoreConnection u32 u32 | FetchCounter

definition parse_word ::
    "string \<Rightarrow> string \<Rightarrow> string option \<Rightarrow> string + 'a::len word" where
  "parse_word missing failed w =
     and_then (ok_or missing w) (\<lambda>s.
     map_err (\<lambda>e. failed @ parse_int_error_string e) (parse_uint s))"

definition command_from_str :: "string \<Rightarrow> string + command" where
  "command_from_str s =
     (let words = split_on CHR '' '' s in
      if nth_opt words 0 = Some ''watch_port'' then
        and_then (parse_word ''bad port'' ''failed to parse port: '' (nth_opt words 1)) (\<lambda>port.
        Inr (WatchPort port))
      else if nth_opt words 0 = Some ''ignore_connection'' then
        and_then (parse_word ''bad pid'' ''failed to parse pid: '' (nth_opt words 1)) (\<lambda>pid.
        and_then (parse_word ''bad fd'' ''failed to parse fd: '' (nth_opt words 2)) (\<lambda>fd.
        Inr (IgnoreConnection pid fd)))
      else if nth_opt words 0 = Some ''fetch_counter'' then Inr FetchCounter
      else Inl ''unexpected command'')"

fun command_to_string :: "command \<Rightarrow> string" where
  "command_to_string (WatchPort port) = ''watch_port '' @ show_uint port"
| "command_to_string (IgnoreConnection pid fd) =
     ''ignore_connection '' @ show_uint pid @ '' '' @ show_uint fd"
| "command_to_string FetchCounter = ''fetch_counter''"

record event_id =
  eid_socket_id :: socket_id
  eid_ts :: u64

definition event_id_new :: "socket_id \<Rightarrow> u64 \<Rightarrow> u64 \<Rightarrow> event_id" where
  "event_id_new socket_id ts_start ts_finish = \<lparr>eid_socket_id = socket_id, eid_ts = ts_finish\<rparr>"

definition ts_start :: "event_id \<Rightarrow> u64" where
  "ts_start e = 0"

definition ts_finish :: "event_id \<Rightarrow> u64" where
  "ts_finish e = eid_ts e"

definition event_id_to_string :: "event_id \<Rightarrow> string" where
  "event_id_to_string e = socket_id_to_string (eid_socket_id e) @ '':'' @ show_uint (eid_ts e)"

section \<open>Descriptors\<close>

datatype data_tag =
    Tag_Write | Tag_Read | Tag_Send | Tag_Recv
  | Tag_Connect | Tag_Bind | Tag_Listen | Tag_Accept | Tag_Close
  | Tag_GetFd | Tag_Debug

fun data_tag_as_u32 :: "data_tag \<Rightarrow> u32" where
  "data_tag_as_u32 Tag_Write = 0"
| "data_tag_as_u32 Tag_Read = 1"
| "data_tag_as_u32 Tag_Send = 2"
| "data_tag_as_u32 Tag_Recv = 3"
| "data_tag_as_u32 Tag_Connect = 4"
| "data_tag_as_u32 Tag_Bind = 5"
| "data_tag_as_u32 Tag_Listen = 6"
| "data_tag_as_u32 Tag_Accept = 7"
| "data_tag_as_u32 Tag_Close = 8"
| "data_tag_as_u32 Tag_GetFd = 9"
| "data_tag_as_u32 Tag_Debug = 10"

definition data_tags :: "data_tag list" where
  "data_tags = [Tag_Write, Tag_Read, Tag_Send, Tag_Recv, Tag_Connect, Tag_Bind, Tag_Listen,
     Tag_Accept, Tag_Close, Tag_GetFd, Tag_Debug]"

definition data_tag_of_u32 :: "u32 \<Rightarrow> data_tag option" where
  "data_tag_of_u32 w = find (\<lambda>t. data_tag_as_u32 t = w) data_tags"

record data_descriptor =
  dd_id :: event_id
  dd_tag :: data_tag
  dd_size :: "32 word"

record event_id_layout =
  lay_write :: "event_id \<Rightarrow> bytes"
  lay_read :: "bytes \<Rightarrow> event_id"

definition layout_laws :: "event_id_layout \<Rightarrow> bool" where
  "layout_laws layout \<longleftrightarrow>
     (\<forall>e. length (lay_write layout e) = 16 \<and> lay_read layout (lay_write layout e) = e)"

definition descriptor_size :: nat where
  "descriptor_size = 24"

text \<open>\<^verbatim>\<open>ptr::write\<close> of a descriptor, as the bpf program does it.\<close>

definition descriptor_write :: "event_id_layout \<Rightarrow> data_descriptor \<Rightarrow> bytes" where
  "descriptor_write layout d =
     lay_write layout (dd_id d) @ to_ne_bytes (data_tag_as_u32 (dd_tag d)) @ to_ne_bytes (dd_size d)"

text \<open>\<^verbatim>\<open>ptr::read\<close>: a tag that is none of the enum's is undefined behaviour.\<close>

definition descriptor_try_from :: "event_id_layout \<Rightarrow> bytes \<Rightarrow> panic + unit + data_descriptor" where
  "descriptor_try_from layout v =
     (if length v \<ge> descriptor_size then
        (case data_tag_of_u32 (from_ne_bytes (sub v 16 20)) of
           None \<Rightarrow> Inl Undefined_Behaviour
         | Some tag \<Rightarrow> Inr (Inr \<lparr>dd_id = lay_read layout (sub v 0 16), dd_tag = tag,
                                dd_size = from_ne_bytes (sub v 20 24)\<rparr>))
      else Inr (Inl ()))"

section \<open>Events\<close>

datatype sniffer_event =
    Ev_Data event_id bytes bool bool
  | Ev_Connect event_id socket_addr
  | Ev_Bind event_id socket_addr
  | Ev_Listen event_id
  | Ev_Accept event_id u32 socket_addr
  | Ev_Close event_id
  | Ev_GetFd event_id
  | Ev_Debug event_id string

datatype sniffer_error_code =
    Code_SliceTooShort nat nat
  | Code_Unknown "32 word"
  | Code_UnknownAddressFamily u16
  | Code_Fault

datatype sniffer_error =
    Err_SliceTooShort nat
  | Err_Data event_id sniffer_error_code bool bool
  | Err_BindBadAddress event_id sniffer_error_code
  | Err_ConnectBadAddress event_id sniffer_error_code
  | Err_AcceptBadAddress event_id sniffer_error_code
  | Err_Debug event_id sniffer_error_code

definition error_code ::
    "event_id \<Rightarrow> 32 word \<Rightarrow> nat \<Rightarrow> sniffer_error_code + (event_id \<times> nat)" where
  "error_code i code actual_length =
     (if sint code = -14 then Inl Code_Fault
      else if sint code < 0 then Inl (Code_Unknown code)
      else if actual_length < nat (sint code)
      then Inl (Code_SliceTooShort actual_length (nat (sint code)))
      else Inr (i, nat (sint code)))"

definition error_data ::
    "event_id \<Rightarrow> 32 word \<Rightarrow> nat \<Rightarrow> bool \<Rightarrow> bool \<Rightarrow> sniffer_error + (event_id \<times> nat)" where
  "error_data i code actual_length net incoming =
     map_err (\<lambda>c. Err_Data i c net incoming) (error_code i code actual_length)"

definition error_debug :: "event_id \<Rightarrow> 32 word \<Rightarrow> nat \<Rightarrow> sniffer_error + (event_id \<times> nat)" where
  "error_debug i code actual_length = map_err (Err_Debug i) (error_code i code actual_length)"

text \<open>The ranges are indexed before the conversion that could report an error, so they can panic.\<close>

definition parse_socket_address :: "bytes \<Rightarrow> panic + sniffer_error_code + socket_addr" where
  "parse_socket_address b =
     and_then (slice b 0 2) (\<lambda>family.
     and_then (slice b 2 4) (\<lambda>port.
     let address_family = (from_ne_bytes family :: u16) in
     if address_family = 2 then
       and_then (slice b 4 8) (\<lambda>ip. Inr (Inr \<lparr>sa_ip = Ip_V4 ip, sa_port = from_be_bytes port\<rparr>))
     else if address_family = 10 then
       and_then (slice b 8 24) (\<lambda>ip. Inr (Inr \<lparr>sa_ip = Ip_V6 ip, sa_port = from_be_bytes port\<rparr>))
     else Inr (Inl (Code_UnknownAddressFamily address_family))))"

definition data_event :: "data_descriptor \<Rightarrow> bytes \<Rightarrow> bool \<Rightarrow> bool \<Rightarrow> sniffer_error + sniffer_event" where
  "data_event d data net incoming =
     and_then (error_data (dd_id d) (dd_size d) (length data) net incoming) (\<lambda>(i, n).
     Inr (Ev_Data i (take n data) net incoming))"

definition from_rb_slice ::
    "event_id_layout \<Rightarrow> (bytes \<Rightarrow> string) \<Rightarrow> bytes \<Rightarrow> panic + sniffer_error + sniffer_event" where
  "from_rb_slice layout hex value =
     and_then (descriptor_try_from layout value) (\<lambda>r.
     case r of
       Inl () \<Rightarrow> Inr (Inl (Err_SliceTooShort (length value)))
     | Inr d \<Rightarrow>
         let data = drop descriptor_size value in
         case dd_tag d of
           Tag_Write \<Rightarrow> Inr (data_event d data False False)
         | Tag_Read \<Rightarrow> Inr (data_event d data False True)
         | Tag_Send \<Rightarrow> Inr (data_event d data True False)
         | Tag_Recv \<Rightarrow> Inr (data_event d data True True)
         | Tag_Connect \<Rightarrow>
             and_then (parse_socket_address data) (\<lambda>a.
             Inr (and_then (map_err (Err_ConnectBadAddress (dd_id d)) a) (\<lambda>address.
                  Inr (Ev_Connect (dd_id d) address))))
         | Tag_Bind \<Rightarrow>
             and_then (parse_socket_address data) (\<lambda>a.
             Inr (and_then (map_err (Err_BindBadAddress (dd_id d)) a) (\<lambda>address.
                  Inr (Ev_Bind (dd_id d) address))))
         | Tag_Listen \<Rightarrow> Inr (Inr (Ev_Listen (dd_id d)))
         | Tag_Accept \<Rightarrow>
             and_then (parse_socket_address data) (\<lambda>a.
             Inr (and_then (map_err (Err_AcceptBadAddress (dd_id d)) a) (\<lambda>address.
                  Inr (Ev_Accept (dd_id d) 0 address))))
         | Tag_Close \<Rightarrow> Inr (Inr (Ev_Close (dd_id d)))
         | Tag_GetFd \<Rightarrow> Inr (Inr (Ev_GetFd (dd_id d)))
         | Tag_Debug \<Rightarrow>
             Inr (and_then (error_debug (dd_id d) (dd_size d) (length data)) (\<lambda>(i, n).
                  Inr (Ev_Debug i (hex (take n data))))))"

section \<open>Correctness\<close>

lemma data_tag_of_as [simp]: "data_tag_of_u32 (data_tag_as_u32 t) = Some t"
  by (cases t) (simp_all add: data_tag_of_u32_def data_tags_def)

lemma descriptor_read_write:
  assumes "layout_laws layout"
  shows "descriptor_try_from layout (descriptor_write layout d @ data) = Inr (Inr d)"
proof -
  have l: "length (lay_write layout (dd_id d)) = 16" "lay_read layout (lay_write layout (dd_id d)) = dd_id d"
    using assms by (simp_all add: layout_laws_def)
  let ?v = "descriptor_write layout d @ data"
  have "sub ?v 0 16 = lay_write layout (dd_id d)" "sub ?v 16 20 = to_ne_bytes (data_tag_as_u32 (dd_tag d))"
      "sub ?v 20 24 = to_ne_bytes (dd_size d)" "length ?v \<ge> 24"
    by (simp_all add: descriptor_write_def sub_def l)
  then show ?thesis by (simp add: descriptor_try_from_def descriptor_size_def l)
qed

lemma length_descriptor_write:
  "layout_laws layout \<Longrightarrow> length (descriptor_write layout d) = 24"
  by (simp add: descriptor_write_def layout_laws_def)

lemma from_rb_slice_write:
  assumes "layout_laws layout"
  shows "from_rb_slice layout hex (descriptor_write layout d @ data) =
    (case dd_tag d of
       Tag_Write \<Rightarrow> Inr (data_event d data False False)
     | Tag_Read \<Rightarrow> Inr (data_event d data False True)
     | Tag_Send \<Rightarrow> Inr (data_event d data True False)
     | Tag_Recv \<Rightarrow> Inr (data_event d data True True)
     | Tag_Connect \<Rightarrow>
         and_then (parse_socket_address data) (\<lambda>a.
         Inr (and_then (map_err (Err_ConnectBadAddress (dd_id d)) a) (\<lambda>address.
              Inr (Ev_Connect (dd_id d) address))))
     | Tag_Bind \<Rightarrow>
         and_then (parse_socket_address data) (\<lambda>a.
         Inr (and_then (map_err (Err_BindBadAddress (dd_id d)) a) (\<lambda>address.
              Inr (Ev_Bind (dd_id d) address))))
     | Tag_Listen \<Rightarrow> Inr (Inr (Ev_Listen (dd_id d)))
     | Tag_Accept \<Rightarrow>
         and_then (parse_socket_address data) (\<lambda>a.
         Inr (and_then (map_err (Err_AcceptBadAddress (dd_id d)) a) (\<lambda>address.
              Inr (Ev_Accept (dd_id d) 0 address))))
     | Tag_Close \<Rightarrow> Inr (Inr (Ev_Close (dd_id d)))
     | Tag_GetFd \<Rightarrow> Inr (Inr (Ev_GetFd (dd_id d)))
     | Tag_Debug \<Rightarrow>
         Inr (and_then (error_debug (dd_id d) (dd_size d) (length data)) (\<lambda>(i, n).
              Inr (Ev_Debug i (hex (take n data))))))"
  using descriptor_read_write [OF assms, of d data] length_descriptor_write [OF assms, of d]
  by (simp add: from_rb_slice_def descriptor_size_def Let_def)

lemma sint_of_small:
  assumes "n < 2 ^ 31"
  shows "sint (word_of_nat n :: 32 word) = int n"
  using assms by (simp add: signed_of_nat signed_take_bit_int_eq_self)

lemma data_event_ok:
  assumes "n \<le> length data" "n < 2 ^ 31" "dd_size d = word_of_nat n"
  shows "data_event d data net incoming = Inr (Ev_Data (dd_id d) (take n data) net incoming)"
  using assms by (simp add: data_event_def error_data_def error_code_def sint_of_small map_err_def)

lemma unat_socket_word:
  "unat (push_bit 32 (ucast (p :: u32) :: u64) + (ucast (f :: u32) :: u64)) = unat p * 2 ^ 32 + unat f"
proof -
  have b: "unat p < 2 ^ 32" "unat f < 2 ^ 32" using unat_bound [of p] unat_bound [of f] by simp_all
  have u: "unat (ucast p :: u64) = unat p" "unat (ucast f :: u64) = unat f"
    using b by (simp_all add: unsigned_ucast_eq take_bit_nat_eq_self)
  have "unat p * 2 ^ 32 + unat f < 2 ^ 64" using b by simp
  then show ?thesis
    using b by (simp add: push_bit_eq_mult unat_word_ariths u)
qed

lemma mult_add_inj:
  fixes a b c d k :: nat
  assumes "a * k + b = c * k + d" "b < k" "d < k"
  shows "a = c \<and> b = d"
proof -
  have "(a * k + b) div k = a" "(c * k + d) div k = c" "(a * k + b) mod k = b" "(c * k + d) mod k = d"
    using assms(2,3) by simp_all
  then show ?thesis using assms(1) by simp
qed

lemma socket_id_inj: "socket_id_to_ne_bytes s = socket_id_to_ne_bytes t \<longleftrightarrow> s = t"
proof
  assume "socket_id_to_ne_bytes s = socket_id_to_ne_bytes t"
  then have "unat (sid_pid s) * 2 ^ 32 + unat (sid_fd s) = unat (sid_pid t) * 2 ^ 32 + unat (sid_fd t)"
    using unat_socket_word by (simp add: socket_id_to_ne_bytes_def) metis
  moreover have "unat (sid_fd s) < 2 ^ 32" "unat (sid_fd t) < 2 ^ 32"
    using unat_bound [of "sid_fd s"] unat_bound [of "sid_fd t"] by simp_all
  ultimately have "unat (sid_pid s) = unat (sid_pid t) \<and> unat (sid_fd s) = unat (sid_fd t)"
    by (rule mult_add_inj)
  then show "s = t" by (cases s; cases t) (simp add: word_unat_eq_iff)
qed simp

lemma split_on_word: "CHR '' '' \<notin> set xs \<Longrightarrow> split_on CHR '' '' (xs @ CHR '' '' # ys) = xs # split_on CHR '' '' ys"
  by (rule split_on_append)

lemma command_roundtrip: "command_from_str (command_to_string c) = Inr c"
proof (cases c)
  case (WatchPort port)
  then show ?thesis
    using split_on_append [of "CHR '' ''" "''watch_port''" "show_uint port"]
    by (simp add: command_from_str_def Let_def split_on_none nth_opt_def parse_word_def map_err_def)
next
  case (IgnoreConnection pid fd)
  then show ?thesis
    using split_on_append [of "CHR '' ''" "''ignore_connection''" "show_uint pid @ '' '' @ show_uint fd"]
      split_on_append [of "CHR '' ''" "show_uint pid" "show_uint fd"]
    by (simp add: command_from_str_def Let_def split_on_none nth_opt_def parse_word_def map_err_def)
next
  case FetchCounter
  then show ?thesis
    using split_on_none [of "CHR '' ''" "''fetch_counter''"]
    by (simp add: command_from_str_def Let_def nth_opt_def)
qed

section \<open>Records that decode\<close>

text \<open>
  A record of the kernel: a descriptor with its data. The record of an address has room for one; the report that there was none in the ring buffer
  has not, and the decoder panics on it.
\<close>

definition kernel_record :: "event_id_layout \<Rightarrow> bytes \<Rightarrow> bool" where
  "kernel_record layout r \<longleftrightarrow> (\<exists>d data. r = descriptor_write layout d @ data \<and>
     (dd_tag d \<in> {Tag_Bind, Tag_Connect, Tag_Accept} \<longrightarrow> 28 \<le> length data))"

lemma parse_socket_address_total: "28 \<le> length b \<Longrightarrow> \<exists>a. parse_socket_address b = Inr a"
  by (simp add: parse_socket_address_def slice_def Let_def)

lemma kernel_record_decodes:
  assumes "layout_laws layout" "kernel_record layout r"
  shows "\<exists>x. from_rb_slice layout hex r = Inr x"
proof -
  obtain d data where r: "r = descriptor_write layout d @ data"
      "dd_tag d \<in> {Tag_Bind, Tag_Connect, Tag_Accept} \<longrightarrow> 28 \<le> length data"
    using assms(2) unfolding kernel_record_def by blast
  show ?thesis
  proof (cases "dd_tag d \<in> {Tag_Bind, Tag_Connect, Tag_Accept}")
    case True
    then obtain a where "parse_socket_address data = Inr a" using r(2) parse_socket_address_total by blast
    then show ?thesis using True by (auto simp: r(1) from_rb_slice_write [OF assms(1)])
  next
    case False
    then show ?thesis by (cases "dd_tag d") (simp_all add: r(1) from_rb_slice_write [OF assms(1)])
  qed
qed

definition sample_layout :: event_id_layout where
  "sample_layout =
     \<lparr>lay_write = (\<lambda>e. to_ne_bytes (eid_ts e) @ to_ne_bytes (sid_pid (eid_socket_id e))
                       @ to_ne_bytes (sid_fd (eid_socket_id e))),
      lay_read = (\<lambda>b. \<lparr>eid_socket_id = \<lparr>sid_pid = from_ne_bytes (sub b 8 12), sid_fd = from_ne_bytes (sub b 12 16)\<rparr>,
                       eid_ts = from_ne_bytes (sub b 0 8)\<rparr>)\<rparr>"

lemma layout_laws_sample: "layout_laws sample_layout"
  by (simp add: layout_laws_def sample_layout_def sub_def)

end
