(* ===== verification/Main_Loop.thy ===== *)
theory Main_Loop
  imports System Sniffer_Event
begin

text \<open>
  The main loop of the recorder, \<^verbatim>\<open>tezedge-recorder/src/main_loop.rs\<close>: the events of the sniffer are
  dispatched to the connections of the watched processes. The state is the list of connections, the
  bookkeeping of \<open>System\<close>, and two logs of what leaves the loop: the commands given to the sniffer
  with their success, and the calls on the databases with the socket they come from. The results
  lift those of one connection to the list: sockets do not interfere, and no event panics.
\<close>

section \<open>State and operations\<close>

text \<open>
  What the loop uses from outside: the environment of \<open>System\<close>, the cryptography, the clock at the
  opening of a connection and during it, whether connecting to the sniffer and its \<open>n\<close>th command
  succeed, and what decoding a record of the sniffer needs.
\<close>

record ('db, 'k, 'pk, 'n) loop_env =
  le_sys :: "'db sys_env"
  le_crypto :: "('k, 'pk, 'n) crypto"
  le_nanos :: "event_id \<Rightarrow> nat"
  le_clock :: "socket_id \<Rightarrow> connection_key \<Rightarrow> clock"
  le_client :: bool
  le_send :: "nat \<Rightarrow> bool"
  le_layout :: event_id_layout
  le_hex :: "bytes \<Rightarrow> string"

record ('db, 'pk, 'n) connection_list =
  cl_system :: "'db system"
  cl_connections :: "socket_id \<Rightarrow> (('pk, 'n) connection \<times> 'db) option"
  cl_sent :: "(command \<times> bool) list"
  cl_calls :: "(socket_id \<times> 'db \<times> db_op) list"

definition connection_list_new :: "'db system \<Rightarrow> ('db, 'pk, 'n) connection_list" where
  "connection_list_new sy =
     \<lparr>cl_system = sy, cl_connections = Map.empty, cl_sent = [], cl_calls = []\<rparr>"

definition send_command ::
    "('db, 'k, 'pk, 'n) loop_env \<Rightarrow> command \<Rightarrow> ('db, 'pk, 'n) connection_list
     \<Rightarrow> bool \<times> ('db, 'pk, 'n) connection_list" where
  "send_command env c l =
     (let ok = le_send env (length (cl_sent l)) in (ok, l\<lparr>cl_sent := cl_sent l @ [(c, ok)]\<rparr>))"

fun watching_ports ::
    "('db, 'k, 'pk, 'n) loop_env \<Rightarrow> p2p_config list \<Rightarrow> ('db, 'pk, 'n) connection_list
     \<Rightarrow> bool \<times> ('db, 'pk, 'n) connection_list" where
  "watching_ports env [] l = (True, l)"
| "watching_ports env (c # cs) l =
     (let (ok, l') = send_command env (WatchPort (p2p_port c)) l in
      if ok then watching_ports env cs l' else (False, l'))"

definition watching ::
    "('db, 'k, 'pk, 'n) loop_env \<Rightarrow> ('db, 'pk, 'n) connection_list \<Rightarrow> bool \<times> ('db, 'pk, 'n) connection_list" where
  "watching env l = watching_ports env (p2p_configs (cl_system l)) l"

definition handle_connection ::
    "('db, 'k, 'pk, 'n) loop_env \<Rightarrow> event_id \<Rightarrow> socket_addr \<Rightarrow> bool \<Rightarrow> ('db, 'pk, 'n) connection_list
     \<Rightarrow> ('db, 'pk, 'n) connection_list" where
  "handle_connection env eid address incoming l =
     (let socket_id = eid_socket_id eid; pid = sid_pid socket_id; fd = sid_fd socket_id;
          ignore = snd (send_command env (IgnoreConnection pid fd) l)
      in if \<not> should_ignore (cl_system l) address
         then (case get_mut pid (cl_system l) of
                 Some (info, db) \<Rightarrow>
                   l\<lparr>cl_connections := (cl_connections l)(socket_id \<mapsto>
                       (connection_open (le_nanos env eid) address incoming (ni_identity info), db))\<rparr>
               | None \<Rightarrow> ignore)
         else ignore)"

text \<open>The calls of the connection are collected from an empty list and appended to the log: by
  \<open>connection_handle_data_calls\<close> they do not depend on those before.\<close>

definition handle_data ::
    "('db, 'k, 'pk, 'n) loop_env \<Rightarrow> event_id \<Rightarrow> bytes \<Rightarrow> bool \<Rightarrow> bool \<Rightarrow> ('db, 'pk, 'n) connection_list
     \<Rightarrow> panic + ('db, 'pk, 'n) connection_list" where
  "handle_data env eid payload net incoming l =
     (let sid = eid_socket_id eid in
      case cl_connections l sid of
        None \<Rightarrow> Inr l
      | Some (conn, db) \<Rightarrow>
          and_then (connection_handle_data (le_crypto env)
              (le_clock env sid (connection_key_of (cx_item conn))) conn payload net incoming [])
            (\<lambda>(conn', ops).
          Inr (l\<lparr>cl_connections := (cl_connections l)(sid \<mapsto> (conn', db)),
                 cl_calls := cl_calls l @ map (\<lambda>op. (sid, db, op)) ops\<rparr>)))"

definition handle_get_fd :: "event_id \<Rightarrow> ('db, 'pk, 'n) connection_list \<Rightarrow> ('db, 'pk, 'n) connection_list" where
  "handle_get_fd eid l = l\<lparr>cl_connections := (cl_connections l)(eid_socket_id eid := None)\<rparr>"

definition handle_close :: "event_id \<Rightarrow> ('db, 'pk, 'n) connection_list \<Rightarrow> ('db, 'pk, 'n) connection_list" where
  "handle_close eid l = l\<lparr>cl_connections := (cl_connections l)(eid_socket_id eid := None)\<rparr>"

text \<open>One round of the match in \<^verbatim>\<open>run\<close>.\<close>

fun handle_event ::
    "('db, 'k, 'pk, 'n) loop_env \<Rightarrow> sniffer_event \<Rightarrow> ('db, 'pk, 'n) connection_list
     \<Rightarrow> panic + ('db, 'pk, 'n) connection_list" where
  "handle_event env (Ev_Bind eid address) l =
     and_then (handle_bind (le_sys env) (sid_pid (eid_socket_id eid)) (sa_port address) (cl_system l))
       (\<lambda>(r, sy). Inr (l\<lparr>cl_system := sy\<rparr>))"
| "handle_event env (Ev_Listen eid) l = Inr l"
| "handle_event env (Ev_Connect eid address) l = Inr (handle_connection env eid address False l)"
| "handle_event env (Ev_Accept eid listen_on_fd address) l = Inr (handle_connection env eid address True l)"
| "handle_event env (Ev_Data eid data net incoming) l =
     (if data \<noteq> [] then handle_data env eid data net incoming l else Inr l)"
| "handle_event env (Ev_Close eid) l = Inr (handle_close eid l)"
| "handle_event env (Ev_GetFd eid) l = Inr (handle_get_fd eid l)"
| "handle_event env (Ev_Debug eid msg) l = Inr l"

fun handle_events ::
    "('db, 'k, 'pk, 'n) loop_env \<Rightarrow> sniffer_event list \<Rightarrow> ('db, 'pk, 'n) connection_list
     \<Rightarrow> panic + ('db, 'pk, 'n) connection_list" where
  "handle_events env [] l = Inr l"
| "handle_events env (e # es) l = and_then (handle_event env e l) (handle_events env es)"

text \<open>
  What \<^verbatim>\<open>read_blocking\<close> finds until the loop is told to stop: the records of a batch, or an error that
  ends it. It decodes all of them before the loop sees the first event; what does not decode is logged.
\<close>

fun decode_records :: "(bytes \<Rightarrow> panic + 'e + 'd) \<Rightarrow> bytes list \<Rightarrow> panic + 'd list" where
  "decode_records parse [] = Inr []"
| "decode_records parse (r # rs) =
     and_then (parse r) (\<lambda>x. and_then (decode_records parse rs) (\<lambda>ds.
     Inr (case x of Inl e \<Rightarrow> ds | Inr d \<Rightarrow> d # ds)))"

abbreviation event_of :: "('db, 'k, 'pk, 'n) loop_env \<Rightarrow> bytes \<Rightarrow> panic + sniffer_error + sniffer_event" where
  "event_of env \<equiv> from_rb_slice (le_layout env) (le_hex env)"

fun run_loop ::
    "('db, 'k, 'pk, 'n) loop_env \<Rightarrow> (unit + bytes list) list \<Rightarrow> ('db, 'pk, 'n) connection_list
     \<Rightarrow> panic + (unit + unit) \<times> ('db, 'pk, 'n) connection_list" where
  "run_loop env [] l = Inr (Inr (), l)"
| "run_loop env (Inl e # bs) l = Inr (Inl e, l)"
| "run_loop env (Inr records # bs) l =
     and_then (decode_records (event_of env) records) (\<lambda>events.
     and_then (handle_events env events l) (run_loop env bs))"

definition run ::
    "('db, 'k, 'pk, 'n) loop_env \<Rightarrow> (unit + bytes list) list \<Rightarrow> 'db system
     \<Rightarrow> panic + (unit + unit) \<times> ('db, 'pk, 'n) connection_list" where
  "run env batches sy =
     (if \<not> le_client env then Inr (Inl (), connection_list_new sy)
      else let (ok, l) = watching env (connection_list_new sy) in
           if ok then run_loop env batches l else Inr (Inl (), l))"

section \<open>The events of one socket\<close>

fun touches :: "socket_id \<Rightarrow> sniffer_event \<Rightarrow> bool" where
  "touches sid (Ev_Connect eid address) \<longleftrightarrow> eid_socket_id eid = sid"
| "touches sid (Ev_Accept eid fd address) \<longleftrightarrow> eid_socket_id eid = sid"
| "touches sid (Ev_Close eid) \<longleftrightarrow> eid_socket_id eid = sid"
| "touches sid (Ev_GetFd eid) \<longleftrightarrow> eid_socket_id eid = sid"
| "touches sid _ \<longleftrightarrow> False"

fun data_of :: "socket_id \<Rightarrow> sniffer_event list \<Rightarrow> data_event list" where
  "data_of sid [] = []"
| "data_of sid (Ev_Data eid data net incoming # es) =
     (if eid_socket_id eid = sid \<and> data \<noteq> [] then [(data, net, incoming)] else []) @ data_of sid es"
| "data_of sid (e # es) = data_of sid es"

definition calls_of :: "socket_id \<Rightarrow> ('db, 'pk, 'n) connection_list \<Rightarrow> (socket_id \<times> 'db \<times> db_op) list" where
  "calls_of sid l = filter (\<lambda>c. fst c = sid) (cl_calls l)"

lemma data_of_nonempty: "list_all (\<lambda>ev. fst ev \<noteq> []) (data_of sid evs)"
  by (induction sid evs rule: data_of.induct) auto

text \<open>
  The events that may be handled: a bind is to a configured port, and by the process that owns the
  port (no process binds two watched ports).
\<close>

fun event_ok :: "(u32 \<Rightarrow> u16) \<Rightarrow> 'db system \<Rightarrow> sniffer_event \<Rightarrow> bool" where
  "event_ok own sy (Ev_Bind eid address) \<longleftrightarrow>
     configured (sa_port address) sy \<and> own (sid_pid (eid_socket_id eid)) = sa_port address"
| "event_ok own sy _ \<longleftrightarrow> True"

lemma event_ok_config: "sy_config sy = sy_config sy' \<Longrightarrow> event_ok own sy = event_ok own sy'"
proof
  show "event_ok own sy x = event_ok own sy' x" if "sy_config sy = sy_config sy'" for x
    using that by (cases x) (simp_all add: configured_def)
qed

definition recordable :: "('pk, 'n) connection \<Rightarrow> bool" where
  "recordable conn \<longleftrightarrow>
     (\<exists>ident dl dr ops. length (id_secret_key ident) = 32 \<and> conn_inv ident conn dl dr ops)"

definition list_inv :: "(u32 \<Rightarrow> u16) \<Rightarrow> ('db, 'pk, 'n) connection_list \<Rightarrow> bool" where
  "list_inv own l \<longleftrightarrow>
     system_inv (cl_system l) \<and>
     (\<forall>q pid. sy_port_to_pid (cl_system l) q = Some pid \<longrightarrow> own pid = q) \<and>
     (\<forall>sid conn db. cl_connections l sid = Some (conn, db) \<longrightarrow> recordable conn)"

lemma list_inv_new: "system_inv sy \<Longrightarrow> sy_port_to_pid sy = Map.empty \<Longrightarrow> list_inv own (connection_list_new sy)"
  by (simp add: list_inv_def connection_list_new_def)

lemma list_inv_system: "list_inv own l \<Longrightarrow> system_inv (cl_system l)"
  by (simp add: list_inv_def)

lemma list_inv_recordable: "list_inv own l \<Longrightarrow> cl_connections l sid = Some (conn, db) \<Longrightarrow> recordable conn"
  unfolding list_inv_def by blast

lemma list_inv_update:
  "list_inv own l \<Longrightarrow> recordable conn \<Longrightarrow>
   list_inv own (l\<lparr>cl_connections := (cl_connections l)(sid \<mapsto> (conn, db)), cl_calls := cs\<rparr>)"
  by (simp add: list_inv_def)

lemma list_inv_remove:
  "list_inv own l \<Longrightarrow> list_inv own (l\<lparr>cl_connections := (cl_connections l)(sid := None)\<rparr>)"
  by (simp add: list_inv_def)

lemma get_mut_secret:
  "system_inv sy \<Longrightarrow> get_mut pid sy = Some (info, db) \<Longrightarrow> length (id_secret_key (ni_identity info)) = 32"
  by (auto simp: get_mut_def system_inv_def split: option.splits)

lemma recordable_open:
  "length (id_secret_key ident) = 32 \<Longrightarrow> recordable (connection_open nanos addr incoming ident)"
  unfolding recordable_def using conn_inv_open by blast

lemma recordable_step:
  assumes "crypto_total cr" "recordable conn" "payload \<noteq> []"
  shows "\<exists>conn' ops. connection_handle_data cr clk conn payload net incoming [] = Inr (conn', ops) \<and>
    recordable conn' \<and> connection_key_of (cx_item conn') = connection_key_of (cx_item conn)"
proof -
  obtain ident dl dr ops where inv: "length (id_secret_key ident) = 32" "conn_inv ident conn dl dr ops"
    using assms(2) by (auto simp: recordable_def)
  obtain conn' ops' where s: "connection_handle_data cr clk conn payload net incoming ops = Inr (conn', ops')"
      "connection_key_of (cx_item conn') = connection_key_of (cx_item conn)"
      "conn_inv ident conn' (if incoming then dl else dl @ payload)
        (if incoming then dr @ payload else dr) ops'"
    using connection_step [OF assms(1) inv(1) assms(3) inv(2), of clk net incoming] by blast
  have "recordable conn'" using inv(1) s(3) unfolding recordable_def by blast
  with s show ?thesis
    using connection_handle_data_calls [of cr clk conn payload net incoming ops "[]"]
    by (cases "connection_handle_data cr clk conn payload net incoming []") (auto simp: map_ok_def)
qed

lemma handle_connection_inv:
  assumes "list_inv own l"
  shows "list_inv own (handle_connection env eid address incoming l)"
proof -
  have "system_inv (cl_system l)" using assms by (simp add: list_inv_def)
  then show ?thesis
    using assms
    by (auto simp: handle_connection_def send_command_def list_inv_def Let_def split: option.splits
        intro: recordable_open get_mut_secret)
qed

lemma handle_connection_frame:
  "cl_system (handle_connection env eid address incoming l) = cl_system l"
  "cl_calls (handle_connection env eid address incoming l) = cl_calls l"
  "eid_socket_id eid \<noteq> sid \<Longrightarrow>
   cl_connections (handle_connection env eid address incoming l) sid = cl_connections l sid"
  by (auto simp: handle_connection_def send_command_def Let_def split: option.splits)

lemma handle_data_step:
  assumes "crypto_total (le_crypto env)" "list_inv own l" "payload \<noteq> []"
  shows "\<exists>l'. handle_data env eid payload net incoming l = Inr l' \<and> list_inv own l' \<and>
    cl_system l' = cl_system l"
proof (cases "cl_connections l (eid_socket_id eid)")
  case None
  then show ?thesis using assms(2) by (simp add: handle_data_def Let_def)
next
  case (Some cd)
  obtain conn db where cd: "cd = (conn, db)" by (cases cd)
  let ?clk = "le_clock env (eid_socket_id eid) (connection_key_of (cx_item conn))"
  obtain conn' ops where "connection_handle_data (le_crypto env) ?clk conn payload net incoming [] = Inr (conn', ops)"
      "recordable conn'"
    using recordable_step [OF assms(1) list_inv_recordable [OF assms(2) Some [unfolded cd]] assms(3)] by blast
  with Some cd show ?thesis
    using list_inv_update [OF assms(2)] by (simp add: handle_data_def Let_def)
qed

lemma handle_event_step:
  assumes "crypto_total (le_crypto env)" "list_inv own l" "event_ok own (cl_system l) e"
  shows "\<exists>l'. handle_event env e l = Inr l' \<and> list_inv own l' \<and>
    sy_config (cl_system l') = sy_config (cl_system l)"
proof (cases e)
  case (Ev_Bind eid address)
  let ?pid = "sid_pid (eid_socket_id eid)" and ?port = "sa_port address"
  have o: "system_inv (cl_system l)" "configured ?port (cl_system l)"
      "\<And>q. sy_port_to_pid (cl_system l) q = Some ?pid \<Longrightarrow> q = ?port" "own ?pid = ?port"
    using assms Ev_Bind by (auto simp: list_inv_def)
  obtain r sy where b: "handle_bind (le_sys env) ?pid ?port (cl_system l) = Inr (r, sy)"
      "system_inv sy" "sy_config sy = sy_config (cl_system l)"
      "\<forall>q. sy_port_to_pid sy q =
         (if q = ?port \<and> isl r = False then Some ?pid else sy_port_to_pid (cl_system l) q)"
    using handle_bind_step [OF o(1,2,3), where env = "le_sys env"] by blast
  have "list_inv own (l\<lparr>cl_system := sy\<rparr>)"
    using assms(2) b(2,4) o(4) by (auto simp: list_inv_def split: if_splits)
  then show ?thesis using Ev_Bind b(1,3) by simp
next
  case (Ev_Data eid payload net incoming)
  then show ?thesis using handle_data_step [OF assms(1,2), of payload eid net incoming] assms(2) by auto
qed (use assms(2) in \<open>simp_all add: handle_connection_inv handle_connection_frame handle_close_def
    handle_get_fd_def list_inv_remove\<close>)

lemma handle_events_step:
  assumes "crypto_total (le_crypto env)" "list_inv own l" "list_all (event_ok own (cl_system l)) es"
  shows "\<exists>l'. handle_events env es l = Inr l' \<and> list_inv own l' \<and>
    sy_config (cl_system l') = sy_config (cl_system l)"
  using assms(2,3)
proof (induction es arbitrary: l)
  case (Cons e es)
  obtain l1 where 1: "handle_event env e l = Inr l1" "list_inv own l1"
      "sy_config (cl_system l1) = sy_config (cl_system l)"
    using handle_event_step [OF assms(1) Cons.prems(1)] Cons.prems(2) by auto
  have "list_all (event_ok own (cl_system l1)) es" using Cons.prems(2) event_ok_config [OF 1(3)] by simp
  from Cons.IH [OF 1(2) this] show ?case using 1 by auto
qed simp

section \<open>Sockets do not interfere\<close>

lemma connection_run_calls:
  "connection_run cr clk evs conn (pre @ ops) =
   map_ok (\<lambda>(conn', ops'). (conn', pre @ ops')) (connection_run cr clk evs conn ops)"
proof (induction evs arbitrary: conn ops)
  case (Cons ev evs)
  obtain payload net incoming where ev: "ev = (payload, net, incoming)" by (cases ev)
  show ?case
    by (cases "connection_handle_data cr clk conn payload net incoming ops")
      (auto simp: ev connection_handle_data_calls map_ok_def Cons.IH)
qed (simp add: map_ok_def)

text \<open>The part of the list that belongs to socket \<open>sid\<close>, seen from an earlier list \<open>l\<close>.\<close>

definition follows ::
    "socket_id \<Rightarrow> ('db, 'pk, 'n) connection_list \<Rightarrow> ('db, 'pk, 'n) connection_list
     \<Rightarrow> ('pk, 'n) connection \<Rightarrow> 'db \<Rightarrow> db_op list \<Rightarrow> bool" where
  "follows sid l l' conn db ops \<longleftrightarrow>
     cl_connections l' sid = Some (conn, db) \<and>
     calls_of sid l' = calls_of sid l @ map (\<lambda>op. (sid, db, op)) ops"

lemma event_other:
  assumes "handle_event env e l = Inr l'" "\<not> touches sid e" "data_of sid [e] = []"
  shows "cl_connections l' sid = cl_connections l sid \<and> calls_of sid l' = calls_of sid l"
proof (cases e)
  case (Ev_Data eid payload net incoming)
  have other: "filter (\<lambda>c. fst c = sid) (map (\<lambda>op. (eid_socket_id eid, db, op)) ops) = []"
    if "eid_socket_id eid \<noteq> sid" for db :: 'a and ops using that by (induction ops) simp_all
  show ?thesis
    using assms Ev_Data other
    by (auto simp: handle_data_def calls_of_def Let_def and_then_Inr_iff split: if_splits option.splits)
qed (use assms in \<open>auto simp: handle_connection_frame handle_close_def handle_get_fd_def calls_of_def
    and_then_Inr_iff\<close>)

lemma event_data:
  assumes "handle_event env (Ev_Data eid payload net incoming) l = Inr l'" "payload \<noteq> []"
    and "cl_connections l (eid_socket_id eid) = Some (conn, db)"
  shows "\<exists>conn' ops. connection_handle_data (le_crypto env)
      (le_clock env (eid_socket_id eid) (connection_key_of (cx_item conn))) conn payload net incoming [] =
        Inr (conn', ops) \<and> follows (eid_socket_id eid) l l' conn' db ops"
proof -
  have all: "filter (\<lambda>c. fst c = sid) (map (\<lambda>op. (sid, db, op)) ops) = map (\<lambda>op. (sid, db, op)) ops" for sid ops
    by (induction ops) simp_all
  show ?thesis
    using assms by (auto simp: handle_data_def and_then_Inr_iff follows_def calls_of_def all Let_def)
qed

lemma data_of_single: "data_of sid (e # es) = data_of sid [e] @ data_of sid es"
  by (cases e) auto

lemma data_of_cases:
  obtains "data_of sid [e] = []"
  | eid payload net incoming where "e = Ev_Data eid payload net incoming" "eid_socket_id eid = sid"
      "payload \<noteq> []" "data_of sid [e] = [(payload, net, incoming)]"
  by (cases "data_of sid [e] = []"; cases e) (auto split: if_splits)

lemma events_project:
  assumes "crypto_total (le_crypto env)" "list_inv own l" "list_all (event_ok own (cl_system l)) es"
    and "list_all (\<lambda>e. \<not> touches sid e) es" "cl_connections l sid = Some (conn, db)"
  shows "\<exists>l' conn' ops. handle_events env es l = Inr l' \<and>
    connection_run (le_crypto env) (le_clock env sid (connection_key_of (cx_item conn)))
      (data_of sid es) conn [] = Inr (conn', ops) \<and> follows sid l l' conn' db ops"
  using assms(2-5)
proof (induction es arbitrary: l conn)
  case Nil
  then show ?case by (simp add: follows_def)
next
  case (Cons e es)
  obtain l1 where l1: "handle_event env e l = Inr l1" "list_inv own l1"
      "sy_config (cl_system l1) = sy_config (cl_system l)"
    using handle_event_step [OF assms(1) Cons.prems(1)] Cons.prems(2) by auto
  have rest: "list_all (event_ok own (cl_system l1)) es" "list_all (\<lambda>e. \<not> touches sid e) es"
      "\<not> touches sid e"
    using Cons.prems(2,3) event_ok_config [OF l1(3)] by simp_all
  show ?case
  proof (cases sid e rule: data_of_cases)
    case 1
    note o = event_other [OF l1(1) rest(3) 1]
    have "cl_connections l1 sid = Some (conn, db)" using o Cons.prems(4) by simp
    from Cons.IH [OF l1(2) rest(1,2) this] show ?thesis
      using l1(1) o 1 by (simp add: data_of_single [of sid e es] follows_def)
  next
    case (2 eid payload net incoming)
    let ?clk = "le_clock env sid (connection_key_of (cx_item conn))"
    obtain conn1 ops1 where c1: "connection_handle_data (le_crypto env) ?clk conn payload net incoming [] =
        Inr (conn1, ops1)" "follows sid l l1 conn1 db ops1"
      using event_data [of env eid payload net incoming l l1 conn db] l1(1) 2(1-3) Cons.prems(4) by blast
    have key: "connection_key_of (cx_item conn1) = connection_key_of (cx_item conn)"
      using recordable_step [OF assms(1) list_inv_recordable [OF Cons.prems(1,4)] 2(3), of ?clk net incoming]
        c1(1) by auto
    have "cl_connections l1 sid = Some (conn1, db)" using c1(2) by (simp add: follows_def)
    from Cons.IH [OF l1(2) rest(1,2) this] obtain l' conn' ops where r:
        "handle_events env es l1 = Inr l'"
        "connection_run (le_crypto env) ?clk (data_of sid es) conn1 [] = Inr (conn', ops)"
        "follows sid l1 l' conn' db ops"
      unfolding key by blast
    have "connection_run (le_crypto env) ?clk (data_of sid (e # es)) conn [] = Inr (conn', ops1 @ ops)"
      using connection_run_calls [of "le_crypto env" ?clk "data_of sid es" conn1 ops1 "[]"] c1(1) r(2)
      by (simp add: data_of_single [of sid e es] 2(4) map_ok_def)
    moreover have "follows sid l l' conn' db (ops1 @ ops)"
      using c1(2) r(3) by (simp add: follows_def)
    ultimately show ?thesis using l1(1) r(1) by auto
  qed
qed

section \<open>Properties\<close>

definition opens :: "sniffer_event \<Rightarrow> (event_id \<times> socket_addr \<times> bool) option" where
  "opens e =
     (case e of
        Ev_Connect eid address \<Rightarrow> Some (eid, address, False)
      | Ev_Accept eid fd address \<Rightarrow> Some (eid, address, True)
      | _ \<Rightarrow> None)"

lemma handle_event_opens:
  assumes "opens e = Some (eid, address, incoming)" "\<not> should_ignore (cl_system l) address"
    and "get_mut (sid_pid (eid_socket_id eid)) (cl_system l) = Some (info, db)"
  shows "\<exists>l1. handle_event env e l = Inr l1 \<and>
    follows (eid_socket_id eid) l l1
      (connection_open (le_nanos env eid) address incoming (ni_identity info)) db []"
  using assms
  by (cases e) (auto simp: opens_def handle_connection_def follows_def calls_of_def Let_def)

text \<open>
  C1: A connection is recorded among all the others. Start from a list of connections in which
  every process owns at most one port, and let a connection of an attached process be opened by a
  connect or accept event on socket \<open>sid\<close>, to an address that is not to be ignored. Whatever events
  follow, of this and of other sockets and processes, in any order, as long as \<open>sid\<close> is not
  opened again or closed and binds are to configured ports by their owners: the loop does not panic, and
  unless the connection was marked uncertain, the calls that were made for \<open>sid\<close> on the database of
  its node since then record, in each direction, exactly the bytes of the data events of \<open>sid\<close>, up to
  those still in the buffer (and but for the one chunk noted as impossible to decrypt).
\<close>

theorem session_recorded:
  fixes env :: "('db, 'k, 'pk, 'n) loop_env"
  assumes "crypto_total (le_crypto env)" and "list_inv own l"
    and "list_all (event_ok own (cl_system l)) es" and "list_all (\<lambda>e. \<not> touches sid e) es"
    and "opens e = Some (eid, address, incoming)" and "eid_socket_id eid = sid"
    and "\<not> should_ignore (cl_system l) address"
    and "get_mut (sid_pid sid) (cl_system l) = Some (info, db)"
  shows "\<exists>l' conn ops. handle_events env (e # es) l = Inr l' \<and>
    cl_connections l' sid = Some (conn, db) \<and>
    calls_of sid l' = calls_of sid l @ map (\<lambda>op. (sid, db, op)) ops \<and>
    (\<not> is_uncertain (cx_item conn) \<longrightarrow>
      (\<forall>s. \<exists>cs. concat cs @ buffered s conn = fed s (data_of sid es) \<and>
        recorded_as s (cx_item conn) cs ops))"
proof -
  let ?ident = "ni_identity info"
  let ?new = "connection_open (le_nanos env eid) address incoming ?ident :: ('pk, 'n) connection"
  let ?clk = "le_clock env sid (connection_key_of (cx_item ?new))"
  have secret: "length (id_secret_key ?ident) = 32"
    using get_mut_secret [OF list_inv_system [OF assms(2)] assms(8)] .
  have e: "event_ok own (cl_system l) e" using assms(5) by (cases e) (simp_all add: opens_def)
  obtain l1 where 1: "handle_event env e l = Inr l1" "follows sid l l1 ?new db []"
    using handle_event_opens [OF assms(5,7), of info db env] assms(6,8) by blast
  have 2: "list_inv own l1" "sy_config (cl_system l1) = sy_config (cl_system l)"
    using handle_event_step [OF assms(1,2) e] 1(1) by auto
  have "list_all (event_ok own (cl_system l1)) es" "cl_connections l1 sid = Some (?new, db)"
    using assms(3) event_ok_config [OF 2(2)] 1(2) by (simp_all add: follows_def)
  from events_project [OF assms(1) 2(1) this(1) assms(4) this(2)]
  obtain l' conn ops where r: "handle_events env es l1 = Inr l'"
      "connection_run (le_crypto env) ?clk (data_of sid es) ?new [] = Inr (conn, ops)"
      "follows sid l1 l' conn db ops" by blast
  have inv: "conn_inv ?ident conn (fed False (data_of sid es)) (fed True (data_of sid es)) ops"
    using connection_run_inv [OF assms(1) secret data_of_nonempty conn_inv_open, of ?clk sid es
        "le_nanos env eid" address incoming] r(2) by auto
  have "\<exists>cs. concat cs @ buffered s conn = fed s (data_of sid es) \<and> recorded_as s (cx_item conn) cs ops"
    if "\<not> is_uncertain (cx_item conn)" for s
    using conn_inv_recorded [OF inv that, of s] by (cases s) simp_all
  then show ?thesis using 1 r(1,3) by (auto simp: follows_def)
qed

lemma watching_ports_frame:
  "watching_ports env cs l = (ok, l') \<Longrightarrow> cl_system l' = cl_system l \<and>
   cl_connections l' = cl_connections l \<and> cl_calls l' = cl_calls l \<and>
   (ok \<longrightarrow> cl_sent l' = cl_sent l @ map (\<lambda>c. (WatchPort (p2p_port c), True)) cs)"
  by (induction env cs l rule: watching_ports.induct)
    (auto simp: send_command_def Let_def split: if_splits)

text \<open>
  What the sniffer reports: records of the kernel, in which every address has its room, and of which those that are binds are to
  configured ports, each process to one.
\<close>

definition record_ok :: "(u32 \<Rightarrow> u16) \<Rightarrow> ('db, 'k, 'pk, 'n) loop_env \<Rightarrow> 'db system \<Rightarrow> bytes \<Rightarrow> bool" where
  "record_ok own env sy r \<longleftrightarrow>
     kernel_record (le_layout env) r \<and> (\<forall>ev. event_of env r = Inr (Inr ev) \<longrightarrow> event_ok own sy ev)"

definition batch_ok :: "(u32 \<Rightarrow> u16) \<Rightarrow> ('db, 'k, 'pk, 'n) loop_env \<Rightarrow> 'db system \<Rightarrow> unit + bytes list \<Rightarrow> bool" where
  "batch_ok own env sy b \<longleftrightarrow> (case b of Inl _ \<Rightarrow> True | Inr rs \<Rightarrow> list_all (record_ok own env sy) rs)"

lemma batch_ok_config:
  assumes "sy_config sy' = sy_config sy"
  shows "batch_ok own env sy' = batch_ok own env sy"
proof
  fix b
  from assms have "event_ok own sy' = event_ok own sy" by (rule event_ok_config)
  then have "record_ok own env sy' = record_ok own env sy" by (simp add: record_ok_def fun_eq_iff)
  then show "batch_ok own env sy' b = batch_ok own env sy b" by (cases b) (simp_all add: batch_ok_def)
qed

lemma decode_records_ok:
  assumes "layout_laws (le_layout env)" "list_all (record_ok own env sy) rs"
  shows "\<exists>es. decode_records (event_of env) rs = Inr es \<and> list_all (event_ok own sy) es"
  using assms(2)
proof (induction rs)
  case (Cons r rs)
  then obtain es where es: "decode_records (event_of env) rs = Inr es" "list_all (event_ok own sy) es" by auto
  obtain x where "event_of env r = Inr x" using Cons.prems kernel_record_decodes [OF assms(1), of r "le_hex env"] by (auto simp: record_ok_def)
  then show ?case using es Cons.prems by (cases x) (auto simp: record_ok_def)
qed simp

lemma run_loop_step:
  assumes "crypto_total (le_crypto env)" "layout_laws (le_layout env)" "list_inv own l" "list_all (batch_ok own env (cl_system l)) bs"
  shows "\<exists>r l'. run_loop env bs l = Inr (r, l') \<and> list_inv own l'"
  using assms(3,4)
proof (induction bs arbitrary: l)
  case (Cons b bs)
  show ?case
  proof (cases b)
    case (Inr rs)
    obtain es where es: "decode_records (event_of env) rs = Inr es" "list_all (event_ok own (cl_system l)) es"
      using decode_records_ok [OF assms(2), of own "cl_system l" rs] Cons.prems(2) Inr by (auto simp: batch_ok_def)
    obtain l1 where 1: "handle_events env es l = Inr l1" "list_inv own l1"
        "sy_config (cl_system l1) = sy_config (cl_system l)"
      using handle_events_step [OF assms(1) Cons.prems(1) es(2)] by auto
    have "list_all (batch_ok own env (cl_system l1)) bs"
      using Cons.prems(2) unfolding batch_ok_config [OF 1(3)] by simp
    from Cons.IH [OF 1(2) this] show ?thesis using 1(1) es(1) Inr by simp
  qed (use Cons.prems(1) in simp)
qed simp

text \<open>
  The loop does not panic. Started on a system to which no process is attached yet, it
  ends with a result for every sequence of batches of such records; it keeps the invariant of the list, and if it
  got to the first batch then it has told the sniffer to watch every configured port, in order.
\<close>

theorem run_never_panics:
  fixes env :: "('db, 'k, 'pk, 'n) loop_env"
  assumes "crypto_total (le_crypto env)" and "layout_laws (le_layout env)" and "system_inv sy" and "sy_port_to_pid sy = Map.empty"
    and "list_all (batch_ok own env sy) batches"
  shows "\<exists>r l. run env batches sy = Inr (r, l) \<and> list_inv own l \<and>
    (le_client env \<and> fst (watching env (connection_list_new sy :: ('db, 'pk, 'n) connection_list)) \<longrightarrow>
      cl_sent (snd (watching env (connection_list_new sy :: ('db, 'pk, 'n) connection_list))) =
        map (\<lambda>c. (WatchPort (p2p_port c), True)) (p2p_configs sy))"
proof -
  let ?l = "connection_list_new sy :: ('db, 'pk, 'n) connection_list"
  obtain ok l where w: "watching env ?l = (ok, l)" by (cases "watching env ?l")
  note f = watching_ports_frame [OF w [unfolded watching_def]]
  have l: "list_inv own l" "cl_system l = sy"
    using list_inv_new [OF assms(3,4), of own] f by (auto simp: list_inv_def connection_list_new_def)
  have "\<exists>r l'. run env batches sy = Inr (r, l') \<and> list_inv own l'"
    using run_loop_step [OF assms(1,2) l(1), of batches] assms(5) l w list_inv_new [OF assms(3,4), of own]
    by (auto simp: run_def)
  then show ?thesis using f w by (auto simp: connection_list_new_def)
qed

section \<open>Concrete instances\<close>

definition sample_loop_env :: "(string, bytes, bytes, nat) loop_env" where
  "sample_loop_env =
     \<lparr>le_sys = sample_sys_env, le_crypto = sample_crypto, le_nanos = (\<lambda>eid. 1617005682953928051),
      le_clock = (\<lambda>sid key. sample_clock), le_client = True, le_send = (\<lambda>n. True), le_layout = sample_layout, le_hex = (\<lambda>b. '''')\<rparr>"

definition sample_attached :: "string system" where
  "sample_attached =
     sample_system\<lparr>sy_port_to_pid := [9732 \<mapsto> 77],
       sy_node_info := [77 \<mapsto> \<lparr>ni_identity = sample_identity, ni_name = ''tezedge''\<rparr>]\<rparr>"

definition sample_event_id :: "u32 \<Rightarrow> event_id" where
  "sample_event_id fd = \<lparr>eid_socket_id = \<lparr>sid_pid = 77, sid_fd = fd\<rparr>, eid_ts = 1\<rparr>"

definition sample_events :: "sniffer_event list" where
  "sample_events =
     [Ev_Data (sample_event_id 5) [0, 1, 7] True True,
      Ev_Connect (sample_event_id 6) sample_addr,
      Ev_Data (sample_event_id 6) [9] True False,
      Ev_Bind (sample_event_id 3) \<lparr>sa_ip = Ip_V4 [0, 0, 0, 0], sa_port = 9732\<rparr>,
      Ev_Data (sample_event_id 5) [0, 2, 8] True False,
      Ev_Close (sample_event_id 6)]"

lemma sample_loop_crypto: "crypto_total (le_crypto sample_loop_env)"
  by (simp add: sample_loop_env_def crypto_total_sample)

lemma sample_loop_layout: "layout_laws (le_layout sample_loop_env)"
  by (simp add: sample_loop_env_def layout_laws_sample)

lemma sample_attached_inv:
  "list_inv (\<lambda>pid. 9732) (connection_list_new sample_attached :: (string, bytes, nat) connection_list)"
  by (simp add: list_inv_def connection_list_new_def sample_attached_def system_inv_def sample_identity_def)

lemma sample_attached_config: "sy_config sample_attached = sample_config"
  "sy_node_dbs sample_attached = [''tezedge'' \<mapsto> ''/tmp/db'']"
  by (simp_all add: sample_attached_def sample_system_def run_dbs_def system_new_def sample_config_def
      sample_sys_env_def open_spawn_def bind_option_def get_or_def)

lemma sample_attached_info:
  "sy_node_info sample_attached 77 = Some \<lparr>ni_identity = sample_identity, ni_name = ''tezedge''\<rparr>"
  by (simp add: sample_attached_def)

lemma sample_events_ok:
  "sy_config sy = sample_config \<Longrightarrow> list_all (event_ok (\<lambda>pid. 9732) sy) sample_events"
  by (simp add: sample_events_def configured_def sample_config_def)

theorem session_recorded_witness:
  "\<exists>l' conn ops. handle_events sample_loop_env
      (Ev_Accept (sample_event_id 5) 3 sample_addr # sample_events)
      (connection_list_new sample_attached) = Inr l' \<and>
    cl_connections l' \<lparr>sid_pid = 77, sid_fd = 5\<rparr> = Some (conn, ''/tmp/db'') \<and>
    calls_of \<lparr>sid_pid = 77, sid_fd = 5\<rparr> l' =
      calls_of \<lparr>sid_pid = 77, sid_fd = 5\<rparr>
        (connection_list_new sample_attached :: (string, bytes, nat) connection_list) @
      map (\<lambda>op. (\<lparr>sid_pid = 77, sid_fd = 5\<rparr>, ''/tmp/db'', op)) ops \<and>
    (\<not> is_uncertain (cx_item conn) \<longrightarrow>
      (\<forall>s. \<exists>cs. concat cs @ buffered s conn = fed s (data_of \<lparr>sid_pid = 77, sid_fd = 5\<rparr> sample_events) \<and>
        recorded_as s (cx_item conn) cs ops))"
proof (rule session_recorded [OF sample_loop_crypto sample_attached_inv])
  show "list_all (event_ok (\<lambda>pid. 9732) (cl_system (connection_list_new sample_attached))) sample_events"
    by (simp add: sample_events_ok connection_list_new_def sample_attached_config)
  show "list_all (\<lambda>e. \<not> touches \<lparr>sid_pid = 77, sid_fd = 5\<rparr> e) sample_events"
    by (simp add: sample_events_def sample_event_id_def)
  show "opens (Ev_Accept (sample_event_id 5) 3 sample_addr) = Some (sample_event_id 5, sample_addr, True)"
    by (simp add: opens_def)
  show "eid_socket_id (sample_event_id 5) = \<lparr>sid_pid = 77, sid_fd = 5\<rparr>"
    by (simp add: sample_event_id_def)
  show "\<not> should_ignore (cl_system (connection_list_new sample_attached)) sample_addr"
    by (simp add: should_ignore_def connection_list_new_def sample_attached_config sample_config_def
        sample_addr_def)
  show "get_mut (sid_pid \<lparr>sid_pid = 77, sid_fd = 5\<rparr>) (cl_system (connection_list_new sample_attached)) =
      Some (\<lparr>ni_identity = sample_identity, ni_name = ''tezedge''\<rparr>, ''/tmp/db'')"
    by (simp add: get_mut_def connection_list_new_def sample_attached_config sample_attached_info)
qed

text \<open>The records of a bind and of received data.\<close>

definition sample_records :: "bytes list" where
  "sample_records =
     [descriptor_write sample_layout \<lparr>dd_id = sample_event_id 3, dd_tag = Tag_Bind, dd_size = 28\<rparr> @ [2, 0, 0x26, 0x04] @ replicate 24 0,
      descriptor_write sample_layout \<lparr>dd_id = sample_event_id 5, dd_tag = Tag_Recv, dd_size = 3\<rparr> @ [0, 1, 7]]"

lemma sample_records_ok:
  assumes "sy_config sy = sample_config"
  shows "list_all (batch_ok (\<lambda>pid. 9732) sample_loop_env sy) [Inr sample_records, Inl ()]"
proof -
  have l: "le_layout sample_loop_env = sample_layout" by (simp add: sample_loop_env_def)
  have "list_all (kernel_record sample_layout) sample_records"
    unfolding sample_records_def list.pred_inject kernel_record_def by (intro conjI exI TrueI) (rule refl, simp, rule refl, simp_all)
  moreover have "event_ok (\<lambda>pid. 9732) sy ev"
    if "r \<in> set sample_records" "from_rb_slice sample_layout (le_hex sample_loop_env) r = Inr (Inr ev)" for r ev
    using that assms
    by (auto simp: sample_records_def from_rb_slice_write [OF layout_laws_sample] parse_socket_address_def slice_def sub_def
        from_le_bytes_def from_be_bytes_def map_err_def data_event_def error_data_def error_code_def configured_def sample_config_def)
  ultimately show ?thesis by (simp add: batch_ok_def record_ok_def list_all_iff l)
qed

theorem run_never_panics_witness:
  "\<exists>r l. run sample_loop_env [Inr sample_records, Inl ()] sample_system = Inr (r, l) \<and>
    list_inv (\<lambda>pid. 9732) l \<and>
    (le_client sample_loop_env \<and>
      fst (watching sample_loop_env (connection_list_new sample_system :: (string, bytes, nat) connection_list)) \<longrightarrow>
      cl_sent (snd (watching sample_loop_env
        (connection_list_new sample_system :: (string, bytes, nat) connection_list))) =
        map (\<lambda>c. (WatchPort (p2p_port c), True)) (p2p_configs sample_system))"
proof (rule run_never_panics [OF sample_loop_crypto sample_loop_layout sample_system_inv(1)])
  show "sy_port_to_pid sample_system = Map.empty" using sample_system_inv(3) by fast
  have "sy_config sample_system = sample_config"
    using sample_attached_config(1) by (simp add: sample_attached_def)
  then show "list_all (batch_ok (\<lambda>pid. 9732) sample_loop_env sample_system) [Inr sample_records, Inl ()]"
    by (rule sample_records_ok)
qed

end
