(* ===== verification/Sniffer_Kernel.thy ===== *)
theory Sniffer_Kernel
  imports Sniffer_Event
begin

text \<open>
  The bpf program of the recorder, \<^verbatim>\<open>bpf-recorder/src/{main,send,address,syscall_context}.rs\<close>: what it
  keeps of every watched process and what it submits to the ring buffer at the entry and the exit
  of the system calls, and the commands of the user side that change its maps.

  The kernel is a parameter, the record \<open>bpf_env\<close>: the process and thread, the clock, reads of
  memory (a code and the destination after the call), reservations in the ring buffer (by attempt
  and size), the content of a fresh reservation, and the result of an update of a map (\<open>None\<close>: done;
  \<open>Some code\<close>: refused, the map unchanged). The maps are keyed by bytes, as in the program.
\<close>

section \<open>System call contexts\<close>

datatype syscall_context_data =
    Ctx_Empty
  | Ctx_Bind u32 u64 u64
  | Ctx_Connect u32 u64 u64
  | Ctx_Accept u32 u64 u64
  | Ctx_Write u32 u64
  | Ctx_Read u32 u64
  | Ctx_Send u32 u64
  | Ctx_Recv u32 u64

record syscall_context =
  sc_data :: syscall_context_data
  sc_ts :: u64

fun context_tag :: "syscall_context_data \<Rightarrow> data_tag" where
  "context_tag Ctx_Empty = Tag_Close"
| "context_tag (Ctx_Bind _ _ _) = Tag_Bind"
| "context_tag (Ctx_Connect _ _ _) = Tag_Connect"
| "context_tag (Ctx_Accept _ _ _) = Tag_Accept"
| "context_tag (Ctx_Write _ _) = Tag_Write"
| "context_tag (Ctx_Read _ _) = Tag_Read"
| "context_tag (Ctx_Send _ _) = Tag_Send"
| "context_tag (Ctx_Recv _ _) = Tag_Recv"

text \<open>The head (code and descriptor) and the two words of a context.\<close>

fun context_fields :: "syscall_context_data \<Rightarrow> bytes \<times> u64 \<times> u64" where
  "context_fields Ctx_Empty = (replicate 8 0, 0, 0)"
| "context_fields (Ctx_Bind fd p l) = (to_ne_bytes (0x5 :: u32) @ to_ne_bytes fd, p, l)"
| "context_fields (Ctx_Connect fd p l) = (to_ne_bytes (0x6 :: u32) @ to_ne_bytes fd, p, l)"
| "context_fields (Ctx_Accept fd p l) = (to_ne_bytes (0x7 :: u32) @ to_ne_bytes fd, p, l)"
| "context_fields (Ctx_Write fd p) = (to_ne_bytes (0x8 :: u32) @ to_ne_bytes fd, p, 0)"
| "context_fields (Ctx_Read fd p) = (to_ne_bytes (0x9 :: u32) @ to_ne_bytes fd, p, 0)"
| "context_fields (Ctx_Send fd p) = (to_ne_bytes (0xa :: u32) @ to_ne_bytes fd, p, 0)"
| "context_fields (Ctx_Recv fd p) = (to_ne_bytes (0xb :: u32) @ to_ne_bytes fd, p, 0)"

definition context_to_ne_bytes :: "syscall_context \<Rightarrow> bytes" where
  "context_to_ne_bytes c =
     (let (head, p, q) = context_fields (sc_data c) in
      head @ to_ne_bytes p @ to_ne_bytes q @ to_ne_bytes (sc_ts c))"

definition context_from_ne_bytes :: "bytes \<Rightarrow> syscall_context" where
  "context_from_ne_bytes bs =
     (let code = (from_ne_bytes (sub bs 0 4) :: u32);
          fd = (from_ne_bytes (sub bs 0x4 0x8) :: u32);
          p = (from_ne_bytes (sub bs 0x8 0x10) :: u64);
          q = (from_ne_bytes (sub bs 0x10 0x18) :: u64);
          data = (if code = 0x5 then Ctx_Bind fd p q
                  else if code = 0x6 then Ctx_Connect fd p q
                  else if code = 0x7 then Ctx_Accept fd p q
                  else if code = 0x8 then Ctx_Write fd p
                  else if code = 0x9 then Ctx_Read fd p
                  else if code = 0xa then Ctx_Send fd p
                  else if code = 0xb then Ctx_Recv fd p
                  else Ctx_Empty)
      in \<lparr>sc_data = data, sc_ts = from_ne_bytes (sub bs 0x18 0x20)\<rparr>)"

section \<open>The environment and the state\<close>

datatype bpf_map = Map_Ports | Map_Processes | Map_Connections | Map_Contexts

record bpf_env =
  env_pid_tgid :: u64
  env_ktime :: u64
  env_read_user :: "u64 \<Rightarrow> nat \<Rightarrow> 64 word \<times> bytes"
  env_read_kernel :: "u64 \<Rightarrow> nat \<Rightarrow> 64 word \<times> bytes"
  env_reserve :: "nat \<Rightarrow> nat \<Rightarrow> bool"
  env_junk :: "nat \<Rightarrow> bytes"
  env_insert :: "bpf_map \<Rightarrow> bytes \<Rightarrow> 32 word option"
  env_remove :: "bpf_map \<Rightarrow> bytes \<Rightarrow> 32 word option"

record app =
  app_event_queue :: "bytes list"
  app_ports :: "bytes \<Rightarrow> bytes option"
  app_processes :: "bytes \<Rightarrow> bytes option"
  app_connections :: "bytes \<Rightarrow> bytes option"
  app_contexts :: "bytes \<Rightarrow> syscall_context option"

type_synonym app_result = "(32 word + unit) \<times> app"

definition env_pid :: "bpf_env \<Rightarrow> u32" where
  "env_pid env = ucast (drop_bit 32 (env_pid_tgid env))"

definition env_thread :: "bpf_env \<Rightarrow> u32" where
  "env_thread env = ucast (env_pid_tgid env)"

section \<open>Sending\<close>

definition queue_push :: "bytes option \<Rightarrow> app \<Rightarrow> app" where
  "queue_push r app =
     (case r of None \<Rightarrow> app | Some b \<Rightarrow> app\<lparr>app_event_queue := app_event_queue app @ [b]\<rparr>)"

text \<open>The record that is submitted, if any. \<open>k\<close>: read from kernel memory.\<close>

definition sized_record ::
    "bpf_env \<Rightarrow> event_id_layout \<Rightarrow> nat \<Rightarrow> bool \<Rightarrow> event_id \<Rightarrow> data_tag \<Rightarrow> u64 \<Rightarrow> nat \<Rightarrow> bytes option" where
  "sized_record env layout s k i tag data len =
     (if env_reserve env 0 (s + descriptor_size) then
        let to_copy = min s len;
            (result, copied) =
              (if to_copy > 0 then (if k then env_read_kernel env data to_copy
                                    else env_read_user env data to_copy)
               else (0, []));
            size = (if result = 0 then word_of_nat to_copy else ucast result)
        in Some (descriptor_write layout \<lparr>dd_id = i, dd_tag = tag, dd_size = size\<rparr>
                 @ copied @ env_junk env (s - to_copy))
      else if env_reserve env 1 descriptor_size then
        Some (descriptor_write layout \<lparr>dd_id = i, dd_tag = tag, dd_size = - 90\<rparr>)
      else None)"

definition sized_inner_record ::
    "bpf_env \<Rightarrow> event_id_layout \<Rightarrow> nat \<Rightarrow> bool \<Rightarrow> event_id \<Rightarrow> data_tag \<Rightarrow> u64 \<Rightarrow> nat \<Rightarrow> bytes option" where
  "sized_inner_record env layout s k i tag data len =
     sized_record env layout (s - descriptor_size) k i tag data len"

text \<open>
  The sizes that \<^verbatim>\<open>dyn_sized\<close> tries, in order: 148, then the powers of two from 8 to 27. A longer
  record is not sent.
\<close>

definition dyn_sizes :: "nat list" where
  "dyn_sizes = 148 # map (\<lambda>k. 2 ^ k) [8 ..< 28]"

definition dyn_sized_record ::
    "bpf_env \<Rightarrow> event_id_layout \<Rightarrow> bool \<Rightarrow> event_id \<Rightarrow> data_tag \<Rightarrow> u64 \<Rightarrow> nat \<Rightarrow> bytes option" where
  "dyn_sized_record env layout k i tag data len =
     (case find (\<lambda>s. len + descriptor_size \<le> s) dyn_sizes of
        None \<Rightarrow> None
      | Some s \<Rightarrow> sized_inner_record env layout s k i tag data len)"

section \<open>Addresses\<close>

record address =
  ad_sa_family :: u16
  ad_port :: u16

definition address_read :: "bpf_env \<Rightarrow> u64 \<Rightarrow> u64 \<Rightarrow> 32 word + address option" where
  "address_read env addr_ptr addr_len =
     (if addr_len < 4 then Inl (- 1)
      else let (c, header) = env_read_user env addr_ptr 4 in
        if sint c < 0 then Inl (ucast c)
        else let a = \<lparr>ad_sa_family = from_ne_bytes (sub header 0 2),
                      ad_port = from_be_bytes (sub header 2 4)\<rparr> in
          if ad_sa_family a \<noteq> 2 \<and> ad_sa_family a \<noteq> 10 then Inr None else Inr (Some a))"

section \<open>The program\<close>

definition push :: "bpf_env \<Rightarrow> app \<Rightarrow> u32 \<Rightarrow> u64 \<Rightarrow> syscall_context_data \<Rightarrow> app_result" where
  "push env app thread_id ts data =
     (let key = to_ne_bytes thread_id in
      case env_insert env Map_Contexts key of
        Some code \<Rightarrow> (Inl code, app)
      | None \<Rightarrow> (Inr (), app\<lparr>app_contexts := (app_contexts app)(key \<mapsto> \<lparr>sc_data = data, sc_ts = ts\<rparr>)\<rparr>))"

definition is_connected :: "app \<Rightarrow> socket_id \<Rightarrow> bool" where
  "is_connected app socket_id =
     (case app_connections app (socket_id_to_ne_bytes socket_id) of
        Some c \<Rightarrow> (let c = (from_ne_bytes c :: u32) in c = 1 \<or> c = 2)
      | None \<Rightarrow> False)"

definition is_process :: "app \<Rightarrow> u32 \<Rightarrow> bool" where
  "is_process app pid \<longleftrightarrow> app_processes app (to_ne_bytes pid) \<noteq> None"

definition is_interesting_port :: "app \<Rightarrow> u16 \<Rightarrow> bool" where
  "is_interesting_port app port \<longleftrightarrow> app_ports app (to_ne_bytes port) \<noteq> None"

definition reg_process :: "bpf_env \<Rightarrow> app \<Rightarrow> u32 \<Rightarrow> u16 \<Rightarrow> app_result" where
  "reg_process env app pid port =
     (case env_insert env Map_Processes (to_ne_bytes pid) of
        Some code \<Rightarrow> (Inl code, app)
      | None \<Rightarrow> (Inr (), app\<lparr>app_processes := (app_processes app)(to_ne_bytes pid \<mapsto> to_ne_bytes port)\<rparr>))"

definition forget_connection :: "bpf_env \<Rightarrow> app \<Rightarrow> socket_id \<Rightarrow> app_result" where
  "forget_connection env app socket_id =
     (let key = socket_id_to_ne_bytes socket_id in
      case env_remove env Map_Connections key of
        Some code \<Rightarrow> (Inl code, app)
      | None \<Rightarrow> (Inr (), app\<lparr>app_connections := (app_connections app)(key := None)\<rparr>))"

definition reg_connection :: "bpf_env \<Rightarrow> app \<Rightarrow> socket_id \<Rightarrow> bool \<Rightarrow> app_result" where
  "reg_connection env app socket_id incoming =
     (let app = snd (forget_connection env app socket_id);
          v = (if incoming then 2 else 1 :: u32);
          key = socket_id_to_ne_bytes socket_id
      in case env_insert env Map_Connections key of
           Some code \<Rightarrow> (Inl code, app)
         | None \<Rightarrow> (Inr (), app\<lparr>app_connections := (app_connections app)(key \<mapsto> to_ne_bytes v)\<rparr>))"

text \<open>\<open>ctx\<close> gives the 64-bit arguments of the tracepoint by offset.\<close>

definition on_data ::
    "bpf_env \<Rightarrow> (nat \<Rightarrow> u64) \<Rightarrow> app \<Rightarrow> bool \<Rightarrow> bool \<Rightarrow> app_result" where
  "on_data env ctx app incoming net =
     (let fd = (ucast (ctx 0x10) :: u32); data_ptr = ctx 0x18; pid = env_pid env in
      if \<not> is_connected app \<lparr>sid_pid = pid, sid_fd = fd\<rparr> then (Inr (), app)
      else push env app (env_thread env) (env_ktime env)
             (case (incoming, net) of
                (False, False) \<Rightarrow> Ctx_Write fd data_ptr
              | (False, True) \<Rightarrow> Ctx_Send fd data_ptr
              | (True, False) \<Rightarrow> Ctx_Read fd data_ptr
              | (True, True) \<Rightarrow> Ctx_Recv fd data_ptr))"

definition on_connection :: "bpf_env \<Rightarrow> (nat \<Rightarrow> u64) \<Rightarrow> app \<Rightarrow> bool \<Rightarrow> app_result" where
  "on_connection env ctx app incoming =
     (let fd = (ucast (ctx 0x10) :: u32); addr_ptr = ctx 0x18; addr_len = ctx 0x20 in
      if \<not> is_process app (env_pid env) then (Inr (), app)
      else push env app (env_thread env) (env_ktime env)
             (if incoming then Ctx_Accept fd addr_ptr addr_len else Ctx_Connect fd addr_ptr addr_len))"

fun is_connect :: "syscall_context_data \<Rightarrow> bool" where
  "is_connect (Ctx_Connect _ _ _) = True"
| "is_connect _ = False"

text \<open>A connection attempt that succeeded: it is registered and reported.\<close>

definition on_connected ::
    "bpf_env \<Rightarrow> event_id_layout \<Rightarrow> app \<Rightarrow> socket_id \<Rightarrow> u64 \<Rightarrow> u64 \<Rightarrow> data_tag \<Rightarrow> bool \<Rightarrow> u64 \<Rightarrow> u64
     \<Rightarrow> app_result" where
  "on_connected env layout app socket_id ts0 ts1 tag incoming addr_ptr addr_len =
     (case address_read env addr_ptr addr_len of
        Inl code \<Rightarrow> (Inl code, app)
      | Inr None \<Rightarrow> forget_connection env app socket_id
      | Inr (Some _) \<Rightarrow>
          (case reg_connection env app socket_id incoming of
             (Inl code, app') \<Rightarrow> (Inl code, app')
           | (Inr _, app') \<Rightarrow>
               (Inr (), queue_push (sized_record env layout 28 False (event_id_new socket_id ts0 ts1)
                                      tag addr_ptr (unat addr_len)) app')))"

definition on_ret ::
    "bpf_env \<Rightarrow> event_id_layout \<Rightarrow> app \<Rightarrow> 64 word \<Rightarrow> syscall_context_data \<Rightarrow> u64 \<Rightarrow> u64 \<Rightarrow> u32
     \<Rightarrow> app_result" where
  "on_ret env layout app ret data ts0 ts1 pid =
     (if sint ret < 0 \<and> \<not> (is_connect data \<and> sint ret = -115) then (Inr (), app)
      else case data of
        Ctx_Empty \<Rightarrow> (Inr (), app)
      | Ctx_Bind fd addr_ptr addr_len \<Rightarrow>
          (case address_read env addr_ptr addr_len of
             Inl code \<Rightarrow> (Inl code, app)
           | Inr None \<Rightarrow> (Inl (- 1), app)
           | Inr (Some address) \<Rightarrow>
               if \<not> is_interesting_port app (ad_port address) then (Inr (), app)
               else case reg_process env app pid (ad_port address) of
                 (Inl code, app') \<Rightarrow> (Inl code, app')
               | (Inr _, app') \<Rightarrow>
                   (Inr (), queue_push (sized_record env layout 28 False
                      (event_id_new \<lparr>sid_pid = pid, sid_fd = fd\<rparr> ts0 ts1) Tag_Bind addr_ptr
                      (unat addr_len)) app'))
      | Ctx_Connect fd addr_ptr addr_len \<Rightarrow>
          on_connected env layout app \<lparr>sid_pid = pid, sid_fd = fd\<rparr> ts0 ts1 Tag_Connect False
            addr_ptr addr_len
      | Ctx_Accept listen_on_fd addr_ptr addr_len \<Rightarrow>
          on_connected env layout app \<lparr>sid_pid = pid, sid_fd = ucast ret\<rparr> ts0 ts1 Tag_Accept True
            addr_ptr addr_len
      | Ctx_Write fd data_ptr \<Rightarrow>
          (Inr (), queue_push (dyn_sized_record env layout False
             (event_id_new \<lparr>sid_pid = pid, sid_fd = fd\<rparr> ts0 ts1) (context_tag data) data_ptr (unat ret)) app)
      | Ctx_Read fd data_ptr \<Rightarrow>
          (Inr (), queue_push (dyn_sized_record env layout False
             (event_id_new \<lparr>sid_pid = pid, sid_fd = fd\<rparr> ts0 ts1) (context_tag data) data_ptr (unat ret)) app)
      | Ctx_Send fd data_ptr \<Rightarrow>
          (Inr (), queue_push (dyn_sized_record env layout False
             (event_id_new \<lparr>sid_pid = pid, sid_fd = fd\<rparr> ts0 ts1) (context_tag data) data_ptr (unat ret)) app)
      | Ctx_Recv fd data_ptr \<Rightarrow>
          (Inr (), queue_push (dyn_sized_record env layout False
             (event_id_new \<lparr>sid_pid = pid, sid_fd = fd\<rparr> ts0 ts1) (context_tag data) data_ptr (unat ret)) app))"

definition pop :: "bpf_env \<Rightarrow> event_id_layout \<Rightarrow> (nat \<Rightarrow> u64) \<Rightarrow> app \<Rightarrow> app_result" where
  "pop env layout ctx app =
     (let key = to_ne_bytes (env_thread env) in
      case env_remove env Map_Contexts key of
        Some code \<Rightarrow> (Inl code, app)
      | None \<Rightarrow>
          (case app_contexts app key of
             None \<Rightarrow> (Inl (- 1), app)
           | Some c \<Rightarrow>
               on_ret env layout (app\<lparr>app_contexts := (app_contexts app)(key := None)\<rparr>) (ctx 0x10)
                 (sc_data c) (sc_ts c) (env_ktime env) (env_pid env)))"

definition enter_bind :: "bpf_env \<Rightarrow> (nat \<Rightarrow> u64) \<Rightarrow> app \<Rightarrow> app_result" where
  "enter_bind env ctx app =
     push env app (env_thread env) (env_ktime env) (Ctx_Bind (ucast (ctx 0x10)) (ctx 0x18) (ctx 0x20))"

definition enter_close :: "bpf_env \<Rightarrow> event_id_layout \<Rightarrow> (nat \<Rightarrow> u64) \<Rightarrow> app \<Rightarrow> app_result" where
  "enter_close env layout ctx app =
     (let fd = (ucast (ctx 0x10) :: u32); pid = env_pid env; ts = env_ktime env;
          socket_id = \<lparr>sid_pid = pid, sid_fd = fd\<rparr>; key = socket_id_to_ne_bytes socket_id
      in if \<not> is_process app pid then (Inr (), app)
         else if \<not> is_connected app socket_id then (Inr (), app)
         else case env_remove env Map_Connections key of
           Some code \<Rightarrow> (Inl code, app)
         | None \<Rightarrow>
             (Inr (), queue_push (sized_record env layout 0 False (event_id_new socket_id ts ts)
                Tag_Close 0 0) (app\<lparr>app_connections := (app_connections app)(key := None)\<rparr>)))"

text \<open>The tracepoints: the entry and the exit of each system call.\<close>

datatype syscall = Sys_bind | Sys_connect | Sys_accept4 | Sys_close | Sys_write | Sys_read | Sys_sendto | Sys_recvfrom

fun enter :: "bpf_env \<Rightarrow> event_id_layout \<Rightarrow> syscall \<Rightarrow> (nat \<Rightarrow> u64) \<Rightarrow> app \<Rightarrow> app_result" where
  "enter env layout Sys_bind ctx app = enter_bind env ctx app"
| "enter env layout Sys_connect ctx app = on_connection env ctx app False"
| "enter env layout Sys_accept4 ctx app = on_connection env ctx app True"
| "enter env layout Sys_close ctx app = enter_close env layout ctx app"
| "enter env layout Sys_write ctx app = on_data env ctx app False False"
| "enter env layout Sys_sendto ctx app = on_data env ctx app False True"
| "enter env layout Sys_read ctx app = on_data env ctx app True False"
| "enter env layout Sys_recvfrom ctx app = on_data env ctx app True True"

fun exit :: "bpf_env \<Rightarrow> event_id_layout \<Rightarrow> syscall \<Rightarrow> (nat \<Rightarrow> u64) \<Rightarrow> app \<Rightarrow> app_result" where
  "exit env layout Sys_close ctx app = (Inr (), app)"
| "exit env layout _ ctx app = pop env layout ctx app"

text \<open>The user side: one line of the command stream.\<close>

definition handle_command :: "bpf_env \<Rightarrow> string \<Rightarrow> app \<Rightarrow> app" where
  "handle_command env line app =
     (case command_from_str line of
        Inr FetchCounter \<Rightarrow> app
      | Inr (WatchPort port) \<Rightarrow>
          (case env_insert env Map_Ports (to_ne_bytes port) of
             Some _ \<Rightarrow> app
           | None \<Rightarrow> app\<lparr>app_ports := (app_ports app)(to_ne_bytes port \<mapsto> to_ne_bytes (1 :: u32))\<rparr>)
      | Inr (IgnoreConnection pid fd) \<Rightarrow>
          snd (forget_connection env app \<lparr>sid_pid = pid, sid_fd = fd\<rparr>)
      | Inl _ \<Rightarrow> app)"

section \<open>Properties\<close>

lemma be_val_zeros: "be_val (replicate n 0) = 0"
  by (induction n) simp_all

lemma context_fields_head:
  "context_fields d = (head, p, q) \<Longrightarrow> length head = 8"
  by (cases d) auto

text \<open>
  A saved system call context is read back from its 32 bytes unchanged, for every kind of call.
\<close>

theorem context_bytes_roundtrip: "context_from_ne_bytes (context_to_ne_bytes c) = c"
proof -
  obtain head p q where f: "context_fields (sc_data c) = (head, p, q)" by (cases "context_fields (sc_data c)")
  let ?b = "context_to_ne_bytes c"
  have l: "length head = 8" by (rule context_fields_head [OF f])
  have b: "sub ?b 8 16 = to_ne_bytes p" "sub ?b 16 24 = to_ne_bytes q" "sub ?b 24 32 = to_ne_bytes (sc_ts c)"
    "sub ?b 0 4 = take 4 head" "sub ?b 4 8 = drop 4 head"
    by (simp_all add: context_to_ne_bytes_def f l sub_def)
  have z: "from_ne_bytes (replicate 4 0) = (0 :: u32)"
    by (simp add: from_le_bytes_def from_be_bytes_def be_val_zeros)
  have t: "take 4 (to_ne_bytes v @ to_ne_bytes fd) = to_ne_bytes v"
    "drop 4 (to_ne_bytes v @ to_ne_bytes fd) = to_ne_bytes fd" for v fd :: u32
    by simp_all
  show ?thesis
    using f unfolding context_from_ne_bytes_def Let_def b
    by (cases c; cases "sc_data c") (auto simp: z t)
qed

lemma dyn_sizes_find:
  assumes "n + 24 \<le> 2 ^ 27"
  obtains s where "find (\<lambda>s. n + descriptor_size \<le> s) dyn_sizes = Some s" "n + 24 \<le> s"
proof -
  have "2 ^ 27 \<in> set dyn_sizes" by (simp add: dyn_sizes_def)
  then have "find (\<lambda>s. n + descriptor_size \<le> s) dyn_sizes \<noteq> None"
    using assms by (auto simp: find_None_iff descriptor_size_def)
  then show ?thesis
    using that by (auto simp: find_Some_iff descriptor_size_def)
qed

text \<open>The data of a call, and the tag it is recorded with.\<close>

fun data_call :: "syscall \<Rightarrow> (bool \<times> bool) option" where
  "data_call Sys_write = Some (False, False)"
| "data_call Sys_sendto = Some (False, True)"
| "data_call Sys_read = Some (True, False)"
| "data_call Sys_recvfrom = Some (True, True)"
| "data_call _ = None"

definition call_socket :: "bpf_env \<Rightarrow> (nat \<Rightarrow> u64) \<Rightarrow> socket_id" where
  "call_socket env ctx = \<lparr>sid_pid = env_pid env, sid_fd = ucast (ctx 0x10)\<rparr>"

text \<open>
  C12: From the system call to the event. When a thread of a watched process reads or writes \<open>n\<close>
  bytes on a registered connection, between entry and exit only its own calls touching its context,
  and the kernel serves the program (the maps are updated, the ring buffer has room, the memory is
  readable), then the exit submits exactly one record, and the user side decodes it to the event
  with the socket, the time of the exit, the direction, and all \<open>n\<close> bytes, for every \<open>n\<close> up to 24
  bytes less than 128 MiB.
\<close>

theorem data_call_recorded:
  assumes call: "data_call sys = Some (incoming, net)"
    and layout: "layout_laws layout"
    and conn: "is_connected app (call_socket env ctx)"
    and push: "env_insert env Map_Contexts (to_ne_bytes (env_thread env)) = None"
    and ctxs: "app_contexts app2 (to_ne_bytes (env_thread env)) =
        app_contexts (snd (enter env layout sys ctx app)) (to_ne_bytes (env_thread env))"
    and same: "env_pid_tgid env2 = env_pid_tgid env"
    and remove: "env_remove env2 Map_Contexts (to_ne_bytes (env_thread env)) = None"
    and ret: "ctx2 0x10 = word_of_nat n" "n + 24 \<le> 2 ^ 27"
    and room: "\<And>k m. env_reserve env2 k m"
    and mem: "env_read_user env2 (ctx 0x18) n = (0, bs)" "length bs = n"
  shows "\<exists>r. app_event_queue (snd (exit env2 layout sys ctx2 app2)) = app_event_queue app2 @ [r] \<and>
    from_rb_slice layout hex r =
      Inr (Inr (Ev_Data \<lparr>eid_socket_id = call_socket env ctx, eid_ts = env_ktime env2\<rparr> bs net incoming))"
proof -
  let ?fd = "ucast (ctx 0x10) :: u32" and ?key = "to_ne_bytes (env_thread env)"
  let ?data = "case (incoming, net) of
                (False, False) \<Rightarrow> Ctx_Write ?fd (ctx 0x18)
              | (False, True) \<Rightarrow> Ctx_Send ?fd (ctx 0x18)
              | (True, False) \<Rightarrow> Ctx_Read ?fd (ctx 0x18)
              | (True, True) \<Rightarrow> Ctx_Recv ?fd (ctx 0x18)"
  let ?i = "\<lparr>eid_socket_id = call_socket env ctx, eid_ts = env_ktime env2\<rparr>"
  have enter: "enter env layout sys ctx app = on_data env ctx app incoming net"
      "exit env2 layout sys ctx2 app2 = pop env2 layout ctx2 app2"
    using call by (cases sys; simp)+
  have saved: "app_contexts app2 ?key = Some \<lparr>sc_data = ?data, sc_ts = env_ktime env\<rparr>"
    using ctxs conn push by (simp add: enter on_data_def call_socket_def push_def Let_def)
  have thread: "env_thread env2 = env_thread env" "env_pid env2 = env_pid env"
    using same by (simp_all add: env_thread_def env_pid_def)
  have r: "unat (ctx2 0x10) = n" "\<not> sint (ctx2 0x10) < 0"
    using ret by (simp_all add: unat_of_nat signed_of_nat signed_take_bit_int_eq_self)
  obtain s where s: "find (\<lambda>s. n + descriptor_size \<le> s) dyn_sizes = Some s" "n + 24 \<le> s"
    using dyn_sizes_find [OF ret(2)] .
  let ?tag = "context_tag ?data"
  let ?d = "\<lparr>dd_id = ?i, dd_tag = ?tag, dd_size = word_of_nat n\<rparr>"
  let ?r = "descriptor_write layout ?d @ bs @ env_junk env2 (s - 24 - n)"
  have m: "min (s - 24) n = n" using s(2) by simp
  have rec: "dyn_sized_record env2 layout False ?i ?tag (ctx 0x18) n = Some ?r"
    using s mem room m
    by (cases "n = 0") (auto simp: dyn_sized_record_def sized_inner_record_def sized_record_def descriptor_size_def
        Let_def)
  have "app_event_queue (snd (pop env2 layout ctx2 app2)) = app_event_queue app2 @ [?r]"
    using saved remove thread r rec
    by (cases incoming; cases net)
      (simp_all add: pop_def Let_def on_ret_def event_id_new_def call_socket_def queue_push_def)
  moreover have "from_rb_slice layout hex ?r = Inr (data_event ?d (bs @ env_junk env2 (s - 24 - n)) net incoming)"
    by (cases incoming; cases net) (simp_all add: from_rb_slice_write [OF layout])
  moreover have "data_event ?d (bs @ env_junk env2 (s - 24 - n)) net incoming = Inr (Ev_Data ?i bs net incoming)"
    using data_event_ok [of n "bs @ env_junk env2 (s - 24 - n)" ?d] mem(2) ret(2) by simp
  ultimately show ?thesis using enter by simp
qed

definition sample_env :: bpf_env where
  "sample_env =
     \<lparr>env_pid_tgid = 0x700000008, env_ktime = 99,
      env_read_user = (\<lambda>p n. (0, take n ([2, 0, 0x26, 0x04, 10, 0, 0, 1] @ replicate n 0))),
      env_read_kernel = (\<lambda>p n. (- 14, replicate n 0)),
      env_reserve = (\<lambda>k n. True), env_junk = (\<lambda>n. replicate n 0),
      env_insert = (\<lambda>m k. None), env_remove = (\<lambda>m k. None)\<rparr>"

definition sample_ctx :: "nat \<Rightarrow> u64" where
  "sample_ctx o' = (if o' = 0x10 then 5 else 0x1000)"

definition sample_app :: app where
  "sample_app =
     \<lparr>app_event_queue = [], app_ports = Map.empty, app_processes = Map.empty,
      app_connections = [socket_id_to_ne_bytes (call_socket sample_env sample_ctx) \<mapsto> to_ne_bytes (2 :: u32)],
      app_contexts = Map.empty\<rparr>"

lemma is_connected_sample: "is_connected sample_app (call_socket sample_env sample_ctx)"
  by (simp add: is_connected_def sample_app_def)

theorem data_call_recorded_witness:
  "\<exists>r. app_event_queue (snd (exit sample_env sample_layout Sys_recvfrom (\<lambda>_. word_of_nat 3)
        (snd (enter sample_env sample_layout Sys_recvfrom sample_ctx sample_app)))) =
      app_event_queue (snd (enter sample_env sample_layout Sys_recvfrom sample_ctx sample_app)) @ [r] \<and>
    from_rb_slice sample_layout (\<lambda>b. ''hex'') r =
      Inr (Inr (Ev_Data \<lparr>eid_socket_id = call_socket sample_env sample_ctx, eid_ts = env_ktime sample_env\<rparr>
        [2, 0, 0x26] True True))"
  by (rule data_call_recorded [where n = 3])
    (simp_all add: layout_laws_sample is_connected_sample, simp_all add: sample_env_def)







lemma address_header:
  "from_ne_bytes [2, 0] = (2 :: u16)" "sub [2, 0, p1, p0] 0 2 = [2, 0 :: u8]" "sub [2, 0, p1, p0] 2 4 = [p1, p0 :: u8]"
  by (simp_all add: from_le_bytes_def from_be_bytes_def) (simp_all add: sub_def numeral_2_eq_2)



text \<open>
  A new connection is registered and announced. When connect or accept returns on a socket of a
  watched process with an IPv4 address in memory, and the kernel serves the program, the connection
  is registered, so that its data will be recorded, and the submitted record decodes to the event
  with the socket and the address and port that were in memory.
\<close>

theorem connection_announced:
  assumes layout: "layout_laws layout"
    and insert: "env_insert env Map_Connections (socket_id_to_ne_bytes sid) = None"
    and room: "env_reserve env 0 (28 + descriptor_size)"
    and mem: "env_read_user env p 4 = (0, [2, 0, p1, p0])" "env_read_user env p 16 = (0, bs)"
      "bs = [2, 0, p1, p0, a, b, c, d] @ rest" "length bs = 16"
  shows "\<exists>app' r. on_connected env layout app sid ts0 ts1 (if incoming then Tag_Accept else Tag_Connect)
      incoming p 16 = (Inr (), app') \<and>
    is_connected app' sid \<and> app_event_queue app' = app_event_queue app @ [r] \<and>
    from_rb_slice layout hex r = Inr (Inr
      (let i = \<lparr>eid_socket_id = sid, eid_ts = ts1\<rparr>;
           addr = \<lparr>sa_ip = Ip_V4 [a, b, c, d], sa_port = from_be_bytes [p1, p0]\<rparr>
       in if incoming then Ev_Accept i 0 addr else Ev_Connect i addr))"
proof -
  let ?tag = "if incoming then Tag_Accept else Tag_Connect"
  let ?d = "\<lparr>dd_id = \<lparr>eid_socket_id = sid, eid_ts = ts1\<rparr>, dd_tag = ?tag, dd_size = 16\<rparr>"
  let ?r = "descriptor_write layout ?d @ bs @ env_junk env 12"
  have addr: "address_read env p 16 = Inr (Some \<lparr>ad_sa_family = 2, ad_port = from_be_bytes [p1, p0]\<rparr>)"
    using mem(1) by (simp add: address_read_def address_header)
  obtain app1 where reg: "reg_connection env app sid incoming = (Inr (), app1)" "is_connected app1 sid"
      "app_event_queue app1 = app_event_queue app"
    using insert
    by (auto simp: reg_connection_def forget_connection_def is_connected_def Let_def split: option.splits)
  have rec: "sized_record env layout 28 False (event_id_new sid ts0 ts1) ?tag p 16 = Some ?r"
    using room mem(2) by (simp add: sized_record_def event_id_new_def)
  have parse: "parse_socket_address (bs @ env_junk env 12) =
      Inr (Inr \<lparr>sa_ip = Ip_V4 [a, b, c, d], sa_port = from_be_bytes [p1, p0]\<rparr>)"
    using mem(3) by (simp add: parse_socket_address_def slice_def sub_def address_header(1) numeral_2_eq_2 eval_nat_numeral)
  have dec: "from_rb_slice layout hex ?r = Inr (Inr
      (let i = \<lparr>eid_socket_id = sid, eid_ts = ts1\<rparr>;
           addr = \<lparr>sa_ip = Ip_V4 [a, b, c, d], sa_port = from_be_bytes [p1, p0]\<rparr>
       in if incoming then Ev_Accept i 0 addr else Ev_Connect i addr))"
    using parse by (simp add: from_rb_slice_write [OF layout] map_err_def Let_def)
  have n16: "unat (16 :: u64) = 16" by simp
  have "on_connected env layout app sid ts0 ts1 ?tag incoming p 16 = (Inr (), queue_push (Some ?r) app1)"
    by (simp only: on_connected_def addr reg(1) rec n16 sum.case option.case prod.case)
  moreover have "is_connected (queue_push (Some ?r) app1) sid"
      "app_event_queue (queue_push (Some ?r) app1) = app_event_queue app @ [?r]"
    using reg by (simp_all add: queue_push_def is_connected_def)
  ultimately show ?thesis using dec by blast
qed

theorem connection_announced_witness:
  "\<exists>app' r. on_connected sample_env sample_layout sample_app \<lparr>sid_pid = 7, sid_fd = 9\<rparr> 1 2
      (if True then Tag_Accept else Tag_Connect) True 0x2000 16 = (Inr (), app') \<and>
    is_connected app' \<lparr>sid_pid = 7, sid_fd = 9\<rparr> \<and> app_event_queue app' = app_event_queue sample_app @ [r] \<and>
    from_rb_slice sample_layout (\<lambda>b. ''hex'') r = Inr (Inr
      (let i = \<lparr>eid_socket_id = \<lparr>sid_pid = 7, sid_fd = 9\<rparr>, eid_ts = 2\<rparr>;
           addr = \<lparr>sa_ip = Ip_V4 [10, 0, 0, 1], sa_port = from_be_bytes [0x26, 0x04]\<rparr>
       in if True then Ev_Accept i 0 addr else Ev_Connect i addr))"
  by (rule connection_announced [where rest = "replicate 8 0" and
        bs = "[2, 0, 0x26, 0x04, 10, 0, 0, 1] @ replicate 8 0"])
    (simp_all add: layout_laws_sample, simp_all add: sample_env_def numeral_eq_Suc)

text \<open>
  A command sent by the recorder is understood by the sniffer, and ignoring a connection silences
  exactly that one: every command parses back from its printed form; and when the removal succeeds,
  the printed command to ignore a socket makes it unregistered and leaves every other socket as it
  was.
\<close>

theorem command_understood:
  assumes "env_remove env Map_Connections (socket_id_to_ne_bytes \<lparr>sid_pid = pid, sid_fd = fd\<rparr>) = None"
  shows "command_from_str (command_to_string c) = Inr c \<and>
    (let app' = handle_command env (command_to_string (IgnoreConnection pid fd)) app in
     \<not> is_connected app' \<lparr>sid_pid = pid, sid_fd = fd\<rparr> \<and>
     (\<forall>s. s \<noteq> \<lparr>sid_pid = pid, sid_fd = fd\<rparr> \<longrightarrow> is_connected app' s = is_connected app s))"
  using assms
  by (simp add: command_roundtrip handle_command_def forget_connection_def is_connected_def Let_def
      socket_id_inj del: command_to_string.simps)

theorem command_understood_witness:
  "command_from_str (command_to_string (WatchPort 9732)) = Inr (WatchPort 9732) \<and>
    (let app' = handle_command sample_env (command_to_string (IgnoreConnection 7 5)) sample_app in
     \<not> is_connected app' \<lparr>sid_pid = 7, sid_fd = 5\<rparr> \<and>
     (\<forall>s. s \<noteq> \<lparr>sid_pid = 7, sid_fd = 5\<rparr> \<longrightarrow> is_connected app' s = is_connected sample_app s))"
  by (rule command_understood) (simp add: sample_env_def)

end
