(* ===== verification/Ring_Buffer.thy ===== *)
theory Ring_Buffer
  imports Rust_Prelude
begin

text \<open>
  The user side of the bpf ring buffer, \<^verbatim>\<open>bpf-ring-buffer/src/lib.rs\<close>. The memory shared with the
  kernel is seen through snapshots: the producer position and the bytes (the buffer is mapped twice
  in a row, so that a record that wraps is contiguous), one snapshot per turn of the loop, since the
  kernel may write between two turns. The decoder of the records is the trait \<^verbatim>\<open>RingBufferData\<close>, a
  parameter. The loops need not end when the kernel never pauses, so they are partial: \<open>None\<close> stands
  for a run without end. Positions are below 2 to the 64.
\<close>

unbundle bit_operations_syntax

section \<open>Reading\<close>

record rb_snapshot =
  sn_producer :: nat
  sn_mem :: "nat \<Rightarrow> u8"

record ring =
  rb_mask :: nat
  rb_consumer :: nat
  rb_last_percent :: nat
  rb_shared_consumer :: nat

datatype io_error = Would_Block | Read_Uninitialized

definition mem_bytes :: "(nat \<Rightarrow> u8) \<Rightarrow> nat \<Rightarrow> nat \<Rightarrow> bytes" where
  "mem_bytes mem p n = map (\<lambda>i. mem (p + i)) [0 ..< n]"

definition busy_bit :: u64 where
  "busy_bit = push_bit 31 1"

definition discard_bit :: u64 where
  "discard_bit = push_bit 30 1"

definition header_at :: "ring \<Rightarrow> rb_snapshot \<Rightarrow> u64" where
  "header_at rb sn =
     (let masked_pos = rb_consumer rb mod (rb_mask rb + 1); index_in_array = masked_pos div 8 in
      from_ne_bytes (mem_bytes (sn_mem sn) (8 * index_in_array) 8) AND 0xffffffff)"

text \<open>The bookkeeping of how full the buffer is; a capacity below 100 bytes divides by zero.\<close>

definition report_percent :: "ring \<Rightarrow> rb_snapshot \<Rightarrow> panic + ring" where
  "report_percent rb sn =
     (let distance = sn_producer sn - rb_consumer rb; quant = (rb_mask rb + 1) div 100 in
      if quant = 0 then Inl Arith_Overflow
      else Inr (rb\<lparr>rb_last_percent := distance div quant\<rparr>))"

definition read_result :: "'d list \<Rightarrow> io_error + 'd list" where
  "read_result acc = (if acc = [] then Inl Would_Block else Inr acc)"

text \<open>The end of a turn: what the parsed record adds, and the new position.\<close>

definition read_step ::
    "(bytes \<Rightarrow> panic + 'e + 'd) \<Rightarrow> rb_snapshot \<Rightarrow> ring \<Rightarrow> nat \<Rightarrow> 'd list
     \<Rightarrow> panic + (ring \<times> nat \<times> 'd list)" where
  "read_step parse sn rb read_total acc =
     (let header = header_at rb sn;
          data_offset = rb_consumer rb mod (rb_mask rb + 1) + 8;
          length = unat (header AND NOT discard_bit);
          discard = (header AND discard_bit \<noteq> 0);
          pos = rb_consumer rb + (8 + (length + 7) div 8 * 8);
          rb' = rb\<lparr>rb_consumer := pos, rb_shared_consumer := pos\<rparr>
      in if discard then Inr (rb', read_total, acc)
         else and_then (parse (mem_bytes (sn_mem sn) data_offset length)) (\<lambda>r.
              case r of
                Inr d \<Rightarrow> Inr (rb', read_total + length, acc @ [d])
              | Inl e \<Rightarrow> Inr (rb', read_total, acc)))"

partial_function (option) read_loop ::
    "(bytes \<Rightarrow> panic + 'e + 'd) \<Rightarrow> (nat \<Rightarrow> rb_snapshot) \<Rightarrow> nat \<Rightarrow> ring \<Rightarrow> nat \<Rightarrow> 'd list
     \<Rightarrow> (panic + (io_error + 'd list) \<times> ring) option" where
  "read_loop parse obs t rb read_total acc =
     (if rb_consumer rb > sn_producer (obs t) then Some (Inr (Inl Read_Uninitialized, rb))
      else if rb_consumer rb = sn_producer (obs t) then Some (Inr (read_result acc, rb))
      else case report_percent rb (obs t) of
        Inl p \<Rightarrow> Some (Inl p)
      | Inr rb1 \<Rightarrow>
          if header_at rb1 (obs t) AND busy_bit \<noteq> 0 then Some (Inr (read_result acc, rb1))
          else case read_step parse (obs t) rb1 read_total acc of
            Inl p \<Rightarrow> Some (Inl p)
          | Inr (rb2, read_total', acc') \<Rightarrow>
              if read_total' > 0x1000000 then Some (Inr (read_result acc', rb2))
              else read_loop parse obs (t + 1) rb2 read_total' acc')"

definition rb_read ::
    "(bytes \<Rightarrow> panic + 'e + 'd) \<Rightarrow> (nat \<Rightarrow> rb_snapshot) \<Rightarrow> ring
     \<Rightarrow> (panic + (io_error + 'd list) \<times> ring) option" where
  "rb_read parse obs rb = read_loop parse obs 0 rb 0 []"

text \<open>
  Attempt \<open>t\<close> of \<^verbatim>\<open>read_blocking\<close> sees the snapshots \<open>obs t\<close>, and then the flag \<open>running t\<close>.
\<close>

partial_function (option) read_blocking ::
    "(bytes \<Rightarrow> panic + 'e + 'd) \<Rightarrow> (nat \<Rightarrow> nat \<Rightarrow> rb_snapshot) \<Rightarrow> (nat \<Rightarrow> bool) \<Rightarrow> nat \<Rightarrow> ring
     \<Rightarrow> (panic + (io_error + 'd list) \<times> ring) option" where
  "read_blocking parse obs running t rb =
     (case rb_read parse (obs t) rb of
        None \<Rightarrow> None
      | Some (Inl p) \<Rightarrow> Some (Inl p)
      | Some (Inr (r, rb')) \<Rightarrow>
          if r = Inl Would_Block
          then (if \<not> running t then Some (Inr (Inr [], rb')) else read_blocking parse obs running (t + 1) rb')
          else Some (Inr (r, rb')))"

section \<open>What the kernel writes\<close>

text \<open>
  A record in the buffer: at a position that is a multiple of 8, the length with the flags, four
  bytes that the reader ignores, and the data. \<open>written\<close> says that the records lie one after
  another from a position to another.
\<close>

record rb_record =
  rr_discard :: bool
  rr_data :: bytes

definition record_header :: "rb_record \<Rightarrow> u64" where
  "record_header r = (if rr_discard r then discard_bit else 0) OR word_of_nat (length (rr_data r))"

definition record_span :: "rb_record \<Rightarrow> nat" where
  "record_span r = 8 + (length (rr_data r) + 7) div 8 * 8"

definition record_at :: "(nat \<Rightarrow> u8) \<Rightarrow> nat \<Rightarrow> nat \<Rightarrow> rb_record \<Rightarrow> bool" where
  "record_at mem msk pos r \<longleftrightarrow>
     8 dvd pos \<and> length (rr_data r) < 2 ^ 30 \<and>
     from_ne_bytes (mem_bytes mem (pos mod (msk + 1)) 8) AND 0xffffffff = record_header r \<and>
     mem_bytes mem (pos mod (msk + 1) + 8) (length (rr_data r)) = rr_data r"

fun written :: "(nat \<Rightarrow> u8) \<Rightarrow> nat \<Rightarrow> nat \<Rightarrow> rb_record list \<Rightarrow> nat \<Rightarrow> bool" where
  "written mem msk pos [] pos' = (pos = pos')"
| "written mem msk pos (r # rs) pos' =
     (record_at mem msk pos r \<and> written mem msk (pos + record_span r) rs pos')"

text \<open>What reading those records yields: the decoded data of those not discarded, in order.\<close>

fun decoded :: "(bytes \<Rightarrow> panic + 'e + 'd) \<Rightarrow> rb_record list \<Rightarrow> 'd list" where
  "decoded parse [] = []"
| "decoded parse (r # rs) =
     (if rr_discard r then decoded parse rs
      else case parse (rr_data r) of Inr (Inr d) \<Rightarrow> d # decoded parse rs | _ \<Rightarrow> decoded parse rs)"

definition no_panic :: "(bytes \<Rightarrow> panic + 'e + 'd) \<Rightarrow> rb_record list \<Rightarrow> bool" where
  "no_panic parse rs \<longleftrightarrow> list_all (\<lambda>r. rr_discard r \<or> (\<exists>x. parse (rr_data r) = Inr x)) rs"

section \<open>Reading what was written\<close>

lemma mask_mod: "(p :: nat) mod (2 ^ k - 1 + 1) = p mod 2 ^ k"
  by simp

lemma masked_index:
  assumes "8 dvd pos" "8 dvd rb_mask rb + 1" "rb_consumer rb = pos"
  shows "8 * (rb_consumer rb mod (rb_mask rb + 1) div 8) = pos mod (rb_mask rb + 1)"
  using assms by (metis dvd_mod dvd_mult_div_cancel)

lemma header_at_record:
  assumes "record_at (sn_mem sn) (rb_mask rb) (rb_consumer rb) r" "8 dvd rb_mask rb + 1"
  shows "header_at rb sn = record_header r"
  using assms masked_index [of "rb_consumer rb" rb]
  by (simp add: header_at_def record_at_def Let_def)

lemma bit_flags: "bit discard_bit i \<longleftrightarrow> i = 30" "bit busy_bit i \<longleftrightarrow> i = 31"
  unfolding discard_bit_def busy_bit_def push_bit_of_1 bit_exp_iff by (auto simp: possible_bit_word)

lemma small_length_bits:
  assumes "n < 2 ^ 30"
  shows "(word_of_nat n :: u64) AND discard_bit = 0" "(word_of_nat n :: u64) AND busy_bit = 0"
    "(word_of_nat n :: u64) AND NOT discard_bit = word_of_nat n"
proof -
  have "take_bit 30 (word_of_nat n :: u64) = word_of_nat n"
    using assms by (simp add: take_bit_of_nat take_bit_nat_eq_self)
  then have b: "\<not> bit (word_of_nat n :: u64) i" if "30 \<le> i" for i
    using that by (metis bit_take_bit_iff not_le)
  show "(word_of_nat n :: u64) AND discard_bit = 0" "(word_of_nat n :: u64) AND busy_bit = 0"
      "(word_of_nat n :: u64) AND NOT discard_bit = word_of_nat n"
    by (rule bit_eqI, use b in \<open>auto simp: bit_flags bit_and_iff bit_not_iff possible_bit_word\<close>)+
qed

lemma record_header_bits:
  assumes "length (rr_data r) < 2 ^ 30"
  shows "record_header r AND busy_bit = 0" "record_header r AND discard_bit \<noteq> 0 \<longleftrightarrow> rr_discard r"
    "unat (record_header r AND NOT discard_bit) = length (rr_data r)"
proof -
  let ?n = "word_of_nat (length (rr_data r)) :: u64"
  note b = small_length_bits [OF assms]
  have d: "discard_bit AND busy_bit = 0" "discard_bit AND discard_bit \<noteq> 0" "discard_bit AND NOT discard_bit = 0"
    by (simp_all add: discard_bit_def busy_bit_def)
  have u: "unat ?n = length (rr_data r)" using assms by (simp add: unat_of_nat)
  show "record_header r AND busy_bit = 0" "record_header r AND discard_bit \<noteq> 0 \<longleftrightarrow> rr_discard r"
      "unat (record_header r AND NOT discard_bit) = length (rr_data r)"
    using b d u by (simp_all add: record_header_def bit.conj_disj_distrib2)
qed

lemma read_step_record:
  assumes "record_at (sn_mem sn) (rb_mask rb) (rb_consumer rb) r" "8 dvd rb_mask rb + 1"
    and "rr_discard r \<or> parse (rr_data r) = Inr x"
  shows "read_step parse sn rb tot acc =
    Inr (rb\<lparr>rb_consumer := rb_consumer rb + record_span r,
            rb_shared_consumer := rb_consumer rb + record_span r\<rparr>,
         tot + (if rr_discard r then 0 else case x of Inr d \<Rightarrow> length (rr_data r) | Inl e \<Rightarrow> 0),
         acc @ decoded parse [r])"
proof -
  have l: "length (rr_data r) < 2 ^ 30" using assms(1) by (simp add: record_at_def)
  note h = record_header_bits [OF l] header_at_record [OF assms(1,2)]
  have m: "mem_bytes (sn_mem sn) (rb_consumer rb mod (rb_mask rb + 1) + 8) (length (rr_data r)) = rr_data r"
    using assms(1) by (simp add: record_at_def)
  show ?thesis
    using assms(3) h m
    by (auto simp: read_step_def Let_def record_span_def split: sum.splits)
qed

lemma decoded_append: "decoded parse (rs @ qs) = decoded parse rs @ decoded parse qs"
  by (induction rs) (auto split: sum.splits)

lemma written_le: "written mem msk pos rs pos' \<Longrightarrow> pos \<le> pos'"
proof (induction rs arbitrary: pos)
  case (Cons r rs)
  then have "pos + record_span r \<le> pos'" by simp
  then show ?case by simp
qed simp

definition payload_size :: "rb_record list \<Rightarrow> nat" where
  "payload_size rs = sum_list (map (\<lambda>r. if rr_discard r then 0 else length (rr_data r)) rs)"

text \<open>The reader stops where the producer is, or at a record that is being written.\<close>

definition stops_at :: "rb_snapshot \<Rightarrow> ring \<Rightarrow> nat \<Rightarrow> bool" where
  "stops_at sn rb pos \<longleftrightarrow>
     sn_producer sn = pos \<or>
     pos < sn_producer sn \<and> header_at (rb\<lparr>rb_consumer := pos\<rparr>) sn AND busy_bit \<noteq> 0"

lemma header_at_mask: "header_at rb sn = header_at \<lparr>rb_mask = rb_mask rb, rb_consumer = rb_consumer rb,
    rb_last_percent = 0, rb_shared_consumer = 0\<rparr> sn"
  by (simp add: header_at_def)

lemma read_loop_written:
  assumes "written mem (rb_mask rb) (rb_consumer rb) rs pos"
    and "\<And>i. sn_mem (obs i) = mem \<and> sn_producer (obs i) = end_pos"
    and "stops_at (obs 0) rb pos" and "8 dvd rb_mask rb + 1" "99 \<le> rb_mask rb"
    and "no_panic parse rs" and "tot + payload_size rs \<le> 0x1000000"
  shows "\<exists>rb'. read_loop parse obs t rb tot acc = Some (Inr (read_result (acc @ decoded parse rs), rb')) \<and>
    rb_consumer rb' = pos \<and> rb_mask rb' = rb_mask rb \<and>
    rb_shared_consumer rb' = (if rs = [] then rb_shared_consumer rb else pos)"
  using assms(1,3-)
proof (induction rs arbitrary: rb t tot acc)
  case Nil
  have q: "(rb_mask rb + 1) div 100 \<noteq> 0" using Nil.prems(4) by simp
  have h: "header_at (rb\<lparr>rb_last_percent := x\<rparr>) (obs t) = header_at (rb\<lparr>rb_consumer := pos\<rparr>) (obs 0)" for x
    using Nil.prems(1) assms(2) by (simp add: header_at_def)
  show ?case
  proof (cases "end_pos = pos")
    case True
    with Nil.prems(1) show ?thesis
      by (subst read_loop.simps) (simp add: assms(2))
  next
    case False
    then have "pos < end_pos" "header_at (rb\<lparr>rb_consumer := pos\<rparr>) (obs 0) AND busy_bit \<noteq> 0"
      using Nil.prems(2) assms(2) by (auto simp: stops_at_def)
    with Nil.prems(1) q h show ?thesis
      by (subst read_loop.simps) (simp add: assms(2) report_percent_def Let_def)
  qed
next
  case (Cons r rs)
  have q: "(rb_mask rb + 1) div 100 \<noteq> 0" using Cons.prems(4) by simp
  have rec: "record_at mem (rb_mask rb) (rb_consumer rb) r"
    and rest: "written mem (rb_mask rb) (rb_consumer rb + record_span r) rs pos"
    using Cons.prems(1) by simp_all
  have len: "length (rr_data r) < 2 ^ 30" using rec by (simp add: record_at_def)
  have le: "rb_consumer rb < end_pos"
    using written_le [OF rest] Cons.prems(2) assms(2)
    by (auto simp: stops_at_def record_span_def)
  obtain x where x: "rr_discard r \<or> parse (rr_data r) = Inr x"
    using Cons.prems(5) by (auto simp: no_panic_def)
  define rb1 where "rb1 = rb\<lparr>rb_last_percent := (end_pos - rb_consumer rb) div ((rb_mask rb + 1) div 100)\<rparr>"
  define rb2 where "rb2 = rb1\<lparr>rb_consumer := rb_consumer rb1 + record_span r,
                             rb_shared_consumer := rb_consumer rb1 + record_span r\<rparr>"
  define tot2 where "tot2 = tot + (if rr_discard r then 0 else case x of Inr d \<Rightarrow> length (rr_data r) | Inl e \<Rightarrow> 0)"
  have rec1: "record_at (sn_mem (obs t)) (rb_mask rb1) (rb_consumer rb1) r"
    using rec assms(2) by (simp add: rb1_def)
  have dv: "8 dvd rb_mask rb1 + 1" using Cons.prems(3) by (simp add: rb1_def)
  have step: "read_step parse (obs t) rb1 tot acc = Inr (rb2, tot2, acc @ decoded parse [r])"
    using read_step_record [where parse = parse and x = x, OF rec1 dv x] by (simp add: rb2_def tot2_def)
  have busy: "header_at rb1 (obs t) AND busy_bit = 0"
    using header_at_record [OF rec1 dv] record_header_bits(1) [OF len] by simp
  have t2: "tot2 \<le> tot + (if rr_discard r then 0 else length (rr_data r))"
    by (simp add: tot2_def split: sum.splits)
  then have total2: "tot2 + payload_size rs \<le> 0x1000000"
    using Cons.prems(6) by (simp add: payload_size_def)
  have rp: "report_percent rb (obs t) = Inr rb1"
    using q by (simp add: report_percent_def rb1_def assms(2) Let_def)
  have unfold: "read_loop parse obs t rb tot acc = read_loop parse obs (t + 1) rb2 tot2 (acc @ decoded parse [r])"
    using le busy step total2
    by (subst read_loop.simps) (simp add: assms(2) rp del: decoded.simps)
  have "\<exists>rb'. read_loop parse obs (t + 1) rb2 tot2 (acc @ decoded parse [r]) =
      Some (Inr (read_result ((acc @ decoded parse [r]) @ decoded parse rs), rb')) \<and>
    rb_consumer rb' = pos \<and> rb_mask rb' = rb_mask rb2 \<and>
    rb_shared_consumer rb' = (if rs = [] then rb_shared_consumer rb2 else pos)"
    using rest Cons.prems total2
    by (intro Cons.IH) (simp_all add: rb2_def rb1_def stops_at_def header_at_def no_panic_def)
  moreover have "rb_shared_consumer rb2 = pos" if "rs = []"
    using rest that by (simp add: rb2_def rb1_def)
  moreover have "(acc @ decoded parse [r]) @ decoded parse rs = acc @ decoded parse (r # rs)"
    using decoded_append [of parse "[r]" rs] by simp
  moreover have "rb_mask rb2 = rb_mask rb" by (simp add: rb2_def rb1_def)
  ultimately show ?case unfolding unfold by (cases "rs = []") (simp_all del: decoded.simps)
qed

section \<open>Properties\<close>

text \<open>
  C13: Reading returns what was submitted. When the kernel has laid out records from the reader's
  position on and pauses, either at the end or inside a record that is still busy, one read ends; it
  returns the decoded data of the records that were not discarded, in order, skipping those that do
  not decode (or reports that it would block when there are none), its position is exactly behind
  the last complete record, and that position has been published to the kernel if any record was
  read. The bound is the 16 MiB after which a read returns early.
\<close>

theorem rb_read_submitted:
  assumes "written mem (rb_mask rb) (rb_consumer rb) rs pos"
    and "\<And>i. sn_mem (obs i) = mem \<and> sn_producer (obs i) = end_pos"
    and "stops_at (obs 0) rb pos" and "8 dvd rb_mask rb + 1" and "99 \<le> rb_mask rb"
    and "no_panic parse rs" and "payload_size rs \<le> 0x1000000"
  shows "\<exists>rb'. rb_read parse obs rb = Some (Inr (read_result (decoded parse rs), rb')) \<and>
    rb_consumer rb' = pos \<and> rb_mask rb' = rb_mask rb \<and>
    rb_shared_consumer rb' = (if rs = [] then rb_shared_consumer rb else pos)"
  using read_loop_written [where obs = obs and t = 0 and tot = 0 and acc = "[]" and parse = parse,
      OF assms(1-6)] assms(7) by (simp add: rb_read_def)

definition sample_mem :: "nat \<Rightarrow> u8" where
  "sample_mem i = (if i = 0 then 3 else if i = 8 then 7 else if i = 9 then 8 else if i = 10 then 9 else 0)"

definition sample_ring :: ring where
  "sample_ring = \<lparr>rb_mask = 127, rb_consumer = 0, rb_last_percent = 0, rb_shared_consumer = 0\<rparr>"

theorem rb_read_submitted_witness:
  "\<exists>rb'. rb_read (\<lambda>b. Inr (Inr (length b) :: unit + nat)) (\<lambda>_. \<lparr>sn_producer = 16, sn_mem = sample_mem\<rparr>) sample_ring =
      Some (Inr (read_result (decoded (\<lambda>b. Inr (Inr (length b) :: unit + nat))
        [\<lparr>rr_discard = False, rr_data = [7, 8, 9]\<rparr>]), rb')) \<and>
    rb_consumer rb' = 16 \<and> rb_mask rb' = rb_mask sample_ring \<and>
    rb_shared_consumer rb' = (if [\<lparr>rr_discard = False, rr_data = [7, 8, 9 :: u8]\<rparr>] = []
      then rb_shared_consumer sample_ring else 16)"
  by (rule rb_read_submitted [where mem = sample_mem and end_pos = 16])
    (simp_all add: sample_ring_def record_at_def mem_bytes_def sample_mem_def record_header_def
      record_span_def from_le_bytes_def from_be_bytes_def stops_at_def no_panic_def payload_size_def
      upt_conv_Cons)

end
