(* ===== verification/Ring_Stream.thy ===== *)
theory Ring_Stream
  imports Ring_Buffer
begin

text \<open>
  Creating the ring buffer and waiting for it, \<^verbatim>\<open>bpf-ring-buffer/src/lib.rs\<close>: mapping its memory, the loop that polls the descriptor, the stream that an executor polls, its report,
  and that a blocked reader delivers what arrives. What \<^verbatim>\<open>poll\<close> and the executor's readiness return is a sequence that
  is given.
\<close>

section \<open>Waiting\<close>

datatype poll_result = Poll_Timeout | Poll_One bool | Poll_Error | Poll_Many

text \<open>The number of the call of \<^verbatim>\<open>poll\<close> after which the loop ends.\<close>

partial_function (option) wait_loop :: "(nat \<Rightarrow> bool) \<Rightarrow> (nat \<Rightarrow> poll_result) \<Rightarrow> nat \<Rightarrow> nat option" where
  "wait_loop running polls t =
     (if \<not> running t then Some t
      else case polls t of
        Poll_One pollin \<Rightarrow> if pollin then Some (t + 1) else wait_loop running polls (t + 1)
      | _ \<Rightarrow> wait_loop running polls (t + 1))"

section \<open>The report\<close>

record rb_report =
  rp_inner :: bytes

definition report_new :: rb_report where
  "report_new = \<lparr>rp_inner = []\<rparr>"

definition report_on_poll :: "rb_report \<Rightarrow> rb_report" where
  "report_on_poll r = r\<lparr>rp_inner := rp_inner r @ [0x00]\<rparr>"

definition report_on_pending :: "rb_report \<Rightarrow> rb_report" where
  "report_on_pending r = r\<lparr>rp_inner := rp_inner r @ [0x01]\<rparr>"

definition report_on_ready :: "rb_report \<Rightarrow> rb_report" where
  "report_on_ready r = r\<lparr>rp_inner := rp_inner r @ [0x02]\<rparr>"

definition report_on_pos :: "nat \<Rightarrow> nat \<Rightarrow> rb_report \<Rightarrow> rb_report" where
  "report_on_pos p_pos c_pos r =
     r\<lparr>rp_inner := rp_inner r @ [0x03] @ to_be_bytes (word_of_nat c_pos :: u64) @ to_be_bytes (word_of_nat p_pos :: u64)\<rparr>"

section \<open>The stream\<close>

text \<open>
  The mappings of the process are pairs of address and length; what \<^verbatim>\<open>mmap\<close> answers for the consumer's page and for
  the producer's pages with the data is given, \<open>None\<close> is \<^verbatim>\<open>MAP_FAILED\<close>.
\<close>

record rb_observer =
  ob_page_size :: nat
  ob_data_len :: nat
  ob_consumer_pos :: nat
  ob_producer_pos :: nat

definition observer_len :: "rb_observer \<Rightarrow> nat" where
  "observer_len ob = ob_data_len ob * 8"

type_synonym mappings = "(nat \<times> nat) list"

definition munmap :: "nat \<Rightarrow> nat \<Rightarrow> mappings \<Rightarrow> mappings" where
  "munmap p l ms = remove1 (p, l) ms"

definition sync_new :: "nat \<Rightarrow> nat option \<Rightarrow> nat option \<Rightarrow> nat \<Rightarrow> mappings \<Rightarrow> (unit + ring \<times> rb_observer) \<times> mappings" where
  "sync_new page_size consumer_map producer_map max_length ms =
     (case consumer_map of
        None \<Rightarrow> (Inl (), ms)
      | Some p \<Rightarrow>
          let ms1 = (p, page_size) # ms in
          (case producer_map of
             None \<Rightarrow> (Inl (), munmap p page_size ms1)
           | Some q \<Rightarrow>
               (Inr (\<lparr>rb_mask = max_length - 1, rb_consumer = 0, rb_last_percent = 0, rb_shared_consumer = 0\<rparr>,
                     \<lparr>ob_page_size = page_size, ob_data_len = max_length * 2 div 8, ob_consumer_pos = p, ob_producer_pos = q\<rparr>),
                (q, page_size + max_length * 2) # ms1)))"

definition observer_drop :: "rb_observer \<Rightarrow> mappings \<Rightarrow> mappings" where
  "observer_drop ob ms =
     munmap (ob_producer_pos ob) (ob_page_size ob + observer_len ob) (munmap (ob_consumer_pos ob) (ob_page_size ob) ms)"

text \<open>
  No mapping outlives the object: a creation that fails leaves the mappings as they were, and dropping what a creation made gives back
  both; this needs that the data is a whole number of machine words.
\<close>

lemma sync_new_failed: "sync_new ps cm pm n ms = (Inl e, ms') \<Longrightarrow> ms' = ms"
  by (auto simp: sync_new_def munmap_def Let_def split: option.splits)

lemma sync_new_drop:
  assumes "sync_new ps cm pm n ms = (Inr (rb, ob), ms')" "4 dvd n" "ps \<noteq> 0" "n \<noteq> 0"
  shows "observer_drop ob ms' = ms"
  using assms by (auto simp: sync_new_def munmap_def observer_drop_def observer_len_def Let_def split: option.splits)

record rb_stream =
  rst_ring :: ring
  rst_depth :: nat
  rst_pending_order :: nat
  rst_report :: "rb_report option"

definition stream_new :: "ring \<Rightarrow> rb_stream" where
  "stream_new inner = \<lparr>rst_ring = inner, rst_depth = 0, rst_pending_order = 0, rst_report = None\<rparr>"

definition with_report :: "rb_stream \<Rightarrow> rb_stream" where
  "with_report st = st\<lparr>rst_report := Some report_new\<rparr>"

definition on_report :: "(rb_report \<Rightarrow> rb_report) \<Rightarrow> rb_stream \<Rightarrow> rb_stream" where
  "on_report f st = st\<lparr>rst_report := map_option f (rst_report st)\<rparr>"

datatype readiness = Io_Pending | Io_Failed | Io_Ready

datatype 'd stream_poll = Poll_Pending | Poll_Ready "'d list option"

text \<open>Attempt \<open>t\<close> sees the readiness \<open>ready t\<close> and the snapshots \<open>obs t\<close>.\<close>

definition stream_pending :: "nat \<Rightarrow> rb_stream \<Rightarrow> rb_stream" where
  "stream_pending p_pos st0 =
     (let st = st0\<lparr>rst_depth := 0, rst_pending_order := rst_pending_order st0 + 1\<rparr> in
      on_report report_on_pending
        (if rst_pending_order st \<ge> 3 then on_report (report_on_pos p_pos (rb_consumer (rst_ring st))) st else st))"

partial_function (option) poll_next ::
    "(bytes \<Rightarrow> panic + 'e + 'd) \<Rightarrow> (nat \<Rightarrow> readiness) \<Rightarrow> (nat \<Rightarrow> nat \<Rightarrow> rb_snapshot) \<Rightarrow> nat \<Rightarrow> rb_stream
     \<Rightarrow> (panic + 'd stream_poll \<times> rb_stream) option" where
  "poll_next parse ready obs t st0 =
     (let st = on_report report_on_poll st0 in
      case ready t of
        Io_Pending \<Rightarrow> Some (Inr (Poll_Pending, stream_pending (sn_producer (obs t 0)) st))
      | Io_Failed \<Rightarrow> Some (Inr (Poll_Ready None, st))
      | Io_Ready \<Rightarrow>
          (case rb_read parse (obs t) (rst_ring st) of
             None \<Rightarrow> None
           | Some (Inl p) \<Rightarrow> Some (Inl p)
           | Some (Inr (Inr data, rb)) \<Rightarrow>
               Some (Inr (Poll_Ready (Some data),
                 on_report report_on_ready (st\<lparr>rst_ring := rb, rst_depth := 0, rst_pending_order := 0\<rparr>)))
           | Some (Inr (Inl e, rb)) \<Rightarrow>
               if e = Would_Block then poll_next parse ready obs (t + 1) (st\<lparr>rst_ring := rb, rst_depth := rst_depth st + 1\<rparr>)
               else Some (Inr (Poll_Ready None, st\<lparr>rst_ring := rb\<rparr>))))"

section \<open>Idle attempts\<close>

text \<open>The shared memory does not change during an attempt.\<close>

definition steady :: "(nat \<Rightarrow> rb_snapshot) \<Rightarrow> (nat \<Rightarrow> u8) \<Rightarrow> nat \<Rightarrow> bool" where
  "steady obs mem end_pos \<longleftrightarrow> (\<forall>i. sn_mem (obs i) = mem \<and> sn_producer (obs i) = end_pos)"

definition idle :: "(nat \<Rightarrow> rb_snapshot) \<Rightarrow> ring \<Rightarrow> bool" where
  "idle obs rb \<longleftrightarrow> (\<exists>mem end_pos. steady obs mem end_pos) \<and> stops_at (obs 0) rb (rb_consumer rb)"

definition ring_ok :: "ring \<Rightarrow> bool" where
  "ring_ok rb \<longleftrightarrow> 8 dvd rb_mask rb + 1 \<and> 99 \<le> rb_mask rb"

text \<open>Only the fill level that was reported last may differ.\<close>

definition same_ring :: "ring \<Rightarrow> ring \<Rightarrow> bool" where
  "same_ring rb rb' \<longleftrightarrow>
     rb_mask rb' = rb_mask rb \<and> rb_consumer rb' = rb_consumer rb \<and> rb_shared_consumer rb' = rb_shared_consumer rb"

lemma same_ring_refl: "same_ring rb rb"
  by (simp add: same_ring_def)

lemma stops_at_same: "same_ring rb rb' \<Longrightarrow> stops_at sn rb' pos = stops_at sn rb pos"
  by (simp add: stops_at_def header_at_def same_ring_def)

lemma same_ring_idle: "same_ring rb rb' \<Longrightarrow> idle obs rb' = idle obs rb" "same_ring rb rb' \<Longrightarrow> ring_ok rb' = ring_ok rb"
  using stops_at_same [of rb rb'] by (simp_all add: idle_def ring_ok_def same_ring_def)

lemma rb_read_idle:
  assumes "idle obs rb" "ring_ok rb"
  shows "\<exists>rb'. rb_read parse obs rb = Some (Inr (Inl Would_Block, rb')) \<and> same_ring rb rb'"
proof -
  obtain mem end_pos where m: "\<And>i. sn_mem (obs i) = mem \<and> sn_producer (obs i) = end_pos" and s: "stops_at (obs 0) rb (rb_consumer rb)"
    using assms(1) by (auto simp: idle_def steady_def)
  show ?thesis
    using read_loop_written [where rs = "[]" and t = 0 and tot = 0 and acc = "[]" and obs = obs and rb = rb and parse = parse, OF _ m s]
      assms(2)
    by (auto simp: ring_ok_def rb_read_def no_panic_def payload_size_def read_result_def same_ring_def)
qed

section \<open>Delivery\<close>

text \<open>Records that are complete and of which at least one decodes.\<close>

definition arrived :: "(bytes \<Rightarrow> panic + 'e + 'd) \<Rightarrow> (nat \<Rightarrow> rb_snapshot) \<Rightarrow> ring \<Rightarrow> rb_record list \<Rightarrow> nat \<Rightarrow> bool" where
  "arrived parse obs rb rs pos \<longleftrightarrow>
     (\<exists>mem end_pos. steady obs mem end_pos \<and> written mem (rb_mask rb) (rb_consumer rb) rs pos) \<and>
     stops_at (obs 0) rb pos \<and> no_panic parse rs \<and> payload_size rs \<le> 0x1000000 \<and> decoded parse rs \<noteq> []"

lemma rb_read_arrived:
  assumes "arrived parse obs rb rs pos" "ring_ok rb"
  shows "\<exists>rb'. rb_read parse obs rb = Some (Inr (Inr (decoded parse rs), rb')) \<and>
    rb_consumer rb' = pos \<and> rb_shared_consumer rb' = pos"
proof -
  obtain mem end_pos where m: "\<And>i. sn_mem (obs i) = mem \<and> sn_producer (obs i) = end_pos"
      and w: "written mem (rb_mask rb) (rb_consumer rb) rs pos"
    using assms(1) by (auto simp: arrived_def steady_def)
  have "rs \<noteq> []" "stops_at (obs 0) rb pos" using assms(1) by (auto simp: arrived_def)
  then show ?thesis
    using read_loop_written [where t = 0 and tot = 0 and acc = "[]" and obs = obs and parse = parse, OF w m] assms
    by (auto simp: arrived_def ring_ok_def rb_read_def read_result_def)
qed

lemma read_blocking_idle:
  assumes "\<And>j. t \<le> j \<Longrightarrow> j < k \<Longrightarrow> idle (obs j) rb \<and> running j" "ring_ok rb" "t \<le> k"
  shows "\<exists>rb'. read_blocking parse obs running t rb = read_blocking parse obs running k rb' \<and> same_ring rb rb'"
  using assms
proof (induction "k - t" arbitrary: t rb)
  case 0
  then show ?case using same_ring_refl by auto
next
  case (Suc n)
  then have t: "t < k" by simp
  then have i: "idle (obs t) rb" "running t" using Suc.prems(1) by simp_all
  obtain rb1 where rb1: "rb_read parse (obs t) rb = Some (Inr (Inl Would_Block, rb1))" "same_ring rb rb1"
    using rb_read_idle [OF i(1) Suc.prems(2)] by blast
  have "\<exists>rb'. read_blocking parse obs running (t + 1) rb1 = read_blocking parse obs running k rb' \<and> same_ring rb1 rb'"
    using Suc.hyps(2) Suc.prems t same_ring_idle [OF rb1(2)] by (intro Suc.hyps(1)) simp_all
  moreover have "read_blocking parse obs running t rb = read_blocking parse obs running (t + 1) rb1"
    by (subst read_blocking.simps) (simp add: rb1(1) i(2))
  ultimately show ?case using rb1(2) by (auto simp: same_ring_def)
qed

text \<open>
  C21: A blocked reader delivers what arrives. However many attempts find nothing complete in the buffer, as long as the program runs, the first
  attempt at which the kernel has laid out records of which at least one decodes makes the blocking read return: it gives exactly the decoded
  data of these records, and the position behind them is published.
\<close>

theorem read_blocking_delivers:
  assumes "\<And>j. j < k \<Longrightarrow> idle (obs j) rb \<and> running j" "ring_ok rb" "arrived parse (obs k) rb rs pos"
  shows "\<exists>rb'. read_blocking parse obs running 0 rb = Some (Inr (Inr (decoded parse rs), rb')) \<and>
    rb_consumer rb' = pos \<and> rb_shared_consumer rb' = pos"
proof -
  obtain rb1 where rb1: "read_blocking parse obs running 0 rb = read_blocking parse obs running k rb1" "same_ring rb rb1"
    using read_blocking_idle [of 0 k obs rb running parse] assms(1,2) by auto
  have "arrived parse (obs k) rb1 rs pos"
    using assms(3) stops_at_same [OF rb1(2)] rb1(2) by (simp add: arrived_def same_ring_def)
  then obtain rb' where rb': "rb_read parse (obs k) rb1 = Some (Inr (Inr (decoded parse rs), rb'))"
      "rb_consumer rb' = pos" "rb_shared_consumer rb' = pos"
    using rb_read_arrived same_ring_idle(2) [OF rb1(2)] assms(2) by blast
  then show ?thesis unfolding rb1(1) by (subst read_blocking.simps) simp
qed

definition sample_obs :: "nat \<Rightarrow> nat \<Rightarrow> rb_snapshot" where
  "sample_obs j i = \<lparr>sn_producer = (if j < 3 then 0 else 16), sn_mem = sample_mem\<rparr>"

theorem read_blocking_delivers_witness:
  "\<exists>rb'. read_blocking (\<lambda>b. Inr (Inr (length b) :: unit + nat)) sample_obs (\<lambda>_. True) 0 sample_ring = Some (Inr (Inr [3], rb')) \<and>
    rb_consumer rb' = 16 \<and> rb_shared_consumer rb' = 16"
proof -
  let ?parse = "\<lambda>b :: bytes. Inr (Inr (length b)) :: panic + unit + nat" and ?rs = "[\<lparr>rr_discard = False, rr_data = [7, 8, 9 :: u8]\<rparr>]"
  have "idle (sample_obs j) sample_ring" if "j < 3" for j
    using that by (auto simp: idle_def steady_def sample_obs_def stops_at_def sample_ring_def)
  moreover have "ring_ok sample_ring" by (simp add: ring_ok_def sample_ring_def)
  moreover have "written sample_mem (rb_mask sample_ring) (rb_consumer sample_ring) ?rs 16"
    by (simp add: sample_ring_def record_at_def mem_bytes_def sample_mem_def record_header_def record_span_def from_le_bytes_def
        from_be_bytes_def upt_conv_Cons)
  then have "arrived ?parse (sample_obs 3) sample_ring ?rs 16"
    by (auto simp: arrived_def steady_def sample_obs_def stops_at_def no_panic_def payload_size_def)
  ultimately show ?thesis using read_blocking_delivers [of 3 sample_obs sample_ring "\<lambda>_. True" ?parse ?rs 16] by (simp add: numeral_3_eq_3)
qed

end
