(* ===== verification/Db_Query.thy ===== *)
theory Db_Query
  imports Db_Store
begin

text \<open>
  The queries over the secondary indexes. A scan of an index from a cursor yields the numbers of the
  rows with the wanted prefix, in order; the indexes of the database share this contract, which is
  a locale here. A filtered query then is the intersection of its scans.
\<close>

section \<open>The assumptions on iterators\<close>

text \<open>
  A raw iterator with \<^verbatim>\<open>prefix_same_as_start\<close> goes through the keys of a table in byte order, from the given key
  on, as far as they share its prefix. Every table exists.
\<close>

definition scan_laws :: "'st kv \<Rightarrow> ('st \<Rightarrow> location \<Rightarrow> row option) \<Rightarrow> bool" where
  "scan_laws kv view \<longleftrightarrow>
     (\<forall>sc. kv_cf_handle kv sc) \<and>
     (\<forall>sc key forward s.
        sorted_wrt (\<lambda>a b. if forward then lex_less a b else lex_less b a) (map fst (kv_prefix kv sc key forward s)) \<and>
        set (map fst (kv_prefix kv sc key forward s)) =
          {b. view s (sc, b) \<noteq> None \<and> take (prefix_len sc) b = take (prefix_len sc) key \<and> key_order forward key b}) \<and>
     (\<forall>key forward s b v c. (b, v) \<in> set (kv_prefix kv Sc_Chunk key forward s) \<longrightarrow>
        view s (Sc_Chunk, b) = Some (Row_Chunk c) \<longrightarrow> v = chunk_value_encode c)"

text \<open>Merging iterators that each yield in descending order.\<close>

definition kmerge_laws :: "(u64 list list \<Rightarrow> u64 list) \<Rightarrow> bool" where
  "kmerge_laws km \<longleftrightarrow>
     (\<forall>ls. (\<forall>l \<in> set ls. sorted_wrt (>) l) \<longrightarrow> mset (km ls) = mset (concat ls) \<and> sorted_wrt (\<ge>) (km ls))"

text \<open>The merge of a single iterator is this iterator.\<close>

definition kmerge_single :: "(u64 list list \<Rightarrow> u64 list) \<Rightarrow> bool" where
  "kmerge_single km \<longleftrightarrow> (\<forall>l. km [l] = l)"

section \<open>Indexes by prefix\<close>

locale prefix_index =
  fixes sc :: schema
    and pre :: "'i \<Rightarrow> bytes"
    and index :: "'i \<Rightarrow> u64"
    and encode :: "'i \<Rightarrow> bytes"
    and decode :: "bytes \<Rightarrow> schema_error + 'i"
    and wf :: "'i \<Rightarrow> bool"
    and width :: nat
  assumes encode_pre: "encode i = pre i @ be_bytes width (unat (index i))"
    and pre_length: "wf i \<Longrightarrow> length (pre i) = prefix_len sc"
    and decode_encode_index: "wf i \<Longrightarrow> unat (index i) < 256 ^ width \<Longrightarrow>
      map_ok index (decode (encode i)) = Inr (index i)"
begin

definition tail_index :: "bytes \<Rightarrow> u64" where
  "tail_index b = word_of_nat (be_val (drop (prefix_len sc) b))"

definition stored_in :: "('st \<Rightarrow> location \<Rightarrow> row option) \<Rightarrow> 'st \<Rightarrow> 'i set \<Rightarrow> bool" where
  "stored_in view s I \<longleftrightarrow>
     (\<forall>b. view s (sc, b) \<noteq> None \<longleftrightarrow> b \<in> encode ` I) \<and>
     (\<forall>i \<in> I. wf i \<and> unat (index i) < 256 ^ width)"

lemma tail_index_encode: "wf i \<Longrightarrow> unat (index i) < 256 ^ width \<Longrightarrow> tail_index (encode i) = index i"
  by (simp add: tail_index_def encode_pre pre_length)

lemma take_encode: "wf i \<Longrightarrow> take (prefix_len sc) (encode i) = pre i"
  by (simp add: encode_pre pre_length)

lemma less_encode:
  "wf i \<Longrightarrow> wf k \<Longrightarrow> pre i = pre k \<Longrightarrow>
   lex_less (encode i) (encode k) \<longleftrightarrow> unat (index i) mod 256 ^ width < unat (index k) mod 256 ^ width"
  by (simp add: encode_pre lex_less_be_val)

lemma scan_index:
  assumes laws: "scan_laws kv view" and st: "stored_in view s I" and k: "wf k"
  shows "\<exists>l. index_iter kv sc (decode_index index decode) (encode k) forward s = Inr l \<and>
    sorted_wrt (before forward) l \<and>
    set l = index ` {i \<in> I. pre i = pre k \<and>
      (if forward then unat (index k) mod 256 ^ width \<le> unat (index i)
       else unat (index i) \<le> unat (index k) mod 256 ^ width)}"
proof -
  define keys where "keys = map fst (kv_prefix kv sc (encode k) forward s)"
  let ?J = "{i \<in> I. pre i = pre k \<and>
      (if forward then unat (index k) mod 256 ^ width \<le> unat (index i)
       else unat (index i) \<le> unat (index k) mod 256 ^ width)}"
  have ok: "wf i" "unat (index i) < 256 ^ width" if "i \<in> I" for i
    using st that by (auto simp: stored_in_def)
  have "set keys = {b \<in> encode ` I. take (prefix_len sc) b = pre k \<and> key_order forward (encode k) b}"
    using laws st k by (auto simp: scan_laws_def stored_in_def keys_def take_encode)
  also have "\<dots> = encode ` ?J"
    using ok k by (auto simp: take_encode key_order_def less_encode not_less split: if_splits)
  finally have set_keys: "set keys = encode ` ?J" .
  have g: "tail_index b \<in> index ` ?J \<and> decode_index index decode b = Inr (tail_index b)" if "b \<in> set keys" for b
    using that ok by (auto simp: set_keys tail_index_encode decode_index_def decode_encode_index)
  have "List.map_filter (\<lambda>(b, _). case decode_index index decode b of Inl e \<Rightarrow> None | Inr i \<Rightarrow> Some i) kvs =
      map tail_index (map fst kvs)" if "set (map fst kvs) \<subseteq> set keys" for kvs :: "(bytes \<times> bytes) list"
    using that g by (induction kvs) (auto simp: List.map_filter_simps)
  then have "index_iter kv sc (decode_index index decode) (encode k) forward s = Inr (map tail_index keys)"
    using laws by (simp add: index_iter_def keys_def scan_laws_def)
  moreover have "sorted_wrt (before forward) (map tail_index keys)"
  proof -
    have "sorted_wrt (\<lambda>a b. if forward then lex_less a b else lex_less b a) keys"
      using laws by (simp add: scan_laws_def keys_def)
    moreover have "before forward (tail_index a) (tail_index b)"
      if "a \<in> set keys" "b \<in> set keys" "if forward then lex_less a b else lex_less b a" for a b
      using that ok by (auto simp: set_keys tail_index_encode less_encode before_def word_less_nat_alt
          split: if_splits)
    ultimately show ?thesis unfolding sorted_wrt_map by (rule sorted_wrt_mono_rel [rotated]) simp
  qed
  moreover have "set (map tail_index keys) = index ` ?J"
    using ok by (force simp: set_keys image_image tail_index_encode)
  ultimately show ?thesis by blast
qed

lemma stored_inI:
  assumes "\<And>b. view s (sc, b) \<noteq> None \<longleftrightarrow> (\<exists>i m. msgs i = Some m \<and> b = encode (mk i m))"
    and "\<And>i m. msgs i = Some m \<Longrightarrow> wf (mk i m) \<and> unat (index (mk i m)) < 256 ^ width"
  shows "stored_in view s {mk i m | i m. msgs i = Some m}"
  unfolding stored_in_def assms(1) using assms(2) by blast

end

lemma be_bytes_8: "be_bytes 8 n = word_of_nat (n div 256 ^ 7) # word_of_nat (n div 256 ^ 6) # be_bytes 6 n"
  using be_bytes.simps(2) [of 7 n] be_bytes.simps(2) [of 6 n] by simp

lemma be_bytes_7: "be_bytes 7 n = word_of_nat (n div 256 ^ 6) # be_bytes 6 n"
  using be_bytes.simps(2) [of 6 n] by simp

lemma to_be_bytes_tagged: "(to_be_bytes (w :: u64))[0 := t] = t # be_bytes 7 (unat w)"
  by (simp add: to_be_bytes_def be_bytes_8 be_bytes_7)

lemma to_be_bytes_tail: "drop 2 (to_be_bytes (w :: u64)) = be_bytes 6 (unat w)"
  by (simp add: to_be_bytes_def be_bytes_8)

text \<open>A one-byte tag is a prefix.\<close>

context tag_index
begin

lemma encode_tagged: "encode i = [tag i] @ be_bytes 7 (unat (index i))"
  by (simp add: encode_tag to_be_bytes_tagged)

lemma decode_tagged: "unat (index i) < 256 ^ 7 \<Longrightarrow> map_ok index (decode (encode i)) = Inr (index i)"
  using decode_encode [of i] by (simp add: small_def map_ok_def)

end

lemmas tagged_index = message_ty.encode_tagged message_ty.decode_tagged message_sender.encode_tagged
  message_sender.decode_tagged message_initiator.encode_tagged message_initiator.decode_tagged
  log_level.encode_tagged log_level.decode_tagged

interpretation ty_index: prefix_index Sc_Ty "\<lambda>i. [type_into_int (mty_ty i)]" mty_index
  message_ty_encode message_ty_decode "\<lambda>_. True" 7
  by unfold_locales (rule tagged_index | simp)+

interpretation sender_index: prefix_index Sc_Sender "\<lambda>i. [if sender_incoming (ms_sender i) then 0xff else 0x00]" ms_index
  message_sender_encode message_sender_decode "\<lambda>_. True" 7
  by unfold_locales (rule tagged_index | simp)+

interpretation initiator_index: prefix_index Sc_Initiator
  "\<lambda>i. [if initiator_incoming (mi_initiator i) then 0xff else 0x00]" mi_index
  message_initiator_encode message_initiator_decode "\<lambda>_. True" 7
  by unfold_locales (rule tagged_index | simp)+

interpretation level_index: prefix_index Sc_Level "\<lambda>i. [log_level_as_u8 (ll_lv i)]" ll_index
  log_level_encode log_level_decode "\<lambda>_. True" 7
  by unfold_locales (rule tagged_index | simp)+

interpretation addr_index: prefix_index Sc_Addr
  "\<lambda>i. ip_octets (sa_ip (ma_addr i)) @ to_le_bytes (sa_port (ma_addr i))" ma_index
  message_addr_encode message_addr_decode "\<lambda>i. wf_ip (sa_ip (ma_addr i))" 6
proof unfold_locales
  show "message_addr_encode i = (ip_octets (sa_ip (ma_addr i)) @ to_le_bytes (sa_port (ma_addr i))) @
      be_bytes 6 (unat (ma_index i))" for i
    by (simp add: message_addr_encode_def to_be_bytes_tail)
  show "map_ok ma_index (message_addr_decode (message_addr_encode i)) = Inr (ma_index i)"
    if "wf_ip (sa_ip (ma_addr i))" "unat (ma_index i) < 256 ^ 6" for i
    using message_addr_decode_encode [of i] that by (simp add: wf_message_addr_def map_ok_def)
qed simp
section \<open>The scans of a message query\<close>

lemma row_locations:
  "(\<exists>r. ((Sc_Ty, b), r) \<in> set (locs kv (message_rows m i))) \<longleftrightarrow>
     b = message_ty_encode \<lparr>mty_ty = msg_ty m, mty_index = i\<rparr>"
  "(\<exists>r. ((Sc_Sender, b), r) \<in> set (locs kv (message_rows m i))) \<longleftrightarrow>
     b = message_sender_encode \<lparr>ms_sender = msg_sender m, ms_index = i\<rparr>"
  "(\<exists>r. ((Sc_Initiator, b), r) \<in> set (locs kv (message_rows m i))) \<longleftrightarrow>
     b = message_initiator_encode \<lparr>mi_initiator = msg_initiator m, mi_index = i\<rparr>"
  "(\<exists>r. ((Sc_Addr, b), r) \<in> set (locs kv (message_rows m i))) \<longleftrightarrow>
     b = message_addr_encode \<lparr>ma_addr = msg_remote_addr m, ma_index = i\<rparr>"
  by (simp_all add: locs_def message_rows_def message_indexes_def loc_def)

lemma stored_rows:
  assumes h: "holds_messages kv view s msgs" and sc: "sc \<in> message_schemas"
  shows "view s (sc, b) \<noteq> None \<longleftrightarrow>
    (\<exists>i m. msgs i = Some m \<and> (\<exists>r. ((sc, b), r) \<in> set (locs kv (message_rows m i))))"
proof -
  have r: "view s (sc, b) = Some r \<longleftrightarrow> (\<exists>i m. msgs i = Some m \<and> ((sc, b), r) \<in> set (locs kv (message_rows m i)))" for r
    using holds_messagesD [OF h, of "(sc, b)"] sc by simp
  have "view s (sc, b) \<noteq> None \<longleftrightarrow> (\<exists>r. view s (sc, b) = Some r)" by auto
  then show ?thesis unfolding r by blast
qed

lemma wf_row_small: "wf_row m i \<Longrightarrow> unat i < 256 ^ 6" "wf_row m i \<Longrightarrow> unat i < 256 ^ 7"
  "wf_row m i \<Longrightarrow> wf_ip (sa_ip (msg_remote_addr m))"
  by (simp_all add: wf_row_def)

lemma message_schemas_indexes: "Sc_Ty \<in> message_schemas" "Sc_Sender \<in> message_schemas"
  "Sc_Initiator \<in> message_schemas" "Sc_Addr \<in> message_schemas"
  by (simp_all add: message_schemas_def)

lemma stored_ty:
  assumes "holds_messages kv view s msgs" "\<forall>i m. msgs i = Some m \<longrightarrow> wf_row m i"
  shows "ty_index.stored_in view s {\<lparr>mty_ty = msg_ty m, mty_index = i\<rparr> | i m. msgs i = Some m}"
proof (rule ty_index.stored_inI)
  show "view s (Sc_Ty, b) \<noteq> None \<longleftrightarrow> (\<exists>i m. msgs i = Some m \<and> b = message_ty_encode \<lparr>mty_ty = msg_ty m, mty_index = i\<rparr>)" for b
    using stored_rows [OF assms(1)] by (simp only: row_locations message_schemas_indexes)
qed (use wf_row_small [OF assms(2) [rule_format]] in \<open>simp_all del: power_numeral\<close>)

lemma stored_sender:
  assumes "holds_messages kv view s msgs" "\<forall>i m. msgs i = Some m \<longrightarrow> wf_row m i"
  shows "sender_index.stored_in view s {\<lparr>ms_sender = msg_sender m, ms_index = i\<rparr> | i m. msgs i = Some m}"
proof (rule sender_index.stored_inI)
  show "view s (Sc_Sender, b) \<noteq> None \<longleftrightarrow> (\<exists>i m. msgs i = Some m \<and> b = message_sender_encode \<lparr>ms_sender = msg_sender m, ms_index = i\<rparr>)" for b
    using stored_rows [OF assms(1)] by (simp only: row_locations message_schemas_indexes)
qed (use wf_row_small [OF assms(2) [rule_format]] in \<open>simp_all del: power_numeral\<close>)

lemma stored_initiator:
  assumes "holds_messages kv view s msgs" "\<forall>i m. msgs i = Some m \<longrightarrow> wf_row m i"
  shows "initiator_index.stored_in view s {\<lparr>mi_initiator = msg_initiator m, mi_index = i\<rparr> | i m. msgs i = Some m}"
proof (rule initiator_index.stored_inI)
  show "view s (Sc_Initiator, b) \<noteq> None \<longleftrightarrow> (\<exists>i m. msgs i = Some m \<and> b = message_initiator_encode \<lparr>mi_initiator = msg_initiator m, mi_index = i\<rparr>)" for b
    using stored_rows [OF assms(1)] by (simp only: row_locations message_schemas_indexes)
qed (use wf_row_small [OF assms(2) [rule_format]] in \<open>simp_all del: power_numeral\<close>)

lemma stored_addr:
  assumes "holds_messages kv view s msgs" "\<forall>i m. msgs i = Some m \<longrightarrow> wf_row m i"
  shows "addr_index.stored_in view s {\<lparr>ma_addr = msg_remote_addr m, ma_index = i\<rparr> | i m. msgs i = Some m}"
proof (rule addr_index.stored_inI)
  show "view s (Sc_Addr, b) \<noteq> None \<longleftrightarrow> (\<exists>i m. msgs i = Some m \<and> b = message_addr_encode \<lparr>ma_addr = msg_remote_addr m, ma_index = i\<rparr>)" for b
    using stored_rows [OF assms(1)] by (simp only: row_locations message_schemas_indexes)
qed (use wf_row_small [OF assms(2) [rule_format]] in \<open>simp_all del: power_numeral\<close>)

definition in_cursor :: "bool \<Rightarrow> u64 option \<Rightarrow> u64 \<Rightarrow> bool" where
  "in_cursor forward cursor i \<longleftrightarrow>
     (case cursor of None \<Rightarrow> True | Some c \<Rightarrow> if forward then c \<le> i else i \<le> c)"

definition small_cursor :: "u64 option \<Rightarrow> bool" where
  "small_cursor cursor \<longleftrightarrow> (\<forall>c. cursor = Some c \<longrightarrow> unat c < 2 ^ 48)"

lemma cursor_range:
  assumes "unat i < 2 ^ 48" "small_cursor cursor" "w = 6 \<or> w = 7"
  shows "(if forward then unat (get_or (if forward then 0 else - 1) cursor) mod 256 ^ w \<le> unat i
      else unat i \<le> unat (get_or (if forward then 0 else - 1) cursor) mod 256 ^ w) \<longleftrightarrow>
    in_cursor forward cursor i"
  using assms
  by (auto simp: in_cursor_def small_cursor_def get_or_def word_le_nat_alt unsigned_minus_1_eq_mask mask_eq_exp_minus_1
      split: option.splits)

text \<open>An iterator yields, in the direction of the query, the messages that satisfy \<open>P\<close>.\<close>

definition yields ::
    "bool \<Rightarrow> u64 option \<Rightarrow> (u64 \<Rightarrow> message_item option) \<Rightarrow> u64 list \<Rightarrow> (message_item \<Rightarrow> bool) \<Rightarrow> bool" where
  "yields forward cursor msgs l P \<longleftrightarrow>
     sorted_wrt (before forward) l \<and>
     set l = {i. \<exists>m. msgs i = Some m \<and> P m \<and> in_cursor forward cursor i}"

lemma yieldsI:
  assumes "\<forall>i m. msgs i = Some m \<longrightarrow> wf_row m i" "small_cursor cursor" "w = 6 \<or> w = 7"
    and "sorted_wrt (before forward) l"
    and "set l = index ` {k \<in> {mk i m | i m. msgs i = Some m}. pre k = pre start \<and>
      (if forward then unat (get_or (if forward then 0 else - 1) cursor) mod 256 ^ w \<le> unat (index k)
       else unat (index k) \<le> unat (get_or (if forward then 0 else - 1) cursor) mod 256 ^ w)}"
    and "\<And>i m. index (mk i m) = i" and "\<And>i m. msgs i = Some m \<Longrightarrow> pre (mk i m) = pre start \<longleftrightarrow> P m"
  shows "yields forward cursor msgs l P"
proof -
  have "unat i < 2 ^ 48" if "msgs i = Some m" for i m using assms(1) that by (simp add: wf_row_def)
  then have r: "(if forward then unat (get_or (if forward then 0 else - 1) cursor) mod 256 ^ w \<le> unat i
       else unat i \<le> unat (get_or (if forward then 0 else - 1) cursor) mod 256 ^ w) \<longleftrightarrow> in_cursor forward cursor i"
    if "msgs i = Some m" for i m using that cursor_range [OF _ assms(2,3)] by blast
  have "set l = {i. \<exists>m. msgs i = Some m \<and> P m \<and> in_cursor forward cursor i}" (is "_ = ?R")
  proof (intro equalityI subsetI)
    fix i assume "i \<in> set l"
    then obtain j m where "i = index (mk j m)" "msgs j = Some m" "pre (mk j m) = pre start"
        "if forward then unat (get_or (if forward then 0 else - 1) cursor) mod 256 ^ w \<le> unat (index (mk j m))
         else unat (index (mk j m)) \<le> unat (get_or (if forward then 0 else - 1) cursor) mod 256 ^ w"
      unfolding assms(5) by blast
    then show "i \<in> ?R" using r [of j m] assms(7) [of j m] unfolding assms(6) by blast
  next
    fix i assume "i \<in> ?R"
    then obtain m where m: "msgs i = Some m" "P m" "in_cursor forward cursor i" by blast
    then have "mk i m \<in> {k \<in> {mk i m | i m. msgs i = Some m}. pre k = pre start \<and>
        (if forward then unat (get_or (if forward then 0 else - 1) cursor) mod 256 ^ w \<le> unat (index k)
         else unat (index k) \<le> unat (get_or (if forward then 0 else - 1) cursor) mod 256 ^ w)}"
      using r [OF m(1)] assms(7) [OF m(1)] unfolding mem_Collect_eq assms(6) by blast
    from imageI [OF this, of index] show "i \<in> set l" unfolding assms(5) assms(6) .
  qed
  then show ?thesis using assms(4) by (simp add: yields_def)
qed

lemma type_into_int_inj: "type_into_int a = type_into_int b \<longleftrightarrow> a = b"
  using message_ty.item_eqI [of "\<lparr>mty_ty = a, mty_index = 0\<rparr>" "\<lparr>mty_ty = b, mty_index = 0\<rparr>"] by auto

lemma sender_incoming_inj: "sender_incoming a = sender_incoming b \<longleftrightarrow> a = b"
  by (cases a; cases b) auto

lemma initiator_incoming_inj: "initiator_incoming a = initiator_incoming b \<longleftrightarrow> a = b"
  by (cases a; cases b) auto

lemma addr_v6_eq_iff:
  "wf_ip (sa_ip a) \<Longrightarrow> wf_ip (sa_ip b) \<Longrightarrow>
   ip_octets (sa_ip a) @ to_le_bytes (sa_port a) = ip_octets (sa_ip b) @ to_le_bytes (sa_port b) \<longleftrightarrow>
   addr_v6 a = addr_v6 b"
  by (cases a; cases b) (simp add: addr_v6_def)

lemma scan_ty:
  assumes laws: "scan_laws kv view" and h: "holds_messages kv view s msgs"
    and wf: "\<forall>i m. msgs i = Some m \<longrightarrow> wf_row m i" and c: "small_cursor cursor"
  shows "\<exists>l. index_iter kv Sc_Ty (decode_index mty_index message_ty_decode)
      (message_ty_encode \<lparr>mty_ty = ty, mty_index = get_or (if forward then 0 else - 1) cursor\<rparr>) forward s = Inr l \<and>
    yields forward cursor msgs l (\<lambda>m. msg_ty m = ty)"
proof -
  let ?k = "\<lparr>mty_ty = ty, mty_index = get_or (if forward then 0 else - 1) cursor\<rparr>"
  obtain l where l: "index_iter kv Sc_Ty (decode_index mty_index message_ty_decode)
      (message_ty_encode ?k) forward s = Inr l" "sorted_wrt (before forward) l"
      "set l = mty_index ` {k \<in> {\<lparr>mty_ty = msg_ty m, mty_index = i\<rparr> | i m. msgs i = Some m}.
        [type_into_int (mty_ty k)] = [type_into_int (mty_ty ?k)] \<and>
        (if forward then unat (mty_index ?k) mod 256 ^ 7 \<le> unat (mty_index k)
         else unat (mty_index k) \<le> unat (mty_index ?k) mod 256 ^ 7)}"
    using ty_index.scan_index [OF laws stored_ty [OF h wf], of ?k forward] by auto
  have "yields forward cursor msgs l (\<lambda>m. msg_ty m = ty)"
  proof (rule yieldsI [OF wf c _ l(2), where w = 7 and index = mty_index and start = ?k
      and mk = "\<lambda>i m. \<lparr>mty_ty = msg_ty m, mty_index = i\<rparr>" and pre = "\<lambda>k. [type_into_int (mty_ty k)]"])
    show "set l = mty_index ` {k \<in> {\<lparr>mty_ty = msg_ty m, mty_index = i\<rparr> | i m. msgs i = Some m}.
        [type_into_int (mty_ty k)] = [type_into_int (mty_ty ?k)] \<and>
        (if forward then unat (get_or (if forward then 0 else - 1) cursor) mod 256 ^ 7 \<le> unat (mty_index k)
         else unat (mty_index k) \<le> unat (get_or (if forward then 0 else - 1) cursor) mod 256 ^ 7)}"
      using l(3) by simp
  qed (use type_into_int_inj in \<open>auto\<close>)
  with l(1) show ?thesis by blast
qed

lemma scan_sender:
  assumes laws: "scan_laws kv view" and h: "holds_messages kv view s msgs"
    and wf: "\<forall>i m. msgs i = Some m \<longrightarrow> wf_row m i" and c: "small_cursor cursor"
  shows "\<exists>l. index_iter kv Sc_Sender (decode_index ms_index message_sender_decode)
      (message_sender_encode \<lparr>ms_sender = sender, ms_index = get_or (if forward then 0 else - 1) cursor\<rparr>) forward s = Inr l \<and>
    yields forward cursor msgs l (\<lambda>m. msg_sender m = sender)"
proof -
  let ?k = "\<lparr>ms_sender = sender, ms_index = get_or (if forward then 0 else - 1) cursor\<rparr>"
  obtain l where l: "index_iter kv Sc_Sender (decode_index ms_index message_sender_decode)
      (message_sender_encode ?k) forward s = Inr l" "sorted_wrt (before forward) l"
      "set l = ms_index ` {k \<in> {\<lparr>ms_sender = msg_sender m, ms_index = i\<rparr> | i m. msgs i = Some m}.
        [if sender_incoming (ms_sender k) then 0xff else 0x00 :: u8] = [if sender_incoming (ms_sender ?k) then 0xff else 0x00 :: u8] \<and>
        (if forward then unat (ms_index ?k) mod 256 ^ 7 \<le> unat (ms_index k)
         else unat (ms_index k) \<le> unat (ms_index ?k) mod 256 ^ 7)}"
    using sender_index.scan_index [OF laws stored_sender [OF h wf], of ?k forward] by auto
  have "yields forward cursor msgs l (\<lambda>m. msg_sender m = sender)"
  proof (rule yieldsI [OF wf c _ l(2), where w = 7 and index = ms_index and start = ?k
      and mk = "\<lambda>i m. \<lparr>ms_sender = msg_sender m, ms_index = i\<rparr>" and pre = "\<lambda>k. [if sender_incoming (ms_sender k) then 0xff else 0x00 :: u8]"])
    show "set l = ms_index ` {k \<in> {\<lparr>ms_sender = msg_sender m, ms_index = i\<rparr> | i m. msgs i = Some m}.
        [if sender_incoming (ms_sender k) then 0xff else 0x00 :: u8] = [if sender_incoming (ms_sender ?k) then 0xff else 0x00 :: u8] \<and>
        (if forward then unat (get_or (if forward then 0 else - 1) cursor) mod 256 ^ 7 \<le> unat (ms_index k)
         else unat (ms_index k) \<le> unat (get_or (if forward then 0 else - 1) cursor) mod 256 ^ 7)}"
      using l(3) by simp
  qed (use sender_incoming_inj in \<open>auto split: if_splits\<close>)
  with l(1) show ?thesis by blast
qed

lemma scan_initiator:
  assumes laws: "scan_laws kv view" and h: "holds_messages kv view s msgs"
    and wf: "\<forall>i m. msgs i = Some m \<longrightarrow> wf_row m i" and c: "small_cursor cursor"
  shows "\<exists>l. index_iter kv Sc_Initiator (decode_index mi_index message_initiator_decode)
      (message_initiator_encode \<lparr>mi_initiator = init, mi_index = get_or (if forward then 0 else - 1) cursor\<rparr>) forward s = Inr l \<and>
    yields forward cursor msgs l (\<lambda>m. msg_initiator m = init)"
proof -
  let ?k = "\<lparr>mi_initiator = init, mi_index = get_or (if forward then 0 else - 1) cursor\<rparr>"
  obtain l where l: "index_iter kv Sc_Initiator (decode_index mi_index message_initiator_decode)
      (message_initiator_encode ?k) forward s = Inr l" "sorted_wrt (before forward) l"
      "set l = mi_index ` {k \<in> {\<lparr>mi_initiator = msg_initiator m, mi_index = i\<rparr> | i m. msgs i = Some m}.
        [if initiator_incoming (mi_initiator k) then 0xff else 0x00 :: u8] = [if initiator_incoming (mi_initiator ?k) then 0xff else 0x00 :: u8] \<and>
        (if forward then unat (mi_index ?k) mod 256 ^ 7 \<le> unat (mi_index k)
         else unat (mi_index k) \<le> unat (mi_index ?k) mod 256 ^ 7)}"
    using initiator_index.scan_index [OF laws stored_initiator [OF h wf], of ?k forward] by auto
  have "yields forward cursor msgs l (\<lambda>m. msg_initiator m = init)"
  proof (rule yieldsI [OF wf c _ l(2), where w = 7 and index = mi_index and start = ?k
      and mk = "\<lambda>i m. \<lparr>mi_initiator = msg_initiator m, mi_index = i\<rparr>" and pre = "\<lambda>k. [if initiator_incoming (mi_initiator k) then 0xff else 0x00 :: u8]"])
    show "set l = mi_index ` {k \<in> {\<lparr>mi_initiator = msg_initiator m, mi_index = i\<rparr> | i m. msgs i = Some m}.
        [if initiator_incoming (mi_initiator k) then 0xff else 0x00 :: u8] = [if initiator_incoming (mi_initiator ?k) then 0xff else 0x00 :: u8] \<and>
        (if forward then unat (get_or (if forward then 0 else - 1) cursor) mod 256 ^ 7 \<le> unat (mi_index k)
         else unat (mi_index k) \<le> unat (get_or (if forward then 0 else - 1) cursor) mod 256 ^ 7)}"
      using l(3) by simp
  qed (use initiator_incoming_inj in \<open>auto split: if_splits\<close>)
  with l(1) show ?thesis by blast
qed

lemma scan_addr:
  assumes laws: "scan_laws kv view" and h: "holds_messages kv view s msgs"
    and wf: "\<forall>i m. msgs i = Some m \<longrightarrow> wf_row m i" and c: "small_cursor cursor" and a: "wf_ip (sa_ip addr)"
  shows "\<exists>l. index_iter kv Sc_Addr (decode_index ma_index message_addr_decode)
      (message_addr_encode \<lparr>ma_addr = addr, ma_index = get_or (if forward then 0 else - 1) cursor\<rparr>) forward s = Inr l \<and>
    yields forward cursor msgs l (\<lambda>m. addr_v6 (msg_remote_addr m) = addr_v6 addr)"
proof -
  let ?k = "\<lparr>ma_addr = addr, ma_index = get_or (if forward then 0 else - 1) cursor\<rparr>"
  obtain l where l: "index_iter kv Sc_Addr (decode_index ma_index message_addr_decode)
      (message_addr_encode ?k) forward s = Inr l" "sorted_wrt (before forward) l"
      "set l = ma_index ` {k \<in> {\<lparr>ma_addr = msg_remote_addr m, ma_index = i\<rparr> | i m. msgs i = Some m}.
        ip_octets (sa_ip (ma_addr k)) @ to_le_bytes (sa_port (ma_addr k)) = ip_octets (sa_ip (ma_addr ?k)) @ to_le_bytes (sa_port (ma_addr ?k)) \<and>
        (if forward then unat (ma_index ?k) mod 256 ^ 6 \<le> unat (ma_index k)
         else unat (ma_index k) \<le> unat (ma_index ?k) mod 256 ^ 6)}"
    using addr_index.scan_index [OF laws stored_addr [OF h wf], of ?k forward] a by auto
  have "yields forward cursor msgs l (\<lambda>m. addr_v6 (msg_remote_addr m) = addr_v6 addr)"
  proof (rule yieldsI [OF wf c _ l(2), where w = 6 and index = ma_index and start = ?k
      and mk = "\<lambda>i m. \<lparr>ma_addr = msg_remote_addr m, ma_index = i\<rparr>" and pre = "\<lambda>k. ip_octets (sa_ip (ma_addr k)) @ to_le_bytes (sa_port (ma_addr k))"])
    show "set l = ma_index ` {k \<in> {\<lparr>ma_addr = msg_remote_addr m, ma_index = i\<rparr> | i m. msgs i = Some m}.
        ip_octets (sa_ip (ma_addr k)) @ to_le_bytes (sa_port (ma_addr k)) = ip_octets (sa_ip (ma_addr ?k)) @ to_le_bytes (sa_port (ma_addr ?k)) \<and>
        (if forward then unat (get_or (if forward then 0 else - 1) cursor) mod 256 ^ 6 \<le> unat (ma_index k)
         else unat (ma_index k) \<le> unat (get_or (if forward then 0 else - 1) cursor) mod 256 ^ 6)}"
      using l(3) by simp
    show "ip_octets (sa_ip (ma_addr \<lparr>ma_addr = msg_remote_addr m, ma_index = i\<rparr>)) @
        to_le_bytes (sa_port (ma_addr \<lparr>ma_addr = msg_remote_addr m, ma_index = i\<rparr>)) =
        ip_octets (sa_ip (ma_addr ?k)) @ to_le_bytes (sa_port (ma_addr ?k)) \<longleftrightarrow>
        addr_v6 (msg_remote_addr m) = addr_v6 addr" if "msgs i = Some m" for i m
      using addr_v6_eq_iff [OF wf_row_small(3) [OF wf [rule_format, OF that]] a]
      by (simp only: message_addr_item.simps)
  qed simp_all
  with l(1) show ?thesis by blast
qed

section \<open>Filtered queries\<close>

definition named_types :: "string \<Rightarrow> message_type list" where
  "named_types types = map (\<lambda>name. projr (type_from_str name)) (split_on CHR '','' types)"

text \<open>What a filter asks for, apart from the cursor.\<close>

definition wanted :: "('st, 'c, 'm, 'a, 'p) db_env \<Rightarrow> messages_filter \<Rightarrow> message_item \<Rightarrow> bool" where
  "wanted env fl m \<longleftrightarrow>
     (\<forall>types. mfl_types fl = Some types \<longrightarrow> msg_ty m \<in> set (named_types types)) \<and>
     (\<forall>incoming. mfl_incoming fl = Some incoming \<longrightarrow> msg_sender m = sender_new incoming) \<and>
     (\<forall>init. mfl_source_type fl = Some init \<longrightarrow> msg_initiator m = init) \<and>
     (\<forall>addr. mfl_remote_addr fl = Some addr \<longrightarrow>
        addr_v6 (msg_remote_addr m) = addr_v6 (projr (de_parse_addr env addr)))"

text \<open>
  A filter by type, direction, initiator or address, without a range of time; its names and its address can be
  parsed, no type is named twice, and the forward direction names at most one type (several are merged in descending
  order, whatever the direction). A cursor is below \<open>2 ^ 48\<close>, the range of the numbers in the index of the addresses.
\<close>

definition index_filter :: "('st, 'c, 'm, 'a, 'p) db_env \<Rightarrow> messages_filter \<Rightarrow> bool" where
  "index_filter env fl \<longleftrightarrow>
     (mfl_types fl \<noteq> None \<or> mfl_incoming fl \<noteq> None \<or> mfl_source_type fl \<noteq> None \<or> mfl_remote_addr fl \<noteq> None) \<and>
     mfl_from fl = None \<and> mfl_to fl = None \<and> mfl_timestamp fl = None \<and> small_cursor (mfl_cursor fl) \<and>
     (\<forall>types. mfl_types fl = Some types \<longrightarrow> distinct (named_types types) \<and>
        (is_forward (mfl_direction fl) \<longrightarrow> length (named_types types) = 1) \<and>
        (\<forall>name \<in> set (split_on CHR '','' types). \<not> isl (type_from_str name))) \<and>
     (\<forall>addr. mfl_remote_addr fl = Some addr \<longrightarrow>
        (\<exists>a. de_parse_addr env addr = Inr a \<and> wf_ip (sa_ip a)))"

lemma index_iters_spec:
  assumes "\<forall>name \<in> set names. \<exists>k l. key name = Inr k \<and> scan k = Inr l \<and> R l name"
  shows "\<exists>ls. index_iters key scan names = Inr ls \<and> list_all2 R ls names"
  using assms
proof (induction names)
  case (Cons name names)
  then obtain k l ls where "key name = Inr k" "scan k = Inr l" "R l name"
      "index_iters key scan names = Inr ls" "list_all2 R ls names" by auto
  then show ?case by (auto simp: map_err_def map_ok_def)
qed simp

lemma opt_iter_spec:
  assumes "\<And>a. x = Some a \<Longrightarrow> \<exists>l. f a = Inr l \<and> R l (P a)"
  shows "\<exists>ls. opt_iter x f = Inr ls \<and> list_all2 R ls (case x of None \<Rightarrow> [] | Some a \<Rightarrow> [P a])"
proof (cases x)
  case (Some a)
  with assms [OF Some] show ?thesis by (auto simp: opt_iter_def map_ok_def)
qed (simp add: opt_iter_def)

lemma before_False: "before False = (\<lambda>a b. b < a)"
  by (simp add: fun_eq_iff before_def)

lemma sorted_before_distinct: "sorted_wrt (before forward) l \<Longrightarrow> distinct l"
proof (induction l)
  case (Cons x l)
  then show ?case using before_linear(2) [of forward x] by auto
qed simp

lemma sorted_strict: "sorted_wrt (\<ge>) l \<Longrightarrow> distinct l \<Longrightarrow> sorted_wrt (\<lambda>a b. b < a) l"
  for l :: "'a :: linorder list"
proof (induction l)
  case (Cons x l)
  then have "\<forall>y \<in> set l. y \<le> x \<and> y \<noteq> x" by auto
  then show ?case using Cons by (auto simp: less_le)
qed simp

lemma yields_disjoint:
  assumes "list_all2 (\<lambda>l name. yields False cursor msgs l (\<lambda>m. msg_ty m = f name)) ls names"
    and "distinct (map f names)"
  shows "distinct (concat ls) \<and>
    set (concat ls) = {i. \<exists>m. msgs i = Some m \<and> msg_ty m \<in> set (map f names) \<and> in_cursor False cursor i}"
  using assms
proof (induction ls names rule: list_all2_induct)
  case (Cons l ls name names)
  have d: "distinct l" using Cons.hyps(1) sorted_before_distinct by (auto simp: yields_def)
  show ?case using Cons d by (auto simp: yields_def)
qed simp

lemma kmerge_yields:
  assumes "kmerge_laws km"
    and "list_all2 (\<lambda>l name. yields False cursor msgs l (\<lambda>m. msg_ty m = f name)) ls names"
    and "distinct (map f names)"
  shows "yields False cursor msgs (km ls) (\<lambda>m. msg_ty m \<in> set (map f names))"
proof -
  have "\<forall>l \<in> set ls. sorted_wrt (>) l"
    using assms(2) by (auto simp: list_all2_conv_all_nth in_set_conv_nth yields_def before_False)
  then have km: "mset (km ls) = mset (concat ls)" "sorted_wrt (\<ge>) (km ls)"
    using assms(1) by (auto simp: kmerge_laws_def)
  note c = yields_disjoint [OF assms(2,3)]
  have set: "set (km ls) = set (concat ls)" using km(1) by (metis set_mset_mset)
  have "distinct (km ls)" using c km(1) by (metis distinct_count_atmost_1 set_mset_mset)
  from sorted_strict [OF km(2) this] show ?thesis using c set by (simp add: yields_def before_False)
qed

lemma types_iter_spec:
  assumes laws: "scan_laws (de_kv env) view" "kmerge_laws (de_kmerge env)" "kmerge_single (de_kmerge env)"
    and h: "holds_messages (de_kv env) view s msgs" and wf: "\<forall>i m. msgs i = Some m \<longrightarrow> wf_row m i"
    and c: "small_cursor cursor" and names: "\<forall>name \<in> set (split_on CHR '','' types). \<not> isl (type_from_str name)"
    and d: "distinct (named_types types)" and one: "forward \<longrightarrow> length (named_types types) = 1"
  shows "\<exists>l. types_iter env (get_or (if forward then 0 else - 1) cursor) forward s types = Inr l \<and>
    yields forward cursor msgs l (\<lambda>m. msg_ty m \<in> set (named_types types))"
proof -
  let ?names = "split_on CHR '','' types" and ?ty = "\<lambda>name. projr (type_from_str name)"
  let ?c = "get_or (if forward then 0 else - 1) cursor"
  let ?scan = "\<lambda>key. index_iter (de_kv env) Sc_Ty (decode_index mty_index message_ty_decode) key forward s"
  have "\<forall>name \<in> set ?names. \<exists>k l. type_key ?c name = Inr k \<and> ?scan k = Inr l \<and> yields forward cursor msgs l (\<lambda>m. msg_ty m = ?ty name)"
  proof
    fix name assume "name \<in> set ?names"
    then have "type_from_str name = Inr (?ty name)" using names by auto
    then show "\<exists>k l. type_key ?c name = Inr k \<and> ?scan k = Inr l \<and> yields forward cursor msgs l (\<lambda>m. msg_ty m = ?ty name)"
      using scan_ty [OF laws(1) h wf c, of "?ty name" forward]
      by (cases "type_from_str name") (simp_all add: type_key_def map_ok_def map_err_def)
  qed
  from index_iters_spec [OF this] obtain ls where ls: "index_iters (type_key ?c) ?scan ?names = Inr ls"
      "list_all2 (\<lambda>l name. yields forward cursor msgs l (\<lambda>m. msg_ty m = ?ty name)) ls ?names" by blast
  show ?thesis
  proof (cases forward)
    case True
    then obtain name where n: "?names = [name]" using one by (auto simp: named_types_def length_Suc_conv)
    then obtain l where "ls = [l]" "yields forward cursor msgs l (\<lambda>m. msg_ty m = ?ty name)" using ls(2) by (auto simp: list_all2_Cons2)
    then show ?thesis using ls(1) laws(3) n by (simp add: types_iter_def named_types_def map_ok_def kmerge_single_def)
  next
    case False
    then show ?thesis using kmerge_yields [OF laws(2), of cursor msgs ?ty ls ?names] ls d
      by (simp add: types_iter_def named_types_def map_ok_def)
  qed
qed

lemma message_iters_spec:
  assumes laws: "scan_laws (de_kv env) view" "kmerge_laws (de_kmerge env)" "kmerge_single (de_kmerge env)"
    and h: "holds_messages (de_kv env) view s msgs" and wf: "\<forall>i m. msgs i = Some m \<longrightarrow> wf_row m i"
    and f: "index_filter env fl"
  defines "Q \<equiv> yields (is_forward (mfl_direction fl)) (mfl_cursor fl) msgs"
  shows "\<exists>iters Ps. message_iters env fl s = Inr iters \<and> list_all2 Q iters Ps \<and> Ps \<noteq> [] \<and>
    (\<forall>m. list_all (\<lambda>P. P m) Ps \<longleftrightarrow> wanted env fl m)"
proof -
  let ?kv = "de_kv env" and ?fw = "is_forward (mfl_direction fl)"
  let ?cursor = "get_or (if ?fw then 0 else - 1) (mfl_cursor fl)"
  have c: "small_cursor (mfl_cursor fl)" using f by (simp add: index_filter_def)
  have "\<exists>l. types_iter env ?cursor ?fw s types = Inr l \<and> Q l (\<lambda>m. msg_ty m \<in> set (named_types types))"
    if "mfl_types fl = Some types" for types
    using types_iter_spec [OF laws h wf c, of types ?fw] f that by (simp add: index_filter_def Q_def)
  from opt_iter_spec [where R = Q and P = "\<lambda>types m. msg_ty m \<in> set (named_types types)", OF this]
  obtain ts where ts:
      "opt_iter (mfl_types fl) (types_iter env ?cursor ?fw s) = Inr ts"
      "list_all2 Q ts (case mfl_types fl of None \<Rightarrow> []
         | Some types \<Rightarrow> [\<lambda>m. msg_ty m \<in> set (named_types types)])" by blast
  have "\<exists>l. index_iter ?kv Sc_Sender (decode_index ms_index message_sender_decode)
         (message_sender_encode \<lparr>ms_sender = sender_new incoming, ms_index = ?cursor\<rparr>) ?fw s = Inr l \<and>
       Q l (\<lambda>m. msg_sender m = sender_new incoming)" for incoming
    unfolding Q_def by (rule scan_sender [OF laws(1) h wf c])
  from opt_iter_spec [where R = Q and P = "\<lambda>incoming m. msg_sender m = sender_new incoming"
      and x = "mfl_incoming fl", OF this] obtain ss where ss:
      "opt_iter (mfl_incoming fl) (\<lambda>incoming.
         index_iter ?kv Sc_Sender (decode_index ms_index message_sender_decode)
           (message_sender_encode \<lparr>ms_sender = sender_new incoming, ms_index = ?cursor\<rparr>) ?fw s) = Inr ss"
      "list_all2 Q ss (case mfl_incoming fl of None \<Rightarrow> [] | Some incoming \<Rightarrow> [\<lambda>m. msg_sender m = sender_new incoming])"
    by blast
  have "\<exists>l. index_iter ?kv Sc_Initiator (decode_index mi_index message_initiator_decode)
         (message_initiator_encode \<lparr>mi_initiator = init, mi_index = ?cursor\<rparr>) ?fw s = Inr l \<and>
       Q l (\<lambda>m. msg_initiator m = init)" for init
    unfolding Q_def by (rule scan_initiator [OF laws(1) h wf c])
  from opt_iter_spec [where R = Q and P = "\<lambda>init m. msg_initiator m = init"
      and x = "mfl_source_type fl", OF this] obtain ns where ns:
      "opt_iter (mfl_source_type fl) (\<lambda>init.
         index_iter ?kv Sc_Initiator (decode_index mi_index message_initiator_decode)
           (message_initiator_encode \<lparr>mi_initiator = init, mi_index = ?cursor\<rparr>) ?fw s) = Inr ns"
      "list_all2 Q ns (case mfl_source_type fl of None \<Rightarrow> [] | Some init \<Rightarrow> [\<lambda>m. msg_initiator m = init])" by blast
  have "\<exists>l. and_then (map_err (\<lambda>e. Rocksdb_Schema (DecodeValidationError e)) (de_parse_addr env addr)) (\<lambda>addr.
         index_iter ?kv Sc_Addr (decode_index ma_index message_addr_decode)
           (message_addr_encode \<lparr>ma_addr = addr, ma_index = ?cursor\<rparr>) ?fw s) = Inr l \<and>
       Q l (\<lambda>m. addr_v6 (msg_remote_addr m) = addr_v6 (projr (de_parse_addr env addr)))"
    if addr: "mfl_remote_addr fl = Some addr" for addr
  proof -
    obtain a where "de_parse_addr env addr = Inr a" "wf_ip (sa_ip a)"
      using f addr unfolding index_filter_def by blast
    with scan_addr [OF laws(1) h wf c, of a ?fw] show ?thesis by (simp add: map_err_def Q_def)
  qed
  from opt_iter_spec [where R = Q and
      P = "\<lambda>addr m. addr_v6 (msg_remote_addr m) = addr_v6 (projr (de_parse_addr env addr))", OF this]
  obtain as where as: "opt_iter (mfl_remote_addr fl) (\<lambda>addr.
         and_then (map_err (\<lambda>e. Rocksdb_Schema (DecodeValidationError e)) (de_parse_addr env addr)) (\<lambda>addr.
         index_iter ?kv Sc_Addr (decode_index ma_index message_addr_decode)
           (message_addr_encode \<lparr>ma_addr = addr, ma_index = ?cursor\<rparr>) ?fw s)) = Inr as"
      "list_all2 Q as (case mfl_remote_addr fl of None \<Rightarrow> []
         | Some addr \<Rightarrow> [\<lambda>m. addr_v6 (msg_remote_addr m) = addr_v6 (projr (de_parse_addr env addr))])" by blast
  have time: "range_iter ?kv Sc_Timestamp Key_Timestamp (mfl_from fl) (mfl_to fl) ?fw s = Inr []"
      "middle_iter ?kv Sc_Timestamp Key_Timestamp (mfl_timestamp fl) ?fw s = Inr []"
    using f by (simp_all add: index_filter_def range_iter_def middle_iter_def opt_iter_def)
  have "message_iters env fl s = Inr (ts @ ss @ ns @ as)"
    unfolding message_iters_def Let_def ts(1) ss(1) ns(1) as(1) time
    by (simp add: all_iters_def map_ok_def)
  moreover note list_all2_appendI [OF ts(2) list_all2_appendI [OF ss(2) list_all2_appendI [OF ns(2) as(2)]]]
  ultimately show ?thesis
    using f by (intro exI conjI allI) (auto simp: wanted_def index_filter_def split: option.splits)
qed

lemma common_yields:
  assumes "list_all2 (yields forward cursor msgs) iters Ps" "Ps \<noteq> []"
  shows "(\<forall>l \<in> set iters. sorted_wrt (before forward) l) \<and> iters \<noteq> [] \<and>
    yields forward cursor msgs (common iters) (\<lambda>m. list_all (\<lambda>P. P m) Ps)"
proof -
  have len: "length iters = length Ps" and nth: "\<And>i. i < length Ps \<Longrightarrow> yields forward cursor msgs (iters ! i) (Ps ! i)"
    using assms(1) by (auto simp: list_all2_conv_all_nth)
  have ne: "iters \<noteq> []" "hd iters \<in> set iters" using assms(2) len by (cases iters; auto)+
  have sorted: "\<forall>l \<in> set iters. sorted_wrt (before forward) l"
    using nth len by (auto simp: in_set_conv_nth yields_def)
  have "set (common iters) = {x. \<forall>l \<in> set iters. x \<in> set l}" using ne by (auto simp: common_def)
  also have "\<dots> = {x. \<forall>i < length Ps. \<exists>m. msgs x = Some m \<and> (Ps ! i) m \<and> in_cursor forward cursor x}"
  proof -
    have "x \<in> set (iters ! i) \<longleftrightarrow> (\<exists>m. msgs x = Some m \<and> (Ps ! i) m \<and> in_cursor forward cursor x)"
      if "i < length Ps" for i x using nth [OF that] by (simp add: yields_def)
    then show ?thesis using len by (simp add: all_set_conv_all_nth)
  qed
  also have "\<dots> = {x. \<exists>m. msgs x = Some m \<and> list_all (\<lambda>P. P m) Ps \<and> in_cursor forward cursor x}"
  proof (intro Collect_cong iffI)
    fix x assume a: "\<forall>i < length Ps. \<exists>m. msgs x = Some m \<and> (Ps ! i) m \<and> in_cursor forward cursor x"
    moreover have "0 < length Ps" using assms(2) by simp
    ultimately obtain m where "msgs x = Some m" "in_cursor forward cursor x" by blast
    with a show "\<exists>m. msgs x = Some m \<and> list_all (\<lambda>P. P m) Ps \<and> in_cursor forward cursor x"
      by (auto simp: list_all_length)
  qed (auto simp: list_all_length)
  finally have "set (common iters) = \<dots>" .
  moreover have "sorted_wrt (before forward) (common iters)"
    using sorted ne by (auto simp: common_def intro: sorted_wrt_filter)
  ultimately show ?thesis using sorted ne by (simp add: yields_def)
qed

section \<open>Properties\<close>

lemma fetch_messages_index:
  assumes "kv_laws (de_kv env) view" and "kv_reliable (de_kv env)"
    and "scan_laws (de_kv env) view" and "kmerge_laws (de_kmerge env)" and "kmerge_single (de_kmerge env)"
    and "holds_messages (de_kv env) view s msgs" and "\<forall>i m. msgs i = Some m \<longrightarrow> wf_row m i"
    and "index_filter env fl"
  shows "\<exists>is. sorted_wrt (before (is_forward (mfl_direction fl))) is \<and>
    set is = {i. \<exists>m. msgs i = Some m \<and> wanted env fl m \<and>
      in_cursor (is_forward (mfl_direction fl)) (mfl_cursor fl) i} \<and>
    fetch_messages env fl s = Inr (Inr (map (\<lambda>i. message_frontend_new (the (msgs i)) i
      (preview env (the (msgs i)) i s)) (take (limit_of (mfl_limit fl)) is)))"
proof -
  let ?fw = "is_forward (mfl_direction fl)"
  obtain iters Ps where i: "message_iters env fl s = Inr iters"
      "list_all2 (yields ?fw (mfl_cursor fl) msgs) iters Ps" "Ps \<noteq> []"
      "\<forall>m. list_all (\<lambda>P. P m) Ps \<longleftrightarrow> wanted env fl m"
    using message_iters_spec [OF assms(3-8)] by blast
  note c = common_yields [OF i(2,3)]
  have r: "sorted_intersect iters (limit_of (mfl_limit fl)) ?fw = Inr (take (limit_of (mfl_limit fl)) (common iters))"
    using c by (intro sorted_intersect_sorted) auto
  have g: "get_message (de_kv env) x s = Inr (Some (the (msgs x)))" if "x \<in> set (common iters)" for x
    using holds_get [OF assms(1,2,6,7), of x] that c by (auto simp: yields_def)
  have m: "List.map_filter (\<lambda>i. case get_message (de_kv env) i s of
          Inr (Some m) \<Rightarrow> Some (message_frontend_new m i (preview env m i s)) | _ \<Rightarrow> None) xs =
        map (\<lambda>i. message_frontend_new (the (msgs i)) i (preview env (the (msgs i)) i s)) xs"
    if "set xs \<subseteq> set (common iters)" for xs
    using that g by (induction xs) (auto simp: List.map_filter_simps)
  have "\<not> (mfl_remote_addr fl = None \<and> mfl_source_type fl = None \<and> mfl_incoming fl = None \<and>
       mfl_types fl = None \<and> mfl_from fl = None \<and> mfl_to fl = None \<and> mfl_timestamp fl = None)"
    using assms(8) unfolding index_filter_def by blast
  then have "fetch_messages env fl s = Inr (Inr (map (\<lambda>i. message_frontend_new (the (msgs i)) i
      (preview env (the (msgs i)) i s)) (take (limit_of (mfl_limit fl)) (common iters))))"
    unfolding fetch_messages_def Let_def i(1) by (simp only: if_False sum.case r map_ok_def m set_take_subset)
  then show ?thesis using c i(4) by (intro exI [of _ "common iters"]) (simp add: yields_def)
qed

text \<open>
  C4: A filtered query returns exactly the messages it asks for. Over a database that holds the messages
  \<open>msgs\<close>, a query by any combination of types, direction, initiator and remote address, without a range of time, returns
  the messages that satisfy all of its conditions, each once, in the order of their numbers (ascending for the
  forward direction, else descending), from the number that is the cursor on, which is included, the first ones up to the limit; no index is
  out of range. Excluded are a type that is named twice (its messages would be returned twice), several types in the forward direction (the merge
  is for descending iterators) and cursors of \<open>2 ^ 48\<close> or more (the indexes cut them off).
\<close>

theorem fetch_messages_filtered:
  assumes "kv_laws (de_kv env) view" and "kv_reliable (de_kv env)"
    and "scan_laws (de_kv env) view" and "kmerge_laws (de_kmerge env)" and "kmerge_single (de_kmerge env)"
    and "holds_messages (de_kv env) view s msgs" and "\<forall>i m. msgs i = Some m \<longrightarrow> wf_row m i"
    and "index_filter env fl"
  shows "\<exists>is. sorted_wrt (before (is_forward (mfl_direction fl))) is \<and>
    set is = {i. \<exists>m. msgs i = Some m \<and> wanted env fl m \<and>
      in_cursor (is_forward (mfl_direction fl)) (mfl_cursor fl) i} \<and>
    fetch_messages env fl s = Inr (Inr (map (\<lambda>i. message_frontend_new (the (msgs i)) i
      (preview env (the (msgs i)) i s)) (take (limit_of (mfl_limit fl)) is)))"
  using assms by (rule fetch_messages_index)

section \<open>The concrete store\<close>

lemma key_order_total: "key_order forward a b \<or> key_order forward b a"
  by (auto simp: key_order_def lex_less_irrefl dest: lex_less_trans)

lemma key_order_trans: "key_order forward a b \<Longrightarrow> key_order forward b c \<Longrightarrow> key_order forward a c"
  unfolding key_order_def
  using lex_less_total [of c b] lex_less_total [of a b] lex_less_trans [of b c a] lex_less_trans [of a c b]
    lex_less_trans [of c a b] lex_less_trans [of a b c] lex_less_total [of b c] lex_less_total [of b a]
  by (cases forward) auto

lemma key_order_strict:
  "key_order forward a b \<Longrightarrow> a \<noteq> b \<Longrightarrow> if forward then lex_less a b else lex_less b a"
  using lex_less_total [of a b] lex_less_total [of b a] by (auto simp: key_order_def)

lemma sorted_wrt_distinct:
  "sorted_wrt P xs \<Longrightarrow> distinct xs \<Longrightarrow> (\<And>a b. P a b \<Longrightarrow> a \<noteq> b \<Longrightarrow> Q a b) \<Longrightarrow> sorted_wrt Q xs"
  by (induction xs) auto

lemma sample_keys_sorted:
  "sorted_wrt (\<lambda>a b. if forward then lex_less a b else lex_less b a) (sample_keys sc forward s)"
proof (rule sorted_wrt_distinct [of "key_order forward"])
  show "sorted_wrt (key_order forward) (sample_keys sc forward s)"
    unfolding sample_keys_def by (rule sort_by_sorted) (fact key_order_total, fact key_order_trans)
  show "distinct (sample_keys sc forward s)"
    unfolding sample_keys_def using mset_eq_imp_distinct_iff [OF sort_by_set] by auto
qed (fact key_order_strict)

lemma set_sample_keys: "set (sample_keys sc forward s) = {b. map_of s (sc, b) \<noteq> None}"
proof -
  have "set (sample_keys sc forward s) =
      set (remdups (map (\<lambda>e. snd (fst e)) (filter (\<lambda>e. fst (fst e) = sc) s)))"
    unfolding sample_keys_def by (rule mset_eq_setD) simp
  then show ?thesis by (force simp: map_of_eq_None_iff image_iff)
qed

lemma sample_scan_laws: "scan_laws sample_kv map_of"
  unfolding scan_laws_def
proof (intro conjI allI impI)
  show "kv_cf_handle sample_kv sc" for sc by (simp add: sample_kv_def)
  have keys: "map fst (kv_prefix sample_kv sc key forward s) =
      filter (\<lambda>b. take (prefix_len sc) b = take (prefix_len sc) key \<and> key_order forward key b)
        (sample_keys sc forward s)" for sc key forward s
    by (simp add: sample_kv_def sample_prefix_def comp_def)
  show "sorted_wrt (\<lambda>a b. if forward then lex_less a b else lex_less b a) (map fst (kv_prefix sample_kv sc key forward s))"
    for sc key forward s unfolding keys by (intro sorted_wrt_filter sample_keys_sorted)
  show "set (map fst (kv_prefix sample_kv sc key forward s)) =
      {b. map_of s (sc, b) \<noteq> None \<and> take (prefix_len sc) b = take (prefix_len sc) key \<and> key_order forward key b}"
    for sc key forward s unfolding keys by (auto simp: set_sample_keys)
  show "v = chunk_value_encode c" if "(b, v) \<in> set (kv_prefix sample_kv Sc_Chunk key forward s)"
      "map_of s (Sc_Chunk, b) = Some (Row_Chunk c)" for key forward s b v c
    using that by (auto simp: sample_kv_def sample_prefix_def)
qed

lemma sample_kmerge_laws: "kmerge_laws (de_kmerge sample_db_env)" "kmerge_single (de_kmerge sample_db_env)"
proof -
  have "mset (sample_kmerge ls) = mset (concat ls)" for ls by (simp add: sample_kmerge_def split: list.splits)
  moreover have "sorted_wrt (\<ge>) (sample_kmerge ls)" if "\<forall>l \<in> set ls. sorted_wrt (>) l" for ls :: "u64 list list"
  proof -
    have "sorted_wrt (\<le>) (sort (concat ls))" by simp
    then have "sorted_wrt (\<ge>) (rev (sort (concat ls)))" by (simp only: sorted_wrt_rev)
    moreover have "sorted_wrt (\<ge>) l" if "ls = [l]" for l
      using \<open>\<forall>l \<in> set ls. sorted_wrt (>) l\<close> that by (auto intro: sorted_wrt_mono_rel [of l "(>)"])
    ultimately show ?thesis by (auto simp: sample_kmerge_def split: list.splits)
  qed
  ultimately show "kmerge_laws (de_kmerge sample_db_env)" by (simp add: kmerge_laws_def sample_db_env_def)
  show "kmerge_single (de_kmerge sample_db_env)" by (simp add: kmerge_single_def sample_db_env_def sample_kmerge_def)
qed

definition sample_filter :: messages_filter where
  "sample_filter =
     \<lparr>mfl_direction = None, mfl_limit = Some 5, mfl_cursor = None, mfl_remote_addr = None,
      mfl_source_type = None, mfl_incoming = Some False, mfl_types = Some ''metadata'', mfl_from = None, mfl_to = None,
      mfl_timestamp = None, mfl_node_name = None\<rparr>"

definition sample_inner :: sample_st where
  "sample_inner = db_inner (fold (db_exec sample_kv) sample_ops sample_db)"

lemma sample_inner_holds:
  "holds_messages sample_kv map_of sample_inner (window (Some 1) (stored_messages sample_ops))"
  using db_exec_holds [OF sample_kv_laws sample_kv_reliable _ sample_ops_storable, of "Some 1" sample_db]
    fresh_db_after [OF sample_db_fresh] by (auto simp: db_after_def sample_inner_def)


lemma sample_filter_index: "index_filter sample_db_env sample_filter"
  by (simp add: index_filter_def sample_filter_def small_cursor_def named_types_def is_forward_def type_from_str_def)

theorem fetch_messages_filtered_witness:
  "\<exists>is. sorted_wrt (before (is_forward (mfl_direction sample_filter))) is \<and>
    set is = {i. \<exists>m. window (Some 1) (stored_messages sample_ops) i = Some m \<and>
      wanted sample_db_env sample_filter m \<and>
      in_cursor (is_forward (mfl_direction sample_filter)) (mfl_cursor sample_filter) i} \<and>
    fetch_messages sample_db_env sample_filter sample_inner =
      Inr (Inr (map (\<lambda>i. message_frontend_new (the (window (Some 1) (stored_messages sample_ops) i)) i
      (preview sample_db_env (the (window (Some 1) (stored_messages sample_ops) i)) i sample_inner))
        (take (limit_of (mfl_limit sample_filter)) is)))"
proof (rule fetch_messages_filtered)
  have kv: "de_kv sample_db_env = sample_kv" by (simp add: sample_db_env_def)
  show "kv_laws (de_kv sample_db_env) map_of" "kv_reliable (de_kv sample_db_env)"
      "scan_laws (de_kv sample_db_env) map_of"
      "holds_messages (de_kv sample_db_env) map_of sample_inner (window (Some 1) (stored_messages sample_ops))"
    unfolding kv by (fact sample_kv_laws sample_kv_reliable sample_scan_laws sample_inner_holds)+
  show "\<forall>i m. window (Some 1) (stored_messages sample_ops) i = Some m \<longrightarrow> wf_row m i"
    using window_wf [OF sample_ops_storable] by blast
qed (fact sample_kmerge_laws sample_filter_index)+

end
