(* ===== verification/Db_Chunks.thy ===== *)
theory Db_Chunks
  imports Db_Query
begin

text \<open>
  The query for the chunks of a connection.
\<close>

section \<open>The chunks of a connection\<close>

definition holds_chunk_table ::
    "('st \<Rightarrow> location \<Rightarrow> row option) \<Rightarrow> 'st \<Rightarrow> (chunk_key \<Rightarrow> chunk_value option) \<Rightarrow> bool" where
  "holds_chunk_table view s chunks \<longleftrightarrow>
     (\<forall>b r. view s (Sc_Chunk, b) = Some r \<longleftrightarrow>
        (\<exists>k v. chunks k = Some v \<and> b = chunk_key_encode k \<and> r = Row_Chunk v)) \<and>
     (\<forall>k v. chunks k = Some v \<longrightarrow> wf_chunk_key k \<and> length (chv_bytes v) < 2 ^ 64 - 17)"

lemma collect_it_all:
  "collect_it (map (\<lambda>k. (Inr k, Inr (Inr (f k)))) ks) n = Inr (map (\<lambda>k. (k, f k)) (take n ks))"
proof (induction ks arbitrary: n)
  case Nil
  then show ?case by (cases n) simp_all
next
  case (Cons k ks)
  then show ?case by (cases n) (simp_all add: map_ok_def)
qed

lemma scan_laws_set:
  "scan_laws kv view \<Longrightarrow> set (map fst (kv_prefix kv sc key forward s)) =
     {b. view s (sc, b) \<noteq> None \<and> take (prefix_len sc) b = take (prefix_len sc) key \<and> key_order forward key b}"
  unfolding scan_laws_def by blast

lemma scan_laws_sorted:
  "scan_laws kv view \<Longrightarrow> sorted_wrt lex_less (map fst (kv_prefix kv sc key True s))"
  unfolding scan_laws_def by (elim conjE allE [of _ sc] allE [of _ key] allE [of _ True] allE [of _ s]) simp

lemma scan_laws_value:
  "scan_laws kv view \<Longrightarrow> (b, v) \<in> set (kv_prefix kv Sc_Chunk key forward s) \<Longrightarrow>
   view s (Sc_Chunk, b) = Some (Row_Chunk c) \<Longrightarrow> v = chunk_value_encode c"
  unfolding scan_laws_def by blast

lemma chunk_scan:
  assumes laws: "scan_laws kv view" and h: "holds_chunk_table view s chunks"
  obtains ks where "kv_prefix kv Sc_Chunk (chunk_key_encode (chunk_key_begin cn_id)) True s =
      map (\<lambda>k. (chunk_key_encode k, chunk_value_encode (the (chunks k)))) ks"
    and "sorted_wrt chunk_key_less ks" and "set ks = {k. chunks k \<noteq> None \<and> chk_cn_id k = cn_id}"
proof -
  let ?b = "chunk_key_encode (chunk_key_begin cn_id)"
  define raw where "raw = kv_prefix kv Sc_Chunk ?b True s"
  define key where "key b = projr (chunk_key_decode b)" for b
  have stored: "view s (Sc_Chunk, b) = Some r \<longleftrightarrow>
      (\<exists>k v. chunks k = Some v \<and> b = chunk_key_encode k \<and> r = Row_Chunk v)" for b r
    using h by (simp add: holds_chunk_table_def)
  have wf: "wf_chunk_key k" if "chunks k = Some v" for k v using h that by (simp add: holds_chunk_table_def)
  have dec: "key (chunk_key_encode k) = k" if "chunks k = Some v" for k v
    using chunk_key.decode_encode [OF wf [OF that]] by (simp add: key_def)
  have pre: "take 12 (chunk_key_encode k) = connection_key_encode (chk_cn_id k)" for k
    by (simp add: chunk_key_encode_def)
  have "wf_chunk_key (chunk_key_begin cn_id)" by (simp add: wf_chunk_key_def chunk_key_begin_def)
  then have start_le: "\<not> lex_less (chunk_key_encode k) ?b" if "chunks k = Some v" "chk_cn_id k = cn_id" for k v
    using that wf [OF that(1)] by (auto simp: chunk_key.encode_less chunk_key_less_def chunk_key_begin_def
        connection_key_less_def)
  have "set (map fst raw) = {b. view s (Sc_Chunk, b) \<noteq> None \<and> take 12 b = take 12 ?b \<and> key_order True ?b b}"
    using laws [THEN scan_laws_set, of Sc_Chunk ?b True s] by (simp add: raw_def)
  also have "\<dots> = chunk_key_encode ` {k. chunks k \<noteq> None \<and> chk_cn_id k = cn_id}"
    using start_le by (auto simp: stored pre key_order_def chunk_key_begin_def connection_key.encode_eq_iff)
  finally have fsts: "set (map fst raw) = \<dots>" .
  have entry: "e = (chunk_key_encode (key (fst e)), chunk_value_encode (the (chunks (key (fst e)))))"
    if "e \<in> set raw" for e
  proof -
    obtain b v where e: "e = (b, v)" by (cases e)
    have "b \<in> set (map fst raw)" using that e by force
    then obtain k c where k: "b = chunk_key_encode k" "chunks k = Some c" unfolding fsts by auto
    then have "view s (Sc_Chunk, b) = Some (Row_Chunk c)" by (auto simp: stored)
    then have "v = chunk_value_encode c" using scan_laws_value [OF laws] that e unfolding raw_def by blast
    then show ?thesis using e k dec by simp
  qed
  show thesis
  proof (rule that [of "map (key \<circ> fst) raw"])
    show "kv_prefix kv Sc_Chunk ?b True s =
        map (\<lambda>k. (chunk_key_encode k, chunk_value_encode (the (chunks k)))) (map (key \<circ> fst) raw)"
      unfolding raw_def [symmetric] using entry by (simp add: map_idI)
    have set_ks: "set (map (key \<circ> fst) raw) = key ` set (map fst raw)" by auto
    then show ks: "set (map (key \<circ> fst) raw) = {k. chunks k \<noteq> None \<and> chk_cn_id k = cn_id}"
      unfolding fsts using dec by (force simp: image_image)
    have "fst e = chunk_key_encode (key (fst e))" if "e \<in> set raw" for e
      using arg_cong [OF entry [OF that], of fst] by simp
    then have "map chunk_key_encode (map (key \<circ> fst) raw) = map fst raw" by (simp add: comp_def)
    moreover have "sorted_wrt lex_less (map fst raw)" unfolding raw_def by (rule scan_laws_sorted [OF laws])
    moreover have "\<forall>k \<in> set (map (key \<circ> fst) raw). wf_chunk_key k" unfolding ks using wf by blast
    ultimately show "sorted_wrt chunk_key_less (map (key \<circ> fst) raw)"
      using chunk_key.sorted_encode by metis
  qed
qed

text \<open>
  C24: The chunks of a connection are listed completely and in order. For a well formed connection id, the
  query returns the stored chunks of that connection and of no other, ordered by their number and
  with the outgoing before the incoming of the same number, up to the limit; decoding them does not
  panic.
\<close>

theorem fetch_chunks_of_connection:
  assumes "scan_laws kv view" and "holds_chunk_table view s chunks"
    and "chf_cn fl = Some cn" and "connection_key_from_str cn = Inr cn_id"
  shows "\<exists>ks. sorted_wrt chunk_key_less ks \<and> set ks = {k. chunks k \<noteq> None \<and> chk_cn_id k = cn_id} \<and>
    fetch_chunks_truncated kv fl s =
      Inr (Inr (map (\<lambda>k. (k, the (chunks k))) (take (limit_of (chf_limit fl)) ks)))"
proof -
  obtain ks where ks: "kv_prefix kv Sc_Chunk (chunk_key_encode (chunk_key_begin cn_id)) True s =
      map (\<lambda>k. (chunk_key_encode k, chunk_value_encode (the (chunks k)))) ks"
      "sorted_wrt chunk_key_less ks" "set ks = {k. chunks k \<noteq> None \<and> chk_cn_id k = cn_id}"
    by (rule chunk_scan [OF assms(1,2)])
  have dec: "chunk_key_decode (chunk_key_encode k) = Inr k"
      "chunk_value_decode (chunk_value_encode (the (chunks k))) = Inr (Inr (the (chunks k)))" if a: "k \<in> set ks" for k
  proof -
    obtain v where v: "chunks k = Some v" using a ks(3) by auto
    then have "wf_chunk_key k" "length (chv_bytes v) < 2 ^ 64 - 17"
      using assms(2) unfolding holds_chunk_table_def by blast+
    then show "chunk_key_decode (chunk_key_encode k) = Inr k"
        "chunk_value_decode (chunk_value_encode (the (chunks k))) = Inr (Inr (the (chunks k)))"
      using v by (simp_all add: chunk_key.decode_encode chunk_value_reads)
  qed
  have "map (\<lambda>(k, v). (chunk_key_decode k, chunk_value_decode v))
      (kv_prefix kv Sc_Chunk (chunk_key_encode (chunk_key_begin cn_id)) True s) =
      map (\<lambda>k. (Inr k, Inr (Inr (the (chunks k))))) ks"
    unfolding ks(1) using dec by simp
  then have "fetch_chunks_truncated kv fl s =
      Inr (Inr (map (\<lambda>k. (k, the (chunks k))) (take (limit_of (chf_limit fl)) ks)))"
    using assms by (simp add: fetch_chunks_truncated_def scan_laws_def collect_it_all map_ok_def)
  with ks(2,3) show ?thesis by blast
qed


definition sample_chunks_filter :: chunks_filter where
  "sample_chunks_filter = \<lparr>chf_limit = Some 10, chf_cn = Some (connection_key_to_string (connection_key_of sample_connection))\<rparr>"


definition sample_chunk_row :: "location \<times> row" where
  "sample_chunk_row = ((Sc_Chunk, chunk_key_encode (fst (chunk_split (sample_chunk 0)))),
     Row_Chunk (snd (chunk_split (sample_chunk 0))))"

lemma sample_chunk_table:
  "holds_chunk_table map_of [sample_chunk_row] [fst (chunk_split (sample_chunk 0)) \<mapsto> snd (chunk_split (sample_chunk 0))]"
  using sample_chunk_keys(1)
  by (auto simp: holds_chunk_table_def sample_chunk_row_def sample_chunk_def chunk_split_def chunk_new_def)

theorem fetch_chunks_of_connection_witness:
  "\<exists>ks. sorted_wrt chunk_key_less ks \<and>
    set ks = {k. [fst (chunk_split (sample_chunk 0)) \<mapsto> snd (chunk_split (sample_chunk 0))] k \<noteq> None \<and>
      chk_cn_id k = connection_key_of sample_connection} \<and>
    fetch_chunks_truncated sample_kv sample_chunks_filter [sample_chunk_row] =
      Inr (Inr (map (\<lambda>k. (k, the ([fst (chunk_split (sample_chunk 0)) \<mapsto> snd (chunk_split (sample_chunk 0))] k)))
        (take (limit_of (chf_limit sample_chunks_filter)) ks)))"
  by (rule fetch_chunks_of_connection [OF sample_scan_laws sample_chunk_table])
    (simp add: sample_chunks_filter_def, rule connection_key_string_roundtrip)

end
