(* ===== verification/Db_Session.thy ===== *)
theory Db_Session
  imports Db_Chunks
begin

text \<open>
  The database over time: what a new session finds of the last one, queries by a range of time, and
  the length of the previews.
\<close>

section \<open>The assumption on typed iterators\<close>

text \<open>
  Every key of the tables of messages and of their timestamps decodes to the key that was put, the iterator
  goes through them in byte order, from the end or the key of its mode on; numbers are big endian.
\<close>

definition iter_laws :: "'st kv \<Rightarrow> ('st \<Rightarrow> location \<Rightarrow> row option) \<Rightarrow> bool" where
  "iter_laws kv view \<longleftrightarrow>
     (\<forall>i j. lex_less (kv_u64 kv i) (kv_u64 kv j) \<longleftrightarrow> i < j) \<and>
     (\<forall>sc mode s K. sc \<in> {Sc_Message, Sc_Timestamp} \<longrightarrow> (\<forall>k \<in> K. schema_of k = sc) \<longrightarrow>
        (\<forall>b. view s (sc, b) \<noteq> None \<longleftrightarrow> b \<in> key_bytes (kv_u64 kv) ` K) \<longrightarrow>
        (\<exists>ks. kv_iterator kv sc mode s = Inr (map (\<lambda>k. (Inr k, Inr (the (view s (loc kv k))))) ks) \<and>
           set ks = {k \<in> K. from_mode (kv_u64 kv) mode (key_bytes (kv_u64 kv) k)} \<and>
           sorted_wrt (\<lambda>a b. if mode_forward mode then lex_less a b else lex_less b a)
             (map (key_bytes (kv_u64 kv)) ks)))"

lemma iter_lawsD:
  assumes "iter_laws kv view" "sc \<in> {Sc_Message, Sc_Timestamp}" "\<forall>k \<in> K. schema_of k = sc"
    "\<forall>b. view s (sc, b) \<noteq> None \<longleftrightarrow> b \<in> key_bytes (kv_u64 kv) ` K"
  shows "\<exists>ks. kv_iterator kv sc mode s = Inr (map (\<lambda>k. (Inr k, Inr (the (view s (loc kv k))))) ks) \<and>
    set ks = {k \<in> K. from_mode (kv_u64 kv) mode (key_bytes (kv_u64 kv) k)} \<and>
    sorted_wrt (\<lambda>a b. if mode_forward mode then lex_less a b else lex_less b a) (map (key_bytes (kv_u64 kv)) ks)"
  using assms(1) [unfolded iter_laws_def, THEN conjunct2, THEN spec, THEN spec, THEN spec, THEN spec,
      THEN mp, THEN mp, THEN mp, OF assms(2-4)] .

lemma typed_table:
  assumes laws: "iter_laws kv view" and sc: "sc \<in> {Sc_Message, Sc_Timestamp}" and mk: "inj mk" "\<And>i. schema_of (mk i) = sc"
    and stored: "\<And>b. view s (sc, b) \<noteq> None \<longleftrightarrow> b \<in> (\<lambda>i. key_bytes (kv_u64 kv) (mk i)) ` I"
  obtains ks where "kv_iterator kv sc mode s = Inr (map (\<lambda>i. (Inr (mk i), Inr (the (view s (loc kv (mk i)))))) ks)"
    and "set ks = {i \<in> I. from_mode (kv_u64 kv) mode (key_bytes (kv_u64 kv) (mk i))}"
    and "sorted_wrt (\<lambda>i j. if mode_forward mode then lex_less (key_bytes (kv_u64 kv) (mk i)) (key_bytes (kv_u64 kv) (mk j))
      else lex_less (key_bytes (kv_u64 kv) (mk j)) (key_bytes (kv_u64 kv) (mk i))) ks"
proof -
  have "\<forall>b. view s (sc, b) \<noteq> None \<longleftrightarrow> b \<in> key_bytes (kv_u64 kv) ` mk ` I" "\<forall>k \<in> mk ` I. schema_of k = sc"
    using stored mk(2) by (auto simp: image_image)
  then obtain ks where ks: "kv_iterator kv sc mode s = Inr (map (\<lambda>k. (Inr k, Inr (the (view s (loc kv k))))) ks)"
      "set ks = {k \<in> mk ` I. from_mode (kv_u64 kv) mode (key_bytes (kv_u64 kv) k)}"
      "sorted_wrt (\<lambda>a b. if mode_forward mode then lex_less a b else lex_less b a) (map (key_bytes (kv_u64 kv)) ks)"
    using iter_lawsD [OF laws sc, of "mk ` I" s mode] by blast
  have "ks = map mk (map (inv mk) ks)"
    using ks(2) mk(1) by (auto simp: intro!: map_idI [symmetric])
  then obtain ns where ns: "ks = map mk ns" by blast
  show thesis
  proof (rule that [of ns])
    show "set ns = {i \<in> I. from_mode (kv_u64 kv) mode (key_bytes (kv_u64 kv) (mk i))}"
      using ks(2) unfolding ns by (auto simp: inj_image_mem_iff [OF mk(1)] dest: injD [OF mk(1)])
  qed (use ks ns in \<open>simp_all add: sorted_wrt_map comp_def\<close>)
qed

lemma message_table:
  assumes "iter_laws kv view" "holds_messages kv view s msgs"
  obtains ks where "kv_iterator kv Sc_Message mode s =
      Inr (map (\<lambda>i. (Inr (Key_Message i), Inr (the (view s (Sc_Message, kv_u64 kv i))))) ks)"
    and "sorted_wrt (before (mode_forward mode)) ks"
    and "set ks = {i. msgs i \<noteq> None \<and> from_mode (kv_u64 kv) mode (kv_u64 kv i)}"
proof -
  have "view s (Sc_Message, b) \<noteq> None \<longleftrightarrow> b \<in> (\<lambda>i. key_bytes (kv_u64 kv) (Key_Message i)) ` {i. msgs i \<noteq> None}" for b
    using stored_rows [OF assms(2), of Sc_Message b]
    by (auto simp: message_schemas_def locs_def message_rows_def message_indexes_def loc_def image_iff)
  then obtain ks where ks: "kv_iterator kv Sc_Message mode s =
        Inr (map (\<lambda>i. (Inr (Key_Message i), Inr (the (view s (loc kv (Key_Message i)))))) ks)"
      "set ks = {i \<in> {i. msgs i \<noteq> None}. from_mode (kv_u64 kv) mode (key_bytes (kv_u64 kv) (Key_Message i))}"
      "sorted_wrt (\<lambda>i j. if mode_forward mode
        then lex_less (key_bytes (kv_u64 kv) (Key_Message i)) (key_bytes (kv_u64 kv) (Key_Message j))
        else lex_less (key_bytes (kv_u64 kv) (Key_Message j)) (key_bytes (kv_u64 kv) (Key_Message i))) ks"
    by (rule typed_table [OF assms(1), of Sc_Message Key_Message s "{i. msgs i \<noteq> None}" mode, rotated 3])
      (simp_all add: inj_def)
  have "before (mode_forward mode) = (\<lambda>i j. if mode_forward mode then lex_less (kv_u64 kv i) (kv_u64 kv j)
      else lex_less (kv_u64 kv j) (kv_u64 kv i))"
    using assms(1) by (simp add: iter_laws_def before_def fun_eq_iff)
  then show thesis using that [of ks] ks by (simp add: loc_def cong: if_cong)
qed

definition timed :: "(u64 \<Rightarrow> message_item option) \<Rightarrow> timestamp_item set" where
  "timed msgs = {\<lparr>ts_timestamp = msg_timestamp m, ts_index = i\<rparr> | i m. msgs i = Some m}"

lemma timestamp_table:
  assumes "iter_laws kv view" "holds_messages kv view s msgs"
  obtains ks v where "kv_iterator kv Sc_Timestamp mode s = Inr (map (\<lambda>t. (Inr (Key_Timestamp t), v t)) ks)"
    and "sorted_wrt (\<lambda>a b. if mode_forward mode then timestamp_less a b else timestamp_less b a) ks"
    and "set ks = {t \<in> timed msgs. from_mode (kv_u64 kv) mode (timestamp_encode t)}"
proof -
  have "view s (Sc_Timestamp, b) \<noteq> None \<longleftrightarrow> b \<in> (\<lambda>t. key_bytes (kv_u64 kv) (Key_Timestamp t)) ` timed msgs" for b
    using stored_rows [OF assms(2), of Sc_Timestamp b]
    by (force simp: message_schemas_def locs_def message_rows_def message_indexes_def loc_def timed_def)
  then obtain ks where ks: "kv_iterator kv Sc_Timestamp mode s =
        Inr (map (\<lambda>t. (Inr (Key_Timestamp t), Inr (the (view s (loc kv (Key_Timestamp t)))))) ks)"
      "set ks = {t \<in> timed msgs. from_mode (kv_u64 kv) mode (key_bytes (kv_u64 kv) (Key_Timestamp t))}"
      "sorted_wrt (\<lambda>i j. if mode_forward mode
        then lex_less (key_bytes (kv_u64 kv) (Key_Timestamp i)) (key_bytes (kv_u64 kv) (Key_Timestamp j))
        else lex_less (key_bytes (kv_u64 kv) (Key_Timestamp j)) (key_bytes (kv_u64 kv) (Key_Timestamp i))) ks"
    by (rule typed_table [OF assms(1), of Sc_Timestamp Key_Timestamp s "timed msgs" mode, rotated 3])
      (simp_all add: inj_def)
  then show thesis using that [of "\<lambda>t. Inr (the (view s (loc kv (Key_Timestamp t))))" ks]
    by (simp add: timestamp.encode_less cong: if_cong)
qed


section \<open>Opening again\<close>

lemma counter_messages:
  assumes laws: "iter_laws kv view" and h: "holds_messages kv view s (window limit ms)"
    and "limit \<noteq> Some 0" "length ms < 2 ^ 48"
  shows "get_or 0 (counter kv Sc_Message s) = of_nat (length ms)"
proof -
  obtain ks where ks: "kv_iterator kv Sc_Message Iter_End s =
      Inr (map (\<lambda>i. (Inr (Key_Message i), Inr (the (view s (Sc_Message, kv_u64 kv i))))) ks)"
      "sorted_wrt (before (mode_forward Iter_End)) ks"
      "set ks = {i. window limit ms i \<noteq> None \<and> from_mode (kv_u64 kv) Iter_End (kv_u64 kv i)}"
    by (rule message_table [OF laws h])
  show ?thesis
  proof (cases "ms = []")
    case True
    then have "ks = []" using ks(3) by (simp add: window_def)
    then show ?thesis using ks(1) True by (simp add: counter_def get_or_def)
  next
    case False
    let ?last = "of_nat (length ms - 1) :: u64"
    have un: "unat ?last = length ms - 1" using assms(4) by (simp add: unat_of_nat)
    have "window limit ms ?last \<noteq> None"
    proof (cases limit)
      case None
      then show ?thesis using un False by (simp add: window_def)
    next
      case (Some l)
      then have "0 < unat l" using assms(3) by (simp add: unat_gt_0)
      then show ?thesis using Some un False by (simp add: window_def)
    qed
    then have "?last \<in> set ks" using ks(3) by simp
    then obtain k ks' where k: "ks = k # ks'" by (cases ks) auto
    have "\<not> k < ?last" using \<open>?last \<in> set ks\<close> ks(2) by (auto simp: k before_def)
    moreover have "unat k < length ms" using ks(3) k by (auto simp: window_def split: if_splits)
    ultimately have "k = ?last" using un False by (simp add: word_less_nat_alt word_unat_eq_iff)
    then have "k + 1 = of_nat (length ms)" using False by (cases ms) simp_all
    then show ?thesis using ks(1) k by (simp add: counter_def get_or_def)
  qed
qed

lemma db_after_more:
  assumes "kv_laws kv view" "kv_reliable kv" "limit \<noteq> Some 0" "storable (ops @ ops')" "db_after kv view limit ops db"
  shows "db_after kv view limit (ops @ ops') (fold (db_exec kv) ops' db)"
  using assms(4)
proof (induction ops' rule: rev_induct)
  case (snoc op ops')
  have "storable (ops @ ops')" using storable_snoc [of "ops @ ops'" op] snoc.prems by simp
  from db_after_step [OF assms(1-3) _ snoc.IH [OF this], of op] snoc.prems show ?case by simp
qed (use assms(5) in simp)

text \<open>
  A run of the recorder opens the database, makes its calls and closes it; \<open>sessions\<close> is a number of runs, one
  after the other, with the same limits.
\<close>

fun sessions ::
    "'st kv \<Rightarrow> u64 option \<Rightarrow> u64 option \<Rightarrow> db_op list list \<Rightarrow> 'st \<Rightarrow> db_error + 'st" where
  "sessions kv log_limit limit [] s = Inr s"
| "sessions kv log_limit limit (ops # opss) s =
     and_then (db_open kv (Inr s) (Inr ()) False log_limit limit) (\<lambda>db.
     sessions kv log_limit limit opss (db_inner (fold (db_exec kv) ops db)))"

lemma sessions_hold:
  assumes laws: "kv_laws kv view" "kv_reliable kv" "iter_laws kv view" and "limit \<noteq> Some 0"
    and "storable (ops @ concat opss)" and "holds_messages kv view s (window limit (stored_messages ops))"
  shows "\<exists>s'. sessions kv log_limit limit opss s = Inr s' \<and>
    holds_messages kv view s' (window limit (stored_messages (ops @ concat opss)))"
  using assms(5,6)
proof (induction opss arbitrary: ops s)
  case (Cons ops' opss)
  let ?db = "\<lparr>db_message_store_limit = limit, db_message_counter = get_or 0 (counter kv Sc_Message s),
    db_log_store_limit = log_limit, db_log_counter = get_or 0 (counter kv Sc_Log s),
    db_log_indexer = False, db_indexed = [], db_inner = s\<rparr>"
  have st: "storable (ops @ ops')" and n: "length (stored_messages ops) < 2 ^ 48"
    using Cons.prems(1) by (auto simp: storable_def)
  have "db_after kv view limit ops ?db"
    using counter_messages [OF laws(3) Cons.prems(2) assms(4) n] Cons.prems(2) by (simp add: db_after_def)
  then have "holds_messages kv view (db_inner (fold (db_exec kv) ops' ?db)) (window limit (stored_messages (ops @ ops')))"
    using db_after_more [OF laws(1,2) assms(4) st] by (simp add: db_after_def)
  from Cons.IH [OF _ this] Cons.prems(1) show ?case by (simp add: db_open_def)
qed simp

text \<open>
  C3: The database keeps its promise over restarts. Let any number of runs of the recorder open the same
  database, empty at first, over a store that does not fail, with the same limit (none, or at least one message), and
  make any calls. Every run opens it, and in the end it holds exactly the last messages of all runs
  together, under consecutive numbers, as many as the limit allows, each with its index rows.
\<close>

theorem sessions_retained:
  assumes "kv_laws kv view" "kv_reliable kv" "iter_laws kv view" and "limit \<noteq> Some 0" and "storable (concat opss)"
    and "\<forall>l. fst l \<in> message_schemas \<longrightarrow> view s l = None"
  shows "\<exists>s'. sessions kv log_limit limit opss s = Inr s' \<and>
    holds_messages kv view s' (window limit (stored_messages (concat opss)))"
proof -
  have "holds_messages kv view s (window limit (stored_messages []))"
    using assms(6) by (simp add: holds_messages_def window_def)
  then show ?thesis using sessions_hold [OF assms(1-4), of "[]" opss s log_limit] assms(5) by simp
qed


section \<open>Ranges of time\<close>

lemma takeWhile_True [simp]: "takeWhile (\<lambda>_. True) xs = xs"
  by (induction xs) simp_all

lemma takeWhile_sorted:
  assumes "sorted_wrt R xs" "\<And>a b. R a b \<Longrightarrow> P b \<Longrightarrow> P a"
  shows "takeWhile P xs = filter P xs"
  using assms(1)
proof (induction xs)
  case (Cons x xs)
  show ?case
  proof (cases "P x")
    case False
    then have "filter P xs = []" using Cons.prems assms(2) by (auto simp: filter_empty_conv)
    then show ?thesis using False by simp
  qed (use Cons in simp)
qed simp

text \<open>A query by a range of time and nothing else.\<close>

definition time_filter :: "messages_filter \<Rightarrow> bool" where
  "time_filter fl \<longleftrightarrow>
     mfl_remote_addr fl = None \<and> mfl_source_type fl = None \<and> mfl_incoming fl = None \<and> mfl_types fl = None \<and>
     mfl_timestamp fl = None \<and> \<not> (mfl_from fl = None \<and> mfl_to fl = None)"

definition in_range :: "messages_filter \<Rightarrow> timestamp_item \<Rightarrow> bool" where
  "in_range fl t \<longleftrightarrow>
     (\<forall>b. mfl_from fl = Some b \<longrightarrow> b \<le> ts_timestamp t) \<and> (\<forall>e. mfl_to fl = Some e \<longrightarrow> ts_timestamp t \<le> e)"

lemma timestamp_keys_typed: "timestamp_keys (map (\<lambda>t. (Inr (Key_Timestamp t), v t)) ks) = ks"
  by (induction ks) (simp_all add: timestamp_keys_def List.map_filter_simps)

lemma message_iters_time:
  assumes "time_filter fl"
  shows "message_iters env fl s =
    range_iter (de_kv env) Sc_Timestamp Key_Timestamp (mfl_from fl) (mfl_to fl) (is_forward (mfl_direction fl)) s"
proof -
  let ?r = "range_iter (de_kv env) Sc_Timestamp Key_Timestamp (mfl_from fl) (mfl_to fl) (is_forward (mfl_direction fl)) s"
  show ?thesis using assms
    by (cases ?r) (simp_all add: message_iters_def time_filter_def all_iters_def opt_iter_def middle_iter_def
        map_ok_def Let_def)
qed

definition range_mode :: "messages_filter \<Rightarrow> bool \<Rightarrow> iterator_mode" where
  "range_mode fl forward = (case mfl_to fl of
     Some t \<Rightarrow> Iter_From (Key_Timestamp \<lparr>ts_timestamp = t, ts_index = - 1\<rparr>) forward
   | None \<Rightarrow> if forward then Iter_Start else Iter_End)"

lemma mode_forward_range [simp]: "mode_forward (range_mode fl forward) = forward"
  by (simp add: range_mode_def split: option.splits)

lemma range_iter_keys:
  assumes "time_filter fl" "kv_iterator kv Sc_Timestamp (range_mode fl forward) s =
      Inr (map (\<lambda>t. (Inr (Key_Timestamp t), v t)) ks)"
  shows "range_iter kv Sc_Timestamp Key_Timestamp (mfl_from fl) (mfl_to fl) forward s =
    Inr [map ts_index (takeWhile (\<lambda>k. \<forall>b. mfl_from fl = Some b \<longrightarrow> (b \<le> ts_timestamp k) \<noteq> forward) ks)]"
  using assms
  by (auto simp: range_iter_def range_mode_def time_filter_def timestamp_keys_typed map_ok_def Let_def
      split: option.splits)

lemma fetch_messages_time_iter:
  assumes "time_filter fl" "message_iters env fl s = Inr [map ts_index ts]"
    and "\<forall>t \<in> set ts. get_message (de_kv env) (ts_index t) s = Inr (Some (the (msgs (ts_index t))))"
  shows "fetch_messages env fl s = Inr (Inr (map (\<lambda>t. message_frontend_new (the (msgs (ts_index t))) (ts_index t)
    (preview env (the (msgs (ts_index t))) (ts_index t) s)) (take (limit_of (mfl_limit fl)) ts)))"
proof -
  have m: "List.map_filter (\<lambda>i. case get_message (de_kv env) i s of
          Inr (Some m) \<Rightarrow> Some (message_frontend_new m i (preview env m i s)) | _ \<Rightarrow> None) (map ts_index xs) =
        map (\<lambda>t. message_frontend_new (the (msgs (ts_index t))) (ts_index t)
          (preview env (the (msgs (ts_index t))) (ts_index t) s)) xs" if "set xs \<subseteq> set ts" for xs
    using that assms(3) by (induction xs) (auto simp: List.map_filter_simps)
  have "sorted_intersect [map ts_index ts] n forward = Inr (map ts_index (take n ts))" for n forward
    by (simp add: sorted_intersect_def take_map)
  moreover have "\<not> (mfl_remote_addr fl = None \<and> mfl_source_type fl = None \<and> mfl_incoming fl = None \<and>
       mfl_types fl = None \<and> mfl_from fl = None \<and> mfl_to fl = None \<and> mfl_timestamp fl = None)"
    using assms(1) unfolding time_filter_def by blast
  ultimately show ?thesis
    unfolding fetch_messages_def Let_def assms(2) by (simp only: if_False sum.case map_ok_def m set_take_subset)
qed

text \<open>
  C25: The messages of a time span, the latest first. Over a database that holds the messages \<open>msgs\<close>, a query
  by a range of time in the default direction returns exactly the messages whose
  timestamps lie between the two bounds (each may be absent), in descending order of their
  timestamps, the first ones up to the limit.
\<close>

theorem fetch_messages_time:
  assumes "kv_laws (de_kv env) view" "kv_reliable (de_kv env)" "iter_laws (de_kv env) view"
    and "holds_messages (de_kv env) view s msgs" "\<forall>i m. msgs i = Some m \<longrightarrow> wf_row m i"
    and "time_filter fl" and "\<not> is_forward (mfl_direction fl)"
  shows "\<exists>ts. sorted_wrt (\<lambda>a b. timestamp_less b a) ts \<and> set ts = {t \<in> timed msgs. in_range fl t} \<and>
    fetch_messages env fl s = Inr (Inr (map (\<lambda>t. message_frontend_new (the (msgs (ts_index t))) (ts_index t)
      (preview env (the (msgs (ts_index t))) (ts_index t) s)) (take (limit_of (mfl_limit fl)) ts)))"
proof -
  let ?mode = "range_mode fl False"
  obtain ks v where ks: "kv_iterator (de_kv env) Sc_Timestamp ?mode s = Inr (map (\<lambda>t. (Inr (Key_Timestamp t), v t)) ks)"
      "sorted_wrt (\<lambda>a b. if mode_forward ?mode then timestamp_less a b else timestamp_less b a) ks"
      "set ks = {t \<in> timed msgs. from_mode (kv_u64 (de_kv env)) ?mode (timestamp_encode t)}"
    by (rule timestamp_table [OF assms(3,4)])
  let ?P = "\<lambda>k. \<forall>b. mfl_from fl = Some b \<longrightarrow> b \<le> ts_timestamp k"
  have sorted: "sorted_wrt (\<lambda>a b. timestamp_less b a) ks" using ks(2) by simp
  have take: "takeWhile ?P ks = filter ?P ks"
    using sorted by (rule takeWhile_sorted) (auto simp: timestamp_less_def intro: order_trans)
  have from_to: "from_mode (kv_u64 (de_kv env)) ?mode (timestamp_encode t) \<longleftrightarrow>
      (\<forall>e. mfl_to fl = Some e \<longrightarrow> ts_timestamp t \<le> e)" for t
    by (auto simp: range_mode_def key_order_def timestamp.encode_less timestamp_less_def not_less word_order.extremum_strict
        split: option.splits)
  have iters: "message_iters env fl s = Inr [map ts_index (filter ?P ks)]"
    using message_iters_time [OF assms(6), of env s] range_iter_keys [OF assms(6) ks(1)] assms(7) by (simp add: take)
  have set_ts: "set (filter ?P ks) = {t \<in> timed msgs. in_range fl t}"
    using ks(3) from_to by (auto simp: in_range_def)
  have "\<forall>t \<in> set (filter ?P ks). get_message (de_kv env) (ts_index t) s = Inr (Some (the (msgs (ts_index t))))"
    using holds_get [OF assms(1,2,4,5)] unfolding set_ts by (auto simp: timed_def)
  from fetch_messages_time_iter [OF assms(6) iters this] set_ts sorted show ?thesis
    by (intro exI [of _ "filter ?P ks"]) (simp add: sorted_wrt_filter)
qed

text \<open>
  C37: Forward queries by a range of time find nothing. With both bounds, the lower not above the upper, a query in
  the forward direction returns the empty list whatever messages the database holds: the scan
  starts at the upper bound and stops at the first key that is not below the lower one.
\<close>

theorem fetch_messages_time_forward:
  assumes "iter_laws (de_kv env) view" "holds_messages (de_kv env) view s msgs" and "time_filter fl"
    and "is_forward (mfl_direction fl)" and "mfl_from fl = Some b" "mfl_to fl = Some e" "b \<le> e"
  shows "fetch_messages env fl s = Inr (Inr [])"
proof -
  let ?mode = "range_mode fl True"
  obtain ks v where ks: "kv_iterator (de_kv env) Sc_Timestamp ?mode s = Inr (map (\<lambda>t. (Inr (Key_Timestamp t), v t)) ks)"
      "set ks = {t \<in> timed msgs. from_mode (kv_u64 (de_kv env)) ?mode (timestamp_encode t)}"
    by (rule timestamp_table [OF assms(1,2)])
  have "e \<le> ts_timestamp t" if "t \<in> set ks" for t
    using that ks(2) assms(6) by (auto simp: range_mode_def key_order_def timestamp.encode_less timestamp_less_def not_less)
  then have "takeWhile (\<lambda>k. \<forall>b. mfl_from fl = Some b \<longrightarrow> (b \<le> ts_timestamp k) \<noteq> True) ks = []"
    using assms(5,7) by (cases ks) (auto intro: order_trans)
  then have "message_iters env fl s = Inr [map ts_index []]"
    using message_iters_time [OF assms(3), of env s] range_iter_keys [OF assms(3) ks(1)] assms(4) by simp
  from fetch_messages_time_iter [OF assms(3) this] show ?thesis by simp
qed

section \<open>Previews\<close>

lemma boundary_below_spec:
  "boundary_below s m \<le> m \<and> is_char_boundary s (boundary_below s m) \<and>
   (\<forall>j. boundary_below s m < j \<longrightarrow> j \<le> m \<longrightarrow> \<not> is_char_boundary s j)"
proof (induction m)
  case 0
  then show ?case by (simp add: is_char_boundary_def)
next
  case (Suc m)
  then show ?case by (auto simp: le_Suc_eq)
qed

text \<open>
  C38: The preview of a message is cut between characters and not sooner than needed: it is a prefix of the text
  of at most the given number of bytes, it ends at a boundary of characters, so that the program does not panic there, and no
  longer prefix within the bound does.
\<close>

theorem utf8_truncate_bounds:
  "\<exists>n. utf8_truncate s m = take n s \<and> length (utf8_truncate s m) \<le> m \<and> n \<le> length s \<and> is_char_boundary s n \<and>
     {j. n < j \<and> j \<le> m \<and> is_char_boundary s j} = {}"
proof (intro exI [of _ "boundary_below s m"] conjI)
  note b = boundary_below_spec [of s m]
  then show "length (utf8_truncate s m) \<le> m" by (simp add: utf8_truncate_def min_def)
  show "boundary_below s m \<le> length s" using b by (auto simp: is_char_boundary_def)
qed (use boundary_below_spec [of s m] in \<open>auto simp: utf8_truncate_def\<close>)


section \<open>The concrete store\<close>

lemma sample_key_bytes:
  "sc \<in> {Sc_Message, Sc_Timestamp} \<Longrightarrow> schema_of k = sc \<Longrightarrow> sample_key sc (key_bytes to_be_bytes k) = k"
  by (cases k) (auto simp: timestamp.decode_encode)

lemma sample_iter_laws: "iter_laws sample_kv map_of"
  unfolding iter_laws_def
proof (intro conjI allI impI)
  have u: "kv_u64 sample_kv = to_be_bytes" by (simp add: sample_kv_def)
  show "lex_less (kv_u64 sample_kv i) (kv_u64 sample_kv j) \<longleftrightarrow> i < j" for i j
    by (simp add: u lex_less_to_be_bytes)
  fix sc mode K and s :: sample_st
  assume sc: "sc \<in> {Sc_Message, Sc_Timestamp}" and K: "\<forall>k \<in> K. schema_of k = sc"
    and st: "\<forall>b. map_of s (sc, b) \<noteq> None \<longleftrightarrow> b \<in> key_bytes (kv_u64 sample_kv) ` K"
  define bs where "bs = filter (from_mode to_be_bytes mode) (sample_keys sc (mode_forward mode) s)"
  have set_bs: "set bs = {b \<in> key_bytes to_be_bytes ` K. from_mode to_be_bytes mode b}"
    using st by (auto simp: bs_def set_sample_keys u)
  have inv_key: "sample_key sc (key_bytes to_be_bytes k) = k" if "k \<in> K" for k
    using sample_key_bytes [OF sc] K that by blast
  have key: "key_bytes to_be_bytes (sample_key sc b) = b" "loc sample_kv (sample_key sc b) = (sc, b)" if b: "b \<in> set bs" for b
  proof -
    obtain k where "k \<in> K" "b = key_bytes to_be_bytes k" using b unfolding set_bs by blast
    then show "key_bytes to_be_bytes (sample_key sc b) = b" "loc sample_kv (sample_key sc b) = (sc, b)"
      using inv_key K by (simp_all add: loc_def u)
  qed
  have "kv_iterator sample_kv sc mode s =
      Inr (map (\<lambda>k. (Inr k, Inr (the (map_of s (loc sample_kv k))))) (map (sample_key sc) bs))"
    using key by (simp add: sample_kv_def bs_def [symmetric])
  moreover have "set (map (sample_key sc) bs) = {k \<in> K. from_mode to_be_bytes mode (key_bytes to_be_bytes k)}"
    using inv_key by (force simp: set_bs)
  moreover have "map (key_bytes to_be_bytes) (map (sample_key sc) bs) = bs"
    using key by (induction bs) simp_all
  moreover have "sorted_wrt (\<lambda>a b. if mode_forward mode then lex_less a b else lex_less b a) bs"
    unfolding bs_def by (intro sorted_wrt_filter sample_keys_sorted)
  ultimately show "\<exists>ks. kv_iterator sample_kv sc mode s = Inr (map (\<lambda>k. (Inr k, Inr (the (map_of s (loc sample_kv k))))) ks) \<and>
      set ks = {k \<in> K. from_mode (kv_u64 sample_kv) mode (key_bytes (kv_u64 sample_kv) k)} \<and>
      sorted_wrt (\<lambda>a b. if mode_forward mode then lex_less a b else lex_less b a) (map (key_bytes (kv_u64 sample_kv)) ks)"
    unfolding u by (intro exI [of _ "map (sample_key sc) bs"] conjI) simp_all
qed

lemma sample_env_kv: "de_kv sample_db_env = sample_kv"
  by (simp add: sample_db_env_def)

theorem sessions_retained_witness:
  "\<exists>s'. sessions sample_kv None (Some 1) [sample_ops, [], [StoreMessage (sample_message 0)]] [] = Inr s' \<and>
    holds_messages sample_kv map_of s'
      (window (Some 1) (stored_messages (concat [sample_ops, [], [StoreMessage (sample_message 0)]])))"
  by (rule sessions_retained [OF sample_kv_laws sample_kv_reliable sample_iter_laws])
    (simp_all add: storable_def sample_ops_def sample_message_def sample_addr_def)

definition sample_time_filter :: "string option \<Rightarrow> messages_filter" where
  "sample_time_filter direction =
     \<lparr>mfl_direction = direction, mfl_limit = Some 5, mfl_cursor = None, mfl_remote_addr = None,
      mfl_source_type = None, mfl_incoming = None, mfl_types = None, mfl_from = Some 4, mfl_to = Some 12,
      mfl_timestamp = None, mfl_node_name = None\<rparr>"

theorem fetch_messages_time_witness:
  "\<exists>ts. sorted_wrt (\<lambda>a b. timestamp_less b a) ts \<and>
    set ts = {t \<in> timed (window (Some 1) (stored_messages sample_ops)). in_range (sample_time_filter None) t} \<and>
    fetch_messages sample_db_env (sample_time_filter None) sample_inner =
      Inr (Inr (map (\<lambda>t. message_frontend_new (the (window (Some 1) (stored_messages sample_ops) (ts_index t))) (ts_index t)
        (preview sample_db_env (the (window (Some 1) (stored_messages sample_ops) (ts_index t))) (ts_index t) sample_inner))
        (take (limit_of (mfl_limit (sample_time_filter None))) ts)))"
proof (rule fetch_messages_time [where view = map_of])
  show "\<forall>i m. window (Some 1) (stored_messages sample_ops) i = Some m \<longrightarrow> wf_row m i"
    using window_wf [OF sample_ops_storable] by blast
  show "time_filter (sample_time_filter None)" "\<not> is_forward (mfl_direction (sample_time_filter None))"
    by (simp_all add: time_filter_def sample_time_filter_def is_forward_def)
qed (simp_all add: sample_env_kv sample_kv_laws sample_kv_reliable sample_iter_laws sample_inner_holds)

theorem fetch_messages_time_forward_witness:
  "fetch_messages sample_db_env (sample_time_filter (Some ''forward'')) sample_inner = Inr (Inr [])"
  by (rule fetch_messages_time_forward [where view = map_of and b = 4 and e = 12, OF _ sample_inner_holds [folded sample_env_kv]])
    (simp_all add: sample_env_kv sample_iter_laws time_filter_def sample_time_filter_def is_forward_def)

end
