(* ===== verification/Memprof_Event.thy ===== *)
theory Memprof_Event
  imports Rust_Strings
begin

text \<open>
  The records of the memory profiler, \<^verbatim>\<open>bpf-memprof-common/src/{event,client,lib}.rs\<close>: the payloads of the
  tracepoints of the kernel (the trait \<^verbatim>\<open>Pod\<close>: a size, a discriminant, a reader), the stack of the
  caller and the parser of a whole record. Signed fields are words, read with \<open>sint\<close>.
\<close>

section \<open>Payloads\<close>

type_synonym hex64 = u64
type_synonym hex32 = u32

record common_header =
  ch_ty :: u16
  ch_flags :: u8
  ch_preempt_count :: u8
  ch_pid :: u32

definition common_header_from_slice :: "bytes \<Rightarrow> common_header option" where
  "common_header_from_slice s =
     (if length s < 0x08 then None
      else Some \<lparr>ch_ty = from_ne_bytes (sub s 0x00 0x02), ch_flags = s ! 0x02,
                 ch_preempt_count = s ! 0x03, ch_pid = from_ne_bytes (sub s 0x04 0x08)\<rparr>)"

record kfree =
  kf_call_site :: u64
  kf_ptr :: u64

definition kfree_from_slice :: "bytes \<Rightarrow> kfree option" where
  "kfree_from_slice s =
     (if length s < 0x10 then None
      else Some \<lparr>kf_call_site = from_ne_bytes (sub s 0x00 0x08),
                 kf_ptr = from_ne_bytes (sub s 0x08 0x10)\<rparr>)"

record kmalloc =
  kma_call_site :: u64
  kma_ptr :: u64
  kma_bytes_req :: u64
  kma_bytes_alloc :: u64
  kma_gfp_flags :: u32

definition kmalloc_from_slice :: "bytes \<Rightarrow> kmalloc option" where
  "kmalloc_from_slice s =
     (if length s < 0x24 then None
      else Some \<lparr>kma_call_site = from_ne_bytes (sub s 0x00 0x08),
                 kma_ptr = from_ne_bytes (sub s 0x08 0x10),
                 kma_bytes_req = from_ne_bytes (sub s 0x10 0x18),
                 kma_bytes_alloc = from_ne_bytes (sub s 0x18 0x20),
                 kma_gfp_flags = from_ne_bytes (sub s 0x20 0x24)\<rparr>)"

record kmalloc_node =
  kmn_call_site :: u64
  kmn_ptr :: u64
  kmn_bytes_req :: u64
  kmn_bytes_alloc :: u64
  kmn_gfp_flags :: u32
  kmn_node :: u32

definition kmalloc_node_from_slice :: "bytes \<Rightarrow> kmalloc_node option" where
  "kmalloc_node_from_slice s =
     (if length s < 0x28 then None
      else Some \<lparr>kmn_call_site = from_ne_bytes (sub s 0x00 0x08),
                 kmn_ptr = from_ne_bytes (sub s 0x08 0x10),
                 kmn_bytes_req = from_ne_bytes (sub s 0x10 0x18),
                 kmn_bytes_alloc = from_ne_bytes (sub s 0x18 0x20),
                 kmn_gfp_flags = from_ne_bytes (sub s 0x20 0x24),
                 kmn_node = from_ne_bytes (sub s 0x24 0x28)\<rparr>)"

record cache_alloc =
  ca_call_site :: u64
  ca_ptr :: u64
  ca_bytes_req :: u64
  ca_bytes_alloc :: u64
  ca_gfp_flags :: u32

definition cache_alloc_from_slice :: "bytes \<Rightarrow> cache_alloc option" where
  "cache_alloc_from_slice s =
     (if length s < 0x24 then None
      else Some \<lparr>ca_call_site = from_ne_bytes (sub s 0x00 0x08),
                 ca_ptr = from_ne_bytes (sub s 0x08 0x10),
                 ca_bytes_req = from_ne_bytes (sub s 0x10 0x18),
                 ca_bytes_alloc = from_ne_bytes (sub s 0x18 0x20),
                 ca_gfp_flags = from_ne_bytes (sub s 0x20 0x24)\<rparr>)"

record cache_alloc_node =
  can_call_site :: u64
  can_ptr :: u64
  can_bytes_req :: u64
  can_bytes_alloc :: u64
  can_gfp_flags :: u32
  can_node :: u32

definition cache_alloc_node_from_slice :: "bytes \<Rightarrow> cache_alloc_node option" where
  "cache_alloc_node_from_slice s =
     (if length s < 0x28 then None
      else Some \<lparr>can_call_site = from_ne_bytes (sub s 0x00 0x08),
                 can_ptr = from_ne_bytes (sub s 0x08 0x10),
                 can_bytes_req = from_ne_bytes (sub s 0x10 0x18),
                 can_bytes_alloc = from_ne_bytes (sub s 0x18 0x20),
                 can_gfp_flags = from_ne_bytes (sub s 0x20 0x24),
                 can_node = from_ne_bytes (sub s 0x24 0x28)\<rparr>)"

record cache_free =
  cf_call_site :: u64
  cf_ptr :: u64

definition cache_free_from_slice :: "bytes \<Rightarrow> cache_free option" where
  "cache_free_from_slice s =
     (if length s < 0x10 then None
      else Some \<lparr>cf_call_site = from_ne_bytes (sub s 0x00 0x08),
                 cf_ptr = from_ne_bytes (sub s 0x08 0x10)\<rparr>)"

record page_alloc =
  pa_pfn :: u64
  pa_order :: u32
  pa_gfp_flags :: u32
  pa_migrate_ty :: u32

definition page_alloc_from_slice :: "bytes \<Rightarrow> page_alloc option" where
  "page_alloc_from_slice s =
     (if length s < 0x14 then None
      else Some \<lparr>pa_pfn = from_ne_bytes (sub s 0x00 0x08),
                 pa_order = from_ne_bytes (sub s 0x08 0x0c),
                 pa_gfp_flags = from_ne_bytes (sub s 0x0c 0x10),
                 pa_migrate_ty = from_ne_bytes (sub s 0x10 0x14)\<rparr>)"

record page_free =
  pf_pfn :: u64
  pf_order :: u32

definition page_free_from_slice :: "bytes \<Rightarrow> page_free option" where
  "page_free_from_slice s =
     (if length s < 0x0c then None
      else Some \<lparr>pf_pfn = from_ne_bytes (sub s 0x00 0x08),
                 pf_order = from_ne_bytes (sub s 0x08 0x0c)\<rparr>)"

record page_free_batched =
  pfb_pfn :: u64

definition page_free_batched_from_slice :: "bytes \<Rightarrow> page_free_batched option" where
  "page_free_batched_from_slice s =
     (if length s < 0x08 then None
      else Some \<lparr>pfb_pfn = from_ne_bytes (sub s 0x00 0x08)\<rparr>)"

record rss_stat =
  rs_id :: u32
  rs_curr :: u32
  rs_member :: u32
  rs_size :: u64

definition rss_stat_from_slice :: "bytes \<Rightarrow> rss_stat option" where
  "rss_stat_from_slice s =
     (if length s < 0x18 then None
      else Some \<lparr>rs_id = from_ne_bytes (sub s 0x00 0x04),
                 rs_curr = from_ne_bytes (sub s 0x04 0x08),
                 rs_member = from_ne_bytes (sub s 0x08 0x0c),
                 rs_size = from_ne_bytes (sub s 0x10 0x18)\<rparr>)"

record percpu_alloc =
  pca_reserved :: bool
  pca_is_atomic :: bool
  pca_size :: u64
  pca_align :: u64
  pca_base_address :: u64
  pca_off :: u32
  pca_ptr :: u64

definition percpu_alloc_from_slice :: "bytes \<Rightarrow> percpu_alloc option" where
  "percpu_alloc_from_slice s =
     (if length s < 0x30 then None
      else Some \<lparr>pca_reserved = (s ! 0x00 \<noteq> 0),
                 pca_is_atomic = (s ! 0x01 \<noteq> 0),
                 pca_size = from_ne_bytes (sub s 0x08 0x10),
                 pca_align = from_ne_bytes (sub s 0x10 0x18),
                 pca_base_address = from_ne_bytes (sub s 0x18 0x20),
                 pca_off = from_ne_bytes (sub s 0x20 0x24),
                 pca_ptr = from_ne_bytes (sub s 0x28 0x30)\<rparr>)"

record percpu_free =
  pcf_base_address :: u64
  pcf_off :: u32
  pcf_ptr :: u64

definition percpu_free_from_slice :: "bytes \<Rightarrow> percpu_free option" where
  "percpu_free_from_slice s =
     (if length s < 0x18 then None
      else Some \<lparr>pcf_base_address = from_ne_bytes (sub s 0x00 0x08),
                 pcf_off = from_ne_bytes (sub s 0x08 0x0c),
                 pcf_ptr = from_ne_bytes (sub s 0x10 0x18)\<rparr>)"

record add_to_page_cache =
  apc_pfn :: u64
  apc_i_ino :: u64
  apc_index :: u64
  apc_s_dev :: u64

definition add_to_page_cache_from_slice :: "bytes \<Rightarrow> add_to_page_cache option" where
  "add_to_page_cache_from_slice s =
     (if length s < 0x20 then None
      else Some \<lparr>apc_pfn = from_ne_bytes (sub s 0x00 0x08),
                 apc_i_ino = from_ne_bytes (sub s 0x08 0x10),
                 apc_index = from_ne_bytes (sub s 0x10 0x18),
                 apc_s_dev = from_ne_bytes (sub s 0x18 0x20)\<rparr>)"

record remove_from_page_cache =
  rpc_pfn :: u64
  rpc_i_ino :: u64
  rpc_index :: u64
  rpc_s_dev :: u64

definition remove_from_page_cache_from_slice :: "bytes \<Rightarrow> remove_from_page_cache option" where
  "remove_from_page_cache_from_slice s =
     (if length s < 0x20 then None
      else Some \<lparr>rpc_pfn = from_ne_bytes (sub s 0x00 0x08),
                 rpc_i_ino = from_ne_bytes (sub s 0x08 0x10),
                 rpc_index = from_ne_bytes (sub s 0x10 0x18),
                 rpc_s_dev = from_ne_bytes (sub s 0x18 0x20)\<rparr>)"

datatype event_kind =
    Ev_KFree kfree
  | Ev_KMAlloc kmalloc
  | Ev_KMAllocNode kmalloc_node
  | Ev_CacheAlloc cache_alloc
  | Ev_CacheAllocNode cache_alloc_node
  | Ev_CacheFree cache_free
  | Ev_PageAlloc page_alloc
  | Ev_PageFree page_free
  | Ev_PageFreeBatched page_free_batched
  | Ev_RssStat rss_stat
  | Ev_PercpuAlloc percpu_alloc
  | Ev_PercpuFree percpu_free
  | Ev_AddToPageCache add_to_page_cache
  | Ev_RemoveFromPageCache remove_from_page_cache

text \<open>The types that implement \<^verbatim>\<open>Pod\<close> and can be an event, in the order in which the parser tries them.\<close>

datatype pod =
    Pod_KFree | Pod_KMAlloc | Pod_KMAllocNode | Pod_CacheAlloc | Pod_CacheAllocNode | Pod_CacheFree | Pod_PageAlloc
  | Pod_PageFree | Pod_PageFreeBatched | Pod_RssStat | Pod_PercpuAlloc | Pod_PercpuFree | Pod_AddToPageCache | Pod_RemoveFromPageCache

fun pod_discriminant :: "pod \<Rightarrow> u32" where
  "pod_discriminant Pod_KFree = 1"
| "pod_discriminant Pod_KMAlloc = 2"
| "pod_discriminant Pod_KMAllocNode = 3"
| "pod_discriminant Pod_CacheAlloc = 4"
| "pod_discriminant Pod_CacheAllocNode = 5"
| "pod_discriminant Pod_CacheFree = 6"
| "pod_discriminant Pod_PageAlloc = 7"
| "pod_discriminant Pod_PageFree = 10"
| "pod_discriminant Pod_PageFreeBatched = 11"
| "pod_discriminant Pod_RssStat = 13"
| "pod_discriminant Pod_PercpuAlloc = 15"
| "pod_discriminant Pod_PercpuFree = 15"
| "pod_discriminant Pod_AddToPageCache = 16"
| "pod_discriminant Pod_RemoveFromPageCache = 17"

fun pod_size :: "pod \<Rightarrow> nat" where
  "pod_size Pod_KFree = 0x10"
| "pod_size Pod_KMAlloc = 0x24"
| "pod_size Pod_KMAllocNode = 0x28"
| "pod_size Pod_CacheAlloc = 0x24"
| "pod_size Pod_CacheAllocNode = 0x28"
| "pod_size Pod_CacheFree = 0x10"
| "pod_size Pod_PageAlloc = 0x14"
| "pod_size Pod_PageFree = 0x0c"
| "pod_size Pod_PageFreeBatched = 0x08"
| "pod_size Pod_RssStat = 0x18"
| "pod_size Pod_PercpuAlloc = 0x30"
| "pod_size Pod_PercpuFree = 0x18"
| "pod_size Pod_AddToPageCache = 0x20"
| "pod_size Pod_RemoveFromPageCache = 0x20"

fun pod_from_slice :: "pod \<Rightarrow> bytes \<Rightarrow> event_kind option" where
  "pod_from_slice Pod_KFree s = map_option Ev_KFree (kfree_from_slice s)"
| "pod_from_slice Pod_KMAlloc s = map_option Ev_KMAlloc (kmalloc_from_slice s)"
| "pod_from_slice Pod_KMAllocNode s = map_option Ev_KMAllocNode (kmalloc_node_from_slice s)"
| "pod_from_slice Pod_CacheAlloc s = map_option Ev_CacheAlloc (cache_alloc_from_slice s)"
| "pod_from_slice Pod_CacheAllocNode s = map_option Ev_CacheAllocNode (cache_alloc_node_from_slice s)"
| "pod_from_slice Pod_CacheFree s = map_option Ev_CacheFree (cache_free_from_slice s)"
| "pod_from_slice Pod_PageAlloc s = map_option Ev_PageAlloc (page_alloc_from_slice s)"
| "pod_from_slice Pod_PageFree s = map_option Ev_PageFree (page_free_from_slice s)"
| "pod_from_slice Pod_PageFreeBatched s = map_option Ev_PageFreeBatched (page_free_batched_from_slice s)"
| "pod_from_slice Pod_RssStat s = map_option Ev_RssStat (rss_stat_from_slice s)"
| "pod_from_slice Pod_PercpuAlloc s = map_option Ev_PercpuAlloc (percpu_alloc_from_slice s)"
| "pod_from_slice Pod_PercpuFree s = map_option Ev_PercpuFree (percpu_free_from_slice s)"
| "pod_from_slice Pod_AddToPageCache s = map_option Ev_AddToPageCache (add_to_page_cache_from_slice s)"
| "pod_from_slice Pod_RemoveFromPageCache s = map_option Ev_RemoveFromPageCache (remove_from_page_cache_from_slice s)"

definition pods :: "pod list" where
  "pods =
     [Pod_KFree, Pod_KMAlloc, Pod_KMAllocNode, Pod_CacheAlloc,
      Pod_CacheAllocNode, Pod_CacheFree, Pod_PageAlloc, Pod_PageFree,
      Pod_PageFreeBatched, Pod_RssStat, Pod_PercpuAlloc, Pod_PercpuFree,
      Pod_AddToPageCache, Pod_RemoveFromPageCache]"

section \<open>Stacks and records\<close>

definition stack_max_depth :: nat where
  "stack_max_depth = 127"

record mem_stack =
  stk_length :: u64
  stk_ips :: "hex64 list"

text \<open>The array has 127 places; writing outside of it panics.\<close>

fun fill_ips :: "nat \<Rightarrow> u64 list \<Rightarrow> hex64 list \<Rightarrow> panic + hex64 list" where
  "fill_ips i [] ips = Inr ips"
| "fill_ips i (ip # f) ips = (if i < length ips then fill_ips (i + 1) f (ips[i := ip]) else Inl Slice_Range)"

definition stack_from_frames :: "u64 list \<Rightarrow> panic + mem_stack" where
  "stack_from_frames f =
     and_then (fill_ips 0 f (replicate stack_max_depth 0)) (\<lambda>ips.
     Inr \<lparr>stk_length = word_of_nat (length f), stk_ips = ips\<rparr>)"

definition stack_ips :: "mem_stack \<Rightarrow> panic + hex64 list" where
  "stack_ips s = slice (stk_ips s) 0 (unat (stk_length s))"

definition stack_from_slice :: "bytes \<Rightarrow> panic + mem_stack option" where
  "stack_from_slice sl =
     (if length sl < 8 then Inr None
      else
        and_then (slice sl 0 8) (\<lambda>b.
        let len = (from_ne_bytes b :: u64) in
        and_then (slice sl 8 (length sl)) (\<lambda>rest.
        if unat len > stack_max_depth \<or> length rest < unat len * 8 then Inr None
        else
          and_then (fill_ips 0 (map (\<lambda>i. from_ne_bytes (sub rest (i * 8) ((i + 1) * 8))) [0..<unat len])
              (replicate stack_max_depth 0)) (\<lambda>ips.
          Inr (Some \<lparr>stk_length = len, stk_ips = ips\<rparr>)))))"

record mem_event =
  mev_header :: common_header
  mev_pid :: u32
  mev_event :: event_kind
  mev_stack :: mem_stack

text \<open>The error is 0 for a record that is too short and 1 for an unknown kind.\<close>

definition mem_event_from_slice :: "bytes \<Rightarrow> panic + u8 + mem_event" where
  "mem_event_from_slice sl =
     (if length sl < 0x10 then Inr (Inl 0)
      else
        and_then (slice sl 0x00 0x08) (\<lambda>h.
        and_then (unwrap (common_header_from_slice h)) (\<lambda>header.
        and_then (slice sl 0x08 0x0c) (\<lambda>p.
        and_then (slice sl 0x0c 0x10) (\<lambda>d.
        and_then (slice sl 0x10 (length sl)) (\<lambda>rest.
        case find (\<lambda>t. (from_ne_bytes d :: u32) = pod_discriminant t) pods of
          None \<Rightarrow> Inr (Inl 1)
        | Some t \<Rightarrow>
            (case pod_from_slice t rest of
               None \<Rightarrow> Inr (Inl 0)
             | Some event \<Rightarrow>
                 and_then (slice rest (pod_size t) (length rest)) (\<lambda>rest'.
                 and_then (stack_from_slice rest') (\<lambda>stack.
                 case stack of
                   None \<Rightarrow> Inr (Inl 0)
                 | Some st \<Rightarrow> Inr (Inr \<lparr>mev_header = header, mev_pid = from_ne_bytes p,
                                     mev_event = event, mev_stack = st\<rparr>))))))))))"

section \<open>The interface of the payloads\<close>

locale pod_reader =
  fixes size_of :: nat
    and from_slice :: "bytes \<Rightarrow> 'a option"
  assumes short_iff: "from_slice s = None \<longleftrightarrow> length s < size_of"
    and reads_prefix: "size_of \<le> length s \<Longrightarrow> from_slice (s @ t) = from_slice s"
begin

lemma reads: "size_of \<le> length s \<Longrightarrow> \<exists>a. from_slice s = Some a"
  using short_iff [of s] by fastforce

lemma reads_take: "size_of \<le> length s \<Longrightarrow> from_slice s = from_slice (take size_of s)"
  using reads_prefix [of "take size_of s" "drop size_of s"] by simp

end

lemmas pod_readers =
  kfree_from_slice_def
  kmalloc_from_slice_def
  kmalloc_node_from_slice_def
  cache_alloc_from_slice_def
  cache_alloc_node_from_slice_def
  cache_free_from_slice_def
  page_alloc_from_slice_def
  page_free_from_slice_def
  page_free_batched_from_slice_def
  rss_stat_from_slice_def
  percpu_alloc_from_slice_def
  percpu_free_from_slice_def
  add_to_page_cache_from_slice_def
  remove_from_page_cache_from_slice_def

interpretation kfree: pod_reader "0x10" kfree_from_slice
  by unfold_locales (simp_all add: pod_readers sub_append_left)

interpretation kmalloc: pod_reader "0x24" kmalloc_from_slice
  by unfold_locales (simp_all add: pod_readers sub_append_left)

interpretation kmalloc_node: pod_reader "0x28" kmalloc_node_from_slice
  by unfold_locales (simp_all add: pod_readers sub_append_left)

interpretation cache_alloc: pod_reader "0x24" cache_alloc_from_slice
  by unfold_locales (simp_all add: pod_readers sub_append_left)

interpretation cache_alloc_node: pod_reader "0x28" cache_alloc_node_from_slice
  by unfold_locales (simp_all add: pod_readers sub_append_left)

interpretation cache_free: pod_reader "0x10" cache_free_from_slice
  by unfold_locales (simp_all add: pod_readers sub_append_left)

interpretation page_alloc: pod_reader "0x14" page_alloc_from_slice
  by unfold_locales (simp_all add: pod_readers sub_append_left)

interpretation page_free: pod_reader "0x0c" page_free_from_slice
  by unfold_locales (simp_all add: pod_readers sub_append_left)

interpretation page_free_batched: pod_reader "0x08" page_free_batched_from_slice
  by unfold_locales (simp_all add: pod_readers sub_append_left)

interpretation rss_stat: pod_reader "0x18" rss_stat_from_slice
  by unfold_locales (simp_all add: pod_readers sub_append_left)

interpretation percpu_alloc: pod_reader "0x30" percpu_alloc_from_slice
  by unfold_locales (auto simp: pod_readers sub_append_left nth_append)

interpretation percpu_free: pod_reader "0x18" percpu_free_from_slice
  by unfold_locales (simp_all add: pod_readers sub_append_left)

interpretation add_to_page_cache: pod_reader "0x20" add_to_page_cache_from_slice
  by unfold_locales (simp_all add: pod_readers sub_append_left)

interpretation remove_from_page_cache: pod_reader "0x20" remove_from_page_cache_from_slice
  by unfold_locales (simp_all add: pod_readers sub_append_left)

interpretation common_header: pod_reader "0x08" common_header_from_slice
  by unfold_locales (auto simp: common_header_from_slice_def sub_append_left nth_append)

lemma pod_short_iff: "pod_from_slice t s = None \<longleftrightarrow> length s < pod_size t"
  by (cases t) (simp_all only: pod_from_slice.simps pod_size.simps option.map_disc_iff
    kfree.short_iff kmalloc.short_iff kmalloc_node.short_iff cache_alloc.short_iff cache_alloc_node.short_iff
    cache_free.short_iff page_alloc.short_iff page_free.short_iff page_free_batched.short_iff rss_stat.short_iff
    percpu_alloc.short_iff percpu_free.short_iff add_to_page_cache.short_iff remove_from_page_cache.short_iff)

lemma pod_reads_prefix: "pod_size t \<le> length s \<Longrightarrow> pod_from_slice t (s @ u) = pod_from_slice t s"
  by (cases t) (simp_all add: kfree.reads_prefix kmalloc.reads_prefix kmalloc_node.reads_prefix
    cache_alloc.reads_prefix cache_alloc_node.reads_prefix cache_free.reads_prefix page_alloc.reads_prefix
    page_free.reads_prefix page_free_batched.reads_prefix rss_stat.reads_prefix percpu_alloc.reads_prefix
    percpu_free.reads_prefix add_to_page_cache.reads_prefix remove_from_page_cache.reads_prefix)

interpretation pod: pod_reader "pod_size t" "pod_from_slice t" for t
  by unfold_locales (rule pod_short_iff, rule pod_reads_prefix)

section \<open>Stacks\<close>

lemma fill_ips_ok:
  "i + length f \<le> length ips \<Longrightarrow> fill_ips i f ips = Inr (take i ips @ f @ drop (i + length f) ips)"
proof (induction f arbitrary: i ips)
  case (Cons ip f)
  then have "take (Suc i) (ips[i := ip]) = take i ips @ [ip]"
    by (simp add: take_Suc_conv_app_nth)
  then show ?case using Cons by simp
qed simp

lemma fill_ips_panic: "length ips < i + length f \<Longrightarrow> i \<le> length ips \<Longrightarrow> fill_ips i f ips = Inl Slice_Range"
  by (induction f arbitrary: i ips) auto

lemma stack_ips_from_frames:
  assumes "length f \<le> stack_max_depth"
  shows "\<exists>s. stack_from_frames f = Inr s \<and> stack_ips s = Inr f"
proof -
  have "unat (word_of_nat (length f) :: u64) = length f"
    using assms by (simp add: stack_max_depth_def unat_of_nat)
  then show ?thesis
    using assms fill_ips_ok [of 0 f "replicate stack_max_depth 0"]
    by (simp add: stack_from_frames_def stack_ips_def slice_def sub_def)
qed

text \<open>A stack on the wire: the number of frames and the frames.\<close>

definition stack_bytes :: "hex64 list \<Rightarrow> bytes" where
  "stack_bytes ips = to_ne_bytes (word_of_nat (length ips) :: u64) @ concat (map to_ne_bytes ips)"

lemma concat_frames_nth:
  "i < length ips \<Longrightarrow> sub (concat (map to_ne_bytes (ips :: hex64 list)) @ t) (i * 8) ((i + 1) * 8) = to_ne_bytes (ips ! i)"
proof (induction ips arbitrary: i)
  case (Cons ip ips)
  show ?case
  proof (cases i)
    case (Suc j)
    then show ?thesis using Cons sub_append_right [of "to_ne_bytes ip" "i * 8"] by simp
  qed (simp add: sub_def)
qed simp

lemma length_frames: "length (concat (map to_ne_bytes (ips :: hex64 list))) = 8 * length ips"
  by (induction ips) simp_all

lemma stack_from_slice_bytes:
  assumes "length ips \<le> stack_max_depth"
  shows "\<exists>s. stack_from_slice (stack_bytes ips @ t) = Inr (Some s) \<and> stack_ips s = Inr ips"
proof -
  let ?rest = "concat (map to_ne_bytes ips) @ t"
  have n: "unat (word_of_nat (length ips) :: u64) = length ips"
    using assms by (simp add: stack_max_depth_def unat_of_nat)
  have s: "slice (stack_bytes ips @ t) 0 8 = Inr (to_ne_bytes (word_of_nat (length ips) :: u64))"
      "slice (stack_bytes ips @ t) 8 (length (stack_bytes ips @ t)) = Inr ?rest"
    by (simp_all add: stack_bytes_def slice_def sub_def)
  have f: "map (\<lambda>i. from_ne_bytes (sub ?rest (i * 8) ((i + 1) * 8))) [0..<length ips] = ips"
    by (rule nth_equalityI) (simp_all only: length_map length_upt nth_map nth_upt concat_frames_nth, simp_all)
  have l: "\<not> length (stack_bytes ips @ t) < 8" "\<not> length ?rest < length ips * 8"
    by (simp_all add: stack_bytes_def length_frames)
  have e: "from_ne_bytes (to_ne_bytes (word_of_nat (length ips) :: u64)) = (word_of_nat (length ips) :: u64)"
    by simp
  show ?thesis
    unfolding stack_from_slice_def s and_then_simps Let_def e n f
    using assms l fill_ips_ok [of 0 ips "replicate stack_max_depth 0"]
    by (simp add: stack_ips_def slice_def sub_def n)
qed

lemma stack_from_slice_total: "\<exists>r. stack_from_slice sl = Inr r"
proof (cases "length sl < 8")
  case False
  then show ?thesis
    using fill_ips_ok [of 0 "map f [0..<n]" "replicate stack_max_depth 0" for f n]
    by (auto simp: stack_from_slice_def slice_def Let_def)
qed (simp add: stack_from_slice_def)


section \<open>Records\<close>

lemma mem_event_from_slice_total: "\<exists>r. mem_event_from_slice sl = Inr r"
proof (cases "length sl < 0x10")
  case True
  then show ?thesis by (simp add: mem_event_from_slice_def)
next
  case False
  let ?rest = "sub sl 0x10 (length sl)" and ?d = "sub sl 0x0c 0x10"
  have s: "slice sl 0x00 0x08 = Inr (sub sl 0x00 0x08)" "slice sl 0x08 0x0c = Inr (sub sl 0x08 0x0c)"
      "slice sl 0x0c 0x10 = Inr ?d" "slice sl 0x10 (length sl) = Inr ?rest"
    using False by (simp_all add: slice_def)
  obtain header where h: "common_header_from_slice (sub sl 0x00 0x08) = Some header"
    using common_header.reads [of "sub sl 0x00 0x08"] False by auto
  show ?thesis
  proof (cases "find (\<lambda>t. (from_ne_bytes ?d :: u32) = pod_discriminant t) pods")
    case None
    then show ?thesis using False by (simp add: mem_event_from_slice_def s h)
  next
    case (Some t)
    show ?thesis
    proof (cases "pod_from_slice t ?rest")
      case None
      then show ?thesis using False Some by (simp add: mem_event_from_slice_def s h)
    next
      case (Some event)
      then have "slice ?rest (pod_size t) (length ?rest) = Inr (sub ?rest (pod_size t) (length ?rest))"
        using pod_short_iff [of t ?rest] by (simp add: slice_def)
      moreover obtain r where "stack_from_slice (sub ?rest (pod_size t) (length ?rest)) = Inr r"
        using stack_from_slice_total by blast
      ultimately show ?thesis
        using False \<open>find _ pods = Some t\<close> Some by (cases r) (simp_all add: mem_event_from_slice_def s h)
    qed
  qed
qed

text \<open>A record on the wire, with the payload \<open>payload\<close> of type \<open>t\<close>.\<close>

definition mem_record :: "bytes \<Rightarrow> u32 \<Rightarrow> pod \<Rightarrow> bytes \<Rightarrow> bytes \<Rightarrow> bytes" where
  "mem_record h pid t payload stack = h @ to_ne_bytes pid @ to_ne_bytes (pod_discriminant t) @ payload @ stack"

lemma find_pod: "t \<noteq> Pod_PercpuFree \<Longrightarrow> find (\<lambda>t'. pod_discriminant t = pod_discriminant t') pods = Some t"
  by (cases t) (simp_all add: pods_def)

lemma find_percpu_free: "find (\<lambda>t'. pod_discriminant Pod_PercpuFree = pod_discriminant t') pods = Some Pod_PercpuAlloc"
  by (simp add: pods_def)

lemma mem_record_slices:
  assumes "length h = 8" "length payload = n"
  shows "slice (mem_record h pid t payload stack) 0x00 0x08 = Inr h"
    and "slice (mem_record h pid t payload stack) 0x08 0x0c = Inr (to_ne_bytes pid)"
    and "slice (mem_record h pid t payload stack) 0x0c 0x10 = Inr (to_ne_bytes (pod_discriminant t))"
    and "slice (mem_record h pid t payload stack) 0x10 (length (mem_record h pid t payload stack)) = Inr (payload @ stack)"
    and "slice (payload @ stack) n (length (payload @ stack)) = Inr stack"
    and "\<not> length (mem_record h pid t payload stack) < 0x10"
  using assms by (simp_all add: mem_record_def slice_def sub_def)

lemma mem_event_from_record:
  assumes "length h = 8" "length payload = pod_size t" "t \<noteq> Pod_PercpuFree" "length ips \<le> stack_max_depth"
  shows "\<exists>ev. mem_event_from_slice (mem_record h pid t payload (stack_bytes ips)) = Inr (Inr ev) \<and>
    Some (mev_header ev) = common_header_from_slice h \<and> mev_pid ev = pid \<and>
    Some (mev_event ev) = pod_from_slice t payload \<and> stack_ips (mev_stack ev) = Inr ips"
proof -
  note s = mem_record_slices [OF assms(1,2)]
  obtain header where h: "common_header_from_slice h = Some header"
    using common_header.reads [of h] assms(1) by auto
  obtain event where e: "pod_from_slice t payload = Some event"
    using pod.reads [of t payload] assms(2) by auto
  then have e': "pod_from_slice t (payload @ stack_bytes ips) = Some event"
    using pod.reads_prefix [of t payload "stack_bytes ips"] assms(2) by simp
  obtain st where st: "stack_from_slice (stack_bytes ips) = Inr (Some st)" "stack_ips st = Inr ips"
    using stack_from_slice_bytes [OF assms(4), of "[]"] by auto
  have d: "from_ne_bytes (to_ne_bytes (pod_discriminant t)) = pod_discriminant t" by simp
  have "mem_event_from_slice (mem_record h pid t payload (stack_bytes ips)) =
      Inr (Inr \<lparr>mev_header = header, mev_pid = pid, mev_event = event, mev_stack = st\<rparr>)"
    unfolding mem_event_from_slice_def s(1-4) and_then_simps d find_pod [OF assms(3)] option.case e' s(5)
      h unwrap_simps st(1)
    using s(6) by simp
  then show ?thesis using h e st(2) by simp
qed

text \<open>
  The payload of a freed per-cpu block cannot be told from an allocated one: both types have the discriminant 15 and the
  parser tries the allocation first. The record of a freed block without a stack is shorter than an allocation
  and is rejected.
\<close>

theorem percpu_free_rejected:
  assumes "length h = 8" "length payload = pod_size Pod_PercpuFree"
  shows "mem_event_from_slice (mem_record h pid Pod_PercpuFree payload (stack_bytes [])) = Inr (Inl 0)"
proof -
  note s = mem_record_slices [OF assms]
  obtain header where h: "common_header_from_slice h = Some header"
    using common_header.reads [of h] assms(1) by auto
  have d: "from_ne_bytes (to_ne_bytes (pod_discriminant Pod_PercpuFree)) = pod_discriminant Pod_PercpuFree" by simp
  have "pod_from_slice Pod_PercpuAlloc (payload @ stack_bytes []) = None"
    using assms(2) by (simp only: pod_short_iff) (simp add: stack_bytes_def)
  then show ?thesis
    unfolding mem_event_from_slice_def s(1-4) and_then_simps d find_percpu_free option.case h unwrap_simps
    using s(6) by simp
qed

theorem percpu_free_rejected_witness:
  "mem_event_from_slice (mem_record (replicate 8 0) 7 Pod_PercpuFree (replicate 0x18 1) (stack_bytes [])) = Inr (Inl 0)"
  by (rule percpu_free_rejected) simp_all

end
