(* ===== verification/Memprof_Kernel.thy ===== *)
theory Memprof_Kernel
  imports Memprof_Event
begin

unbundle bit_operations_syntax

text \<open>
  The bpf program of the memory profiler, \<^verbatim>\<open>bpf-memprof/src/main.rs\<close>: it attaches itself to the first process that
  executes a file whose name ends in \<^verbatim>\<open>light-node\<close>, and submits a record for each tracepoint of the page
  allocator. The kernel is a parameter, the record \<open>mem_env\<close>: the current process, the context of the
  tracepoint, reservations in the ring buffer (\<open>Some code\<close>: refused), reads of strings and of
  user stacks (the result and the buffer after the call), and updates of the maps.
\<close>

section \<open>The environment and the state\<close>

datatype mem_map = Map_Pid | Map_Lost

record mem_env =
  men_pid_tgid :: u64
  men_ctx :: "nat \<Rightarrow> nat \<Rightarrow> bytes"
  men_reserve :: "nat \<Rightarrow> 32 word option"
  men_read_user_str :: "nat \<Rightarrow> u64 \<Rightarrow> 64 word \<times> bytes"
  men_stack_slot :: bool
  men_user_stack :: "nat \<Rightarrow> nat \<Rightarrow> (32 word + nat) \<times> bytes"
  men_insert :: "mem_map \<Rightarrow> 32 word option"
  men_remove :: "mem_map \<Rightarrow> 32 word option"

record mem_app =
  map_pid :: "bytes \<Rightarrow> bytes option"
  map_lost_events :: "bytes \<Rightarrow> bytes option"
  map_event_queue :: "bytes list"

type_synonym mem_result = "(32 word + unit) \<times> mem_app"

abbreviation key0 :: bytes where
  "key0 \<equiv> to_ne_bytes (0 :: u32)"

definition men_pid :: "mem_env \<Rightarrow> u32" where
  "men_pid env = ucast (drop_bit 32 (men_pid_tgid env))"

section \<open>Choosing the process\<close>

definition check_no_pid :: "mem_app \<Rightarrow> 32 word + unit" where
  "check_no_pid app =
     (case map_pid app key0 of
        Some pid_bytes \<Rightarrow> if (from_ne_bytes pid_bytes :: u32) \<noteq> 0 then Inl 0 else Inr ()
      | None \<Rightarrow> Inr ())"

definition check_pid :: "mem_env \<Rightarrow> mem_app \<Rightarrow> 32 word + u32" where
  "check_pid env app =
     (case map_pid app key0 of
        Some pid_bytes \<Rightarrow>
          let pid = men_pid env in
          if pid \<noteq> from_ne_bytes pid_bytes then Inl 0 else Inr pid
      | None \<Rightarrow> Inl 0)"

text \<open>The name of the program, compared byte by byte at the end of the path.\<close>

definition node_name :: bytes where
  "node_name = map (\<lambda>c. word_of_nat (of_char c)) ''light-node''"

definition check_filename :: "mem_env \<Rightarrow> u64 \<Rightarrow> mem_app \<Rightarrow> mem_result" where
  "check_filename env filename_ptr app =
     (if filename_ptr = 0 then (Inl 0, app)
      else
        (case men_reserve env 0x200 of
           Some e \<Rightarrow> (Inl e, app)
         | None \<Rightarrow>
             let (c, buffer) = men_read_user_str env 0x200 filename_ptr in
             if sint c < 11 \<or> sint c > 0x200 then (Inl (ucast c), app)
             else
               let pos = unat c - 11;
                   pass = sub buffer pos (pos + 10) = node_name
               in
               if pass then
                 (case men_insert env Map_Pid of
                    Some e \<Rightarrow> (Inl e, app)
                  | None \<Rightarrow> (Inr (), app\<lparr>map_pid := (map_pid app)(key0 \<mapsto> to_ne_bytes (men_pid env))\<rparr>))
               else (Inr (), app)))"

definition exec_program :: "nat \<Rightarrow> mem_env \<Rightarrow> mem_app \<Rightarrow> mem_result" where
  "exec_program offset env app =
     (case check_no_pid app of
        Inl e \<Rightarrow> (Inl e, app)
      | Inr _ \<Rightarrow> check_filename env (from_ne_bytes (men_ctx env offset 8)) app)"

definition execve :: "mem_env \<Rightarrow> mem_app \<Rightarrow> mem_result" where
  "execve = exec_program 0x10"

definition execveat :: "mem_env \<Rightarrow> mem_app \<Rightarrow> mem_result" where
  "execveat = exec_program 0x18"

section \<open>Records\<close>

text \<open>The counter is updated byte by byte; when it is full it stays.\<close>

fun inc_bytes :: "bytes \<Rightarrow> bytes" where
  "inc_bytes [b0, b1, b2, b3] =
     (if b0 < 255 then [b0 + 1, b1, b2, b3]
      else if b1 < 255 then [0, b1 + 1, b2, b3]
      else if b2 < 255 then [0, 0, b2 + 1, b3]
      else if b3 < 255 then [0, 0, 0, b3 + 1]
      else [b0, b1, b2, b3])"
| "inc_bytes bs = bs"

definition inc_lost :: "mem_env \<Rightarrow> mem_app \<Rightarrow> mem_result" where
  "inc_lost env app =
     (case map_lost_events app key0 of
        Some cnt_bytes \<Rightarrow>
          (Inr (), app\<lparr>map_lost_events := (map_lost_events app)(key0 \<mapsto> inc_bytes cnt_bytes)\<rparr>)
      | None \<Rightarrow>
          (case men_insert env Map_Lost of
             Some e \<Rightarrow> (Inl e, app)
           | None \<Rightarrow> (Inr (), app\<lparr>map_lost_events := (map_lost_events app)(key0 \<mapsto> to_le_bytes (1 :: u32))\<rparr>)))"

definition round_stack_len :: "nat \<Rightarrow> nat" where
  "round_stack_len n =
     (if n > 64 then stack_max_depth
      else if n > 32 then 64
      else if n > 16 then 32
      else if n > 8 then 16
      else if n > 4 then 8
      else if n > 2 then 4
      else if n > 1 then 2
      else if n > 0 then 1
      else 0)"

text \<open>The first read of the stack, into the per-cpu buffer of 0x400 bytes, gives its size only.\<close>

definition measured_stack_len :: "mem_env \<Rightarrow> bool \<Rightarrow> nat" where
  "measured_stack_len env need_stack =
     (if need_stack then
        if men_stack_slot env then
          (case fst (men_user_stack env 0 0x400) of Inl e \<Rightarrow> 0 | Inr n \<Rightarrow> n) div 8
        else 0
      else 0)"

definition output_generic :: "mem_env \<Rightarrow> pod \<Rightarrow> u32 \<Rightarrow> bool \<Rightarrow> mem_app \<Rightarrow> mem_result" where
  "output_generic env t pid need_stack app =
     (let stack_len = round_stack_len (measured_stack_len env need_stack);
          size = 0x10 + pod_size t + 0x08 + stack_len * 8
      in case men_reserve env size of
        Some e \<Rightarrow> (Inl e, snd (inc_lost env app))
      | None \<Rightarrow>
          let head = men_ctx env 0x00 0x08 @ to_ne_bytes pid @ to_ne_bytes (pod_discriminant t) @
                men_ctx env 0x08 (pod_size t) @ to_ne_bytes (word_of_nat stack_len :: u64)
          in if \<not> need_stack
             then (Inr (), app\<lparr>map_event_queue := map_event_queue app @ [head]\<rparr>)
             else
               let (r, frames) = men_user_stack env 1 (stack_len * 8) in
               (case r of Inl e \<Rightarrow> Inl e | Inr _ \<Rightarrow> Inr (),
                app\<lparr>map_event_queue := map_event_queue app @ [head @ frames]\<rparr>))"

definition output_unconditional :: "mem_env \<Rightarrow> pod \<Rightarrow> mem_app \<Rightarrow> mem_result" where
  "output_unconditional env t app = output_generic env t (men_pid env) False app"

definition output_process :: "mem_env \<Rightarrow> pod \<Rightarrow> bool \<Rightarrow> mem_app \<Rightarrow> mem_result" where
  "output_process env t need_stack app =
     (case check_pid env app of
        Inl e \<Rightarrow> (Inl e, app)
      | Inr pid \<Rightarrow> output_generic env t pid need_stack app)"

text \<open>The programs; those that are not attached to a tracepoint are kept in the source for debugging.\<close>

fun tracepoint :: "pod \<Rightarrow> mem_env \<Rightarrow> mem_app \<Rightarrow> mem_result" where
  "tracepoint Pod_KFree env app = output_unconditional env Pod_KFree app"
| "tracepoint Pod_KMAlloc env app = output_process env Pod_KMAlloc False app"
| "tracepoint Pod_KMAllocNode env app = output_process env Pod_KMAllocNode False app"
| "tracepoint Pod_CacheAlloc env app = output_process env Pod_CacheAlloc False app"
| "tracepoint Pod_CacheAllocNode env app = output_process env Pod_CacheAllocNode False app"
| "tracepoint Pod_CacheFree env app = output_unconditional env Pod_CacheFree app"
| "tracepoint Pod_PageAlloc env app = output_process env Pod_PageAlloc True app"
| "tracepoint Pod_PageFree env app = output_unconditional env Pod_PageFree app"
| "tracepoint Pod_PageFreeBatched env app = output_unconditional env Pod_PageFreeBatched app"
| "tracepoint Pod_RssStat env app = output_process env Pod_RssStat False app"
| "tracepoint Pod_PercpuAlloc env app = output_process env Pod_PercpuAlloc False app"
| "tracepoint Pod_PercpuFree env app = output_unconditional env Pod_PercpuFree app"
| "tracepoint Pod_AddToPageCache env app = output_unconditional env Pod_AddToPageCache app"
| "tracepoint Pod_RemoveFromPageCache env app = output_unconditional env Pod_RemoveFromPageCache app"

section \<open>The user side\<close>

text \<open>At the start a process of an earlier run is forgotten; a failure is logged.\<close>

definition forget_old_pid :: "mem_env \<Rightarrow> mem_app \<Rightarrow> mem_app" where
  "forget_old_pid env app =
     (case map_pid app key0 of
        None \<Rightarrow> app
      | Some old_pid \<Rightarrow>
          if (from_ne_bytes old_pid :: u32) \<noteq> 0 then
            (case men_remove env Map_Pid of
               Some e \<Rightarrow> app
             | None \<Rightarrow> app\<lparr>map_pid := (map_pid app)(key0 := None)\<rparr>)
          else app)"

text \<open>After each successful poll: the turns so far, the last count, and what is reported.\<close>

definition poll_turn :: "mem_app \<Rightarrow> u32 \<times> u32 \<Rightarrow> (u32 \<times> u32) \<times> u32 option" where
  "poll_turn app = (\<lambda>(overall_cnt, old_cnt).
     let overall_cnt = overall_cnt + 1 in
     if overall_cnt AND 0xffff = 0 then
       let cnt = (case map_lost_events app key0 of None \<Rightarrow> 0 | Some b \<Rightarrow> from_le_bytes b) in
       if cnt - old_cnt \<noteq> 0 then ((overall_cnt, cnt), Some (cnt - old_cnt))
       else ((overall_cnt, old_cnt), None)
     else ((overall_cnt, old_cnt), None))"


section \<open>The counter of lost events\<close>

lemma le_bytes_4: "unat (from_le_bytes [b0, b1, b2, b3] :: u32) =
    unat b0 + 256 * unat b1 + 65536 * unat b2 + 16777216 * unat (b3 :: u8)"
proof -
  let ?n = "unat b0 + 256 * unat b1 + 65536 * unat b2 + 16777216 * unat b3"
  have "be_val (rev [b0, b1, b2, b3]) = ?n" by simp
  moreover have "?n < 2 ^ 32"
    using unat_u8_bound [of b0] unat_u8_bound [of b1] unat_u8_bound [of b2] unat_u8_bound [of b3] by simp
  ultimately show ?thesis
    unfolding from_le_bytes_def from_be_bytes_def unat_of_nat by (simp only: mod_less len_num1 len_bit0 len_bit1) simp
qed

lemma byte_full: "\<not> b < 255 \<Longrightarrow> unat (b :: u8) = 255"
  using unat_u8_bound [of b] by (simp add: word_less_nat_alt)

lemma byte_inc: "b < 255 \<Longrightarrow> unat (b + 1 :: u8) = unat b + 1"
  by (simp add: word_less_nat_alt unat_word_ariths(1))

lemma inc_bytes_unat:
  "unat (from_le_bytes (inc_bytes [b0, b1, b2, b3]) :: u32) =
   min (unat (from_le_bytes [b0, b1, b2, b3] :: u32) + 1) (4294967295)"
proof -
  have b: "unat b0 < 256" "unat b1 < 256" "unat b2 < 256" "unat b3 < 256" by (rule unat_u8_bound)+
  consider "b0 < 255" | "\<not> b0 < 255" "b1 < 255" | "\<not> b0 < 255" "\<not> b1 < 255" "b2 < 255"
    | "\<not> b0 < 255" "\<not> b1 < 255" "\<not> b2 < 255" "b3 < 255" | "\<not> b0 < 255" "\<not> b1 < 255" "\<not> b2 < 255" "\<not> b3 < 255"
    by blast
  then show ?thesis
  proof cases
    case 1
    then have "unat b0 < 255" by (simp add: word_less_nat_alt)
    then show ?thesis using b 1 by (simp only: inc_bytes.simps if_True le_bytes_4 byte_inc)
  next
    case 2
    then have "unat b1 < 255" by (simp add: word_less_nat_alt)
    then show ?thesis using b 2 byte_full [OF 2(1)]
      by (simp only: inc_bytes.simps if_True if_False le_bytes_4 byte_inc unat_0) (simp add: min_absorb1)
  next
    case 3
    then have "unat b2 < 255" by (simp add: word_less_nat_alt)
    then show ?thesis using b 3 byte_full [OF 3(1)] byte_full [OF 3(2)]
      by (simp only: inc_bytes.simps if_True if_False le_bytes_4 byte_inc unat_0) (simp add: min_absorb1)
  next
    case 4
    then have "unat b3 < 255" by (simp add: word_less_nat_alt)
    then show ?thesis using b 4 byte_full [OF 4(1)] byte_full [OF 4(2)] byte_full [OF 4(3)]
      by (simp only: inc_bytes.simps if_True if_False le_bytes_4 byte_inc unat_0) (simp add: min_absorb1)
  next
    case 5
    then show ?thesis using 5 [THEN byte_full] by (simp add: le_bytes_4)
  qed
qed

definition lost :: "mem_app \<Rightarrow> nat" where
  "lost app = (case map_lost_events app key0 of None \<Rightarrow> 0 | Some b \<Rightarrow> unat (from_le_bytes b :: u32))"

definition lost_ok :: "mem_app \<Rightarrow> bool" where
  "lost_ok app \<longleftrightarrow> (\<forall>b. map_lost_events app key0 = Some b \<longrightarrow> length b = 4)"

lemma lost_queue [simp]:
  "lost (app\<lparr>map_event_queue := q\<rparr>) = lost app" "lost_ok (app\<lparr>map_event_queue := q\<rparr>) = lost_ok app"
  by (simp_all add: lost_def lost_ok_def)

lemma length_4: "length b = 4 \<Longrightarrow> \<exists>b0 b1 b2 b3. b = [b0, b1, b2, b3]"
  by (auto simp: numeral_eq_Suc length_Suc_conv)

lemma inc_lost_counts:
  assumes "lost_ok app" "men_insert env Map_Lost = None"
  shows "lost_ok (snd (inc_lost env app))" and "lost (snd (inc_lost env app)) = min (lost app + 1) (2 ^ 32 - 1)"
    and "map_event_queue (snd (inc_lost env app)) = map_event_queue app"
    and "map_pid (snd (inc_lost env app)) = map_pid app"
proof -
  have "lost_ok (snd (inc_lost env app)) \<and> lost (snd (inc_lost env app)) = min (lost app + 1) (2 ^ 32 - 1)"
  proof (cases "map_lost_events app key0")
    case None
    then show ?thesis using assms(2) by (simp add: inc_lost_def lost_ok_def lost_def)
  next
    case (Some b)
    then obtain b0 b1 b2 b3 where b: "b = [b0, b1, b2, b3]" using length_4 [of b] assms(1) unfolding lost_ok_def by blast
    have "length (inc_bytes b) = 4" by (simp add: b)
    then show ?thesis using Some inc_bytes_unat by (simp add: inc_lost_def lost_ok_def lost_def b del: inc_bytes.simps)
  qed
  then show "lost_ok (snd (inc_lost env app))" "lost (snd (inc_lost env app)) = min (lost app + 1) (2 ^ 32 - 1)" by blast+
qed (use assms(2) in \<open>auto simp: inc_lost_def split: option.splits\<close>)

section \<open>Records and the parser\<close>

text \<open>Reads of the context and of the stack fill the whole buffer.\<close>

definition mem_env_laws :: "mem_env \<Rightarrow> bool" where
  "mem_env_laws env \<longleftrightarrow>
     (\<forall>k n. length (men_ctx env k n) = n) \<and> (\<forall>k n. length (snd (men_user_stack env k n)) = n)"

definition frames_of :: "bytes \<Rightarrow> hex64 list" where
  "frames_of b = map (\<lambda>i. from_ne_bytes (sub b (i * 8) ((i + 1) * 8))) [0..<length b div 8]"

lemma frames_of_step:
  assumes "length b div 8 = Suc n"
  shows "frames_of b = from_ne_bytes (take 8 b) # frames_of (drop 8 b)"
proof -
  have "length (drop 8 b) div 8 = n" using assms by simp
  moreover have "sub b (Suc i * 8) ((Suc i + 1) * 8) = sub (drop 8 b) (i * 8) ((i + 1) * 8)" for i
    by (simp add: sub_def add.commute)
  ultimately show ?thesis using assms
    unfolding frames_of_def by (simp only: upt_conv_Cons zero_less_Suc map_Suc_upt [symmetric] list.map map_map)
      (simp add: sub_def comp_def)
qed

lemma concat_frames_of: "length b = 8 * n \<Longrightarrow> concat (map to_ne_bytes (frames_of b)) = b"
proof (induction n arbitrary: b)
  case 0
  then show ?case by (simp add: frames_of_def)
next
  case (Suc n)
  then have "frames_of b = from_ne_bytes (take 8 b) # frames_of (drop 8 b)" by (intro frames_of_step [of _ n]) simp
  moreover have "to_ne_bytes (from_ne_bytes (take 8 b) :: u64) = take 8 b"
    using Suc.prems by (intro to_le_from_le) simp_all
  ultimately show ?case using Suc.IH [of "drop 8 b"] Suc.prems by simp
qed

lemma take_frames_of:
  "take (8 * length frames) b = concat (map to_ne_bytes (frames :: hex64 list)) \<Longrightarrow> take (length frames) (frames_of b) = frames"
proof (induction frames arbitrary: b)
  case (Cons a frames)
  have "length (take (8 * length (a # frames)) b) = length (concat (map to_ne_bytes (a # frames)))" using Cons.prems by simp
  moreover have "length (concat (map to_ne_bytes frames)) = 8 * length frames" for frames :: "hex64 list" by (induction frames) simp_all
  ultimately have "8 * length (a # frames) \<le> length b" by simp
  then have "length b div 8 = Suc (length b div 8 - 1)" by simp
  note step = frames_of_step [OF this]
  have "take 8 (take (8 * length (a # frames)) b) = to_ne_bytes a" "drop 8 (take (8 * length (a # frames)) b) = concat (map to_ne_bytes frames)"
    unfolding Cons.prems by simp_all
  then have "take 8 b = to_ne_bytes a" "take (8 * length frames) (drop 8 b) = concat (map to_ne_bytes frames)"
    by (simp_all add: drop_take min_def)
  then show ?case using Cons.IH [of "drop 8 b"] step by simp
qed simp

lemma length_frames_of: "length (frames_of b) = length b div 8"
  by (simp add: frames_of_def)

text \<open>
  The user stack of the process, at most 127 frames deep (a deeper one is cut by the kernel): the first read reports its size, and the second fills the
  beginning of the buffer with it. What the rest of a longer buffer holds is not determined.
\<close>

definition reads_stack :: "mem_env \<Rightarrow> hex64 list \<Rightarrow> bool" where
  "reads_stack env frames \<longleftrightarrow> men_stack_slot env \<and> length frames \<le> stack_max_depth \<and>
     fst (men_user_stack env 0 0x400) = Inr (8 * length frames) \<and>
     (\<forall>n \<ge> 8 * length frames. take (8 * length frames) (snd (men_user_stack env 1 n)) = concat (map to_ne_bytes frames))"

lemma reads_stack_measured: "reads_stack env frames \<Longrightarrow> measured_stack_len env True = length frames"
  by (simp add: reads_stack_def measured_stack_len_def)

lemma round_stack_len_above: "n \<le> stack_max_depth \<Longrightarrow> n \<le> round_stack_len n"
  by (simp add: round_stack_len_def stack_max_depth_def)

lemma round_stack_len_bound: "round_stack_len n \<le> stack_max_depth"
  by (simp add: round_stack_len_def stack_max_depth_def)

definition has_room :: "pod \<Rightarrow> bool \<Rightarrow> mem_env \<Rightarrow> bool" where
  "has_room t need_stack env \<longleftrightarrow>
     men_reserve env (0x10 + pod_size t + 0x08 + round_stack_len (measured_stack_len env need_stack) * 8) = None"

lemma output_generic_record:
  assumes laws: "mem_env_laws env" and "has_room t need_stack env"
  shows "\<exists>ips. map_event_queue (snd (output_generic env t pid need_stack app)) = map_event_queue app @
      [mem_record (men_ctx env 0x00 0x08) pid t (men_ctx env 0x08 (pod_size t)) (stack_bytes ips)] \<and>
    length ips = round_stack_len (measured_stack_len env need_stack) \<and>
    (need_stack \<longrightarrow> ips = frames_of (snd (men_user_stack env 1 (8 * length ips))))"
proof -
  let ?n = "round_stack_len (measured_stack_len env need_stack)"
  let ?f = "if need_stack then snd (men_user_stack env 1 (?n * 8)) else []"
  have n: "length ?f = ?n * 8"
    using laws by (simp add: mem_env_laws_def measured_stack_len_def round_stack_len_def)
  then have f: "concat (map to_ne_bytes (frames_of ?f)) = ?f" "length (frames_of ?f) = ?n"
    using concat_frames_of [of ?f ?n] by (simp_all add: length_frames_of)
  have "map_event_queue (snd (output_generic env t pid need_stack app)) = map_event_queue app @
      [mem_record (men_ctx env 0x00 0x08) pid t (men_ctx env 0x08 (pod_size t)) (stack_bytes (frames_of ?f))]"
    using assms(2) f by (simp add: output_generic_def has_room_def Let_def mem_record_def stack_bytes_def split: prod.split)
  then show ?thesis using f by (intro exI [of _ "frames_of ?f"], cases need_stack) (simp_all add: mult.commute)
qed

lemma output_generic_understood:
  assumes "mem_env_laws env" "has_room t need_stack env" "t \<noteq> Pod_PercpuFree"
  shows "\<exists>r ev ips. map_event_queue (snd (output_generic env t pid need_stack app)) = map_event_queue app @ [r] \<and>
    mem_event_from_slice r = Inr (Inr ev) \<and>
    Some (mev_header ev) = common_header_from_slice (men_ctx env 0x00 0x08) \<and> mev_pid ev = pid \<and>
    Some (mev_event ev) = pod_from_slice t (men_ctx env 0x08 (pod_size t)) \<and> stack_ips (mev_stack ev) = Inr ips \<and>
    length ips = round_stack_len (measured_stack_len env need_stack) \<and>
    (need_stack \<longrightarrow> ips = frames_of (snd (men_user_stack env 1 (8 * length ips))))"
proof -
  obtain ips where ips: "map_event_queue (snd (output_generic env t pid need_stack app)) = map_event_queue app @
      [mem_record (men_ctx env 0x00 0x08) pid t (men_ctx env 0x08 (pod_size t)) (stack_bytes ips)]"
    "length ips = round_stack_len (measured_stack_len env need_stack)"
    "need_stack \<longrightarrow> ips = frames_of (snd (men_user_stack env 1 (8 * length ips)))"
    using output_generic_record [OF assms(1,2), of pid app] by metis
  have "length ips \<le> stack_max_depth" using ips(2) round_stack_len_bound by simp
  moreover have "length (men_ctx env 0x00 0x08) = 8" "length (men_ctx env 0x08 (pod_size t)) = pod_size t"
    using assms(1) by (simp_all add: mem_env_laws_def)
  ultimately obtain ev where "mem_event_from_slice (mem_record (men_ctx env 0x00 0x08) pid t
      (men_ctx env 0x08 (pod_size t)) (stack_bytes ips)) = Inr (Inr ev)"
    "Some (mev_header ev) = common_header_from_slice (men_ctx env 0x00 0x08)" "mev_pid ev = pid"
    "Some (mev_event ev) = pod_from_slice t (men_ctx env 0x08 (pod_size t))" "stack_ips (mev_stack ev) = Inr ips"
    using mem_event_from_record [OF _ _ assms(3), of "men_ctx env 0x00 0x08" "men_ctx env 0x08 (pod_size t)" ips pid] by metis
  then show ?thesis using ips by (intro exI conjI) assumption+
qed

text \<open>The programs that only look at the chosen process.\<close>

definition of_process :: "pod \<Rightarrow> bool" where
  "of_process t \<longleftrightarrow> t \<in> {Pod_KMAlloc, Pod_KMAllocNode, Pod_CacheAlloc, Pod_CacheAllocNode, Pod_PageAlloc, Pod_RssStat,
     Pod_PercpuAlloc}"

lemma check_pid_ok:
  "map_pid app key0 = Some (to_ne_bytes (men_pid env)) \<Longrightarrow> check_pid env app = Inr (men_pid env)"
  by (simp add: check_pid_def)

lemma tracepoint_output:
  "tracepoint t env app = (if of_process t then output_process env t (t = Pod_PageAlloc) app else output_unconditional env t app)"
  by (cases t) (simp_all add: of_process_def)

text \<open>
  C31: What the kernel side submits, the user side understands, up to the filler of the stack. When a tracepoint fires (in the chosen process,
  for the kinds that only look at it) and the ring buffer has room, exactly one record is submitted, and the parser reads
  from it the header of the context, the process, and the payload of the context. For a page allocation by a process with a given user
  stack of at most 127 frames it reads a list that begins with exactly these frames; its length is theirs rounded up to 1, 2, 4, 8, 16, 32, 64
  or 127, and the entries beyond the stack are whatever the buffer holds there, so that a stack of three frames is read as four. For the
  other kinds it reads no frames. Every kind but \<^verbatim>\<open>PercpuFree\<close>.
\<close>

theorem tracepoint_understood:
  assumes "mem_env_laws env" and "has_room t (t = Pod_PageAlloc) env" and "t \<noteq> Pod_PercpuFree"
    and "of_process t \<longrightarrow> map_pid app key0 = Some (to_ne_bytes (men_pid env))"
    and "t = Pod_PageAlloc \<longrightarrow> reads_stack env frames"
  shows "\<exists>r ev ips. map_event_queue (snd (tracepoint t env app)) = map_event_queue app @ [r] \<and>
    mem_event_from_slice r = Inr (Inr ev) \<and>
    Some (mev_header ev) = common_header_from_slice (men_ctx env 0x00 0x08) \<and> mev_pid ev = men_pid env \<and>
    Some (mev_event ev) = pod_from_slice t (men_ctx env 0x08 (pod_size t)) \<and> stack_ips (mev_stack ev) = Inr ips \<and>
    (if t = Pod_PageAlloc
     then take (length frames) ips = frames \<and> length ips = round_stack_len (length frames) \<and>
       ips = frames_of (snd (men_user_stack env 1 (8 * length ips)))
     else ips = [])"
proof -
  let ?p = "t = Pod_PageAlloc"
  have "tracepoint t env app = output_generic env t (men_pid env) ?p app"
    using assms(4) check_pid_ok [of app env] unfolding tracepoint_output
    by (auto simp: output_process_def output_unconditional_def of_process_def)
  then obtain r ev ips where r: "map_event_queue (snd (tracepoint t env app)) = map_event_queue app @ [r]"
    "mem_event_from_slice r = Inr (Inr ev)" "Some (mev_header ev) = common_header_from_slice (men_ctx env 0x00 0x08)"
    "mev_pid ev = men_pid env" "Some (mev_event ev) = pod_from_slice t (men_ctx env 0x08 (pod_size t))" "stack_ips (mev_stack ev) = Inr ips"
    and ips: "length ips = round_stack_len (measured_stack_len env ?p)" "?p \<longrightarrow> ips = frames_of (snd (men_user_stack env 1 (8 * length ips)))"
    using output_generic_understood [OF assms(1-3), of "men_pid env" app] by metis
  have "take (length frames) ips = frames \<and> length ips = round_stack_len (length frames)" if ?p
  proof -
    have s: "reads_stack env frames" and n: "length ips = round_stack_len (length frames)"
      using assms(5) ips(1) reads_stack_measured that by simp_all
    then have "8 * length frames \<le> 8 * length ips" using round_stack_len_above [of "length frames"] by (simp add: reads_stack_def)
    then have "take (8 * length frames) (snd (men_user_stack env 1 (8 * length ips))) = concat (map to_ne_bytes frames)"
      using s by (simp add: reads_stack_def)
    from take_frames_of [OF this] show ?thesis using ips(2) that n by simp
  qed
  moreover have "ips = []" if "\<not> ?p" using ips(1) that by (simp add: measured_stack_len_def round_stack_len_def)
  ultimately show ?thesis using r ips(2) by (intro exI [of _ r] exI [of _ ev] exI [of _ ips]) simp
qed

text \<open>
  No event is lost silently. Over any sequence of tracepoints, in any states of the kernel, each one that fires for
  its process either adds exactly one record to the queue or, when the ring buffer has no room, one to the counter of lost
  events, which stops at its maximum instead of wrapping; all others change nothing.
\<close>

theorem tracepoint_counted:
  assumes "mem_env_laws env" and "men_insert env Map_Lost = None" and "lost_ok app"
  shows "lost_ok (snd (tracepoint t env app)) \<and>
    (length (map_event_queue (snd (tracepoint t env app))), lost (snd (tracepoint t env app))) \<in>
      (if of_process t \<and> isl (check_pid env app) then {(length (map_event_queue app), lost app)}
       else {(length (map_event_queue app) + 1, lost app),
             (length (map_event_queue app), min (lost app + 1) (2 ^ 32 - 1))})"
proof -
  have g: "lost_ok (snd (output_generic env t pid need app)) \<and>
      (length (map_event_queue (snd (output_generic env t pid need app))), lost (snd (output_generic env t pid need app))) \<in>
      {(length (map_event_queue app) + 1, lost app), (length (map_event_queue app), min (lost app + 1) (2 ^ 32 - 1))}"
    for pid need
    using inc_lost_counts [OF assms(3,2)] assms(3)
    by (simp add: output_generic_def Let_def split: option.split prod.split)
  show ?thesis
  proof (cases "of_process t")
    case True
    then show ?thesis using g assms(3)
      by (cases "check_pid env app") (simp_all add: tracepoint_output output_process_def)
  qed (use g in \<open>simp add: tracepoint_output output_unconditional_def\<close>)
qed

section \<open>The chosen process\<close>

text \<open>Reading a path gives its length with the final zero, and the path at the start of the buffer.\<close>

definition reads_path :: "mem_env \<Rightarrow> u64 \<Rightarrow> bytes \<Rightarrow> bool" where
  "reads_path env ptr path \<longleftrightarrow>
     fst (men_read_user_str env 0x200 ptr) = word_of_nat (length path + 1) \<and>
     take (length path) (snd (men_read_user_str env 0x200 ptr)) = path"

lemma check_filename_path:
  assumes "ptr \<noteq> 0" "men_reserve env 0x200 = None" "men_insert env Map_Pid = None" "reads_path env ptr path"
    "length path < 0x200" "10 \<le> length path"
  shows "check_filename env ptr app =
    (Inr (), if drop (length path - 10) path = node_name
       then app\<lparr>map_pid := (map_pid app)(key0 \<mapsto> to_ne_bytes (men_pid env))\<rparr> else app)"
proof -
  obtain c buffer where r: "men_read_user_str env 0x200 ptr = (c, buffer)" by force
  have c: "c = word_of_nat (length path + 1)" "take (length path) buffer = path"
    using assms(4) by (simp_all add: reads_path_def r)
  have u: "unat c = length path + 1" using assms(5) unfolding c(1) by (subst unat_of_nat) simp
  have "sint c = int (length path + 1)"
    using assms(5) unfolding c(1) signed_of_nat by (subst signed_take_bit_int_eq_self) simp_all
  moreover have "sub buffer (unat c - 11) (unat c - 11 + 10) = drop (length path - 10) path"
  proof -
    have "drop (length path - 10) (take (length path) buffer) = take 10 (drop (length path - 10) buffer)"
      using assms(6) by (simp add: drop_take)
    then show ?thesis using u c(2) by (simp add: sub_def)
  qed
  ultimately show ?thesis
    using assms(1-3,5,6) unfolding check_filename_def r by (simp add: Let_def)
qed


definition node_path :: "bytes \<Rightarrow> bool" where
  "node_path path \<longleftrightarrow> (\<exists>dir. path = dir @ node_name)"

lemma node_path_iff: "node_path path \<longleftrightarrow> 10 \<le> length path \<and> drop (length path - 10) path = node_name"
proof
  assume "node_path path"
  then show "10 \<le> length path \<and> drop (length path - 10) path = node_name" by (auto simp: node_path_def node_name_def)
next
  assume "10 \<le> length path \<and> drop (length path - 10) path = node_name"
  then show "node_path path" unfolding node_path_def by (metis append_take_drop_id)
qed

text \<open>An execution of \<open>path\<close>, in a state of the kernel that does not refuse anything.\<close>

definition executes :: "nat \<Rightarrow> mem_env \<Rightarrow> bytes \<Rightarrow> bool" where
  "executes offset env path \<longleftrightarrow>
     from_ne_bytes (men_ctx env offset 8) \<noteq> (0 :: u64) \<and> men_reserve env 0x200 = None \<and>
     men_insert env Map_Pid = None \<and> reads_path env (from_ne_bytes (men_ctx env offset 8)) path \<and>
     length path < 0x200 \<and> men_pid env \<noteq> 0"

lemma exec_program_path:
  assumes "executes offset env path"
  shows "map_pid (snd (exec_program offset env app)) key0 =
    (if check_no_pid app = Inr () \<and> node_path path then Some (to_ne_bytes (men_pid env)) else map_pid app key0)"
proof (cases "check_no_pid app")
  case (Inl e)
  then show ?thesis by (simp add: exec_program_def)
next
  case (Inr u)
  note e = assms [unfolded executes_def]
  show ?thesis
  proof (cases "10 \<le> length path")
    case True
    then show ?thesis using Inr e check_filename_path [of _ env path app]
      by (simp add: exec_program_def node_path_iff)
  next
    case False
    obtain c buffer where r: "men_read_user_str env 0x200 (from_ne_bytes (men_ctx env offset 8)) = (c, buffer)" by force
    have "sint c = int (length path + 1)"
      using e False unfolding reads_path_def r fst_conv
      by (elim conjE) (simp only: signed_of_nat, subst signed_take_bit_int_eq_self, simp_all)
    then have "snd (check_filename env (from_ne_bytes (men_ctx env offset 8)) app) = app"
      using e False by (simp add: check_filename_def r)
    then show ?thesis using Inr False by (simp add: exec_program_def node_path_iff)
  qed
qed

fun exec_all :: "(nat \<times> mem_env) list \<Rightarrow> mem_app \<Rightarrow> mem_app" where
  "exec_all [] app = app"
| "exec_all ((offset, env) # es) app = exec_all es (snd (exec_program offset env app))"

text \<open>
  The profiler follows the first node that is started. Over any sequence of programs executed through the two system
  calls, from a state without a process, the process that is chosen is the first one whose file name ends in
  \<^verbatim>\<open>light-node\<close>; later ones do not replace it, and when there is none no process is chosen.
\<close>

theorem first_node_chosen:
  assumes "list_all2 (\<lambda>(offset, env) path. executes offset env path) es paths" and "map_pid app key0 = None"
  shows "map_pid (exec_all es app) key0 =
    map_option (\<lambda>((_, env), _). to_ne_bytes (men_pid env)) (find (\<lambda>(_, path). node_path path) (zip es paths))"
proof -
  have chosen: "map_pid (exec_all es app) key0 = map_pid app key0"
    if "check_no_pid app = Inl 0" "list_all2 (\<lambda>(offset, env) path. executes offset env path) es paths" for es paths app
    using that(2,1)
  proof (induction es paths arbitrary: app rule: list_all2_induct)
    case (Cons e es path paths)
    obtain offset env where e: "e = (offset, env)" by (cases e)
    have "map_pid (snd (exec_program offset env app)) key0 = map_pid app key0"
      using exec_program_path [of offset env path app] Cons.hyps(1) Cons.prems by (simp add: e)
    then show ?case using Cons by (simp add: e check_no_pid_def)
  qed simp
  show ?thesis
    using assms
  proof (induction es paths arbitrary: app rule: list_all2_induct)
    case (Cons e es path paths)
    obtain offset env where e: "e = (offset, env)" by (cases e)
    have x: "executes offset env path" using Cons.hyps(1) by (simp add: e)
    have n: "check_no_pid app = Inr ()" using Cons.prems by (simp add: check_no_pid_def)
    show ?case
    proof (cases "node_path path")
      case True
      then have p: "map_pid (snd (exec_program offset env app)) key0 = Some (to_ne_bytes (men_pid env))"
        using exec_program_path [OF x] n by simp
      then have "check_no_pid (snd (exec_program offset env app)) = Inl 0"
        using x by (simp add: check_no_pid_def executes_def)
      from chosen [OF this Cons.hyps(2)] p True show ?thesis by (simp add: e)
    next
      case False
      then have "map_pid (snd (exec_program offset env app)) key0 = None"
        using exec_program_path [OF x] Cons.prems by simp
      from Cons.IH [OF this] False show ?thesis by (simp add: e)
    qed
  qed simp
qed

section \<open>A concrete kernel\<close>

definition sample_path :: bytes where
  "sample_path = map (\<lambda>c. word_of_nat (of_char c)) ''/light-node''"

definition sample_mem_env :: "u32 \<Rightarrow> mem_env" where
  "sample_mem_env pid =
     \<lparr>men_pid_tgid = push_bit 32 (ucast pid), men_ctx = (\<lambda>k n. replicate n 1), men_reserve = (\<lambda>_. None),
      men_read_user_str = (\<lambda>n ptr. (word_of_nat (length sample_path + 1), sample_path @ replicate 500 0)),
      men_stack_slot = True, men_user_stack = (\<lambda>k n. (Inr 24, replicate n 2)),
      men_insert = (\<lambda>_. None), men_remove = (\<lambda>_. None)\<rparr>"

definition sample_mem_app :: mem_app where
  "sample_mem_app = \<lparr>map_pid = (\<lambda>_. None), map_lost_events = (\<lambda>_. None), map_event_queue = []\<rparr>"

lemma sample_mem_env_laws: "mem_env_laws (sample_mem_env pid)"
  by (simp add: mem_env_laws_def sample_mem_env_def)

lemma sample_men_pid: "men_pid (sample_mem_env 7) = 7" "men_pid (sample_mem_env 8) = 8"
  by (simp_all add: men_pid_def sample_mem_env_def push_bit_eq_mult drop_bit_eq_div)

lemma sample_ptr: "from_ne_bytes (men_ctx (sample_mem_env pid) k 8) = (0x0101010101010101 :: u64)"
proof -
  have "men_ctx (sample_mem_env pid) k 8 = [1, 1, 1, 1, 1, 1, 1, 1]"
    by (simp add: sample_mem_env_def numeral_eq_Suc)
  then show ?thesis by (simp add: from_le_bytes_def from_be_bytes_def)
qed

definition chosen_mem_app :: mem_app where
  "chosen_mem_app = sample_mem_app\<lparr>map_pid := [key0 \<mapsto> to_ne_bytes (7 :: u32)]\<rparr>"

text \<open>The sample stack has three frames; the record has four.\<close>

theorem tracepoint_understood_witness:
  "\<exists>r ev ips. map_event_queue (snd (tracepoint Pod_PageAlloc (sample_mem_env 7) chosen_mem_app)) = [r] \<and>
    mem_event_from_slice r = Inr (Inr ev) \<and>
    Some (mev_header ev) = common_header_from_slice (men_ctx (sample_mem_env 7) 0x00 0x08) \<and> mev_pid ev = 7 \<and>
    Some (mev_event ev) = pod_from_slice Pod_PageAlloc (men_ctx (sample_mem_env 7) 0x08 (pod_size Pod_PageAlloc)) \<and>
    stack_ips (mev_stack ev) = Inr ips \<and>
    take 3 ips = [0x0202020202020202, 0x0202020202020202, 0x0202020202020202] \<and> length ips = 4"
proof -
  let ?f = "[0x0202020202020202, 0x0202020202020202, 0x0202020202020202] :: hex64 list"
  have "from_ne_bytes [2, 2, 2, 2, 2, 2, 2, 2] = (0x0202020202020202 :: u64)" by (simp add: from_le_bytes_def from_be_bytes_def)
  moreover have "replicate 8 (2 :: u8) = [2, 2, 2, 2, 2, 2, 2, 2]" by (simp add: numeral_eq_Suc)
  moreover have "to_ne_bytes (from_ne_bytes [2, 2, 2, 2, 2, 2, 2, 2] :: u64) = [2, 2, 2, 2, 2, 2, 2, 2]" by (rule to_le_from_le) simp_all
  ultimately have "to_ne_bytes (0x0202020202020202 :: u64) = replicate 8 2" by (simp only:)
  then have "concat (map to_ne_bytes ?f) = replicate 24 2" by (simp add: replicate_add [symmetric])
  then have "reads_stack (sample_mem_env 7) ?f"
    by (simp add: reads_stack_def sample_mem_env_def stack_max_depth_def min_absorb1)
  moreover have "has_room Pod_PageAlloc True (sample_mem_env 7)" by (simp add: has_room_def sample_mem_env_def)
  moreover have "map_pid chosen_mem_app key0 = Some (to_ne_bytes (men_pid (sample_mem_env 7)))" "map_event_queue chosen_mem_app = []"
    unfolding sample_men_pid(1) by (simp_all add: chosen_mem_app_def sample_mem_app_def)
  moreover have "length ?f = 3" "round_stack_len 3 = 4" by (simp_all add: round_stack_len_def)
  ultimately show ?thesis
    using tracepoint_understood [OF sample_mem_env_laws, of Pod_PageAlloc 7 chosen_mem_app ?f]
    unfolding sample_men_pid(1) by (auto simp only: simp_thms if_True append_Nil pod.distinct)
qed

theorem tracepoint_counted_witness:
  "lost_ok (snd (tracepoint Pod_PageFree (sample_mem_env 7) sample_mem_app)) \<and>
    (length (map_event_queue (snd (tracepoint Pod_PageFree (sample_mem_env 7) sample_mem_app))),
     lost (snd (tracepoint Pod_PageFree (sample_mem_env 7) sample_mem_app))) \<in>
      (if of_process Pod_PageFree \<and> isl (check_pid (sample_mem_env 7) sample_mem_app)
       then {(length (map_event_queue sample_mem_app), lost sample_mem_app)}
       else {(length (map_event_queue sample_mem_app) + 1, lost sample_mem_app),
             (length (map_event_queue sample_mem_app), min (lost sample_mem_app + 1) (2 ^ 32 - 1))})"
  by (rule tracepoint_counted [OF sample_mem_env_laws])
    (simp_all add: sample_mem_env_def sample_mem_app_def lost_ok_def)

theorem first_node_chosen_witness:
  "map_pid (exec_all [(0x10, sample_mem_env 7), (0x18, sample_mem_env 8)] sample_mem_app) key0 =
    map_option (\<lambda>((_, env), _). to_ne_bytes (men_pid env)) (find (\<lambda>(_, path). node_path path)
      (zip [(0x10 :: nat, sample_mem_env 7), (0x18, sample_mem_env 8)] [sample_path, sample_path]))"
proof (rule first_node_chosen)
  have "executes k env sample_path" if "env \<in> {sample_mem_env 7, sample_mem_env 8}" for k env
    using that sample_men_pid sample_ptr unfolding executes_def reads_path_def
    by (auto simp: sample_mem_env_def sample_path_def)
  then show "list_all2 (\<lambda>(offset, env) path. executes offset env path)
      [(0x10, sample_mem_env 7), (0x18, sample_mem_env 8)] [sample_path, sample_path]" by simp
qed (simp add: sample_mem_app_def)

end
