(* ===== verification/Memprof_Report.thy ===== *)
theory Memprof_Report
  imports Rust_Strings "HOL-Library.AList" "HOL-Library.Sublist" "HOL-Library.Product_Lexorder"
    "HOL-Library.List_Lexorder" "HOL-Library.Option_ord" "HOL-Library.Char_ord" "HOL-Library.Multiset"
begin

unbundle bit_operations_syntax

text \<open>
  The report of the memory profiler, \<^verbatim>\<open>tezedge-memprof/src/history/report.rs\<close>: a tree of stack frames with
  the memory that was allocated below each of them. A hash map that is iterated is an association list;
  a B-tree map is an association list in the order of its keys.
\<close>

section \<open>The tree\<close>

datatype frame =
  Frame (fr_value: u64) (fr_cache_value: u64) (fr_frames: "(u64 \<times> frame) list")
    (fr_under_threshold: u64) (fr_cache_under_threshold: u64)

definition frame_default :: frame where
  "frame_default = Frame 0 0 [] 0 0"

fun frame_insert :: "u64 list \<Rightarrow> u64 \<Rightarrow> u64 \<Rightarrow> frame \<Rightarrow> frame" where
  "frame_insert [] v c (Frame a b fs u w) = Frame (a + v) (b + c) fs u w"
| "frame_insert (ip # stack) v c (Frame a b fs u w) =
     Frame (a + v) (b + c)
       (AList.update ip (frame_insert stack v c (case map_of fs ip of None \<Rightarrow> frame_default | Some f \<Rightarrow> f)) fs) u w"

text \<open>The frames that are kept, after they were stripped themselves, and the sums of the others.\<close>

primrec frame_strip :: "u64 \<Rightarrow> frame \<Rightarrow> frame" where
  "frame_strip threshold (Frame a b fs u w) =
     (let stripped = map (map_prod id (frame_strip threshold)) fs;
          dropped = filter (\<lambda>e. \<not> threshold \<le> fr_value (snd e)) stripped
      in Frame a b (filter (\<lambda>e. threshold \<le> fr_value (snd e)) stripped)
           (sum_list (map (\<lambda>e. fr_value (snd e)) dropped)) (sum_list (map (\<lambda>e. fr_cache_value (snd e)) dropped)))"

section \<open>Sorting\<close>

datatype symbol_info =
  SymbolInfo (si_offset: u32) (si_executable: string) (si_function_name: "string option")
    (si_function_category: string)

definition symbol_key :: "symbol_info \<Rightarrow> u32 \<times> string \<times> string option \<times> string" where
  "symbol_key s = (si_offset s, si_executable s, si_function_name s, si_function_category s)"

lemma symbol_key_inject: "symbol_key s = symbol_key t \<longleftrightarrow> s = t"
  by (cases s; cases t) (simp add: symbol_key_def)

text \<open>The derived order goes through the fields; \<^verbatim>\<open>None\<close> comes first.\<close>

instantiation symbol_info :: linorder
begin

definition less_eq_symbol_info :: "symbol_info \<Rightarrow> symbol_info \<Rightarrow> bool" where
  "less_eq_symbol_info s t \<longleftrightarrow> symbol_key s \<le> symbol_key t"

definition less_symbol_info :: "symbol_info \<Rightarrow> symbol_info \<Rightarrow> bool" where
  "less_symbol_info s t \<longleftrightarrow> symbol_key s < symbol_key t"

instance
  by standard (auto simp: less_eq_symbol_info_def less_symbol_info_def order.strict_iff_order simp flip: symbol_key_inject)

end

datatype sort_key = SortKey (sk_inv_value: u64) (sk_name: symbol_info)

instantiation sort_key :: linorder
begin

definition less_eq_sort_key :: "sort_key \<Rightarrow> sort_key \<Rightarrow> bool" where
  "less_eq_sort_key s t \<longleftrightarrow>
     sk_inv_value s < sk_inv_value t \<or> sk_inv_value s = sk_inv_value t \<and> sk_name s \<le> sk_name t"

definition less_sort_key :: "sort_key \<Rightarrow> sort_key \<Rightarrow> bool" where
  "less_sort_key s t \<longleftrightarrow>
     sk_inv_value s < sk_inv_value t \<or> sk_inv_value s = sk_inv_value t \<and> sk_name s < sk_name t"

instance
  by standard (auto simp: less_eq_sort_key_def less_sort_key_def intro: sort_key.expand)

end

datatype frame_sorted =
  FrameSorted (fs_name: "symbol_info option") (fs_value: u64) (fs_cache_value: u64)
    (fs_frames: "(sort_key \<times> frame_sorted) list") (fs_under_threshold: u64)
    (fs_cache_under_threshold: u64) (fs_unknown: u64) (fs_cache_unknown: u64)

fun btree_insert :: "'k :: linorder \<Rightarrow> 'v \<Rightarrow> ('k \<times> 'v) list \<Rightarrow> ('k \<times> 'v) list" where
  "btree_insert k v [] = [(k, v)]"
| "btree_insert k v ((k', v') # es) =
     (if k < k' then (k, v) # (k', v') # es
      else if k = k' then (k, v) # es
      else (k', v') # btree_insert k v es)"

text \<open>
  One turn of the loop over the frames; \<open>node\<close> is the frame with its sorted form, for the name it
  resolves to.
\<close>

definition sorted_step ::
    "symbol_info option \<Rightarrow> u64 \<Rightarrow> u64 \<Rightarrow> (symbol_info option \<Rightarrow> frame_sorted)
     \<Rightarrow> (sort_key \<times> frame_sorted) list \<times> u64 \<times> u64 \<Rightarrow> (sort_key \<times> frame_sorted) list \<times> u64 \<times> u64" where
  "sorted_step name value cache_value to_sorted = (\<lambda>(frames, unknown, cache_unknown).
     case name of
       None \<Rightarrow> (frames, unknown, cache_unknown)
     | Some n \<Rightarrow> (btree_insert (SortKey (NOT value) n) (to_sorted (Some n)) frames,
                 unknown - value, cache_unknown - cache_value))"

primrec frame_to_sorted :: "(u64 \<Rightarrow> symbol_info option) \<Rightarrow> frame \<Rightarrow> symbol_info option \<Rightarrow> frame_sorted" where
  "frame_to_sorted resolve (Frame a b fs u w) = (\<lambda>name.
     let (frames, unknown, cache_unknown) =
           fold (\<lambda>(key, value, cache_value, to_sorted). sorted_step (resolve key) value cache_value to_sorted)
             (map (map_prod id (\<lambda>f. (fr_value f, fr_cache_value f, frame_to_sorted resolve f))) fs) ([], a - u, b - w)
     in FrameSorted name a b frames u w unknown cache_unknown)"

section \<open>The serialised form\<close>

text \<open>A frame of the JSON document, or one of the two summary frames.\<close>

datatype frame_json =
    Json_Frame (fj_name: "symbol_info option") (fj_value: u64) (fj_cache_value: u64) (fj_frames: "frame_json list")
  | Json_Fake (fj_fake_name: string) (fj_value: u64) (fj_cache_value: u64)

definition fake_frame :: "string \<Rightarrow> u64 \<Rightarrow> u64 \<Rightarrow> frame_json list" where
  "fake_frame name value cache_value = (if value \<noteq> 0 then [Json_Fake name value cache_value] else [])"

primrec frame_serialize :: "frame_sorted \<Rightarrow> frame_json" where
  "frame_serialize (FrameSorted name value cache_value frames u w unknown cache_unknown) =
     Json_Frame name value cache_value
       (if frames = [] then []
        else map (\<lambda>e. snd e) (map (map_prod id frame_serialize) frames)
          @ fake_frame ''underThreshold'' u w @ fake_frame ''unknown'' unknown cache_unknown)"

text \<open>The report of a tracker: an entry is the memory, the memory of the page cache, and the stack.\<close>

definition frames_of_entries :: "bool \<Rightarrow> (u64 \<times> u64 \<times> u64 list) list \<Rightarrow> frame" where
  "frames_of_entries reverse entries =
     fold (\<lambda>(value, cache_value, stack). frame_insert (if reverse then rev stack else stack) value cache_value)
       entries frame_default"

definition tree_report :: "u64 \<Rightarrow> bool \<Rightarrow> (u64 \<times> u64 \<times> u64 list) list \<Rightarrow> frame" where
  "tree_report threshold reverse entries = frame_strip threshold (frames_of_entries reverse entries)"


section \<open>The memory below a path\<close>

fun frame_lookup :: "frame \<Rightarrow> u64 list \<Rightarrow> frame option" where
  "frame_lookup f [] = Some f"
| "frame_lookup f (ip # p) = (case map_of (fr_frames f) ip of None \<Rightarrow> None | Some g \<Rightarrow> frame_lookup g p)"

definition amounts :: "frame \<Rightarrow> u64 \<times> u64" where
  "amounts f = (fr_value f, fr_cache_value f)"

definition frame_at :: "frame \<Rightarrow> u64 list \<Rightarrow> u64 \<times> u64" where
  "frame_at f p = (case frame_lookup f p of None \<Rightarrow> (0, 0) | Some g \<Rightarrow> amounts g)"

lemma lookup_default: "frame_lookup frame_default p = (if p = [] then Some frame_default else None)"
  by (cases p) (simp_all add: frame_default_def)

lemma frame_at_Cons:
  "frame_at f (ip # p) = frame_at (case map_of (fr_frames f) ip of None \<Rightarrow> frame_default | Some g \<Rightarrow> g) p"
proof (cases "map_of (fr_frames f) ip")
  case None
  have "amounts frame_default = (0, 0)" by (simp add: amounts_def frame_default_def)
  then show ?thesis using None by (simp add: frame_at_def lookup_default)
qed (simp add: frame_at_def)

lemma frame_insert_frames:
  "fr_frames (frame_insert (ip # s) v c f) =
     AList.update ip (frame_insert s v c (case map_of (fr_frames f) ip of None \<Rightarrow> frame_default | Some g \<Rightarrow> g)) (fr_frames f)"
  by (cases f) simp

lemma frame_insert_leaf: "fr_frames (frame_insert [] v c f) = fr_frames f"
  by (cases f) simp

lemma frame_insert_amounts: "amounts (frame_insert s v c f) = (fr_value f + v, fr_cache_value f + c)"
  by (cases f; cases s) (simp_all add: amounts_def)

lemma frame_at_insert:
  "frame_at (frame_insert s v c f) p =
     (if prefix p s then (fst (frame_at f p) + v, snd (frame_at f p) + c) else frame_at f p)"
proof (induction s arbitrary: f p)
  case Nil
  show ?case
    by (cases p) (simp_all add: frame_at_def frame_insert_amounts frame_insert_leaf, simp add: amounts_def)
next
  case (Cons ip s)
  show ?case
  proof (cases p)
    case Nil
    then show ?thesis by (simp add: frame_at_def frame_insert_amounts) (simp add: amounts_def)
  next
    case (Cons ip' p')
    show ?thesis
    proof (cases "ip' = ip")
      case True
      then show ?thesis using Cons Cons.IH [of _ p'] by (simp add: frame_at_Cons frame_insert_frames update_conv)
    next
      case False
      then show ?thesis using Cons by (simp add: frame_at_Cons frame_insert_frames update_conv)
    qed
  qed
qed

lemma lookup_insert: "frame_lookup (frame_insert s v c f) p \<noteq> None \<longleftrightarrow> frame_lookup f p \<noteq> None \<or> prefix p s"
proof (induction s arbitrary: f p)
  case Nil
  show ?case by (cases p) (simp_all add: frame_insert_leaf)
next
  case (Cons ip s)
  show ?case
  proof (cases p)
    case (Cons ip' p')
    show ?thesis
    proof (cases "ip' = ip")
      case True
      have d: "frame_lookup frame_default p' \<noteq> None \<Longrightarrow> prefix p' s" by (simp add: lookup_default split: if_splits)
      show ?thesis using Cons True Cons.IH [of "case map_of (fr_frames f) ip of None \<Rightarrow> frame_default | Some g \<Rightarrow> g" p'] d
        by (auto simp: frame_insert_frames update_conv split: option.splits)
    qed (use Cons in \<open>simp add: frame_insert_frames update_conv\<close>)
  qed simp
qed

section \<open>Stripping\<close>

primrec frame_wf :: "frame \<Rightarrow> bool" where
  "frame_wf (Frame a b fs u w) \<longleftrightarrow>
     distinct (map fst fs) \<and> list_all (\<lambda>e. snd e) (map (map_prod id frame_wf) fs)"

lemma frame_wf_iff:
  "frame_wf f \<longleftrightarrow> distinct (map fst (fr_frames f)) \<and> (\<forall>(k, g) \<in> set (fr_frames f). frame_wf g)"
  by (cases f) (auto simp: list_all_iff)

lemma set_update_subset: "set (AList.update k v al) \<subseteq> insert (k, v) (set al)"
  by (induction al) auto

lemma frame_wf_default: "frame_wf frame_default"
  by (simp add: frame_default_def)

lemma frame_wf_insert: "frame_wf f \<Longrightarrow> frame_wf (frame_insert s v c f)"
proof (induction s arbitrary: f)
  case Nil
  then show ?case by (simp add: frame_wf_iff [of "frame_insert [] v c f"] frame_insert_leaf) (simp add: frame_wf_iff [of f])
next
  case (Cons ip s)
  let ?g = "case map_of (fr_frames f) ip of None \<Rightarrow> frame_default | Some g \<Rightarrow> g"
  have "frame_wf ?g"
    using Cons.prems frame_wf_default by (auto simp: frame_wf_iff [of f] dest: map_of_SomeD split: option.splits)
  then show ?case
    using Cons.IH [of ?g] Cons.prems set_update_subset [of ip "frame_insert s v c ?g" "fr_frames f"]
    unfolding frame_wf_iff [of "frame_insert (ip # s) v c f"] frame_insert_frames
    by (auto simp: frame_wf_iff [of f] distinct_update)
qed

lemma frame_strip_amounts: "amounts (frame_strip t f) = amounts f"
  by (cases f) (simp add: amounts_def Let_def)

lemma frame_strip_frames:
  "fr_frames (frame_strip t f) = map (map_prod id (frame_strip t)) (filter (\<lambda>e. t \<le> fr_value (snd e)) (fr_frames f))"
proof -
  have "fr_value (frame_strip t g) = fr_value g" for g using frame_strip_amounts [of t g] by (simp add: amounts_def)
  then show ?thesis by (cases f) (simp add: Let_def filter_map comp_def)
qed

lemma map_of_strip:
  "map_of (map (map_prod id h) fs) k = map_option h (map_of fs k)"
  by (induction fs) auto

lemma map_of_filter_value:
  "distinct (map fst fs) \<Longrightarrow> map_of (filter (\<lambda>e. P (snd e)) fs) k =
     (case map_of fs k of None \<Rightarrow> None | Some v \<Rightarrow> if P v then Some v else None)"
proof (induction fs)
  case (Cons e fs)
  obtain k' v' where e: "e = (k', v')" by (cases e)
  have "map_of fs k' = None" using Cons.prems by (simp add: e map_of_eq_None_iff)
  then show ?case using Cons by (auto simp: e split: option.splits)
qed simp

lemma lookup_strip_Cons:
  "frame_wf f \<Longrightarrow> frame_lookup (frame_strip t f) (ip # p) =
     (case map_of (fr_frames f) ip of
        None \<Rightarrow> None
      | Some g \<Rightarrow> if t \<le> fr_value g then frame_lookup (frame_strip t g) p else None)"
  using map_of_filter_value [of "fr_frames f" "\<lambda>g. t \<le> fr_value g" ip]
  by (auto simp: frame_wf_iff [of f] frame_strip_frames map_of_strip split: option.splits)

lemma frame_at_Nil: "fst (frame_at g []) = fr_value g"
  by (simp add: frame_at_def amounts_def)

lemma prefix_all_iff: "(\<forall>q. prefix q p \<longrightarrow> Q q) \<longleftrightarrow> Q [] \<and> (\<forall>q. q \<noteq> [] \<and> prefix q p \<longrightarrow> Q q)"
proof (intro iffI allI impI)
  fix q assume "Q [] \<and> (\<forall>q. q \<noteq> [] \<and> prefix q p \<longrightarrow> Q q)" "prefix q p"
  then show "Q q" by (cases "q = []") simp_all
qed simp

lemma lookup_strip:
  "frame_wf f \<Longrightarrow> frame_lookup (frame_strip t f) p =
     (if \<forall>q. q \<noteq> [] \<and> prefix q p \<longrightarrow> t \<le> fst (frame_at f q)
      then map_option (frame_strip t) (frame_lookup f p) else None)"
proof (induction p arbitrary: f)
  case (Cons ip p)
  show ?case
  proof (cases "map_of (fr_frames f) ip")
    case None
    then show ?thesis using Cons.prems by (simp only: lookup_strip_Cons option.case) simp
  next
    case (Some g)
    have g: "frame_wf g" using Cons.prems Some by (auto simp: frame_wf_iff [of f] dest: map_of_SomeD)
    have at: "frame_at f (ip # q) = frame_at g q" for q using Some by (simp add: frame_at_Cons)
    have "(\<forall>q. q \<noteq> [] \<and> prefix q (ip # p) \<longrightarrow> t \<le> fst (frame_at f q)) \<longleftrightarrow>
        (\<forall>q. prefix q p \<longrightarrow> t \<le> fst (frame_at g q))"
      unfolding prefix_Cons by (metis at list.distinct(1) list.sel(1,3))
    also have "\<dots> \<longleftrightarrow> t \<le> fr_value g \<and> (\<forall>q. q \<noteq> [] \<and> prefix q p \<longrightarrow> t \<le> fst (frame_at g q))"
      using prefix_all_iff [of p "\<lambda>q. t \<le> fst (frame_at g q)"] by (simp only: frame_at_Nil)
    finally have c: "(\<forall>q. q \<noteq> [] \<and> prefix q (ip # p) \<longrightarrow> t \<le> fst (frame_at f q)) \<longleftrightarrow> \<dots>" .
    have l: "frame_lookup f (ip # p) = frame_lookup g p" using Some by simp
    show ?thesis
      unfolding lookup_strip_Cons [OF Cons.prems] Some option.case(2) c Cons.IH [OF g] l
      by (cases "t \<le> fr_value g") (simp_all only: simp_thms if_True if_False)
  qed
qed simp


section \<open>The report of a list of entries\<close>

definition orient :: "bool \<Rightarrow> u64 list \<Rightarrow> u64 list" where
  "orient reverse stack = (if reverse then rev stack else stack)"

text \<open>The memory of the entries whose stacks begin with \<open>p\<close>.\<close>

definition below :: "bool \<Rightarrow> (u64 \<times> u64 \<times> u64 list) list \<Rightarrow> u64 list \<Rightarrow> u64" where
  "below reverse entries p = (\<Sum>(v, c, s) \<leftarrow> entries. if prefix p (orient reverse s) then v else 0)"

definition cache_below :: "bool \<Rightarrow> (u64 \<times> u64 \<times> u64 list) list \<Rightarrow> u64 list \<Rightarrow> u64" where
  "cache_below reverse entries p = (\<Sum>(v, c, s) \<leftarrow> entries. if prefix p (orient reverse s) then c else 0)"

lemma frames_of_entries_fold:
  "frames_of_entries reverse entries = fold (\<lambda>(v, c, s). frame_insert (orient reverse s) v c) entries frame_default"
  by (simp add: frames_of_entries_def orient_def)

lemma fold_insert_at:
  "frame_at (fold (\<lambda>(v, c, s). frame_insert (orient reverse s) v c) entries f) p =
     (fst (frame_at f p) + below reverse entries p, snd (frame_at f p) + cache_below reverse entries p)"
  by (induction entries arbitrary: f)
    (auto simp: below_def cache_below_def frame_at_insert algebra_simps)

lemma fold_insert_lookup:
  "frame_lookup (fold (\<lambda>(v, c, s). frame_insert (orient reverse s) v c) entries f) p \<noteq> None \<longleftrightarrow>
     frame_lookup f p \<noteq> None \<or> (\<exists>(v, c, s) \<in> set entries. prefix p (orient reverse s))"
proof (induction entries arbitrary: f)
  case (Cons e entries)
  obtain v c s where e: "e = (v, c, s)" by (cases e)
  show ?case using Cons.IH [of "frame_insert (orient reverse s) v c f"] lookup_insert [of "orient reverse s" v c f p]
    by (simp add: e)
qed simp

lemma fold_insert_wf:
  "frame_wf f \<Longrightarrow> frame_wf (fold (\<lambda>(v, c, s). frame_insert (orient reverse s) v c) entries f)"
  by (induction entries arbitrary: f) (auto intro: frame_wf_insert)

lemma unat_sum_list:
  "sum_list (map (\<lambda>x. unat (f x)) xs) < 2 ^ 64 \<Longrightarrow> unat (sum_list (map f xs) :: u64) = sum_list (map (\<lambda>x. unat (f x)) xs)"
proof (induction xs)
  case (Cons x xs)
  then have "unat (sum_list (map f xs)) = sum_list (map (\<lambda>x. unat (f x)) xs)" by simp
  then show ?case using Cons.prems by (simp add: unat_word_ariths(1))
qed simp

definition entry_total :: "(u64 \<times> u64 \<times> u64 list) list \<Rightarrow> nat" where
  "entry_total entries = (\<Sum>(v, c, s) \<leftarrow> entries. unat v)"

lemma unat_below:
  assumes "entry_total entries < 2 ^ 64"
  shows "unat (below reverse entries p) = (\<Sum>(v, c, s) \<leftarrow> entries. if prefix p (orient reverse s) then unat v else 0)"
proof -
  let ?f = "\<lambda>(v :: u64, c :: u64, s). if prefix p (orient reverse s) then v else 0"
  have u: "unat (?f e) = (case e of (v, c, s) \<Rightarrow> if prefix p (orient reverse s) then unat v else 0)" for e
    by (cases e) simp
  have "(\<Sum>e \<leftarrow> entries. unat (?f e)) \<le> entry_total entries"
    unfolding entry_total_def by (rule sum_list_mono) auto
  then have "unat (below reverse entries p) = (\<Sum>e \<leftarrow> entries. unat (?f e))"
    using assms unat_sum_list [of ?f entries] by (simp add: below_def)
  then show ?thesis by (simp only: u)
qed

lemma below_antimono:
  assumes "entry_total entries < 2 ^ 64" "prefix q p"
  shows "below reverse entries p \<le> below reverse entries q"
  unfolding word_le_nat_alt unat_below [OF assms(1)]
  by (rule sum_list_mono) (use assms(2) in \<open>auto intro: prefix_order.trans\<close>)

text \<open>
  C8: The tree report shows the memory below every frame. For any usage (with less than 2 to the 64 KiB in all), the report with
  a threshold has a frame for a path of calls exactly when some stack begins with the path and the memory of the stacks
  that do is not below the threshold; its value is the sum of that memory and its cache value the sum of the cache part.
\<close>

theorem tree_report_exact:
  assumes "entry_total entries < 2 ^ 64"
  shows "map_option amounts (frame_lookup (tree_report threshold reverse entries) p) =
    (if p = [] \<or> (\<exists>(v, c, s) \<in> set entries. prefix p (orient reverse s)) \<and> threshold \<le> below reverse entries p
     then Some (below reverse entries p, cache_below reverse entries p) else None)"
proof -
  let ?f = "frames_of_entries reverse entries"
  have "frame_at frame_default p = (0, 0)" for p
    by (simp add: frame_at_def lookup_default) (simp add: amounts_def frame_default_def)
  then have at: "frame_at ?f p = (below reverse entries p, cache_below reverse entries p)" for p
    unfolding frames_of_entries_fold by (simp add: fold_insert_at)
  have ex: "frame_lookup ?f p \<noteq> None \<longleftrightarrow> p = [] \<or> (\<exists>(v, c, s) \<in> set entries. prefix p (orient reverse s))"
    unfolding frames_of_entries_fold fold_insert_lookup lookup_default by simp
  have kept: "(\<forall>q. q \<noteq> [] \<and> prefix q p \<longrightarrow> threshold \<le> fst (frame_at ?f q)) \<longleftrightarrow>
      p = [] \<or> threshold \<le> below reverse entries p"
    unfolding at fst_conv using below_antimono [OF assms] by (auto intro: order_trans)
  have "frame_wf ?f" unfolding frames_of_entries_fold by (rule fold_insert_wf [OF frame_wf_default])
  note l = lookup_strip [OF this, of threshold p, unfolded kept]
  show ?thesis
  proof (cases "frame_lookup ?f p")
    case None
    then show ?thesis using ex l by (simp add: tree_report_def)
  next
    case (Some g)
    then have "amounts g = (below reverse entries p, cache_below reverse entries p)"
      using at [of p] by (simp add: frame_at_def)
    then show ?thesis using ex l Some by (auto simp: tree_report_def frame_strip_amounts)
  qed
qed

definition sample_entries :: "(u64 \<times> u64 \<times> u64 list) list" where
  "sample_entries = [(12, 4, [1, 2]), (4, 0, [3, 2])]"

theorem tree_report_exact_witness:
  "map_option amounts (frame_lookup (tree_report 8 True sample_entries) [2]) =
    (if [2] = ([] :: u64 list) \<or> (\<exists>(v, c, s) \<in> set sample_entries. prefix [2] (orient True s)) \<and> 8 \<le> below True sample_entries [2]
     then Some (below True sample_entries [2], cache_below True sample_entries [2]) else None)"
  by (rule tree_report_exact) (simp add: entry_total_def sample_entries_def)

section \<open>The sums of the serialised report\<close>

lemma mset_btree_insert:
  "k \<notin> fst ` set es \<Longrightarrow> mset (btree_insert k v es) = add_mset (k, v) (mset es)"
  by (induction es) auto

lemma sum_list_btree_insert:
  assumes "k \<notin> fst ` set es"
  shows "sum_list (map g (btree_insert k v es)) = g (k, v) + (sum_list (map g es) :: u64)"
proof -
  have "mset (map g (btree_insert k v es)) = mset (map g ((k, v) # es))"
    using mset_btree_insert [OF assms] by simp
  then show ?thesis by (metis (no_types) list.simps(9) sum_list.Cons sum_mset_sum_list)
qed

lemma set_btree_insert: "set (btree_insert k v es) \<subseteq> insert (k, v) (set es)"
  by (induction es) (auto split: if_splits)


primrec json_sums :: "frame_json \<Rightarrow> bool" where
  "json_sums (Json_Frame name value cache_value frames) \<longleftrightarrow>
     (frames \<noteq> [] \<longrightarrow> sum_list (map fj_value frames) = value) \<and> list_all (\<lambda>b. b) (map json_sums frames)"
| "json_sums (Json_Fake name value cache_value) \<longleftrightarrow> True"

definition named_uniquely :: "(u64 \<Rightarrow> symbol_info option) \<Rightarrow> bool" where
  "named_uniquely resolve \<longleftrightarrow> (\<forall>a b n. resolve a = Some n \<longrightarrow> resolve b = Some n \<longrightarrow> a = b)"

type_synonym sorting = "u64 \<times> u64 \<times> u64 \<times> (symbol_info option \<Rightarrow> frame_sorted)"

abbreviation sort_all ::
    "(u64 \<Rightarrow> symbol_info option) \<Rightarrow> sorting list \<Rightarrow> (sort_key \<times> frame_sorted) list \<times> u64 \<times> u64
     \<Rightarrow> (sort_key \<times> frame_sorted) list \<times> u64 \<times> u64" where
  "sort_all resolve \<equiv> fold (\<lambda>(key, v, c, to_sorted). sorted_step (resolve key) v c to_sorted)"

text \<open>No symbol that is still to come is the name of a sorted frame.\<close>

definition fresh_names ::
    "(u64 \<Rightarrow> symbol_info option) \<Rightarrow> sorting list \<Rightarrow> (sort_key \<times> frame_sorted) list \<Rightarrow> bool" where
  "fresh_names resolve L frames \<longleftrightarrow>
     (\<forall>(k, v, c, ts) \<in> set L. \<forall>n. resolve k = Some n \<longrightarrow> n \<notin> sk_name ` fst ` set frames)"

lemma fresh_names_insert:
  assumes "named_uniquely resolve" "k \<notin> fst ` set L" "resolve k = Some n" "fresh_names resolve L frames"
  shows "fresh_names resolve L (btree_insert (SortKey w n) f frames)"
  unfolding fresh_names_def
proof clarify
  fix k' v' c' ts' n' e
  assume a: "(k', v', c', ts') \<in> set L" "resolve k' = Some (sk_name (fst e))"
    "e \<in> set (btree_insert (SortKey w n) f frames)"
  have "k' \<noteq> k" using a(1) assms(2) by force
  then have "sk_name (fst e) \<noteq> n" using a(2) assms(1,3) unfolding named_uniquely_def by blast
  moreover have "sk_name (fst e) \<notin> sk_name ` fst ` set frames"
    using assms(4) a(1,2) unfolding fresh_names_def by blast
  ultimately show False using a(3) set_btree_insert [of "SortKey w n" f frames] by force
qed

lemma sort_all_sums:
  assumes "named_uniquely resolve" and "distinct (map fst L)"
    and "\<forall>(k, v, c, ts) \<in> set L. \<forall>n. fs_value (ts n) = v" and "fresh_names resolve L frames"
    and "sort_all resolve L (frames, unknown, cu) = (frames', unknown', cu')"
  shows "sum_list (map (\<lambda>e. fs_value (snd e)) frames') + unknown' =
      sum_list (map (\<lambda>e. fs_value (snd e)) frames) + unknown \<and>
    (\<forall>e \<in> set frames'. e \<in> set frames \<or> (\<exists>(k, v, c, ts) \<in> set L. \<exists>n. snd e = ts n))"
  using assms(2-)
proof (induction L arbitrary: frames unknown cu)
  case (Cons x L)
  obtain k v c ts where x: "x = (k, v, c, ts)" by (cases x)
  have L: "distinct (map fst L)" "k \<notin> fst ` set L" "fresh_names resolve L frames"
      "\<forall>(k, v, c, ts) \<in> set L. \<forall>n. fs_value (ts n) = v" and ts: "fs_value (ts n) = v" for n
    using Cons.prems(1-3) by (auto simp: x fresh_names_def)
  show ?case
  proof (cases "resolve k")
    case None
    then show ?thesis using Cons.IH [OF L(1,4,3), of unknown cu] Cons.prems(4)
      by (simp add: x sorted_step_def) blast
  next
    case (Some n)
    let ?fr = "btree_insert (SortKey (NOT v) n) (ts (Some n)) frames"
    have new: "SortKey (NOT v) n \<notin> fst ` set frames"
      using Cons.prems(3) Some by (force simp: x fresh_names_def)
    have "sort_all resolve L (?fr, unknown - v, cu - c) = (frames', unknown', cu')"
      using Cons.prems(4) Some by (simp add: x sorted_step_def)
    from Cons.IH [OF L(1,4) fresh_names_insert [OF assms(1) L(2) Some L(3)] this] show ?thesis
      using set_btree_insert [of "SortKey (NOT v) n" "ts (Some n)" frames] ts
      by (fastforce simp: x sum_list_btree_insert [OF new])
  qed
qed simp

lemma fj_value_serialize: "fj_value (frame_serialize f) = fs_value f"
  by (cases f) simp

lemma fs_value_to_sorted: "fs_value (frame_to_sorted resolve f n) = fr_value f"
  by (cases f) (simp add: Let_def split: prod.split)

lemma fake_frame_sum: "sum_list (map fj_value (fake_frame name v c)) = v" "list_all json_sums (fake_frame name v c)"
  by (simp_all add: fake_frame_def)

lemma json_sums_to_sorted:
  assumes "named_uniquely resolve"
  shows "frame_wf f \<Longrightarrow> json_sums (frame_serialize (frame_to_sorted resolve f name))"
proof (induction f arbitrary: name)
  case (Frame a b fs u w)
  define L where "L = map (map_prod id (\<lambda>f. (fr_value f, fr_cache_value f, frame_to_sorted resolve f))) fs"
  obtain frames unknown cu where s: "sort_all resolve L ([], a - u, b - w) = (frames, unknown, cu)"
    by (metis prod_cases3)
  have f: "frame_to_sorted resolve (Frame a b fs u w) name = FrameSorted name a b frames u w unknown cu"
    using s by (simp add: L_def)
  have L: "distinct (map fst L)" "\<forall>(k, v, c, ts) \<in> set L. \<forall>n. fs_value (ts n) = v" "fresh_names resolve L []"
    using Frame.prems by (auto simp: L_def fs_value_to_sorted fresh_names_def comp_def)
  note sums = sort_all_sums [OF assms L s]
  have "json_sums (frame_serialize (snd e))" if a: "e \<in> set frames" for e
  proof -
    obtain k v c ts n where "(k, v, c, ts) \<in> set L" "snd e = ts n" using sums a by fastforce
    then obtain k g where g: "(k, g) \<in> set fs" "snd e = frame_to_sorted resolve g n" by (auto simp: L_def)
    have "frame_wf g" using Frame.prems g(1) unfolding frame_wf_iff [of "Frame a b fs u w"] by auto
    then show ?thesis using Frame.IH [of "(k, g)" g n] g by simp
  qed
  moreover have "sum_list (map (\<lambda>e. fs_value (snd e)) frames) + (u + unknown) = a"
    using sums by (simp add: algebra_simps)
  ultimately show ?case
    unfolding f
    using fake_frame_sum [of "''underThreshold''" u w] fake_frame_sum [of "''unknown''" unknown cu]
    by (auto simp: list_all_iff fj_value_serialize comp_def add.assoc)
qed

text \<open>
  C32: The values of the report add up. When no two addresses have the same symbol, in the serialised report of any usage and
  any threshold, every frame that lists inner frames lists values whose sum (modulo 2 to the 64) is its own
  value: the frames under the threshold and those without a symbol are accounted for by the two summary frames.
\<close>

theorem report_adds_up:
  assumes "named_uniquely resolve"
  shows "json_sums (frame_serialize (frame_to_sorted resolve (tree_report threshold reverse entries) name))"
proof -
  have "frame_wf (frame_strip t f)" if "frame_wf f" for t f
    using that
  proof (induction f)
    case (Frame a b fs u w)
    have "distinct (map fst (filter (\<lambda>e. t \<le> fr_value (snd e)) fs))"
      using Frame.prems by (auto intro: distinct_map_filter)
    moreover have "frame_wf (frame_strip t g)" if "(k, g) \<in> set fs" for k g
      using Frame.IH [OF that, of g] Frame.prems that unfolding frame_wf_iff [of "Frame a b fs u w"] by auto
    ultimately show ?case
      unfolding frame_wf_iff [of "frame_strip t (Frame a b fs u w)"] frame_strip_frames by auto
  qed
  moreover have "frame_wf (frames_of_entries reverse entries)"
    unfolding frames_of_entries_fold by (rule fold_insert_wf [OF frame_wf_default])
  ultimately show ?thesis unfolding tree_report_def by (intro json_sums_to_sorted [OF assms])
qed

definition sample_resolve :: "u64 \<Rightarrow> symbol_info option" where
  "sample_resolve a = (if a < 100 then Some (SymbolInfo (ucast a) ''light-node'' None ''nodeRust'') else None)"

theorem report_adds_up_witness:
  "json_sums (frame_serialize (frame_to_sorted sample_resolve (tree_report 8 True sample_entries) None))"
proof (rule report_adds_up)
  have "a = b" if "a < 100" "b < 100" "(ucast a :: u32) = ucast b" for a b :: u64
  proof -
    have "unat (ucast c :: u32) = unat c" if "c < 100" for c :: u64
      using that by (simp add: unsigned_ucast_eq word_less_nat_alt take_bit_nat_eq_self)
    then show ?thesis using that by (metis word_unat_eq_iff)
  qed
  then show "named_uniquely sample_resolve" by (auto simp: named_uniquely_def sample_resolve_def split: if_splits)
qed

end
