(* ===== verification/Memprof_Aggregator.thy ===== *)
theory Memprof_Aggregator
  imports Memprof_Event Memprof_Report
begin

unbundle bit_operations_syntax

text \<open>
  The accounting of the memory profiler, \<^verbatim>\<open>tezedge-memprof/src/collector/{aggregator,consumer}.rs\<close> and
  \<^verbatim>\<open>history/page.rs\<close>: the pages that are allocated, with the stack that allocated them, and the number of pages per
  stack. Maps that are iterated are association lists.
\<close>

section \<open>Pages\<close>

record page =
  pg_inner :: u32

definition page_new :: "hex64 \<Rightarrow> u32 \<Rightarrow> page" where
  "page_new pfn order = \<lparr>pg_inner = ucast (pfn AND 0x0fffffff) + push_bit 28 order\<rparr>"

definition page_pfn :: "page \<Rightarrow> u32" where
  "page_pfn p = pg_inner p AND 0x0fffffff"

definition page_size_kib :: "page \<Rightarrow> u64" where
  "page_size_kib p = push_bit (unat (drop_bit 28 (pg_inner p))) 4"

definition page_number :: "page \<Rightarrow> u32" where
  "page_number p = push_bit (unat (drop_bit 28 (pg_inner p))) 1"

definition page_order :: "page \<Rightarrow> u8" where
  "page_order p = ucast (drop_bit 28 (pg_inner p))"

definition page_set_order :: "u8 \<Rightarrow> page \<Rightarrow> page" where
  "page_set_order order p = p\<lparr>pg_inner := (pg_inner p AND 0x0fffffff) + push_bit 28 (ucast order)\<rparr>"

section \<open>The aggregator\<close>

record page_info =
  pi_func_path_index :: u32
  pi_order :: u8
  pi_is_allocated :: bool
  pi_is_cache :: bool

record usage =
  us_func_path :: "hex64 list"
  us_value :: u32
  us_cache_value :: u32

datatype raw_event = Raw_Alloc u32 u8 | Raw_Free u32 | Raw_Cache u32 | Raw_UnCache u32 | Raw_RssAnon u32

record aggregator =
  ag_counter :: u32
  ag_paths :: "hex64 list \<Rightarrow> u32 option"
  ag_pages :: "u32 \<Rightarrow> page_info option"
  ag_groups :: "(u32 \<times> usage) list"
  ag_dump :: "raw_event list option"

definition ag_default :: aggregator where
  "ag_default = \<lparr>ag_counter = 0, ag_paths = Map.empty, ag_pages = Map.empty, ag_groups = [], ag_dump = None\<rparr>"

definition turn_on_dump :: "aggregator \<Rightarrow> aggregator" where
  "turn_on_dump ag = ag\<lparr>ag_dump := Some []\<rparr>"

definition dump_push :: "raw_event \<Rightarrow> aggregator \<Rightarrow> aggregator" where
  "dump_push e ag = ag\<lparr>ag_dump := map_option (\<lambda>d. d @ [e]) (ag_dump ag)\<rparr>"

text \<open>The shift of a 32-bit one, whose amount is taken modulo 32.\<close>

definition pages_count :: "u8 \<Rightarrow> u32" where
  "pages_count order = push_bit (unat order mod 32) 1"

definition group_update :: "(usage \<Rightarrow> usage) \<Rightarrow> u32 \<Rightarrow> (u32 \<times> usage) list \<Rightarrow> panic + (u32 \<times> usage) list" where
  "group_update f index groups =
     (case map_of groups index of
        None \<Rightarrow> Inl Unwrap_None
      | Some u \<Rightarrow> Inr (AList.update index (f u) groups))"

text \<open>What a page that leaves a group takes with it.\<close>

definition leave_group :: "page_info \<Rightarrow> usage \<Rightarrow> usage" where
  "leave_group info u =
     u\<lparr>us_value := us_value u - (if pi_is_allocated info then pages_count (pi_order info) else 0),
       us_cache_value := us_cache_value u - (if pi_is_cache info then pages_count (pi_order info) else 0)\<rparr>"

definition ag_alloc :: "u32 \<Rightarrow> u8 \<Rightarrow> hex64 list \<Rightarrow> aggregator \<Rightarrow> panic + aggregator" where
  "ag_alloc page order path ag0 =
     (let ag = dump_push (Raw_Alloc page order) ag0;
          (index, paths, counter) =
            (case ag_paths ag path of
               Some i \<Rightarrow> (i, ag_paths ag, ag_counter ag)
             | None \<Rightarrow> (ag_counter ag, (ag_paths ag)(path \<mapsto> ag_counter ag), ag_counter ag + 1));
          info =
            (case ag_pages ag page of
               Some i \<Rightarrow> i
             | None \<Rightarrow> \<lparr>pi_func_path_index = index, pi_order = order, pi_is_allocated = False, pi_is_cache = False\<rparr>);
          pages_count = pages_count (pi_order info)
      in
      and_then (if pi_func_path_index info \<noteq> index
                then group_update (leave_group info) (pi_func_path_index info) (ag_groups ag)
                else Inr (ag_groups ag)) (\<lambda>groups.
      let usage =
            (case map_of groups index of
               Some u \<Rightarrow> u
             | None \<Rightarrow> \<lparr>us_func_path = path, us_value = 0, us_cache_value = 0\<rparr>)
      in Inr (ag\<lparr>ag_counter := counter, ag_paths := paths,
                 ag_pages := (ag_pages ag)(page \<mapsto> info\<lparr>pi_func_path_index := index, pi_is_allocated := True\<rparr>),
                 ag_groups := AList.update index (usage\<lparr>us_value := us_value usage + pages_count\<rparr>) groups\<rparr>)))"

definition ag_track_alloc :: "u32 \<Rightarrow> u8 \<Rightarrow> mem_stack \<Rightarrow> aggregator \<Rightarrow> panic + aggregator" where
  "ag_track_alloc page order stack ag = and_then (stack_ips stack) (\<lambda>path. ag_alloc page order path ag)"

definition ag_track_free :: "u32 \<Rightarrow> aggregator \<Rightarrow> panic + aggregator" where
  "ag_track_free page ag0 =
     (let ag = dump_push (Raw_Free page) ag0 in
      case ag_pages ag page of
        None \<Rightarrow> Inr ag
      | Some info \<Rightarrow>
          and_then (group_update (leave_group info) (pi_func_path_index info) (ag_groups ag)) (\<lambda>groups.
          Inr (ag\<lparr>ag_pages := (ag_pages ag)(page := None), ag_groups := groups\<rparr>)))"

definition ag_mark_cache :: "u32 \<Rightarrow> bool \<Rightarrow> aggregator \<Rightarrow> panic + aggregator" where
  "ag_mark_cache page b ag0 =
     (let ag = dump_push (if b then Raw_Cache page else Raw_UnCache page) ag0 in
      case ag_pages ag page of
        None \<Rightarrow> Inr ag
      | Some info \<Rightarrow>
          let count = pages_count (pi_order info) in
          and_then (group_update (\<lambda>u.
              if pi_is_cache info \<noteq> b
              then u\<lparr>us_cache_value := (if b then us_cache_value u + count else us_cache_value u - count)\<rparr> else u)
            (pi_func_path_index info) (ag_groups ag)) (\<lambda>groups.
          Inr (ag\<lparr>ag_pages := (ag_pages ag)(page \<mapsto> info\<lparr>pi_is_cache := b\<rparr>), ag_groups := groups\<rparr>)))"

definition ag_track_rss_anon :: "u32 \<Rightarrow> aggregator \<Rightarrow> aggregator" where
  "ag_track_rss_anon v ag = dump_push (Raw_RssAnon v) ag"

definition ag_report :: "aggregator \<Rightarrow> (u64 \<times> u64 \<times> hex64 list) list" where
  "ag_report ag = map (\<lambda>(_, u). (ucast (us_value u) * 4, ucast (us_cache_value u) * 4, us_func_path u)) (ag_groups ag)"

text \<open>The traits \<^verbatim>\<open>Tracker\<close> and \<^verbatim>\<open>Reporter\<close>.\<close>

definition ag_tracker_alloc :: "page \<Rightarrow> mem_stack \<Rightarrow> hex32 \<Rightarrow> u32 \<Rightarrow> aggregator \<Rightarrow> panic + aggregator" where
  "ag_tracker_alloc page stack flags pid ag = ag_track_alloc (page_pfn page) (page_order page) stack ag"

definition ag_tracker_free :: "page \<Rightarrow> u32 \<Rightarrow> aggregator \<Rightarrow> panic + aggregator" where
  "ag_tracker_free page pid ag = ag_track_free (page_pfn page) ag"

definition ag_tracker_mark :: "page \<Rightarrow> bool \<Rightarrow> aggregator \<Rightarrow> panic + aggregator" where
  "ag_tracker_mark page b ag = ag_mark_cache (page_pfn page) b ag"

definition ag_short_report :: "aggregator \<Rightarrow> u64 \<times> u64" where
  "ag_short_report ag = fold (\<lambda>(v, c, _) (s, t). (s + v, t + c)) (ag_report ag) (0, 0)"

definition ag_tree_report :: "u64 \<Rightarrow> bool \<Rightarrow> aggregator \<Rightarrow> frame" where
  "ag_tree_report threshold reverse ag = tree_report threshold reverse (ag_report ag)"

section \<open>The consumer\<close>

record consumer =
  cs_has_pid :: bool
  cs_pid :: u32
  cs_aggregator :: aggregator
  cs_last :: "event_kind option"

definition consumer_default :: consumer where
  "consumer_default = \<lparr>cs_has_pid = False, cs_pid = 0, cs_aggregator = ag_default, cs_last = None\<rparr>"

definition consume :: "mem_event \<Rightarrow> consumer \<Rightarrow> panic + consumer" where
  "consume ev c =
     (let ag = cs_aggregator c;
          keep = (\<lambda>r. and_then r (\<lambda>ag'. Inr (c\<lparr>cs_aggregator := ag'\<rparr>)))
      in case mev_event ev of
        Ev_PageAlloc v \<Rightarrow>
          if pa_pfn v \<noteq> 0 then
            and_then (ag_track_alloc (ucast (pa_pfn v)) (ucast (pa_order v)) (mev_stack ev) ag) (\<lambda>ag'.
            Inr (c\<lparr>cs_has_pid := True, cs_pid := mev_pid ev, cs_aggregator := ag'\<rparr>))
          else Inr c
      | Ev_PageFree v \<Rightarrow>
          if pf_pfn v \<noteq> 0 \<and> cs_has_pid c then keep (ag_track_free (ucast (pf_pfn v)) ag) else Inr c
      | Ev_AddToPageCache v \<Rightarrow>
          if apc_pfn v \<noteq> 0 \<and> cs_has_pid c then keep (ag_mark_cache (ucast (apc_pfn v)) True ag) else Inr c
      | Ev_RemoveFromPageCache v \<Rightarrow>
          if rpc_pfn v \<noteq> 0 \<and> cs_has_pid c then keep (ag_mark_cache (ucast (rpc_pfn v)) False ag) else Inr c
      | Ev_RssStat v \<Rightarrow>
          if rs_member v = 1 \<and> cs_has_pid c then Inr (c\<lparr>cs_aggregator := ag_track_rss_anon (ucast (rs_size v)) ag\<rparr>)
          else Inr c
      | _ \<Rightarrow> Inr c)"

text \<open>A record that cannot be read is logged; one with the same event as the last is skipped.\<close>

definition arrive :: "bytes \<Rightarrow> consumer \<Rightarrow> panic + consumer" where
  "arrive data c =
     and_then (mem_event_from_slice data) (\<lambda>r.
     case r of
       Inl e \<Rightarrow> Inr c
     | Inr ev \<Rightarrow>
         if cs_last c = Some (mev_event ev) then Inr c
         else and_then (consume ev c) (\<lambda>c'. Inr (c'\<lparr>cs_last := Some (mev_event ev)\<rparr>)))"

fun arrive_all :: "bytes list \<Rightarrow> consumer \<Rightarrow> panic + consumer" where
  "arrive_all [] c = Inr c"
| "arrive_all (data # rest) c = and_then (arrive data c) (arrive_all rest)"


section \<open>No panic\<close>

lemma fill_ips_length: "fill_ips i f ips = Inr r \<Longrightarrow> length r = length ips"
  by (induction f arbitrary: i ips) (auto split: if_splits)

lemma stack_from_slice_ips: "stack_from_slice sl = Inr (Some st) \<Longrightarrow> \<exists>ips. stack_ips st = Inr ips"
  by (auto simp: stack_from_slice_def stack_ips_def slice_def Let_def and_then_Inr_iff
      dest!: fill_ips_length split: if_splits)

lemma mem_event_stack:
  assumes "mem_event_from_slice sl = Inr (Inr ev)"
  obtains ips where "stack_ips (mev_stack ev) = Inr ips"
proof -
  let ?rest = "sub sl 0x10 (length sl)" and ?d = "from_ne_bytes (sub sl 0x0c 0x10) :: u32"
  have n: "\<not> length sl < 0x10" using assms by (auto simp: mem_event_from_slice_def)
  then have s: "slice sl 0x00 0x08 = Inr (sub sl 0x00 0x08)" "slice sl 0x08 0x0c = Inr (sub sl 0x08 0x0c)"
      "slice sl 0x0c 0x10 = Inr (sub sl 0x0c 0x10)" "slice sl 0x10 (length sl) = Inr ?rest"
    by (simp_all add: slice_def)
  obtain header where h: "common_header_from_slice (sub sl 0x00 0x08) = Some header"
    using common_header.reads [of "sub sl 0x00 0x08"] n by auto
  obtain t where t: "find (\<lambda>t. ?d = pod_discriminant t) pods = Some t"
    using assms n by (cases "find (\<lambda>t. ?d = pod_discriminant t) pods") (simp_all add: mem_event_from_slice_def s h)
  obtain event where e: "pod_from_slice t ?rest = Some event"
    using assms n t by (cases "pod_from_slice t ?rest") (simp_all add: mem_event_from_slice_def s h)
  obtain sl' where sl: "slice ?rest (pod_size t) (length ?rest) = Inr sl'"
    using pod_short_iff [of t ?rest] e by (simp add: slice_def)
  obtain r where r: "stack_from_slice sl' = Inr r" using stack_from_slice_total by blast
  have "stack_from_slice sl' = Inr (Some (mev_stack ev))"
    using assms n t e sl r by (cases r) (auto simp: mem_event_from_slice_def s h)
  then show thesis using stack_from_slice_ips that by blast
qed

definition ag_inv :: "aggregator \<Rightarrow> bool" where
  "ag_inv ag \<longleftrightarrow>
     (\<forall>p info. ag_pages ag p = Some info \<longrightarrow>
        pi_is_allocated info \<and> map_of (ag_groups ag) (pi_func_path_index info) \<noteq> None)"

lemma dump_push_simps [simp]:
  "ag_counter (dump_push e ag) = ag_counter ag" "ag_paths (dump_push e ag) = ag_paths ag"
  "ag_pages (dump_push e ag) = ag_pages ag" "ag_groups (dump_push e ag) = ag_groups ag"
  by (simp_all add: dump_push_def)

lemma ag_inv_default: "ag_inv ag_default"
  by (simp add: ag_inv_def ag_default_def)

lemma group_update_ok:
  "map_of groups i = Some u \<Longrightarrow> group_update f i groups = Inr (AList.update i (f u) groups)"
  by (simp add: group_update_def)

lemma ag_alloc_ok:
  assumes "ag_inv ag"
  shows "\<exists>ag'. ag_alloc page order path ag = Inr ag' \<and> ag_inv ag'"
proof (cases "ag_pages ag page")
  case None
  then show ?thesis using assms
    by (cases "ag_paths ag path") (auto simp: ag_alloc_def ag_inv_def Let_def update_conv)
next
  case (Some info)
  then obtain u where "map_of (ag_groups ag) (pi_func_path_index info) = Some u"
    using assms by (auto simp: ag_inv_def)
  then show ?thesis using assms Some
    by (cases "ag_paths ag path") (auto simp: ag_alloc_def ag_inv_def Let_def update_conv group_update_ok)
qed

lemma ag_track_free_ok: "ag_inv ag \<Longrightarrow> \<exists>ag'. ag_track_free page ag = Inr ag' \<and> ag_inv ag'"
  by (cases "ag_pages ag page")
    (auto simp: ag_track_free_def ag_inv_def update_conv group_update_def split: option.split)

lemma ag_mark_cache_ok:
  assumes "ag_inv ag"
  shows "\<exists>ag'. ag_mark_cache page b ag = Inr ag' \<and> ag_inv ag'"
proof (cases "ag_pages ag page")
  case None
  then show ?thesis using assms by (simp add: ag_mark_cache_def ag_inv_def)
next
  case (Some info)
  then obtain u where "map_of (ag_groups ag) (pi_func_path_index info) = Some u" "pi_is_allocated info"
    using assms by (auto simp: ag_inv_def)
  then show ?thesis using assms Some
    by (auto simp: ag_mark_cache_def ag_inv_def update_conv group_update_ok Let_def)
qed

lemma ag_rss_anon_ok: "ag_inv ag \<Longrightarrow> ag_inv (ag_track_rss_anon v ag)"
  by (simp add: ag_track_rss_anon_def ag_inv_def)

lemma consume_ok:
  assumes "ag_inv (cs_aggregator c)" "stack_ips (mev_stack ev) = Inr ips"
  shows "\<exists>c'. consume ev c = Inr c' \<and> ag_inv (cs_aggregator c')"
proof (cases "mev_event ev")
  case (Ev_PageAlloc v)
  obtain ag' where "ag_alloc (ucast (pa_pfn v)) (ucast (pa_order v)) ips (cs_aggregator c) = Inr ag'" "ag_inv ag'"
    using ag_alloc_ok [OF assms(1)] by blast
  then show ?thesis using assms Ev_PageAlloc by (simp add: consume_def ag_track_alloc_def)
next
  case (Ev_PageFree v)
  obtain ag' where "ag_track_free (ucast (pf_pfn v)) (cs_aggregator c) = Inr ag'" "ag_inv ag'"
    using ag_track_free_ok [OF assms(1)] by blast
  then show ?thesis using assms Ev_PageFree by (simp add: consume_def)
next
  case (Ev_AddToPageCache v)
  obtain ag' where "ag_mark_cache (ucast (apc_pfn v)) True (cs_aggregator c) = Inr ag'" "ag_inv ag'"
    using ag_mark_cache_ok [OF assms(1)] by blast
  then show ?thesis using assms Ev_AddToPageCache by (simp add: consume_def)
next
  case (Ev_RemoveFromPageCache v)
  obtain ag' where "ag_mark_cache (ucast (rpc_pfn v)) False (cs_aggregator c) = Inr ag'" "ag_inv ag'"
    using ag_mark_cache_ok [OF assms(1)] by blast
  then show ?thesis using assms Ev_RemoveFromPageCache by (simp add: consume_def)
next
  case (Ev_RssStat v)
  then show ?thesis using assms ag_rss_anon_ok by (simp add: consume_def)
qed (use assms in \<open>simp_all add: consume_def\<close>)

lemma arrive_ok:
  assumes "ag_inv (cs_aggregator c)"
  shows "\<exists>c'. arrive data c = Inr c' \<and> ag_inv (cs_aggregator c')"
proof -
  obtain r where r: "mem_event_from_slice data = Inr r" using mem_event_from_slice_total by blast
  show ?thesis
  proof (cases r)
    case (Inl e)
    then show ?thesis using r assms by (simp add: arrive_def)
  next
    case (Inr ev)
    then obtain ips where "stack_ips (mev_stack ev) = Inr ips" using r mem_event_stack by blast
    then obtain c' where "consume ev c = Inr c'" "ag_inv (cs_aggregator c')" using consume_ok [OF assms] by blast
    then show ?thesis using r Inr assms by (simp add: arrive_def)
  qed
qed

text \<open>
  C27: The profiler survives anything. Whatever bytes arrive from the ring buffer, in any number and order, the consumer
  does not panic: malformed records are rejected, and every page it knows has a group, so that none of the
  unwraps of the aggregator fails.
\<close>

theorem consumer_never_panics: "\<exists>c. arrive_all records consumer_default = Inr c \<and> ag_inv (cs_aggregator c)"
proof -
  have "\<exists>c'. arrive_all records c = Inr c' \<and> ag_inv (cs_aggregator c')" if "ag_inv (cs_aggregator c)" for c
    using that
  proof (induction records arbitrary: c)
    case (Cons data records)
    then obtain c' where "arrive data c = Inr c'" "ag_inv (cs_aggregator c')" using arrive_ok by blast
    then show ?case using Cons.IH by simp
  qed simp
  then show ?thesis using ag_inv_default by (simp add: consumer_default_def)
qed

end
