(* ===== verification/Memprof_History.thy ===== *)
theory Memprof_History
  imports Memprof_Aggregator
begin

unbundle bit_operations_syntax

text \<open>
  The tracker that keeps a history per page, \<^verbatim>\<open>tezedge-memprof/src/history/{page_history,error,history}.rs\<close>. The reading of the
  clock is an argument of the operations that look at it. The trait \<^verbatim>\<open>PageHistory\<close> is a record of functions, its
  contract the locale \<open>page_history_laws\<close>, in which the lemmas on \<^verbatim>\<open>History\<close> are proved.
\<close>

section \<open>The history of a page\<close>

record time_range =
  tr_start :: u64
  tr_end :: u64

definition open_end :: "time_range \<Rightarrow> bool" where
  "open_end r \<longleftrightarrow> tr_end r = - 1"

definition set_end :: "u64 \<Rightarrow> time_range \<Rightarrow> time_range" where
  "set_end now r = r\<lparr>tr_end := now\<rparr>"

definition begin_here :: "u64 \<Rightarrow> time_range" where
  "begin_here now = \<lparr>tr_start = now, tr_end = - 1\<rparr>"

definition end_here :: "u64 \<Rightarrow> time_range" where
  "end_here now = \<lparr>tr_start = 0, tr_end = now\<rparr>"

record page_event =
  pe_time_range :: time_range
  pe_flags :: hex32

definition event_based_cache_flag :: u32 where
  "event_based_cache_flag = push_bit 31 1"

definition page_cache :: "page_event \<Rightarrow> bool" where
  "page_cache e \<longleftrightarrow> pe_flags e AND event_based_cache_flag \<noteq> 0"

definition mark_page_cache :: "bool \<Rightarrow> page_event \<Rightarrow> page_event" where
  "mark_page_cache b e =
     e\<lparr>pe_flags := (if b then pe_flags e OR event_based_cache_flag else pe_flags e AND NOT event_based_cache_flag)\<rparr>"

datatype alloc_error = AllocError

datatype free_error = DoubleFree | WithoutAlloc

text \<open>The trait \<^verbatim>\<open>PageHistory\<close> with \<^verbatim>\<open>Default\<close>.\<close>

record 'h page_history =
  ph_default :: 'h
  ph_track_alloc :: "u64 \<Rightarrow> hex32 \<Rightarrow> 'h \<Rightarrow> (alloc_error + unit) \<times> 'h"
  ph_track_free :: "u64 \<Rightarrow> 'h \<Rightarrow> (free_error + unit) \<times> 'h"
  ph_is_allocated :: "u64 option \<Rightarrow> 'h \<Rightarrow> bool"
  ph_mark_page_cache :: "bool \<Rightarrow> 'h \<Rightarrow> 'h"
  ph_page_cache :: "'h \<Rightarrow> bool"
  ph_is_empty :: "'h \<Rightarrow> bool"

record event_last =
  el_event :: "page_event option"

definition el_track_alloc :: "u64 \<Rightarrow> hex32 \<Rightarrow> event_last \<Rightarrow> (alloc_error + unit) \<times> event_last" where
  "el_track_alloc now flags h =
     (let new = (Inr (), h\<lparr>el_event := Some \<lparr>pe_time_range = begin_here now, pe_flags = flags\<rparr>\<rparr>) in
      case el_event h of
        Some e \<Rightarrow> if open_end (pe_time_range e) then (Inl AllocError, h) else new
      | None \<Rightarrow> new)"

definition el_track_free :: "u64 \<Rightarrow> event_last \<Rightarrow> (free_error + unit) \<times> event_last" where
  "el_track_free now h =
     (case el_event h of
        Some e \<Rightarrow>
          let h' = h\<lparr>el_event := Some (e\<lparr>pe_time_range := set_end now (pe_time_range e)\<rparr>)\<rparr> in
          if open_end (pe_time_range e) then (Inr (), h') else (Inl DoubleFree, h')
      | None \<Rightarrow> (Inl WithoutAlloc, h\<lparr>el_event := Some \<lparr>pe_time_range = end_here now, pe_flags = 0\<rparr>\<rparr>))"

definition el_is_allocated :: "u64 option \<Rightarrow> event_last \<Rightarrow> bool" where
  "el_is_allocated time h \<longleftrightarrow>
     (case el_event h of
        None \<Rightarrow> False
      | Some e \<Rightarrow>
          (case time of
             None \<Rightarrow> open_end (pe_time_range e)
           | Some t \<Rightarrow> tr_start (pe_time_range e) \<le> t \<and> t < tr_end (pe_time_range e)))"

definition el_mark_page_cache :: "bool \<Rightarrow> event_last \<Rightarrow> event_last" where
  "el_mark_page_cache b h = h\<lparr>el_event := map_option (mark_page_cache b) (el_event h)\<rparr>"

definition el_page_cache :: "event_last \<Rightarrow> bool" where
  "el_page_cache h \<longleftrightarrow> (case el_event h of Some e \<Rightarrow> page_cache e | None \<Rightarrow> False)"

definition el_is_empty :: "event_last \<Rightarrow> bool" where
  "el_is_empty h \<longleftrightarrow> \<not> el_is_allocated None h"

definition event_last_history :: "event_last page_history" where
  "event_last_history =
     \<lparr>ph_default = \<lparr>el_event = None\<rparr>, ph_track_alloc = el_track_alloc, ph_track_free = el_track_free,
      ph_is_allocated = el_is_allocated, ph_mark_page_cache = el_mark_page_cache, ph_page_cache = el_page_cache,
      ph_is_empty = el_is_empty\<rparr>"

section \<open>The error report\<close>

record error_report =
  er_enabled :: bool
  er_double_free :: "page list"
  er_without_alloc :: "page list"
  er_double_alloc :: "page list"

definition error_report_default :: error_report where
  "error_report_default = \<lparr>er_enabled = False, er_double_free = [], er_without_alloc = [], er_double_alloc = []\<rparr>"

definition error_enable :: "error_report \<Rightarrow> error_report" where
  "error_enable er = er\<lparr>er_enabled := True\<rparr>"

definition error_double_free :: "page \<Rightarrow> error_report \<Rightarrow> error_report" where
  "error_double_free p er = (if er_enabled er then er\<lparr>er_double_free := er_double_free er @ [p]\<rparr> else er)"

definition error_without_alloc :: "page \<Rightarrow> error_report \<Rightarrow> error_report" where
  "error_without_alloc p er = (if er_enabled er then er\<lparr>er_without_alloc := er_without_alloc er @ [p]\<rparr> else er)"

definition error_double_alloc :: "page \<Rightarrow> error_report \<Rightarrow> error_report" where
  "error_double_alloc p er = (if er_enabled er then er\<lparr>er_double_alloc := er_double_alloc er @ [p]\<rparr> else er)"

section \<open>The tracker\<close>

text \<open>The maps that are iterated are association lists; the entry of a key is created on demand.\<close>

type_synonym 'h page_groups = "(hex64 list \<times> (page \<times> 'h) list) list"

record 'h history =
  hi_error_report :: error_report
  hi_group :: "'h page_groups"
  hi_last_stack :: "page \<Rightarrow> hex64 list option"

definition history_default :: "'h history" where
  "history_default = \<lparr>hi_error_report = error_report_default, hi_group = [], hi_last_stack = Map.empty\<rparr>"

definition group_of :: "'h page_groups \<Rightarrow> hex64 list \<Rightarrow> (page \<times> 'h) list" where
  "group_of groups s = (case map_of groups s of Some g \<Rightarrow> g | None \<Rightarrow> [])"

definition group_put :: "hex64 list \<Rightarrow> page \<Rightarrow> 'h \<Rightarrow> 'h page_groups \<Rightarrow> 'h page_groups" where
  "group_put s p h groups = AList.update s (AList.update p h (group_of groups s)) groups"

definition group_get :: "hex64 list \<Rightarrow> page \<Rightarrow> 'h page_groups \<Rightarrow> panic + 'h" where
  "group_get s p groups = and_then (unwrap (map_of groups s)) (\<lambda>g. unwrap (map_of g p))"

definition track_alloc_error ::
  "'h page_history \<Rightarrow> u64 \<Rightarrow> page \<Rightarrow> hex32 \<Rightarrow> 'h \<Rightarrow> error_report \<Rightarrow> error_report \<times> 'h" where
  "track_alloc_error ops now p flags h er =
     (case ph_track_alloc ops now flags h of
        (Inl AllocError, h') \<Rightarrow> (error_double_alloc p er, h')
      | (Inr _, h') \<Rightarrow> (er, h'))"

definition track_free_error :: "'h page_history \<Rightarrow> u64 \<Rightarrow> page \<Rightarrow> 'h \<Rightarrow> error_report \<Rightarrow> error_report \<times> 'h" where
  "track_free_error ops now p h er =
     (case ph_track_free ops now h of
        (Inr _, h') \<Rightarrow> (er, h')
      | (Inl DoubleFree, h') \<Rightarrow> (error_double_free p er, h')
      | (Inl WithoutAlloc, h') \<Rightarrow> (error_without_alloc p er, h'))"

definition hi_alloc :: "'h page_history \<Rightarrow> u64 \<Rightarrow> page \<Rightarrow> hex64 list \<Rightarrow> hex32 \<Rightarrow> 'h history \<Rightarrow> panic + 'h history" where
  "hi_alloc ops now p s flags hi =
     (let groups = hi_group hi; er = hi_error_report hi in
      case hi_last_stack hi p of
        Some prev \<Rightarrow>
          and_then (group_get prev p groups) (\<lambda>h.
          let (er', h') = track_alloc_error ops now p flags h er in
          if prev = s then Inr (hi\<lparr>hi_error_report := er', hi_group := group_put s p h' groups\<rparr>)
          else
            let groups1 = AList.update prev (AList.delete p (group_of groups prev)) groups
            in Inr (hi\<lparr>hi_error_report := er', hi_group := group_put s p h' groups1,
                       hi_last_stack := (hi_last_stack hi)(p \<mapsto> s)\<rparr>))
      | None \<Rightarrow>
          let h = (case map_of (group_of groups s) p of Some h \<Rightarrow> h | None \<Rightarrow> ph_default ops);
              (er', h') = track_alloc_error ops now p flags h er
          in Inr (hi\<lparr>hi_error_report := er', hi_group := group_put s p h' groups,
                     hi_last_stack := (hi_last_stack hi)(p \<mapsto> s)\<rparr>))"

definition hi_track_alloc ::
  "'h page_history \<Rightarrow> u64 \<Rightarrow> page \<Rightarrow> mem_stack \<Rightarrow> hex32 \<Rightarrow> u32 \<Rightarrow> 'h history \<Rightarrow> panic + 'h history" where
  "hi_track_alloc ops now p stack flags pid hi = and_then (stack_ips stack) (\<lambda>s. hi_alloc ops now p s flags hi)"

definition hi_track_free :: "'h page_history \<Rightarrow> u64 \<Rightarrow> page \<Rightarrow> u32 \<Rightarrow> 'h history \<Rightarrow> 'h history" where
  "hi_track_free ops now p pid hi =
     (case hi_last_stack hi p of
        Some s \<Rightarrow>
          let groups = hi_group hi;
              h = (case map_of (group_of groups s) p of Some h \<Rightarrow> h | None \<Rightarrow> ph_default ops);
              (er', h') = track_free_error ops now p h (hi_error_report hi);
              groups' = group_put s p h' groups
          in if ph_is_empty ops h' then
               let pages = AList.delete p (group_of groups' s)
               in hi\<lparr>hi_error_report := er',
                     hi_group := (if pages = [] then AList.delete s groups' else AList.update s pages groups'),
                     hi_last_stack := (hi_last_stack hi)(p := None)\<rparr>
             else hi\<lparr>hi_error_report := er', hi_group := groups'\<rparr>
      | None \<Rightarrow> hi)"

definition hi_mark_page_cache :: "'h page_history \<Rightarrow> page \<Rightarrow> bool \<Rightarrow> 'h history \<Rightarrow> panic + 'h history" where
  "hi_mark_page_cache ops p b hi =
     (case hi_last_stack hi p of
        Some s \<Rightarrow>
          and_then (group_get s p (hi_group hi)) (\<lambda>h.
          Inr (hi\<lparr>hi_group := group_put s p (ph_mark_page_cache ops b h) (hi_group hi)\<rparr>))
      | None \<Rightarrow> Inr hi)"

text \<open>The memory of one group, as both reports sum it up.\<close>

definition group_usage :: "'h page_history \<Rightarrow> (page \<times> 'h) list \<Rightarrow> u64 \<times> u64 \<Rightarrow> u64 \<times> u64" where
  "group_usage ops pages acc =
     fold (\<lambda>(p, h) (value, cache).
       if ph_is_allocated ops None h
       then (value + page_size_kib p, if ph_page_cache ops h then cache + page_size_kib p else cache)
       else (value, cache)) pages acc"

definition hi_short_report :: "'h page_history \<Rightarrow> 'h history \<Rightarrow> u64 \<times> u64" where
  "hi_short_report ops hi = fold (\<lambda>(s, pages). group_usage ops pages) (hi_group hi) (0, 0)"

definition hi_tree_report :: "'h page_history \<Rightarrow> u64 \<Rightarrow> bool \<Rightarrow> 'h history \<Rightarrow> frame" where
  "hi_tree_report ops threshold reverse hi =
     tree_report threshold reverse
       (map (\<lambda>(s, pages). let (value, cache) = group_usage ops pages (0, 0) in (value, cache, s)) (hi_group hi))"

section \<open>The contract of a page history\<close>

text \<open>
  A history alternates between allocated and not allocated. While it is allocated, an allocation is an error that changes
  nothing and the mark is the last one set.
\<close>

locale page_history_laws =
  fixes ops :: "'h page_history"
  assumes default_free: "\<not> ph_is_allocated ops None (ph_default ops)"
    and alloc_free: "\<not> ph_is_allocated ops None h \<Longrightarrow>
      \<exists>h'. ph_track_alloc ops now flags h = (Inr (), h') \<and> ph_is_allocated ops None h' \<and>
        ph_page_cache ops h' = (flags AND event_based_cache_flag \<noteq> 0)"
    and alloc_allocated: "ph_is_allocated ops None h \<Longrightarrow> ph_track_alloc ops now flags h = (Inl AllocError, h)"
    and free_allocated: "ph_is_allocated ops None h \<Longrightarrow> now \<noteq> - 1 \<Longrightarrow>
      \<exists>h'. ph_track_free ops now h = (Inr (), h') \<and> \<not> ph_is_allocated ops None h'"
    and mark_allocated: "ph_is_allocated ops None h \<Longrightarrow>
      ph_is_allocated ops None (ph_mark_page_cache ops b h) \<and> ph_page_cache ops (ph_mark_page_cache ops b h) = b"
    and empty_iff: "ph_is_empty ops h \<longleftrightarrow> \<not> ph_is_allocated ops None h"

lemma cache_flag_bits: "(x :: u32) AND event_based_cache_flag \<noteq> 0 \<longleftrightarrow> bit x 31"
  by (simp only: event_based_cache_flag_def bit_iff_and_push_bit_not_eq_0)

lemma bit_cache_flag: "bit event_based_cache_flag 31"
  by (simp add: event_based_cache_flag_def bit_push_bit_iff)

lemma page_cache_mark: "page_cache (mark_page_cache b e) = b"
  unfolding page_cache_def cache_flag_bits using bit_cache_flag
  by (simp add: mark_page_cache_def bit_or_iff bit_and_iff bit_not_iff)

lemma mark_page_cache_time: "pe_time_range (mark_page_cache b e) = pe_time_range e"
  by (simp add: mark_page_cache_def)

lemma page_cache_new: "page_cache \<lparr>pe_time_range = r, pe_flags = flags\<rparr> \<longleftrightarrow> flags AND event_based_cache_flag \<noteq> 0"
  by (simp add: page_cache_def)

interpretation event_last: page_history_laws event_last_history
  by unfold_locales
    (auto simp: event_last_history_def el_is_allocated_def el_track_alloc_def el_track_free_def el_mark_page_cache_def
      el_page_cache_def el_is_empty_def open_end_def begin_here_def set_end_def page_cache_mark mark_page_cache_time
      page_cache_new Let_def split: option.splits)

section \<open>The invariant\<close>

definition group_page :: "'h page_groups \<Rightarrow> hex64 list \<Rightarrow> page \<Rightarrow> 'h option" where
  "group_page groups s p = map_of (group_of groups s) p"

definition groups_wf :: "'h page_groups \<Rightarrow> bool" where
  "groups_wf groups \<longleftrightarrow> distinct (map fst groups) \<and> (\<forall>(s, g) \<in> set groups. distinct (map fst g))"

lemma group_page_put:
  "group_page (group_put s p h groups) s' p' = (if s' = s \<and> p' = p then Some h else group_page groups s' p')"
  by (simp add: group_page_def group_put_def group_of_def update_conv')

lemma group_of_distinct: "groups_wf groups \<Longrightarrow> distinct (map fst (group_of groups s))"
  by (auto simp: groups_wf_def group_of_def split: option.split dest!: map_of_SomeD)

lemma groups_wf_update:
  assumes "groups_wf groups" "distinct (map fst g)"
  shows "groups_wf (AList.update s g groups)"
  using assms set_update_subset [of s g groups] by (fastforce simp: groups_wf_def distinct_update)

lemma groups_wf_delete: "groups_wf groups \<Longrightarrow> groups_wf (AList.delete s groups)"
  unfolding groups_wf_def by (intro conjI) (simp_all add: distinct_delete, simp add: AList.delete_eq)

lemma groups_wf_put: "groups_wf groups \<Longrightarrow> groups_wf (group_put s p h groups)"
  by (simp add: group_put_def groups_wf_update distinct_update group_of_distinct)

lemma group_page_remove:
  "group_page (AList.update s (AList.delete p (group_of groups s)) groups) s' p' =
     (if s' = s \<and> p' = p then None else group_page groups s' p')"
  by (simp add: group_page_def group_of_def update_conv' delete_conv')

lemma groups_wf_remove:
  "groups_wf groups \<Longrightarrow> groups_wf (AList.update s (AList.delete p (group_of groups s)) groups)"
  using group_of_distinct [of groups s] by (simp add: groups_wf_update distinct_delete)

lemma group_get_page: "group_page groups s p = Some h \<Longrightarrow> group_get s p groups = Inr h"
  by (simp add: group_page_def group_get_def group_of_def split: option.splits)

lemma group_page_delete:
  assumes "AList.delete p (group_of groups s) = []"
  shows "group_page (AList.delete s groups) s' p' = (if s' = s \<and> p' = p then None else group_page groups s' p')"
proof (cases "s' = s \<and> p' \<noteq> p")
  case True
  have "map_of (AList.delete p (group_of groups s)) p' = None" using assms by simp
  then have "group_page groups s p' = None" using True by (simp add: group_page_def)
  then show ?thesis using True by (simp add: group_page_def group_of_def delete_conv')
qed (auto simp: group_page_def group_of_def delete_conv')

text \<open>
  The memory as a map from pages to stacks and marks. Every page is in the group of its last stack, is allocated there,
  and is in no other group.
\<close>

type_synonym page_memory = "page \<Rightarrow> (hex64 list \<times> bool) option"

context page_history_laws
begin

definition hist_inv :: "'h history \<Rightarrow> page_memory \<Rightarrow> bool" where
  "hist_inv hi m \<longleftrightarrow> groups_wf (hi_group hi) \<and>
     (\<forall>s p. group_page (hi_group hi) s p = None \<longleftrightarrow> hi_last_stack hi p \<noteq> Some s) \<and>
     (\<forall>s p h. group_page (hi_group hi) s p = Some h \<longrightarrow>
        ph_is_allocated ops None h \<and> m p = Some (s, ph_page_cache ops h)) \<and>
     (\<forall>p. hi_last_stack hi p = None \<longrightarrow> m p = None)"

lemma hist_inv_default: "hist_inv history_default Map.empty"
  by (simp add: hist_inv_def history_default_def groups_wf_def group_page_def group_of_def)

lemma hist_inv_page:
  assumes "hist_inv hi m" "hi_last_stack hi p = Some s"
  obtains h where "group_page (hi_group hi) s p = Some h" "ph_is_allocated ops None h" "m p = Some (s, ph_page_cache ops h)"
  using assms unfolding hist_inv_def by (metis not_None_eq)

lemma hist_inv_put:
  assumes "hist_inv hi m" "hi_last_stack hi p = None \<or> hi_last_stack hi p = Some s" "ph_is_allocated ops None h"
  shows "hist_inv (hi\<lparr>hi_error_report := er, hi_group := group_put s p h (hi_group hi),
      hi_last_stack := (hi_last_stack hi)(p \<mapsto> s)\<rparr>) (m(p \<mapsto> (s, ph_page_cache ops h)))"
  using assms unfolding hist_inv_def by (auto simp: group_page_put groups_wf_put)

lemma hist_inv_remove:
  assumes "hist_inv hi m" "hi_last_stack hi p = Some s"
    and "\<And>s' p'. group_page groups s' p' = (if s' = s \<and> p' = p then None else group_page (hi_group hi) s' p')" "groups_wf groups"
  shows "hist_inv (hi\<lparr>hi_error_report := er, hi_group := groups, hi_last_stack := (hi_last_stack hi)(p := None)\<rparr>) (m(p := None))"
  using assms unfolding hist_inv_def by (auto split: if_splits)

lemma track_alloc_error_free:
  assumes "\<not> ph_is_allocated ops None h"
  shows "\<exists>h'. track_alloc_error ops now p flags h er = (er, h') \<and> ph_is_allocated ops None h' \<and>
    ph_page_cache ops h' = (flags AND event_based_cache_flag \<noteq> 0)"
  using alloc_free [OF assms, of now flags] by (auto simp: track_alloc_error_def)

lemma track_alloc_error_allocated:
  "ph_is_allocated ops None h \<Longrightarrow> track_alloc_error ops now p flags h er = (error_double_alloc p er, h)"
  by (simp add: track_alloc_error_def alloc_allocated)

text \<open>A page that is allocated again keeps its mark; it is in the group of its last stack.\<close>

lemma hist_alloc:
  assumes "hist_inv hi m"
  shows "\<exists>hi'. hi_alloc ops now p s flags hi = Inr hi' \<and>
    hist_inv hi' (m(p \<mapsto> (s, case m p of None \<Rightarrow> flags AND event_based_cache_flag \<noteq> 0 | Some (_, c) \<Rightarrow> c)))"
proof (cases "hi_last_stack hi p")
  case None
  have m: "m p = None" using assms None by (simp add: hist_inv_def)
  have "group_page (hi_group hi) s p = None" using assms None by (simp add: hist_inv_def)
  then have d: "map_of (group_of (hi_group hi) s) p = None" by (simp add: group_page_def)
  obtain h' where "track_alloc_error ops now p flags (ph_default ops) (hi_error_report hi) = (hi_error_report hi, h')"
      "ph_is_allocated ops None h'" "ph_page_cache ops h' = (flags AND event_based_cache_flag \<noteq> 0)"
    using track_alloc_error_free [OF default_free] by blast
  then show ?thesis using hist_inv_put [OF assms, of p s h' "hi_error_report hi"] None d m by (simp add: hi_alloc_def)
next
  case (Some prev)
  obtain h where h: "group_page (hi_group hi) prev p = Some h" "ph_is_allocated ops None h" "m p = Some (prev, ph_page_cache ops h)"
    by (rule hist_inv_page [OF assms Some])
  note t = track_alloc_error_allocated [OF h(2), of now p flags "hi_error_report hi"]
  let ?er = "error_double_alloc p (hi_error_report hi)"
  show ?thesis
  proof (cases "prev = s")
    case True
    have "hi_alloc ops now p s flags hi = Inr (hi\<lparr>hi_error_report := ?er, hi_group := group_put s p h (hi_group hi),
        hi_last_stack := (hi_last_stack hi)(p \<mapsto> s)\<rparr>)"
      using Some True t group_get_page [OF h(1)] by (simp add: hi_alloc_def map_upd_triv)
    then show ?thesis using hist_inv_put [OF assms, of p s h ?er] Some True h by auto
  next
    case False
    let ?groups = "AList.update prev (AList.delete p (group_of (hi_group hi) prev)) (hi_group hi)"
    let ?hi = "hi\<lparr>hi_error_report := ?er, hi_group := ?groups, hi_last_stack := (hi_last_stack hi)(p := None)\<rparr>"
    have "groups_wf ?groups" using assms by (simp add: hist_inv_def groups_wf_remove)
    then have inv: "hist_inv ?hi (m(p := None))"
      by (intro hist_inv_remove [OF assms Some]) (simp_all add: group_page_remove)
    have "hi_alloc ops now p s flags hi = Inr (?hi\<lparr>hi_error_report := ?er, hi_group := group_put s p h (hi_group ?hi),
        hi_last_stack := (hi_last_stack ?hi)(p \<mapsto> s)\<rparr>)"
      using Some False t group_get_page [OF h(1)] by (simp add: hi_alloc_def Let_def)
    then show ?thesis using hist_inv_put [OF inv, of p s h ?er] h by auto
  qed
qed

lemma hist_free:
  assumes "hist_inv hi m" "now \<noteq> - 1"
  shows "hist_inv (hi_track_free ops now p pid hi) (m(p := None))"
proof (cases "hi_last_stack hi p")
  case None
  then have "m(p := None) = m" using assms(1) by (auto simp: hist_inv_def)
  then show ?thesis using None assms(1) by (simp add: hi_track_free_def)
next
  case (Some s)
  obtain h where h: "group_page (hi_group hi) s p = Some h" "ph_is_allocated ops None h"
    by (rule hist_inv_page [OF assms(1) Some])
  obtain h' where h': "ph_track_free ops now h = (Inr (), h')" "\<not> ph_is_allocated ops None h'"
    using free_allocated [OF h(2) assms(2)] by blast
  let ?put = "group_put s p h' (hi_group hi)"
  let ?pages = "AList.delete p (group_of ?put s)"
  let ?groups = "if ?pages = [] then AList.delete s ?put else AList.update s ?pages ?put"
  have wf: "groups_wf ?put" using assms(1) by (simp add: hist_inv_def groups_wf_put)
  have "hi_track_free ops now p pid hi =
      hi\<lparr>hi_error_report := hi_error_report hi, hi_group := ?groups, hi_last_stack := (hi_last_stack hi)(p := None)\<rparr>"
    using Some h h' by (simp add: hi_track_free_def track_free_error_def empty_iff Let_def group_page_def)
  moreover have "group_page ?groups s' p' = (if s' = s \<and> p' = p then None else group_page (hi_group hi) s' p')" for s' p'
  proof (cases "?pages = []")
    case True
    then show ?thesis unfolding if_P [OF True] group_page_delete [OF True] by (simp add: group_page_put)
  next
    case False
    then show ?thesis unfolding if_not_P [OF False] group_page_remove by (simp add: group_page_put)
  qed
  moreover have "groups_wf ?groups" using groups_wf_delete [OF wf] groups_wf_remove [OF wf] by simp
  ultimately show ?thesis using hist_inv_remove [OF assms(1) Some] by metis
qed

lemma hist_mark:
  assumes "hist_inv hi m"
  shows "\<exists>hi'. hi_mark_page_cache ops p b hi = Inr hi' \<and> hist_inv hi' (m(p := map_option (\<lambda>(s, _). (s, b)) (m p)))"
proof (cases "hi_last_stack hi p")
  case None
  then have n: "m p = None" using assms by (auto simp: hist_inv_def)
  then have "m(p := None) = m" by auto
  then show ?thesis using None n assms by (simp add: hi_mark_page_cache_def)
next
  case (Some s)
  obtain h where h: "group_page (hi_group hi) s p = Some h" "ph_is_allocated ops None h" "m p = Some (s, ph_page_cache ops h)"
    by (rule hist_inv_page [OF assms Some])
  let ?h = "ph_mark_page_cache ops b h"
  have "hi_mark_page_cache ops p b hi = Inr (hi\<lparr>hi_error_report := hi_error_report hi, hi_group := group_put s p ?h (hi_group hi),
      hi_last_stack := (hi_last_stack hi)(p \<mapsto> s)\<rparr>)"
    using Some group_get_page [OF h(1)] by (simp add: hi_mark_page_cache_def map_upd_triv)
  then show ?thesis using hist_inv_put [OF assms, of p s ?h "hi_error_report hi"] mark_allocated [OF h(2), of b] Some h(3) by simp
qed

end

section \<open>The report\<close>

text \<open>The pages of all groups with their histories.\<close>

definition flat :: "'h page_groups \<Rightarrow> (hex64 list \<times> page \<times> 'h) list" where
  "flat groups = concat (map (\<lambda>(s, g). map (\<lambda>(p, h). (s, p, h)) g) groups)"

definition memory_kib :: "page_memory \<Rightarrow> u64" where
  "memory_kib m = (\<Sum>p | m p \<noteq> None. page_size_kib p)"

definition cache_kib :: "page_memory \<Rightarrow> u64" where
  "cache_kib m = (\<Sum>p | \<exists>s. m p = Some (s, True). page_size_kib p)"

lemma set_flat:
  assumes "groups_wf groups"
  shows "(s, p, h) \<in> set (flat groups) \<longleftrightarrow> group_page groups s p = Some h"
proof -
  have "group_page groups s p = Some h \<longleftrightarrow> (\<exists>g. (s, g) \<in> set groups \<and> (p, h) \<in> set g)"
  proof
    assume "group_page groups s p = Some h"
    then show "\<exists>g. (s, g) \<in> set groups \<and> (p, h) \<in> set g"
      by (auto simp: group_page_def group_of_def dest!: map_of_SomeD split: option.splits)
  next
    assume "\<exists>g. (s, g) \<in> set groups \<and> (p, h) \<in> set g"
    then obtain g where g: "(s, g) \<in> set groups" "(p, h) \<in> set g" by blast
    then have "distinct (map fst groups)" "distinct (map fst g)" using assms by (auto simp: groups_wf_def)
    then show "group_page groups s p = Some h" using g by (simp add: group_page_def group_of_def)
  qed
  then show ?thesis by (auto simp: flat_def)
qed

lemma distinct_flat: "groups_wf groups \<Longrightarrow> distinct (flat groups)"
proof (induction groups)
  case (Cons sg groups)
  obtain s g where sg: "sg = (s, g)" by (cases sg)
  have "distinct (map (\<lambda>(p, h). (s, p, h)) g)"
    using Cons.prems by (auto simp: sg groups_wf_def distinct_map inj_on_def)
  moreover have "s' \<noteq> s" if "(s', g') \<in> set groups" for s' g'
    using Cons.prems that by (force simp: sg groups_wf_def)
  ultimately show ?case using Cons by (auto simp: flat_def sg groups_wf_def)
qed (simp add: flat_def)

lemma group_usage_sums:
  "group_usage ops g (v, c) =
     (v + (\<Sum>(p, h) \<leftarrow> g. if ph_is_allocated ops None h then page_size_kib p else 0),
      c + (\<Sum>(p, h) \<leftarrow> g. if ph_is_allocated ops None h \<and> ph_page_cache ops h then page_size_kib p else 0))"
  unfolding group_usage_def by (induction g arbitrary: v c) (auto simp: algebra_simps)

lemma flat_Cons: "flat ((s, g) # groups) = map (\<lambda>(p, h). (s, p, h)) g @ flat groups"
  by (simp add: flat_def)

lemma comp_Pair: "(\<lambda>(s, p, h). f p h) \<circ> Pair s = (\<lambda>(p, h). f p h)"
  by (simp add: fun_eq_iff)

lemma short_report_flat:
  "hi_short_report ops hi =
     ((\<Sum>(s, p, h) \<leftarrow> flat (hi_group hi). if ph_is_allocated ops None h then page_size_kib p else 0),
      (\<Sum>(s, p, h) \<leftarrow> flat (hi_group hi). if ph_is_allocated ops None h \<and> ph_page_cache ops h then page_size_kib p else 0))"
proof -
  have "fold (\<lambda>(s, g). group_usage ops g) groups (v, c) =
     (v + (\<Sum>(s, p, h) \<leftarrow> flat groups. if ph_is_allocated ops None h then page_size_kib p else 0),
      c + (\<Sum>(s, p, h) \<leftarrow> flat groups. if ph_is_allocated ops None h \<and> ph_page_cache ops h then page_size_kib p else 0))" for groups v c
  proof (induction groups arbitrary: v c)
    case (Cons sg groups)
    obtain s g where sg: "sg = (s, g)" by (cases sg)
    show ?case by (simp add: sg Cons.IH flat_Cons group_usage_sums comp_Pair add.assoc)
  qed (simp add: flat_def)
  then show ?thesis by (simp add: hi_short_report_def)
qed

context page_history_laws
begin

lemma hist_report:
  assumes "hist_inv hi m"
  shows "hi_short_report ops hi = (memory_kib m, cache_kib m)"
proof -
  let ?S = "set (flat (hi_group hi))"
  have wf: "groups_wf (hi_group hi)" using assms by (simp add: hist_inv_def)
  have S: "ph_is_allocated ops None h \<and> m p = Some (s, ph_page_cache ops h)" if "(s, p, h) \<in> ?S" for s p h
    using that assms unfolding set_flat [OF wf] hist_inv_def by blast
  have inj: "inj_on (\<lambda>(s, p, h). p) ?S"
  proof (rule inj_onI)
    fix x y assume a: "x \<in> ?S" "y \<in> ?S" "(\<lambda>(s, p, h). p) x = (\<lambda>(s, p, h). p) y"
    obtain s p h s' p' h' where xy: "x = (s, p, h)" "y = (s', p', h')" by (cases x, cases y)
    have "s = s'" using S [of s p h] S [of s' p' h'] a xy by simp
    then show "x = y" using a xy by (simp add: set_flat [OF wf])
  qed
  have dom: "(\<lambda>(s, p, h). p) ` ?S = {p. m p \<noteq> None}"
  proof (intro set_eqI iffI)
    fix p assume "p \<in> {p. m p \<noteq> None}"
    then have "hi_last_stack hi p \<noteq> None" using assms by (auto simp: hist_inv_def)
    then obtain s where "hi_last_stack hi p = Some s" by blast
    then obtain h where "group_page (hi_group hi) s p = Some h" by (rule hist_inv_page [OF assms])
    then show "p \<in> (\<lambda>(s, p, h). p) ` ?S" using set_flat [OF wf] by force
  qed (use S in auto)
  have sum: "(\<Sum>(s, p, h) \<leftarrow> flat (hi_group hi). f p h) = (\<Sum>p | m p \<noteq> None. g p)"
    if "\<And>s p h. (s, p, h) \<in> ?S \<Longrightarrow> f p h = g p" for f :: "page \<Rightarrow> 'h \<Rightarrow> u64" and g
  proof -
    have "(\<Sum>(s, p, h) \<leftarrow> flat (hi_group hi). f p h) = (\<Sum>x \<in> ?S. case x of (s, p, h) \<Rightarrow> f p h)"
      by (rule sum_list_distinct_conv_sum_set [OF distinct_flat [OF wf]])
    also have "\<dots> = (\<Sum>x \<in> ?S. g ((\<lambda>(s, p, h). p) x))" using that by (intro sum.cong) auto
    finally show ?thesis unfolding dom [symmetric] sum.reindex [OF inj] by (simp add: comp_def)
  qed
  have fin: "finite {p. m p \<noteq> None}" unfolding dom [symmetric] by simp
  have "cache_kib m = (\<Sum>p | m p \<noteq> None. if \<exists>s. m p = Some (s, True) then page_size_kib p else 0)"
    unfolding cache_kib_def by (rule sum.mono_neutral_cong_left [OF fin]) auto
  then show ?thesis unfolding short_report_flat memory_kib_def using S
    by (subst sum [where g = page_size_kib], simp, subst sum, simp_all)
qed

end

end
