(* ===== verification/Memprof_Account.thy ===== *)
theory Memprof_Account
  imports Memprof_Aggregator
begin

unbundle bit_operations_syntax

text \<open>
  What the aggregator computes: the memory of the process as a map from pages to the stack that allocated them, and the
  groups as sums over this map.
\<close>

section \<open>The memory\<close>

type_synonym memory = "u32 \<Rightarrow> (hex64 list \<times> u8 \<times> bool) option"

datatype mem_op = Op_Alloc u32 u8 "hex64 list" | Op_Free u32 | Op_Cache u32 bool

text \<open>An allocated page belongs to the stack, with the order of this allocation, and is not in the page cache.\<close>

fun mem_step :: "mem_op \<Rightarrow> memory \<Rightarrow> memory" where
  "mem_step (Op_Alloc p order path) m = m(p \<mapsto> (path, order, False))"
| "mem_step (Op_Free p) m = m(p := None)"
| "mem_step (Op_Cache p b) m = m(p := map_option (\<lambda>(path, order, _). (path, order, b)) (m p))"

text \<open>
  A page is allocated when it is free; or it has moved to another stack with the same order and is not in the page cache (the
  code keeps the order of the first allocation, and the mark). The order is one of a block of less than \<open>2 ^ 32\<close> pages.
\<close>

fun op_ok :: "mem_op \<Rightarrow> memory \<Rightarrow> bool" where
  "op_ok (Op_Alloc p order path) m \<longleftrightarrow> unat order < 32 \<and>
     (case m p of None \<Rightarrow> True | Some (path', order', cache) \<Rightarrow> path' \<noteq> path \<and> order' = order \<and> \<not> cache)"
| "op_ok _ m \<longleftrightarrow> True"

fun ops_ok :: "mem_op list \<Rightarrow> memory \<Rightarrow> bool" where
  "ops_ok [] m \<longleftrightarrow> True"
| "ops_ok (op # ops) m \<longleftrightarrow> op_ok op m \<and> ops_ok ops (mem_step op m)"

fun ag_step :: "mem_op \<Rightarrow> aggregator \<Rightarrow> panic + aggregator" where
  "ag_step (Op_Alloc p order path) ag = ag_alloc p order path ag"
| "ag_step (Op_Free p) ag = ag_track_free p ag"
| "ag_step (Op_Cache p b) ag = ag_mark_cache p b ag"

fun ag_steps :: "mem_op list \<Rightarrow> aggregator \<Rightarrow> panic + aggregator" where
  "ag_steps [] ag = Inr ag"
| "ag_steps (op # ops) ag = and_then (ag_step op ag) (ag_steps ops)"

definition page_weight :: "hex64 list \<Rightarrow> (hex64 list \<times> u8 \<times> bool) option \<Rightarrow> u32" where
  "page_weight path e = (case e of Some (path', order, _) \<Rightarrow> if path' = path then pages_count order else 0 | None \<Rightarrow> 0)"

definition cache_weight :: "hex64 list \<Rightarrow> (hex64 list \<times> u8 \<times> bool) option \<Rightarrow> u32" where
  "cache_weight path e =
     (case e of Some (path', order, cache) \<Rightarrow> if path' = path \<and> cache then pages_count order else 0 | None \<Rightarrow> 0)"

definition mem_pages :: "memory \<Rightarrow> hex64 list \<Rightarrow> u32" where
  "mem_pages m path = (\<Sum>p \<in> UNIV. page_weight path (m p))"

definition cache_pages :: "memory \<Rightarrow> hex64 list \<Rightarrow> u32" where
  "cache_pages m path = (\<Sum>p \<in> UNIV. cache_weight path (m p))"

definition usage_of :: "memory \<Rightarrow> hex64 list \<Rightarrow> usage" where
  "usage_of m path = \<lparr>us_func_path = path, us_value = mem_pages m path, us_cache_value = cache_pages m path\<rparr>"

lemma sum_upd:
  fixes f :: "'a :: finite \<Rightarrow> 'b :: ab_group_add"
  shows "(\<Sum>p \<in> UNIV. (f(q := x)) p) = (\<Sum>p \<in> UNIV. f p) - f q + x"
proof -
  have "(\<Sum>p \<in> UNIV. (f(q := x)) p) = x + (\<Sum>p \<in> UNIV - {q}. (f(q := x)) p)"
    by (subst sum.remove [of _ q]) simp_all
  also have "(\<Sum>p \<in> UNIV - {q}. (f(q := x)) p) = (\<Sum>p \<in> UNIV - {q}. f p)"
    by (rule sum.cong) simp_all
  also have "\<dots> = (\<Sum>p \<in> UNIV. f p) - f q" by (subst sum.remove [of UNIV q]) simp_all
  finally show ?thesis by simp
qed

lemma mem_pages_upd: "mem_pages (m(q := e)) path = mem_pages m path - page_weight path (m q) + page_weight path e"
proof -
  have "(\<lambda>p. page_weight path ((m(q := e)) p)) = (\<lambda>p. page_weight path (m p))(q := page_weight path e)"
    by (simp add: fun_eq_iff)
  from arg_cong [OF this, of "\<lambda>f. \<Sum>p \<in> UNIV. f p"] show ?thesis
    unfolding mem_pages_def sum_upd .
qed

lemma cache_pages_upd: "cache_pages (m(q := e)) path = cache_pages m path - cache_weight path (m q) + cache_weight path e"
proof -
  have "(\<lambda>p. cache_weight path ((m(q := e)) p)) = (\<lambda>p. cache_weight path (m p))(q := cache_weight path e)"
    by (simp add: fun_eq_iff)
  from arg_cong [OF this, of "\<lambda>f. \<Sum>p \<in> UNIV. f p"] show ?thesis
    unfolding cache_pages_def sum_upd .
qed

section \<open>The refinement\<close>

text \<open>The groups are the usages of the paths that have an index.\<close>

definition groups_rel :: "(hex64 list \<Rightarrow> u32 option) \<Rightarrow> (u32 \<times> usage) list \<Rightarrow> memory \<Rightarrow> bool" where
  "groups_rel paths groups m \<longleftrightarrow>
     (\<forall>i u. map_of groups i = Some u \<longleftrightarrow> (\<exists>path. paths path = Some i \<and> u = usage_of m path)) \<and>
     distinct (map fst groups)"

definition index_inj :: "(hex64 list \<Rightarrow> u32 option) \<Rightarrow> bool" where
  "index_inj paths \<longleftrightarrow> (\<forall>path path' i. paths path = Some i \<longrightarrow> paths path' = Some i \<longrightarrow> path = path')"

definition page_rel :: "(hex64 list \<Rightarrow> u32 option) \<Rightarrow> page_info option \<Rightarrow> (hex64 list \<times> u8 \<times> bool) option \<Rightarrow> bool" where
  "page_rel paths info e \<longleftrightarrow>
     (case info of
        None \<Rightarrow> e = None
      | Some i \<Rightarrow> pi_is_allocated i \<and> (\<exists>path. paths path = Some (pi_func_path_index i) \<and>
          e = Some (path, pi_order i, pi_is_cache i)))"

text \<open>\<open>n\<close> is the number of paths seen.\<close>

definition refines :: "nat \<Rightarrow> aggregator \<Rightarrow> memory \<Rightarrow> bool" where
  "refines n ag m \<longleftrightarrow>
     ag_counter ag = word_of_nat n \<and> (\<forall>path i. ag_paths ag path = Some i \<longrightarrow> unat i < n) \<and>
     index_inj (ag_paths ag) \<and> groups_rel (ag_paths ag) (ag_groups ag) m \<and>
     (\<forall>p. page_rel (ag_paths ag) (ag_pages ag p) (m p))"

lemma groups_relD:
  "groups_rel paths groups m \<Longrightarrow> paths path = Some i \<Longrightarrow> map_of groups i = Some (usage_of m path)"
  unfolding groups_rel_def by blast

lemma groups_relI:
  "groups_rel paths groups m \<Longrightarrow> map_of groups i = Some u \<longleftrightarrow> (\<exists>path. paths path = Some i \<and> u = usage_of m path)"
  unfolding groups_rel_def by (elim conjE allE)

lemma groups_rel_upd:
  assumes "groups_rel paths groups m" "index_inj paths" "paths path = Some i"
    and "\<And>path'. path' \<noteq> path \<Longrightarrow> usage_of m' path' = usage_of m path'"
  shows "groups_rel paths (AList.update i (usage_of m' path) groups) m'"
  unfolding groups_rel_def
proof (intro conjI allI)
  fix j u
  show "map_of (AList.update i (usage_of m' path) groups) j = Some u \<longleftrightarrow> (\<exists>p. paths p = Some j \<and> u = usage_of m' p)"
  proof (cases "j = i")
    case True
    have "p = path" if "paths p = Some i" for p using assms(2,3) that unfolding index_inj_def by blast
    then have "(\<exists>p. paths p = Some i \<and> u = usage_of m' p) \<longleftrightarrow> u = usage_of m' path" using assms(3) by blast
    then show ?thesis using True by (simp add: update_conv eq_commute)
  next
    case False
    have u: "usage_of m' p = usage_of m p" if "paths p = Some j" for p
    proof (rule assms(4))
      show "p \<noteq> path" using that assms(3) False by auto
    qed
    have "map_of (AList.update i (usage_of m' path) groups) j = map_of groups j" using False by (simp add: update_conv)
    then show ?thesis using groups_relI [OF assms(1), of j u] u by metis
  qed
qed (use assms(1) in \<open>simp add: groups_rel_def distinct_update\<close>)

lemma groups_rel_new:
  assumes "groups_rel paths groups m" "index_inj paths" "paths path = None" "\<And>path'. paths path' \<noteq> Some i"
    and "\<And>path'. path' \<noteq> path \<Longrightarrow> usage_of m' path' = usage_of m path'"
  shows "groups_rel (paths(path \<mapsto> i)) (AList.update i (usage_of m' path) groups) m'"
  unfolding groups_rel_def
proof (intro conjI allI)
  fix j u
  show "map_of (AList.update i (usage_of m' path) groups) j = Some u \<longleftrightarrow>
      (\<exists>p. (paths(path \<mapsto> i)) p = Some j \<and> u = usage_of m' p)"
  proof (cases "j = i")
    case True
    have "(\<exists>p. (paths(path \<mapsto> i)) p = Some i \<and> u = usage_of m' p) \<longleftrightarrow> u = usage_of m' path"
      using assms(4) by (metis fun_upd_other fun_upd_same)
    then show ?thesis using True by (simp add: update_conv eq_commute)
  next
    case False
    have u: "p \<noteq> path \<and> usage_of m' p = usage_of m p" if "paths p = Some j" for p
      using assms(5) [of p] that assms(3) by (cases "p = path") simp_all
    have "(\<exists>p. (paths(path \<mapsto> i)) p = Some j \<and> u = usage_of m' p) \<longleftrightarrow> (\<exists>p. paths p = Some j \<and> u = usage_of m p)"
      using u False by (metis fun_upd_other fun_upd_same option.inject)
    moreover have "map_of (AList.update i (usage_of m' path) groups) j = map_of groups j" using False by (simp add: update_conv)
    ultimately show ?thesis using groups_relI [OF assms(1), of j u] by simp
  qed
qed (use assms(1) in \<open>simp add: groups_rel_def distinct_update\<close>)

lemma usage_other:
  assumes "page_weight path (m p) = 0" "page_weight path e = 0" "cache_weight path (m p) = 0" "cache_weight path e = 0"
  shows "usage_of (m(p := e)) path = usage_of m path"
  using assms by (simp add: usage_of_def mem_pages_upd cache_pages_upd)

lemma weights:
  "page_weight path None = 0" "cache_weight path None = 0"
  "page_weight path (Some (path', order, k)) = (if path' = path then pages_count order else 0)"
  "cache_weight path (Some (path', order, k)) = (if path' = path \<and> k then pages_count order else 0)"
  by (simp_all add: page_weight_def cache_weight_def)

lemma refines_default: "refines 0 ag_default Map.empty"
  by (simp add: refines_def ag_default_def index_inj_def groups_rel_def page_rel_def)

text \<open>A path without an index has no pages.\<close>

lemma unknown_path:
  assumes "\<forall>p. page_rel paths (pages p) (m p)" "paths path = None"
  shows "usage_of m path = \<lparr>us_func_path = path, us_value = 0, us_cache_value = 0\<rparr>"
proof -
  have "page_weight path (m p) = 0 \<and> cache_weight path (m p) = 0" for p
    using spec [OF assms(1), of p] assms(2) by (auto simp: page_rel_def weights split: option.splits)
  then show ?thesis by (simp add: usage_of_def mem_pages_def cache_pages_def)
qed

lemma page_rel_Some:
  "page_rel paths (Some info) e \<longleftrightarrow> pi_is_allocated info \<and>
     (\<exists>path. paths path = Some (pi_func_path_index info) \<and> e = Some (path, pi_order info, pi_is_cache info))"
  by (simp add: page_rel_def)

lemma page_rel_None: "page_rel paths None e \<longleftrightarrow> e = None"
  by (simp add: page_rel_def)

lemma page_rel_new:
  assumes "paths path = None" "page_rel paths info e"
  shows "page_rel (paths(path \<mapsto> i)) info e"
proof (cases info)
  case (Some x)
  then obtain q where q: "pi_is_allocated x" "paths q = Some (pi_func_path_index x)" "e = Some (q, pi_order x, pi_is_cache x)"
    using assms(2) by (auto simp: page_rel_Some)
  then have "(paths(path \<mapsto> i)) q = Some (pi_func_path_index x)" using assms(1) by auto
  then show ?thesis unfolding Some page_rel_Some using q by blast
qed (use assms(2) in \<open>simp add: page_rel_None\<close>)

text \<open>A page that leaves its group.\<close>

lemma leave_group_usage:
  assumes "m p = Some (path, pi_order info, pi_is_cache info)" "pi_is_allocated info"
  shows "leave_group info (usage_of m path) = usage_of (m(p := None)) path"
  using assms by (simp add: leave_group_def usage_of_def mem_pages_upd cache_pages_upd weights)

lemma refinesD:
  assumes "refines n ag m"
  shows "ag_counter ag = word_of_nat n" and "ag_paths ag path = Some i \<Longrightarrow> unat i < n"
    and "index_inj (ag_paths ag)" and "groups_rel (ag_paths ag) (ag_groups ag) m"
    and "page_rel (ag_paths ag) (ag_pages ag p) (m p)"
  using assms by (simp_all add: refines_def)

lemma refines_page:
  assumes "refines n ag m" "ag_pages ag p = Some info"
  obtains path where "ag_paths ag path = Some (pi_func_path_index info)" "pi_is_allocated info"
    "m p = Some (path, pi_order info, pi_is_cache info)"
  using refinesD(5) [OF assms(1), of p] unfolding assms(2) page_rel_Some by blast

lemma refines_free:
  assumes "refines n ag m"
  shows "\<exists>ag'. ag_track_free p ag = Inr ag' \<and> refines n ag' (m(p := None))"
proof (cases "ag_pages ag p")
  case None
  then have "m p = None" using refinesD(5) [OF assms, of p] by (simp add: page_rel_None)
  then have "m(p := None) = m" by auto
  then show ?thesis using None assms by (simp add: ag_track_free_def refines_def)
next
  case (Some info)
  let ?m = "m(p := None)" and ?i = "pi_func_path_index info"
  obtain path where path: "ag_paths ag path = Some ?i" "pi_is_allocated info"
      "m p = Some (path, pi_order info, pi_is_cache info)"
    by (rule refines_page [OF assms Some])
  have "usage_of ?m path' = usage_of m path'" if "path' \<noteq> path" for path'
    using that path(3) by (intro usage_other) (simp_all add: weights)
  then have rel: "groups_rel (ag_paths ag) (AList.update ?i (usage_of ?m path) (ag_groups ag)) ?m"
    by (rule groups_rel_upd [OF refinesD(4,3) [OF assms] path(1)])
  have "group_update (leave_group info) ?i (ag_groups ag) = Inr (AList.update ?i (usage_of ?m path) (ag_groups ag))"
    using group_update_ok [OF groups_relD [OF refinesD(4) [OF assms] path(1)]] leave_group_usage [of m, OF path(3,2)] by simp
  then have "ag_track_free p ag = Inr ((dump_push (Raw_Free p) ag)\<lparr>ag_pages := (ag_pages ag)(p := None),
      ag_groups := AList.update ?i (usage_of ?m path) (ag_groups ag)\<rparr>)"
    using Some by (simp add: ag_track_free_def)
  moreover have "\<forall>q. page_rel (ag_paths ag) (((ag_pages ag)(p := None)) q) (?m q)"
    using refinesD(5) [OF assms] by (simp add: page_rel_None)
  ultimately show ?thesis using rel refinesD(1-3) [OF assms] by (simp add: refines_def)
qed

lemma map_upd_same: "m p = Some x \<Longrightarrow> m(p \<mapsto> x) = m"
  by auto

lemma refines_cache:
  assumes "refines n ag m"
  shows "\<exists>ag'. ag_mark_cache p b ag = Inr ag' \<and> refines n ag' (mem_step (Op_Cache p b) m)"
proof (cases "ag_pages ag p")
  case None
  then have "m p = None" using refinesD(5) [OF assms, of p] by (simp add: page_rel_None)
  then have "mem_step (Op_Cache p b) m = m" by (auto simp: fun_eq_iff)
  then show ?thesis using None assms by (simp add: ag_mark_cache_def refines_def)
next
  case (Some info)
  let ?i = "pi_func_path_index info"
  obtain path where path: "ag_paths ag path = Some ?i" "pi_is_allocated info"
      "m p = Some (path, pi_order info, pi_is_cache info)"
    by (rule refines_page [OF assms Some])
  define m' where "m' = m(p \<mapsto> (path, pi_order info, b))"
  have m': "mem_step (Op_Cache p b) m = m'" using path(3) by (simp add: m'_def)
  have "usage_of m' path' = usage_of m path'" if "path' \<noteq> path" for path'
    unfolding m'_def using that path(3) by (intro usage_other) (simp_all add: weights)
  then have rel: "groups_rel (ag_paths ag) (AList.update ?i (usage_of m' path) (ag_groups ag)) m'"
    by (rule groups_rel_upd [OF refinesD(4,3) [OF assms] path(1)])
  let ?f = "\<lambda>u. if pi_is_cache info \<noteq> b
      then u\<lparr>us_cache_value := (if b then us_cache_value u + pages_count (pi_order info)
                                  else us_cache_value u - pages_count (pi_order info))\<rparr> else u"
  have "?f (usage_of m path) = usage_of m' path"
    using path(3) by (cases b) (simp_all add: m'_def usage_of_def mem_pages_upd cache_pages_upd weights)
  then have "group_update ?f ?i (ag_groups ag) = Inr (AList.update ?i (usage_of m' path) (ag_groups ag))"
    using group_update_ok [OF groups_relD [OF refinesD(4) [OF assms] path(1)], of ?f] by simp
  then have "\<exists>d. ag_mark_cache p b ag = Inr ((dump_push d ag)\<lparr>ag_pages := (ag_pages ag)(p \<mapsto> info\<lparr>pi_is_cache := b\<rparr>),
      ag_groups := AList.update ?i (usage_of m' path) (ag_groups ag)\<rparr>)"
    using Some by (auto simp: ag_mark_cache_def Let_def)
  moreover have "\<forall>q. page_rel (ag_paths ag) (((ag_pages ag)(p \<mapsto> info\<lparr>pi_is_cache := b\<rparr>)) q) (m' q)"
    using refinesD(5) [OF assms] path by (simp add: page_rel_Some m'_def)
  ultimately show ?thesis using rel refinesD(1-3) [OF assms] unfolding m' by (auto simp: refines_def)
qed

text \<open>
  An allocation gives the path an index, takes the page out of its old group, and adds it to the group of the path.
\<close>

definition path_index :: "hex64 list \<Rightarrow> aggregator \<Rightarrow> u32" where
  "path_index path ag = (case ag_paths ag path of Some i \<Rightarrow> i | None \<Rightarrow> ag_counter ag)"

definition with_path :: "hex64 list \<Rightarrow> aggregator \<Rightarrow> aggregator" where
  "with_path path ag =
     (case ag_paths ag path of
        Some _ \<Rightarrow> ag
      | None \<Rightarrow> ag\<lparr>ag_counter := ag_counter ag + 1, ag_paths := (ag_paths ag)(path \<mapsto> ag_counter ag),
                   ag_groups := AList.update (ag_counter ag) \<lparr>us_func_path = path, us_value = 0, us_cache_value = 0\<rparr> (ag_groups ag)\<rparr>)"

lemma unat_of_nat_u32: "n < 2 ^ 32 \<Longrightarrow> unat (word_of_nat n :: u32) = n"
  by (simp add: unat_of_nat take_bit_nat_eq_self)

lemma refines_with_path:
  assumes "refines n ag m" "n < 2 ^ 32 - 1"
  shows "\<exists>n'. n' \<le> Suc n \<and> refines n' (with_path path ag) m" "ag_paths (with_path path ag) path = Some (path_index path ag)"
proof -
  show "ag_paths (with_path path ag) path = Some (path_index path ag)"
    by (simp add: with_path_def path_index_def split: option.split)
  show "\<exists>n'. n' \<le> Suc n \<and> refines n' (with_path path ag) m"
  proof (cases "ag_paths ag path")
    case None
    have c: "ag_counter ag = word_of_nat n" "unat (ag_counter ag) = n"
      using refinesD(1) [OF assms(1)] unat_of_nat_u32 [of n] assms(2) by simp_all
    have fresh: "ag_paths ag q \<noteq> Some (ag_counter ag)" for q
      using refinesD(2) [OF assms(1), of q "ag_counter ag"] c(2) by auto
    have z: "usage_of m path = \<lparr>us_func_path = path, us_value = 0, us_cache_value = 0\<rparr>"
      by (rule unknown_path [OF allI [OF refinesD(5) [OF assms(1)]] None])
    have "groups_rel ((ag_paths ag)(path \<mapsto> ag_counter ag)) (AList.update (ag_counter ag) (usage_of m path) (ag_groups ag)) m"
      by (rule groups_rel_new [OF refinesD(4,3) [OF assms(1)] None fresh refl])
    moreover have "index_inj ((ag_paths ag)(path \<mapsto> ag_counter ag))"
      using refinesD(3) [OF assms(1)] fresh unfolding index_inj_def by (metis fun_upd_apply option.inject)
    moreover have "unat i < Suc n" if a: "((ag_paths ag)(path \<mapsto> ag_counter ag)) q = Some i" for q i
      using a c(2) refinesD(2) [OF assms(1), of q i] by (cases "q = path") auto
    moreover have "page_rel ((ag_paths ag)(path \<mapsto> ag_counter ag)) (ag_pages ag q) (m q)" for q
      by (rule page_rel_new [OF None refinesD(5) [OF assms(1)]])
    ultimately have "refines (Suc n) (with_path path ag) m"
      unfolding refines_def using None c(1) z by (simp add: with_path_def del: fun_upd_apply)
    then show ?thesis by blast
  next
    case (Some i)
    then show ?thesis using assms(1) by (intro exI [of _ n]) (simp add: with_path_def)
  qed
qed

lemma groups_rel_cong:
  "groups_rel paths groups m \<Longrightarrow> map_of groups' = map_of groups \<Longrightarrow> distinct (map fst groups') \<Longrightarrow> groups_rel paths groups' m"
  by (simp add: groups_rel_def)

lemma refines_join:
  assumes "refines n ag m" "ag_paths ag path = Some i" "m p = None" "map_of (ag_groups ag) i = Some u"
    and "ag_counter ag' = ag_counter ag" "ag_paths ag' = ag_paths ag" "ag_pages ag' = (ag_pages ag)(p \<mapsto> info)"
    and "map_of (ag_groups ag') = (map_of (ag_groups ag))(i \<mapsto> u\<lparr>us_value := us_value u + pages_count (pi_order info)\<rparr>)"
    and "distinct (map fst (ag_groups ag'))" "pi_is_allocated info" "\<not> pi_is_cache info" "pi_func_path_index info = i"
  shows "refines n ag' (m(p \<mapsto> (path, pi_order info, False)))"
proof -
  let ?m = "m(p \<mapsto> (path, pi_order info, False))"
  have "u = usage_of m path" using groups_relD [OF refinesD(4) [OF assms(1)] assms(2)] assms(4) by simp
  then have u: "u\<lparr>us_value := us_value u + pages_count (pi_order info)\<rparr> = usage_of ?m path"
    using assms(3) by (simp add: usage_of_def mem_pages_upd cache_pages_upd weights)
  have "usage_of ?m path' = usage_of m path'" if "path' \<noteq> path" for path'
    using that assms(3) by (intro usage_other) (simp_all add: weights)
  then have "groups_rel (ag_paths ag) (AList.update i (usage_of ?m path) (ag_groups ag)) ?m"
    by (rule groups_rel_upd [OF refinesD(4,3) [OF assms(1)] assms(2)])
  then have "groups_rel (ag_paths ag) (ag_groups ag') ?m"
    by (rule groups_rel_cong) (use assms(8,9) u in \<open>simp_all add: update_conv'\<close>)
  moreover have "\<forall>q. page_rel (ag_paths ag) (ag_pages ag' q) (?m q)"
    using refinesD(5) [OF assms(1)] assms(2,7,10-12) by (simp add: page_rel_Some)
  ultimately show ?thesis using refinesD(1-3) [OF assms(1)] assms(5,6) by (simp add: refines_def)
qed

lemma with_path_simps [simp]: "ag_pages (with_path path ag) = ag_pages ag"
  by (simp add: with_path_def split: option.split)

lemma alloc_new:
  assumes "ag_pages ag p = None" "map_of (ag_groups (with_path path ag)) (path_index path ag) = Some u"
    and "distinct (map fst (ag_groups ag))" "map_of (ag_groups ag) (ag_counter ag) = None"
  shows "\<exists>ag'. ag_alloc p order path ag = Inr ag' \<and> ag_counter ag' = ag_counter (with_path path ag) \<and>
    ag_paths ag' = ag_paths (with_path path ag) \<and>
    ag_pages ag' = (ag_pages ag)(p \<mapsto> \<lparr>pi_func_path_index = path_index path ag, pi_order = order, pi_is_allocated = True, pi_is_cache = False\<rparr>) \<and>
    map_of (ag_groups ag') = (map_of (ag_groups (with_path path ag)))(path_index path ag \<mapsto> u\<lparr>us_value := us_value u + pages_count order\<rparr>) \<and>
    distinct (map fst (ag_groups ag'))"
  using assms
  by (cases "ag_paths ag path") (auto simp: ag_alloc_def with_path_def path_index_def Let_def update_conv' distinct_update)

lemma refines_fresh:
  assumes "refines n ag m" "n < 2 ^ 32 - 1"
  shows "distinct (map fst (ag_groups ag))" "map_of (ag_groups ag) (ag_counter ag) = None"
proof -
  show "distinct (map fst (ag_groups ag))" using refinesD(4) [OF assms(1)] by (simp add: groups_rel_def)
  have c: "unat (ag_counter ag) = n"
    using refinesD(1) [OF assms(1)] unat_of_nat_u32 [of n] assms(2) by simp
  have "ag_paths ag q \<noteq> Some (ag_counter ag)" for q using refinesD(2) [OF assms(1), of q "ag_counter ag"] c by auto
  then show "map_of (ag_groups ag) (ag_counter ag) = None"
    using groups_relI [OF refinesD(4) [OF assms(1)], of "ag_counter ag"] by (cases "map_of (ag_groups ag) (ag_counter ag)") auto
qed

lemma refines_alloc_new:
  assumes "refines n ag m" "n < 2 ^ 32 - 1" "m p = None"
  shows "\<exists>ag' n'. ag_alloc p order path ag = Inr ag' \<and> n' \<le> Suc n \<and> refines n' ag' (m(p \<mapsto> (path, order, False)))"
proof -
  obtain n' where n': "n' \<le> Suc n" "refines n' (with_path path ag) m" using refines_with_path(1) [OF assms(1,2)] by blast
  note path = refines_with_path(2) [OF assms(1,2), of path]
  have p: "ag_pages ag p = None" using refinesD(5) [OF assms(1), of p] assms(3) by (cases "ag_pages ag p") (auto simp: page_rel_Some)
  have u: "map_of (ag_groups (with_path path ag)) (path_index path ag) = Some (usage_of m path)"
    by (rule groups_relD [OF refinesD(4) [OF n'(2)] path])
  note d = refines_fresh [OF assms(1,2)]
  obtain ag' where ag': "ag_alloc p order path ag = Inr ag'" "ag_counter ag' = ag_counter (with_path path ag)"
      "ag_paths ag' = ag_paths (with_path path ag)"
      "ag_pages ag' = (ag_pages (with_path path ag))(p \<mapsto> \<lparr>pi_func_path_index = path_index path ag, pi_order = order, pi_is_allocated = True, pi_is_cache = False\<rparr>)"
      "map_of (ag_groups ag') = (map_of (ag_groups (with_path path ag)))(path_index path ag \<mapsto>
         (usage_of m path)\<lparr>us_value := us_value (usage_of m path) + pages_count order\<rparr>)"
      "distinct (map fst (ag_groups ag'))"
    using alloc_new [OF p u d, of order] unfolding with_path_simps by blast
  have "refines n' ag' (m(p \<mapsto> (path, order, False)))"
    using refines_join [OF n'(2) path assms(3) u ag'(2-4)] ag'(5,6) by simp
  then show ?thesis using ag'(1) n'(1) by blast
qed

lemma alloc_moved:
  assumes "ag_pages ag p = Some info" "pi_func_path_index info \<noteq> path_index path ag"
    and "map_of (ag_groups ag) (pi_func_path_index info) = Some v" "ag_track_free p (with_path path ag) = Inr ag1"
    and "map_of (ag_groups ag1) (path_index path ag) = Some u"
    and "distinct (map fst (ag_groups ag))" "map_of (ag_groups ag) (ag_counter ag) = None"
  shows "\<exists>ag'. ag_alloc p order path ag = Inr ag' \<and> ag_counter ag' = ag_counter ag1 \<and> ag_paths ag' = ag_paths ag1 \<and>
    ag_pages ag' = (ag_pages ag1)(p \<mapsto> info\<lparr>pi_func_path_index := path_index path ag, pi_is_allocated := True\<rparr>) \<and>
    map_of (ag_groups ag') = (map_of (ag_groups ag1))(path_index path ag \<mapsto> u\<lparr>us_value := us_value u + pages_count (pi_order info)\<rparr>) \<and>
    distinct (map fst (ag_groups ag'))"
  using assms
  by (cases "ag_paths ag path")
    (auto simp: ag_alloc_def ag_track_free_def group_update_def with_path_def path_index_def Let_def update_conv' distinct_update
      fun_upd_twist split: if_splits)

lemma refines_alloc_moved:
  assumes "refines n ag m" "n < 2 ^ 32 - 1" "m p = Some (path', order', False)" "path' \<noteq> path"
  shows "\<exists>ag' n'. ag_alloc p order path ag = Inr ag' \<and> n' \<le> Suc n \<and> refines n' ag' (m(p \<mapsto> (path, order', False)))"
proof -
  obtain n' where n': "n' \<le> Suc n" "refines n' (with_path path ag) m" using refines_with_path(1) [OF assms(1,2)] by blast
  note path = refines_with_path(2) [OF assms(1,2), of path]
  obtain info where info: "ag_pages ag p = Some info"
    using refinesD(5) [OF assms(1), of p] assms(3) by (cases "ag_pages ag p") (auto simp: page_rel_None)
  obtain q where q: "ag_paths ag q = Some (pi_func_path_index info)" "pi_is_allocated info"
      "m p = Some (q, pi_order info, pi_is_cache info)"
    by (rule refines_page [OF assms(1) info])
  obtain q' where q': "ag_paths (with_path path ag) q' = Some (pi_func_path_index info)"
      "m p = Some (q', pi_order info, pi_is_cache info)"
    by (rule refines_page [OF n'(2), of p info]) (use info in simp)
  have i: "pi_func_path_index info \<noteq> path_index path ag"
    using q' path refinesD(3) [OF n'(2)] assms(3,4) unfolding index_inj_def by (metis option.inject prod.inject)
  note v = groups_relD [OF refinesD(4) [OF assms(1)] q(1)]
  obtain ag1 where ag1: "ag_track_free p (with_path path ag) = Inr ag1" "refines n' ag1 (m(p := None))"
    using refines_free [OF n'(2)] by blast
  have paths: "ag_paths ag1 path = Some (path_index path ag)"
    using ag1(1) path by (auto simp: ag_track_free_def Let_def and_then_Inr_iff split: option.splits)
  note u = groups_relD [OF refinesD(4) [OF ag1(2)] paths]
  obtain ag' where ag': "ag_alloc p order path ag = Inr ag'" "ag_counter ag' = ag_counter ag1" "ag_paths ag' = ag_paths ag1"
      "ag_pages ag' = (ag_pages ag1)(p \<mapsto> info\<lparr>pi_func_path_index := path_index path ag, pi_is_allocated := True\<rparr>)"
      "map_of (ag_groups ag') = (map_of (ag_groups ag1))(path_index path ag \<mapsto>
         (usage_of (m(p := None)) path)\<lparr>us_value := us_value (usage_of (m(p := None)) path) + pages_count (pi_order info)\<rparr>)"
      "distinct (map fst (ag_groups ag'))"
    using alloc_moved [OF info i v ag1(1) u refines_fresh [OF assms(1,2)], of order] by blast
  have "refines n' ag' ((m(p := None))(p \<mapsto> (path, pi_order info, False)))"
    using refines_join [OF ag1(2) paths _ u ag'(2-4)] ag'(5,6) q(3) assms(3) by simp
  then show ?thesis using ag'(1) n'(1) q(3) assms(3) by auto
qed

lemma refines_step:
  assumes "refines n ag m" "n < 2 ^ 32 - 1" "op_ok op m"
  shows "\<exists>ag' n'. ag_step op ag = Inr ag' \<and> n' \<le> Suc n \<and> refines n' ag' (mem_step op m)"
proof (cases op)
  case (Op_Alloc p order path)
  show ?thesis
  proof (cases "m p")
    case None
    then show ?thesis using refines_alloc_new [OF assms(1,2) None, of order path] Op_Alloc by simp
  next
    case (Some e)
    then obtain path' where e: "m p = Some (path', order, False)" "path' \<noteq> path"
      using assms(3) Op_Alloc by (cases e) auto
    then show ?thesis using refines_alloc_moved [OF assms(1,2) e, of order] Op_Alloc by simp
  qed
next
  case (Op_Free p)
  obtain ag' where "ag_track_free p ag = Inr ag'" "refines n ag' (m(p := None))" using refines_free [OF assms(1)] by blast
  then show ?thesis using Op_Free by (intro exI [of _ ag'] exI [of _ n]) simp
next
  case (Op_Cache p b)
  obtain ag' where "ag_mark_cache p b ag = Inr ag'" "refines n ag' (mem_step (Op_Cache p b) m)"
    using refines_cache [OF assms(1)] by blast
  then show ?thesis using Op_Cache by (intro exI [of _ ag'] exI [of _ n]) simp
qed

lemma refines_steps:
  assumes "refines n ag m" "n + length ops < 2 ^ 32" "ops_ok ops m"
  shows "\<exists>ag' n'. ag_steps ops ag = Inr ag' \<and> refines n' ag' (fold mem_step ops m)"
  using assms
proof (induction ops arbitrary: n ag m)
  case (Cons op ops)
  then have "n < 2 ^ 32 - 1" "op_ok op m" by simp_all
  then obtain ag' n' where step: "ag_step op ag = Inr ag'" "n' \<le> Suc n" "refines n' ag' (mem_step op m)"
    using refines_step [OF Cons.prems(1)] by blast
  then show ?case using Cons.IH [OF step(3)] Cons.prems by simp
qed auto

section \<open>The report\<close>

lemma refines_report:
  assumes "refines n ag m" "(v, c, path) \<in> set (ag_report ag)"
  shows "v = ucast (mem_pages m path) * 4" "c = ucast (cache_pages m path) * 4"
proof -
  obtain i u where u: "(i, u) \<in> set (ag_groups ag)" "v = ucast (us_value u) * 4" "c = ucast (us_cache_value u) * 4"
      "path = us_func_path u"
    using assms(2) by (auto simp: ag_report_def)
  then have "map_of (ag_groups ag) i = Some u" using refinesD(4) [OF assms(1)] by (simp add: groups_rel_def)
  then obtain q where "u = usage_of m q" using groups_relI [OF refinesD(4) [OF assms(1)]] by blast
  then show "v = ucast (mem_pages m path) * 4" "c = ucast (cache_pages m path) * 4" using u by (simp_all add: usage_of_def)
qed

lemma refines_report_distinct:
  assumes "refines n ag m"
  shows "distinct (map (\<lambda>(v, c, path). path) (ag_report ag))"
proof -
  have d: "distinct (map fst (ag_groups ag))" using refinesD(4) [OF assms] by (simp add: groups_rel_def)
  have e: "map (\<lambda>(v, c, path). path) (ag_report ag) = map (us_func_path \<circ> snd) (ag_groups ag)"
    by (simp add: ag_report_def split_def)
  have path: "ag_paths ag (us_func_path u) = Some i" if a: "(i, u) \<in> set (ag_groups ag)" for i u
  proof -
    have "map_of (ag_groups ag) i = Some u" using a d by simp
    then obtain q where "ag_paths ag q = Some i" "u = usage_of m q" using groups_relI [OF refinesD(4) [OF assms]] by blast
    then show ?thesis by (simp add: usage_of_def)
  qed
  have "inj_on (us_func_path \<circ> snd) (set (ag_groups ag))"
  proof (rule inj_onI)
    fix x y assume a: "x \<in> set (ag_groups ag)" "y \<in> set (ag_groups ag)" "(us_func_path \<circ> snd) x = (us_func_path \<circ> snd) y"
    then have "fst x = fst y" using path [of "fst x" "snd x"] path [of "fst y" "snd y"] by simp
    then show "x = y" using a(1,2) d by (metis eq_key_imp_eq_value prod.collapse)
  qed
  then show ?thesis unfolding e using d by (simp add: distinct_map)
qed

lemma refines_report_complete:
  assumes "refines n ag m" "m p = Some (path, order, k)"
  shows "path \<in> (\<lambda>(v, c, path). path) ` set (ag_report ag)"
proof -
  obtain i where "ag_paths ag path = Some i"
    using refinesD(5) [OF assms(1), of p] assms(2) by (cases "ag_pages ag p") (auto simp: page_rel_Some page_rel_None)
  then have "(i, usage_of m path) \<in> set (ag_groups ag)"
    using groups_relD [OF refinesD(4) [OF assms(1)]] by (simp add: map_of_SomeD)
  then show ?thesis by (force simp: ag_report_def usage_of_def image_iff)
qed

text \<open>The pages that a stack owns, and those of them that are in the page cache, as numbers.\<close>

definition owned :: "('k \<Rightarrow> (hex64 list \<times> 'o :: len word \<times> bool) option) \<Rightarrow> hex64 list \<Rightarrow> nat" where
  "owned m path = (\<Sum>p \<in> UNIV. case m p of Some (path', order, _) \<Rightarrow> if path' = path then 2 ^ unat order else 0 | None \<Rightarrow> 0)"

definition owned_cache :: "('k \<Rightarrow> (hex64 list \<times> 'o :: len word \<times> bool) option) \<Rightarrow> hex64 list \<Rightarrow> nat" where
  "owned_cache m path =
     (\<Sum>p \<in> UNIV. case m p of Some (path', order, cache) \<Rightarrow> if path' = path \<and> cache then 2 ^ unat order else 0 | None \<Rightarrow> 0)"

definition small_orders :: "('k \<Rightarrow> (hex64 list \<times> 'o :: len word \<times> bool) option) \<Rightarrow> bool" where
  "small_orders m \<longleftrightarrow> (\<forall>p path order cache. m p = Some (path, order, cache) \<longrightarrow> unat order < 32)"

lemma owned_cache_le: "owned_cache m path \<le> owned m path"
  unfolding owned_def owned_cache_def by (rule sum_mono) (auto split: option.split)

lemma pages_count_nat: "unat order < 32 \<Longrightarrow> pages_count order = word_of_nat (2 ^ unat order)"
  by (simp add: pages_count_def push_bit_eq_mult)

lemma mem_pages_owned:
  assumes "small_orders m"
  shows "mem_pages m path = word_of_nat (owned m path)" "cache_pages m path = word_of_nat (owned_cache m path)"
proof -
  have c: "pages_count order = word_of_nat (2 ^ unat order)" if "m p = Some (q, order, k)" for p q order k
    using pages_count_nat assms that unfolding small_orders_def by blast
  show "mem_pages m path = word_of_nat (owned m path)" unfolding mem_pages_def owned_def of_nat_sum
    by (rule sum.cong) (auto simp: page_weight_def c split: option.split)
  show "cache_pages m path = word_of_nat (owned_cache m path)" unfolding cache_pages_def owned_cache_def of_nat_sum
    by (rule sum.cong) (auto simp: cache_weight_def c split: option.split)
qed

text \<open>A report that is the sum over a memory, exactly.\<close>

definition exact_report :: "('k \<Rightarrow> (hex64 list \<times> 'o :: len word \<times> bool) option) \<Rightarrow> (u64 \<times> u64 \<times> hex64 list) list \<Rightarrow> bool" where
  "exact_report m report \<longleftrightarrow>
     distinct (map (\<lambda>(v, c, path). path) report) \<and>
     (\<forall>p path order k. m p = Some (path, order, k) \<longrightarrow> path \<in> (\<lambda>(v, c, path). path) ` set report) \<and>
     (\<forall>(v, c, path) \<in> set report. unat v = 4 * owned m path \<and> unat c = 4 * owned_cache m path)"

lemma quadruple_word: "k < 2 ^ 32 \<Longrightarrow> unat (ucast (word_of_nat k :: u32) * 4 :: u64) = 4 * k"
proof -
  assume k: "k < 2 ^ 32"
  then have "unat (word_of_nat k :: u32) = k" by (rule unat_of_nat_u32)
  then have "(ucast (word_of_nat k :: u32) :: u64) = word_of_nat k" by (metis of_nat_unat)
  then have "ucast (word_of_nat k :: u32) * 4 = (word_of_nat (4 * k) :: u64)" by simp
  moreover have "4 * k < 2 ^ 64" using k by simp
  ultimately show ?thesis by (simp only: unat_of_nat) simp
qed

lemma refines_exact:
  assumes "refines n ag m" "small_orders m" "\<forall>path. owned m path < 2 ^ 32"
  shows "exact_report m (ag_report ag)"
proof -
  have "unat v = 4 * owned m path \<and> unat c = 4 * owned_cache m path" if "(v, c, path) \<in> set (ag_report ag)" for v c path
    using refines_report [OF assms(1) that] mem_pages_owned [OF assms(2), of path] quadruple_word [of "owned m path"]
      quadruple_word [of "owned_cache m path"] assms(3) le_less_trans [OF owned_cache_le [of m path]] by simp
  then show ?thesis using refines_report_distinct [OF assms(1)] refines_report_complete [OF assms(1)]
    unfolding exact_report_def by auto
qed

lemma small_orders_steps: "ops_ok ops m \<Longrightarrow> small_orders m \<Longrightarrow> small_orders (fold mem_step ops m)"
proof (induction ops arbitrary: m)
  case (Cons op ops)
  have upd: "small_orders (m(p := e))" if "\<And>path order k. e = Some (path, order, k) \<Longrightarrow> unat order < 32" for p e
    using Cons.prems(2) that unfolding small_orders_def by (metis fun_upd_apply)
  have old: "unat order < 32" if "m p = Some (path, order, k)" for p path order k
    using Cons.prems(2) that unfolding small_orders_def by blast
  have "small_orders (mem_step op m)" using Cons.prems(1) by (cases op) (auto intro!: upd dest: old)
  then show ?case using Cons by simp
qed simp

text \<open>
  C6: The aggregator is exact. After any sequence of fewer than \<open>2 ^ 32\<close> allocations, releases and page cache marks in
  which a page is allocated only when it is free, or moves to another stack with the same order and outside of the page cache, the aggregator has
  not panicked, and its report lists every call stack that owns a page exactly once, with four KiB for
  every page of the blocks whose last allocation came from this stack and was not released (and likewise for the
  pages that are marked as cache), as long as no stack owns \<open>2 ^ 32\<close> pages in the end: the incremental 32-bit counters are the sums
  over the memory, whatever wrapped on the way. For a page that is allocated again with another order, or while it is in the page cache, the
  report is wrong: the code keeps the order and the mark of the first allocation.
\<close>

theorem aggregator_exact:
  assumes "ops_ok ops Map.empty" "length ops < 2 ^ 32" "\<forall>path. owned (fold mem_step ops Map.empty) path < 2 ^ 32"
  shows "\<exists>ag. ag_steps ops ag_default = Inr ag \<and> exact_report (fold mem_step ops Map.empty) (ag_report ag)"
proof -
  obtain ag n where ag: "ag_steps ops ag_default = Inr ag" "refines n ag (fold mem_step ops Map.empty)"
    using refines_steps [OF refines_default] assms by (metis add_0)
  moreover have "small_orders (fold mem_step ops Map.empty)" using small_orders_steps [OF assms(1)] by (simp add: small_orders_def)
  ultimately show ?thesis using refines_exact assms(3) by blast
qed

definition sample_ops :: "mem_op list" where
  "sample_ops = [Op_Alloc 1 0 [7], Op_Alloc 2 1 [8], Op_Cache 1 True, Op_Alloc 2 1 [7, 8], Op_Free 1]"

lemma sample_ops_ok: "ops_ok sample_ops Map.empty"
  by (simp add: sample_ops_def)

lemma sample_memory: "fold mem_step sample_ops Map.empty = [2 \<mapsto> ([7, 8], 1, False)]"
  by (simp add: sample_ops_def fun_eq_iff)

lemma sample_owned: "owned ([2 \<mapsto> ([7, 8], 1, False)] :: memory) path = (if path = [7, 8] then 2 else 0)"
proof -
  have "owned ([2 \<mapsto> ([7, 8], 1, False)] :: memory) path = (\<Sum>p :: u32 \<in> UNIV. if p = 2 then if path = [7, 8] then 2 else 0 else 0)"
    unfolding owned_def by (rule sum.cong) auto
  then show ?thesis by simp
qed

theorem aggregator_exact_witness:
  "\<exists>ag. ag_steps sample_ops ag_default = Inr ag \<and> (\<exists>v c. (v, c, [7, 8]) \<in> set (ag_report ag) \<and> unat v = 8)"
proof -
  obtain ag where ag: "ag_steps sample_ops ag_default = Inr ag" "exact_report ([2 \<mapsto> ([7, 8], 1, False)] :: memory) (ag_report ag)"
    using aggregator_exact [OF sample_ops_ok] unfolding sample_memory sample_owned by (force simp: sample_ops_def)
  then obtain v c where "(v, c, [7, 8]) \<in> set (ag_report ag)" unfolding exact_report_def by (force split: if_splits)
  then show ?thesis using ag sample_owned unfolding exact_report_def by fastforce
qed

text \<open>
  The order of the first allocation is kept: a block of one page that is allocated again as two pages is reported as one.
\<close>

lemma kept_order:
  assumes "path \<noteq> path'"
  shows "\<exists>ag. ag_steps [Op_Alloc p 0 path, Op_Alloc p 1 path'] ag_default = Inr ag \<and> (4, 0, path') \<in> set (ag_report ag)"
  using assms
  by (simp add: ag_alloc_def ag_default_def group_update_def leave_group_def pages_count_def ag_report_def Let_def)

lemma ucast_minus_one: "(ucast (- 1 :: u32) :: u64) = 0xffffffff"
  by (simp add: unsigned_minus_1_eq_mask mask_numeral)

text \<open>
  The limit of the accounting. A page that is in the page cache and is allocated by another stack takes its mark along
  without being counted for the new stack; when it is released, the counter of cached pages of the new stack goes below
  zero and wraps: the report shows 16 TiB of cache for a stack that owns nothing.
\<close>

theorem moved_cache_page_underflow:
  assumes "path \<noteq> path'"
  shows "\<exists>ag. ag_steps [Op_Alloc p 0 path, Op_Cache p True, Op_Alloc p 0 path', Op_Free p] ag_default = Inr ag \<and>
    (0, 0xffffffff * 4, path') \<in> set (ag_report ag)"
  using assms
  by (simp add: ag_alloc_def ag_mark_cache_def ag_track_free_def ag_default_def group_update_def leave_group_def
      pages_count_def ag_report_def Let_def ucast_minus_one)

theorem moved_cache_page_underflow_witness:
  "\<exists>ag. ag_steps [Op_Alloc 5 0 [1], Op_Cache 5 True, Op_Alloc 5 0 [2], Op_Free 5] ag_default = Inr ag \<and>
    (0, 0xffffffff * 4, [2]) \<in> set (ag_report ag)"
  by (rule moved_cache_page_underflow) simp

end
