(* ===== verification/Memprof_Allocation.thy ===== *)
theory Memprof_Allocation
  imports Memprof_History Memprof_Account
begin

unbundle bit_operations_syntax

text \<open>
  The tracker that keeps only the current state, \<^verbatim>\<open>tezedge-memprof/src/history/allocation.rs\<close>: the last stack of every page and the
  number of pages per stack, where stacks are numbered in the order of their appearance.
\<close>

section \<open>Usage\<close>

record al_usage =
  alu_node :: u32
  alu_cache :: u32
  alu_stack :: "hex64 list"

definition usage_new :: "hex64 list \<Rightarrow> al_usage" where
  "usage_new s = \<lparr>alu_node = 0, alu_cache = 0, alu_stack = s\<rparr>"

definition usage_decrease :: "page \<Rightarrow> al_usage \<Rightarrow> panic + al_usage" where
  "usage_decrease p u =
     (if alu_node u < page_number p then Inl Explicit_Panic else Inr (u\<lparr>alu_node := alu_node u - page_number p\<rparr>))"

definition usage_increase :: "page \<Rightarrow> al_usage \<Rightarrow> al_usage" where
  "usage_increase p u = u\<lparr>alu_node := alu_node u + page_number p\<rparr>"

definition usage_cache :: "page \<Rightarrow> bool \<Rightarrow> al_usage \<Rightarrow> al_usage" where
  "usage_cache p b u =
     (if b then u\<lparr>alu_cache := alu_cache u + page_number p\<rparr>
      else if alu_cache u < page_number p then u\<lparr>alu_cache := 0\<rparr>
      else u\<lparr>alu_cache := alu_cache u - page_number p\<rparr>)"

section \<open>Groups\<close>

record page_state =
  pst_stack_hash :: u32
  pst_for_cache :: bool
  pst_order :: u8

record alloc_group =
  gr_last_stack :: "page \<Rightarrow> page_state option"
  gr_group :: "(u32 \<times> al_usage) list"
  gr_collision_detector :: "hex64 list \<Rightarrow> u32 option"
  gr_counter :: u32

definition gr_default :: alloc_group where
  "gr_default = \<lparr>gr_last_stack = Map.empty, gr_group = [], gr_collision_detector = Map.empty, gr_counter = 0\<rparr>"

text \<open>The number of a stack, given on its first appearance.\<close>

definition gr_hash :: "hex64 list \<Rightarrow> alloc_group \<Rightarrow> u32 \<times> alloc_group" where
  "gr_hash s gr =
     (case gr_collision_detector gr s of
        Some h \<Rightarrow> (h, gr)
      | None \<Rightarrow> (gr_counter gr + 1,
          gr\<lparr>gr_counter := gr_counter gr + 1,
             gr_collision_detector := (gr_collision_detector gr)(s \<mapsto> gr_counter gr + 1)\<rparr>))"

definition gr_add :: "page \<Rightarrow> hex64 list \<Rightarrow> u32 \<Rightarrow> bool \<Rightarrow> alloc_group \<Rightarrow> alloc_group" where
  "gr_add p s h for_cache gr =
     (let usage = (case map_of (gr_group gr) h of Some u \<Rightarrow> u | None \<Rightarrow> usage_new s) in
      gr\<lparr>gr_group := AList.update h (usage_increase p usage) (gr_group gr),
         gr_last_stack := (gr_last_stack gr)(p \<mapsto> \<lparr>pst_stack_hash = h, pst_for_cache = for_cache, pst_order = page_order p\<rparr>)\<rparr>)"

definition gr_insert :: "page \<Rightarrow> hex64 list \<Rightarrow> alloc_group \<Rightarrow> panic + alloc_group" where
  "gr_insert p s gr0 =
     (let (h, gr) = gr_hash s gr0 in
      case gr_last_stack gr p of
        None \<Rightarrow> Inr (gr_add p s h False gr)
      | Some st \<Rightarrow>
          if pst_stack_hash st = h then Inr gr
          else
            and_then (unwrap (map_of (gr_group gr) (pst_stack_hash st))) (\<lambda>u.
            and_then (usage_decrease p u) (\<lambda>u'.
            Inr (gr_add p s h (pst_for_cache st)
              (gr\<lparr>gr_group := AList.update (pst_stack_hash st) u' (gr_group gr),
                  gr_last_stack := (gr_last_stack gr)(p := None)\<rparr>)))))"

definition gr_remove :: "page \<Rightarrow> alloc_group \<Rightarrow> panic + alloc_group" where
  "gr_remove p gr =
     (case gr_last_stack gr p of
        None \<Rightarrow> Inr gr
      | Some st \<Rightarrow>
          and_then (unwrap (map_of (gr_group gr) (pst_stack_hash st))) (\<lambda>u.
          and_then (usage_decrease p (if pst_for_cache st then usage_cache p False u else u)) (\<lambda>u'.
          Inr (gr\<lparr>gr_group := AList.update (pst_stack_hash st) u' (gr_group gr),
                  gr_last_stack := (gr_last_stack gr)(p := None)\<rparr>))))"

definition gr_mark_cache :: "page \<Rightarrow> bool \<Rightarrow> alloc_group \<Rightarrow> panic + alloc_group" where
  "gr_mark_cache p b gr =
     (case gr_last_stack gr p of
        None \<Rightarrow> Inr gr
      | Some st \<Rightarrow>
          if pst_for_cache st \<noteq> b then
            and_then (unwrap (map_of (gr_group gr) (pst_stack_hash st))) (\<lambda>u.
            let p' = page_set_order (pst_order st) p;
                u' = usage_cache p' b u;
                last_stack = (gr_last_stack gr)(p \<mapsto> st\<lparr>pst_for_cache := b\<rparr>)
            in if b then Inr (gr\<lparr>gr_group := AList.update (pst_stack_hash st) u' (gr_group gr), gr_last_stack := last_stack\<rparr>)
               else
                 and_then (usage_decrease p' u') (\<lambda>u''.
                 Inr (gr\<lparr>gr_group := AList.update (pst_stack_hash st) u'' (gr_group gr),
                         gr_last_stack := last_stack(p' := None)\<rparr>)))
          else Inr gr)"

section \<open>The tracker\<close>

record allocation_state =
  as_pid :: "u32 option"
  as_group :: alloc_group

definition as_default :: allocation_state where
  "as_default = \<lparr>as_pid = None, as_group = gr_default\<rparr>"

definition as_track_alloc :: "page \<Rightarrow> mem_stack \<Rightarrow> hex32 \<Rightarrow> u32 \<Rightarrow> allocation_state \<Rightarrow> panic + allocation_state" where
  "as_track_alloc p stack flags pid a =
     and_then (stack_ips stack) (\<lambda>s.
     and_then (gr_insert p s (as_group a)) (\<lambda>gr. Inr (a\<lparr>as_pid := Some pid, as_group := gr\<rparr>)))"

definition as_track_free :: "page \<Rightarrow> u32 \<Rightarrow> allocation_state \<Rightarrow> panic + allocation_state" where
  "as_track_free p pid a =
     (if as_pid a \<noteq> Some pid then Inr a
      else and_then (gr_remove p (as_group a)) (\<lambda>gr. Inr (a\<lparr>as_group := gr\<rparr>)))"

definition as_mark_page_cache :: "page \<Rightarrow> bool \<Rightarrow> allocation_state \<Rightarrow> panic + allocation_state" where
  "as_mark_page_cache p b a = and_then (gr_mark_cache p b (as_group a)) (\<lambda>gr. Inr (a\<lparr>as_group := gr\<rparr>))"

definition as_short_report :: "allocation_state \<Rightarrow> u64 \<times> u64" where
  "as_short_report a =
     fold (\<lambda>(_, u) (node, cache). (node + ucast (alu_node u * 4), cache + ucast (alu_cache u * 4))) (gr_group (as_group a)) (0, 0)"

definition as_tree_report :: "u64 \<Rightarrow> bool \<Rightarrow> allocation_state \<Rightarrow> frame" where
  "as_tree_report threshold reverse a =
     tree_report threshold reverse
       (map (\<lambda>(_, u). (ucast (alu_node u) * 4, ucast (alu_cache u) * 4, alu_stack u)) (gr_group (as_group a)))"

section \<open>Sums over the memory\<close>

lemma finite_page: "finite (A :: page set)"
proof -
  have "range (\<lambda>i. \<lparr>pg_inner = i\<rparr>) = (UNIV :: page set)"
    by (rule surjI [where f = pg_inner]) simp
  then have "finite (UNIV :: page set)" by (metis finite finite_imageI)
  then show ?thesis by (rule rev_finite_subset) simp
qed

definition page_sum :: "(page \<Rightarrow> 'e option \<Rightarrow> nat) \<Rightarrow> (page \<Rightarrow> 'e option) \<Rightarrow> nat" where
  "page_sum f m = (\<Sum>p \<in> UNIV. f p (m p))"

lemma page_sum_upd: "page_sum f (m(q := e)) + f q (m q) = page_sum f m + f q e"
proof -
  have u: "page_sum f m' = f q (m' q) + (\<Sum>p \<in> UNIV - {q}. f p (m' p))" for m'
    unfolding page_sum_def by (rule sum.remove [OF finite_page]) simp
  have "(\<Sum>p \<in> UNIV - {q}. f p ((m(q := e)) p)) = (\<Sum>p \<in> UNIV - {q}. f p (m p))" by (rule sum.cong) simp_all
  then show ?thesis using u [of m] u [of "m(q := e)"] by simp
qed

lemma page_sum_ge: "f q (m q) \<le> page_sum f m"
  unfolding page_sum_def by (rule member_le_sum [OF _ _ finite_page]) simp_all

lemma page_sum_mono: "(\<And>p e. f p e \<le> g p e) \<Longrightarrow> page_sum f m \<le> page_sum g m"
  unfolding page_sum_def by (rule sum_mono) simp

definition page_units :: "page \<Rightarrow> nat" where
  "page_units p = unat (page_number p)"

definition all_weight :: "page \<Rightarrow> (hex64 list \<times> bool) option \<Rightarrow> nat" where
  "all_weight p e = (case e of Some _ \<Rightarrow> page_units p | None \<Rightarrow> 0)"

definition stack_weight :: "hex64 list \<Rightarrow> page \<Rightarrow> (hex64 list \<times> bool) option \<Rightarrow> nat" where
  "stack_weight s p e = (case e of Some (s', _) \<Rightarrow> if s' = s then page_units p else 0 | None \<Rightarrow> 0)"

definition cached_weight :: "hex64 list \<Rightarrow> page \<Rightarrow> (hex64 list \<times> bool) option \<Rightarrow> nat" where
  "cached_weight s p e = (case e of Some (s', c) \<Rightarrow> if s' = s \<and> c then page_units p else 0 | None \<Rightarrow> 0)"

lemma stack_le_all: "page_sum (stack_weight s) m \<le> page_sum all_weight m"
  by (rule page_sum_mono) (simp add: stack_weight_def all_weight_def split: option.split prod.split)

lemma cached_le_stack: "page_sum (cached_weight s) m \<le> page_sum (stack_weight s) m"
  by (rule page_sum_mono) (simp add: stack_weight_def cached_weight_def split: option.split prod.split)

lemma weight_simps [simp]:
  "all_weight p None = 0" "all_weight p (Some e) = page_units p"
  "stack_weight s p None = 0" "stack_weight s p (Some (s', c)) = (if s' = s then page_units p else 0)"
  "cached_weight s p None = 0" "cached_weight s p (Some (s', c)) = (if s' = s \<and> c then page_units p else 0)"
  by (simp_all add: all_weight_def stack_weight_def cached_weight_def)

lemma unat_add_u32: "unat a + unat b < 2 ^ 32 \<Longrightarrow> unat (a + b :: u32) = unat a + unat b"
  by (simp add: unat_word_ariths)

lemma unat_sub_u32: "unat b \<le> unat a \<Longrightarrow> unat (a - b :: u32) = unat a - unat b"
  by (simp add: unat_sub word_le_nat_alt)

section \<open>The invariant\<close>

text \<open>
  Stacks have different numbers, every stack that has appeared has a group, and the group counts the pages of the stack.
  With \<open>exact\<close>, it also counts its pages in the cache.
\<close>

definition usage_counts :: "bool \<Rightarrow> hex64 list \<Rightarrow> page_memory \<Rightarrow> al_usage \<Rightarrow> bool" where
  "usage_counts exact s m u \<longleftrightarrow>
     alu_stack u = s \<and> unat (alu_node u) = page_sum (stack_weight s) m \<and>
     (exact \<longrightarrow> unat (alu_cache u) = page_sum (cached_weight s) m)"

definition state_rel :: "(hex64 list \<Rightarrow> u32 option) \<Rightarrow> page \<Rightarrow> page_state option \<Rightarrow> (hex64 list \<times> bool) option \<Rightarrow> bool" where
  "state_rel detector p st e \<longleftrightarrow>
     (case e of
        None \<Rightarrow> st = None
      | Some (s, c) \<Rightarrow> \<exists>h. detector s = Some h \<and> st = Some \<lparr>pst_stack_hash = h, pst_for_cache = c, pst_order = page_order p\<rparr>)"

definition gr_inv :: "bool \<Rightarrow> alloc_group \<Rightarrow> page_memory \<Rightarrow> bool" where
  "gr_inv exact gr m \<longleftrightarrow>
     (\<forall>s h. gr_collision_detector gr s = Some h \<longrightarrow> h \<le> gr_counter gr) \<and> index_inj (gr_collision_detector gr) \<and>
     (\<forall>p. state_rel (gr_collision_detector gr) p (gr_last_stack gr p) (m p)) \<and>
     (\<forall>s h. gr_collision_detector gr s = Some h \<longrightarrow> (\<exists>u. map_of (gr_group gr) h = Some u \<and> usage_counts exact s m u)) \<and>
     (\<forall>h u. map_of (gr_group gr) h = Some u \<longrightarrow> (\<exists>s. gr_collision_detector gr s = Some h)) \<and>
     distinct (map fst (gr_group gr))"

lemma gr_inv_default: "gr_inv exact gr_default Map.empty"
  by (simp add: gr_inv_def gr_default_def index_inj_def state_rel_def)

lemma gr_invD:
  assumes "gr_inv exact gr m"
  shows "gr_collision_detector gr s = Some h \<Longrightarrow> h \<le> gr_counter gr"
    and "index_inj (gr_collision_detector gr)"
    and "state_rel (gr_collision_detector gr) p (gr_last_stack gr p) (m p)"
    and "gr_collision_detector gr s = Some h \<Longrightarrow> \<exists>u. map_of (gr_group gr) h = Some u \<and> usage_counts exact s m u"
    and "map_of (gr_group gr) h = Some u \<Longrightarrow> \<exists>s. gr_collision_detector gr s = Some h"
    and "distinct (map fst (gr_group gr))"
  using assms unfolding gr_inv_def by blast+

lemma gr_inv_page:
  assumes "gr_inv exact gr m" "gr_last_stack gr p = Some st"
  obtains s c u where "m p = Some (s, c)" "gr_collision_detector gr s = Some (pst_stack_hash st)" "pst_for_cache st = c"
    "pst_order st = page_order p" "map_of (gr_group gr) (pst_stack_hash st) = Some u" "usage_counts exact s m u"
proof -
  from gr_invD(3) [OF assms(1), of p] assms(2) obtain s c where s: "m p = Some (s, c)"
      "gr_collision_detector gr s = Some (pst_stack_hash st)" "pst_for_cache st = c" "pst_order st = page_order p"
    by (auto simp: state_rel_def split: option.splits)
  then show thesis using gr_invD(4) [OF assms(1) s(2)] that by blast
qed

lemma gr_inv_free: "gr_inv exact gr m \<Longrightarrow> gr_last_stack gr p = None \<longleftrightarrow> m p = None"
  using gr_invD(3) [of exact gr m p] by (auto simp: state_rel_def split: option.splits)

lemma usage_counts_other:
  assumes "stack_weight s p (m p) = 0" "stack_weight s p e = 0" "cached_weight s p (m p) = 0" "cached_weight s p e = 0"
  shows "usage_counts exact s (m(p := e)) u \<longleftrightarrow> usage_counts exact s m u"
  using page_sum_upd [of "stack_weight s" m p e] page_sum_upd [of "cached_weight s" m p e] assms
  by (simp add: usage_counts_def)

text \<open>One group and one page change; the page is or was in the group.\<close>

lemma gr_inv_set:
  assumes "gr_inv exact gr m" "gr_collision_detector gr s = Some h"
    and "m p = None \<or> (\<exists>c. m p = Some (s, c))" "e = None \<or> (\<exists>c. e = Some (s, c))"
    and "state_rel (gr_collision_detector gr) p st e" "usage_counts exact s (m(p := e)) u"
    and "gr_collision_detector gr' = gr_collision_detector gr" "gr_counter gr' = gr_counter gr"
    and "gr_last_stack gr' = (gr_last_stack gr)(p := st)" "map_of (gr_group gr') = (map_of (gr_group gr))(h \<mapsto> u)"
    and "distinct (map fst (gr_group gr'))"
  shows "gr_inv exact gr' (m(p := e))"
  unfolding gr_inv_def
proof (intro conjI allI impI)
  fix s' h' assume a: "gr_collision_detector gr' s' = Some h'"
  show "h' \<le> gr_counter gr'" using gr_invD(1) [OF assms(1), of s' h'] a assms(7,8) by simp
  obtain u' where u': "map_of (gr_group gr) h' = Some u'" "usage_counts exact s' m u'"
    using gr_invD(4) [OF assms(1), of s' h'] a assms(7) by auto
  show "\<exists>u. map_of (gr_group gr') h' = Some u \<and> usage_counts exact s' (m(p := e)) u"
  proof (cases "s' = s")
    case True
    then show ?thesis using a assms(2,6,7,10) by simp
  next
    case False
    then have "h' \<noteq> h" using a assms(2,7) gr_invD(2) [OF assms(1)] by (auto simp: index_inj_def)
    moreover have "usage_counts exact s' (m(p := e)) u'"
      using False assms(3,4) u'(2) by (subst usage_counts_other) auto
    ultimately show ?thesis using u'(1) assms(10) by simp
  qed
next
  fix h' u' assume "map_of (gr_group gr') h' = Some u'"
  then show "\<exists>s. gr_collision_detector gr' s = Some h'"
    using gr_invD(5) [OF assms(1), of h' u'] assms(2,7,10) by (cases "h' = h") auto
qed (use gr_invD(2,3) [OF assms(1)] assms(5,7,9,11) in auto)

lemma ucast_order: "(ucast (ucast (drop_bit 28 x :: u32) :: u8) :: u32) = drop_bit 28 x"
  by (rule bit_word_eqI) (auto simp: bit_simps dest: bit_imp_le_length)

lemma page_set_order_same: "page_set_order (page_order p) p = p"
proof -
  have "(0x0fffffff :: u32) = mask 28" by (simp add: mask_eq_exp_minus_1)
  then have "(pg_inner p AND 0x0fffffff) + push_bit 28 (ucast (ucast (drop_bit 28 (pg_inner p)) :: u8)) = pg_inner p"
    unfolding ucast_order using bits_ident [of 28 "pg_inner p"] by (simp only: take_bit_eq_mask add.commute)
  then show ?thesis by (simp add: page_set_order_def page_order_def)
qed

lemma usage_decrease_ok:
  assumes "usage_counts exact s m u" "m p = Some (s, c)" "exact \<longrightarrow> \<not> c"
  shows "\<exists>u'. usage_decrease p u = Inr u' \<and> usage_counts exact s (m(p := None)) u'"
proof -
  have "page_units p \<le> unat (alu_node u)"
    using page_sum_ge [of "stack_weight s" p m] assms(1,2) by (simp add: usage_counts_def)
  then show ?thesis using assms page_sum_upd [of "stack_weight s" m p None] page_sum_upd [of "cached_weight s" m p None]
    by (auto simp: usage_counts_def usage_decrease_def page_units_def word_less_nat_alt unat_sub_u32)
qed

lemma usage_uncache_ok:
  assumes "usage_counts exact s m u" "m p = Some (s, True)"
  shows "usage_counts exact s (m(p \<mapsto> (s, False))) (usage_cache p False u)"
proof -
  have "page_units p \<le> unat (alu_cache u)" if exact
    using that page_sum_ge [of "cached_weight s" p m] assms by (simp add: usage_counts_def)
  then show ?thesis using assms page_sum_upd [of "stack_weight s" m p "Some (s, False)"]
      page_sum_upd [of "cached_weight s" m p "Some (s, False)"]
    by (auto simp: usage_counts_def usage_cache_def page_units_def word_less_nat_alt unat_sub_u32)
qed

lemma usage_increase_ok:
  assumes "usage_counts exact s m u" "m p = None" "page_sum all_weight m + page_units p < 2 ^ 32" "exact \<longrightarrow> \<not> c"
  shows "usage_counts exact s (m(p \<mapsto> (s, c))) (usage_increase p u)"
proof -
  have "page_sum (stack_weight s) m + page_units p < 2 ^ 32" using stack_le_all [of s m] assms(3) by simp
  then show ?thesis using assms page_sum_upd [of "stack_weight s" m p "Some (s, c)"]
      page_sum_upd [of "cached_weight s" m p "Some (s, c)"]
    by (auto simp: usage_counts_def usage_increase_def page_units_def unat_add_u32)
qed

lemma usage_cache_ok:
  assumes "usage_counts exact s m u" "m p = Some (s, False)" "page_sum all_weight m < 2 ^ 32"
  shows "usage_counts exact s (m(p \<mapsto> (s, True))) (usage_cache p True u)"
proof -
  let ?m = "m(p \<mapsto> (s, True))"
  have "page_sum (cached_weight s) ?m < 2 ^ 32"
    using cached_le_stack [of s ?m] stack_le_all [of s ?m] page_sum_upd [of all_weight m p "Some (s, True)"] assms(2,3) by simp
  then have "page_sum (cached_weight s) m + page_units p < 2 ^ 32"
    using page_sum_upd [of "cached_weight s" m p "Some (s, True)"] assms(2) by simp
  then show ?thesis using assms page_sum_upd [of "stack_weight s" m p "Some (s, True)"]
      page_sum_upd [of "cached_weight s" m p "Some (s, True)"]
    by (auto simp: usage_counts_def usage_cache_def page_units_def unat_add_u32)
qed

section \<open>The operations\<close>

text \<open>The state with a group for the stack.\<close>

definition gr_known :: "hex64 list \<Rightarrow> alloc_group \<Rightarrow> alloc_group" where
  "gr_known s gr =
     (case gr_collision_detector gr s of
        Some h \<Rightarrow> gr
      | None \<Rightarrow> snd (gr_hash s gr)\<lparr>gr_group := AList.update (gr_counter gr + 1) (usage_new s) (gr_group gr)\<rparr>)"

lemma gr_inv_known:
  assumes "gr_inv exact gr m" "unat (gr_counter gr) < 2 ^ 32 - 1"
  shows "gr_inv exact (gr_known s gr) m" "gr_collision_detector (gr_known s gr) s = Some (fst (gr_hash s gr))"
    "unat (gr_counter (gr_known s gr)) \<le> Suc (unat (gr_counter gr))"
proof -
  show "gr_collision_detector (gr_known s gr) s = Some (fst (gr_hash s gr))"
    by (simp add: gr_known_def gr_hash_def split: option.split)
  let ?h = "gr_counter gr + 1"
  have c: "unat ?h = Suc (unat (gr_counter gr))" using assms(2) by (subst unat_add_u32) simp_all
  show "unat (gr_counter (gr_known s gr)) \<le> Suc (unat (gr_counter gr))"
    using c by (simp add: gr_known_def gr_hash_def split: option.split)
  show "gr_inv exact (gr_known s gr) m"
  proof (cases "gr_collision_detector gr s")
    case None
    let ?d = "(gr_collision_detector gr)(s \<mapsto> ?h)"
    have le: "h \<le> gr_counter gr \<Longrightarrow> h \<noteq> ?h \<and> h \<le> ?h" for h using c by (auto simp: word_le_nat_alt)
    have fresh: "gr_collision_detector gr s' = Some h \<Longrightarrow> h \<noteq> ?h \<and> h \<le> ?h" for s' h
      using gr_invD(1) [OF assms(1)] le by blast
    have st: "state_rel ?d p (gr_last_stack gr p) (m p)" for p
      using gr_invD(3) [OF assms(1), of p] None by (fastforce simp: state_rel_def split: option.splits)
    have z: "stack_weight s p (m p) = 0 \<and> cached_weight s p (m p) = 0" for p
      using gr_invD(3) [OF assms(1), of p] None by (auto simp: state_rel_def split: option.splits)
    then have new: "usage_counts exact s m (usage_new s)" by (simp add: usage_counts_def usage_new_def page_sum_def)
    have "\<exists>u. map_of (AList.update ?h (usage_new s) (gr_group gr)) h = Some u \<and> usage_counts exact s' m u"
      if a: "?d s' = Some h" for s' h
    proof (cases "s' = s")
      case True
      then show ?thesis using a new by (simp add: update_conv')
    next
      case False
      then have "gr_collision_detector gr s' = Some h" using a by simp
      then show ?thesis using gr_invD(4) [OF assms(1)] fresh by (simp add: update_conv')
    qed
    moreover have "\<exists>s. ?d s = Some h" if a: "map_of (AList.update ?h (usage_new s) (gr_group gr)) h = Some u" for h u
    proof (cases "h = ?h")
      case True
      then show ?thesis by (intro exI [of _ s]) simp
    next
      case False
      then obtain s' where "gr_collision_detector gr s' = Some h"
        using a gr_invD(5) [OF assms(1), of h u] by (auto simp: update_conv')
      then show ?thesis using None by (intro exI [of _ s']) auto
    qed
    moreover have "index_inj ?d"
      using gr_invD(2) [OF assms(1)] fresh unfolding index_inj_def by (metis fun_upd_apply option.inject)
    moreover have "h \<le> ?h" if "?d s' = Some h" for s' h using that fresh [of s' h] by (cases "s' = s") auto
    ultimately show ?thesis using None st gr_invD(6) [OF assms(1)]
      unfolding gr_inv_def gr_known_def gr_hash_def by (simp add: distinct_update del: fun_upd_apply)
  qed (use assms(1) in \<open>simp add: gr_known_def\<close>)
qed

lemma gr_hash_fresh:
  assumes "gr_inv exact gr m" "unat (gr_counter gr) < 2 ^ 32 - 1" "gr_collision_detector gr s = None"
  shows "map_of (gr_group gr) (gr_counter gr + 1) = None"
proof (rule ccontr)
  assume "map_of (gr_group gr) (gr_counter gr + 1) \<noteq> None"
  then obtain u where "map_of (gr_group gr) (gr_counter gr + 1) = Some u" by blast
  then obtain s' where "gr_collision_detector gr s' = Some (gr_counter gr + 1)" using gr_invD(5) [OF assms(1)] by blast
  then have "gr_counter gr + 1 \<le> gr_counter gr" by (rule gr_invD(1) [OF assms(1)])
  moreover have "unat (gr_counter gr + 1) = Suc (unat (gr_counter gr))" using assms(2) by (subst unat_add_u32) simp_all
  ultimately show False by (simp add: word_le_nat_alt)
qed

lemma gr_known_view:
  assumes "gr_inv exact gr m" "unat (gr_counter gr) < 2 ^ 32 - 1" "gr_hash s gr = (h, gr1)"
  shows "gr_collision_detector gr1 = gr_collision_detector (gr_known s gr)" "gr_counter gr1 = gr_counter (gr_known s gr)"
    "gr_last_stack gr1 = gr_last_stack (gr_known s gr)" "gr_last_stack gr1 = gr_last_stack gr"
    "map_of (gr_group (gr_known s gr)) = (map_of (gr_group gr1))(h \<mapsto> case map_of (gr_group gr1) h of Some u \<Rightarrow> u | None \<Rightarrow> usage_new s)"
    "distinct (map fst (gr_group gr1))"
proof -
  have "map_of (gr_group gr) h \<noteq> None" if "gr_collision_detector gr s = Some h" for h
    using gr_invD(4) [OF assms(1) that] by auto
  then show "map_of (gr_group (gr_known s gr)) = (map_of (gr_group gr1))(h \<mapsto> case map_of (gr_group gr1) h of Some u \<Rightarrow> u | None \<Rightarrow> usage_new s)"
    using assms(3) gr_hash_fresh [OF assms(1,2)]
    by (auto simp: gr_known_def gr_hash_def update_conv' map_upd_triv split: option.splits)
qed (use assms(3) gr_invD(6) [OF assms(1)] in \<open>auto simp: gr_known_def gr_hash_def split: option.splits\<close>)

lemma gr_inv_add:
  assumes "gr_inv exact gk m" "gr_collision_detector gk s = Some h" "m p = None" "exact \<longrightarrow> \<not> c"
    and "page_sum all_weight m + page_units p < 2 ^ 32"
    and "gr_collision_detector gr1 = gr_collision_detector gk" "gr_counter gr1 = gr_counter gk"
    and "gr_last_stack gr1 = gr_last_stack gk" "distinct (map fst (gr_group gr1))"
    and "map_of (gr_group gk) = (map_of (gr_group gr1))(h \<mapsto> case map_of (gr_group gr1) h of Some u \<Rightarrow> u | None \<Rightarrow> usage_new s)"
  shows "gr_inv exact (gr_add p s h c gr1) (m(p \<mapsto> (s, c)))"
proof -
  let ?u = "case map_of (gr_group gr1) h of Some u \<Rightarrow> u | None \<Rightarrow> usage_new s"
  have "usage_counts exact s m ?u" using gr_invD(4) [OF assms(1,2)] assms(10) by simp
  then have u: "usage_counts exact s (m(p \<mapsto> (s, c))) (usage_increase p ?u)"
    using usage_increase_ok [of exact s m _ p c] assms(3-5) by blast
  show ?thesis
    by (rule gr_inv_set [OF assms(1,2), where u = "usage_increase p ?u" and
          st = "Some \<lparr>pst_stack_hash = h, pst_for_cache = c, pst_order = page_order p\<rparr>"])
      (use assms u in \<open>simp_all add: gr_add_def Let_def state_rel_def update_conv' distinct_update\<close>)
qed

text \<open>A page that is allocated by another stack leaves the group of its old stack.\<close>

lemma gr_insert_moved:
  assumes "gr_inv exact gr m" "unat (gr_counter gr) < 2 ^ 32 - 1" "page_sum all_weight m + page_units p < 2 ^ 32"
    and h: "gr_hash s gr = (h, gr1)" and st: "gr_last_stack gr p = Some st" "pst_stack_hash st \<noteq> h" "m p = Some (s0, c0)"
    and e: "exact \<longrightarrow> \<not> c0"
  shows "\<exists>gr'. gr_insert p s gr = Inr gr' \<and> unat (gr_counter gr') \<le> Suc (unat (gr_counter gr)) \<and>
    gr_inv exact gr' (m(p \<mapsto> (s, c0)))"
proof -
  note v = gr_known_view [OF assms(1,2) h]
  note k = gr_inv_known [OF assms(1,2), of s, unfolded h fst_conv]
  let ?hs = "pst_stack_hash st" and ?gk0 = "gr_known s gr"
  have "gr_last_stack ?gk0 p = Some st" using st(1) v by simp
  then obtain s' c' u where p: "m p = Some (s', c')" "gr_collision_detector ?gk0 s' = Some ?hs" "pst_for_cache st = c'"
      "map_of (gr_group ?gk0) ?hs = Some u" "usage_counts exact s' m u"
    by (rule gr_inv_page [OF k(1)])
  have s0: "s' = s0" "c' = c0" using p(1) st(3) by simp_all
  obtain u' where u': "usage_decrease p u = Inr u'" "usage_counts exact s0 (m(p := None)) u'"
    using usage_decrease_ok [OF p(5,1)] e s0 by blast
  let ?gk = "?gk0\<lparr>gr_group := AList.update ?hs u' (gr_group ?gk0), gr_last_stack := (gr_last_stack gr1)(p := None)\<rparr>"
  let ?gr = "gr1\<lparr>gr_group := AList.update ?hs u' (gr_group gr1), gr_last_stack := (gr_last_stack gr1)(p := None)\<rparr>"
  have inv: "gr_inv exact ?gk (m(p := None))"
    by (rule gr_inv_set [OF k(1) p(2), where u = u' and st = None])
      (use p(1) u'(2) s0 v(3) gr_invD(6) [OF k(1)] in \<open>simp_all add: state_rel_def update_conv' distinct_update\<close>)
  have "gr_inv exact (gr_add p s h c0 ?gr) ((m(p := None))(p \<mapsto> (s, c0)))"
  proof (rule gr_inv_add [OF inv])
    show "page_sum all_weight (m(p := None)) + page_units p < 2 ^ 32"
      using page_sum_upd [of all_weight m p None] assms(3) by simp
    show "map_of (gr_group ?gk) = (map_of (gr_group ?gr))(h \<mapsto> case map_of (gr_group ?gr) h of Some u \<Rightarrow> u | None \<Rightarrow> usage_new s)"
      using st(2) by (simp add: v(5) update_conv' fun_upd_twist)
  qed (use k(2) e v st(2) in \<open>simp_all add: distinct_update\<close>)
  moreover have "gr_insert p s gr = Inr (gr_add p s h c0 ?gr)"
    using st v(4,5) p(3,4) s0 u'(1) by (simp add: gr_insert_def h)
  moreover have "gr_counter (gr_add p s h c0 ?gr) = gr_counter gr1" by (simp add: gr_add_def Let_def)
  ultimately show ?thesis using k(3) v(2) by simp
qed

lemma gr_insert_inv:
  assumes "gr_inv exact gr m" "unat (gr_counter gr) < 2 ^ 32 - 1" "page_sum all_weight m + page_units p < 2 ^ 32"
    and "exact \<longrightarrow> (\<forall>s'. m p = Some (s', True) \<longrightarrow> s' = s)"
  shows "\<exists>gr'. gr_insert p s gr = Inr gr' \<and> unat (gr_counter gr') \<le> Suc (unat (gr_counter gr)) \<and>
    gr_inv exact gr' (m(p \<mapsto> (s, case m p of Some (_, c) \<Rightarrow> c | None \<Rightarrow> False)))"
proof -
  obtain h gr1 where h: "gr_hash s gr = (h, gr1)" by (cases "gr_hash s gr")
  note v = gr_known_view [OF assms(1,2) h]
  note k = gr_inv_known [OF assms(1,2), of s, unfolded h fst_conv]
  have c: "gr_counter (gr_add p s h b gr1') = gr_counter gr1'" for b gr1' by (simp add: gr_add_def Let_def)
  show ?thesis
  proof (cases "gr_last_stack gr p")
    case None
    then have m: "m p = None" using gr_inv_free [OF assms(1)] by simp
    have "gr_inv exact (gr_add p s h False gr1) (m(p \<mapsto> (s, False)))"
      by (rule gr_inv_add [OF k(1,2) m _ assms(3) v(1-3,6,5)]) simp
    moreover have "gr_insert p s gr = Inr (gr_add p s h False gr1)" using None v(4) by (simp add: gr_insert_def h)
    ultimately show ?thesis using m k(3) c v(2) by simp
  next
    case (Some st)
    then have st: "gr_last_stack (gr_known s gr) p = Some st" using v by simp
    obtain s0 c0 u where p: "m p = Some (s0, c0)" "gr_collision_detector (gr_known s gr) s0 = Some (pst_stack_hash st)"
        "pst_for_cache st = c0" "map_of (gr_group (gr_known s gr)) (pst_stack_hash st) = Some u" "usage_counts exact s0 m u"
      by (rule gr_inv_page [OF k(1) st])
    show ?thesis
    proof (cases "pst_stack_hash st = h")
      case True
      then have s0: "s0 = s" using gr_invD(2) [OF k(1)] p(2) k(2) unfolding index_inj_def by blast
      have "gr_collision_detector gr s \<noteq> None"
        using gr_invD(3) [OF assms(1), of p] p(1) s0 by (auto simp: state_rel_def)
      then have "gr1 = gr" using h by (auto simp: gr_hash_def)
      then have "gr_insert p s gr = Inr gr" using Some True v(4) by (simp add: gr_insert_def h)
      moreover have "m(p \<mapsto> (s, c0)) = m" using p(1) s0 by auto
      ultimately show ?thesis using assms(1) p(1) by simp
    next
      case False
      then have "s0 \<noteq> s" using p(2) k(2) by auto
      then have "exact \<longrightarrow> \<not> c0" using assms(4) p(1) by (cases c0) auto
      then show ?thesis using gr_insert_moved [OF assms(1-3) h Some False p(1)] p(1) by simp
    qed
  qed
qed

lemma gr_remove_inv:
  assumes "gr_inv exact gr m"
  shows "\<exists>gr'. gr_remove p gr = Inr gr' \<and> gr_counter gr' = gr_counter gr \<and> gr_inv exact gr' (m(p := None))"
proof (cases "gr_last_stack gr p")
  case None
  then have "m p = None" using gr_inv_free [OF assms] by simp
  then have "m(p := None) = m" by auto
  then show ?thesis using None assms by (simp add: gr_remove_def)
next
  case (Some st)
  obtain s c u where p: "m p = Some (s, c)" "gr_collision_detector gr s = Some (pst_stack_hash st)" "pst_for_cache st = c"
      "map_of (gr_group gr) (pst_stack_hash st) = Some u" "usage_counts exact s m u"
    by (rule gr_inv_page [OF assms Some])
  let ?u = "if c then usage_cache p False u else u" and ?m = "m(p \<mapsto> (s, False))"
  have "usage_counts exact s ?m ?u"
  proof (cases c)
    case True
    then show ?thesis using usage_uncache_ok [OF p(5)] p(1) by simp
  next
    case False
    then have "?m = m" using p(1) by auto
    then show ?thesis using p(5) False by simp
  qed
  then obtain u' where u': "usage_decrease p ?u = Inr u'" "usage_counts exact s (?m(p := None)) u'"
    using usage_decrease_ok [of exact s ?m ?u p False] by auto
  let ?gr = "gr\<lparr>gr_group := AList.update (pst_stack_hash st) u' (gr_group gr), gr_last_stack := (gr_last_stack gr)(p := None)\<rparr>"
  have "gr_inv exact ?gr (m(p := None))"
    by (rule gr_inv_set [OF assms p(2), where u = u' and st = None])
      (use p(1) u'(2) gr_invD(6) [OF assms] in \<open>simp_all add: state_rel_def update_conv' distinct_update\<close>)
  moreover have "gr_remove p gr = Inr ?gr" using Some p(3,4) u'(1) by (simp add: gr_remove_def)
  ultimately show ?thesis by simp
qed

text \<open>Leaving the page cache releases the page.\<close>

definition cache_entry :: "bool \<Rightarrow> (hex64 list \<times> bool) option \<Rightarrow> (hex64 list \<times> bool) option" where
  "cache_entry b e = (case e of Some (s, c) \<Rightarrow> if c = b then e else if b then Some (s, True) else None | None \<Rightarrow> None)"

lemma gr_mark_cache_inv:
  assumes "gr_inv exact gr m" "page_sum all_weight m < 2 ^ 32"
  shows "\<exists>gr'. gr_mark_cache p b gr = Inr gr' \<and> gr_counter gr' = gr_counter gr \<and> gr_inv exact gr' (m(p := cache_entry b (m p)))"
proof (cases "gr_last_stack gr p")
  case None
  then have "m p = None" using gr_inv_free [OF assms(1)] by simp
  then have "m(p := cache_entry b (m p)) = m" by (auto simp: cache_entry_def)
  then show ?thesis using None assms(1) by (simp add: gr_mark_cache_def)
next
  case (Some st)
  obtain s c u where p: "m p = Some (s, c)" "gr_collision_detector gr s = Some (pst_stack_hash st)" "pst_for_cache st = c"
      "pst_order st = page_order p" "map_of (gr_group gr) (pst_stack_hash st) = Some u" "usage_counts exact s m u"
    by (rule gr_inv_page [OF assms(1) Some])
  have st: "st\<lparr>pst_for_cache := b\<rparr> = \<lparr>pst_stack_hash = pst_stack_hash st, pst_for_cache = b, pst_order = page_order p\<rparr>"
    using p(4) by (cases st) simp
  consider "c = b" | "c = False" "b = True" | "c = True" "b = False" by (cases b; cases c) simp_all
  then show ?thesis
  proof cases
    case 1
    then have "m(p := cache_entry b (m p)) = m" using p(1) by (auto simp: cache_entry_def)
    then show ?thesis using 1 Some p(3) assms(1) by (simp add: gr_mark_cache_def)
  next
    case 2
    let ?gr = "gr\<lparr>gr_group := AList.update (pst_stack_hash st) (usage_cache p True u) (gr_group gr),
        gr_last_stack := (gr_last_stack gr)(p \<mapsto> st\<lparr>pst_for_cache := True\<rparr>)\<rparr>"
    have "gr_inv exact ?gr (m(p \<mapsto> (s, True)))"
      by (rule gr_inv_set [OF assms(1) p(2), where u = "usage_cache p True u"])
        (use p(1,2) st usage_cache_ok [OF p(6) _ assms(2)] 2 gr_invD(6) [OF assms(1)] in
          \<open>auto simp: state_rel_def update_conv' distinct_update\<close>)
    moreover have "gr_mark_cache p b gr = Inr ?gr"
      using 2 Some p(3,4,5) by (simp add: gr_mark_cache_def page_set_order_same Let_def)
    ultimately show ?thesis using 2 p(1) by (simp add: cache_entry_def)
  next
    case 3
    obtain u' where u': "usage_decrease p (usage_cache p False u) = Inr u'" "usage_counts exact s (m(p := None)) u'"
      using usage_decrease_ok [of exact s "m(p \<mapsto> (s, False))" "usage_cache p False u" p False] usage_uncache_ok [OF p(6)] p(1) 3 by auto
    let ?gr = "gr\<lparr>gr_group := AList.update (pst_stack_hash st) u' (gr_group gr), gr_last_stack := (gr_last_stack gr)(p := None)\<rparr>"
    have "gr_inv exact ?gr (m(p := None))"
      by (rule gr_inv_set [OF assms(1) p(2), where u = u' and st = None])
        (use p(1) u'(2) gr_invD(6) [OF assms(1)] in \<open>simp_all add: state_rel_def update_conv' distinct_update\<close>)
    moreover have "gr_mark_cache p b gr = Inr ?gr"
      using 3 Some p(3,4,5) u'(1) by (simp add: gr_mark_cache_def page_set_order_same Let_def)
    ultimately show ?thesis using 3 p(1) by (simp add: cache_entry_def)
  qed
qed

end
