(* ===== verification/Memprof_Trackers.thy ===== *)
theory Memprof_Trackers
  imports Memprof_Allocation
begin

unbundle bit_operations_syntax

text \<open>
  The traits \<^verbatim>\<open>Tracker\<close> and \<^verbatim>\<open>Reporter\<close>, \<^verbatim>\<open>tezedge-memprof/src/history/abstract_tracker.rs\<close>, as a record of functions with three instances.
  Their common contract is the locale \<open>tracker_laws\<close>: on well-behaved traces a tracker keeps a memory, all pages that are
  allocated or, for the state of allocations, all but those that have left the page cache. The tests of
  \<^verbatim>\<open>history/tests.rs\<close> run the same traces on all of them; here this is a theorem for every trace.
\<close>

section \<open>The interface\<close>

record 's tracker =
  tk_track_alloc :: "u64 \<Rightarrow> page \<Rightarrow> mem_stack \<Rightarrow> hex32 \<Rightarrow> u32 \<Rightarrow> 's \<Rightarrow> panic + 's"
  tk_track_free :: "u64 \<Rightarrow> page \<Rightarrow> u32 \<Rightarrow> 's \<Rightarrow> panic + 's"
  tk_mark_page_cache :: "page \<Rightarrow> bool \<Rightarrow> 's \<Rightarrow> panic + 's"
  tk_short_report :: "'s \<Rightarrow> u64 \<times> u64"

definition aggregator_tracker :: "aggregator tracker" where
  "aggregator_tracker =
     \<lparr>tk_track_alloc = \<lambda>now. ag_tracker_alloc, tk_track_free = \<lambda>now. ag_tracker_free,
      tk_mark_page_cache = ag_tracker_mark, tk_short_report = ag_short_report\<rparr>"

definition allocation_tracker :: "allocation_state tracker" where
  "allocation_tracker =
     \<lparr>tk_track_alloc = \<lambda>now. as_track_alloc, tk_track_free = \<lambda>now. as_track_free,
      tk_mark_page_cache = as_mark_page_cache, tk_short_report = as_short_report\<rparr>"

definition history_tracker :: "'h page_history \<Rightarrow> 'h history tracker" where
  "history_tracker ops =
     \<lparr>tk_track_alloc = hi_track_alloc ops, tk_track_free = \<lambda>now p pid hi. Inr (hi_track_free ops now p pid hi),
      tk_mark_page_cache = hi_mark_page_cache ops, tk_short_report = hi_short_report ops\<rparr>"

datatype track_op =
    Track_Alloc u64 page mem_stack hex32 u32
  | Track_Free u64 page u32
  | Track_Mark page bool

fun track :: "'s tracker \<Rightarrow> track_op \<Rightarrow> 's \<Rightarrow> panic + 's" where
  "track tk (Track_Alloc now p stack flags pid) s = tk_track_alloc tk now p stack flags pid s"
| "track tk (Track_Free now p pid) s = tk_track_free tk now p pid s"
| "track tk (Track_Mark p b) s = tk_mark_page_cache tk p b s"

fun track_all :: "'s tracker \<Rightarrow> track_op list \<Rightarrow> 's \<Rightarrow> panic + 's" where
  "track_all tk [] s = Inr s"
| "track_all tk (op # ops) s = and_then (track tk op s) (track_all tk ops)"

section \<open>Well-behaved traces\<close>

text \<open>
  One process; a frame is allocated when none of its pages is; it is released, marked and unmarked with the order it was allocated
  with; less than four tebibytes.
\<close>

definition pfn_free :: "page_memory \<Rightarrow> page \<Rightarrow> bool" where
  "pfn_free m p \<longleftrightarrow> (\<forall>q. page_pfn q = page_pfn p \<longrightarrow> m q = None)"

definition same_page :: "page_memory \<Rightarrow> page \<Rightarrow> bool" where
  "same_page m p \<longleftrightarrow> m p \<noteq> None \<or> pfn_free m p"

definition fits :: "page_memory \<Rightarrow> bool" where
  "fits m \<longleftrightarrow> page_sum all_weight m < 2 ^ 30"

fun page_step :: "track_op \<Rightarrow> page_memory \<Rightarrow> page_memory" where
  "page_step (Track_Alloc now p stack flags pid) m =
     m(p := (case stack_ips stack of Inr s \<Rightarrow> Some (s, False) | Inl _ \<Rightarrow> None))"
| "page_step (Track_Free now p pid) m = m(p := None)"
| "page_step (Track_Mark p b) m = m(p := map_option (\<lambda>(s, _). (s, b)) (m p))"

fun step_ok :: "u32 \<Rightarrow> track_op \<Rightarrow> page_memory \<Rightarrow> bool" where
  "step_ok pid (Track_Alloc now p stack flags pid') m \<longleftrightarrow>
     pid' = pid \<and> (\<exists>s. stack_ips stack = Inr s) \<and> flags AND event_based_cache_flag = 0 \<and> pfn_free m p \<and>
     fits (page_step (Track_Alloc now p stack flags pid') m)"
| "step_ok pid (Track_Free now p pid') m \<longleftrightarrow> pid' = pid \<and> now \<noteq> - 1 \<and> same_page m p"
| "step_ok pid (Track_Mark p b) m \<longleftrightarrow> same_page m p"

fun trace_ok :: "u32 \<Rightarrow> track_op list \<Rightarrow> page_memory \<Rightarrow> bool" where
  "trace_ok pid [] m \<longleftrightarrow> True"
| "trace_ok pid (op # ops) m \<longleftrightarrow> step_ok pid op m \<and> trace_ok pid ops (page_step op m)"

text \<open>What the state of allocations keeps of the memory: a page that is taken out of the page cache is dropped.\<close>

fun kept_step :: "track_op \<Rightarrow> page_memory \<Rightarrow> page_memory" where
  "kept_step (Track_Mark p b) m = m(p := cache_entry b (m p))"
| "kept_step op m = page_step op m"

lemma page_sum_le: "k \<subseteq>\<^sub>m m \<Longrightarrow> page_sum all_weight k \<le> page_sum all_weight m"
  unfolding page_sum_def by (rule sum_mono) (auto simp: all_weight_def map_le_def dom_def split: option.splits)

lemma fits_le: "k \<subseteq>\<^sub>m m \<Longrightarrow> fits m \<Longrightarrow> fits k"
  using page_sum_le [of k m] by (simp add: fits_def)

lemma map_le_None: "k \<subseteq>\<^sub>m m \<Longrightarrow> m p = None \<Longrightarrow> k p = None"
  by (metis domIff map_le_def)

lemma map_le_upd: "k \<subseteq>\<^sub>m m \<Longrightarrow> (\<And>e. k p = Some e \<Longrightarrow> m p = Some e \<Longrightarrow> x = y \<or> x = None) \<Longrightarrow> (k p = None \<Longrightarrow> x = y \<or> x = None) \<Longrightarrow>
    k(p := x) \<subseteq>\<^sub>m m(p := y)"
  by (cases "k p") (auto simp: map_le_def dom_def)

lemma page_step_le: "k \<subseteq>\<^sub>m m \<Longrightarrow> page_step op k \<subseteq>\<^sub>m page_step op m"
  by (cases op) (auto intro!: map_le_upd)

lemma kept_step_le: "k \<subseteq>\<^sub>m m \<Longrightarrow> kept_step op k \<subseteq>\<^sub>m page_step op m"
  by (cases op) (auto intro!: map_le_upd simp: cache_entry_def split: if_splits)

text \<open>No frame has two pages.\<close>

definition one_page :: "page_memory \<Rightarrow> bool" where
  "one_page m \<longleftrightarrow> inj_on page_pfn (dom m)"

lemma one_page_step: "one_page m \<Longrightarrow> step_ok pid op m \<Longrightarrow> one_page (page_step op m)"
  by (cases op) (auto simp: one_page_def inj_on_def pfn_free_def split: if_splits)

lemma same_page_le:
  assumes "k \<subseteq>\<^sub>m m" "one_page m" "same_page m p"
  shows "same_page k p"
proof (cases "k p")
  case None
  have "k q = None" if "page_pfn q = page_pfn p" for q
  proof (rule ccontr)
    assume "k q \<noteq> None"
    then have "m q \<noteq> None" using map_le_None [OF assms(1), of q] by metis
    moreover from this have "m p \<noteq> None" using assms(3) that by (auto simp: same_page_def pfn_free_def)
    ultimately have "q = p" using inj_onD [OF assms(2) [unfolded one_page_def] that] by (simp add: domIff)
    then show False using None \<open>k q \<noteq> None\<close> by simp
  qed
  then show ?thesis by (simp add: same_page_def pfn_free_def)
qed (simp add: same_page_def)

lemma step_ok_le:
  assumes "k \<subseteq>\<^sub>m m" "one_page m" "step_ok pid op m"
  shows "step_ok pid op k"
proof (cases op)
  case (Track_Alloc now p stack flags pid')
  have "pfn_free k p" using assms(3) Track_Alloc map_le_None [OF assms(1)] by (simp add: pfn_free_def)
  moreover have "fits (page_step op k)"
    using fits_le [OF page_step_le [OF assms(1)], of op] assms(3) Track_Alloc by simp
  ultimately show ?thesis using Track_Alloc assms(3) by simp
next
  case (Track_Free now p pid')
  then show ?thesis using assms(3) same_page_le [OF assms(1,2), of p] by simp
next
  case (Track_Mark p b)
  then show ?thesis using assms(3) same_page_le [OF assms(1,2), of p] by simp
qed

text \<open>
  \<open>keep\<close> says what the tracker keeps of the memory; \<open>rel n s k\<close>: after \<open>n\<close> operations the state \<open>s\<close> stands for the memory \<open>k\<close>.
\<close>

locale tracker_laws =
  fixes tk :: "'s tracker" and init :: 's and keep :: "track_op \<Rightarrow> page_memory \<Rightarrow> page_memory"
    and rel :: "u32 \<Rightarrow> nat \<Rightarrow> 's \<Rightarrow> page_memory \<Rightarrow> bool"
  assumes keep_le: "k \<subseteq>\<^sub>m m \<Longrightarrow> keep op k \<subseteq>\<^sub>m page_step op m"
    and rel_init: "rel pid 0 init Map.empty"
    and rel_step: "rel pid n s k \<Longrightarrow> n < 2 ^ 32 - 1 \<Longrightarrow> fits k \<Longrightarrow> step_ok pid op k \<Longrightarrow>
      \<exists>s'. track tk op s = Inr s' \<and> rel pid (Suc n) s' (keep op k)"
    and rel_report: "rel pid n s k \<Longrightarrow> fits k \<Longrightarrow> tk_short_report tk s = (memory_kib k, cache_kib k)"
begin

lemma fits_step:
  assumes "fits m" "step_ok pid op m"
  shows "fits (page_step op m)"
proof (cases op)
  case (Track_Free now p pid')
  then show ?thesis using assms page_sum_upd [of all_weight m p None] by (simp add: fits_def)
next
  case (Track_Mark p b)
  then show ?thesis using assms page_sum_upd [of all_weight m p "map_option (\<lambda>(s, _). (s, b)) (m p)"]
    by (cases "m p") (auto simp: fits_def)
qed (use assms in simp)

lemma track_all_rel:
  assumes "rel pid n s k" "k \<subseteq>\<^sub>m m" "one_page m" "fits m" "trace_ok pid ops m" "n + length ops < 2 ^ 32"
  shows "\<exists>s'. track_all tk ops s = Inr s' \<and> rel pid (n + length ops) s' (fold keep ops k) \<and>
    fold keep ops k \<subseteq>\<^sub>m fold page_step ops m \<and> fits (fold page_step ops m)"
  using assms
proof (induction ops arbitrary: n s k m)
  case (Cons op ops)
  have op: "n < 2 ^ 32 - 1" "step_ok pid op m" using Cons.prems by simp_all
  then obtain s' where s': "track tk op s = Inr s'" "rel pid (Suc n) s' (keep op k)"
    using rel_step [OF Cons.prems(1) op(1) fits_le [OF Cons.prems(2,4)] step_ok_le [OF Cons.prems(2,3)]] by blast
  show ?case
    using Cons.IH [OF s'(2) keep_le [OF Cons.prems(2)] one_page_step [OF Cons.prems(3) op(2)] fits_step [OF Cons.prems(4) op(2)]]
      s'(1) Cons.prems(5,6) by simp
qed auto

lemma track_report:
  assumes "trace_ok pid ops Map.empty" "length ops < 2 ^ 32"
  shows "\<exists>s. track_all tk ops init = Inr s \<and> fold keep ops Map.empty \<subseteq>\<^sub>m fold page_step ops Map.empty \<and>
    tk_short_report tk s = (memory_kib (fold keep ops Map.empty), cache_kib (fold keep ops Map.empty))"
proof -
  have "fits Map.empty" "one_page Map.empty" by (simp_all add: fits_def page_sum_def one_page_def)
  then obtain s where "track_all tk ops init = Inr s" "rel pid (length ops) s (fold keep ops Map.empty)"
      "fold keep ops Map.empty \<subseteq>\<^sub>m fold page_step ops Map.empty" "fits (fold page_step ops Map.empty)"
    using track_all_rel [OF rel_init _ _ _ assms(1)] assms(2) by auto
  then show ?thesis using rel_report fits_le by blast
qed

end

section \<open>The history\<close>

context page_history_laws
begin

lemma history_step:
  assumes "hist_inv hi m" "step_ok pid op m"
  shows "\<exists>hi'. track (history_tracker ops) op hi = Inr hi' \<and> hist_inv hi' (page_step op m)"
proof (cases op)
  case (Track_Alloc now p stack flags pid')
  then obtain s where s: "stack_ips stack = Inr s" "m p = None" "flags AND event_based_cache_flag = 0"
    using assms(2) by (auto simp: pfn_free_def)
  then show ?thesis using hist_alloc [OF assms(1), of now p s flags] Track_Alloc
    by (simp add: history_tracker_def hi_track_alloc_def)
next
  case (Track_Free now p pid')
  then show ?thesis using hist_free [OF assms(1), of now p pid'] assms(2) by (simp add: history_tracker_def)
next
  case (Track_Mark p b)
  then show ?thesis using hist_mark [OF assms(1), of p b] by (simp add: history_tracker_def)
qed

end

interpretation event_last_tracker: tracker_laws
  "history_tracker event_last_history" history_default page_step "\<lambda>pid n. event_last.hist_inv"
proof unfold_locales
  show "page_step op k \<subseteq>\<^sub>m page_step op m" if "k \<subseteq>\<^sub>m m" for op k m using that by (rule page_step_le)
next
  show "event_last.hist_inv history_default Map.empty" by (rule event_last.hist_inv_default)
next
  fix pid op s m assume "event_last.hist_inv s m" "step_ok pid op m"
  then show "\<exists>s'. track (history_tracker event_last_history) op s = Inr s' \<and> event_last.hist_inv s' (page_step op m)"
    by (rule event_last.history_step)
next
  fix s m assume "event_last.hist_inv s m"
  then show "tk_short_report (history_tracker event_last_history) s = (memory_kib m, cache_kib m)"
    using event_last.hist_report by (simp add: history_tracker_def)
qed

section \<open>The allocation state\<close>

lemma unat_page_number: "unat (page_number p) = 2 ^ unat (drop_bit 28 (pg_inner p))"
proof -
  have "unat (pg_inner p) < 2 ^ 32" using unsigned_less [of "pg_inner p"] by simp
  moreover have "unat (drop_bit 28 (pg_inner p)) = unat (pg_inner p) div 2 ^ 28"
    by (simp only: unat_drop_bit_eq) (simp add: drop_bit_eq_div)
  ultimately have "unat (drop_bit 28 (pg_inner p)) < 2 ^ 4" by simp
  then have "(2 :: nat) ^ unat (drop_bit 28 (pg_inner p)) < 2 ^ 32" by (intro power_strict_increasing) simp_all
  then have "unat (word_of_nat (2 ^ unat (drop_bit 28 (pg_inner p))) :: u32) = 2 ^ unat (drop_bit 28 (pg_inner p))"
    by (rule unat_of_nat_u32)
  then show ?thesis by (simp add: page_number_def push_bit_eq_mult)
qed

lemma page_size_units: "page_size_kib p = of_nat (4 * page_units p)"
  unfolding page_units_def unat_page_number by (simp add: page_size_kib_def push_bit_eq_mult)

lemma memory_kib_units: "memory_kib m = of_nat (4 * page_sum all_weight m)"
proof -
  have "page_sum all_weight m = (\<Sum>p | m p \<noteq> None. page_units p)"
    unfolding page_sum_def by (rule sum.mono_neutral_cong_right) (auto simp: finite_page all_weight_def split: option.splits)
  then show ?thesis by (simp add: memory_kib_def page_size_units sum_distrib_left)
qed

definition cache_all_weight :: "page \<Rightarrow> (hex64 list \<times> bool) option \<Rightarrow> nat" where
  "cache_all_weight p e = (case e of Some (s, c) \<Rightarrow> if c then page_units p else 0 | None \<Rightarrow> 0)"

lemma cache_kib_units: "cache_kib m = of_nat (4 * page_sum cache_all_weight m)"
proof -
  have "page_sum cache_all_weight m = (\<Sum>p | \<exists>s. m p = Some (s, True). page_units p)"
    unfolding page_sum_def
    by (rule sum.mono_neutral_cong_right) (auto simp: finite_page cache_all_weight_def split: option.splits)
  then show ?thesis by (simp add: cache_kib_def page_size_units sum_distrib_left)
qed

text \<open>The groups partition the pages.\<close>

lemma sum_groups:
  assumes "distinct ss" "\<And>p s c. m p = Some (s, c) \<Longrightarrow> s \<in> set ss"
  shows "(\<Sum>s \<leftarrow> ss. page_sum (stack_weight s) m) = page_sum all_weight m"
    and "(\<Sum>s \<leftarrow> ss. page_sum (cached_weight s) m) = page_sum cache_all_weight m"
proof -
  have *: "(\<Sum>s \<leftarrow> ss. page_sum (f s) m) = page_sum g m" if "\<And>p. (\<Sum>s \<in> set ss. f s p (m p)) = g p (m p)"
    for f :: "hex64 list \<Rightarrow> page \<Rightarrow> (hex64 list \<times> bool) option \<Rightarrow> nat" and g
    unfolding sum_list_distinct_conv_sum_set [OF assms(1)] page_sum_def by (subst sum.swap) (simp add: that)
  show "(\<Sum>s \<leftarrow> ss. page_sum (stack_weight s) m) = page_sum all_weight m"
  proof (rule *)
    fix p show "(\<Sum>s \<in> set ss. stack_weight s p (m p)) = all_weight p (m p)"
      using assms(2) [of p] by (cases "m p") auto
  qed
  show "(\<Sum>s \<leftarrow> ss. page_sum (cached_weight s) m) = page_sum cache_all_weight m"
  proof (rule *)
    fix p
    have "(\<Sum>s \<in> set ss. if s' = s \<and> c then page_units p else 0) = (if c then page_units p else 0)" if "s' \<in> set ss" for s' c
      using that by (cases c) simp_all
    then show "(\<Sum>s \<in> set ss. cached_weight s p (m p)) = cache_all_weight p (m p)"
      using assms(2) [of p] by (cases "m p") (auto simp: cache_all_weight_def)
  qed
qed

definition as_inv :: "u32 \<Rightarrow> nat \<Rightarrow> allocation_state \<Rightarrow> page_memory \<Rightarrow> bool" where
  "as_inv pid n a m \<longleftrightarrow>
     gr_inv True (as_group a) m \<and> unat (gr_counter (as_group a)) \<le> n \<and> (as_pid a = Some pid \<or> as_pid a = None \<and> m = Map.empty)"

lemma as_step:
  assumes "as_inv pid n a m" "n < 2 ^ 32 - 1" "fits m" "step_ok pid op m"
  shows "\<exists>a'. track allocation_tracker op a = Inr a' \<and> as_inv pid (Suc n) a' (kept_step op m)"
proof (cases op)
  case (Track_Alloc now p stack flags pid')
  then obtain s where s: "stack_ips stack = Inr s" "m p = None" "pid' = pid" "fits (m(p \<mapsto> (s, False)))"
    using assms(4) by (auto simp: pfn_free_def)
  have u: "page_sum all_weight m + page_units p < 2 ^ 32"
    using page_sum_upd [of all_weight m p "Some (s, False)"] s(2,4) by (simp add: fits_def)
  obtain gr where gr: "gr_insert p s (as_group a) = Inr gr" "unat (gr_counter gr) \<le> Suc (unat (gr_counter (as_group a)))"
      "gr_inv True gr (m(p \<mapsto> (s, False)))"
    using gr_insert_inv [of True "as_group a" m p s] u s(2) assms(1,2) by (auto simp: as_inv_def)
  then show ?thesis using s assms(1) Track_Alloc by (simp add: allocation_tracker_def as_track_alloc_def as_inv_def)
next
  case (Track_Free now p pid')
  obtain gr where "gr_remove p (as_group a) = Inr gr" "gr_counter gr = gr_counter (as_group a)" "gr_inv True gr (m(p := None))"
    using gr_remove_inv assms(1) unfolding as_inv_def by blast
  then show ?thesis using Track_Free assms(1,4) by (auto simp: allocation_tracker_def as_track_free_def as_inv_def)
next
  case (Track_Mark p b)
  obtain gr where "gr_mark_cache p b (as_group a) = Inr gr" "gr_counter gr = gr_counter (as_group a)"
      "gr_inv True gr (m(p := cache_entry b (m p)))"
    using gr_mark_cache_inv [of True "as_group a" m p b] assms(1,3) by (auto simp: as_inv_def fits_def)
  then show ?thesis using Track_Mark assms(1)
    by (auto simp: allocation_tracker_def as_mark_page_cache_def as_inv_def cache_entry_def)
qed

lemma gr_inv_stacks:
  assumes "gr_inv exact gr m"
  shows "distinct (map (\<lambda>(_, u). alu_stack u) (gr_group gr))"
    and "m p = Some (s, c) \<Longrightarrow> s \<in> set (map (\<lambda>(_, u). alu_stack u) (gr_group gr))"
    and "(h, u) \<in> set (gr_group gr) \<Longrightarrow> usage_counts exact (alu_stack u) m u"
proof -
  have u: "gr_collision_detector gr (alu_stack u) = Some h \<and> usage_counts exact (alu_stack u) m u"
    if a: "(h, u) \<in> set (gr_group gr)" for h u
  proof -
    have mu: "map_of (gr_group gr) h = Some u" using a gr_invD(6) [OF assms] by simp
    then obtain s where "gr_collision_detector gr s = Some h" using gr_invD(5) [OF assms] by blast
    then show ?thesis using gr_invD(4) [OF assms, of s h] mu by (auto simp: usage_counts_def)
  qed
  then show "(h, u) \<in> set (gr_group gr) \<Longrightarrow> usage_counts exact (alu_stack u) m u" by blast
  have "inj_on (\<lambda>(_, u). alu_stack u) (set (gr_group gr))"
  proof (rule inj_onI)
    fix x y assume a: "x \<in> set (gr_group gr)" "y \<in> set (gr_group gr)" "(\<lambda>(_, u). alu_stack u) x = (\<lambda>(_, u). alu_stack u) y"
    then have "fst x = fst y" using u [of "fst x" "snd x"] u [of "fst y" "snd y"] by (simp add: split_def)
    then show "x = y" using a(1,2) gr_invD(6) [OF assms] by (metis eq_key_imp_eq_value prod.collapse)
  qed
  moreover have "distinct (gr_group gr)" using gr_invD(6) [OF assms] by (simp add: distinct_map)
  ultimately show "distinct (map (\<lambda>(_, u). alu_stack u) (gr_group gr))" by (simp add: distinct_map)
  show "s \<in> set (map (\<lambda>(_, u). alu_stack u) (gr_group gr))" if a: "m p = Some (s, c)"
  proof -
    obtain h where "gr_collision_detector gr s = Some h"
      using gr_invD(3) [OF assms, of p] a by (auto simp: state_rel_def)
    then obtain u where "map_of (gr_group gr) h = Some u" "alu_stack u = s"
      using gr_invD(4) [OF assms] by (auto simp: usage_counts_def)
    then show ?thesis by (force dest: map_of_SomeD)
  qed
qed

lemma ucast_quadruple: "unat (x :: u32) < 2 ^ 30 \<Longrightarrow> (ucast (x * 4) :: u64) = of_nat (4 * unat x)"
proof -
  assume "unat x < 2 ^ 30"
  then have "unat (x * 4) = 4 * unat x" by (simp add: unat_word_ariths)
  then show ?thesis by (metis of_nat_unat)
qed

lemma as_report:
  assumes "as_inv pid n a m" "fits m"
  shows "as_short_report a = (memory_kib m, cache_kib m)"
proof -
  let ?g = "gr_group (as_group a)" and ?ss = "map (\<lambda>(_, u). alu_stack u) (gr_group (as_group a))"
  have inv: "gr_inv True (as_group a) m" using assms(1) by (simp add: as_inv_def)
  have f: "fold (\<lambda>(_, u) (node, cache). (node + ucast (alu_node u * 4), cache + ucast (alu_cache u * 4))) g (v, c) =
      (v + of_nat (4 * (\<Sum>s \<leftarrow> map (\<lambda>(_, u). alu_stack u) g. page_sum (stack_weight s) m)),
       c + of_nat (4 * (\<Sum>s \<leftarrow> map (\<lambda>(_, u). alu_stack u) g. page_sum (cached_weight s) m)) :: u64)"
    if "set g \<subseteq> set ?g" for g and v c :: u64
    using that
  proof (induction g arbitrary: v c)
    case (Cons hu g)
    obtain h u where hu: "hu = (h, u)" by (cases hu)
    have k: "usage_counts True (alu_stack u) m u" using gr_inv_stacks(3) [OF inv] Cons.prems hu by auto
    then have "unat (alu_node u) < 2 ^ 30" "unat (alu_cache u) < 2 ^ 30"
      using stack_le_all [of "alu_stack u" m] cached_le_stack [of "alu_stack u" m] assms(2)
      by (simp_all add: usage_counts_def fits_def)
    note q = this [THEN ucast_quadruple]
    show ?case using Cons k q by (simp add: hu usage_counts_def algebra_simps)
  qed simp
  show ?thesis unfolding as_short_report_def using f [of ?g 0 0] sum_groups [OF gr_inv_stacks(1,2) [OF inv]]
    by (simp add: memory_kib_units cache_kib_units)
qed

interpretation allocation_tracker: tracker_laws allocation_tracker as_default kept_step as_inv
proof unfold_locales
  show "as_inv pid 0 as_default Map.empty" for pid
    using gr_inv_default by (simp add: as_inv_def as_default_def) (simp add: gr_default_def)
  show "tk_short_report allocation_tracker s = (memory_kib m, cache_kib m)" if "as_inv pid n s m" "fits m" for pid n s m
    using as_report [OF that] by (simp add: allocation_tracker_def)
qed (rule kept_step_le as_step; assumption)+

section \<open>The aggregator\<close>

text \<open>The aggregator knows a page by its frame number, with the order it was allocated with.\<close>

definition frames_rel :: "memory \<Rightarrow> page_memory \<Rightarrow> bool" where
  "frames_rel M m \<longleftrightarrow>
     (\<forall>p s c. m p = Some (s, c) \<longrightarrow> M (page_pfn p) = Some (s, page_order p, c)) \<and>
     (\<forall>q s k c. M q = Some (s, k, c) \<longrightarrow> (\<exists>p. page_pfn p = q \<and> m p = Some (s, c)))"

definition ag_rel :: "nat \<Rightarrow> aggregator \<Rightarrow> page_memory \<Rightarrow> bool" where
  "ag_rel n ag m \<longleftrightarrow> (\<exists>n' M. n' \<le> n \<and> refines n' ag M \<and> frames_rel M m)"

lemma ag_relI: "n' \<le> n \<Longrightarrow> refines n' ag M \<Longrightarrow> frames_rel M m \<Longrightarrow> ag_rel n ag m"
  unfolding ag_rel_def by blast

lemma frames_relE:
  assumes "frames_rel M m" "M q = Some (s, k, c)"
  obtains p where "page_pfn p = q" "m p = Some (s, c)"
  using assms unfolding frames_rel_def by blast

lemma page_eqI: "page_pfn p = page_pfn q \<Longrightarrow> page_order p = page_order q \<Longrightarrow> p = q"
  using page_set_order_same [of p] page_set_order_same [of q] by (cases p, cases q) (simp add: page_set_order_def page_pfn_def)

lemma frames_same:
  assumes "frames_rel M m" "m p \<noteq> None" "m p' \<noteq> None" "page_pfn p = page_pfn p'"
  shows "p = p'"
proof (rule page_eqI [OF assms(4)])
  obtain s c s' c' where "m p = Some (s, c)" "m p' = Some (s', c')" using assms(2,3) by auto
  then have "Some (s, page_order p, c) = Some (s', page_order p', c')" using assms(1,4) unfolding frames_rel_def by metis
  then show "page_order p = page_order p'" by simp
qed

lemma frames_rel_free: "frames_rel M m \<Longrightarrow> pfn_free m p \<Longrightarrow> M (page_pfn p) = None"
  by (cases "M (page_pfn p)") (fastforce simp: frames_rel_def pfn_free_def)+

text \<open>Changing the entry of a page that is alone in its frame.\<close>

lemma frames_rel_upd:
  assumes "frames_rel M m" "same_page m p"
  shows "frames_rel (M(page_pfn p := map_option (\<lambda>(s, c). (s, page_order p, c)) e)) (m(p := e))"
proof -
  have alone: "m p' = None" if "page_pfn p' = page_pfn p" "p' \<noteq> p" for p'
    using assms(2) frames_same [OF assms(1), of p p'] that unfolding same_page_def pfn_free_def by metis
  show ?thesis unfolding frames_rel_def
  proof (intro conjI allI impI)
    fix p' s c assume a: "(m(p := e)) p' = Some (s, c)"
    show "(M(page_pfn p := map_option (\<lambda>(s, c). (s, page_order p, c)) e)) (page_pfn p') = Some (s, page_order p', c)"
    proof (cases "p' = p")
      case False
      then have "m p' = Some (s, c)" using a by simp
      then show ?thesis using assms(1) alone [of p'] False unfolding frames_rel_def by auto
    qed (use a in simp)
  next
    fix q s k c assume a: "(M(page_pfn p := map_option (\<lambda>(s, c). (s, page_order p, c)) e)) q = Some (s, k, c)"
    show "\<exists>p'. page_pfn p' = q \<and> (m(p := e)) p' = Some (s, c)"
    proof (cases "q = page_pfn p")
      case True
      then show ?thesis using a by (intro exI [of _ p]) auto
    next
      case False
      then have "M q = Some (s, k, c)" using a by simp
      then obtain p' where "page_pfn p' = q" "m p' = Some (s, c)" by (rule frames_relE [OF assms(1)])
      then show ?thesis using False by (intro exI [of _ p']) auto
    qed
  qed
qed

lemma ag_rel_step:
  assumes "ag_rel n ag m" "n < 2 ^ 32 - 1" "step_ok pid op m"
  shows "\<exists>ag'. track aggregator_tracker op ag = Inr ag' \<and> ag_rel (Suc n) ag' (page_step op m)"
proof -
  obtain n' M where M: "n' \<le> n" "refines n' ag M" "frames_rel M m" using assms(1) by (auto simp: ag_rel_def)
  show ?thesis
  proof (cases op)
    case (Track_Alloc now p stack flags pid')
    then obtain s where s: "stack_ips stack = Inr s" "pfn_free m p" using assms(3) by auto
    obtain ag' n'' where "ag_alloc (page_pfn p) (page_order p) s ag = Inr ag'" "n'' \<le> Suc n'"
        "refines n'' ag' (M(page_pfn p \<mapsto> (s, page_order p, False)))"
      using refines_alloc_new [OF M(2) _ frames_rel_free [OF M(3) s(2)]] M(1) assms(2) by fastforce
    moreover have "frames_rel (M(page_pfn p \<mapsto> (s, page_order p, False))) (m(p \<mapsto> (s, False)))"
      using frames_rel_upd [OF M(3), of p "Some (s, False)"] s(2) by (simp add: same_page_def)
    ultimately show ?thesis using Track_Alloc s(1) M(1)
      by (simp add: aggregator_tracker_def ag_tracker_alloc_def ag_track_alloc_def ag_relI [of n''])
  next
    case (Track_Free now p pid')
    obtain ag' where "ag_track_free (page_pfn p) ag = Inr ag'" "refines n' ag' (M(page_pfn p := None))"
      using refines_free [OF M(2)] by blast
    moreover have "frames_rel (M(page_pfn p := None)) (m(p := None))"
      using frames_rel_upd [OF M(3), of p None] assms(3) Track_Free by simp
    ultimately show ?thesis using Track_Free M(1)
      by (simp add: aggregator_tracker_def ag_tracker_free_def ag_relI [of n'])
  next
    case (Track_Mark p b)
    have sp: "same_page m p" using assms(3) Track_Mark by simp
    obtain ag' where ag': "ag_mark_cache (page_pfn p) b ag = Inr ag'" "refines n' ag' (mem_step (Op_Cache (page_pfn p) b) M)"
      using refines_cache [OF M(2)] by blast
    have "map_option (\<lambda>(path, order, _). (path, order, b)) (M (page_pfn p)) =
        map_option (\<lambda>(s, c). (s, page_order p, c)) (map_option (\<lambda>(s, _). (s, b)) (m p))"
      using M(3) sp frames_rel_free [OF M(3)] by (cases "m p") (auto simp: frames_rel_def same_page_def)
    then have "frames_rel (mem_step (Op_Cache (page_pfn p) b) M) (m(p := map_option (\<lambda>(s, _). (s, b)) (m p)))"
      using frames_rel_upd [OF M(3) sp] by (simp only: mem_step.simps)
    then have "ag_rel (Suc n) ag' (m(p := map_option (\<lambda>(s, _). (s, b)) (m p)))"
      by (intro ag_relI [OF _ ag'(2)]) (use M(1) in simp_all)
    then show ?thesis using ag'(1) Track_Mark by (simp add: aggregator_tracker_def ag_tracker_mark_def)
  qed
qed

text \<open>Sums over frames and sums over pages.\<close>

lemma pages_count_order: "pages_count (page_order p) = word_of_nat (page_units p)"
proof -
  have "unat (pg_inner p) < 2 ^ 32" using unsigned_less [of "pg_inner p"] by simp
  moreover have d: "unat (drop_bit 28 (pg_inner p)) = unat (pg_inner p) div 2 ^ 28"
    by (simp only: unat_drop_bit_eq) (simp add: drop_bit_eq_div)
  ultimately have "unat (page_order p) = unat (drop_bit 28 (pg_inner p))" "unat (drop_bit 28 (pg_inner p)) < 32"
    by (simp_all add: page_order_def unsigned_ucast_eq d take_bit_nat_eq_self del: unat_drop_bit_eq)
  then show ?thesis by (simp add: pages_count_def page_units_def page_number_def)
qed

lemma sum_frames:
  assumes "frames_rel M m" "F None = 0" "\<And>p. g p None = 0"
    and "\<And>p s c. m p = Some (s, c) \<Longrightarrow> F (Some (s, page_order p, c)) = word_of_nat (g p (Some (s, c)))"
  shows "(\<Sum>q \<in> UNIV. F (M q)) = (word_of_nat (page_sum g m) :: u32)"
proof -
  let ?D = "{p. m p \<noteq> None}"
  have inj: "inj_on page_pfn ?D" using frames_same [OF assms(1)] by (intro inj_onI) auto
  have zero: "F (M q) = 0" if "q \<notin> page_pfn ` ?D" for q
  proof (cases "M q")
    case (Some e)
    then obtain p s c where "page_pfn p = q" "m p = Some (s, c)" using frames_relE [OF assms(1)] by (cases e) metis
    then show ?thesis using that by auto
  qed (simp add: assms(2))
  have "(\<Sum>q \<in> UNIV. F (M q)) = (\<Sum>q \<in> page_pfn ` ?D. F (M q))"
    by (rule sum.mono_neutral_right) (use zero in auto)
  also have "\<dots> = (\<Sum>p \<in> ?D. F (M (page_pfn p)))" unfolding sum.reindex [OF inj] comp_def ..
  also have "\<dots> = (\<Sum>p \<in> ?D. word_of_nat (g p (m p)))"
    by (rule sum.cong) (use assms(1,4) in \<open>auto simp: frames_rel_def\<close>)
  also have "\<dots> = word_of_nat (\<Sum>p \<in> ?D. g p (m p))" by simp
  also have "(\<Sum>p \<in> ?D. g p (m p)) = page_sum g m"
  proof -
    have "g p (m p) = 0" if "p \<notin> ?D" for p using that assms(3) [of p] by (cases "m p") simp_all
    then show ?thesis unfolding page_sum_def by (intro sum.mono_neutral_left) (auto simp: finite_page)
  qed
  finally show ?thesis .
qed

lemma ag_rel_report:
  assumes "ag_rel n ag m" "fits m"
  shows "ag_short_report ag = (memory_kib m, cache_kib m)"
proof -
  obtain n' M where M: "refines n' ag M" "frames_rel M m" using assms(1) by (auto simp: ag_rel_def)
  have pages: "mem_pages M s = word_of_nat (page_sum (stack_weight s) m)" for s
    unfolding mem_pages_def by (rule sum_frames [OF M(2)]) (simp_all add: weights pages_count_order)
  have cache: "cache_pages M s = word_of_nat (page_sum (cached_weight s) m)" for s
    unfolding cache_pages_def by (rule sum_frames [OF M(2)]) (simp_all add: weights pages_count_order)
  have small: "page_sum (stack_weight s) m < 2 ^ 30" "page_sum (cached_weight s) m < 2 ^ 30" for s
    using stack_le_all [of s m] cached_le_stack [of s m] assms(2) by (simp_all add: fits_def)
  have word: "ucast (word_of_nat k :: u32) * 4 = (word_of_nat (4 * k) :: u64)" if "k < 2 ^ 30" for k
  proof -
    have "unat (word_of_nat k :: u32) = k" using that by (intro unat_of_nat_u32) simp
    then have "(ucast (word_of_nat k :: u32) :: u64) = word_of_nat k" by (metis of_nat_unat)
    then show ?thesis by simp
  qed
  let ?path = "\<lambda>(v, c, path). path"
  have f: "fold (\<lambda>(v, c, _) (s, t). (s + v, t + c)) es (v, c) =
      (v + of_nat (4 * (\<Sum>s \<leftarrow> map ?path es. page_sum (stack_weight s) m)),
       c + of_nat (4 * (\<Sum>s \<leftarrow> map ?path es. page_sum (cached_weight s) m)))"
    if "set es \<subseteq> set (ag_report ag)" for es v c
    using that
  proof (induction es arbitrary: v c)
    case (Cons e es)
    obtain a b s where e: "e = (a, b, s)" by (cases e)
    have "a = word_of_nat (4 * page_sum (stack_weight s) m)" "b = word_of_nat (4 * page_sum (cached_weight s) m)"
      using refines_report [OF M(1), of a b s] Cons.prems e pages [of s] cache [of s] word [OF small(1)] word [OF small(2)] by simp_all
    then show ?case using Cons by (simp add: e algebra_simps)
  qed simp
  have "s \<in> set (map ?path (ag_report ag))" if "m p = Some (s, c)" for p s c
    using refines_report_complete [OF M(1), of "page_pfn p"] M(2) that unfolding frames_rel_def by auto
  note g = sum_groups [OF refines_report_distinct [OF M(1)], of m, OF this]
  show ?thesis unfolding ag_short_report_def using f [of "ag_report ag" 0 0] g
    by (simp add: memory_kib_units cache_kib_units)
qed

interpretation aggregator_tracker: tracker_laws aggregator_tracker ag_default page_step "\<lambda>pid. ag_rel"
proof unfold_locales
  show "ag_rel 0 ag_default Map.empty"
    by (rule ag_relI [OF _ refines_default]) (simp_all add: frames_rel_def)
  show "tk_short_report aggregator_tracker s = (memory_kib m, cache_kib m)" if "ag_rel n s m" "fits m" for n s m
    using ag_rel_report [OF that] by (simp add: aggregator_tracker_def)
qed (rule page_step_le ag_rel_step; assumption)+

section \<open>The trackers agree\<close>

text \<open>A page that is never taken out of the page cache is kept.\<close>

lemma kept_same:
  assumes "Track_Mark p False \<notin> set ops" "k p = m p"
  shows "fold kept_step ops k p = fold page_step ops m p"
  using assms
proof (induction ops arbitrary: k m)
  case (Cons op ops)
  have "kept_step op k p = page_step op m p"
    using Cons.prems by (cases op; cases "m p") (auto simp: cache_entry_def)
  then show ?case using Cons by simp
qed simp

text \<open>
  C7: What the three trackers report. On every well-behaved trace (one process, frames allocated when they are free, outside the page
  cache, and released, marked and unmarked with the same order, fewer than \<open>2 ^ 32\<close> operations, less than four tebibytes) none of the three implementations of
  the tracker panics. The aggregator and the history report the same amounts: the memory of the pages that are allocated, and of those
  that are in the page cache. The state of allocations reports the same of the pages it keeps: it forgets a page that is taken out of the
  page cache, although it is still allocated. It keeps every page that never leaves the page cache, so on traces without
  such an event all three agree.
\<close>

theorem trackers_agree:
  assumes "trace_ok pid ops Map.empty" "length ops < 2 ^ 32"
  shows "\<exists>ag al hi. let m = fold page_step ops Map.empty; k = fold kept_step ops Map.empty in
    track_all aggregator_tracker ops ag_default = Inr ag \<and> track_all allocation_tracker ops as_default = Inr al \<and>
    track_all (history_tracker event_last_history) ops history_default = Inr hi \<and>
    ag_short_report ag = (memory_kib m, cache_kib m) \<and> hi_short_report event_last_history hi = ag_short_report ag \<and>
    as_short_report al = (memory_kib k, cache_kib k) \<and> k \<subseteq>\<^sub>m m \<and>
    (\<forall>p. Track_Mark p False \<notin> set ops \<longrightarrow> k p = m p) \<and>
    ((\<forall>p. Track_Mark p False \<notin> set ops) \<longrightarrow> as_short_report al = ag_short_report ag)"
proof -
  let ?m = "fold page_step ops Map.empty" and ?k = "fold kept_step ops Map.empty"
  obtain ag al hi where "track_all aggregator_tracker ops ag_default = Inr ag" "track_all allocation_tracker ops as_default = Inr al"
      "track_all (history_tracker event_last_history) ops history_default = Inr hi" "ag_short_report ag = (memory_kib ?m, cache_kib ?m)"
      "hi_short_report event_last_history hi = (memory_kib ?m, cache_kib ?m)" "as_short_report al = (memory_kib ?k, cache_kib ?k)"
      "?k \<subseteq>\<^sub>m ?m"
    using aggregator_tracker.track_report [OF assms] allocation_tracker.track_report [OF assms] event_last_tracker.track_report [OF assms]
    by (auto simp: aggregator_tracker_def allocation_tracker_def history_tracker_def)
  moreover have "?k p = ?m p" if "Track_Mark p False \<notin> set ops" for p using kept_same [OF that] by simp
  moreover from this have "?k = ?m" if "\<forall>p. Track_Mark p False \<notin> set ops" using that by (simp add: fun_eq_iff)
  ultimately show ?thesis unfolding Let_def by (metis (no_types, lifting))
qed

definition sample_stack :: "u64 \<Rightarrow> mem_stack" where
  "sample_stack f = \<lparr>stk_length = 1, stk_ips = f # replicate 126 0\<rparr>"

definition sample_page :: "u32 \<Rightarrow> page" where
  "sample_page i = \<lparr>pg_inner = i\<rparr>"

definition sample_trace :: "track_op list" where
  "sample_trace =
     [Track_Alloc 5 (sample_page 1) (sample_stack 7) 0 9, Track_Mark (sample_page 1) True,
      Track_Alloc 6 (sample_page 2) (sample_stack 8) 0 9, Track_Free 7 (sample_page 1) 9]"

lemma sample_stack_ips: "stack_ips (sample_stack f) = Inr [f]"
  by (simp add: stack_ips_def sample_stack_def slice_def sub_def)

lemma fits_upd: "page_sum all_weight m + page_units p < 2 ^ 30 \<Longrightarrow> fits (m(p := e))"
  using page_sum_upd [of all_weight m p e] by (cases e) (simp_all add: fits_def)

lemma sample_pages: "page_units (sample_page 1) = 1" "page_units (sample_page 2) = 1"
    "page_pfn (sample_page 1) \<noteq> page_pfn (sample_page 2)" "sample_page 1 \<noteq> sample_page 2"
  by (simp_all add: page_units_def page_number_def sample_page_def page_pfn_def drop_bit_eq_div)

definition unmark_trace :: "track_op list" where
  "unmark_trace =
     [Track_Alloc 5 (sample_page 1) (sample_stack 7) 0 9, Track_Mark (sample_page 1) True,
      Track_Alloc 6 (sample_page 2) (sample_stack 8) 0 9, Track_Mark (sample_page 1) False]"

lemma sample_sums:
  "page_sum all_weight (Map.empty :: page_memory) = 0" "page_sum all_weight [sample_page 1 \<mapsto> (s, c)] = 1"
  "page_sum all_weight [sample_page 2 \<mapsto> (s, c)] = 1" "page_sum all_weight [sample_page 1 \<mapsto> (s, c), sample_page 2 \<mapsto> (s', c')] = 2"
proof -
  show "page_sum all_weight (Map.empty :: page_memory) = 0" by (simp add: page_sum_def)
  note e = this
  show s: "page_sum all_weight [sample_page 1 \<mapsto> (s, c)] = 1"
    using page_sum_upd [of all_weight Map.empty "sample_page 1" "Some (s, c)"] by (simp add: sample_pages e)
  show "page_sum all_weight [sample_page 2 \<mapsto> (s, c)] = 1"
    using page_sum_upd [of all_weight Map.empty "sample_page 2" "Some (s, c)"] by (simp add: sample_pages e)
  show "page_sum all_weight [sample_page 1 \<mapsto> (s, c), sample_page 2 \<mapsto> (s', c')] = 2"
    using page_sum_upd [of all_weight "[sample_page 1 \<mapsto> (s, c)]" "sample_page 2" "Some (s', c')"] sample_pages(4)
    by (simp add: sample_pages s)
qed

lemma sample_trace_ok: "trace_ok 9 sample_trace Map.empty" and unmark_trace_ok: "trace_ok 9 unmark_trace Map.empty"
proof -
  let ?m = "[sample_page 1 \<mapsto> ([7], True)] :: page_memory"
  have "fits [sample_page 1 \<mapsto> ([7], False)]" "fits (?m(sample_page 2 \<mapsto> ([8], False)))"
    by (simp_all add: fits_def sample_sums)
  moreover have "pfn_free ?m (sample_page 2)" using sample_pages(3) by (auto simp: pfn_free_def)
  moreover have "(?m(sample_page 2 \<mapsto> ([8], False))) (sample_page 1) \<noteq> None" using sample_pages(4) by simp
  ultimately show "trace_ok 9 sample_trace Map.empty" "trace_ok 9 unmark_trace Map.empty"
    by (simp_all add: sample_trace_def unmark_trace_def sample_stack_ips same_page_def pfn_free_def)
qed

lemma unmark_trace_memory:
  "fold page_step unmark_trace Map.empty = [sample_page 1 \<mapsto> ([7], False), sample_page 2 \<mapsto> ([8], False)]"
  "fold kept_step unmark_trace Map.empty = [sample_page 2 \<mapsto> ([8], False)]"
  using sample_pages(4) by (simp_all add: unmark_trace_def sample_stack_ips cache_entry_def fun_upd_twist)

theorem trackers_agree_witness:
  "(\<exists>ag al. track_all aggregator_tracker sample_trace ag_default = Inr ag \<and>
    track_all allocation_tracker sample_trace as_default = Inr al \<and> as_short_report al = ag_short_report ag) \<and>
   (\<exists>ag al. track_all aggregator_tracker unmark_trace ag_default = Inr ag \<and>
    track_all allocation_tracker unmark_trace as_default = Inr al \<and> fst (ag_short_report ag) = 8 \<and> fst (as_short_report al) = 4)"
proof -
  have "length sample_trace < 2 ^ 32" "length unmark_trace < 2 ^ 32" by (simp_all add: sample_trace_def unmark_trace_def)
  note t = trackers_agree [OF sample_trace_ok this(1)] trackers_agree [OF unmark_trace_ok this(2)]
  have "\<forall>p. Track_Mark p False \<notin> set sample_trace" by (simp add: sample_trace_def)
  then show ?thesis using t unfolding Let_def unmark_trace_memory memory_kib_units sample_sums by fastforce
qed

section \<open>The allocation state on every trace\<close>

fun op_units :: "track_op \<Rightarrow> nat" where
  "op_units (Track_Alloc now p stack flags pid) = page_units p"
| "op_units _ = 0"

fun op_readable :: "track_op \<Rightarrow> bool" where
  "op_readable (Track_Alloc now p stack flags pid) \<longleftrightarrow> (\<exists>s. stack_ips stack = Inr s)"
| "op_readable _ \<longleftrightarrow> True"

text \<open>With \<open>n\<close> units allocated so far.\<close>

definition as_bounded :: "nat \<Rightarrow> allocation_state \<Rightarrow> page_memory \<Rightarrow> bool" where
  "as_bounded n a m \<longleftrightarrow> gr_inv False (as_group a) m \<and> unat (gr_counter (as_group a)) \<le> n \<and> page_sum all_weight m \<le> n"

lemma page_units_pos: "0 < page_units p"
  unfolding page_units_def unat_page_number by simp

lemma all_weight_le: "page_sum all_weight (m(p := e)) \<le> page_sum all_weight m + page_units p"
  "m p \<noteq> None \<or> e = None \<Longrightarrow> page_sum all_weight (m(p := e)) \<le> page_sum all_weight m"
  using page_sum_upd [of all_weight m p e] by (cases e; cases "m p"; simp)+

lemma as_bounded_step:
  assumes "as_bounded n a m" "n + op_units op < 2 ^ 32" "op_readable op"
  shows "\<exists>a' m'. track allocation_tracker op a = Inr a' \<and> as_bounded (n + op_units op) a' m'"
proof (cases op)
  case (Track_Alloc now p stack flags pid')
  then obtain s where s: "stack_ips stack = Inr s" using assms(3) by auto
  have u: "unat (gr_counter (as_group a)) < 2 ^ 32 - 1" "page_sum all_weight m + page_units p < 2 ^ 32"
    using assms(1,2) page_units_pos [of p] Track_Alloc by (auto simp: as_bounded_def)
  obtain gr where gr: "gr_insert p s (as_group a) = Inr gr" "unat (gr_counter gr) \<le> Suc (unat (gr_counter (as_group a)))"
      "gr_inv False gr (m(p \<mapsto> (s, case m p of Some (_, c) \<Rightarrow> c | None \<Rightarrow> False)))"
    using gr_insert_inv [of False "as_group a" m p s] u assms(1) by (auto simp: as_bounded_def)
  moreover have "unat (gr_counter gr) \<le> n + page_units p" using gr(2) assms(1) page_units_pos [of p] by (simp add: as_bounded_def)
  ultimately have "as_bounded (n + page_units p) (a\<lparr>as_pid := Some pid', as_group := gr\<rparr>)
      (m(p \<mapsto> (s, case m p of Some (_, c) \<Rightarrow> c | None \<Rightarrow> False)))"
    using assms(1) all_weight_le(1) [of m p] by (simp add: as_bounded_def le_trans [OF all_weight_le(1)])
  then show ?thesis using gr(1) s Track_Alloc by (auto simp: allocation_tracker_def as_track_alloc_def)
next
  case (Track_Free now p pid')
  obtain gr where "gr_remove p (as_group a) = Inr gr" "gr_counter gr = gr_counter (as_group a)" "gr_inv False gr (m(p := None))"
    using gr_remove_inv assms(1) unfolding as_bounded_def by blast
  moreover from this have "as_bounded n (a\<lparr>as_group := gr\<rparr>) (m(p := None))"
    using assms(1) all_weight_le(2) [of m p None] by (simp add: as_bounded_def)
  ultimately show ?thesis using Track_Free assms(1) by (auto simp: allocation_tracker_def as_track_free_def)
next
  case (Track_Mark p b)
  obtain gr where "gr_mark_cache p b (as_group a) = Inr gr" "gr_counter gr = gr_counter (as_group a)"
      "gr_inv False gr (m(p := cache_entry b (m p)))"
    using gr_mark_cache_inv [of False "as_group a" m p b] assms(1,2) Track_Mark by (auto simp: as_bounded_def)
  moreover from this have "as_bounded n (a\<lparr>as_group := gr\<rparr>) (m(p := cache_entry b (m p)))"
    using assms(1) all_weight_le(2) [of m p "cache_entry b (m p)"] by (cases "m p") (simp_all add: as_bounded_def cache_entry_def)
  ultimately show ?thesis using Track_Mark by (auto simp: allocation_tracker_def as_mark_page_cache_def)
qed

lemma as_bounded_all:
  assumes "as_bounded n a m" "n + sum_list (map op_units ops) < 2 ^ 32" "list_all op_readable ops"
  shows "\<exists>a' m'. track_all allocation_tracker ops a = Inr a' \<and> gr_inv False (as_group a') m'"
  using assms
proof (induction ops arbitrary: n a m)
  case (Cons op ops)
  then obtain a' m' where a': "track allocation_tracker op a = Inr a'" "as_bounded (n + op_units op) a' m'"
    using as_bounded_step [OF Cons.prems(1), of op] by auto
  then show ?case using Cons.IH [OF a'(2)] Cons.prems(2,3) by simp
qed (auto simp: as_bounded_def)

lemma gr_inv_node:
  assumes "gr_inv exact gr m" "(h, u) \<in> set (gr_group gr)"
  shows "unat (alu_node u) = (\<Sum>p | \<exists>st. gr_last_stack gr p = Some st \<and> pst_stack_hash st = h. page_units p)"
proof -
  have mu: "map_of (gr_group gr) h = Some u" using assms(2) gr_invD(6) [OF assms(1)] by simp
  then obtain s where s: "gr_collision_detector gr s = Some h" using gr_invD(5) [OF assms(1)] by blast
  have "unat (alu_node u) = page_sum (stack_weight s) m"
    using gr_invD(4) [OF assms(1) s] mu by (simp add: usage_counts_def)
  moreover have "(\<exists>st. gr_last_stack gr p = Some st \<and> pst_stack_hash st = h) \<longleftrightarrow> (\<exists>c. m p = Some (s, c))" for p
  proof
    assume "\<exists>st. gr_last_stack gr p = Some st \<and> pst_stack_hash st = h"
    then obtain st where st: "gr_last_stack gr p = Some st" "pst_stack_hash st = h" by blast
    obtain s' c where s': "m p = Some (s', c)" "gr_collision_detector gr s' = Some (pst_stack_hash st)"
      by (rule gr_inv_page [OF assms(1) st(1)])
    then have "s' = s" using st(2) s gr_invD(2) [OF assms(1)] unfolding index_inj_def by blast
    then show "\<exists>c. m p = Some (s, c)" using s'(1) by blast
  next
    assume "\<exists>c. m p = Some (s, c)"
    then show "\<exists>st. gr_last_stack gr p = Some st \<and> pst_stack_hash st = h"
      using gr_invD(3) [OF assms(1), of p] s by (auto simp: state_rel_def)
  qed
  moreover have "page_sum (stack_weight s) m = (\<Sum>p | \<exists>c. m p = Some (s, c). page_units p)"
    unfolding page_sum_def
    by (rule sum.mono_neutral_cong_right) (auto simp: finite_page stack_weight_def split: option.splits)
  ultimately show ?thesis by simp
qed

text \<open>
  C28: The state of allocations is consistent on every trace. Whatever allocations, releases and marks arrive, in any order, from any
  processes, double and missing ones included, as long as fewer than \<open>2 ^ 32\<close> pages are allocated in all, the tracker does not panic, although
  it panics on purpose when a counter would go below zero: every counter is the number of pages whose last
  stack it stands for.
\<close>

theorem allocation_never_panics:
  assumes "list_all op_readable ops" "sum_list (map op_units ops) < 2 ^ 32"
  shows "\<exists>a. track_all allocation_tracker ops as_default = Inr a \<and>
    (\<forall>(h, u) \<in> set (gr_group (as_group a)). unat (alu_node u) =
      (\<Sum>p | \<exists>st. gr_last_stack (as_group a) p = Some st \<and> pst_stack_hash st = h. page_units p))"
proof -
  have "as_bounded 0 as_default Map.empty"
    using gr_inv_default [of False] by (simp add: as_bounded_def as_default_def page_sum_def) (simp add: gr_default_def)
  from as_bounded_all [OF this, of ops] obtain a m where
      a: "track_all allocation_tracker ops as_default = Inr a" "gr_inv False (as_group a) m"
    using assms by auto
  then show ?thesis using gr_inv_node [OF a(2)] by blast
qed

theorem allocation_never_panics_witness:
  "\<exists>a. track_all allocation_tracker (Track_Free 3 (sample_page 1) 9 # sample_trace @ sample_trace) as_default = Inr a"
  using allocation_never_panics [of "Track_Free 3 (sample_page 1) 9 # sample_trace @ sample_trace"]
  by (auto simp: sample_trace_def sample_stack_ips sample_pages)

end
