(* ===== verification/Memprof_Symbols.thy ===== *)
theory Memprof_Symbols
  imports Memprof_Report Rust_Strings "HOL-Library.Log_Nat"
begin

text \<open>
  The symbols of a binary, \<^verbatim>\<open>tezedge-memprof/src/table.rs\<close>. The parser of ELF files is a parameter: a record of what it returns for
  a file, with errors as their printed form. The subtractions of the search are checked: that they never go below zero is
  part of what is proved.
\<close>

section \<open>The parser of ELF files\<close>

record elf_symbol =
  esy_value :: u64
  esy_size :: u64
  esy_name :: u32

record elf_symbols =
  ess_length :: nat
  ess_pick :: "nat \<Rightarrow> string + elf_symbol"

datatype section_data =
    Symbol_Section elf_symbols
  | Dynamic_Symbol_Section elf_symbols
  | String_Section bytes
  | Other_Section

record elf_file =
  elf_section_number :: nat
  elf_section :: "nat \<Rightarrow> string + (u16 \<times> section_data) option"

text \<open>Reading a file, taking it apart, and picking a string of a string table.\<close>

record elf_env =
  ee_read :: "string \<Rightarrow> string + bytes"
  ee_elf :: "bytes \<Rightarrow> string + elf_file"
  ee_pick :: "bytes \<Rightarrow> nat \<Rightarrow> string + string"

section \<open>The table\<close>

record symbol =
  sym_start :: u32
  sym_end :: u32
  sym_name_offset :: u32

record symbol_table =
  tb_inner :: "symbol list"
  tb_name :: string
  tb_strings :: bytes

definition sym_contains :: "symbol \<Rightarrow> u64 \<Rightarrow> bool" where
  "sym_contains s offset \<longleftrightarrow> ucast (sym_start s) \<le> offset \<and> offset < ucast (sym_end s)"

definition symbol_sections :: "elf_file \<Rightarrow> (u16 \<times> elf_symbols) list" where
  "symbol_sections elf =
     List.map_filter (\<lambda>i.
       case elf_section elf i of
         Inr (Some (link, Symbol_Section t)) \<Rightarrow> Some (link, t)
       | Inr (Some (link, Dynamic_Symbol_Section t)) \<Rightarrow> Some (link, t)
       | _ \<Rightarrow> None) [0..<elf_section_number elf]"

definition linked_strings :: "elf_file \<Rightarrow> u16 \<Rightarrow> bytes option" where
  "linked_strings elf link =
     (case elf_section elf (unat link) of
        Inr (Some (_, String_Section t)) \<Rightarrow> Some t
      | _ \<Rightarrow> None)"

fun pick_symbols :: "elf_symbols \<Rightarrow> u32 \<Rightarrow> nat list \<Rightarrow> string + symbol list" where
  "pick_symbols t base [] = Inr []"
| "pick_symbols t base (i # is') =
     and_then (ess_pick t i) (\<lambda>s.
     and_then (pick_symbols t base is') (\<lambda>rest.
     Inr (\<lparr>sym_start = ucast (esy_value s), sym_end = ucast (esy_value s + esy_size s),
           sym_name_offset = base + esy_name s\<rparr> # rest)))"

fun load_sections :: "elf_file \<Rightarrow> (u16 \<times> elf_symbols) list \<Rightarrow> symbol list \<Rightarrow> bytes \<Rightarrow> string + symbol list \<times> bytes" where
  "load_sections elf [] symbols strings = Inr (symbols, strings)"
| "load_sections elf ((link, t) # rest) symbols strings =
     (case linked_strings elf link of
        None \<Rightarrow> load_sections elf rest symbols strings
      | Some strtab \<Rightarrow>
          and_then (pick_symbols t (word_of_nat (length strings)) [0..<ess_length t]) (\<lambda>new.
          load_sections elf rest (symbols @ new) (strings @ strtab)))"

text \<open>The last component of a path.\<close>

definition file_name :: "string \<Rightarrow> string option" where
  "file_name path =
     (let cs = filter (\<lambda>c. c \<noteq> [] \<and> c \<noteq> ''.'') (split_on (CHR ''/'') path) in
      if cs = [] \<or> last cs = ''..'' then None else Some (last cs))"

definition table_load :: "elf_env \<Rightarrow> string \<Rightarrow> string + symbol_table" where
  "table_load env path =
     and_then (ee_read env path) (\<lambda>data.
     and_then (ee_elf env data) (\<lambda>elf.
     and_then (load_sections elf (symbol_sections elf) [] []) (\<lambda>(symbols, strings).
     Inr \<lparr>tb_inner = sort_key sym_start symbols,
          tb_name = (case file_name path of Some n \<Rightarrow> n | None \<Rightarrow> []),
          tb_strings = strings\<rparr>)))"

definition symbol_name :: "elf_env \<Rightarrow> symbol_table \<Rightarrow> symbol \<Rightarrow> string" where
  "symbol_name env tb s =
     (case ee_pick env (tb_strings tb) (unat (sym_name_offset s)) of
        Inr name \<Rightarrow> name
      | Inl e \<Rightarrow> [CHR 0x22] @ ''string table error '' @ e @ [CHR 0x22])"

section \<open>The search\<close>

definition usize_sub :: "nat \<Rightarrow> nat \<Rightarrow> panic + nat" where
  "usize_sub a b = (if a < b then Inl Arith_Overflow else Inr (a - b))"

function find_loop :: "elf_env \<Rightarrow> symbol_table \<Rightarrow> u64 \<Rightarrow> nat \<Rightarrow> nat \<Rightarrow> panic + string option" where
  "find_loop env tb offset len pos =
     (if len = 0 then Inr None
      else
        let len' = len div 2 in
        if length (tb_inner tb) \<le> pos then and_then (usize_sub pos len') (find_loop env tb offset len')
        else
          let symbol = tb_inner tb ! pos in
          if sym_contains symbol offset then Inr (Some (symbol_name env tb symbol))
          else if offset < ucast (sym_start symbol) then and_then (usize_sub pos len') (find_loop env tb offset len')
          else find_loop env tb offset len' (pos + len'))"
  by pat_completeness auto
termination
  by (relation "measure (\<lambda>(_, _, _, len, _). len)") auto

declare find_loop.simps [simp del]

text \<open>The search starts at the largest power of two that is at most the length.\<close>

definition table_find :: "elf_env \<Rightarrow> u64 \<Rightarrow> symbol_table \<Rightarrow> panic + string option" where
  "table_find env offset tb =
     (if tb_inner tb = [] then Inr None
      else let len = 2 ^ (floorlog 2 (length (tb_inner tb)) - 1) in find_loop env tb offset len len)"

section \<open>Correctness of the search\<close>

text \<open>Symbols in the order of their code, without overlaps. Symbols without code may share their place.\<close>

definition table_ordered :: "symbol list \<Rightarrow> bool" where
  "table_ordered ss \<longleftrightarrow> sorted_wrt (\<lambda>a b. sym_start a \<le> sym_start b \<and> sym_end a \<le> sym_start b) ss"

lemma ordered_nth:
  assumes "table_ordered ss" "i < j" "j < length ss"
  shows "sym_start (ss ! i) \<le> sym_start (ss ! j)" "sym_end (ss ! i) \<le> sym_start (ss ! j)"
  using assms sorted_wrt_nth_less unfolding table_ordered_def by blast+

lemma ucast_mono: "(a :: u32) \<le> b \<Longrightarrow> (ucast a :: u64) \<le> ucast b"
proof -
  have "unat (ucast x :: u64) = unat x" for x :: u32
  proof -
    have "unat x < 2 ^ 32" using unsigned_less [where 'a = nat and w = x] by simp
    then show ?thesis by (simp add: unsigned_ucast_eq take_bit_nat_eq_self)
  qed
  then show "a \<le> b \<Longrightarrow> ucast a \<le> (ucast b :: u64)" by (simp add: word_le_nat_alt)
qed

text \<open>A symbol that contains an address tells where the others are.\<close>

lemma contains_below:
  assumes "table_ordered ss" "k < length ss" "sym_contains (ss ! k) offset" "i < k"
  shows "\<not> sym_contains (ss ! i) offset" "\<not> offset < ucast (sym_start (ss ! i))"
  using ucast_mono [OF ordered_nth(1) [OF assms(1,4,2)]] ucast_mono [OF ordered_nth(2) [OF assms(1,4,2)]] assms(3)
  by (auto simp: sym_contains_def)

lemma contains_above:
  assumes "table_ordered ss" "i < length ss" "sym_contains (ss ! k) offset" "k < i"
  shows "\<not> sym_contains (ss ! i) offset" "offset < ucast (sym_start (ss ! i))"
  using ucast_mono [OF ordered_nth(2) [OF assms(1,4,2)]] assms(3) by (auto simp: sym_contains_def)

lemma half_power: "(2 :: nat) ^ j div 2 = (if j = 0 then 0 else 2 ^ (j - 1))"
  by (cases j) simp_all

lemma find_loop_found:
  assumes "table_ordered (tb_inner tb)" "k < length (tb_inner tb)" "sym_contains (tb_inner tb ! k) offset"
    and "2 ^ j \<le> pos" "pos < k + 2 ^ j" "k < pos + 2 ^ j"
  shows "find_loop env tb offset (2 ^ j) pos = Inr (Some (symbol_name env tb (tb_inner tb ! k)))"
  using assms(4-6)
proof (induction j arbitrary: pos)
  case 0
  then have "pos = k" by simp
  then show ?case using assms(2,3) by (subst find_loop.simps) (simp add: Let_def)
next
  case (Suc j)
  let ?symbol = "tb_inner tb ! pos"
  consider "length (tb_inner tb) \<le> pos" | "pos < length (tb_inner tb)" "k < pos" | "pos = k" | "pos < k" by linarith
  then show ?case
  proof cases
    case 1
    then show ?thesis using Suc assms(2) by (subst find_loop.simps) (simp add: usize_sub_def)
  next
    case 2
    then show ?thesis using Suc contains_above [OF assms(1) 2(1) assms(3) 2(2)]
      by (subst find_loop.simps) (simp add: usize_sub_def Let_def)
  next
    case 3
    then show ?thesis using assms(2,3) by (subst find_loop.simps) (simp add: Let_def)
  next
    case 4
    then show ?thesis using Suc assms(2) contains_below [OF assms(1-3) 4] by (subst find_loop.simps) (simp add: Let_def)
  qed
qed

lemma find_loop_missing:
  assumes "\<And>k. 0 < k \<Longrightarrow> k < length (tb_inner tb) \<Longrightarrow> \<not> sym_contains (tb_inner tb ! k) offset" "2 ^ j \<le> pos"
  shows "find_loop env tb offset (2 ^ j) pos = Inr None"
  using assms(2)
proof (induction j arbitrary: pos)
  case 0
  then show ?case using assms(1) [of pos]
    by (subst find_loop.simps) (simp add: usize_sub_def Let_def find_loop.simps [of _ _ _ 0])
next
  case (Suc j)
  have "\<not> sym_contains (tb_inner tb ! pos) offset" if "pos < length (tb_inner tb)"
    using that Suc.prems by (intro assms(1)) (simp_all add: less_le_trans [OF _ Suc.prems])
  then show ?case using Suc by (subst find_loop.simps) (simp add: usize_sub_def Let_def)
qed

lemma find_unique:
  assumes "k < length xs" "P (xs ! k)" "\<And>i. i < k \<Longrightarrow> \<not> P (xs ! i)"
  shows "List.find P xs = Some (xs ! k)"
  using assms by (simp add: find_Some_iff) blast

lemma table_find_ordered:
  assumes "table_ordered (tb_inner tb)"
  shows "table_find env offset tb =
    Inr (map_option (symbol_name env tb) (List.find (\<lambda>s. sym_contains s offset) (tl (tb_inner tb))))"
proof (cases "tb_inner tb")
  case (Cons s0 ss)
  let ?n = "length (tb_inner tb)"
  define j where "j = floorlog 2 ?n - 1"
  have find: "table_find env offset tb = find_loop env tb offset (2 ^ j) (2 ^ j)"
    using Cons by (simp add: table_find_def j_def Let_def)
  have n: "?n < 2 ^ Suc j"
    using floorlog_bounds [of ?n 2] Cons by (cases "floorlog 2 ?n") (auto simp: j_def)
  show ?thesis
  proof (cases "\<exists>k. k < length ss \<and> sym_contains (ss ! k) offset")
    case True
    then obtain k where k: "k < length ss" "sym_contains (ss ! k) offset" by blast
    have c: "sym_contains (tb_inner tb ! Suc k) offset" "Suc k < ?n" using k Cons by simp_all
    have "find_loop env tb offset (2 ^ j) (2 ^ j) = Inr (Some (symbol_name env tb (tb_inner tb ! Suc k)))"
      by (rule find_loop_found [OF assms c(2,1)]) (use c(2) n in simp_all)
    moreover have "List.find (\<lambda>s. sym_contains s offset) ss = Some (ss ! k)"
      using contains_below(1) [OF assms c(2,1)] Cons by (intro find_unique [where P = "\<lambda>s. sym_contains s offset", OF k]) force
    ultimately show ?thesis using find Cons by simp
  next
    case False
    have "\<not> sym_contains (tb_inner tb ! k) offset" if "0 < k" "k < ?n" for k
      using False that Cons by (cases k) auto
    then have "find_loop env tb offset (2 ^ j) (2 ^ j) = Inr None" by (intro find_loop_missing) simp_all
    moreover have "List.find (\<lambda>s. sym_contains s offset) ss = None"
      using False by (auto simp: find_None_iff in_set_conv_nth)
    ultimately show ?thesis using find Cons by simp
  qed
qed (simp add: table_find_def)

text \<open>
  C29: The search for a symbol is correct, on every symbol but the first. In a table that is ordered and has no overlaps, the
  search ends, its index never goes below zero, and it returns the name of the symbol that contains the address if there is one after
  the first place of the table, as a linear search does; the first symbol of the table is never looked at.
\<close>

theorem table_find_correct:
  assumes "table_ordered (tb_inner tb)"
  shows "table_find env offset tb =
    Inr (map_option (symbol_name env tb) (List.find (\<lambda>s. sym_contains s offset) (tl (tb_inner tb))))"
  by (rule table_find_ordered [OF assms])

definition sample_elf_env :: elf_env where
  "sample_elf_env =
     \<lparr>ee_read = \<lambda>_. Inl ''not found'', ee_elf = \<lambda>_. Inl ''no elf'', ee_pick = \<lambda>_ n. Inr (if n = 4 then ''main'' else ''other'')\<rparr>"

definition sample_table :: symbol_table where
  "sample_table =
     \<lparr>tb_inner = [\<lparr>sym_start = 0, sym_end = 0x10, sym_name_offset = 0\<rparr>, \<lparr>sym_start = 0x10, sym_end = 0x20, sym_name_offset = 0\<rparr>,
        \<lparr>sym_start = 0x30, sym_end = 0x50, sym_name_offset = 4\<rparr>],
      tb_name = ''light-node'', tb_strings = []\<rparr>"

theorem table_find_correct_witness:
  "table_find sample_elf_env 0x3f sample_table = Inr (Some ''main'') \<and> table_find sample_elf_env 0x08 sample_table = Inr None"
  using table_find_correct [where tb = sample_table and env = sample_elf_env and offset = "0x3f"]
    table_find_correct [where tb = sample_table and env = sample_elf_env and offset = "0x08"]
  by (simp add: sample_table_def sample_elf_env_def table_ordered_def sym_contains_def symbol_name_def)

end
