(* ===== verification/Memprof_Resolver.thy ===== *)
theory Memprof_Resolver
  imports Memprof_Symbols Node_Log
begin

text \<open>
  From an address to a symbol, \<^verbatim>\<open>tezedge-memprof/src/{memory_map,stack}.rs\<close>: the memory map of the process, the tables of its
  binaries, and the thread that keeps them up to date. The file system, the commands that copy a binary out of a container and the
  demanglers are parameters.
\<close>

section \<open>The memory map\<close>

datatype map_error = Other_Error | Io_Error string

datatype entry_name = Nothing_Name | FileName string | Remark string

record map_entry =
  me_start :: u64
  me_end :: u64
  me_flags :: string
  me_offset :: u64
  me_name :: entry_name

type_synonym process_map = "map_entry list"

definition entry_name_string :: "entry_name \<Rightarrow> string option" where
  "entry_name_string n = (case n of FileName f \<Rightarrow> Some f | _ \<Rightarrow> None)"

definition entry_exec :: "map_entry \<Rightarrow> bool" where
  "entry_exec e \<longleftrightarrow> CHR ''x'' \<in> set (me_flags e)"

definition is_ascii_whitespace :: "char \<Rightarrow> bool" where
  "is_ascii_whitespace c \<longleftrightarrow> of_char c \<in> {9, 10, 12, 13, 32 :: nat}"

fun split_when :: "(char \<Rightarrow> bool) \<Rightarrow> string \<Rightarrow> string list" where
  "split_when P [] = [[]]"
| "split_when P (x # xs) =
     (if P x then [] # split_when P xs
      else case split_when P xs of [] \<Rightarrow> [[x]] | w # ws \<Rightarrow> (x # w) # ws)"

definition split_words :: "(char \<Rightarrow> bool) \<Rightarrow> string \<Rightarrow> string list" where
  "split_words P s = filter (\<lambda>w. w \<noteq> []) (split_when P s)"

definition next_column :: "string list \<Rightarrow> map_error + string \<times> string list" where
  "next_column cs = (case cs of [] \<Rightarrow> Inl Other_Error | c # rest \<Rightarrow> Inr (c, rest))"

definition parse_hex :: "string \<Rightarrow> map_error + u64" where
  "parse_hex s = (case from_str_radix 16 s of Inl _ \<Rightarrow> Inl Other_Error | Inr n \<Rightarrow> Inr n)"

definition parse_range :: "string \<Rightarrow> map_error + u64 \<times> u64" where
  "parse_range s =
     and_then (next_column (split_on (CHR ''-'') s)) (\<lambda>(range_start, items).
     and_then (next_column items) (\<lambda>(range_end, _).
     and_then (parse_hex range_start) (\<lambda>start.
     and_then (parse_hex range_end) (\<lambda>end'.
     Inr (start, end')))))"

definition column_name :: "string list \<Rightarrow> entry_name" where
  "column_name cs =
     (case cs of
        [] \<Rightarrow> Nothing_Name
      | [] # _ \<Rightarrow> Nothing_Name
      | (c # n) # _ \<Rightarrow> if c = CHR ''['' then Remark (c # n) else FileName (c # n))"

definition map_entry_from_str :: "string \<Rightarrow> map_error + map_entry" where
  "map_entry_from_str s =
     and_then (next_column (split_words is_ascii_whitespace s)) (\<lambda>(range_str, cs).
     and_then (parse_range range_str) (\<lambda>(start, end').
     and_then (next_column cs) (\<lambda>(flags, cs).
     and_then (next_column cs) (\<lambda>(offset_str, cs).
     and_then (parse_hex offset_str) (\<lambda>offset.
     and_then (next_column cs) (\<lambda>(_, cs).
     and_then (next_column cs) (\<lambda>(_, cs).
     Inr \<lparr>me_start = start, me_end = end', me_flags = flags, me_offset = offset, me_name = column_name cs\<rparr>)))))))"

text \<open>The lines of a text; an empty last one does not count.\<close>

definition lines_of :: "string \<Rightarrow> string list" where
  "lines_of s =
     (let ls = split_on (CHR 0x0a) s;
          ls' = (if last ls = [] then butlast ls else ls)
      in map (\<lambda>l. if l \<noteq> [] \<and> last l = CHR 0x0d then butlast l else l) ls')"

fun parse_entries :: "string list \<Rightarrow> map_error + map_entry list" where
  "parse_entries [] = Inr []"
| "parse_entries (l # ls) =
     and_then (map_entry_from_str l) (\<lambda>e. and_then (parse_entries ls) (\<lambda>es. Inr (e # es)))"

definition process_map_new :: "(u32 \<Rightarrow> map_error + string) \<Rightarrow> u32 \<Rightarrow> map_error + process_map" where
  "process_map_new read_maps pid = and_then (read_maps pid) (\<lambda>entries. parse_entries (lines_of entries))"

definition map_files :: "process_map \<Rightarrow> string list" where
  "map_files m = List.map_filter (\<lambda>e. entry_name_string (me_name e)) m"

definition entry_find :: "u64 \<Rightarrow> map_entry \<Rightarrow> (string \<times> u64) option" where
  "entry_find ip e =
     (if \<not> (me_start e \<le> ip \<and> ip < me_end e) \<or> \<not> entry_exec e then None
      else map_option (\<lambda>s. (s, me_offset e + ip - me_start e)) (entry_name_string (me_name e)))"

fun map_find :: "u64 \<Rightarrow> process_map \<Rightarrow> (string \<times> u64) option" where
  "map_find ip [] = None"
| "map_find ip (e # es) = (case entry_find ip e of Some r \<Rightarrow> Some r | None \<Rightarrow> map_find ip es)"

section \<open>The resolver\<close>

record stack_resolver =
  rs_files :: "string \<Rightarrow> symbol_table option"
  rs_map :: "process_map option"
  rs_mock :: bool

definition resolver_default :: stack_resolver where
  "resolver_default = \<lparr>rs_files = Map.empty, rs_map = None, rs_mock = False\<rparr>"

definition resolver_mock :: stack_resolver where
  "resolver_mock = \<lparr>rs_files = Map.empty, rs_map = None, rs_mock = True\<rparr>"

text \<open>
  The name of the node's container, if the variable is set; the commands \<^verbatim>\<open>docker ps\<close> and \<^verbatim>\<open>docker cp\<close>, which may not start: whether they succeed, and the
  output of the first, if it is text. The path always has a parent, since it begins with \<^verbatim>\<open>/tmp\<close>.
\<close>

record docker_env =
  dk_node_name :: "string option"
  dk_ps :: "string \<Rightarrow> (bool \<times> string option) option"
  dk_cp :: "string \<Rightarrow> string \<Rightarrow> bool option"

definition trim_end_matches :: "char \<Rightarrow> string \<Rightarrow> string" where
  "trim_end_matches c s = rev (dropWhile (\<lambda>x. x = c) (rev s))"

definition copy_binary :: "docker_env \<Rightarrow> string \<Rightarrow> unit + string" where
  "copy_binary dk filename =
     (case dk_node_name dk of
        None \<Rightarrow> Inr filename
      | Some node_name \<Rightarrow>
          and_then (ok_or () (dk_ps dk (''name='' @ node_name))) (\<lambda>(success, stdout).
          if \<not> success then Inl ()
          else
            and_then (ok_or () stdout) (\<lambda>node_image_name.
            if length (lines_of node_image_name) > 1 then Inl ()
            else
              let path = ''/tmp'' @ filename in
              and_then (ok_or () (dk_cp dk (trim_end_matches (CHR 0x0a) node_image_name @ '':'' @ filename) path)) (\<lambda>success.
              Inr path))))"

record resolver_env =
  re_elf :: elf_env
  re_read_maps :: "u32 \<Rightarrow> map_error + string"
  re_docker :: docker_env
  re_rustc_demangle :: "string \<Rightarrow> string"
  re_cpp_demangle :: "string \<Rightarrow> string option"

definition try_resolve :: "resolver_env \<Rightarrow> u64 \<Rightarrow> stack_resolver \<Rightarrow> panic + ((u64 \<times> string) \<times> string option) option" where
  "try_resolve env address rs =
     (case rs_map rs of
        None \<Rightarrow> Inr None
      | Some m \<Rightarrow>
          (case map_find address m of
             None \<Rightarrow> Inr None
           | Some (filename, offset) \<Rightarrow>
               (case rs_files rs filename of
                  None \<Rightarrow> Inr None
                | Some table \<Rightarrow>
                    and_then (table_find (re_elf env) offset table) (\<lambda>name.
                    Inr (Some ((offset, tb_name table), name))))))"

definition try_mock :: "u64 \<Rightarrow> stack_resolver \<Rightarrow> ((u64 \<times> string) \<times> string option) option" where
  "try_mock address rs = (if rs_mock rs then Some ((0, ''mock''), Some (''func_'' @ show_uint address)) else None)"

fun split_str :: "string \<Rightarrow> string \<Rightarrow> string list" where
  "split_str sep [] = [[]]"
| "split_str sep (x # xs) =
     (if sep \<noteq> [] \<and> take (length sep) (x # xs) = sep then [] # split_str sep (drop (length sep) (x # xs))
      else case split_str sep xs of [] \<Rightarrow> [[x]] | w # ws \<Rightarrow> (x # w) # ws)"

definition is_ascii_hexdigit :: "char \<Rightarrow> bool" where
  "is_ascii_hexdigit c \<longleftrightarrow> digit_of 16 c \<noteq> None"

definition is_rust_inner :: "string \<Rightarrow> bool" where
  "is_rust_inner s =
     (let s = trim_end_matches (CHR ''E'') s; l = length s in
      if l < 17 then False
      else s ! (l - 17) = CHR ''h'' \<and> list_all is_ascii_hexdigit (drop (l - 16) s))"

definition is_rust :: "string \<Rightarrow> bool" where
  "is_rust s \<longleftrightarrow> list_ex is_rust_inner (split_words is_whitespace s) \<or> list_ex is_rust_inner (split_str ''.llvm'' s)"

definition demangle :: "resolver_env \<Rightarrow> string \<Rightarrow> string" where
  "demangle env n =
     (if is_rust n then re_rustc_demangle env n
      else case re_cpp_demangle env n of Some d \<Rightarrow> d | None \<Rightarrow> n)"

definition function_category :: "string \<Rightarrow> string option \<Rightarrow> string" where
  "function_category filename name =
     (if filename = ''light-node''
      then if (case name of Some n \<Rightarrow> is_rust n | None \<Rightarrow> False) then ''nodeRust'' else ''nodeCpp''
      else ''systemLib'')"

definition resolve :: "resolver_env \<Rightarrow> u64 \<Rightarrow> stack_resolver \<Rightarrow> panic + symbol_info option" where
  "resolve env address rs =
     and_then (try_resolve env address rs) (\<lambda>r.
     case (case r of Some x \<Rightarrow> Some x | None \<Rightarrow> try_mock address rs) of
       None \<Rightarrow> Inr None
     | Some ((offset, filename), name) \<Rightarrow>
         Inr (Some (SymbolInfo (ucast offset) filename (map_option (demangle env) name) (function_category filename name))))"

section \<open>The thread\<close>

text \<open>The resolver that is shared, the last map, and the files that were looked at.\<close>

record resolver_thread =
  rt_resolver :: stack_resolver
  rt_last_map :: "process_map option"
  rt_files :: "string set"

definition resolver_thread_new :: resolver_thread where
  "resolver_thread_new = \<lparr>rt_resolver = resolver_default, rt_last_map = None, rt_files = {}\<rparr>"

definition load_file :: "resolver_env \<Rightarrow> string \<Rightarrow> resolver_thread \<Rightarrow> resolver_thread" where
  "load_file env initial_filename t =
     (if initial_filename \<in> rt_files t then t
      else
        case copy_binary (re_docker env) initial_filename of
          Inl _ \<Rightarrow> t
        | Inr filename \<Rightarrow>
            let rs = rt_resolver t;
                rs' = (case table_load (re_elf env) filename of
                         Inr table \<Rightarrow> rs\<lparr>rs_files := (rs_files rs)(initial_filename \<mapsto> table)\<rparr>
                       | Inl _ \<Rightarrow> rs)
            in t\<lparr>rt_resolver := rs', rt_files := insert initial_filename (rt_files t)\<rparr>)"

definition resolver_turn :: "resolver_env \<Rightarrow> u32 \<Rightarrow> resolver_thread \<Rightarrow> resolver_thread" where
  "resolver_turn env pid t =
     (if pid = 0 then t
      else
        case process_map_new (re_read_maps env) pid of
          Inl _ \<Rightarrow> t
        | Inr m \<Rightarrow>
            if Some m \<noteq> rt_last_map t then
              let t' = fold (load_file env) (map_files m) (t\<lparr>rt_last_map := Some m\<rparr>)
              in t'\<lparr>rt_resolver := (rt_resolver t')\<lparr>rs_map := Some m\<rparr>\<rparr>
            else t)"

text \<open>
  A copy that fails is not noticed: the command was run, so the path counts as copied. When there is nothing to load at that path the file is
  still marked as looked at, and never copied again.
\<close>

lemma failed_copy_kept:
  assumes "dk_node_name (re_docker env) = Some node" "dk_ps (re_docker env) (''name='' @ node) = Some (True, Some out)"
    "length (lines_of out) \<le> 1" "\<forall>a b. dk_cp (re_docker env) a b = Some False" "table_load (re_elf env) (''/tmp'' @ f) = Inl e"
  shows "load_file env f t = t\<lparr>rt_files := insert f (rt_files t)\<rparr>"
  using assms by (auto simp: load_file_def copy_binary_def ok_or_def Let_def insert_absorb)

section \<open>Reading the memory map\<close>

lemma split_when_not_Nil [simp]: "split_when P xs \<noteq> []"
  by (induction xs) (auto split: list.splits)

lemma split_when_none: "list_all (\<lambda>c. \<not> P c) w \<Longrightarrow> split_when P w = [w]"
  by (induction w) auto

lemma split_when_append: "list_all (\<lambda>c. \<not> P c) w \<Longrightarrow> P x \<Longrightarrow> split_when P (w @ x # rest) = w # split_when P rest"
  by (induction w) auto

lemma split_words_single: "list_all (\<lambda>c. \<not> P c) w \<Longrightarrow> w \<noteq> [] \<Longrightarrow> split_words P w = [w]"
  by (simp add: split_words_def split_when_none)

lemma split_words_append:
  "list_all (\<lambda>c. \<not> P c) w \<Longrightarrow> w \<noteq> [] \<Longrightarrow> P x \<Longrightarrow> split_words P (w @ x # rest) = w # split_words P rest"
  by (simp add: split_words_def split_when_append)

lemma split_words_blank: "P x \<Longrightarrow> split_words P (replicate n x @ rest) = split_words P rest"
  by (induction n) (simp_all add: split_words_def)

lemma ascii_blank [simp]: "is_ascii_whitespace (CHR '' '')"
  by (simp add: is_ascii_whitespace_def)

abbreviation word_chars :: "string \<Rightarrow> bool" where
  "word_chars w \<equiv> w \<noteq> [] \<and> list_all (\<lambda>c. \<not> is_ascii_whitespace c) w"

lemma digit_word:
  assumes "digit_of 16 c \<noteq> None"
  shows "c \<noteq> CHR ''-'' \<and> \<not> is_ascii_whitespace c"
proof -
  have "48 \<le> (of_char c :: nat)" using assms by (auto simp: digit_of_def Let_def split: if_splits)
  then show ?thesis by (auto simp: is_ascii_whitespace_def)
qed

lemma parse_digits_chars: "parse_digits r m acc s = Inr n \<Longrightarrow> c \<in> set s \<Longrightarrow> digit_of r c \<noteq> None"
  by (induction s arbitrary: acc) (auto split: option.splits if_splits)

lemma parse_hex_chars:
  assumes "parse_hex s = Inr n"
  shows "word_chars s" "CHR ''-'' \<notin> set s"
proof -
  obtain w :: u64 where w: "from_str_radix 16 s = Inr w" using assms by (auto simp: parse_hex_def split: sum.splits)
  then obtain c cs k where s: "s = c # cs" "parse_digits 16 (2 ^ LENGTH(64)) 0 (if c = CHR ''+'' then cs else s) = Inr k"
    by (cases s) (auto simp: from_str_radix_def and_then_Inr_iff split: if_splits)
  have "x \<noteq> CHR ''-'' \<and> \<not> is_ascii_whitespace x" if "x \<in> set s" for x
    using that parse_digits_chars [OF s(2), of x] digit_word [of x] s(1)
    by (cases "x = CHR ''+''") (auto simp: is_ascii_whitespace_def split: if_splits)
  then show "word_chars s" "CHR ''-'' \<notin> set s" using s(1) by (auto simp: list_all_iff)
qed

lemma column: "word_chars w \<Longrightarrow> split_words is_ascii_whitespace (w @ '' '' @ rest) = w # split_words is_ascii_whitespace rest"
  using split_words_append [of is_ascii_whitespace w "CHR '' ''" rest] by simp

text \<open>
  The memory map of a process is read as the kernel writes it. A line with two hexadecimal bounds, the permissions, a hexadecimal offset, the device, the
  inode and, after any number of blanks, the name of a file is parsed to an entry with exactly these bounds,
  permissions, offset and file.
\<close>

theorem map_line_parsed:
  assumes "parse_hex a = Inr start" "parse_hex b = Inr end'" "parse_hex off = Inr offset"
    and "word_chars flags" "word_chars dev" "word_chars inode" "word_chars f" "hd f \<noteq> CHR ''[''"
  shows "map_entry_from_str (a @ ''-'' @ b @ '' '' @ flags @ '' '' @ off @ '' '' @ dev @ '' '' @ inode @ '' '' @
      replicate n (CHR '' '') @ f) =
    Inr \<lparr>me_start = start, me_end = end', me_flags = flags, me_offset = offset, me_name = FileName f\<rparr>"
proof -
  note chars = parse_hex_chars [OF assms(1)] parse_hex_chars [OF assms(2)] parse_hex_chars [OF assms(3)]
  let ?P = is_ascii_whitespace
  have "\<not> ?P (CHR ''-'')" by (simp add: is_ascii_whitespace_def)
  then have "word_chars (a @ ''-'' @ b)" using chars by simp
  note w = column [OF this]
  have "split_words ?P ((a @ ''-'' @ b) @ '' '' @ flags @ '' '' @ off @ '' '' @ dev @ '' '' @ inode @ '' '' @
      replicate n (CHR '' '') @ f) = [a @ ''-'' @ b, flags, off, dev, inode, f]"
    unfolding w column [OF assms(4)] column [OF chars(5)] column [OF assms(5)] column [OF assms(6)] split_words_blank [where P = ?P, OF ascii_blank]
    using assms(7) by (simp add: split_words_single)
  moreover have "parse_range (a @ ''-'' @ b) = Inr (start, end')"
    using chars assms(1,2) by (simp add: parse_range_def next_column_def split_on_append split_on_none)
  moreover have "column_name [f] = FileName f" using assms(7,8) by (cases f) (simp_all add: column_name_def)
  ultimately show ?thesis using assms(3) by (simp add: map_entry_from_str_def next_column_def)
qed

theorem map_line_parsed_witness:
  "map_entry_from_str ''a000-b000 r-xp 1000 08:02 17      /usr/bin/light-node'' =
    Inr \<lparr>me_start = 0xa000, me_end = 0xb000, me_flags = ''r-xp'', me_offset = 0x1000, me_name = FileName ''/usr/bin/light-node''\<rparr>"
proof -
  have h: "parse_hex ''a000'' = Inr 0xa000" "parse_hex ''b000'' = Inr 0xb000" "parse_hex ''1000'' = Inr 0x1000"
    by (simp_all add: parse_hex_def from_str_radix_def digit_of_def)
  have w: "word_chars ''r-xp''" "word_chars ''08:02''" "word_chars ''17''" "word_chars ''/usr/bin/light-node''"
    by (simp_all add: is_ascii_whitespace_def)
  have "replicate 5 (CHR '' '') = ''     ''" by (simp add: numeral_eq_Suc)
  then show ?thesis using map_line_parsed [OF h w, of 5] by simp
qed

section \<open>Resolving an address\<close>

text \<open>
  The maps that the thread takes up, each with the state of the world in its turn: a turn without a process, with a map that cannot be read or with
  the same map as before does nothing.
\<close>

fun fresh_maps :: "process_map option \<Rightarrow> (resolver_env \<times> u32) list \<Rightarrow> (resolver_env \<times> process_map) list" where
  "fresh_maps m0 [] = []"
| "fresh_maps m0 ((env, pid) # ts) =
     (if pid = 0 then fresh_maps m0 ts
      else case process_map_new (re_read_maps env) pid of
        Inl _ \<Rightarrow> fresh_maps m0 ts
      | Inr m \<Rightarrow> if Some m = m0 then fresh_maps m0 ts else (env, m) # fresh_maps (Some m) ts)"

text \<open>
  The table of a file is decided by the first of these maps that names the file when the copy of it is reported to succeed: it is what can be loaded
  then, and nothing if that fails, whatever later turns could do.
\<close>

definition copied :: "string \<Rightarrow> resolver_env \<times> process_map \<Rightarrow> bool" where
  "copied f = (\<lambda>(env, m). f \<in> set (map_files m) \<and> \<not> isl (copy_binary (re_docker env) f))"

definition load_copied :: "resolver_env \<Rightarrow> string \<Rightarrow> symbol_table option" where
  "load_copied env f = (case table_load (re_elf env) (projr (copy_binary (re_docker env) f)) of Inl _ \<Rightarrow> None | Inr table \<Rightarrow> Some table)"

definition loaded :: "string \<Rightarrow> (resolver_env \<times> process_map) list \<Rightarrow> symbol_table option" where
  "loaded f seen = (case List.find (copied f) seen of None \<Rightarrow> None | Some (env, _) \<Rightarrow> load_copied env f)"

definition thread_inv :: "(resolver_env \<times> process_map) list \<Rightarrow> resolver_thread \<Rightarrow> bool" where
  "thread_inv seen t \<longleftrightarrow>
     (\<forall>f. (f \<in> rt_files t \<longleftrightarrow> List.find (copied f) seen \<noteq> None) \<and> rs_files (rt_resolver t) f = loaded f seen) \<and>
     rt_last_map t = (if seen = [] then None else Some (snd (last seen))) \<and> rs_map (rt_resolver t) = rt_last_map t \<and>
     \<not> rs_mock (rt_resolver t)"

lemma load_file_frame [simp]:
  "rs_map (rt_resolver (load_file env f t)) = rs_map (rt_resolver t)" "rs_mock (rt_resolver (load_file env f t)) = rs_mock (rt_resolver t)"
  "rt_last_map (load_file env f t) = rt_last_map t"
  by (auto simp: load_file_def Let_def split: sum.splits)

lemma load_files_frame [simp]:
  "rs_map (rt_resolver (fold (load_file env) fs t)) = rs_map (rt_resolver t)"
  "rs_mock (rt_resolver (fold (load_file env) fs t)) = rs_mock (rt_resolver t)"
  "rt_last_map (fold (load_file env) fs t) = rt_last_map t"
  by (induction fs arbitrary: t) simp_all

lemma load_file_effect:
  assumes "g \<notin> rt_files t \<longrightarrow> rs_files (rt_resolver t) g = None"
  shows "g \<in> rt_files (load_file env f t) \<longleftrightarrow> g \<in> rt_files t \<or> g = f \<and> \<not> isl (copy_binary (re_docker env) f)"
    "rs_files (rt_resolver (load_file env f t)) g =
      (if g \<notin> rt_files t \<and> g = f \<and> \<not> isl (copy_binary (re_docker env) f) then load_copied env g else rs_files (rt_resolver t) g)"
  using assms by (auto simp: load_file_def load_copied_def Let_def split: sum.splits)

lemma load_files_effect:
  assumes "g \<notin> rt_files t \<longrightarrow> rs_files (rt_resolver t) g = None"
  shows "(g \<in> rt_files (fold (load_file env) fs t) \<longleftrightarrow> g \<in> rt_files t \<or> g \<in> set fs \<and> \<not> isl (copy_binary (re_docker env) g)) \<and>
    rs_files (rt_resolver (fold (load_file env) fs t)) g =
      (if g \<notin> rt_files t \<and> g \<in> set fs \<and> \<not> isl (copy_binary (re_docker env) g) then load_copied env g else rs_files (rt_resolver t) g)"
  using assms
proof (induction fs arbitrary: t)
  case (Cons f fs)
  note e = load_file_effect [OF Cons.prems, of env f]
  then have "g \<notin> rt_files (load_file env f t) \<longrightarrow> rs_files (rt_resolver (load_file env f t)) g = None" using Cons.prems by auto
  from Cons.IH [OF this] e show ?case by auto
qed simp

lemma find_snoc: "List.find P (xs @ [x]) = (case List.find P xs of Some y \<Rightarrow> Some y | None \<Rightarrow> if P x then Some x else None)"
  by (induction xs) auto

lemma turn_inv:
  assumes "thread_inv seen t"
  shows "thread_inv (seen @ fresh_maps (rt_last_map t) [(env, pid)]) (resolver_turn env pid t)"
proof (cases "process_map_new (re_read_maps env) pid")
  case (Inr m)
  show ?thesis
  proof (cases "pid = 0 \<or> Some m = rt_last_map t")
    case False
    have "g \<notin> rt_files t \<longrightarrow> rs_files (rt_resolver t) g = None" for g
      using assms by (cases "List.find (copied g) seen") (simp_all add: thread_inv_def loaded_def)
    then have "g \<notin> rt_files (t\<lparr>rt_last_map := Some m\<rparr>) \<longrightarrow> rs_files (rt_resolver (t\<lparr>rt_last_map := Some m\<rparr>)) g = None" for g by simp
    note e = load_files_effect [OF this, of _ env "map_files m"]
    show ?thesis
      using False Inr assms e
      by (auto simp: thread_inv_def resolver_turn_def Let_def loaded_def find_snoc copied_def split: option.splits)
  qed (use assms Inr in \<open>auto simp: resolver_turn_def\<close>)
qed (use assms in \<open>auto simp: resolver_turn_def\<close>)

lemma fresh_maps_turn: "fresh_maps m0 (x # ts) =
    fresh_maps m0 [x] @ fresh_maps (if fresh_maps m0 [x] = [] then m0 else Some (snd (last (fresh_maps m0 [x])))) ts"
  by (cases x) (simp split: sum.split)

definition turns :: "(resolver_env \<times> u32) list \<Rightarrow> resolver_thread" where
  "turns ts = fold (\<lambda>(env, pid). resolver_turn env pid) ts resolver_thread_new"

lemma turns_inv: "thread_inv (fresh_maps None ts) (turns ts)"
proof -
  have "thread_inv (seen @ fresh_maps (rt_last_map t) ts) (fold (\<lambda>(env, pid). resolver_turn env pid) ts t)" if "thread_inv seen t" for seen t
    using that
  proof (induction ts arbitrary: seen t)
    case (Cons x ts)
    obtain env pid where x: "x = (env, pid)" by (cases x)
    let ?n = "fresh_maps (rt_last_map t) [x]" and ?t = "resolver_turn env pid t"
    have n: "thread_inv (seen @ ?n) ?t" using turn_inv [OF Cons.prems] x by simp
    then have "rt_last_map ?t = (if ?n = [] then rt_last_map t else Some (snd (last ?n)))"
      using Cons.prems unfolding thread_inv_def by (cases "?n = []") (simp_all only: append_Nil2 last_appendR if_True if_False append_is_Nil_conv simp_thms)
    then show ?case using Cons.IH [OF n] fresh_maps_turn [of "rt_last_map t" x ts] by (simp add: x)
  qed simp
  from this [of "[]" resolver_thread_new] show ?thesis
    by (simp add: turns_def thread_inv_def resolver_thread_new_def resolver_default_def loaded_def)
qed

lemma map_find_first: "list_all (\<lambda>e. entry_find ip e = None) es \<Longrightarrow> entry_find ip e = Some r \<Longrightarrow> map_find ip (es @ e # es') = Some r"
  by (induction es) auto

lemma find_contained:
  assumes "table_ordered ss" "s \<in> set (tl ss)" "sym_contains s offset"
  shows "List.find (\<lambda>s. sym_contains s offset) (tl ss) = Some s"
proof -
  obtain k where k: "k < length (tl ss)" "tl ss ! k = s" using assms(2) by (auto simp: in_set_conv_nth)
  have nth: "tl ss ! i = ss ! Suc i" if "i < length (tl ss)" for i using that by (simp add: nth_tl)
  have "\<not> sym_contains (tl ss ! i) offset" if "i < k" for i
    using contains_below(1) [OF assms(1), of "Suc k" offset "Suc i"] k assms(3) that nth by simp
  then have "List.find (\<lambda>s. sym_contains s offset) (tl ss) = Some (tl ss ! k)"
    using k assms(3) by (intro find_unique [where P = "\<lambda>s. sym_contains s offset"]) simp_all
  then show ?thesis using k(2) by simp
qed

text \<open>
  C30: Addresses are resolved to the symbols of the binaries. The turns of the resolver's thread may each find the world in another state:
  another process, other files, another container, a command that fails. After any turns an address in an executable
  entry of the last map that was taken up is resolved by the table that is decided for the file of the entry. This table is what could be loaded at the
  first taken map that names the file and whose copy was reported to succeed. If a table was loaded then, and is ordered, an address at a place of the file
  where the table has a symbol other than the first is resolved to this symbol: the offset in the file, the name of the binary, the demangled name of
  the symbol, and the category of the function. If the load failed then, or no copy has succeeded at a taken map, the address is not resolved,
  even when a later turn could copy and load the file.
\<close>

theorem address_resolved:
  assumes "fresh_maps None ts = seen" "seen \<noteq> []" "snd (last seen) = es @ e # es'"
    and "list_all (\<lambda>e. entry_find ip e = None) es" "me_start e \<le> ip" "ip < me_end e" "entry_exec e" "me_name e = FileName f"
  shows "(\<forall>table s. loaded f seen = Some table \<and> table_ordered (tb_inner table) \<and> s \<in> set (tl (tb_inner table)) \<and>
        sym_contains s (me_offset e + ip - me_start e) \<longrightarrow>
      resolve env ip (rt_resolver (turns ts)) =
        Inr (Some (SymbolInfo (ucast (me_offset e + ip - me_start e)) (tb_name table)
          (Some (demangle env (symbol_name (re_elf env) table s)))
          (function_category (tb_name table) (Some (symbol_name (re_elf env) table s)))))) \<and>
    (loaded f seen = None \<longrightarrow> resolve env ip (rt_resolver (turns ts)) = Inr None)"
proof -
  have inv: "thread_inv seen (turns ts)" using turns_inv [of ts] assms(1) by simp
  then have tab: "rs_files (rt_resolver (turns ts)) f = loaded f seen" and m: "rs_map (rt_resolver (turns ts)) = Some (es @ e # es')"
    and mock: "\<not> rs_mock (rt_resolver (turns ts))"
    using assms(2,3) by (simp_all add: thread_inv_def)
  have "entry_find ip e = Some (f, me_offset e + ip - me_start e)"
    using assms(5-8) by (simp add: entry_find_def entry_name_string_def)
  then have find: "map_find ip (es @ e # es') = Some (f, me_offset e + ip - me_start e)" by (rule map_find_first [OF assms(4)])
  have "table_find (re_elf env) (me_offset e + ip - me_start e) table = Inr (Some (symbol_name (re_elf env) table s))"
    if "table_ordered (tb_inner table)" "s \<in> set (tl (tb_inner table))" "sym_contains s (me_offset e + ip - me_start e)" for table s
    using table_find_ordered [OF that(1)] find_contained [OF that] by simp
  then show ?thesis using find tab m mock by (auto simp: resolve_def try_resolve_def try_mock_def)
qed

definition sample_map_line :: string where
  "sample_map_line = ''a000-b000 r-xp 1000 08:02 17 /bin/light-node''"

definition sample_entry :: map_entry where
  "sample_entry = \<lparr>me_start = 0xa000, me_end = 0xb000, me_flags = ''r-xp'', me_offset = 0x1000, me_name = FileName ''/bin/light-node''\<rparr>"

definition sample_elf :: elf_file where
  "sample_elf =
     \<lparr>elf_section_number = 2,
      elf_section = \<lambda>i. if i = 0 then
          Inr (Some (1, Symbol_Section \<lparr>ess_length = 2, ess_pick = \<lambda>k.
            Inr (if k = 0 then \<lparr>esy_value = 0, esy_size = 0, esy_name = 0\<rparr> else \<lparr>esy_value = 0x1800, esy_size = 0x20, esy_name = 4\<rparr>)\<rparr>))
        else Inr (Some (0, String_Section []))\<rparr>"

definition sample_docker :: docker_env where
  "sample_docker = \<lparr>dk_node_name = Some ''node'', dk_ps = (\<lambda>f. Some (True, Some (''c0ffee'' @ [CHR 0x0a]))), dk_cp = (\<lambda>from to. Some True)\<rparr>"

definition sample_resolver_env :: resolver_env where
  "sample_resolver_env =
     \<lparr>re_elf = \<lparr>ee_read = \<lambda>_. Inr [], ee_elf = \<lambda>_. Inr sample_elf, ee_pick = \<lambda>_ n. Inr (if n = 4 then ''run'' else [])\<rparr>,
      re_read_maps = \<lambda>_. Inr (sample_map_line @ [CHR 0x0a]), re_docker = sample_docker,
      re_rustc_demangle = id, re_cpp_demangle = \<lambda>_. None\<rparr>"

definition sample_loaded :: symbol_table where
  "sample_loaded =
     \<lparr>tb_inner = [\<lparr>sym_start = 0, sym_end = 0, sym_name_offset = 0\<rparr>, \<lparr>sym_start = 0x1800, sym_end = 0x1820, sym_name_offset = 4\<rparr>],
      tb_name = ''light-node'', tb_strings = []\<rparr>"

lemma sample_line_parsed: "map_entry_from_str sample_map_line = Inr sample_entry"
  by (simp add: sample_map_line_def sample_entry_def map_entry_from_str_def split_words_def is_ascii_whitespace_def next_column_def
      parse_range_def parse_hex_def from_str_radix_def digit_of_def column_name_def)

lemma sample_map: "process_map_new (re_read_maps sample_resolver_env) 5 = Inr [sample_entry]"
proof -
  have "lines_of (sample_map_line @ [CHR 0x0a]) = [sample_map_line]" by (simp add: lines_of_def sample_map_line_def)
  then show ?thesis by (simp add: process_map_new_def sample_resolver_env_def sample_line_parsed)
qed

lemma sample_copied: "copy_binary (re_docker sample_resolver_env) ''/bin/light-node'' = Inr ''/tmp/bin/light-node''"
  by (simp add: copy_binary_def sample_resolver_env_def sample_docker_def ok_or_def lines_of_def)

lemma sample_load: "table_load (re_elf sample_resolver_env) ''/tmp/bin/light-node'' = Inr sample_loaded"
proof -
  have u: "[0..<2] = [0, 1 :: nat]" by (simp add: numeral_2_eq_2)
  have f: "file_name ''/tmp/bin/light-node'' = Some ''light-node''" by (simp add: file_name_def)
  show ?thesis
    by (simp add: table_load_def sample_resolver_env_def sample_elf_def symbol_sections_def map_filter_def linked_strings_def
        u f sample_loaded_def)
qed

text \<open>
  In one run the first turn finds no container engine, and the second, with one more entry in the map, copies and loads the binary. In the other the
  copy fails in the first turn but counts as done, and the second turn comes too late.
\<close>

definition no_docker_env :: resolver_env where
  "no_docker_env = sample_resolver_env\<lparr>re_docker := sample_docker\<lparr>dk_ps := (\<lambda>_. None)\<rparr>\<rparr>"

definition no_copy_env :: resolver_env where
  "no_copy_env = sample_resolver_env\<lparr>re_docker := sample_docker\<lparr>dk_cp := (\<lambda>_ _. Some False)\<rparr>,
     re_elf := (re_elf sample_resolver_env)\<lparr>ee_read := (\<lambda>_. Inl ''not found'')\<rparr>\<rparr>"

definition second_env :: resolver_env where
  "second_env = sample_resolver_env\<lparr>re_read_maps := (\<lambda>_. Inr (sample_map_line @ [CHR 0x0a] @ sample_map_line @ [CHR 0x0a]))\<rparr>"

lemma sample_maps:
  "process_map_new (re_read_maps no_docker_env) 5 = Inr [sample_entry]" "process_map_new (re_read_maps no_copy_env) 5 = Inr [sample_entry]"
  "process_map_new (re_read_maps second_env) 5 = Inr [sample_entry, sample_entry]"
proof -
  have "lines_of (sample_map_line @ [CHR 0x0a] @ sample_map_line @ [CHR 0x0a]) = [sample_map_line, sample_map_line]"
    by (simp add: lines_of_def sample_map_line_def)
  then show "process_map_new (re_read_maps second_env) 5 = Inr [sample_entry, sample_entry]"
    by (simp add: process_map_new_def second_env_def sample_line_parsed)
qed (use sample_map in \<open>simp_all add: no_docker_env_def no_copy_env_def\<close>)

lemma sample_fresh:
  "fresh_maps None [(no_docker_env, 5), (second_env, 5)] = [(no_docker_env, [sample_entry]), (second_env, [sample_entry, sample_entry])]"
  "fresh_maps None [(no_copy_env, 5), (second_env, 5)] = [(no_copy_env, [sample_entry]), (second_env, [sample_entry, sample_entry])]"
  by (simp_all add: sample_maps)

lemma sample_files: "map_files [sample_entry] = [''/bin/light-node'']" "map_files [sample_entry, sample_entry] = [''/bin/light-node'', ''/bin/light-node'']"
  by (simp_all add: map_files_def map_filter_def sample_entry_def entry_name_string_def)

lemma sample_loads:
  "loaded ''/bin/light-node'' [(no_docker_env, [sample_entry]), (second_env, [sample_entry, sample_entry])] = Some sample_loaded"
  "loaded ''/bin/light-node'' [(no_copy_env, [sample_entry]), (second_env, [sample_entry, sample_entry])] = None"
proof -
  have "copy_binary (re_docker no_docker_env) ''/bin/light-node'' = Inl ()"
    by (simp add: copy_binary_def no_docker_env_def sample_docker_def ok_or_def)
  moreover have "copy_binary (re_docker second_env) ''/bin/light-node'' = Inr ''/tmp/bin/light-node''"
    "table_load (re_elf second_env) ''/tmp/bin/light-node'' = Inr sample_loaded"
    using sample_copied sample_load by (simp_all add: second_env_def)
  ultimately show "loaded ''/bin/light-node'' [(no_docker_env, [sample_entry]), (second_env, [sample_entry, sample_entry])] = Some sample_loaded"
    by (simp add: loaded_def copied_def load_copied_def sample_files)
  have "copy_binary (re_docker no_copy_env) ''/bin/light-node'' = Inr ''/tmp/bin/light-node''"
    by (simp add: copy_binary_def no_copy_env_def sample_docker_def ok_or_def lines_of_def)
  moreover have "table_load (re_elf no_copy_env) ''/tmp/bin/light-node'' = Inl ''not found''" by (simp add: table_load_def no_copy_env_def)
  ultimately show "loaded ''/bin/light-node'' [(no_copy_env, [sample_entry]), (second_env, [sample_entry, sample_entry])] = None"
    by (simp add: loaded_def copied_def load_copied_def sample_files)
qed

theorem address_resolved_witness:
  "resolve second_env 0xa808 (rt_resolver (turns [(no_docker_env, 5), (second_env, 5)])) =
    Inr (Some (SymbolInfo 0x1808 ''light-node'' (Some ''run'') ''nodeCpp'')) \<and>
   resolve second_env 0xa808 (rt_resolver (turns [(no_copy_env, 5), (second_env, 5)])) = Inr None"
proof -
  let ?s = "\<lparr>sym_start = 0x1800, sym_end = 0x1820, sym_name_offset = 4\<rparr> :: symbol"
  have e: "list_all (\<lambda>e. entry_find 0xa808 e = None) []" "me_start sample_entry \<le> 0xa808" "0xa808 < me_end sample_entry"
    "entry_exec sample_entry" "me_name sample_entry = FileName ''/bin/light-node''"
    "me_offset sample_entry + 0xa808 - me_start sample_entry = 0x1808"
    by (simp_all add: sample_entry_def entry_exec_def)
  note r = address_resolved [OF sample_fresh(1) _ _ e(1-5), of "[sample_entry]" second_env, unfolded e(6)]
    address_resolved [OF sample_fresh(2) _ _ e(1-5), of "[sample_entry]" second_env, unfolded e(6)]
  have "table_ordered (tb_inner sample_loaded)" "?s \<in> set (tl (tb_inner sample_loaded))" "sym_contains ?s 0x1808"
    by (simp_all add: table_ordered_def sample_loaded_def sym_contains_def)
  moreover have "\<not> is_rust ''run''" by (simp add: is_rust_def split_words_def is_whitespace_def is_rust_inner_def trim_end_matches_def)
  then have "demangle second_env (symbol_name (re_elf second_env) sample_loaded ?s) = ''run''"
    "function_category (tb_name sample_loaded) (Some (symbol_name (re_elf second_env) sample_loaded ?s)) = ''nodeCpp''"
    "tb_name sample_loaded = ''light-node''"
    by (simp_all add: demangle_def symbol_name_def function_category_def sample_loaded_def second_env_def sample_resolver_env_def)
  ultimately show ?thesis using r sample_loads by simp
qed

end
