(* ===== verification/Memprof_State.thy ===== *)
theory Memprof_State
  imports Memprof_Event
begin

unbundle bit_operations_syntax

text \<open>
  The counters of the profiler, \<^verbatim>\<open>tezedge-memprof/src/state.rs\<close>. An atomic counter is its value; the difference of two values over
  the elapsed time, a floating point number, is a parameter.
\<close>

section \<open>Counters\<close>

record 't counters =
  slab_unknown_bytes :: 't
  slab_unknown_alloc_count :: 't
  slab_unknown_free_count :: 't
  slab_unknown_bad_free_count :: 't
  slab_known_bytes :: 't
  slab_known_alloc_count :: 't
  slab_known_free_count :: 't
  slab_known_bad_free_count :: 't
  page_bytes :: 't
  page_alloc_count :: 't
  page_free_count :: 't
  rss_stat_count :: 't
  rss_stat_file_bytes :: 't
  rss_stat_anon_bytes :: 't
  rss_stat_swap_bytes :: 't
  rss_stat_shared_bytes :: 't

definition counters_default :: "u64 counters" where
  "counters_default =
     \<lparr>slab_unknown_bytes = 0, slab_unknown_alloc_count = 0, slab_unknown_free_count = 0, slab_unknown_bad_free_count = 0,
      slab_known_bytes = 0, slab_known_alloc_count = 0, slab_known_free_count = 0, slab_known_bad_free_count = 0,
      page_bytes = 0, page_alloc_count = 0, page_free_count = 0, rss_stat_count = 0,
      rss_stat_file_bytes = 0, rss_stat_anon_bytes = 0, rss_stat_swap_bytes = 0, rss_stat_shared_bytes = 0\<rparr>"

definition counters_diff :: "(u64 \<Rightarrow> u64 \<Rightarrow> 'f) \<Rightarrow> u64 counters \<Rightarrow> u64 counters \<Rightarrow> 'f counters" where
  "counters_diff d self other =
     \<lparr>slab_unknown_bytes = d (slab_unknown_bytes self) (slab_unknown_bytes other),
      slab_unknown_alloc_count = d (slab_unknown_alloc_count self) (slab_unknown_alloc_count other),
      slab_unknown_free_count = d (slab_unknown_free_count self) (slab_unknown_free_count other),
      slab_unknown_bad_free_count = d (slab_unknown_bad_free_count self) (slab_unknown_bad_free_count other),
      slab_known_bytes = d (slab_known_bytes self) (slab_known_bytes other),
      slab_known_alloc_count = d (slab_known_alloc_count self) (slab_known_alloc_count other),
      slab_known_free_count = d (slab_known_free_count self) (slab_known_free_count other),
      slab_known_bad_free_count = d (slab_known_bad_free_count self) (slab_known_bad_free_count other),
      page_bytes = d (page_bytes self) (page_bytes other),
      page_alloc_count = d (page_alloc_count self) (page_alloc_count other),
      page_free_count = d (page_free_count self) (page_free_count other),
      rss_stat_count = d (rss_stat_count self) (rss_stat_count self),
      rss_stat_file_bytes = d (rss_stat_file_bytes self) (rss_stat_file_bytes self),
      rss_stat_anon_bytes = d (rss_stat_anon_bytes self) (rss_stat_anon_bytes self),
      rss_stat_swap_bytes = d (rss_stat_swap_bytes self) (rss_stat_swap_bytes self),
      rss_stat_shared_bytes = d (rss_stat_shared_bytes self) (rss_stat_shared_bytes self)\<rparr>"

record state_reporter =
  sr_counters :: "u64 counters"

record state_report =
  srp_last_counters :: "u64 counters"
  srp_current_counters :: "u64 counters"

definition state_reporter_new :: state_reporter where
  "state_reporter_new = \<lparr>sr_counters = counters_default\<rparr>"

definition state_reporter_report :: "u64 counters \<Rightarrow> state_reporter \<Rightarrow> state_report \<times> state_reporter" where
  "state_reporter_report current r =
     (\<lparr>srp_last_counters = sr_counters r, srp_current_counters = current\<rparr>, r\<lparr>sr_counters := current\<rparr>)"

definition rss_anon_kib :: "state_report \<Rightarrow> u64" where
  "rss_anon_kib r = rss_stat_anon_bytes (srp_current_counters r) div 1024"

section \<open>Events\<close>

definition slab_unknown_alloc :: "u64 \<Rightarrow> u64 counters \<Rightarrow> u64 counters" where
  "slab_unknown_alloc bytes c =
     c\<lparr>slab_unknown_alloc_count := slab_unknown_alloc_count c + 1, slab_unknown_bytes := slab_unknown_bytes c + bytes\<rparr>"

definition slab_unknown_free :: "u64 \<Rightarrow> bool \<Rightarrow> u64 counters \<Rightarrow> u64 counters" where
  "slab_unknown_free bytes success c0 =
     (let c = c0\<lparr>slab_unknown_bytes := slab_unknown_bytes c0 - bytes\<rparr> in
      if success then c\<lparr>slab_unknown_free_count := slab_unknown_free_count c + 1\<rparr>
      else c\<lparr>slab_unknown_bad_free_count := slab_unknown_bad_free_count c + 1\<rparr>)"

definition slab_known_alloc :: "u64 \<Rightarrow> u64 counters \<Rightarrow> u64 counters" where
  "slab_known_alloc bytes c =
     c\<lparr>slab_known_alloc_count := slab_known_alloc_count c + 1, slab_known_bytes := slab_known_bytes c + bytes\<rparr>"

definition slab_known_free :: "u64 \<Rightarrow> bool \<Rightarrow> u64 counters \<Rightarrow> u64 counters" where
  "slab_known_free bytes success c0 =
     (let c = c0\<lparr>slab_known_bytes := slab_known_bytes c0 - bytes\<rparr> in
      if success then c\<lparr>slab_known_free_count := slab_known_free_count c + 1\<rparr>
      else c\<lparr>slab_known_bad_free_count := slab_known_bad_free_count c + 1\<rparr>)"

definition state_page_alloc :: "u64 \<Rightarrow> u64 counters \<Rightarrow> u64 counters" where
  "state_page_alloc bytes c = c\<lparr>page_alloc_count := page_alloc_count c + 1, page_bytes := page_bytes c + bytes\<rparr>"

definition state_page_free :: "u64 \<Rightarrow> u64 counters \<Rightarrow> u64 counters" where
  "state_page_free bytes c = c\<lparr>page_bytes := page_bytes c - bytes, page_free_count := page_free_count c + 1\<rparr>"

definition state_rss_stat :: "u64 \<Rightarrow> u32 \<Rightarrow> u64 counters \<Rightarrow> u64 counters" where
  "state_rss_stat size' member c0 =
     (let c = c0\<lparr>rss_stat_count := rss_stat_count c0 + 1\<rparr>;
          bytes = (if sint size' < 0 then 0 else size')
      in if member = 0 then c\<lparr>rss_stat_file_bytes := bytes\<rparr>
         else if member = 1 then c\<lparr>rss_stat_anon_bytes := bytes\<rparr>
         else if member = 2 then c\<lparr>rss_stat_swap_bytes := bytes\<rparr>
         else if member = 3 then c\<lparr>rss_stat_shared_bytes := bytes\<rparr>
         else c)"

text \<open>The shift of a 64-bit number, whose amount is taken modulo 64.\<close>

definition order_bytes :: "u32 \<Rightarrow> u64" where
  "order_bytes order = push_bit (unat order mod 64) 0x1000"

type_synonym allocations = "u64 \<Rightarrow> u64 option"

definition process_event :: "event_kind \<Rightarrow> allocations \<times> u64 counters \<Rightarrow> allocations \<times> u64 counters" where
  "process_event ev st =
     (let (allocations, c) = st in
      case ev of Ev_RssStat v \<Rightarrow> (allocations, state_rss_stat (rs_size v) (rs_member v) c) | _ \<Rightarrow> (allocations, c))"

definition process_event_all :: "event_kind \<Rightarrow> allocations \<times> u64 counters \<Rightarrow> allocations \<times> u64 counters" where
  "process_event_all ev st =
     (let (allocations, c) = st in
      case ev of
        Ev_KFree v \<Rightarrow>
          (allocations,
           case allocations (kf_ptr v) of Some len \<Rightarrow> slab_unknown_free len True c | None \<Rightarrow> slab_unknown_free 0 False c)
      | Ev_KMAlloc v \<Rightarrow> (allocations(kma_ptr v \<mapsto> kma_bytes_alloc v), slab_unknown_alloc (kma_bytes_alloc v) c)
      | Ev_KMAllocNode v \<Rightarrow> (allocations(kmn_ptr v \<mapsto> kmn_bytes_alloc v), slab_unknown_alloc (kmn_bytes_alloc v) c)
      | Ev_CacheAlloc v \<Rightarrow> (allocations(ca_ptr v \<mapsto> ca_bytes_alloc v), slab_known_alloc (ca_bytes_alloc v) c)
      | Ev_CacheAllocNode v \<Rightarrow> (allocations(can_ptr v \<mapsto> can_bytes_alloc v), slab_known_alloc (can_bytes_alloc v) c)
      | Ev_CacheFree v \<Rightarrow>
          (allocations,
           case allocations (cf_ptr v) of Some len \<Rightarrow> slab_known_free len True c | None \<Rightarrow> slab_known_free 0 False c)
      | Ev_PageAlloc v \<Rightarrow> (allocations, if pa_pfn v \<noteq> 0 then state_page_alloc (order_bytes (pa_order v)) c else c)
      | Ev_PageFree v \<Rightarrow> (allocations, if pf_pfn v \<noteq> 0 then state_page_free (order_bytes (pf_order v)) c else c)
      | Ev_RssStat v \<Rightarrow> (allocations, state_rss_stat (rs_size v) (rs_member v) c)
      | _ \<Rightarrow> (allocations, c))"

section \<open>What is counted\<close>

definition page_delta :: "event_kind \<Rightarrow> u64" where
  "page_delta ev =
     (case ev of
        Ev_PageAlloc v \<Rightarrow> if pa_pfn v \<noteq> 0 then order_bytes (pa_order v) else 0
      | Ev_PageFree v \<Rightarrow> if pf_pfn v \<noteq> 0 then - order_bytes (pf_order v) else 0
      | _ \<Rightarrow> 0)"

fun is_slab_free :: "event_kind \<Rightarrow> bool" where
  "is_slab_free (Ev_KFree _) \<longleftrightarrow> True"
| "is_slab_free (Ev_CacheFree _) \<longleftrightarrow> True"
| "is_slab_free _ \<longleftrightarrow> False"

definition slab_frees :: "u64 counters \<Rightarrow> u64" where
  "slab_frees c =
     slab_unknown_free_count c + slab_unknown_bad_free_count c + slab_known_free_count c + slab_known_bad_free_count c"

lemma page_bytes_ops:
  "page_bytes (state_rss_stat n k c) = page_bytes c" "page_bytes (slab_unknown_alloc b c) = page_bytes c"
  "page_bytes (slab_unknown_free b t c) = page_bytes c" "page_bytes (slab_known_alloc b c) = page_bytes c"
  "page_bytes (slab_known_free b t c) = page_bytes c" "page_bytes (state_page_alloc b c) = page_bytes c + b"
  "page_bytes (state_page_free b c) = page_bytes c - b"
  by (simp_all add: state_rss_stat_def slab_unknown_alloc_def slab_unknown_free_def slab_known_alloc_def slab_known_free_def
      state_page_alloc_def state_page_free_def Let_def)

lemma slab_frees_ops:
  "slab_frees (state_rss_stat n k c) = slab_frees c" "slab_frees (slab_unknown_alloc b c) = slab_frees c"
  "slab_frees (slab_unknown_free b t c) = slab_frees c + 1" "slab_frees (slab_known_alloc b c) = slab_frees c"
  "slab_frees (slab_known_free b t c) = slab_frees c + 1" "slab_frees (state_page_alloc b c) = slab_frees c"
  "slab_frees (state_page_free b c) = slab_frees c"
  by (simp_all add: slab_frees_def state_rss_stat_def slab_unknown_alloc_def slab_unknown_free_def slab_known_alloc_def
      slab_known_free_def state_page_alloc_def state_page_free_def Let_def)

lemma process_event_all_step:
  "page_bytes (snd (process_event_all ev (al, c))) = page_bytes c + page_delta ev \<and>
   slab_frees (snd (process_event_all ev (al, c))) = slab_frees c + (if is_slab_free ev then 1 else 0)"
  by (cases ev) (simp_all add: process_event_all_def page_delta_def page_bytes_ops slab_frees_ops split: option.split)

text \<open>
  The bytes of pages are those allocated less those released, and every release of a slab object is counted as a good or a bad one.
\<close>

lemma process_events_counted:
  "page_bytes (snd (fold process_event_all evs (al, c))) = page_bytes c + (\<Sum>ev \<leftarrow> evs. page_delta ev) \<and>
   slab_frees (snd (fold process_event_all evs (al, c))) = slab_frees c + of_nat (length (filter is_slab_free evs))"
proof (induction evs arbitrary: al c)
  case (Cons ev evs)
  obtain al' c' where p: "process_event_all ev (al, c) = (al', c')" by (cases "process_event_all ev (al, c)")
  then show ?case using Cons [of al' c'] process_event_all_step [of ev al c] by (simp add: algebra_simps)
qed simp

text \<open>The rates of the resident set do not depend on the earlier counters.\<close>

lemma rss_rates_ignore_last:
  "rss_stat_file_bytes (counters_diff d self other) = d (rss_stat_file_bytes self) (rss_stat_file_bytes self)"
  "rss_stat_anon_bytes (counters_diff d self other) = d (rss_stat_anon_bytes self) (rss_stat_anon_bytes self)"
  by (simp_all add: counters_diff_def)

end
