(* ===== verification/Log_Search.thy ===== *)
theory Log_Search
  imports Rust_Prelude
begin

text \<open>
  The full text index of node logs, \<^verbatim>\<open>tezedge-recorder/src/database/search.rs\<close>: a thread commits the index once per second while the
  thread that stores the logs writes to it; when the writer is locked, messages wait in a queue. The index itself is a crate outside the
  repository: what counts are the documents added to its writer and those committed. The two threads are a step relation, one rule per
  atomic action.
\<close>

section \<open>The queue\<close>

record doc_queue =
  dq_start_id :: u64
  dq_messages :: "string list"

definition queue_default :: doc_queue where
  "queue_default = \<lparr>dq_start_id = 0, dq_messages = []\<rparr>"

definition queue_is_empty :: "doc_queue \<Rightarrow> bool" where
  "queue_is_empty q \<longleftrightarrow> dq_messages q = []"

definition enqueue :: "u64 \<Rightarrow> string \<Rightarrow> doc_queue \<Rightarrow> doc_queue" where
  "enqueue i msg q =
     (let q1 = (if dq_messages q = [] then q\<lparr>dq_start_id := i\<rparr> else q) in q1\<lparr>dq_messages := dq_messages q1 @ [msg]\<rparr>)"

definition drain :: "doc_queue \<Rightarrow> (u64 \<times> string) list" where
  "drain q = map (\<lambda>(i, msg). (dq_start_id q + word_of_nat i, msg)) (enumerate 0 (dq_messages q))"

record document =
  doc_message :: string
  doc_id :: u64

definition prepare_doc :: "u64 \<times> string \<Rightarrow> document" where
  "prepare_doc = (\<lambda>(i, message). \<lparr>doc_message = message, doc_id = i\<rparr>)"

text \<open>
  The answer to a query: what the search returns are scores and addresses of documents, a document is the list of its fields with their values; hits
  whose document cannot be read, has no number or one of another type are left out.
\<close>

datatype field_value = Val_Str string | Val_U64 u64

definition hit_id :: "nat \<Rightarrow> (nat \<times> field_value) list \<Rightarrow> u64 option" where
  "hit_id id_field vs =
     (case find (\<lambda>(f, _). f = id_field) vs of Some (_, Val_U64 i) \<Rightarrow> Some i | _ \<Rightarrow> None)"

definition read_hits :: "('addr \<Rightarrow> (nat \<times> field_value) list option) \<Rightarrow> nat \<Rightarrow> ('score \<times> 'addr) list \<Rightarrow> ('score \<times> u64) list" where
  "read_hits doc id_field hits =
     List.map_filter (\<lambda>(score, a). Option.bind (doc a) (\<lambda>vs. map_option (Pair score) (hit_id id_field vs))) hits"

text \<open>The pause that ends a turn at the next tick; times are in microseconds.\<close>

definition align :: "u64 \<Rightarrow> u64 \<Rightarrow> u64" where
  "align duration tick = tick - duration mod tick"

lemma align_bounds:
  assumes "0 < tick"
  shows "0 < align duration tick \<and> align duration tick \<le> tick"
proof -
  have m: "duration mod tick < tick" using assms by (rule word_mod_less_divisor)
  then have "unat (align duration tick) = unat tick - unat (duration mod tick)"
    unfolding align_def by (intro unat_sub) simp
  then show ?thesis using m by (simp add: word_less_nat_alt word_le_nat_alt)
qed

section \<open>The threads\<close>

text \<open>
  Who holds the lock of the writer; where the thread that commits is in \<^verbatim>\<open>run\<close> and \<^verbatim>\<open>finalize\<close>; where the thread that stores is in
  \<^verbatim>\<open>write\<close>. Documents that were drained and are not added yet are part of the place.
\<close>

datatype lock_holder = Committer | Client

datatype commit_place =
    At_Top | At_Lock | At_Take | At_Add "(u64 \<times> string) list" | At_Commit | At_Check | Finished

datatype client_place =
    Idle | Try_Lock u64 string | Enqueue u64 string | Take_Queue u64 string | Add_Documents "(u64 \<times> string) list"

text \<open>
  \<open>ix_next\<close> is the number the database reserves for the next message, \<open>ix_given\<close> the calls of \<^verbatim>\<open>write\<close> so far, \<open>ix_failed\<close> whether a
  commit has failed.
\<close>

record log_indexer =
  ix_queue :: doc_queue
  ix_dirty :: bool
  ix_running :: bool
  ix_lock :: "lock_holder option"
  ix_added :: "document list"
  ix_committed :: "document list"
  ix_commit :: commit_place
  ix_client :: client_place
  ix_next :: u64
  ix_given :: "(u64 \<times> string) list"
  ix_failed :: bool

definition indexer_new :: "u64 \<Rightarrow> log_indexer" where
  "indexer_new n =
     \<lparr>ix_queue = queue_default, ix_dirty = False, ix_running = True, ix_lock = None, ix_added = [], ix_committed = [],
      ix_commit = At_Top, ix_client = Idle, ix_next = n, ix_given = [], ix_failed = False\<rparr>"

inductive client_step :: "log_indexer \<Rightarrow> log_indexer \<Rightarrow> bool" where
  write_begin: "ix_client st = Idle \<Longrightarrow> ix_running st \<Longrightarrow>
     client_step st (st\<lparr>ix_client := Try_Lock (ix_next st) msg, ix_next := ix_next st + 1, ix_given := ix_given st @ [(ix_next st, msg)]\<rparr>)"
| try_ok: "ix_client st = Try_Lock i msg \<Longrightarrow> ix_lock st = None \<Longrightarrow>
     client_step st (st\<lparr>ix_client := Take_Queue i msg, ix_lock := Some Client\<rparr>)"
| try_busy: "ix_client st = Try_Lock i msg \<Longrightarrow> ix_lock st \<noteq> None \<Longrightarrow> client_step st (st\<lparr>ix_client := Enqueue i msg\<rparr>)"
| client_enqueue: "ix_client st = Enqueue i msg \<Longrightarrow> client_step st (st\<lparr>ix_client := Idle, ix_queue := enqueue i msg (ix_queue st)\<rparr>)"
| client_take: "ix_client st = Take_Queue i msg \<Longrightarrow>
     client_step st (st\<lparr>ix_client := Add_Documents (drain (ix_queue st) @ [(i, msg)]), ix_queue := queue_default\<rparr>)"
| client_add: "ix_client st = Add_Documents (d # ds) \<Longrightarrow>
     client_step st (st\<lparr>ix_client := Add_Documents ds, ix_added := ix_added st @ [prepare_doc d]\<rparr>)"
| client_done: "ix_client st = Add_Documents [] \<Longrightarrow> client_step st (st\<lparr>ix_client := Idle, ix_dirty := True, ix_lock := None\<rparr>)"
| client_drop: "ix_client st = Idle \<Longrightarrow> client_step st (st\<lparr>ix_running := False\<rparr>)"

inductive commit_step :: "log_indexer \<Rightarrow> log_indexer \<Rightarrow> bool" where
  tick: "ix_commit st = At_Top \<Longrightarrow> commit_step st (st\<lparr>ix_commit := (if ix_dirty st then At_Lock else At_Check), ix_dirty := False\<rparr>)"
| lock_writer: "ix_commit st = At_Lock \<Longrightarrow> ix_lock st = None \<Longrightarrow> commit_step st (st\<lparr>ix_commit := At_Take, ix_lock := Some Committer\<rparr>)"
| take_queue: "ix_commit st = At_Take \<Longrightarrow> \<not> queue_is_empty (ix_queue st) \<Longrightarrow>
     commit_step st (st\<lparr>ix_commit := At_Add (drain (ix_queue st)), ix_queue := queue_default\<rparr>)"
| take_nothing: "ix_commit st = At_Take \<Longrightarrow> queue_is_empty (ix_queue st) \<Longrightarrow> commit_step st (st\<lparr>ix_commit := At_Commit\<rparr>)"
| add_document: "ix_commit st = At_Add (d # ds) \<Longrightarrow>
     commit_step st (st\<lparr>ix_commit := At_Add ds, ix_added := ix_added st @ [prepare_doc d]\<rparr>)"
| mark_dirty: "ix_commit st = At_Add [] \<Longrightarrow> commit_step st (st\<lparr>ix_commit := At_Commit, ix_dirty := True\<rparr>)"
| commit_ok: "ix_commit st = At_Commit \<Longrightarrow>
     commit_step st (st\<lparr>ix_commit := At_Check, ix_committed := ix_committed st @ ix_added st, ix_added := [], ix_lock := None\<rparr>)"
| commit_failed: "ix_commit st = At_Commit \<Longrightarrow> commit_step st (st\<lparr>ix_commit := At_Check, ix_failed := True, ix_lock := None\<rparr>)"
| check_running: "ix_commit st = At_Check \<Longrightarrow> commit_step st (st\<lparr>ix_commit := (if ix_running st then At_Top else Finished)\<rparr>)"

inductive indexer_reachable :: "log_indexer \<Rightarrow> bool" where
  start: "indexer_reachable (indexer_new n)"
| by_client: "indexer_reachable st \<Longrightarrow> client_step st st' \<Longrightarrow> indexer_reachable st'"
| by_committer: "indexer_reachable st \<Longrightarrow> commit_step st st' \<Longrightarrow> indexer_reachable st'"

section \<open>Nothing is lost or reordered\<close>

definition doc_pair :: "document \<Rightarrow> u64 \<times> string" where
  "doc_pair d = (doc_id d, doc_message d)"

lemma doc_pair_prepare [simp]: "doc_pair (prepare_doc p) = p"
  by (cases p) (simp add: doc_pair_def prepare_doc_def)

fun commit_batch :: "commit_place \<Rightarrow> (u64 \<times> string) list" where
  "commit_batch (At_Add ds) = ds"
| "commit_batch _ = []"

fun client_batch :: "client_place \<Rightarrow> (u64 \<times> string) list" where
  "client_batch (Add_Documents ds) = ds"
| "client_batch _ = []"

fun client_pending :: "client_place \<Rightarrow> (u64 \<times> string) list" where
  "client_pending (Try_Lock i msg) = [(i, msg)]"
| "client_pending (Enqueue i msg) = [(i, msg)]"
| "client_pending (Take_Queue i msg) = [(i, msg)]"
| "client_pending _ = []"

definition in_flight :: "log_indexer \<Rightarrow> (u64 \<times> string) list" where
  "in_flight st = commit_batch (ix_commit st) @ client_batch (ix_client st) @ drain (ix_queue st) @ client_pending (ix_client st)"

fun commit_locks :: "commit_place \<Rightarrow> bool" where
  "commit_locks At_Take = True"
| "commit_locks (At_Add _) = True"
| "commit_locks At_Commit = True"
| "commit_locks _ = False"

fun client_locks :: "client_place \<Rightarrow> bool" where
  "client_locks (Take_Queue _ _) = True"
| "client_locks (Add_Documents _) = True"
| "client_locks _ = False"

lemma batch_locked [simp]: "\<not> commit_locks c \<Longrightarrow> commit_batch c = []" "\<not> client_locks d \<Longrightarrow> client_batch d = []"
  by (cases c; simp) (cases d; simp)

text \<open>The numbers in the queue and the one that is pending come right before the next number.\<close>

definition numbered :: "log_indexer \<Rightarrow> bool" where
  "numbered st \<longleftrightarrow>
     (\<forall>i msg. client_pending (ix_client st) = [(i, msg)] \<longrightarrow> i + 1 = ix_next st) \<and>
     (dq_messages (ix_queue st) \<noteq> [] \<longrightarrow>
        dq_start_id (ix_queue st) + word_of_nat (length (dq_messages (ix_queue st))) +
        word_of_nat (length (client_pending (ix_client st))) = ix_next st)"

definition locked :: "log_indexer \<Rightarrow> bool" where
  "locked st \<longleftrightarrow> (commit_locks (ix_commit st) \<longleftrightarrow> ix_lock st = Some Committer) \<and> (client_locks (ix_client st) \<longleftrightarrow> ix_lock st = Some Client) \<and>
     (client_batch (ix_client st) \<noteq> [] \<longrightarrow> queue_is_empty (ix_queue st))"

text \<open>A document that is added and not committed will be seen by the thread that commits, unless a commit has failed.\<close>

definition noticed :: "log_indexer \<Rightarrow> bool" where
  "noticed st \<longleftrightarrow> ix_failed st \<or> ix_added st = [] \<or> ix_dirty st \<or> commit_locks (ix_commit st) \<or> ix_commit st = At_Lock \<or> client_locks (ix_client st)"

definition complete :: "log_indexer \<Rightarrow> bool" where
  "complete st \<longleftrightarrow> map doc_pair (ix_committed st @ ix_added st) @ in_flight st = ix_given st"

definition index_inv :: "log_indexer \<Rightarrow> bool" where
  "index_inv st \<longleftrightarrow> complete st \<and> numbered st \<and> locked st \<and> noticed st"

lemma drain_default [simp]: "drain queue_default = []"
  by (simp add: drain_def queue_default_def)

lemma drain_empty [simp]: "queue_is_empty q \<Longrightarrow> drain q = []"
  by (simp add: drain_def queue_is_empty_def)

lemma queue_default_empty [simp]: "queue_is_empty queue_default" "dq_messages queue_default = []"
  by (simp_all add: queue_is_empty_def queue_default_def)

lemma drain_enqueue:
  assumes "dq_messages q \<noteq> [] \<Longrightarrow> dq_start_id q + word_of_nat (length (dq_messages q)) = i"
  shows "drain (enqueue i msg q) = drain q @ [(i, msg)]"
  using assms by (cases "dq_messages q = []") (auto simp: enqueue_def drain_def enumerate_append_eq Let_def)

lemma client_step_inv: "client_step st st' \<Longrightarrow> index_inv st \<Longrightarrow> index_inv st'"
proof (induction rule: client_step.induct)
  case (client_enqueue st i msg)
  then have n: "i + 1 = ix_next st" by (auto simp: index_inv_def numbered_def)
  have "dq_start_id (ix_queue st) + word_of_nat (length (dq_messages (ix_queue st))) = i" if "dq_messages (ix_queue st) \<noteq> []"
  proof -
    have "dq_start_id (ix_queue st) + word_of_nat (length (dq_messages (ix_queue st))) + 1 = i + 1"
      using client_enqueue that n by (simp add: index_inv_def numbered_def)
    then show ?thesis by (simp only: add_right_cancel)
  qed
  then have "drain (enqueue i msg (ix_queue st)) = drain (ix_queue st) @ [(i, msg)]" by (rule drain_enqueue)
  then show ?case
    using client_enqueue n
    by (auto simp: index_inv_def complete_def in_flight_def numbered_def locked_def noticed_def enqueue_def Let_def algebra_simps)
qed (auto simp: index_inv_def complete_def in_flight_def numbered_def locked_def noticed_def algebra_simps)

lemma commit_step_inv: "commit_step st st' \<Longrightarrow> index_inv st \<Longrightarrow> index_inv st'"
  by (induction rule: commit_step.induct)
    (auto simp: index_inv_def complete_def in_flight_def numbered_def locked_def noticed_def)

lemma indexer_reachable_inv: "indexer_reachable st \<Longrightarrow> index_inv st"
proof (induction rule: indexer_reachable.induct)
  case (start n)
  show ?case
    by (simp add: indexer_new_def index_inv_def complete_def in_flight_def numbered_def locked_def noticed_def)
qed (blast intro: client_step_inv commit_step_inv)+

text \<open>Nothing is under way: no thread is between its actions, the queue is empty and there is nothing to commit.\<close>

definition quiet :: "log_indexer \<Rightarrow> bool" where
  "quiet st \<longleftrightarrow> \<not> ix_failed st \<and> \<not> ix_dirty st \<and> ix_commit st \<in> {At_Top, At_Check, Finished} \<and> ix_client st = Idle \<and> queue_is_empty (ix_queue st)"

text \<open>
  C17: The index neither loses nor reorders. Under every interleaving of the thread that stores logs and the thread that commits, the messages that
  were committed, those that were added, and those that are under way (drained, queued, or about to be), in this order, are exactly the messages
  that were written, each with its own number, although the queue keeps only the number of its first message. When nothing is under way, no
  commit has failed and the queue is empty, all messages are committed.
\<close>

theorem index_complete:
  assumes "indexer_reachable st"
  shows "map doc_pair (ix_committed st @ ix_added st) @ in_flight st = ix_given st \<and> (quiet st \<longrightarrow> map doc_pair (ix_committed st) = ix_given st)"
proof -
  have "index_inv st" using indexer_reachable_inv [OF assms] .
  moreover from this have "quiet st \<longrightarrow> in_flight st = [] \<and> ix_added st = []"
    by (auto simp: quiet_def index_inv_def in_flight_def noticed_def locked_def)
  ultimately show ?thesis by (auto simp: index_inv_def complete_def)
qed

text \<open>A run in which the second message arrives while the first is being committed.\<close>

definition first_written :: log_indexer where
  "first_written = (indexer_new 0)\<lparr>ix_dirty := True, ix_added := [\<lparr>doc_message = ''a'', doc_id = 0\<rparr>], ix_next := 1, ix_given := [(0, ''a'')]\<rparr>"

lemma first_written_reachable: "indexer_reachable first_written"
proof -
  let ?s1 = "(indexer_new 0)\<lparr>ix_client := Try_Lock 0 ''a'', ix_next := 1, ix_given := [(0, ''a'')]\<rparr>"
  have s1: "indexer_reachable ?s1"
    using indexer_reachable.by_client [OF indexer_reachable.start [of 0] write_begin [of _ "''a''"]] by (simp add: indexer_new_def)
  let ?s2 = "?s1\<lparr>ix_client := Take_Queue 0 ''a'', ix_lock := Some Client\<rparr>"
  have s2: "indexer_reachable ?s2" using indexer_reachable.by_client [OF s1 try_ok] by (simp add: indexer_new_def)
  let ?s3 = "?s2\<lparr>ix_client := Add_Documents [(0, ''a'')]\<rparr>"
  have s3: "indexer_reachable ?s3" using indexer_reachable.by_client [OF s2 client_take] by (simp add: indexer_new_def)
  let ?s4 = "?s3\<lparr>ix_client := Add_Documents [], ix_added := [\<lparr>doc_message = ''a'', doc_id = 0\<rparr>]\<rparr>"
  have s4: "indexer_reachable ?s4"
    using indexer_reachable.by_client [OF s3 client_add] by (simp add: indexer_new_def prepare_doc_def)
  show ?thesis using indexer_reachable.by_client [OF s4 client_done] by (simp add: indexer_new_def first_written_def)
qed

theorem index_complete_witness:
  "map doc_pair (ix_committed first_written @ ix_added first_written) @ in_flight first_written = [(0, ''a'')]"
  using index_complete [OF first_written_reachable] by (simp add: first_written_def)

text \<open>
  C40: The last messages may never be searchable. A message that is written while the thread that commits holds the lock waits in the queue, and nothing
  marks the index as changed: there is a run, without any failure, at whose end both threads are done and a message was written that is
  neither committed nor added.
\<close>

theorem index_drops_last:
  "\<exists>st. indexer_reachable st \<and> \<not> ix_failed st \<and> ix_commit st = Finished \<and> ix_client st = Idle \<and>
     ix_given st = [(0, ''a''), (1, ''b'')] \<and> map doc_pair (ix_committed st @ ix_added st) = [(0, ''a'')]"
proof -
  let ?c1 = "first_written\<lparr>ix_commit := At_Lock, ix_dirty := False\<rparr>"
  have c1: "indexer_reachable ?c1"
    using indexer_reachable.by_committer [OF first_written_reachable tick] by (simp add: first_written_def indexer_new_def)
  let ?c2 = "?c1\<lparr>ix_commit := At_Take, ix_lock := Some Committer\<rparr>"
  have c2: "indexer_reachable ?c2"
    using indexer_reachable.by_committer [OF c1 lock_writer] by (simp add: first_written_def indexer_new_def)
  let ?c3 = "?c2\<lparr>ix_commit := At_Commit\<rparr>"
  have c3: "indexer_reachable ?c3"
    using indexer_reachable.by_committer [OF c2 take_nothing] by (simp add: first_written_def indexer_new_def)
  let ?d1 = "?c3\<lparr>ix_client := Try_Lock 1 ''b'', ix_next := 2, ix_given := [(0, ''a''), (1, ''b'')]\<rparr>"
  have d1: "indexer_reachable ?d1"
    using indexer_reachable.by_client [OF c3 write_begin [of _ "''b''"]] by (simp add: first_written_def indexer_new_def)
  let ?d2 = "?d1\<lparr>ix_client := Enqueue 1 ''b''\<rparr>"
  have d2: "indexer_reachable ?d2" using indexer_reachable.by_client [OF d1 try_busy] by (simp add: first_written_def indexer_new_def)
  let ?d3 = "?d2\<lparr>ix_client := Idle, ix_queue := \<lparr>dq_start_id = 1, dq_messages = [''b'']\<rparr>\<rparr>"
  have d3: "indexer_reachable ?d3"
    using indexer_reachable.by_client [OF d2 client_enqueue]
    by (simp add: first_written_def indexer_new_def enqueue_def queue_default_def)
  let ?e1 = "?d3\<lparr>ix_commit := At_Check, ix_committed := [\<lparr>doc_message = ''a'', doc_id = 0\<rparr>], ix_added := [], ix_lock := None\<rparr>"
  have e1: "indexer_reachable ?e1"
    using indexer_reachable.by_committer [OF d3 commit_ok] by (simp add: first_written_def indexer_new_def)
  let ?e2 = "?e1\<lparr>ix_running := False\<rparr>"
  have e2: "indexer_reachable ?e2" using indexer_reachable.by_client [OF e1 client_drop] by (simp add: first_written_def indexer_new_def)
  let ?e3 = "?e2\<lparr>ix_commit := Finished\<rparr>"
  have e3: "indexer_reachable ?e3"
    using indexer_reachable.by_committer [OF e2 check_running] by (simp add: first_written_def indexer_new_def)
  have f: "\<not> ix_failed ?e3 \<and> ix_commit ?e3 = Finished \<and> ix_client ?e3 = Idle \<and> ix_given ?e3 = [(0, ''a''), (1, ''b'')] \<and>
      map doc_pair (ix_committed ?e3 @ ix_added ?e3) = [(0, ''a'')]"
    by (simp add: first_written_def indexer_new_def doc_pair_def)
  show ?thesis by (rule exI [of _ ?e3]) (rule conjI [OF e3 f])
qed

end
