(* ===== verification/Log_Client.thy ===== *)
theory Log_Client
  imports Db_Store "HOL-Library.Signed_Division"
begin

text \<open>
  The thread that receives the logs of a node, \<^verbatim>\<open>tezedge-recorder/src/log_client.rs\<close>, and the program that generates such logs for a test, the
  commands \<^verbatim>\<open>Log\<close> of \<^verbatim>\<open>tezedge-recorder/src/bin/pseudonode.rs\<close>. The parser of syslog messages is a crate outside the repository and
  an argument, as are the clock, the dates and the random words.
\<close>

section \<open>Receiving\<close>

record log_env =
  le_from_utf8 :: "bytes \<Rightarrow> string option"
  le_parse_message :: "string \<Rightarrow> syslog_message"
  le_nanos :: "nat \<Rightarrow> 128 word"

text \<open>What \<^verbatim>\<open>recv\<close> returns while the program runs: a timeout, another failure, or a datagram, of which the buffer takes 64 KiB.\<close>

datatype received = Recv_Timeout | Recv_Failed | Recv_Datagram bytes

fun log_client_turn :: "'st kv \<Rightarrow> log_env \<Rightarrow> nat \<Rightarrow> received \<Rightarrow> 'st db \<Rightarrow> panic + 'st db" where
  "log_client_turn kv env n (Recv_Datagram d) db =
     (case le_from_utf8 env (take 0x10000 d) of
        None \<Rightarrow> Inr db
      | Some log \<Rightarrow>
          and_then (log_from_syslog (le_nanos env n) (le_parse_message env log)) (\<lambda>item. Inr (store_log kv item db)))"
| "log_client_turn kv env n _ db = Inr db"

fun log_client_loop :: "'st kv \<Rightarrow> log_env \<Rightarrow> nat \<Rightarrow> received list \<Rightarrow> 'st db \<Rightarrow> panic + 'st db" where
  "log_client_loop kv env n [] db = Inr db"
| "log_client_loop kv env n (r # rs) db = and_then (log_client_turn kv env n r db) (log_client_loop kv env (Suc n) rs)"

section \<open>Generating\<close>

definition fake_stamp :: string where
  "fake_stamp = ''Jul 14 12:00:00.000''"

definition prepare_message :: "string \<Rightarrow> string \<Rightarrow> string \<Rightarrow> string" where
  "prepare_message local level text =
     ''<27>1 '' @ local @ '' wsvl eb3fdbc716e5 665 eb3fdbc716e5 - '' @ fake_stamp @ '' '' @ level @ '' some '' @ text"

definition range_level :: "int \<Rightarrow> string" where
  "range_level timestamp =
     (let r = timestamp smod 19 in
      if r \<in> {1, 4, 5, 8} then ''WARN'' else if r \<in> {7, 10} then ''ERROR'' else ''INFO'')"

definition range_text :: "string list \<Rightarrow> string" where
  "range_text ws = fold (\<lambda>w acc. acc @ '' '' @ w) ws ''''"

definition range_lines :: "(int \<Rightarrow> string) \<Rightarrow> int \<Rightarrow> int \<Rightarrow> int \<Rightarrow> (int \<Rightarrow> string list) \<Rightarrow> string list" where
  "range_lines local start_time a b ws =
     map (\<lambda>i. prepare_message (local (start_time + i)) (range_level (start_time + i)) (range_text (ws i))) [a..b - 1]"

definition log_words :: "string list" where
  "log_words = [''peer'', ''branch'', ''head'', ''chain'', ''address'', ''ip'', ''message'', ''connection'']"

text \<open>The words whose bits are set in \<open>i\<close>, in a shuffled order of the bits.\<close>

definition words_text :: "nat list \<Rightarrow> int \<Rightarrow> string" where
  "words_text bits i = fold (\<lambda>j acc. if bit i j then acc @ '' '' @ log_words ! j else acc) bits ''''"

definition words_lines :: "string \<Rightarrow> (int \<Rightarrow> nat list) \<Rightarrow> string list" where
  "words_lines local shuffled = map (\<lambda>i. prepare_message local ''INFO'' (words_text (shuffled i) i)) [1..255]"

section \<open>From the generator to the database\<close>

text \<open>
  What the crates promise of the lines in question. \<^verbatim>\<open>chrono\<close> writes a time in the format of RFC 3339, with at most 40 ASCII characters. ASCII bytes are
  UTF-8 text. A message of RFC 5424 whose time is such a date, and that carries no structured data, is its date in nanoseconds
  and its text, when the text consists of printable ASCII characters and has no space at its ends. Times are those
  from 1970 on whose nanoseconds are an \<^verbatim>\<open>i64\<close>.
\<close>

definition str_bytes :: "string \<Rightarrow> bytes" where
  "str_bytes s = map (\<lambda>c. word_of_nat (of_char c)) s"

definition in_time :: "int \<Rightarrow> bool" where
  "in_time t \<longleftrightarrow> 0 \<le> t \<and> t \<le> 9223372036"

definition printable :: "char \<Rightarrow> bool" where
  "printable c \<longleftrightarrow> 32 \<le> (of_char c :: nat) \<and> (of_char c :: nat) < 127"

definition plain_text :: "string \<Rightarrow> bool" where
  "plain_text line \<longleftrightarrow> line \<noteq> [] \<and> list_all printable line \<and> hd line \<notin> {CHR '' '', CHR ''[''} \<and> List.last line \<noteq> CHR '' ''"

definition log_laws :: "log_env \<Rightarrow> (int \<Rightarrow> string) \<Rightarrow> bool" where
  "log_laws env rfc3339 \<longleftrightarrow> (\<forall>s. is_ascii s \<longrightarrow> le_from_utf8 env (str_bytes s) = Some s) \<and>
     (\<forall>t. in_time t \<longrightarrow> length (rfc3339 t) \<le> 40 \<and> is_ascii (rfc3339 t)) \<and>
     (\<forall>t line. in_time t \<longrightarrow> plain_text line \<longrightarrow>
        le_parse_message env (''<27>1 '' @ rfc3339 t @ '' wsvl eb3fdbc716e5 665 eb3fdbc716e5 - '' @ line) =
        \<lparr>sm_timestamp = Some (word_of_int (t * 10 ^ 9)), sm_msg = line\<rparr>)"

text \<open>The random words: sixteen of sixteen hexadecimal digits.\<close>

definition random_words :: "string list \<Rightarrow> bool" where
  "random_words ws \<longleftrightarrow> length ws = 16 \<and> (\<forall>w \<in> set ws. length w = 16 \<and> set w \<subseteq> set ''0123456789abcdef'')"

definition range_severity :: "int \<Rightarrow> log_level" where
  "range_severity timestamp =
     (let r = timestamp smod 19 in if r \<in> {1, 4, 5, 8} then Warning else if r \<in> {7, 10} then Error else Info)"

definition generated_item :: "int \<Rightarrow> string \<Rightarrow> log_item" where
  "generated_item t text =
     \<lparr>log_level = range_severity t, log_timestamp = word_of_int (t * 10 ^ 9), log_section = '''', log_message = ''some '' @ text\<rparr>"

lemma generated_levels:
  "log_level_from_str ''WARN'' = Inr Warning" "log_level_from_str ''ERROR'' = Inr Error" "log_level_from_str ''INFO'' = Inr Info"
  by code_simp+

lemma range_level_parsed:
  "log_level_from_str (range_level t) = Inr (range_severity t)" "range_level t \<noteq> []" "\<forall>c \<in> set (range_level t). \<not> is_whitespace c"
  "list_all printable (range_level t)" "length (range_level t) \<le> 5"
  by (simp_all add: range_level_def range_severity_def generated_levels Let_def is_whitespace_def printable_def)

lemma printable_ascii: "list_all printable s \<Longrightarrow> is_ascii s"
  by (auto simp: is_ascii_def printable_def list_all_iff)

lemma range_text_snoc: "range_text (ws @ [w]) = range_text ws @ '' '' @ w"
  by (simp add: range_text_def)

lemma random_text:
  assumes "random_words ws"
  shows "list_all printable (range_text ws)" "length (range_text ws) = 272" "List.last (range_text ws) \<noteq> CHR '' ''"
proof -
  have "list_all printable (range_text us) \<and> length (range_text us) = 17 * length us"
    if "\<forall>w \<in> set us. length w = 16 \<and> set w \<subseteq> set ''0123456789abcdef''" for us
    using that
  proof (induction us rule: rev_induct)
    case (snoc w us)
    then have "list_all printable w" by (auto simp: list_all_iff printable_def)
    moreover have "printable CHR '' ''" by (simp add: printable_def)
    ultimately show ?case using snoc by (simp add: range_text_snoc)
  qed (simp add: range_text_def)
  then show "list_all printable (range_text ws)" "length (range_text ws) = 272" using assms by (simp_all add: random_words_def)
  obtain us w where us: "ws = us @ [w]" using assms by (cases ws rule: rev_cases) (auto simp: random_words_def)
  then have w: "length w = 16" "set w \<subseteq> set ''0123456789abcdef''" using assms by (simp_all add: random_words_def)
  then have "w \<noteq> []" by auto
  moreover from this have "List.last w \<in> set ''0123456789abcdef''" using w(2) last_in_set by blast
  ultimately show "List.last (range_text ws) \<noteq> CHR '' ''" by (auto simp: us range_text_snoc)
qed

lemma scast_nanos:
  assumes "in_time t"
  shows "scast (word_of_int (t * 10 ^ 9) :: 64 word) = (word_of_int (t * 10 ^ 9) :: 128 word)"
proof -
  have "signed_take_bit 63 (t * 10 ^ 9) = t * 10 ^ 9"
    using assms by (intro signed_take_bit_int_eq_self) (simp_all add: in_time_def)
  then show ?thesis by (simp only: signed_of_int) (simp del: of_int_mult)
qed

lemma prepared_message_parsed:
  assumes "log_laws env rfc3339" "in_time t" "random_words ws"
  shows "log_client_turn kv env n (Recv_Datagram (str_bytes (prepare_message (rfc3339 t) (range_level t) (range_text ws)))) db =
    Inr (store_log kv (generated_item t (range_text ws)) db)"
proof -
  let ?line = "fake_stamp @ '' '' @ range_level t @ '' some '' @ range_text ws" and ?p = "prepare_message (rfc3339 t) (range_level t) (range_text ws)"
  note r = random_text [OF assms(3)] and l = range_level_parsed [of t]
  have e: "?p = ''<27>1 '' @ rfc3339 t @ '' wsvl eb3fdbc716e5 665 eb3fdbc716e5 - '' @ ?line" by (simp add: prepare_message_def)
  have d: "length (rfc3339 t) \<le> 40" "is_ascii (rfc3339 t)" using assms(1,2) by (simp_all add: log_laws_def)
  have "range_text ws \<noteq> []" using r(2) by auto
  then have p: "plain_text ?line" using r(1,3) l(4) by (simp add: plain_text_def fake_stamp_def printable_def)
  then have m: "le_parse_message env ?p =
      \<lparr>sm_timestamp = Some (word_of_int (t * 10 ^ 9)), sm_msg = ''Jul 14 12:00:00'' @ ''.'' @ ''000'' @ '' '' @ range_level t @ '' '' @ ''some '' @ range_text ws\<rparr>"
    unfolding e using assms(1,2) by (simp add: log_laws_def fake_stamp_def)
  have "log_from_syslog (le_nanos env n) (le_parse_message env ?p) = Inr (generated_item t (range_text ws))"
    using log_from_syslog_rust [of "''Jul 14 12:00:00''" "''000''" "range_level t" "''some '' @ range_text ws" "le_parse_message env ?p" "le_nanos env n"]
      l printable_ascii [OF l(4)] m scast_nanos [OF assms(2)]
    by (simp add: generated_item_def begins_char_def)
  moreover have "is_ascii ?p" using d(2) printable_ascii [OF l(4)] printable_ascii [OF r(1)] by (simp add: prepare_message_def fake_stamp_def)
  then have "le_from_utf8 env (str_bytes ?p) = Some ?p" using assms(1) by (simp add: log_laws_def)
  moreover have "length (str_bytes ?p) \<le> 0x10000" using d(1) r(2) l(5) by (simp add: str_bytes_def prepare_message_def fake_stamp_def)
  ultimately show ?thesis by simp
qed

text \<open>A log that is stored without a limit is kept under the number of the counter, and the others stay.\<close>

lemma store_log_rows:
  fixes item
  assumes "kv_laws kv view" "kv_reliable kv" "db_log_store_limit db = None"
  defines "db' \<equiv> store_log kv item db"
  shows "view (db_inner db') (Sc_Log, kv_u64 kv j) =
      (if j = db_log_counter db then Some (Row_Log item) else view (db_inner db) (Sc_Log, kv_u64 kv j))"
    and "db_log_counter db' = db_log_counter db + 1" and "db_log_store_limit db' = None"
proof -
  let ?rows = "map (\<lambda>k. (k, Row_Unit)) (log_indexes item (db_log_counter db)) @ [(Key_Log (db_log_counter db), Row_Log item)]"
  obtain s where s: "kv_puts kv ?rows (db_inner db) = (Inr (), s)" "view s = view (db_inner db) ++ map_of (rev (locs kv ?rows))"
    using kv_puts_ok [OF assms(1,2)] by blast
  have "db_inner db' = s" using s(1) assms(3) by (simp add: db'_def store_log_def reserve_log_counter_def Let_def)
  moreover have "inj (kv_u64 kv)" using assms(1) by (simp add: kv_laws_def)
  ultimately show "view (db_inner db') (Sc_Log, kv_u64 kv j) =
      (if j = db_log_counter db then Some (Row_Log item) else view (db_inner db) (Sc_Log, kv_u64 kv j))"
    using s(2) by (auto simp: locs_def loc_def log_indexes_def map_add_def dest: injD)
qed (use assms(3) in \<open>simp_all add: db'_def store_log_def reserve_log_counter_def Let_def\<close>)

lemma store_logs_rows:
  assumes "kv_laws kv view" "kv_reliable kv" "db_log_store_limit db = None" "length items \<le> 2 ^ 64"
  defines "db' \<equiv> fold (store_log kv) items db"
  shows "db_log_counter db' = db_log_counter db + word_of_nat (length items)" "db_log_store_limit db' = None"
    "\<And>j. j < length items \<Longrightarrow> view (db_inner db') (Sc_Log, kv_u64 kv (db_log_counter db + word_of_nat j)) = Some (Row_Log (items ! j))"
proof -
  have "db_log_counter (fold (store_log kv) items db) = db_log_counter db + word_of_nat (length items) \<and>
      db_log_store_limit (fold (store_log kv) items db) = None \<and>
      (\<forall>j < length items. view (db_inner (fold (store_log kv) items db)) (Sc_Log, kv_u64 kv (db_log_counter db + word_of_nat j)) =
         Some (Row_Log (items ! j)))"
    using assms(4)
  proof (induction items rule: rev_induct)
    case (snoc x xs)
    let ?db = "fold (store_log kv) xs db"
    have ih: "db_log_counter ?db = db_log_counter db + word_of_nat (length xs)" "db_log_store_limit ?db = None"
        "\<forall>j < length xs. view (db_inner ?db) (Sc_Log, kv_u64 kv (db_log_counter db + word_of_nat j)) = Some (Row_Log (xs ! j))"
      using snoc by simp_all
    have ne: "word_of_nat j \<noteq> (word_of_nat (length xs) :: u64)" if "j < length xs" for j
    proof
      assume "word_of_nat j = (word_of_nat (length xs) :: u64)"
      moreover have "length xs < 2 ^ LENGTH(64)" "j < 2 ^ LENGTH(64)" using that snoc.prems by simp_all
      ultimately show False using that by (metis of_nat_inverse less_irrefl)
    qed
    have "view (db_inner (store_log kv x ?db)) (Sc_Log, kv_u64 kv (db_log_counter db + word_of_nat j)) = Some (Row_Log ((xs @ [x]) ! j))"
      if "j < Suc (length xs)" for j
    proof (cases "j < length xs")
      case True
      then show ?thesis using store_log_rows(1) [OF assms(1,2) ih(2), of x] ih(1,3) ne [OF True] by (simp add: nth_append)
    next
      case False
      then have "j = length xs" using that by simp
      then show ?thesis using store_log_rows(1) [OF assms(1,2) ih(2), of x] ih(1) by simp
    qed
    then show ?case using store_log_rows(2,3) [OF assms(1,2) ih(2), of x] ih(1) by simp
  qed (simp add: assms(3))
  then show "db_log_counter db' = db_log_counter db + word_of_nat (length items)" "db_log_store_limit db' = None"
    "\<And>j. j < length items \<Longrightarrow> view (db_inner db') (Sc_Log, kv_u64 kv (db_log_counter db + word_of_nat j)) = Some (Row_Log (items ! j))"
    by (simp_all add: db'_def)
qed

text \<open>
  C20: Generated logs are recorded. When every datagram that the generator sends for a range of times (from 1970 on, with nanoseconds within an
  \<^verbatim>\<open>i64\<close>) arrives, the log client does not panic, and a database without a limit on the logs has afterwards for every time of the range
  exactly one new log, under consecutive numbers in the order of the times: with the severity that the generator chose for the time, the time itself
  in nanoseconds, and the text with its random words.
\<close>

theorem generated_logs_recorded:
  assumes "log_laws env rfc3339" "in_time (start_time + a)" "in_time (start_time + b - 1)" "a \<le> b" "\<forall>i. random_words (ws i)"
    "kv_laws kv view" "kv_reliable kv" "db_log_store_limit db = None"
  shows "\<exists>db'. log_client_loop kv env n (map (\<lambda>line. Recv_Datagram (str_bytes line)) (range_lines rfc3339 start_time a b ws)) db = Inr db' \<and>
    db_log_counter db' = db_log_counter db + word_of_int (b - a) \<and>
    (\<forall>i \<in> {a..<b}. get_log kv (db_log_counter db + word_of_int (i - a)) (db_inner db') =
      Inr (Some (generated_item (start_time + i) (range_text (ws i)))))"
proof -
  let ?item = "\<lambda>i. generated_item (start_time + i) (range_text (ws i))" and ?is = "[a..b - 1]"
  let ?db = "fold (store_log kv) (map ?item ?is) db"
  have "log_client_loop kv env n
      (map (\<lambda>i. Recv_Datagram (str_bytes (prepare_message (rfc3339 (start_time + i)) (range_level (start_time + i)) (range_text (ws i))))) js) db =
    Inr (fold (store_log kv) (map ?item js) db)"
    if "set js \<subseteq> {a..<b}" for js
    using that
  proof (induction js arbitrary: n db)
    case (Cons i js)
    have "in_time (start_time + i)" using Cons.prems assms(2,3) by (simp add: in_time_def)
    then show ?case using Cons assms(5) by (simp add: prepared_message_parsed [OF assms(1)] del: log_client_turn.simps)
  qed simp
  from this [of ?is] have l: "log_client_loop kv env n (map (\<lambda>line. Recv_Datagram (str_bytes line)) (range_lines rfc3339 start_time a b ws)) db = Inr ?db"
    by (simp add: range_lines_def o_def subset_iff)
  have len: "length (map ?item ?is) = nat (b - a)" by simp
  have "nat (b - a) \<le> 2 ^ 64" using assms(2,3) by (simp add: in_time_def nat_le_iff)
  note r = store_logs_rows [OF assms(6-8), of "map ?item ?is", unfolded len, OF this]
  have c: "db_log_counter ?db = db_log_counter db + word_of_int (b - a)"
    using r(1) assms(4) by simp
  have g: "get_log kv (db_log_counter db + word_of_int (i - a)) (db_inner ?db) = Inr (Some (?item i))" if i: "i \<in> {a..<b}" for i
  proof -
    have "nat (i - a) < nat (b - a)" "(map ?item ?is) ! nat (i - a) = ?item i" using i by (auto simp: nth_upto)
    then have "view (db_inner ?db) (Sc_Log, kv_u64 kv (db_log_counter db + word_of_int (i - a))) = Some (Row_Log (?item i))"
      using r(3) [of "nat (i - a)"] i by simp
    then show ?thesis using kv_get_ok [OF assms(6,7), of "Key_Log (db_log_counter db + word_of_int (i - a))" "db_inner ?db"]
      by (simp add: get_log_def loc_def map_ok_def)
  qed
  show ?thesis using l c g by blast
qed

text \<open>Dates and a parser that reads them back: here a date shows the bits of the seconds.\<close>

definition sample_rfc3339 :: "int \<Rightarrow> string" where
  "sample_rfc3339 t = map (\<lambda>i. if bit t i then CHR ''1'' else CHR ''0'') [0..<34]"

definition sample_log_env :: log_env where
  "sample_log_env =
     \<lparr>le_from_utf8 = (\<lambda>b. Some (map (\<lambda>w. char_of (unat w)) b)),
      le_parse_message = (\<lambda>s.
        \<lparr>sm_timestamp = Some (word_of_int (horner_sum of_bool 2 (map (\<lambda>c. c = CHR ''1'') (take 34 (drop 6 s))) * 10 ^ 9)), sm_msg = drop 78 s\<rparr>),
      le_nanos = (\<lambda>n. 0)\<rparr>"

lemma sample_log_laws: "log_laws sample_log_env sample_rfc3339"
proof -
  have c: "char_of (unat (word_of_nat (of_char c) :: u8)) = c" for c :: char
    by (subst unat_of_nat) simp
  have d: "length (sample_rfc3339 t) = 34" "is_ascii (sample_rfc3339 t)" for t
    by (auto simp: sample_rfc3339_def is_ascii_def list_all_iff)
  have b: "horner_sum of_bool 2 (map (\<lambda>c. c = CHR ''1'') (sample_rfc3339 t)) = t" if "in_time t" for t
  proof -
    have "map (\<lambda>c. c = CHR ''1'') (sample_rfc3339 t) = map (bit t) [0..<34]" by (simp add: sample_rfc3339_def)
    moreover have "take_bit 34 t = t" using that by (intro take_bit_int_eq_self) (simp_all add: in_time_def)
    ultimately show ?thesis using horner_sum_bit_eq_take_bit [of t 34] by simp
  qed
  have "take 34 (drop 6 (''<27>1 '' @ sample_rfc3339 t @ r)) = sample_rfc3339 t" for t r using d(1) [of t] by simp
  moreover have "drop 78 (''<27>1 '' @ sample_rfc3339 t @ '' wsvl eb3fdbc716e5 665 eb3fdbc716e5 - '' @ line) = line" for t line using d(1) [of t] by simp
  ultimately show ?thesis unfolding log_laws_def using b c d by (simp add: sample_log_env_def str_bytes_def o_def)
qed

definition sample_words :: "string list" where
  "sample_words = replicate 16 ''0123456789abcdef''"

theorem generated_logs_recorded_witness:
  "\<exists>db'. log_client_loop sample_kv sample_log_env 0
      (map (\<lambda>line. Recv_Datagram (str_bytes line)) (range_lines sample_rfc3339 1600000000 5000 10000 (\<lambda>i. sample_words))) sample_db = Inr db' \<and>
    db_log_counter db' = 5000 \<and>
    get_log sample_kv 7 (db_inner db') = Inr (Some (generated_item 1600005007 (range_text sample_words)))"
proof -
  have "random_words sample_words" by (simp add: random_words_def sample_words_def)
  then obtain db' where d: "log_client_loop sample_kv sample_log_env 0
      (map (\<lambda>line. Recv_Datagram (str_bytes line)) (range_lines sample_rfc3339 1600000000 5000 10000 (\<lambda>i. sample_words))) sample_db = Inr db'"
      "db_log_counter db' = db_log_counter sample_db + word_of_int (10000 - 5000)"
      "\<forall>i \<in> {5000..<10000}. get_log sample_kv (db_log_counter sample_db + word_of_int (i - 5000)) (db_inner db') =
        Inr (Some (generated_item (1600000000 + i) (range_text sample_words)))"
    using generated_logs_recorded [OF sample_log_laws, of 1600000000 5000 10000 "\<lambda>i. sample_words" sample_kv map_of sample_db 0]
      sample_kv_laws sample_kv_reliable by (auto simp: in_time_def sample_db_def)
  from d(3) have "get_log sample_kv 7 (db_inner db') = Inr (Some (generated_item 1600005007 (range_text sample_words)))"
    by (elim ballE [of _ _ 5007]) (simp_all add: sample_db_def)
  then show ?thesis using d(1,2) by (intro exI [of _ db']) (simp add: sample_db_def)
qed

end
