(* ===== verification/Recorder_Server.thy ===== *)
theory Recorder_Server
  imports Db_Store
begin

text \<open>
  The HTTP interface of the recorder, \<^verbatim>\<open>tezedge-recorder/src/server.rs\<close>. A route is a function from requests to answers that may reject; the
  combinators of the web framework are their documented meaning: a path matches as a whole, and the second of two alternatives is tried
  when the first rejects. Parsing the query string into a filter is derived code and an argument.
\<close>

section \<open>Requests and answers\<close>

record http_request =
  rq_is_get :: bool
  rq_path :: "string list"
  rq_query :: string

datatype status = Status_Ok | Status_Not_Found | Status_Internal

datatype server_error = Err_Database db_error | Err_Chunk_Key chunk_key_error | Err_No_Node string

datatype ('c, 'm, 'a, 'p) answer_body =
    Body_Connections "(connection_key \<times> connection_value) list"
  | Body_Chunks "(chunk_key \<times> chunk_value) list"
  | Body_Chunk "chunk_value option"
  | Body_Messages "message_frontend list"
  | Body_Message "('c, 'm, 'a, 'p) message_details option"
  | Body_Logs "log_item_with_id list"
  | Body_Version string
  | Body_Openapi
  | Body_Error server_error

type_synonym ('c, 'm, 'a, 'p) answer = "panic + status \<times> ('c, 'm, 'a, 'p) answer_body"

type_synonym ('c, 'm, 'a, 'p) route = "http_request \<Rightarrow> ('c, 'm, 'a, 'p) answer option"

record query_env =
  qe_connections :: "string \<Rightarrow> connections_filter option"
  qe_chunks :: "string \<Rightarrow> chunks_filter option"
  qe_messages :: "string \<Rightarrow> messages_filter option"
  qe_logs :: "string \<Rightarrow> logs_filter option"
  qe_none :: "string \<Rightarrow> unit option"
  qe_git_hash :: string

definition or_route :: "('c, 'm, 'a, 'p) route \<Rightarrow> ('c, 'm, 'a, 'p) route \<Rightarrow> ('c, 'm, 'a, 'p) route" where
  "or_route f g rq = (case f rq of Some x \<Rightarrow> Some x | None \<Rightarrow> g rq)"

text \<open>A fixed path with a query.\<close>

definition path_query :: "string list \<Rightarrow> (string \<Rightarrow> 'f option) \<Rightarrow> ('f \<Rightarrow> ('c, 'm, 'a, 'p) answer) \<Rightarrow> ('c, 'm, 'a, 'p) route" where
  "path_query path parse handler rq = (if rq_path rq = path then map_option handler (parse (rq_query rq)) else None)"

definition reply_result :: "('b \<Rightarrow> ('c, 'm, 'a, 'p) answer_body) \<Rightarrow> db_error + 'b \<Rightarrow> status \<times> ('c, 'm, 'a, 'p) answer_body" where
  "reply_result ok r = (case r of Inr v \<Rightarrow> (Status_Ok, ok v) | Inl e \<Rightarrow> (Status_Internal, Body_Error (Err_Database e)))"

section \<open>The routes of one node\<close>

definition route_connections :: "query_env \<Rightarrow> ('st, 'c, 'm, 'a, 'p) db_env \<Rightarrow> 'st db \<Rightarrow> ('c, 'm, 'a, 'p) route" where
  "route_connections qe env db =
     path_query [''v3'', ''connections''] (qe_connections qe)
       (\<lambda>filter. Inr (reply_result Body_Connections (fetch_connections (de_kv env) filter (db_inner db))))"

definition route_chunks :: "query_env \<Rightarrow> ('st, 'c, 'm, 'a, 'p) db_env \<Rightarrow> 'st db \<Rightarrow> ('c, 'm, 'a, 'p) route" where
  "route_chunks qe env db =
     path_query [''v3'', ''chunks''] (qe_chunks qe)
       (\<lambda>filter. map_ok (reply_result Body_Chunks) (fetch_chunks_truncated (de_kv env) filter (db_inner db)))"

definition chunk_inner :: "('st, 'c, 'm, 'a, 'p) db_env \<Rightarrow> 'st db \<Rightarrow> string \<Rightarrow> server_error + chunk_value option" where
  "chunk_inner env db chunk_id =
     (case chunk_key_from_str chunk_id of
        Inl e \<Rightarrow> Inl (Err_Chunk_Key e)
      | Inr key \<Rightarrow> (case fetch_chunk (de_kv env) key (db_inner db) of Inl e \<Rightarrow> Inl (Err_Database e) | Inr v \<Rightarrow> Inr v))"

definition route_chunk :: "('st, 'c, 'm, 'a, 'p) db_env \<Rightarrow> 'st db \<Rightarrow> ('c, 'm, 'a, 'p) route" where
  "route_chunk env db rq =
     (case rq_path rq of
        [v, c, chunk_id] \<Rightarrow>
          if v = ''v3'' \<and> c = ''chunk''
          then Some (Inr (case chunk_inner env db chunk_id of Inr v \<Rightarrow> (Status_Ok, Body_Chunk v) | Inl e \<Rightarrow> (Status_Internal, Body_Error e)))
          else None
      | _ \<Rightarrow> None)"

definition route_messages :: "query_env \<Rightarrow> ('st, 'c, 'm, 'a, 'p) db_env \<Rightarrow> 'st db \<Rightarrow> ('c, 'm, 'a, 'p) route" where
  "route_messages qe env db =
     path_query [''v3'', ''messages''] (qe_messages qe)
       (\<lambda>filter. map_ok (reply_result Body_Messages) (fetch_messages env filter (db_inner db)))"

definition path_number :: "string \<Rightarrow> u64 option" where
  "path_number s = (case parse_uint s of Inr i \<Rightarrow> Some i | Inl e \<Rightarrow> None)"

definition route_message :: "('st, 'c, 'm, 'a, 'p) db_env \<Rightarrow> 'st db \<Rightarrow> ('c, 'm, 'a, 'p) route" where
  "route_message env db rq =
     (case rq_path rq of
        [v, m, n] \<Rightarrow>
          if v = ''v3'' \<and> m = ''message''
          then map_option (\<lambda>i. Inr (reply_result Body_Message (fetch_message env i (db_inner db)))) (path_number n)
          else None
      | _ \<Rightarrow> None)"

definition route_logs :: "query_env \<Rightarrow> ('st, 'c, 'm, 'a, 'p) db_env \<Rightarrow> 'st db \<Rightarrow> ('c, 'm, 'a, 'p) route" where
  "route_logs qe env db =
     path_query [''v3'', ''logs''] (qe_logs qe) (\<lambda>filter. map_ok (reply_result Body_Logs) (fetch_log env filter db))"

definition route_version :: "query_env \<Rightarrow> ('c, 'm, 'a, 'p) route" where
  "route_version qe = path_query [''v2'', ''version''] (qe_none qe) (\<lambda>_. Inr (Status_Ok, Body_Version (qe_git_hash qe)))"

definition route_openapi :: "query_env \<Rightarrow> ('c, 'm, 'a, 'p) route" where
  "route_openapi qe = path_query [''openapi'', ''network-recorder-openapi.json''] (qe_none qe) (\<lambda>_. Inr (Status_Ok, Body_Openapi))"

definition routes :: "query_env \<Rightarrow> ('st, 'c, 'm, 'a, 'p) db_env \<Rightarrow> 'st db \<Rightarrow> ('c, 'm, 'a, 'p) route" where
  "routes qe env db rq =
     (if rq_is_get rq
      then or_route (or_route (or_route (or_route (or_route (or_route
             (route_connections qe env db) (route_chunks qe env db)) (route_chunk env db)) (route_messages qe env db)) (route_message env db))
             (route_logs qe env db)) (or_route (route_version qe) (route_openapi qe)) rq
      else None)"

section \<open>The older routes of all nodes\<close>

definition of_node ::
    "(string \<rightharpoonup> 'st db) \<Rightarrow> string option \<Rightarrow> ('st db \<Rightarrow> ('c, 'm, 'a, 'p) answer) \<Rightarrow> ('c, 'm, 'a, 'p) answer" where
  "of_node dbs node_name handler =
     (let n = (case node_name of Some n \<Rightarrow> n | None \<Rightarrow> ''tezedge'') in
      case dbs n of Some db \<Rightarrow> handler db | None \<Rightarrow> Inr (Status_Not_Found, Body_Error (Err_No_Node n)))"

definition route_p2p :: "query_env \<Rightarrow> ('st, 'c, 'm, 'a, 'p) db_env \<Rightarrow> (string \<rightharpoonup> 'st db) \<Rightarrow> ('c, 'm, 'a, 'p) route" where
  "route_p2p qe env dbs =
     path_query [''v2'', ''p2p''] (qe_messages qe)
       (\<lambda>filter. of_node dbs (mfl_node_name filter) (\<lambda>db. map_ok (reply_result Body_Messages) (fetch_messages env filter (db_inner db))))"

definition route_p2p_details :: "query_env \<Rightarrow> ('st, 'c, 'm, 'a, 'p) db_env \<Rightarrow> (string \<rightharpoonup> 'st db) \<Rightarrow> ('c, 'm, 'a, 'p) route" where
  "route_p2p_details qe env dbs rq =
     (case rq_path rq of
        [v, p, n] \<Rightarrow>
          if v = ''v2'' \<and> p = ''p2p''
          then Option.bind (path_number n) (\<lambda>i.
               map_option (\<lambda>filter. of_node dbs (mfl_node_name filter)
                 (\<lambda>db. Inr (reply_result Body_Message (fetch_message env i (db_inner db))))) (qe_messages qe (rq_query rq)))
          else None
      | _ \<Rightarrow> None)"

definition route_log_old :: "query_env \<Rightarrow> ('st, 'c, 'm, 'a, 'p) db_env \<Rightarrow> (string \<rightharpoonup> 'st db) \<Rightarrow> ('c, 'm, 'a, 'p) route" where
  "route_log_old qe env dbs =
     path_query [''v2'', ''log''] (qe_logs qe)
       (\<lambda>filter. of_node dbs (lfl_node_name filter) (\<lambda>db. map_ok (reply_result Body_Logs) (fetch_log env filter db)))"

definition routes_old :: "query_env \<Rightarrow> ('st, 'c, 'm, 'a, 'p) db_env \<Rightarrow> (string \<rightharpoonup> 'st db) \<Rightarrow> ('c, 'm, 'a, 'p) route" where
  "routes_old qe env dbs rq =
     (if rq_is_get rq
      then or_route (or_route (or_route (or_route
             (route_p2p qe env dbs) (route_p2p_details qe env dbs)) (route_log_old qe env dbs)) (route_version qe)) (route_openapi qe) rq
      else None)"

section \<open>What is served\<close>

lemmas route_defs = routes_def routes_old_def or_route_def path_query_def route_connections_def route_chunks_def route_chunk_def
  route_messages_def route_message_def route_logs_def route_version_def route_openapi_def route_p2p_def route_p2p_details_def route_log_old_def

abbreviation get_request :: "string list \<Rightarrow> string \<Rightarrow> http_request" where
  "get_request path query \<equiv> \<lparr>rq_is_get = True, rq_path = path, rq_query = query\<rparr>"

lemma path_number_show [simp]: "path_number (show_uint i) = Some i"
  by (simp add: path_number_def)

text \<open>
  C18: Links are served. A chunk is found under the address that is printed from its key, and the answer is exactly the row that the database holds
  under this key, or nothing; a message is found under its number, with all its details. Neither depends on the query string.
\<close>

theorem links_served:
  assumes "kv_laws (de_kv env) view" "kv_reliable (de_kv env)"
  shows "routes qe env db (get_request [''v3'', ''chunk'', chunk_key_to_string k] query) =
      Some (Inr (Status_Ok, Body_Chunk (Option.bind (view (db_inner db) (loc (de_kv env) (Key_Chunk k))) row_chunk))) \<and>
    routes qe env db (get_request [''v3'', ''message'', show_uint i] query) =
      Some (Inr (case fetch_message env i (db_inner db) of
        Inr d \<Rightarrow> (Status_Ok, Body_Message d) | Inl e \<Rightarrow> (Status_Internal, Body_Error (Err_Database e))))"
proof -
  obtain r where r: "kv_get (de_kv env) (Key_Chunk k) (db_inner db) = Inr r"
    using assms(2) by (cases "kv_get (de_kv env) (Key_Chunk k) (db_inner db)") (auto simp: kv_reliable_def, metis sum.disc(1))
  then have "r = view (db_inner db) (loc (de_kv env) (Key_Chunk k))"
    using assms(1) by (auto simp: kv_laws_def)
  then show ?thesis
    using r by (simp add: route_defs chunk_inner_def chunk_key_string_roundtrip fetch_chunk_def get_chunk_def map_ok_def reply_result_def)
qed

text \<open>
  The older interface agrees with the newer one. For a node whose database is known, a list of messages, the details of a message and the
  logs of the older interface are what the newer interface of this database answers to the same query; the node is \<^verbatim>\<open>tezedge\<close> when none is
  named; a node that is not known is answered with the status 404 and its name.
\<close>

theorem old_interface_agrees:
  assumes "qe_messages qe query = Some fl" "qe_logs qe query = Some lf" "lfl_node_name lf = mfl_node_name fl"
    "node = (case mfl_node_name fl of Some n \<Rightarrow> n | None \<Rightarrow> ''tezedge'')"
  shows "(\<forall>db. dbs node = Some db \<longrightarrow>
      routes_old qe env dbs (get_request [''v2'', ''p2p''] query) = routes qe env db (get_request [''v3'', ''messages''] query) \<and>
      routes_old qe env dbs (get_request [''v2'', ''p2p'', n] query) = routes qe env db (get_request [''v3'', ''message'', n] query) \<and>
      routes_old qe env dbs (get_request [''v2'', ''log''] query) = routes qe env db (get_request [''v3'', ''logs''] query)) \<and>
    (dbs node = None \<longrightarrow>
      (\<forall>path \<in> {[''v2'', ''p2p''], [''v2'', ''log'']}.
        routes_old qe env dbs (get_request path query) = Some (Inr (Status_Not_Found, Body_Error (Err_No_Node node)))))"
  using assms by (cases "mfl_node_name fl") (auto simp: route_defs of_node_def split: option.splits)

definition sample_query_env :: query_env where
  "sample_query_env =
     \<lparr>qe_connections = (\<lambda>q. None), qe_chunks = (\<lambda>q. None),
      qe_messages = (\<lambda>q. Some \<lparr>mfl_direction = None, mfl_limit = None, mfl_cursor = None, mfl_remote_addr = None, mfl_source_type = None,
         mfl_incoming = None, mfl_types = None, mfl_from = None, mfl_to = None, mfl_timestamp = None, mfl_node_name = None\<rparr>),
      qe_logs = (\<lambda>q. Some \<lparr>lfl_direction = None, lfl_limit = None, lfl_cursor = None, lfl_log_level = None, lfl_from = None, lfl_to = None,
         lfl_timestamp = None, lfl_query = None, lfl_node_name = None\<rparr>),
      qe_none = (\<lambda>q. Some ()), qe_git_hash = ''0''\<rparr>"

theorem links_served_witness:
  "routes sample_query_env sample_db_env sample_db (get_request [''v3'', ''chunk'', chunk_key_to_string (fst (chunk_split (sample_chunk 0)))] []) =
     Some (Inr (Status_Ok, Body_Chunk (Option.bind
       (map_of (db_inner sample_db) (loc (de_kv sample_db_env) (Key_Chunk (fst (chunk_split (sample_chunk 0)))))) row_chunk)))"
  using links_served [of sample_db_env map_of] sample_kv_laws sample_kv_reliable by (simp add: sample_db_env_def)

theorem old_interface_agrees_witness:
  "routes_old sample_query_env sample_db_env [''tezedge'' \<mapsto> sample_db] (get_request [''v2'', ''p2p''] []) =
     routes sample_query_env sample_db_env sample_db (get_request [''v3'', ''messages''] []) \<and>
   routes_old sample_query_env sample_db_env Map.empty (get_request [''v2'', ''log''] []) =
     Some (Inr (Status_Not_Found, Body_Error (Err_No_Node ''tezedge'')))"
  using old_interface_agrees [of sample_query_env "[]" _ _ "''tezedge''" "[''tezedge'' \<mapsto> sample_db]" sample_db_env "[]"]
    old_interface_agrees [of sample_query_env "[]" _ _ "''tezedge''" Map.empty sample_db_env "[]"]
  by (simp add: sample_query_env_def)

end
