(* ===== verification/Memprof_Server.thy ===== *)
theory Memprof_Server
  imports Memprof_Trackers Memprof_Resolver
begin

text \<open>
  What the server of the memory profiler answers, \<^verbatim>\<open>tezedge-memprof/src/server.rs\<close>: the short report, with the anonymous memory that the system
  reports for the process, and the tree, the process, and the description of the interface. The file of the process is a list of lines, each of which may
  fail to be read. As for the recorder, a route may reject a request, and reading a query is derived code.
\<close>

section \<open>The answers\<close>

fun rss_anon_lines :: "u64 \<Rightarrow> (unit + string) list \<Rightarrow> unit + u64" where
  "rss_anon_lines v [] = Inr v"
| "rss_anon_lines v (Inl e # ls) = Inl e"
| "rss_anon_lines v (Inr line # ls) =
     (case split_words is_whitespace line of
        [] \<Rightarrow> rss_anon_lines v ls
      | w # ws \<Rightarrow>
          if w = ''RssAnon:''
          then rss_anon_lines (case ws of [] \<Rightarrow> 0 | s # _ \<Rightarrow> (case parse_uint s of Inr n \<Rightarrow> n | Inl e \<Rightarrow> 0)) ls
          else rss_anon_lines v ls)"

definition rss_anon :: "(unit + (unit + string) list) \<Rightarrow> unit + u64" where
  "rss_anon file = and_then file (rss_anon_lines 0)"

record tree_params =
  tp_threshold :: "u64 option"
  tp_reverse :: "bool option"
  tp_short :: "bool option"

record short_report =
  sr_total :: u64
  sr_cache :: u64
  sr_anon :: u64
  sr_system_report_anon :: u64

definition short_answer :: "u64 \<times> u64 \<Rightarrow> unit + u64 \<Rightarrow> short_report" where
  "short_answer report rss =
     (let (total, cache) = report in
      \<lparr>sr_total = total, sr_cache = cache, sr_anon = total - cache, sr_system_report_anon = (case rss of Inr v \<Rightarrow> v | Inl e \<Rightarrow> 0)\<rparr>)"

definition tree_answer ::
    "tree_params \<Rightarrow> u64 \<times> u64 \<Rightarrow> (u64 \<Rightarrow> bool \<Rightarrow> frame) \<Rightarrow> unit + u64 \<Rightarrow> short_report + frame" where
  "tree_answer params report tree rss =
     (if (case tp_short params of Some b \<Rightarrow> b | None \<Rightarrow> False) then Inl (short_answer report rss)
      else Inr (tree (case tp_threshold params of Some n \<Rightarrow> n | None \<Rightarrow> 512) (case tp_reverse params of Some b \<Rightarrow> b | None \<Rightarrow> False)))"

section \<open>The routes\<close>

datatype memprof_body = Body_Pid u32 | Body_Short short_report | Body_Tree frame | Body_Interface

record memprof_env =
  ms_params :: "string \<Rightarrow> tree_params option"
  ms_no_params :: "string \<Rightarrow> unit option"
  ms_status :: "u32 \<Rightarrow> unit + (unit + string) list"

type_synonym memprof_route = "string list \<Rightarrow> string \<Rightarrow> memprof_body option"

definition tree_route :: "memprof_env \<Rightarrow> consumer \<Rightarrow> memprof_route" where
  "tree_route env cli path query =
     (if path = [''v1'', ''tree''] then
        map_option (\<lambda>params.
          case tree_answer params (ag_short_report (cs_aggregator cli)) (\<lambda>threshold reverse. ag_tree_report threshold reverse (cs_aggregator cli))
              (rss_anon (ms_status env (cs_pid cli))) of
            Inl report \<Rightarrow> Body_Short report
          | Inr report \<Rightarrow> Body_Tree report) (ms_params env query)
      else None)"

definition pid_route :: "memprof_env \<Rightarrow> consumer \<Rightarrow> memprof_route" where
  "pid_route env cli path query = (if path = [''v1'', ''pid''] then map_option (\<lambda>_. Body_Pid (cs_pid cli)) (ms_no_params env query) else None)"

definition openapi_route :: "memprof_env \<Rightarrow> memprof_route" where
  "openapi_route env path query =
     (if path = [''openapi'', ''memory-profiler-openapi.json''] then map_option (\<lambda>_. Body_Interface) (ms_no_params env query) else None)"

definition memprof_routes :: "memprof_env \<Rightarrow> consumer \<Rightarrow> bool \<Rightarrow> memprof_route" where
  "memprof_routes env cli is_get path query =
     (if \<not> is_get then None
      else case tree_route env cli path query of
        Some a \<Rightarrow> Some a
      | None \<Rightarrow> (case pid_route env cli path query of Some a \<Rightarrow> Some a | None \<Rightarrow> openapi_route env path query))"

text \<open>The order of the routes does not matter: no request is answered by two of them.\<close>

lemma memprof_routes_iff:
  "memprof_routes env cli is_get path query = Some a \<longleftrightarrow>
     is_get \<and> a \<in> \<Union> (set_option ` {tree_route env cli path query, pid_route env cli path query, openapi_route env path query})"
  by (auto simp: memprof_routes_def tree_route_def pid_route_def openapi_route_def split: if_splits option.splits)

section \<open>The short report is exact\<close>

definition anon_kib :: "page_memory \<Rightarrow> u64" where
  "anon_kib m = (\<Sum>p | \<exists>s. m p = Some (s, False). page_size_kib p)"

lemma memory_kib_split: "memory_kib m = cache_kib m + anon_kib m"
proof -
  have "{p. m p \<noteq> None} = {p. \<exists>s. m p = Some (s, True)} \<union> {p. \<exists>s. m p = Some (s, False)}"
    by auto
  moreover have "{p. \<exists>s. m p = Some (s, True)} \<inter> {p. \<exists>s. m p = Some (s, False)} = {}" by auto
  ultimately show ?thesis
    unfolding memory_kib_def cache_kib_def anon_kib_def by (simp add: sum.union_disjoint finite_page)
qed

text \<open>
  The short report is exact. After any well-behaved trace, whether the aggregator or the history is behind the server, a request
  for the short report is answered with the memory of all pages that are allocated, of those that are in the page cache, and of those that are
  not, in the words of the reports; with the state of allocations, with those of the pages it keeps.
\<close>

theorem short_report_exact:
  assumes "trace_ok pid ops Map.empty" "length ops < 2 ^ 32"
  shows "\<exists>ag al hi. track_all aggregator_tracker ops ag_default = Inr ag \<and> track_all allocation_tracker ops as_default = Inr al \<and>
    track_all (history_tracker event_last_history) ops history_default = Inr hi \<and>
    (\<forall>(report, step) \<in> {(ag_short_report ag, page_step), (as_short_report al, kept_step),
         (hi_short_report event_last_history hi, page_step)}.
       let m = fold step ops Map.empty; a = short_answer report rss in
       sr_total a = memory_kib m \<and> sr_cache a = cache_kib m \<and> sr_anon a = anon_kib m)"
  using aggregator_tracker.track_report [OF assms] allocation_tracker.track_report [OF assms] event_last_tracker.track_report [OF assms]
  by (auto simp: aggregator_tracker_def allocation_tracker_def history_tracker_def short_answer_def memory_kib_split Let_def)

theorem short_report_exact_witness:
  "\<exists>ag. track_all aggregator_tracker sample_trace ag_default = Inr ag \<and>
    (let m = fold page_step sample_trace Map.empty; a = short_answer (ag_short_report ag) (Inr 0) in
     sr_total a = memory_kib m \<and> sr_anon a = anon_kib m)"
  using short_report_exact [OF sample_trace_ok, of "Inr 0"] by (auto simp: sample_trace_def Let_def)

end
