(* ===== verification/Memprof_Json.thy ===== *)
theory Memprof_Json
  imports Memprof_Event Rust_Strings
begin

text \<open>
  The JSON forms that \<^verbatim>\<open>bpf-memprof-common/src/client.rs\<close> writes by hand: numbers as hexadecimal strings of fixed width and a stack as the list of its
  frames. The other forms are derived.
\<close>

section \<open>Numbers\<close>

definition hex_digit :: "nat \<Rightarrow> char" where
  "hex_digit d = (if d < 10 then char_of (48 + d) else char_of (87 + d))"

text \<open>\<open>k\<close> hexadecimal digits; the width of the format is the width of the type, so that it always has that many.\<close>

fun hex_digits :: "nat \<Rightarrow> nat \<Rightarrow> string" where
  "hex_digits 0 n = []"
| "hex_digits (Suc k) n = hex_digits k (n div 16) @ [hex_digit (n mod 16)]"

definition hex32_serialize :: "hex32 \<Rightarrow> string" where
  "hex32_serialize h = hex_digits 8 (unat h)"

definition hex32_deserialize :: "string \<Rightarrow> parse_int_error + hex32" where
  "hex32_deserialize s = from_str_radix 16 s"

definition hex64_serialize :: "hex64 \<Rightarrow> string" where
  "hex64_serialize h = hex_digits 16 (unat h)"

definition hex64_deserialize :: "string \<Rightarrow> parse_int_error + hex64" where
  "hex64_deserialize s = from_str_radix 16 s"

section \<open>Stacks\<close>

definition stack_serialize :: "mem_stack \<Rightarrow> panic + string list" where
  "stack_serialize s = and_then (stack_ips s) (\<lambda>ips. Inr (map hex64_serialize ips))"

fun stack_visit_seq :: "mem_stack \<Rightarrow> string list \<Rightarrow> panic + parse_int_error + mem_stack" where
  "stack_visit_seq s [] = Inr (Inr s)"
| "stack_visit_seq s (x # xs) =
     (case hex64_deserialize x of
        Inl e \<Rightarrow> Inr (Inl e)
      | Inr ip \<Rightarrow>
          if unat (stk_length s) < stack_max_depth
          then stack_visit_seq \<lparr>stk_length = stk_length s + 1, stk_ips = (stk_ips s)[unat (stk_length s) := ip]\<rparr> xs
          else Inl Slice_Range)"

definition stack_deserialize :: "string list \<Rightarrow> panic + parse_int_error + mem_stack" where
  "stack_deserialize xs = stack_visit_seq \<lparr>stk_length = 0, stk_ips = replicate stack_max_depth 0\<rparr> xs"

section \<open>Round trips\<close>

lemma hex_digit_parsed: "d < 16 \<Longrightarrow> digit_of 16 (hex_digit d) = Some d"
  by (simp add: digit_of_def hex_digit_def)

lemma hex_digit_sign: "d < 16 \<Longrightarrow> hex_digit d \<noteq> CHR ''+'' \<and> hex_digit d \<noteq> CHR ''-''"
  using hex_digit_parsed [of d] by (auto simp: digit_of_def)

lemma parse_hex_digits: "n < 16 ^ k \<Longrightarrow> n < bound \<Longrightarrow> parse_digits 16 bound 0 (hex_digits k n) = Inr n"
proof (induction k arbitrary: n)
  case (Suc k)
  have d: "n div 16 < 16 ^ k" "n div 16 < bound" using Suc.prems by (simp_all add: less_mult_imp_div_less ac_simps)
  have "n div 16 * 16 + n mod 16 = n" by simp
  moreover have "n div 16 * 16 \<le> n" by simp
  ultimately show ?case
    using Suc.IH [OF d] Suc.prems by (simp add: parse_digits_append hex_digit_parsed)
qed simp

lemma hex_digits_chars: "c \<in> set (hex_digits k n) \<Longrightarrow> c \<noteq> CHR ''+'' \<and> c \<noteq> CHR ''-''"
  by (induction k arbitrary: n) (auto simp: hex_digit_sign)

lemma from_hex_digits:
  assumes "unat (w :: 'a::len word) < 16 ^ k" "0 < k"
  shows "from_str_radix 16 (hex_digits k (unat w)) = Inr w"
proof -
  obtain c cs where s: "hex_digits k (unat w) = c # cs"
    using assms(2) by (cases "hex_digits k (unat w)"; cases k) simp_all
  then have "c \<noteq> CHR ''+''" "c \<noteq> CHR ''-''" using hex_digits_chars [of c k "unat w"] by simp_all
  then show ?thesis using parse_hex_digits [OF assms(1) unat_bound] s by (simp add: from_str_radix_def)
qed

lemma hex32_roundtrip: "hex32_deserialize (hex32_serialize h) = Inr h"
  using unat_bound [of h] by (simp add: hex32_deserialize_def hex32_serialize_def from_hex_digits)

lemma hex64_roundtrip: "hex64_deserialize (hex64_serialize h) = Inr h"
  using unat_bound [of h] by (simp add: hex64_deserialize_def hex64_serialize_def from_hex_digits)

lemma unat_next_frame: "unat (l :: u64) < stack_max_depth \<Longrightarrow> unat (l + 1) = unat l + 1"
  by (simp add: stack_max_depth_def unat_word_ariths)

lemma visit_seq_frames:
  assumes "length (stk_ips s) = stack_max_depth" "unat (stk_length s) + length ips \<le> stack_max_depth"
  shows "\<exists>s'. stack_visit_seq s (map hex64_serialize ips) = Inr (Inr s') \<and> length (stk_ips s') = stack_max_depth \<and>
    unat (stk_length s') = unat (stk_length s) + length ips \<and>
    take (unat (stk_length s')) (stk_ips s') = take (unat (stk_length s)) (stk_ips s) @ ips"
  using assms
proof (induction ips arbitrary: s)
  case (Cons ip ips)
  let ?s = "\<lparr>stk_length = stk_length s + 1, stk_ips = (stk_ips s)[unat (stk_length s) := ip]\<rparr>"
  have l: "unat (stk_length s) < stack_max_depth" using Cons.prems(2) by simp
  then have u: "unat (stk_length s + 1) = unat (stk_length s) + 1" by (rule unat_next_frame)
  have "take (unat (stk_length s) + 1) ((stk_ips s)[unat (stk_length s) := ip]) = take (unat (stk_length s)) (stk_ips s) @ [ip]"
    using l Cons.prems(1) by (simp add: take_Suc_conv_app_nth)
  then show ?case using Cons.IH [of ?s] Cons.prems l u by (auto simp: hex64_roundtrip)
qed simp

lemma stack_json_roundtrip:
  assumes "stack_ips s = Inr ips" "length ips \<le> stack_max_depth"
  shows "\<exists>xs s'. stack_serialize s = Inr xs \<and> stack_deserialize xs = Inr (Inr s') \<and> stack_ips s' = Inr ips"
  using visit_seq_frames [of "\<lparr>stk_length = 0, stk_ips = replicate stack_max_depth 0\<rparr>" ips] assms
  by (auto simp: stack_serialize_def stack_deserialize_def stack_ips_def slice_def sub_zero)

text \<open>A list of more than 127 frames makes the reader panic.\<close>

lemma stack_deserialize_panics:
  assumes "stack_max_depth < length ips"
  shows "stack_deserialize (map hex64_serialize ips) = Inl Slice_Range"
proof -
  have "stack_visit_seq s (map hex64_serialize js) = Inl Slice_Range"
    if "unat (stk_length s) \<le> stack_max_depth" "stack_max_depth < unat (stk_length s) + length js" for s js
    using that
  proof (induction js arbitrary: s)
    case (Cons j js)
    show ?case
    proof (cases "unat (stk_length s) < stack_max_depth")
      case True
      then have "unat (stk_length s + 1) = unat (stk_length s) + 1" by (rule unat_next_frame)
      then show ?thesis using Cons True by (simp add: hex64_roundtrip)
    qed (simp add: hex64_roundtrip)
  qed simp
  then show ?thesis using assms by (simp add: stack_deserialize_def)
qed

end
