(* ===== verification/Memprof_Program.thy ===== *)
theory Memprof_Program
  imports Memprof_Account Memprof_Kernel
begin

unbundle bit_operations_syntax

text \<open>
  The program of the memory profiler, the user side of \<^verbatim>\<open>bpf-memprof/src/main.rs\<close>, and the profiler as a whole: the programs in the kernel, the ring
  buffer, the consumer and its report. Whether permissions are given, the module loads and files can be written is the argument \<open>profiler_env\<close>.
\<close>

section \<open>The program\<close>








section \<open>The kernel meanwhile\<close>









text \<open>
  What the events say about the memory of the node: a map from frame numbers to the stack that allocated the block, its order, and whether it is in the page
  cache. Events are well-behaved when a page is allocated only while it is free, frame numbers are not zero and have 32 bits, and orders are
  those of blocks of less than \<open>2 ^ 32\<close> pages.
\<close>

type_synonym node_memory = "u64 \<Rightarrow> (hex64 list \<times> u32 \<times> bool) option"

fun event_step :: "event_kind \<times> hex64 list \<Rightarrow> node_memory \<Rightarrow> node_memory" where
  "event_step (Ev_PageAlloc v, path) m = m(pa_pfn v \<mapsto> (path, pa_order v, False))"
| "event_step (Ev_PageFree v, path) m = m(pf_pfn v := None)"
| "event_step (Ev_AddToPageCache v, path) m = m(apc_pfn v := map_option (\<lambda>(q, order, _). (q, order, True)) (m (apc_pfn v)))"
| "event_step (Ev_RemoveFromPageCache v, path) m = m(rpc_pfn v := map_option (\<lambda>(q, order, _). (q, order, False)) (m (rpc_pfn v)))"
| "event_step _ m = m"



section \<open>From the kernel to the consumer\<close>













section \<open>What the consumer makes of it\<close>













lemma event_step_none: "m = Map.empty \<Longrightarrow> \<not> (\<exists>v. ev = Ev_PageAlloc v) \<Longrightarrow> event_step (ev, path) m = m"
  by (cases ev) auto












section \<open>The program over all polls\<close>









section \<open>A concrete run\<close>













end
