(* ===== verification/Recorder_Program.thy ===== *)
theory Recorder_Program
  imports Main_Loop
begin

text \<open>
  The program of the recorder, \<^verbatim>\<open>tezedge-recorder/src/bin/main.rs\<close>, with loading the configuration and joining the threads from
  \<^verbatim>\<open>system.rs\<close>. Files, the parser of the configuration, the command line, starting the other program and how threads end are the
  argument \<open>program_env\<close>.
\<close>

section \<open>The program\<close>

datatype spawn_error = Spawn_Not_Found | Spawn_Other

record program_env =
  pe_read_file :: "string \<Rightarrow> (unit + string) option"
  pe_toml :: "string \<Rightarrow> config option"
  pe_runtime :: bool
  pe_set_handler :: bool
  pe_args :: "string list"
  pe_spawn :: "string \<Rightarrow> spawn_error + nat"
  pe_log_thread :: "u16 \<Rightarrow> bool"

text \<open>
  \<open>pe_read_file\<close> is \<open>None\<close> when the file cannot be opened; an opened file can fail to be read. \<open>pe_runtime\<close>: whether the runtime of the servers can be
  created; the program insists on it.
\<close>

datatype program_error = Handler_Error | Config_Open | Config_Read | Config_Parse

definition or_open :: "(unit + string) option \<Rightarrow> (unit + string) option \<Rightarrow> (unit + string) option" where
  "or_open f g = (case f of Some x \<Rightarrow> Some x | None \<Rightarrow> g)"

definition config_file :: "program_env \<Rightarrow> (unit + string) option" where
  "config_file pe =
     or_open (or_open (pe_read_file pe ''config.toml'') (pe_read_file pe ''/etc/config.toml'')) (pe_read_file pe ''/home/appuser/config.toml'')"

definition load_config :: "program_env \<Rightarrow> panic + program_error + 'db system" where
  "load_config pe =
     (case config_file pe of
        None \<Rightarrow> Inr (Inl Config_Open)
      | Some (Inl e) \<Rightarrow> Inr (Inl Config_Read)
      | Some (Inr settings_toml) \<Rightarrow>
          (case pe_toml pe settings_toml of
             None \<Rightarrow> Inr (Inl Config_Parse)
           | Some config \<Rightarrow> if pe_runtime pe then Inr (Inr (system_new config)) else Inl Unwrap_None))"

text \<open>A thread that has panicked makes \<^verbatim>\<open>join\<close> panic.\<close>

definition node_server_join :: "program_env \<Rightarrow> node_server \<Rightarrow> panic + unit" where
  "node_server_join pe server =
     (case ns_log_client server of
        Some port \<Rightarrow> if pe_log_thread pe port then Inr () else Inl Unwrap_None
      | None \<Rightarrow> Inr ())"

text \<open>The servers are those of configured nodes; the order in which they are joined does not matter.\<close>

fun join_nodes :: "program_env \<Rightarrow> 'db system \<Rightarrow> string list \<Rightarrow> panic + unit" where
  "join_nodes pe sy [] = Inr ()"
| "join_nodes pe sy (n # ns) =
     and_then (case sy_node_servers sy n of Some server \<Rightarrow> node_server_join pe server | None \<Rightarrow> Inr ()) (\<lambda>_. join_nodes pe sy ns)"

definition system_join :: "program_env \<Rightarrow> 'db system \<Rightarrow> panic + unit" where
  "system_join pe sy = join_nodes pe sy (remdups (map nc_name (cfg_nodes (sy_config sy))))"

definition spawn_bpf :: "program_env \<Rightarrow> spawn_error + nat" where
  "spawn_bpf pe =
     (case pe_spawn pe ''bpf-recorder'' of
        Inr h \<Rightarrow> Inr h
      | Inl Spawn_Not_Found \<Rightarrow> pe_spawn pe ''./target/none/release/bpf-recorder''
      | Inl e \<Rightarrow> Inl e)"

text \<open>What became of the interception: no node needs it, it was not asked for, the module did not start, or the loop has ended.\<close>

datatype interception = Not_Needed | Not_Asked | Not_Started spawn_error | Loop_Ended "unit + unit"

definition intercept ::
    "program_env \<Rightarrow> ('db, 'k, 'pk, 'n) loop_env \<Rightarrow> (unit + bytes list) list \<Rightarrow> 'db system
     \<Rightarrow> panic + interception \<times> ('db, 'pk, 'n) connection_list" where
  "intercept pe env batches sy =
     (if need_bpf sy
      then if find (\<lambda>a. a = ''--run-bpf'') (pe_args pe) \<noteq> None
           then (case spawn_bpf pe of
                   Inr h \<Rightarrow> and_then (run env batches sy) (\<lambda>(r, l). Inr (Loop_Ended r, l))
                 | Inl e \<Rightarrow> Inr (Not_Started e, connection_list_new sy))
           else Inr (Not_Asked, connection_list_new sy)
      else Inr (Not_Needed, connection_list_new sy))"

definition recorder_main ::
    "program_env \<Rightarrow> ('db, 'k, 'pk, 'n) loop_env \<Rightarrow> (unit + bytes list) list
     \<Rightarrow> panic + program_error + interception \<times> ('db, 'pk, 'n) connection_list" where
  "recorder_main pe env batches =
     (if \<not> pe_set_handler pe then Inr (Inl Handler_Error)
      else and_then (load_config pe) (\<lambda>r. case r of
        Inl e \<Rightarrow> Inr (Inl e)
      | Inr sy \<Rightarrow>
          and_then (intercept pe env batches (run_dbs (le_sys env) sy)) (\<lambda>(end, l).
          and_then (system_join pe (cl_system l)) (\<lambda>_.
          Inr (Inr (end, l))))))"

section \<open>The program does not panic\<close>

lemma run_dbs_nodes_keeps:
  "sy_config (run_dbs_nodes env cs sy) = sy_config sy" "sy_port_to_pid (run_dbs_nodes env cs sy) = sy_port_to_pid sy"
  "sy_node_info (run_dbs_nodes env cs sy) = sy_node_info sy"
  by (induction cs arbitrary: sy) (auto split: option.splits)

lemma run_dbs_keeps:
  "sy_config (run_dbs env sy) = sy_config sy" "sy_port_to_pid (run_dbs env sy) = sy_port_to_pid sy"
  "sy_node_info (run_dbs env sy) = sy_node_info sy"
  by (simp_all add: run_dbs_def Let_def run_dbs_nodes_keeps split: option.splits)

lemma join_nodes_total: "(\<And>port. pe_log_thread pe port) \<Longrightarrow> join_nodes pe sy ns = Inr ()"
  by (induction ns) (auto simp: node_server_join_def split: option.splits)

lemma load_config_fresh: "load_config pe = Inr (Inr sy) \<Longrightarrow> \<exists>config. sy = system_new config"
  by (auto simp: load_config_def split: option.splits sum.splits if_splits)

lemma load_config_total: "pe_runtime pe \<Longrightarrow> \<exists>r. load_config pe = Inr r"
  by (simp add: load_config_def split: option.split sum.split)

text \<open>
  C26: The recorder as a whole does not panic, from the start to the end of the loop. Whatever the files, the command line and the other program do, the program ends with an error of the
  start or with the state of the loop, if the runtime of the servers can be created, the threads of the log clients do not panic, and what the ring buffer
  delivers are records of the kernel in which every address has its room (on the others the decoder panics) and of which those that are binds are to configured ports,
  each process to one. It is attempted in any case to open the database and to start the server of every node; a node for which this fails is left out.
  The loop runs if and only if some node has a peer-to-peer port, the program is called with \<^verbatim>\<open>--run-bpf\<close>, and the module can be started from one
  of its two places; it runs on the system with the databases, to which no process is attached yet.
\<close>

theorem recorder_never_panics:
  fixes env :: "('db, 'k, 'pk, 'n) loop_env" and pe :: program_env
  assumes "crypto_total (le_crypto env)" "layout_laws (le_layout env)" "pe_runtime pe" "\<forall>port. pe_log_thread pe port"
    "\<forall>sy. load_config pe = Inr (Inr sy) \<longrightarrow> list_all (batch_ok own env (sy :: 'db system)) batches"
  shows "\<exists>r. recorder_main pe env batches = Inr r \<and>
    (case r of
       Inl e \<Rightarrow> \<not> pe_set_handler pe \<or> load_config pe = (Inr (Inl e) :: panic + program_error + 'db system)
     | Inr (end, l) \<Rightarrow> \<exists>sy. load_config pe = Inr (Inr sy) \<and> list_inv own l \<and>
         ((\<exists>x. end = Loop_Ended x) \<longleftrightarrow> need_bpf sy \<and> ''--run-bpf'' \<in> set (pe_args pe) \<and>
            (pe_spawn pe ''bpf-recorder'' \<in> range Inr \<or>
             pe_spawn pe ''bpf-recorder'' = Inl Spawn_Not_Found \<and> pe_spawn pe ''./target/none/release/bpf-recorder'' \<in> range Inr)) \<and>
         (\<forall>x. end = Loop_Ended x \<longrightarrow> run env batches (run_dbs (le_sys env) sy) = Inr (x, l)) \<and>
         ((\<forall>x. end \<noteq> Loop_Ended x) \<longrightarrow> cl_system l = run_dbs (le_sys env) sy))"
proof (cases "pe_set_handler pe")
  case False
  then show ?thesis by (simp add: recorder_main_def)
next
  case True
  obtain c where c: "load_config pe = (Inr c :: panic + program_error + 'db system)" using load_config_total [OF assms(3)] by blast
  show ?thesis
  proof (cases c)
    case (Inl e)
    then show ?thesis using True c by (simp add: recorder_main_def)
  next
    case (Inr sy)
    note Inr = c [unfolded Inr]
    let ?sy = "run_dbs (le_sys env) sy"
    have sy: "system_inv ?sy" "sy_port_to_pid ?sy = Map.empty" "sy_config ?sy = sy_config sy" "need_bpf ?sy = need_bpf sy"
      using load_config_fresh [OF Inr] by (auto simp: system_inv_def run_dbs_keeps system_new_def need_bpf_def)
    have "list_all (batch_ok own env ?sy) batches" using assms(5) Inr unfolding batch_ok_config [OF sy(3)] by blast
    then obtain x l where run: "run env batches ?sy = Inr (x, l)" "list_inv own l" using run_never_panics [OF assms(1,2) sy(1,2)] by blast
    have new: "list_inv own (connection_list_new ?sy :: ('db, 'pk, 'n) connection_list)" using list_inv_new [OF sy(1,2)] .
    have s: "spawn_bpf pe \<in> range Inr \<longleftrightarrow> pe_spawn pe ''bpf-recorder'' \<in> range Inr \<or>
        pe_spawn pe ''bpf-recorder'' = Inl Spawn_Not_Found \<and> pe_spawn pe ''./target/none/release/bpf-recorder'' \<in> range Inr"
      by (auto simp: spawn_bpf_def split: sum.splits spawn_error.splits)
    have f: "find (\<lambda>a. a = ''--run-bpf'') (pe_args pe) \<noteq> None \<longleftrightarrow> ''--run-bpf'' \<in> set (pe_args pe)" by (auto simp: find_None_iff)
    have j: "join_nodes pe sy' ns = Inr ()" for sy' :: "'db system" and ns using join_nodes_total assms(4) by blast
    have "recorder_main pe env batches = map_sum id Inr (intercept pe env batches ?sy)"
      using True Inr j
      by (cases "intercept pe env batches ?sy") (auto simp: recorder_main_def system_join_def)
    then show ?thesis
      using Inr run new sy(4) unfolding s [symmetric] f [symmetric]
      by (cases "spawn_bpf pe") (auto simp: intercept_def connection_list_new_def)
  qed
qed

definition sample_program :: program_env where
  "sample_program =
     \<lparr>pe_read_file = (\<lambda>f. if f = ''/etc/config.toml'' then Some (Inr ''nodes'') else None), pe_toml = (\<lambda>s. Some sample_config), pe_runtime = True, pe_set_handler = True,
      pe_args = [''tezedge-recorder'', ''--run-bpf''], pe_spawn = (\<lambda>f. if f = ''bpf-recorder'' then Inl Spawn_Not_Found else Inr 99),
      pe_log_thread = (\<lambda>p. True)\<rparr>"

theorem recorder_never_panics_witness:
  "\<exists>x l. recorder_main sample_program sample_loop_env [Inr sample_records, Inl ()] = Inr (Inr (Loop_Ended x, l)) \<and> list_inv (\<lambda>pid. 9732) l \<and>
     run sample_loop_env [Inr sample_records, Inl ()] sample_system = Inr (x, l)"
proof -
  let ?bs = "[Inr sample_records, Inl ()]"
  have c: "load_config sample_program = Inr (Inr (system_new sample_config :: string system))"
    by (simp add: load_config_def config_file_def or_open_def sample_program_def)
  have e: "\<forall>sy. load_config sample_program = Inr (Inr sy) \<longrightarrow> list_all (batch_ok (\<lambda>pid. 9732) sample_loop_env (sy :: string system)) ?bs"
    using c by (auto simp: system_new_def intro!: sample_records_ok simp del: list.pred_inject)
  have n: "need_bpf (system_new sample_config :: string system)" by (simp add: need_bpf_def system_new_def sample_config_def)
  have p: "pe_set_handler sample_program" "\<forall>port. pe_log_thread sample_program port" "''--run-bpf'' \<in> set (pe_args sample_program)"
      "pe_spawn sample_program ''bpf-recorder'' = Inl Spawn_Not_Found"
      "pe_spawn sample_program ''./target/none/release/bpf-recorder'' \<in> range Inr" "pe_runtime sample_program"
    by (simp_all add: sample_program_def)
  have s: "run_dbs (le_sys sample_loop_env) (system_new sample_config) = sample_system" by (simp add: sample_loop_env_def sample_system_def)
  obtain r where "recorder_main sample_program sample_loop_env ?bs = Inr r"
    and "case r of
       Inl e \<Rightarrow> \<not> pe_set_handler sample_program \<or> load_config sample_program = (Inr (Inl e) :: panic + program_error + string system)
     | Inr (end, l) \<Rightarrow> \<exists>sy. load_config sample_program = Inr (Inr sy) \<and> list_inv (\<lambda>pid. 9732) l \<and>
         ((\<exists>x. end = Loop_Ended x) \<longleftrightarrow> need_bpf sy \<and> ''--run-bpf'' \<in> set (pe_args sample_program) \<and>
            (pe_spawn sample_program ''bpf-recorder'' \<in> range Inr \<or>
             pe_spawn sample_program ''bpf-recorder'' = Inl Spawn_Not_Found \<and> pe_spawn sample_program ''./target/none/release/bpf-recorder'' \<in> range Inr)) \<and>
         (\<forall>x. end = Loop_Ended x \<longrightarrow> run sample_loop_env ?bs (run_dbs (le_sys sample_loop_env) sy) = Inr (x, l)) \<and>
         ((\<forall>x. end \<noteq> Loop_Ended x) \<longrightarrow> cl_system l = run_dbs (le_sys sample_loop_env) sy)"
    using recorder_never_panics [OF sample_loop_crypto sample_loop_layout p(6,2) e] by blast
  then show ?thesis using c n p s by (cases r) auto
qed

end
