(* ===== verification/Table_Json.thy ===== *)
theory Table_Json
  imports Message_Table
begin

text \<open>
  The JSON forms that \<^verbatim>\<open>tables/message.rs\<close> and \<^verbatim>\<open>tables/connection.rs\<close> write by hand: the details of a message and the value of a
  connection. A JSON value is the enum of \<^verbatim>\<open>serde_json\<close>; the forms of the node's own messages and of addresses are derived code, hashing a
  public key belongs to the crypto crate, and all of them are arguments.
\<close>

section \<open>JSON values\<close>

datatype json =
    J_Null
  | J_Bool bool
  | J_Num nat
  | J_Str string
  | J_Arr "json list"
  | J_Obj "(string \<times> json) list"

fun as_array :: "json \<Rightarrow> json list option" where
  "as_array (J_Arr xs) = Some xs"
| "as_array _ = None"

fun as_object :: "json \<Rightarrow> (string \<times> json) list option" where
  "as_object (J_Obj obj) = Some obj"
| "as_object _ = None"

fun as_u64 :: "json \<Rightarrow> u64 option" where
  "as_u64 (J_Num n) = (if n < 2 ^ 64 then Some (word_of_nat n) else None)"
| "as_u64 _ = None"

fun as_str :: "json \<Rightarrow> string option" where
  "as_str (J_Str s) = Some s"
| "as_str _ = None"

text \<open>\<^verbatim>\<open>v.as_object().unwrap().get(name).unwrap()\<close>.\<close>

definition field_of :: "json \<Rightarrow> string \<Rightarrow> panic + json" where
  "field_of v name = and_then (unwrap (as_object v)) (\<lambda>obj. unwrap (map_of obj name))"

section \<open>The details of a message\<close>

record ('c, 'm, 'a, 'p) msg_json =
  js_connection :: "'c \<Rightarrow> json"
  js_metadata :: "'m \<Rightarrow> json"
  js_ack :: "'a \<Rightarrow> json"
  js_peer :: "'p \<Rightarrow> json"
  js_hex :: "bytes \<Rightarrow> string"

fun tezos_message_json :: "('c, 'm, 'a, 'p, 'z) msg_json_scheme \<Rightarrow> ('c, 'm, 'a, 'p) tezos_message \<Rightarrow> json" where
  "tezos_message_json js (ConnectionMessage m) = js_connection js m"
| "tezos_message_json js (MetadataMessage m) = js_metadata js m"
| "tezos_message_json js (AckMessage m) = js_ack js m"
| "tezos_message_json js (PeerMessage m) = js_peer js m"

definition hex_json :: "(bytes \<Rightarrow> string) \<Rightarrow> bytes list \<Rightarrow> json" where
  "hex_json hex vs = J_Arr (map J_Str (hex_string hex vs))"

definition message_details_json :: "('c, 'm, 'a, 'p, 'z) msg_json_scheme \<Rightarrow> ('c, 'm, 'a, 'p) message_details \<Rightarrow> json" where
  "message_details_json js d =
     J_Obj [(''id'', J_Num (unat (md_id d))),
            (''message'', case md_message d of Some m \<Rightarrow> tezos_message_json js m | None \<Rightarrow> J_Null),
            (''original_bytes'', hex_json (js_hex js) (md_original_bytes d)),
            (''decrypted_bytes'', hex_json (js_hex js) (md_decrypted_bytes d)),
            (''error'', case md_error d of Some e \<Rightarrow> J_Str e | None \<Rightarrow> J_Null)]"

text \<open>The text of a message, of which a list shows the beginning; \<open>print\<close> is \<^verbatim>\<open>serde_json::to_string\<close>.\<close>

definition json_string ::
    "('c, 'm, 'a, 'p, 'z) msg_json_scheme \<Rightarrow> (json \<Rightarrow> string + string) \<Rightarrow> ('c, 'm, 'a, 'p) message_details \<Rightarrow> string + string option" where
  "json_string js print d =
     (case md_message d of None \<Rightarrow> Inr None | Some m \<Rightarrow> map_ok Some (print (tezos_message_json js m)))"

section \<open>The value of a connection\<close>

record value_json =
  vj_digest :: "bytes \<Rightarrow> string + bytes"
  vj_b58check :: "bytes \<Rightarrow> string + string"
  vj_addr :: "socket_addr \<Rightarrow> json"

definition calc_peer_id :: "value_json \<Rightarrow> bytes \<Rightarrow> string + string" where
  "calc_peer_id vj peer_pk =
     (if peer_pk = replicate 32 0 then Inl ''unknown''
      else and_then (vj_digest vj peer_pk) (\<lambda>hash. vj_b58check vj hash))"

fun initiator_json :: "initiator \<Rightarrow> json" where
  "initiator_json Initiator_Local = J_Str ''local''"
| "initiator_json Initiator_Remote = J_Str ''remote''"

definition connection_value_json :: "value_json \<Rightarrow> connection_value \<Rightarrow> json" where
  "connection_value_json vj v =
     J_Obj [(''initiator'', initiator_json (cv_initiator v)), (''remote_addr'', vj_addr vj (cv_remote_addr v)),
            (''peer_id'', J_Str (case calc_peer_id vj (cv_peer_pk v) of Inl s \<Rightarrow> s | Inr s \<Rightarrow> s)),
            (''comments'', J_Arr (map J_Str (comments_serialize (cv_comments v))))]"

lemma message_details_json_fields:
  "field_of (message_details_json js d) ''id'' = Inr (J_Num (unat (md_id d)))"
  "field_of (message_details_json js d) ''original_bytes'' = Inr (hex_json (js_hex js) (md_original_bytes d))"
  "field_of (message_details_json js d) ''decrypted_bytes'' = Inr (hex_json (js_hex js) (md_decrypted_bytes d))"
  by (simp_all add: message_details_json_def field_of_def)

text \<open>A connection whose peer is not known yet, or whose key cannot be hashed, is still shown, with the reason in place of the name.\<close>

lemma connection_value_json_peer:
  "field_of (connection_value_json vj v) ''peer_id'' =
     Inr (J_Str (if cv_peer_pk v = replicate 32 0 then ''unknown''
       else case vj_digest vj (cv_peer_pk v) of
         Inl e \<Rightarrow> e
       | Inr hash \<Rightarrow> (case vj_b58check vj hash of Inl e \<Rightarrow> e | Inr s \<Rightarrow> s)))"
  by (simp add: connection_value_json_def field_of_def calc_peer_id_def split: sum.splits)

end
