(* ===== verification/Extractor.thy ===== *)
theory Extractor
  imports Recorder_Server Table_Json Db_Query
begin

text \<open>
  The client that collects an example of every kind of message from a running recorder, \<^verbatim>\<open>extractor/src/main.rs\<close>, over
  the routes of \<open>Recorder_Server\<close> and the JSON forms of \<open>Table_Json\<close>. The HTTP client and the crate \<^verbatim>\<open>hex\<close> are arguments.
\<close>

section \<open>The answers\<close>

text \<open>The form of a line of the list is derived code, as are the answers that the client does not read.\<close>

record ('c, 'm, 'a, 'p) json_env = "('c, 'm, 'a, 'p) msg_json" +
  js_frontend :: "message_frontend \<Rightarrow> json"
  js_other :: "('c, 'm, 'a, 'p) answer_body \<Rightarrow> json"

fun answer_json :: "('c, 'm, 'a, 'p) json_env \<Rightarrow> ('c, 'm, 'a, 'p) answer_body \<Rightarrow> json" where
  "answer_json js (Body_Messages fs) = J_Arr (map (js_frontend js) fs)"
| "answer_json js (Body_Message (Some d)) = message_details_json js d"
| "answer_json js (Body_Message None) = J_Null"
| "answer_json js b = js_other js b"

section \<open>The client\<close>

text \<open>The literal of the source: a backslash at the end of a line takes the line break and the indentation with it.\<close>

definition extractor_types :: string where
  "extractor_types =
     ''connection_message,metadata,ack_message,disconnect,advertise,swap_request,'' @
     ''swap_ack,bootstrap,get_current_branch,current_branch,deactivate,'' @
     ''get_current_head,current_head,get_block_headers,block_header,get_operations,operation'' @
     ''get_protocols,protocol,get_operation_hashes_for_blocks,operation_hashes_for_block,'' @
     ''get_operations_for_blocks,operations_for_blocks''"

record extractor_env =
  xe_get :: "string \<Rightarrow> json option"
  xe_hex_decode :: "string \<Rightarrow> bytes option"
  xe_hex_encode :: "bytes \<Rightarrow> string"

record example =
  ex_ty :: string
  ex_hex :: string

definition host :: string where
  "host = ''http://debug.dev.tezedge.com:17742''"

definition list_url :: "string \<Rightarrow> string" where
  "list_url ty = host @ ''/v3/messages?types='' @ ty @ ''&limit=1''"

definition message_url :: "u64 \<Rightarrow> string" where
  "message_url i = host @ ''/v3/message/'' @ show_uint i"

fun decode_items :: "(string \<Rightarrow> bytes option) \<Rightarrow> json list \<Rightarrow> panic + bytes" where
  "decode_items dec [] = Inr []"
| "decode_items dec (i # is) =
     and_then (unwrap (as_str i)) (\<lambda>s. and_then (unwrap (dec s)) (\<lambda>b. and_then (decode_items dec is) (\<lambda>bs. Inr (b @ bs))))"

text \<open>One turn of the loop: an example, or a warning.\<close>

definition extract_one :: "extractor_env \<Rightarrow> string \<Rightarrow> panic + example option" where
  "extract_one xe ty =
     and_then (unwrap (xe_get xe (list_url ty))) (\<lambda>list.
     case as_array list of
       Some (item # _) \<Rightarrow>
         and_then (field_of item ''id'') (\<lambda>v. and_then (unwrap (as_u64 v)) (\<lambda>i.
         and_then (unwrap (xe_get xe (message_url i))) (\<lambda>item.
         and_then (field_of item ''decrypted_bytes'') (\<lambda>v. and_then (unwrap (as_array v)) (\<lambda>elems.
         and_then (decode_items (xe_hex_decode xe) elems) (\<lambda>data.
         Inr (Some \<lparr>ex_ty = ty, ex_hex = xe_hex_encode xe data\<rparr>)))))))
     | _ \<Rightarrow> Inr None)"

fun extract_types :: "extractor_env \<Rightarrow> string list \<Rightarrow> example list \<Rightarrow> panic + example list" where
  "extract_types xe [] examples = Inr examples"
| "extract_types xe (ty # tys) examples =
     and_then (extract_one xe ty) (\<lambda>r. extract_types xe tys (case r of Some e \<Rightarrow> examples @ [e] | None \<Rightarrow> examples))"

definition extractor_main :: "extractor_env \<Rightarrow> panic + example list" where
  "extractor_main xe = extract_types xe (split_on CHR '','' extractor_types) []"

section \<open>Against a recorder\<close>

text \<open>
  What the client relies on: \<^verbatim>\<open>hex\<close> gives two digits per byte and reads them back; the query for each of the names that the client asks for is read as it
  is written, and the answer of a route arrives as its JSON form; a line of the list has its number, an error is not an array.
\<close>

definition hex_laws :: "(bytes \<Rightarrow> string) \<Rightarrow> (string \<Rightarrow> bytes option) \<Rightarrow> bool" where
  "hex_laws enc dec \<longleftrightarrow> (\<forall>b. dec (enc b) = Some b) \<and> (\<forall>v i. i < length v \<longrightarrow> sub (enc v) (2 * i) (2 * (i + 1)) = enc [v ! i])"

abbreviation list_query :: "string \<Rightarrow> string" where
  "list_query ty \<equiv> ''types='' @ ty @ ''&limit=1''"

definition one_of_type :: "string \<Rightarrow> messages_filter" where
  "one_of_type ty =
     \<lparr>mfl_direction = None, mfl_limit = Some 1, mfl_cursor = None, mfl_remote_addr = None, mfl_source_type = None, mfl_incoming = None,
      mfl_types = Some ty, mfl_from = None, mfl_to = None, mfl_timestamp = None, mfl_node_name = None\<rparr>"

definition http_laws ::
    "('c, 'm, 'a, 'p) json_env \<Rightarrow> extractor_env \<Rightarrow> query_env \<Rightarrow> ('st, 'c, 'm, 'a, 'p) db_env \<Rightarrow> 'st db \<Rightarrow> bool" where
  "http_laws js xe qe env db \<longleftrightarrow>
     (\<forall>ty \<in> set (split_on CHR '','' extractor_types). qe_messages qe (list_query ty) = Some (one_of_type ty) \<and>
        (\<forall>st body. routes qe env db (get_request [''v3'', ''messages''] (list_query ty)) = Some (Inr (st, body)) \<longrightarrow>
           xe_get xe (list_url ty) = Some (answer_json js body))) \<and>
     (\<forall>i st body. routes qe env db (get_request [''v3'', ''message'', show_uint i] []) = Some (Inr (st, body)) \<longrightarrow>
        xe_get xe (message_url i) = Some (answer_json js body)) \<and>
     (\<forall>f. field_of (js_frontend js f) ''id'' = Inr (J_Num (unat (mf_id f)))) \<and> (\<forall>e. as_array (js_other js (Body_Error e)) = None)"

abbreviation asked :: "string set" where
  "asked \<equiv> set (split_on CHR '','' extractor_types)"

lemma http_list:
  assumes "http_laws js xe qe env db" "ty \<in> asked"
  shows "qe_messages qe (list_query ty) = Some (one_of_type ty)"
    and "routes qe env db (get_request [''v3'', ''messages''] (list_query ty)) = Some (Inr (st, body)) \<Longrightarrow>
      xe_get xe (list_url ty) = Some (answer_json js body)"
  using assms unfolding http_laws_def by blast+

lemma decode_items_append:
  "decode_items dec (xs @ ys) = and_then (decode_items dec xs) (\<lambda>b. and_then (decode_items dec ys) (\<lambda>c. Inr (b @ c)))"
proof (induction xs)
  case Nil
  show ?case by (cases "decode_items dec ys") simp_all
qed (auto simp: and_then_assoc intro!: and_then_cong)

lemma decode_items_bytes: "(\<And>b. dec (enc [b]) = Some [b]) \<Longrightarrow> decode_items dec (map (\<lambda>b. J_Str (enc [b])) v) = Inr v"
  by (induction v) simp_all

lemma decode_hex_string:
  assumes "hex_laws enc dec"
  shows "decode_items dec (map J_Str (hex_string enc vs)) = Inr (concat vs)"
proof (induction vs)
  case (Cons v vs)
  have "map (\<lambda>i. sub (enc v) (2 * i) (2 * (i + 1))) [0..<length v] = map (\<lambda>i. enc [v ! i]) [0..<length v]"
    using assms by (auto simp: hex_laws_def)
  also have "\<dots> = map (\<lambda>b. enc [b]) v" by (rule nth_equalityI) simp_all
  finally have "hex_string enc (v # vs) = map (\<lambda>b. enc [b]) v @ hex_string enc vs" by (simp add: hex_string_def)
  moreover have "decode_items dec (map (\<lambda>b. J_Str (enc [b])) v) = Inr v" using assms decode_items_bytes [of dec enc v] by (simp add: hex_laws_def)
  ultimately show ?case using Cons by (simp add: decode_items_append o_def)
qed (simp add: hex_string_def)

lemma extract_one_found:
  assumes "hex_laws (js_hex js) (xe_hex_decode xe)" "http_laws js xe qe env db" "ty \<in> asked"
    "fetch_messages env (one_of_type ty) (db_inner db) = Inr (Inr (f # fs))" "fetch_message env (mf_id f) (db_inner db) = Inr (Some d)"
  shows "extract_one xe ty = Inr (Some \<lparr>ex_ty = ty, ex_hex = xe_hex_encode xe (concat (md_decrypted_bytes d))\<rparr>)"
proof -
  have "routes qe env db (get_request [''v3'', ''messages''] (list_query ty)) = Some (Inr (Status_Ok, Body_Messages (f # fs)))"
    using http_list(1) [OF assms(2,3)] assms(4) by (simp add: route_defs map_ok_def reply_result_def)
  then have l: "xe_get xe (list_url ty) = Some (J_Arr (js_frontend js f # map (js_frontend js) fs))" using http_list(2) [OF assms(2,3)] by simp
  have "routes qe env db (get_request [''v3'', ''message'', show_uint (mf_id f)] []) = Some (Inr (Status_Ok, Body_Message (Some d)))"
    using assms(5) by (simp add: route_defs reply_result_def)
  then have m: "xe_get xe (message_url (mf_id f)) = Some (message_details_json js d)" using assms(2) by (auto simp: http_laws_def)
  have "field_of (js_frontend js f) ''id'' = Inr (J_Num (unat (mf_id f)))" using assms(2) by (simp add: http_laws_def)
  moreover have "as_u64 (J_Num (unat (mf_id f))) = Some (mf_id f)" using unat_bound [of "mf_id f"] by simp
  ultimately show ?thesis using l m message_details_json_fields(3) [of js d] decode_hex_string [OF assms(1)] by (simp add: extract_one_def hex_json_def)
qed

lemma extract_one_none:
  assumes "http_laws js xe qe env db" "ty \<in> asked" "fetch_messages env (one_of_type ty) (db_inner db) = Inr (Inr [])"
  shows "extract_one xe ty = Inr None"
proof -
  have "routes qe env db (get_request [''v3'', ''messages''] (list_query ty)) = Some (Inr (Status_Ok, Body_Messages []))"
    using http_list(1) [OF assms(1,2)] assms(3) by (simp add: route_defs map_ok_def reply_result_def)
  then have "xe_get xe (list_url ty) = Some (J_Arr [])" using http_list(2) [OF assms(1,2)] by simp
  then show ?thesis by (simp add: extract_one_def)
qed

lemma fetch_messages_unknown:
  assumes "type_from_str ty = Inl e" "split_on CHR '','' ty = [ty]"
  shows "\<exists>e'. fetch_messages env (one_of_type ty) s = Inr (Inl e')"
  using assms by (simp add: fetch_messages_def one_of_type_def message_iters_def all_iters_def opt_iter_def types_iter_def type_key_def map_ok_def
      map_err_def)

lemma extract_one_unknown:
  assumes "http_laws js xe qe env db" "ty \<in> asked" "type_from_str ty = Inl e" "split_on CHR '','' ty = [ty]"
  shows "extract_one xe ty = Inr None"
proof -
  obtain e' where "fetch_messages env (one_of_type ty) (db_inner db) = Inr (Inl e')" using fetch_messages_unknown [OF assms(3,4), of env "db_inner db"] by (elim exE)
  then have "routes qe env db (get_request [''v3'', ''messages''] (list_query ty)) = Some (Inr (Status_Internal, Body_Error (Err_Database e')))"
    using http_list(1) [OF assms(1,2)] by (simp add: route_defs map_ok_def reply_result_def)
  then have "xe_get xe (list_url ty) = Some (js_other js (Body_Error (Err_Database e')))" using http_list(2) [OF assms(1,2)] by simp
  moreover have "as_array (js_other js (Body_Error (Err_Database e'))) = None" using assms(1) by (simp add: http_laws_def)
  ultimately show ?thesis by (simp add: extract_one_def)
qed

lemma extract_types_all:
  assumes "\<And>ty. ty \<in> set tys \<Longrightarrow> extract_one xe ty = Inr (r ty)"
  shows "extract_types xe tys examples = Inr (examples @ List.map_filter r tys)"
  using assms by (induction tys arbitrary: examples) (simp_all add: map_filter_simps split: option.split)

text \<open>
  The types that are asked for: of the names the recorder knows, \<^verbatim>\<open>operation\<close> and \<^verbatim>\<open>get_protocols\<close> are missing, since the literal
  lacks a comma between them; in their place is a name that it does not know.
\<close>

definition type_names :: "string list" where
  "type_names =
     [''connection_message'', ''metadata'', ''ack_message'', ''disconnect'', ''advertise'', ''swap_request'', ''swap_ack'', ''bootstrap'',
      ''get_current_branch'', ''current_branch'', ''deactivate'', ''get_current_head'', ''current_head'', ''get_block_headers'', ''block_header'',
      ''get_operations'', ''operation'', ''get_protocols'', ''protocol'', ''get_operation_hashes_for_blocks'', ''operation_hashes_for_block'',
      ''get_operations_for_blocks'', ''operations_for_blocks'']"

lemma type_names_complete: "isl (type_from_str s) \<longleftrightarrow> s \<notin> set type_names"
  unfolding type_from_str_def type_names_def by simp

lemma extractor_types_split:
  "split_on CHR '','' extractor_types = take 16 type_names @ ''operationget_protocols'' # drop 18 type_names"
  by (simp add: extractor_types_def type_names_def)

lemma extractor_types_missing:
  "set (split_on CHR '','' extractor_types) \<inter> {s. \<not> isl (type_from_str s)} = set type_names - {''operation'', ''get_protocols''}"
  unfolding extractor_types_split type_names_complete by (auto simp: type_names_def)

lemma map_filter_skip:
  assumes "b \<notin> set xs" "b \<notin> set ys"
  shows "List.map_filter (\<lambda>x. if x = b then None else f x) (xs @ b # ys) = List.map_filter f (xs @ ys)"
proof -
  have "List.map_filter (\<lambda>x. if x = b then None else f x) ys = List.map_filter f ys" using assms(2)
    by (induction ys) (auto simp: map_filter_simps split: option.split)
  then show ?thesis using assms(1) by (induction xs) (auto simp: map_filter_simps split: option.split)
qed

lemma valid_names: "ty \<in> set type_names \<Longrightarrow> split_on CHR '','' ty = [ty]"
  by (auto simp: type_names_def)

text \<open>The newest message of a type in the database.\<close>

definition of_type :: "(u64 \<Rightarrow> message_item option) \<Rightarrow> string \<Rightarrow> u64 set" where
  "of_type msgs ty = {i. \<exists>m. msgs i = Some m \<and> type_from_str ty = Inr (msg_ty m)}"

definition example_of :: "extractor_env \<Rightarrow> (u64 \<Rightarrow> ('c, 'm, 'a, 'p) message_details) \<Rightarrow> u64 set \<Rightarrow> string \<Rightarrow> example option" where
  "example_of xe details_of is ty =
     (if is = {} then None else Some \<lparr>ex_ty = ty, ex_hex = xe_hex_encode xe (concat (md_decrypted_bytes (details_of (Max is))))\<rparr>)"

lemma sorted_before_hd:
  assumes "sorted_wrt (before False) (i # is)"
  shows "Max (set (i # is)) = i"
  using assms by (intro Max_eqI) (auto simp: before_def intro: less_imp_le)

lemma fetch_newest:
  assumes "kv_laws (de_kv env) view" "kv_reliable (de_kv env)" "scan_laws (de_kv env) view" "kmerge_laws (de_kmerge env)"
    "kmerge_single (de_kmerge env)" "holds_messages (de_kv env) view s msgs" "\<forall>i m. msgs i = Some m \<longrightarrow> wf_row m i" "ty \<in> set type_names"
  shows "\<exists>fs. fetch_messages env (one_of_type ty) s = Inr (Inr fs) \<and>
    map mf_id fs = (if of_type msgs ty = {} then [] else [Max (of_type msgs ty)])"
proof -
  obtain t where t: "type_from_str ty = Inr t" using type_names_complete [of ty] assms(8) by (cases "type_from_str ty") simp_all
  have "index_filter env (one_of_type ty)"
    using valid_names [OF assms(8)] t by (simp add: index_filter_def one_of_type_def small_cursor_def named_types_def)
  from fetch_messages_index [OF assms(1-7) this] obtain js where js: "sorted_wrt (before False) js" "set js = of_type msgs ty"
      "fetch_messages env (one_of_type ty) s = Inr (Inr (map (\<lambda>i. message_frontend_new (the (msgs i)) i (preview env (the (msgs i)) i s)) (take 1 js)))"
    using valid_names [OF assms(8)] t
    by (auto simp: one_of_type_def is_forward_def wanted_def named_types_def in_cursor_def limit_of_def get_or_def of_type_def eq_commute [of t])
  moreover have "map mf_id (map (\<lambda>i. message_frontend_new (the (msgs i)) i (preview env (the (msgs i)) i s)) (take 1 js)) =
      (if of_type msgs ty = {} then [] else [Max (of_type msgs ty)])"
  proof (cases js)
    case (Cons i js2)
    then have "Max (of_type msgs ty) = i" "of_type msgs ty \<noteq> {}" using sorted_before_hd [of i js2] js(1,2) by auto
    then show ?thesis using Cons by (simp add: message_frontend_new_def split: prod.splits)
  qed (use js(2) in simp)
  ultimately show ?thesis by blast
qed

text \<open>
  C19: The extractor collects an example of all types but two. The recorder's database holds the messages \<open>msgs\<close>, each with its details; the queries for the names that the client asks
  for are read as they are written, and the answers arrive. Then the program does not panic. For every type of which the database has a message, in the order of
  the list, it prints the type and, in hexadecimal, exactly the decrypted bytes of the newest message of the type, the bytes of all its chunks
  joined; types without a message are left out.
  The types 17 and 18 (\<^verbatim>\<open>operation\<close> and \<^verbatim>\<open>get_protocols\<close>) are never among them: a comma is missing, and the recorder answers the name
  that is in their place with an error.
\<close>

theorem extractor_collects:
  assumes "hex_laws (js_hex js) (xe_hex_decode xe)" "http_laws js xe qe env db"
    "kv_laws (de_kv env) view" "kv_reliable (de_kv env)" "scan_laws (de_kv env) view" "kmerge_laws (de_kmerge env)" "kmerge_single (de_kmerge env)"
    "holds_messages (de_kv env) view (db_inner db) msgs" "\<forall>i m. msgs i = Some m \<longrightarrow> wf_row m i"
    "\<forall>i m. msgs i = Some m \<longrightarrow> fetch_message env i (db_inner db) = Inr (Some (details_of i))"
  shows "extractor_main xe =
    Inr (List.map_filter (\<lambda>ty. example_of xe details_of (of_type msgs ty) ty) (take 16 type_names @ drop 18 type_names))"
proof -
  let ?e = "\<lambda>ty. example_of xe details_of (of_type msgs ty) ty" and ?bad = "''operationget_protocols''"
  have good: "extract_one xe ty = Inr (?e ty)" if ty: "ty \<in> asked" "ty \<in> set type_names" for ty
  proof -
    obtain fs where fs: "fetch_messages env (one_of_type ty) (db_inner db) = Inr (Inr fs)"
        "map mf_id fs = (if of_type msgs ty = {} then [] else [Max (of_type msgs ty)])"
      using fetch_newest [OF assms(3-9) ty(2)] by blast
    show ?thesis
    proof (cases fs)
      case Nil
      then show ?thesis using fs extract_one_none [OF assms(2) ty(1)] by (simp add: example_of_def split: if_splits)
    next
      case (Cons f fs')
      then have f: "of_type msgs ty \<noteq> {}" "mf_id f = Max (of_type msgs ty)" using fs(2) by (simp_all split: if_splits)
      then have "mf_id f \<in> of_type msgs ty" using Max_in [of "of_type msgs ty"] by simp
      then have "fetch_message env (mf_id f) (db_inner db) = Inr (Some (details_of (mf_id f)))" using assms(10) by (auto simp: of_type_def)
      then show ?thesis using extract_one_found [OF assms(1,2) ty(1) fs(1) [unfolded Cons]] f by (simp add: example_of_def)
    qed
  qed
  have b: "?bad \<in> asked" unfolding extractor_types_split by simp
  have bad: "extract_one xe ?bad = Inr None" by (rule extract_one_unknown [OF assms(2) b]) (simp_all add: type_from_str_def)
  have "?bad \<notin> set type_names" by (simp add: type_names_def)
  then have "extract_one xe ty = Inr (if ty = ?bad then None else ?e ty)" if "ty \<in> set (take 16 type_names @ ?bad # drop 18 type_names)" for ty
    using that good bad unfolding extractor_types_split by (auto dest: in_set_takeD in_set_dropD)
  then have "extractor_main xe = Inr (List.map_filter (\<lambda>ty. if ty = ?bad then None else ?e ty) (take 16 type_names @ ?bad # drop 18 type_names))"
    unfolding extractor_main_def extractor_types_split by (subst extract_types_all) simp_all
  also have "List.map_filter (\<lambda>ty. if ty = ?bad then None else ?e ty) (take 16 type_names @ ?bad # drop 18 type_names) =
      List.map_filter ?e (take 16 type_names @ drop 18 type_names)"
    using \<open>?bad \<notin> set type_names\<close> by (intro map_filter_skip) (auto dest: in_set_takeD in_set_dropD)
  finally show ?thesis .
qed

section \<open>A concrete instance\<close>

fun sample_hex_decode :: "string \<Rightarrow> bytes option" where
  "sample_hex_decode [] = Some []"
| "sample_hex_decode [c] = None"
| "sample_hex_decode (c # d # s) = map_option ((#) (word_of_nat (of_char c))) (sample_hex_decode s)"

definition sample_hex_encode :: "bytes \<Rightarrow> string" where
  "sample_hex_encode v = concat (map (\<lambda>b. [char_of (unat b), CHR ''0'']) v)"

lemma sample_hex_laws: "hex_laws sample_hex_encode sample_hex_decode"
proof -
  have "sample_hex_decode (sample_hex_encode v) = Some v" for v
    using unat_u8_bound by (induction v) (simp_all add: sample_hex_encode_def)
  moreover have "sub (sample_hex_encode v) (2 * i) (2 * (i + 1)) = sample_hex_encode [v ! i]" if "i < length v" for v i
    using that by (induction v arbitrary: i) (auto simp: sample_hex_encode_def sub_def less_Suc_eq_0_disj)
  ultimately show ?thesis by (simp add: hex_laws_def)
qed

definition sample_json :: "(unit, unit, unit, unit) json_env" where
  "sample_json =
     \<lparr>js_connection = (\<lambda>_. J_Null), js_metadata = (\<lambda>_. J_Null), js_ack = (\<lambda>_. J_Null), js_peer = (\<lambda>_. J_Null), js_hex = sample_hex_encode,
      js_frontend = (\<lambda>f. J_Obj [(''id'', J_Num (unat (mf_id f)))]), js_other = (\<lambda>_. J_Str ''error'')\<rparr>"

definition sample_client_query :: query_env where
  "sample_client_query = sample_query_env\<lparr>qe_messages := (\<lambda>q. Some (one_of_type (take (length q - 14) (drop 6 q))))\<rparr>"

text \<open>A network on which every answer arrives.\<close>

definition sample_get :: "query_env \<Rightarrow> (sample_st, unit, unit, unit, unit) db_env \<Rightarrow> sample_st db \<Rightarrow> string \<Rightarrow> json option" where
  "sample_get qe env db url =
     (let p = drop (length host) url in
      case (if take 12 p = ''/v3/message/'' then routes qe env db (get_request [''v3'', ''message'', drop 12 p] [])
            else routes qe env db (get_request [''v3'', ''messages''] (drop 13 p))) of
        Some (Inr (st, body)) \<Rightarrow> Some (answer_json sample_json body)
      | _ \<Rightarrow> None)"

definition sample_client :: "query_env \<Rightarrow> (sample_st, unit, unit, unit, unit) db_env \<Rightarrow> sample_st db \<Rightarrow> extractor_env" where
  "sample_client qe env db =
     \<lparr>xe_get = sample_get qe env db, xe_hex_decode = sample_hex_decode, xe_hex_encode = sample_hex_encode\<rparr>"

lemma sample_http_laws: "http_laws sample_json (sample_client sample_client_query env db) sample_client_query env db"
proof -
  let ?qe = sample_client_query
  have "qe_messages ?qe (list_query ty) = Some (one_of_type ty)" for ty by (simp add: sample_client_query_def)
  moreover have "xe_get (sample_client ?qe env db) (list_url ty) = Some (answer_json sample_json body)"
    if "routes ?qe env db (get_request [''v3'', ''messages''] (list_query ty)) = Some (Inr (st, body))" for ty st body
    using that by (simp add: sample_client_def sample_get_def list_url_def)
  moreover have "xe_get (sample_client ?qe env db) (message_url i) = Some (answer_json sample_json body)"
    if "routes ?qe env db (get_request [''v3'', ''message'', show_uint i] []) = Some (Inr (st, body))" for i st body
    using that by (simp add: sample_client_def sample_get_def message_url_def)
  ultimately show ?thesis by (simp add: http_laws_def sample_json_def field_of_def)
qed

text \<open>The database of \<open>Db_Store\<close>: of the two metadata messages that were stored the limit keeps the second.\<close>

definition sample_client_db :: "sample_st db" where
  "sample_client_db = fold (db_exec sample_kv) sample_ops sample_db"

definition sample_details :: "u64 \<Rightarrow> (unit, unit, unit, unit) message_details" where
  "sample_details i = message_details_new (de_decoders sample_db_env) 1 Ty_Meta [snd (chunk_split (sample_chunk 1))]"

lemma sample_window: "window (Some 1) (stored_messages sample_ops) i = Some m \<longleftrightarrow> i = 1 \<and> m = sample_message 1"
proof -
  have "unat i = 1 \<longleftrightarrow> i = 1" by (simp add: word_unat_eq_iff)
  then show ?thesis by (auto simp: window_def sample_ops_def less_Suc_eq numeral_2_eq_2)
qed

lemma sample_fetch_details: "fetch_message sample_db_env 1 (db_inner sample_client_db) = Inr (Some (sample_details 1))"
proof -
  have "fetch_message sample_db_env 1 (db_inner (fold (db_exec (de_kv sample_db_env)) sample_ops sample_db)) =
      Inr (Some (message_details_new (de_decoders sample_db_env) 1 (msg_ty (sample_message 1)) (map (\<lambda>c. snd (chunk_split c)) [sample_chunk 1])))"
    by (rule stored_details [OF sample_stored])
  then show ?thesis by (simp add: sample_client_db_def sample_details_def sample_db_env_def sample_message_def)
qed

theorem extractor_collects_witness:
  "extractor_main (sample_client sample_client_query sample_db_env sample_client_db) =
     Inr [\<lparr>ex_ty = ''metadata'', ex_hex = [char_of (7 :: nat), CHR ''0'']\<rparr>]"
proof -
  let ?msgs = "window (Some 1) (stored_messages sample_ops)"
  have kv: "de_kv sample_db_env = sample_kv" by (simp add: sample_db_env_def)
  have ty: "of_type ?msgs ty = (if ty = ''metadata'' then {1} else {})" for ty
    by (auto simp: of_type_def sample_window sample_message_def type_from_str_def)
  have e: "md_decrypted_bytes (sample_details i) = [[7]]" for i
    by (simp add: sample_details_def message_details_new_def chunk_split_def sample_chunk_def chunk_new_def split: prod.split)
  have "\<forall>i m. ?msgs i = Some m \<longrightarrow> fetch_message sample_db_env i (db_inner sample_client_db) = Inr (Some (sample_details i))"
    using sample_fetch_details by (simp add: sample_window)
  moreover have "\<forall>i m. ?msgs i = Some m \<longrightarrow> wf_row m i" using window_wf [OF sample_ops_storable] by blast
  moreover have "holds_messages sample_kv map_of (db_inner sample_client_db) ?msgs" using sample_inner_holds by (simp add: sample_inner_def sample_client_db_def)
  moreover have "hex_laws (js_hex sample_json) (xe_hex_decode (sample_client sample_client_query sample_db_env sample_client_db))"
    using sample_hex_laws by (simp add: sample_json_def sample_client_def)
  ultimately have "extractor_main (sample_client sample_client_query sample_db_env sample_client_db) =
    Inr (List.map_filter (\<lambda>ty. example_of (sample_client sample_client_query sample_db_env sample_client_db) sample_details (of_type ?msgs ty) ty)
      (take 16 type_names @ drop 18 type_names))"
    using sample_http_laws sample_kv_laws sample_kv_reliable sample_scan_laws sample_kmerge_laws kv
    by (intro extractor_collects [where view = map_of]) simp_all
  then show ?thesis by (simp add: ty e example_of_def type_names_def map_filter_simps sample_client_def sample_hex_encode_def)
qed

end
