(* ===== verification/Mock_Db.thy ===== *)
theory Mock_Db
  imports Rocks_Db
begin

text \<open>
  The database of the tests, \<^verbatim>\<open>database/mock.rs\<close>: every call on it leaves an entry in a file, and every query finds nothing. Creating the file,
  whether a write succeeds, and the derived texts (the trait \<^verbatim>\<open>Debug\<close>) of a connection, a message type and a log level are arguments.
\<close>

section \<open>The database\<close>

record mock_env =
  mk_create :: "string \<Rightarrow> unit + unit"
  mk_write_fails :: "string \<Rightarrow> string \<Rightarrow> bool"
  mk_connection :: "connection_item \<Rightarrow> string"
  mk_type :: "message_type \<Rightarrow> string"
  mk_level :: "log_level \<Rightarrow> string"

text \<open>A panic while the file is locked poisons the lock, and the next call panics when it takes it.\<close>

record mock_db =
  mk_file :: string
  mk_poisoned :: bool

definition mock_open :: "mock_env \<Rightarrow> string \<Rightarrow> bool \<Rightarrow> u64 option \<Rightarrow> u64 option \<Rightarrow> unit + mock_db" where
  "mock_open env path log_full_text_index log_store_limit message_store_limit =
     and_then (mk_create env path) (\<lambda>_. Inr \<lparr>mk_file = [], mk_poisoned = False\<rparr>)"

definition mock_write :: "mock_env \<Rightarrow> string \<Rightarrow> mock_db \<Rightarrow> (panic + unit) \<times> mock_db" where
  "mock_write env text db =
     (if mk_poisoned db then (Inl Unwrap_None, db)
      else if mk_write_fails env (mk_file db) text then (Inl Unwrap_None, db\<lparr>mk_poisoned := True\<rparr>)
      else (Inr (), db\<lparr>mk_file := mk_file db @ text\<rparr>))"

definition mock_store_connection :: "mock_env \<Rightarrow> connection_item \<Rightarrow> mock_db \<Rightarrow> (panic + unit) \<times> mock_db" where
  "mock_store_connection env item = mock_write env (''cn: '' @ mk_connection env item)"

definition mock_update_connection :: "mock_env \<Rightarrow> connection_item \<Rightarrow> mock_db \<Rightarrow> (panic + unit) \<times> mock_db" where
  "mock_update_connection env item = mock_write env (''cn_: '' @ mk_connection env item)"

definition mock_store_chunk :: "mock_env \<Rightarrow> chunk_item \<Rightarrow> mock_db \<Rightarrow> (panic + unit) \<times> mock_db" where
  "mock_store_chunk env item =
     (let (key, val) = chunk_split item in
      mock_write env (''chunk: '' @ chunk_key_to_string key @ '', length: '' @ show_nat (length (chv_plain val))))"

definition mock_store_message :: "mock_env \<Rightarrow> message_item \<Rightarrow> mock_db \<Rightarrow> (panic + unit) \<times> mock_db" where
  "mock_store_message env item = mock_write env (''message: '' @ mk_type env (msg_ty item))"

definition mock_store_log :: "mock_env \<Rightarrow> log_item \<Rightarrow> mock_db \<Rightarrow> (panic + unit) \<times> mock_db" where
  "mock_store_log env item = mock_write env (''log: '' @ mk_level env (log_level item))"

definition mock_fetch_connections :: "connections_filter \<Rightarrow> mock_db \<Rightarrow> unit + (connection_key \<times> connection_value) list" where
  "mock_fetch_connections fl db = Inr []"

definition mock_fetch_chunks_truncated :: "chunks_filter \<Rightarrow> mock_db \<Rightarrow> unit + (chunk_key \<times> chunk_value) list" where
  "mock_fetch_chunks_truncated fl db = Inr []"

definition mock_fetch_chunk :: "chunk_key \<Rightarrow> mock_db \<Rightarrow> unit + chunk_value option" where
  "mock_fetch_chunk key db = Inr None"

definition mock_fetch_messages :: "messages_filter \<Rightarrow> mock_db \<Rightarrow> unit + message_frontend list" where
  "mock_fetch_messages fl db = Inr []"

definition mock_fetch_message :: "u64 \<Rightarrow> mock_db \<Rightarrow> unit + ('c, 'm, 'a, 'p) message_details option" where
  "mock_fetch_message i db = Inr None"

definition mock_fetch_log :: "logs_filter \<Rightarrow> mock_db \<Rightarrow> unit + log_item_with_id list" where
  "mock_fetch_log fl db = Inr []"

section \<open>The file is the log of the calls\<close>

fun mock_exec :: "mock_env \<Rightarrow> db_op \<Rightarrow> mock_db \<Rightarrow> (panic + unit) \<times> mock_db" where
  "mock_exec env (StoreConnection item) db = mock_store_connection env item db"
| "mock_exec env (UpdateConnection item) db = mock_update_connection env item db"
| "mock_exec env (StoreChunk item) db = mock_store_chunk env item db"
| "mock_exec env (StoreMessage item) db = mock_store_message env item db"
| "mock_exec env (StoreLog item) db = mock_store_log env item db"

fun mock_run :: "mock_env \<Rightarrow> db_op list \<Rightarrow> mock_db \<Rightarrow> (panic + unit) \<times> mock_db" where
  "mock_run env [] db = (Inr (), db)"
| "mock_run env (op # ops) db =
     (case mock_exec env op db of (Inl p, db') \<Rightarrow> (Inl p, db') | (Inr _, db') \<Rightarrow> mock_run env ops db')"

fun mock_entry :: "mock_env \<Rightarrow> db_op \<Rightarrow> string" where
  "mock_entry env (StoreConnection item) = ''cn: '' @ mk_connection env item"
| "mock_entry env (UpdateConnection item) = ''cn_: '' @ mk_connection env item"
| "mock_entry env (StoreChunk item) =
     ''chunk: '' @ chunk_key_to_string (fst (chunk_split item)) @ '', length: '' @ show_nat (length (ci_plain item))"
| "mock_entry env (StoreMessage item) = ''message: '' @ mk_type env (msg_ty item)"
| "mock_entry env (StoreLog item) = ''log: '' @ mk_level env (log_level item)"

lemmas mock_store_defs = mock_store_connection_def mock_update_connection_def mock_store_chunk_def mock_store_message_def mock_store_log_def

lemma mock_exec_writes: "mock_exec env op = mock_write env (mock_entry env op)"
  by (rule ext, cases op) (simp_all add: mock_store_defs chunk_split_def)

text \<open>
  A fresh file holds the entries of the calls in their order, one after the other, up to the first that cannot be written; then the calls panic, and
  all later ones as well.
\<close>

lemma mock_run_file:
  assumes "\<not> mk_poisoned db"
  shows "\<exists>done_ops rest. ops = done_ops @ rest \<and>
    mk_file (snd (mock_run env ops db)) = mk_file db @ concat (map (mock_entry env) done_ops) \<and>
    (fst (mock_run env ops db) = Inr () \<longleftrightarrow> rest = []) \<and> (mk_poisoned (snd (mock_run env ops db)) \<longleftrightarrow> rest \<noteq> [])"
  using assms
proof (induction ops arbitrary: db)
  case (Cons op ops)
  show ?case
  proof (cases "mk_write_fails env (mk_file db) (mock_entry env op)")
    case True
    then show ?thesis using Cons.prems by (intro exI [of _ "[]"] exI [of _ "op # ops"]) (simp add: mock_exec_writes mock_write_def)
  next
    case False
    let ?db = "db\<lparr>mk_file := mk_file db @ mock_entry env op\<rparr>"
    obtain xs rest where x: "ops = xs @ rest" "mk_file (snd (mock_run env ops ?db)) = mk_file ?db @ concat (map (mock_entry env) xs)"
      "fst (mock_run env ops ?db) = Inr () \<longleftrightarrow> rest = []" "mk_poisoned (snd (mock_run env ops ?db)) \<longleftrightarrow> rest \<noteq> []"
      using Cons.IH [of ?db] Cons.prems by auto
    have "mock_run env (op # ops) db = mock_run env ops ?db" using False Cons.prems by (simp add: mock_exec_writes mock_write_def)
    then show ?thesis using x by (intro exI [of _ "op # xs"] exI [of _ rest]) simp
  qed
qed simp

lemma mock_poisoned_panics: "mk_poisoned db \<Longrightarrow> mock_exec env op db = (Inl Unwrap_None, db)"
  by (simp add: mock_exec_writes mock_write_def)

end
