(* ===== verification/Db_Schema.thy ===== *)
theory Db_Schema
  imports Db_Store
begin

text \<open>
  The tables of the database: the names of the column families and the prefixes of their keys, from the \<^verbatim>\<open>Schema\<close> of each file under \<^verbatim>\<open>tables/\<close>, and the
  list with which \<^verbatim>\<open>database/rocks.rs\<close> opens the store.
\<close>

record descriptor =
  ds_name :: string
  ds_prefix :: "nat option"

definition connection_schema :: descriptor where
  "connection_schema = \<lparr>ds_name = ''connection_storage'', ds_prefix = None\<rparr>"

definition chunk_schema :: descriptor where
  "chunk_schema = \<lparr>ds_name = ''chunk_storage'', ds_prefix = Some 12\<rparr>"

definition message_schema :: descriptor where
  "message_schema = \<lparr>ds_name = ''message_storage'', ds_prefix = None\<rparr>"

definition log_schema :: descriptor where
  "log_schema = \<lparr>ds_name = ''log_storage'', ds_prefix = None\<rparr>"

definition message_ty_schema :: descriptor where
  "message_ty_schema = \<lparr>ds_name = ''message_type_secondary_index'', ds_prefix = Some 1\<rparr>"

definition message_sender_schema :: descriptor where
  "message_sender_schema = \<lparr>ds_name = ''message_sender_secondary_index'', ds_prefix = Some 1\<rparr>"

definition message_initiator_schema :: descriptor where
  "message_initiator_schema = \<lparr>ds_name = ''message_initiator_secondary_index'', ds_prefix = Some 1\<rparr>"

definition message_addr_schema :: descriptor where
  "message_addr_schema = \<lparr>ds_name = ''message_address_secondary_index'', ds_prefix = Some 18\<rparr>"

definition message_timestamp_schema :: descriptor where
  "message_timestamp_schema = \<lparr>ds_name = ''message_timestamp_secondary_index'', ds_prefix = None\<rparr>"

definition log_level_schema :: descriptor where
  "log_level_schema = \<lparr>ds_name = ''log_level_secondary_index'', ds_prefix = Some 1\<rparr>"

definition log_timestamp_schema :: descriptor where
  "log_timestamp_schema = \<lparr>ds_name = ''log_timestamp_secondary_index'', ds_prefix = None\<rparr>"

definition cfs :: "descriptor list" where
  "cfs =
     [connection_schema, chunk_schema, message_schema, log_schema, message_ty_schema, message_sender_schema, message_initiator_schema,
      message_addr_schema, message_timestamp_schema, log_level_schema, log_timestamp_schema]"

fun descriptor_of :: "schema \<Rightarrow> descriptor" where
  "descriptor_of Sc_Connection = connection_schema"
| "descriptor_of Sc_Chunk = chunk_schema"
| "descriptor_of Sc_Message = message_schema"
| "descriptor_of Sc_Log = log_schema"
| "descriptor_of Sc_Ty = message_ty_schema"
| "descriptor_of Sc_Sender = message_sender_schema"
| "descriptor_of Sc_Initiator = message_initiator_schema"
| "descriptor_of Sc_Addr = message_addr_schema"
| "descriptor_of Sc_Timestamp = message_timestamp_schema"
| "descriptor_of Sc_Level = log_level_schema"
| "descriptor_of Sc_LogTimestamp = log_timestamp_schema"

lemmas schema_defs = connection_schema_def chunk_schema_def message_schema_def log_schema_def message_ty_schema_def message_sender_schema_def
  message_initiator_schema_def message_addr_schema_def message_timestamp_schema_def log_level_schema_def log_timestamp_schema_def

text \<open>
  Every table that the operations use is opened, and no two share a column family. The keys of a table with a prefix are at least as long as the
  prefix, as the prefix extractor of the store demands, so a scan by prefix is defined on everything that is stored.
\<close>

lemma schemas_opened: "descriptor_of sc \<in> set cfs" "distinct (map ds_name cfs)"
  by (cases sc) (simp_all add: cfs_def schema_defs)

lemma schemas_separate: "ds_name (descriptor_of a) = ds_name (descriptor_of b) \<longleftrightarrow> a = b"
  by (cases a; cases b) (simp_all add: schema_defs)

lemma schema_prefix: "prefix_len sc = (case ds_prefix (descriptor_of sc) of Some n \<Rightarrow> n | None \<Rightarrow> 0)"
  by (cases sc) (simp_all add: schema_defs)

lemma keys_have_prefix: "(\<And>i. k = Key_Addr i \<Longrightarrow> wf_ip (sa_ip (ma_addr i))) \<Longrightarrow> prefix_len (schema_of k) \<le> length (key_bytes enc k)"
  by (cases k) (simp_all add: chunk_key_encode_def message_ty_encode_def message_sender_encode_def message_initiator_encode_def
      message_addr_encode_def log_level_encode_def connection_key_encode_def)

end
