(* ===== verification/Spec2Isabelle.thy ===== *)
theory Spec2Isabelle
  imports Wiretap Main_Loop Sniffer_Kernel Ring_Stream Db_Session Memprof_Kernel Memprof_Trackers
    Memprof_Resolver Memprof_State Peer_Programs Log_Search Log_Client Recorder_Server Memprof_Server
    Memprof_Json Memprof_Program Recorder_Program Extractor Mock_Db Db_Schema
begin

text \<open>
  A verification of the recorder of tezedge-debugger.

  \<^bold>\<open>The program.\<close> The debugger watches Tezos nodes from outside. A bpf module in the kernel
  (\<^verbatim>\<open>bpf-recorder\<close>) follows the system calls of the processes that bind a watched port and submits a
  record for each bind, connect, accept, read, write and close to a ring buffer. The recorder
  (\<^verbatim>\<open>tezedge-recorder\<close>) reads the ring buffer (\<^verbatim>\<open>bpf-ring-buffer\<close>), keeps a list of connections, takes the byte
  streams of each connection apart into chunks, derives the keys from the two connection messages,
  decrypts, assembles the chunks to messages and stores connections, chunks, messages and node
  logs in a key-value database with secondary indexes, which an HTTP server queries. A second pair of
  programs (\<^verbatim>\<open>bpf-memprof\<close>, \<^verbatim>\<open>tezedge-memprof\<close>) profiles the memory of the node: the kernel side reports
  allocated and released pages with the user stack, the consumer keeps the number of pages per stack and
  reports them as a tree.

  \<^bold>\<open>The model.\<close> Functions on words and lists of bytes, in the order of the sources. A computation
  that may panic returns \<open>panic + 'a\<close>; the operator \<^verbatim>\<open>?\<close> and the propagation of a panic are
  \<open>and_then\<close>. Integers have the width of the source and wrap, as in a release build. A struct is a
  record, an enum a datatype, a method a definition with the object as an argument. What the
  sources call outside the repository is a record of functions given as an argument: the
  cryptography (\<open>crypto\<close>, with the assumption \<open>crypto_total\<close>: keys of 32 bytes are accepted and nonces are
  made), the clock (\<open>clock\<close>), the parser of syslog lines (\<open>log_laws\<close>, on the lines that the generator makes), the layout of a struct with padding (\<open>event_id_layout\<close>, with \<open>layout_laws\<close>:
  16 bytes, read back), the key-value store (\<open>kv\<close>; \<open>kv_laws\<close>: putting, getting and deleting act on one entry;
  \<open>kv_reliable\<close>: no operation fails; \<open>scan_laws\<close> and \<open>iter_laws\<close>: iterators go through the entries in byte order), the
  merge of iterators (\<open>kmerge_laws\<close>), the kernel helpers (\<open>bpf_env\<close>; \<open>mem_env\<close> with \<open>mem_env_laws\<close>: a read has the length that was
  asked for, and \<open>reads_stack\<close>: the user stack is at the start of the buffer), the parser of ELF files and the demanglers (\<open>elf_env\<close>,
  \<open>resolver_env\<close>), the boxes, codecs and identities of the peers (\<open>box_env\<close> with \<open>box_laws\<close>: a box is opened to what it holds;
  \<open>hs_env\<close> with \<open>hs_laws\<close>: both sides derive one key and mirrored nonces), files, databases, threads and processes (\<open>sys_env\<close>,
  \<open>loop_env\<close>, \<open>program_env\<close>, \<open>profiler_env\<close>, \<open>docker_env\<close>), the HTTP client
  (\<open>extractor_env\<close>, \<open>http_laws\<close>, on the names that it asks for). Each has a concrete instance, \<open>sample_...\<close>, on which the witnesses compute.

  \<^bold>\<open>Theories\<close>, with the sources under \<^verbatim>\<open>src/\<close>.

  \<^item> \<open>Rust_Prelude\<close>, \<open>Rust_Strings\<close>: machine integers, panics, slices, byte order, the interfaces
    \<open>byte_codec\<close> and \<open>ordered_codec\<close> of the encoders; strings as the bytes of their UTF-8 form with their boundaries of characters; splitting, printing and parsing of
    numbers.
  \<^item> \<open>Chunk_Buffer\<close>: \<^verbatim>\<open>processor/chunk_parser/buffer.rs\<close>. Draining cuts exactly the framed prefix.
  \<^item> \<open>Common\<close>: \<^verbatim>\<open>common.rs\<close>. Message kinds, types and directions with their bytes and names.
  \<^item> \<open>Connection_Table\<close>, \<open>Chunk_Table\<close>, \<open>Message_Table\<close>, \<open>Node_Log\<close>, \<open>Secondary_Indexes\<close>: \<^verbatim>\<open>tables/\<close>. The rows, the
    byte layouts of keys and values (round trips, order of the keys, and when decoding panics), the
    printed keys, the syslog lines of a node.
  \<^item> \<open>Chunk_State\<close>, \<open>Chunk_Parser\<close>: \<^verbatim>\<open>processor/chunk_parser/\<close>. The handshake and the states of one direction. The
    loops over the buffer are shown equal to a fold over the framed chunks, so how system calls
    cut the stream does not matter.
  \<^item> \<open>Chunk_Recorder\<close>: the interface between the chunk parser and what handles its chunks (the trait
    \<^verbatim>\<open>ChunkHandler\<close>): every chunk with bytes is stored once, in order, with its number. The client's result, that the
    parser then records its input exactly, is proved in the locale and used by interpretation.
  \<^item> \<open>Message_Parser\<close>: \<^verbatim>\<open>processor/message_parser.rs\<close> and the builder of \<^verbatim>\<open>tables/message.rs\<close>; interprets the interface.
  \<^item> \<open>Connection_Processor\<close>: \<^verbatim>\<open>processor/connection.rs\<close>. The invariant of a connection over any sequence of payloads:
    no panic, and what is stored is what was sent.
  \<^item> \<open>Call_Log\<close>: the calls of a connection on its database are only appended to; a second interface of the
    chunk handlers (maps of their state), interpreted on the message parser.
  \<^item> \<open>System\<close>, \<open>Main_Loop\<close>: \<^verbatim>\<open>system.rs\<close>, \<^verbatim>\<open>main_loop.rs\<close>. The attached processes, the decoding of the records and the dispatch of the events; the result of
    one connection is lifted to the list of all of them under any interleaving, and the loop does
    not panic.
  \<^item> \<open>Sniffer_Event\<close>, \<open>Sniffer_Kernel\<close>: \<^verbatim>\<open>bpf-recorder\<close>, both sides: the programs on the system calls with their maps,
    the records they submit, and the parser of the records; from a system call to the event the main loop gets.
  \<^item> \<open>Ring_Buffer\<close>: the reader of \<^verbatim>\<open>bpf-ring-buffer\<close> over any sequence of observations of the shared memory: the
    records that are complete are returned in order, the positions are published, nothing is read twice.
  \<^item> \<open>Ring_Stream\<close>: mapping its memory, waiting, the asynchronous stream; a blocked reader delivers what arrives.
  \<^item> \<open>Sorted_Intersect\<close>, \<open>Rocks_Db\<close>: \<^verbatim>\<open>database/\<close>. The intersection of sorted iterators, shown equal to its
    specification, and the operations of the database over a key-value store.
  \<^item> \<open>Db_Store\<close>: storing refines a bounded log, a map from the last numbers to messages with which all five
    indexes agree; a stored message is read back with all its chunks.
  \<^item> \<open>Db_Query\<close>: the interface of an index by prefix (locale \<open>prefix_index\<close>, interpreted on the five of them) and the
    queries by any combination of types, direction, initiator and address, forwards (with at most one type) and backwards.
  \<^item> \<open>Db_Chunks\<close>, \<open>Db_Session\<close>: the chunks of a connection; the refinement over restarts, queries by time, previews.

  \<^item> \<open>Log_Search\<close>: \<^verbatim>\<open>database/search.rs\<close>. The thread that commits the index and the thread that writes to it, as a step relation; under
    every interleaving nothing is lost or reordered; when the last messages are never committed.
  \<^item> \<open>Log_Client\<close>: \<^verbatim>\<open>log_client.rs\<close> and the log commands of \<^verbatim>\<open>bin/pseudonode.rs\<close>: generated lines are received, parsed and stored,
    one row for each.
  \<^item> \<open>Recorder_Server\<close>: \<^verbatim>\<open>server.rs\<close>. The routes and their answers: links that are printed are served, the older interface agrees with the newer.
  \<^item> \<open>Db_Schema\<close>, \<open>Mock_Db\<close>: the column families, which are separate and all opened, and \<^verbatim>\<open>database/mock.rs\<close>, whose file is the log of the calls.
  \<^item> \<open>Recorder_Program\<close>: \<^verbatim>\<open>bin/main.rs\<close> and the configuration. The program as a whole, from the records of the ring buffer: when it does not
    panic, and when system calls are recorded.
  \<^item> \<open>Table_Json\<close>, \<open>Extractor\<close>: the JSON forms of \<^verbatim>\<open>tables/\<close> that are written by hand, and \<^verbatim>\<open>extractor/src/main.rs\<close>, a client of the server: what it collects
    is the newest message of each type in the database, but of two types it never asks for.
  \<^item> \<open>Pseudonode\<close>: \<^verbatim>\<open>pseudonode/\<close>. The peers that generate traffic: messages written by one are read by the other however the network cuts
    them, and the handshakes agree; when the reader hangs.
  \<^item> \<open>Replayer\<close>, \<open>Peer_Programs\<close>: \<^verbatim>\<open>bin/replayer.rs\<close>, \<^verbatim>\<open>bin/pseudonode.rs\<close>. The walk over a recording, shown once over the interface of the trait
    \<^verbatim>\<open>Replayer\<close> (locale \<open>replayer_laws\<close>, interpreted on the replayer over a socket), whose reads give messages or time out between them, and the programs: the two sides of the generated conversation
    understand each other.
  \<^item> \<open>Wiretap\<close>: the recorder and the peers together. A recorder with the identity of either program stores, in both directions, exactly the
    messages they say, however the system calls cut and interleave their bytes.

  \<^item> \<open>Memprof_Event\<close>, \<open>Memprof_Kernel\<close>: \<^verbatim>\<open>bpf-memprof-common\<close>, \<^verbatim>\<open>bpf-memprof\<close>. The fourteen kinds of trace points (locale
    \<open>pod_reader\<close>, interpreted on all of them), the programs, the choice of the node, the counter of lost events: a
    trace point that has room is understood by the client, up to the filler behind a stack, one that has none is counted.
  \<^item> \<open>Memprof_Program\<close>: the user side of \<^verbatim>\<open>bpf-memprof/src/main.rs\<close>, and the profiler from the trace points in the kernel to its report: after any sequence
    of started programs and trace points, and however they are polled, the report is the sum over the memory of the node, as the events tell it, and what is missing is counted.
  \<^item> \<open>Memprof_Json\<close>: the JSON forms of \<^verbatim>\<open>bpf-memprof-common\<close> that are written by hand, with their round trips.
  \<^item> \<open>Memprof_Report\<close>: \<^verbatim>\<open>history/report.rs\<close>. The tree of stacks: every node holds the sum of the stacks below it, and the
    sorted and serialised form adds up.
  \<^item> \<open>Memprof_Aggregator\<close>, \<open>Memprof_Account\<close>: \<^verbatim>\<open>collector/\<close>. The incremental counters refine the map from pages to stacks and orders;
    no record makes the consumer panic.
  \<^item> \<open>Memprof_History\<close>, \<open>Memprof_Allocation\<close>, \<open>Memprof_Trackers\<close>: \<^verbatim>\<open>history/\<close>. Two more implementations of the trait \<^verbatim>\<open>Tracker\<close>, one generic in
    the history of a page (locale \<open>page_history_laws\<close>, interpreted on \<^verbatim>\<open>EventLast\<close>), and the contract they share (locale
    \<open>tracker_laws\<close>, interpreted on all three): on well-behaved traces they report the memory that they keep, which is the same for all but the pages that leave the page cache.
  \<^item> \<open>Memprof_Symbols\<close>, \<open>Memprof_Resolver\<close>: \<^verbatim>\<open>table.rs\<close>, \<^verbatim>\<open>memory_map.rs\<close>, \<^verbatim>\<open>stack.rs\<close>. Symbols are found by binary search, shown equal to a
    linear one; lines of the memory map; copying binaries out of a container; the thread that loads the tables, whose turns find the world in changing states; from an
    address to a symbol, and when a file is given up for ever.
  \<^item> \<open>Memprof_State\<close>: \<^verbatim>\<open>state.rs\<close>. The counters of all kinds of events.
  \<^item> \<open>Memprof_Server\<close>: \<^verbatim>\<open>server.rs\<close> of the profiler. The routes and what is answered: the short report is exact.

  \<^bold>\<open>Bounds and loops.\<close> The loops over a buffer end because every turn removes at least two bytes
  (\<open>buffer_drain\<close> has a termination proof). The loops that depend on what the kernel writes
  meanwhile (\<open>read_loop\<close>, \<open>read_blocking\<close>, \<open>poll_next\<close>) or on what a socket delivers (\<open>read_chunk\<close>, \<open>read_msg_loop\<close>, \<open>replay_run\<close>) are partial
  functions to an option; their properties say that they return. Chunk numbers wrap at 64 bits as in the source; the results on tables state the bounds
  under which keys keep their order.

  \<^bold>\<open>What is not modelled.\<close> The web framework and the full text index (library code), the build scripts, parsing of command lines, the
  JSON forms and query strings that serde derives, logging, texts with floating point numbers. Loading the kernel modules is a parameter that
  succeeds or not. Threads are modelled where they share state (the index of the logs, the resolver of addresses, the kernel and the readers
  of its ring buffers); the atomic counters of the profiler are read one at a time.
\<close>

end
